(* ===== verification/Prelude.thy ===== *)
theory Prelude
  imports Main "HOL-Library.Word" "HOL-Library.Monad_Syntax"
begin

text \<open>
  Shared vocabulary of the development: the C types of the plugin as words, reads from a
  C buffer as partial functions, big-endian fields, and the generic list lemmas the components use.

  A C buffer is a list of bytes. A read outside the buffer is undefined behaviour in C, so the
  two readers \<open>rd\<close> (one byte) and \<open>rdn\<close> (a block, the source of a \<open>memcpy\<close>) return
  \<open>None\<close> there; a handler that returns \<open>Some\<close> has read nothing outside its buffers.
\<close>

unbundle bit_operations_syntax

subsection \<open>Machine types\<close>

type_synonym u8 = "8 word"
type_synonym u16 = "16 word"
type_synonym u32 = "32 word"
type_synonym u64 = "64 word"
type_synonym bytes = "u8 list"

text \<open>Constants of the transport stream (fixed by ISO 13818-1; VDR and FFdecsa use the same).\<close>

abbreviation (input) TS_SIZE :: nat where "TS_SIZE \<equiv> 188"
abbreviation (input) TS_SYNC_BYTE :: u8 where "TS_SYNC_BYTE \<equiv> 0x47"

text \<open>The integer value of an unsigned char after the C integer promotion, and the cast back.\<close>

abbreviation (input) int_of :: "u8 \<Rightarrow> int" where "int_of b \<equiv> uint b"
abbreviation (input) u8_of :: "int \<Rightarrow> u8" where "u8_of i \<equiv> word_of_int i"

subsection \<open>Automation collections\<close>

named_theorems rd_simps \<open>evaluation of in-range buffer reads\<close>
named_theorems wf_intros \<open>preservation of component invariants\<close>

subsection \<open>Buffer reads\<close>

definition rd :: "'a list \<Rightarrow> nat \<Rightarrow> 'a option" where
  "rd xs i = (if i < length xs then Some (xs ! i) else None)"

definition rdn :: "'a list \<Rightarrow> nat \<Rightarrow> nat \<Rightarrow> 'a list option" where
  "rdn xs off n = (if off + n \<le> length xs then Some (take n (drop off xs)) else None)"

lemma rd_Some [rd_simps]: "i < length xs \<Longrightarrow> rd xs i = Some (xs ! i)"
  by (simp add: rd_def)

lemma rd_None: "length xs \<le> i \<Longrightarrow> rd xs i = None"
  by (simp add: rd_def)

lemma rd_eq_Some_iff: "rd xs i = Some x \<longleftrightarrow> i < length xs \<and> xs ! i = x"
  by (auto simp: rd_def)

lemma rdn_Some [rd_simps]: "off + n \<le> length xs \<Longrightarrow> rdn xs off n = Some (take n (drop off xs))"
  by (simp add: rdn_def)

lemma rdn_None: "length xs < off + n \<Longrightarrow> rdn xs off n = None"
  by (simp add: rdn_def)

subsection \<open>Results that are there\<close>

text \<open>\<open>returns P r\<close>: the computation has left no buffer, and its result satisfies \<open>P\<close>.\<close>

definition returns :: "('a \<Rightarrow> bool) \<Rightarrow> 'a option \<Rightarrow> bool" where
  "returns P r \<longleftrightarrow> (\<exists>x. r = Some x \<and> P x)"

lemma returns_Some [simp]: "returns P (Some x) \<longleftrightarrow> P x" "\<not> returns P None"
  by (simp_all add: returns_def)

lemma returnsD: "returns P r \<Longrightarrow> r = Some x \<Longrightarrow> P x"
  by (simp add: returns_def)

lemma returnsE: "returns P r \<Longrightarrow> (\<And>x. r = Some x \<Longrightarrow> P x \<Longrightarrow> R) \<Longrightarrow> R"
  by (auto simp: returns_def)

lemma returns_bind: "returns P r \<Longrightarrow> (\<And>x. P x \<Longrightarrow> returns Q (f x)) \<Longrightarrow> returns Q (r \<bind> f)"
  by (auto simp: returns_def)

lemma returns_mono: "returns P r \<Longrightarrow> (\<And>x. P x \<Longrightarrow> Q x) \<Longrightarrow> returns Q r"
  by (auto simp: returns_def)

lemma returns_if: "(c \<Longrightarrow> returns P x) \<Longrightarrow> (\<not> c \<Longrightarrow> returns P y) \<Longrightarrow> returns P (if c then x else y)"
  by simp

subsection \<open>Big-endian fields\<close>

definition be16 :: "u8 \<Rightarrow> u8 \<Rightarrow> int" where
  "be16 h l = int_of h * 256 + int_of l"

lemma u8_range [simp]: "0 \<le> int_of b" "int_of b < 256"
  using uint_lt2p [of b] by simp_all

lemma u8_le_255 [simp]: "int_of b \<le> 255"
  using u8_range(2) [of b] by linarith

lemma be16_range [simp]: "0 \<le> be16 h l" "be16 h l < 65536"
proof -
  show "0 \<le> be16 h l" by (simp add: be16_def)
  have "int_of h \<le> 255" "int_of l \<le> 255" by simp_all
  then show "be16 h l < 65536" unfolding be16_def by linarith
qed

lemma uint_u8_of: "int_of (u8_of i) = i mod 256"
  by (simp add: uint_word_of_int)

lemma u8_of_cong: "i mod 256 = j mod 256 \<Longrightarrow> u8_of i = u8_of j"
  by (simp add: word_of_int_eq_iff take_bit_eq_mod)

lemma be16_u8_of: "be16 (u8_of (i div 256)) (u8_of i) = i mod 65536"
  using zmod_zmult2_eq [of 256 i 256] by (simp add: be16_def uint_u8_of)

lemma be16_split: "0 \<le> i \<Longrightarrow> i < 65536 \<Longrightarrow> be16 (u8_of (i div 256)) (u8_of i) = i"
proof -
  assume "0 \<le> i" "i < 65536"
  then have "(i div 256) mod 256 = i div 256" by (intro mod_pos_pos_trivial) auto
  then show ?thesis by (simp add: be16_def uint_u8_of)
qed

lemma u8_and_0F: "int_of (w AND 0x0F) = int_of w mod 16"
proof -
  have "w AND 0x0F = take_bit 4 w"
    by (simp add: take_bit_eq_mask mask_eq_exp_minus_1)
  then have "int_of (w AND 0x0F) = take_bit 4 (int_of w)"
    by (simp only: unsigned_take_bit_eq)
  then show ?thesis
    by (simp only: take_bit_eq_mod) simp
qed

lemma u8_and_0F_less: "int_of (w AND 0x0F) < 16"
  by (simp add: u8_and_0F)

text \<open>A 12-bit length field whose four upper bits carry reserved bits.\<close>

lemma be12_split:
  assumes "0 \<le> x" "x < 4096" "r AND 0x0F = 0"
  shows "be16 ((r OR (u8_of (x div 256) AND 0x0F)) AND 0x0F) (u8_of x) = x"
proof -
  have "(r OR (u8_of (x div 256) AND 0x0F)) AND 0x0F = u8_of (x div 256) AND 0x0F"
    using assms(3) by (simp add: bit.conj_disj_distrib2 and.assoc)
  moreover have "int_of (u8_of (x div 256) AND 0x0F) = x div 256"
    using assms(1,2) by (simp add: u8_and_0F uint_u8_of mod_mod_cancel)
  ultimately show ?thesis by (simp add: be16_def uint_u8_of)
qed

subsection \<open>Lists\<close>

lemma find_None_filter: "find P xs = None \<longleftrightarrow> filter P xs = []"
  by (auto simp: find_None_iff filter_empty_conv)

lemma filter_eq_self: "(\<And>x. x \<in> set xs \<Longrightarrow> P x) \<Longrightarrow> filter P xs = xs"
  by (simp add: filter_id_conv)

end
