(* ===== verification/GroupOps.thy ===== *)
theory GroupOps
  imports Prelude
begin

text \<open>
  The bit-slice interface of FFdecsa: a \<open>group\<close> holds one bit of each of the packets that are
  decrypted together, and the stream cypher is written over six operations on groups that every
  parallel mode defines (parallel_*.h). The operations are a record that the cypher takes as an
  argument.

  The locale \<open>bitslice\<close> is the contract of a mode: bit \<open>i\<close> of a group (its lane \<open>i\<close>) is computed by the
  boolean operation from the lanes \<open>i\<close> of the arguments. PARALLEL_32_INT, one 32-bit
  unsigned int per group, provides it; so do the booleans, a group with a single lane.
\<close>

record 'g group_ops =
  FFXOR :: "'g \<Rightarrow> 'g \<Rightarrow> 'g"
  FFAND :: "'g \<Rightarrow> 'g \<Rightarrow> 'g"
  FFOR :: "'g \<Rightarrow> 'g \<Rightarrow> 'g"
  FFNOT :: "'g \<Rightarrow> 'g"
  FF0 :: 'g
  FF1 :: 'g

text \<open>parallel_032_int.h with parallel_std_def.h.\<close>

definition int32_ops :: "u32 group_ops" where
  "int32_ops = \<lparr>FFXOR = (\<lambda>a b. a XOR b), FFAND = (\<lambda>a b. a AND b), FFOR = (\<lambda>a b. a OR b),
     FFNOT = (\<lambda>a. NOT a), FF0 = 0x0, FF1 = 0xffffffff\<rparr>"

abbreviation (input) GROUP_PARALLELISM :: nat where "GROUP_PARALLELISM \<equiv> 32"

text \<open>One lane.\<close>

definition bool_ops :: "bool group_ops" where
  "bool_ops = \<lparr>FFXOR = (\<lambda>a b. a \<noteq> b), FFAND = (\<and>), FFOR = (\<or>), FFNOT = Not, FF0 = False, FF1 = True\<rparr>"

locale bitslice =
  fixes g :: "'g group_ops" and lane :: "nat \<Rightarrow> 'g \<Rightarrow> bool" and par :: nat
  assumes lane_xor: "i < par \<Longrightarrow> lane i (FFXOR g a b) \<longleftrightarrow> lane i a \<noteq> lane i b"
    and lane_and: "i < par \<Longrightarrow> lane i (FFAND g a b) \<longleftrightarrow> lane i a \<and> lane i b"
    and lane_or: "i < par \<Longrightarrow> lane i (FFOR g a b) \<longleftrightarrow> lane i a \<or> lane i b"
    and lane_not: "i < par \<Longrightarrow> lane i (FFNOT g a) \<longleftrightarrow> \<not> lane i a"
    and lane_0: "i < par \<Longrightarrow> \<not> lane i (FF0 g)"
    and lane_1: "i < par \<Longrightarrow> lane i (FF1 g)"
begin

text \<open>A lane is a homomorphism to the one-lane operations.\<close>

lemma lane_hom:
  assumes "i < par"
  shows "lane i (FFXOR g a b) = FFXOR bool_ops (lane i a) (lane i b)"
    "lane i (FFAND g a b) = FFAND bool_ops (lane i a) (lane i b)"
    "lane i (FFOR g a b) = FFOR bool_ops (lane i a) (lane i b)"
    "lane i (FFNOT g a) = FFNOT bool_ops (lane i a)"
    "lane i (FF0 g) = FF0 bool_ops"
    "lane i (FF1 g) = FF1 bool_ops"
  using assms by (simp_all add: bool_ops_def lane_xor lane_and lane_or lane_not lane_0 lane_1)

end

interpretation bool1: bitslice bool_ops "\<lambda>i b. b" 1
  by unfold_locales (simp_all add: bool_ops_def)

lemma bit_all_ones32: "i < 32 \<Longrightarrow> bit (0xffffffff :: u32) i"
proof -
  assume "i < 32"
  then have "bit (mask 32 :: u32) i" unfolding bit_mask_iff by simp
  moreover have "(mask 32 :: u32) = 0xffffffff" by (simp add: mask_eq_exp_minus_1)
  ultimately show ?thesis by (simp only:)
qed

interpretation int32: bitslice int32_ops "\<lambda>i w. bit w i" 32
proof unfold_locales
  fix i :: nat and a :: u32
  assume i: "i < 32"
  show "bit (FFNOT int32_ops a) i \<longleftrightarrow> \<not> bit a i"
    using i by (simp add: int32_ops_def bit_simps)
  show "bit (FF1 int32_ops) i" using bit_all_ones32 [OF i] by (simp add: int32_ops_def)
qed (simp_all add: int32_ops_def bit_simps)

end
