(* ===== verification/Stream.thy ===== *)
theory Stream
  imports GroupOps
begin

text \<open>
  The bit-sliced stream cypher of FFdecsa (stream.c, compiled twice, as \<open>stream_cypher_group_init\<close>
  and \<open>stream_cypher_group_normal\<close>), over any record of group operations. A \<open>group X[4]\<close> is a \<open>nib\<close>:
  the four bits of a nibble, each bit for all packets at once. The arrays \<open>A\<close> and \<open>B\<close> of 42 rows are
  the virtual shift registers: a register is the window of ten rows from \<open>aboff\<close>, which moves down
  by one row per step, and after 32 steps is copied back to the top.

  This theory holds the code without the transposition between bytes and groups, which is in theory
  \<open>Transpose\<close>, and shows that the cypher works on each lane separately.
\<close>

subsection \<open>Registers\<close>

datatype 'g nib = Nib (b0: 'g) (b1: 'g) (b2: 'g) (b3: 'g)

record 'g stream_regs =
  rA :: "'g nib list"
  rB :: "'g nib list"
  rX :: "'g nib"
  rY :: "'g nib"
  rZ :: "'g nib"
  rD :: "'g nib"
  rE :: "'g nib"
  rF :: "'g nib"
  rp :: 'g
  rq :: 'g
  rr :: 'g

definition xor4 :: "'g group_ops \<Rightarrow> 'g nib \<Rightarrow> 'g nib \<Rightarrow> 'g nib" where
  "xor4 g x y = Nib (FFXOR g (b0 x) (b0 y)) (FFXOR g (b1 x) (b1 y)) (FFXOR g (b2 x) (b2 y)) (FFXOR g (b3 x) (b3 y))"

subsection \<open>The s-boxes as boolean circuits\<close>

definition sbox1 :: "'g group_ops \<Rightarrow> 'g \<Rightarrow> 'g \<Rightarrow> 'g \<Rightarrow> 'g \<Rightarrow> 'g \<Rightarrow> 'g \<times> 'g" where
  "sbox1 g fe fa fb fc fd =
     (let tmp0 = FFXOR g fa (FFXOR g fb (FFXOR g (FFOR g (FFXOR g (FFOR g fa fb) fc) (FFXOR g fc fd)) (FF1 g)));
          tmp1 = FFXOR g (FFOR g fa fb) (FFXOR g (FFAND g fc (FFOR g fa (FFXOR g fb fd))) (FF1 g));
          tmp2 = FFXOR g fa (FFXOR g (FFAND g fb fd) (FFOR g (FFAND g fa fd) fc));
          tmp3 = FFXOR g (FFAND g fa fc) (FFXOR g fa (FFOR g (FFAND g fa fb) fd));
          s1a = FFXOR g tmp0 (FFAND g fe tmp1);
          s1b = FFXOR g tmp2 (FFAND g fe tmp3)
      in (s1a, s1b))"

definition sbox2 :: "'g group_ops \<Rightarrow> 'g \<Rightarrow> 'g \<Rightarrow> 'g \<Rightarrow> 'g \<Rightarrow> 'g \<Rightarrow> 'g \<times> 'g" where
  "sbox2 g fe fa fb fc fd =
     (let tmp0 = FFXOR g fa (FFXOR g (FFAND g fb (FFOR g fc fd)) (FFXOR g fc (FFXOR g fd (FF1 g))));
          tmp1 = FFOR g (FFAND g fa (FFXOR g fb fd)) (FFAND g (FFOR g fa fb) fc);
          tmp2 = FFXOR g (FFAND g fb fd) (FFOR g (FFAND g fa fd) (FFXOR g fb (FFXOR g fc (FF1 g))));
          tmp3 = FFOR g (FFAND g fa fd) (FFXOR g fa (FFXOR g fb (FFAND g fc fd)));
          s2a = FFXOR g tmp0 (FFAND g fe tmp1);
          s2b = FFXOR g tmp2 (FFAND g fe tmp3)
      in (s2a, s2b))"

definition sbox3 :: "'g group_ops \<Rightarrow> 'g \<Rightarrow> 'g \<Rightarrow> 'g \<Rightarrow> 'g \<Rightarrow> 'g \<Rightarrow> 'g \<times> 'g" where
  "sbox3 g fe fa fb fc fd =
     (let tmp0 = FFXOR g fa (FFXOR g fb (FFXOR g (FFAND g fc (FFOR g fa fd)) fd));
          tmp1 = FFXOR g (FFAND g fa fc) (FFOR g (FFXOR g fa fd) (FFXOR g (FFOR g fb fc) (FFXOR g fd (FF1 g))));
          tmp2 = FFXOR g fa (FFXOR g (FFAND g (FFXOR g fb fc) fd) fc);
          tmp3 = FF1 g;
          s3a = FFXOR g tmp0 (FFAND g (FFNOT g fe) tmp1);
          s3b = FFXOR g tmp2 (FFAND g fe tmp3)
      in (s3a, s3b))"

definition sbox4 :: "'g group_ops \<Rightarrow> 'g \<Rightarrow> 'g \<Rightarrow> 'g \<Rightarrow> 'g \<Rightarrow> 'g \<Rightarrow> 'g \<times> 'g" where
  "sbox4 g fe fa fb fc fd =
     (let tmp0 = FFXOR g fa (FFOR g (FFAND g fc (FFXOR g fa fd)) (FFXOR g fb (FFOR g fc (FFXOR g fd (FF1 g)))));
          tmp1 = FFXOR g (FFAND g fa fb) (FFXOR g fb (FFXOR g (FFAND g (FFOR g fa fc) fd) fc));
          tmp2 = FFXOR g fa (FFOR g (FFAND g fb fc) (FFXOR g (FFOR g (FFAND g fa (FFXOR g fb fd)) fc) fd));
          tmp3 = FF1 g;
          s4a = FFXOR g tmp0 (FFAND g fe (FFXOR g tmp1 tmp0));
          s4b = FFXOR g (FFXOR g s4a tmp2) (FFAND g fe tmp3)
      in (s4a, s4b))"

definition sbox5 :: "'g group_ops \<Rightarrow> 'g \<Rightarrow> 'g \<Rightarrow> 'g \<Rightarrow> 'g \<Rightarrow> 'g \<Rightarrow> 'g \<times> 'g" where
  "sbox5 g fe fa fb fc fd =
     (let tmp0 = FFOR g (FFXOR g (FFAND g fa (FFOR g fb fc)) fb) (FFXOR g (FFOR g (FFXOR g fa fc) fd) (FF1 g));
          tmp1 = FFXOR g fb (FFAND g (FFXOR g fc fd) (FFXOR g fc (FFOR g fb (FFXOR g fa fd))));
          tmp2 = FFXOR g (FFAND g fa fc) (FFXOR g fb (FFAND g (FFOR g fb (FFXOR g fa fc)) fd));
          tmp3 = FFOR g (FFAND g (FFXOR g fa fb) (FFXOR g fc (FF1 g))) fd;
          s5a = FFXOR g tmp0 (FFAND g fe tmp1);
          s5b = FFXOR g tmp2 (FFAND g fe tmp3)
      in (s5a, s5b))"

definition sbox6 :: "'g group_ops \<Rightarrow> 'g \<Rightarrow> 'g \<Rightarrow> 'g \<Rightarrow> 'g \<Rightarrow> 'g \<Rightarrow> 'g \<times> 'g" where
  "sbox6 g fe fa fb fc fd =
     (let tmp0 = FFXOR g (FFAND g (FFAND g fa fc) fd) (FFXOR g (FFAND g fb (FFOR g fa fd)) fc);
          tmp1 = FFXOR g (FFAND g (FFXOR g fa fc) fd) (FF1 g);
          tmp2 = FFXOR g (FFAND g fa (FFOR g fb fc)) (FFXOR g fb (FFOR g (FFAND g fb fc) fd));
          tmp3 = FFAND g fc (FFXOR g (FFAND g fa (FFXOR g fb fd)) (FFOR g fb fd));
          s6a = FFXOR g tmp0 (FFAND g fe tmp1);
          s6b = FFXOR g tmp2 (FFAND g fe tmp3)
      in (s6a, s6b))"

definition sbox7 :: "'g group_ops \<Rightarrow> 'g \<Rightarrow> 'g \<Rightarrow> 'g \<Rightarrow> 'g \<Rightarrow> 'g \<Rightarrow> 'g \<times> 'g" where
  "sbox7 g fe fa fb fc fd =
     (let tmp0 = FFXOR g fb (FFOR g (FFAND g fc fd) (FFXOR g fa (FFXOR g fc fd)));
          tmp1 = FFAND g (FFOR g fb fd) (FFOR g (FFAND g fa fc) (FFXOR g fb (FFXOR g fc fd)));
          tmp2 = FFXOR g (FFOR g fa fb) (FFXOR g (FFAND g fc (FFOR g fb fd)) fd);
          tmp3 = FFOR g fd (FFXOR g (FFAND g fa fc) (FF1 g));
          s7a = FFXOR g tmp0 (FFAND g fe tmp1);
          s7b = FFXOR g tmp2 (FFAND g fe tmp3)
      in (s7a, s7b))"

text \<open>The outputs that the seven s-boxes give the registers X, Y, Z, p and q.\<close>

definition sboxes :: "'g group_ops \<Rightarrow> 'g nib list \<Rightarrow> nat \<Rightarrow> 'g nib \<times> 'g nib \<times> 'g nib \<times> 'g \<times> 'g" where
  "sboxes g A aboff =
     (let (s1a, s1b) = sbox1 g (b0 (A ! (aboff + 3))) (b2 (A ! (aboff + 0))) (b1 (A ! (aboff + 5)))
                         (b3 (A ! (aboff + 6))) (b0 (A ! (aboff + 8)));
          (s2a, s2b) = sbox2 g (b1 (A ! (aboff + 1))) (b2 (A ! (aboff + 2))) (b3 (A ! (aboff + 5)))
                         (b0 (A ! (aboff + 6))) (b1 (A ! (aboff + 8)));
          (s3a, s3b) = sbox3 g (b3 (A ! (aboff + 0))) (b0 (A ! (aboff + 1))) (b1 (A ! (aboff + 4)))
                         (b3 (A ! (aboff + 4))) (b2 (A ! (aboff + 5)));
          (s4a, s4b) = sbox4 g (b3 (A ! (aboff + 2))) (b1 (A ! (aboff + 0))) (b3 (A ! (aboff + 1)))
                         (b2 (A ! (aboff + 3))) (b0 (A ! (aboff + 7)));
          (s5a, s5b) = sbox5 g (b2 (A ! (aboff + 4))) (b3 (A ! (aboff + 3))) (b0 (A ! (aboff + 5)))
                         (b1 (A ! (aboff + 7))) (b2 (A ! (aboff + 8)));
          (s6a, s6b) = sbox6 g (b1 (A ! (aboff + 2))) (b1 (A ! (aboff + 3))) (b0 (A ! (aboff + 4)))
                         (b2 (A ! (aboff + 6))) (b3 (A ! (aboff + 8)));
          (s7a, s7b) = sbox7 g (b2 (A ! (aboff + 1))) (b0 (A ! (aboff + 2))) (b1 (A ! (aboff + 6)))
                         (b2 (A ! (aboff + 7))) (b3 (A ! (aboff + 7)))
      in (Nib s1a s2a s3b s4b, Nib s3a s4a s5b s6b, Nib s5a s6a s1b s2b, s7a, s7b))"

subsection \<open>One step\<close>

text \<open>The extra nibble for T3.\<close>

definition extra_B :: "'g group_ops \<Rightarrow> 'g nib list \<Rightarrow> nat \<Rightarrow> 'g nib" where
  "extra_B g B aboff =
     (let x = FFXOR g in
      Nib (x (x (x (b2 (B ! (aboff + 8))) (b3 (B ! (aboff + 5)))) (b1 (B ! (aboff + 2)))) (b0 (B ! (aboff + 7))))
          (x (x (x (b3 (B ! (aboff + 4))) (b2 (B ! (aboff + 7)))) (b0 (B ! (aboff + 3)))) (b1 (B ! (aboff + 4))))
          (x (x (x (b0 (B ! (aboff + 5))) (b1 (B ! (aboff + 7)))) (b3 (B ! (aboff + 2)))) (b2 (B ! (aboff + 3))))
          (x (x (x (b0 (B ! (aboff + 2))) (b1 (B ! (aboff + 5)))) (b2 (B ! (aboff + 6)))) (b3 (B ! (aboff + 8)))))"

text \<open>T2: rotate left where p is set.\<close>

definition rotate_p :: "'g group_ops \<Rightarrow> 'g \<Rightarrow> 'g nib \<Rightarrow> 'g nib" where
  "rotate_p g p n =
     (let tmp3 = b3 n;
          n3 = FFXOR g (b3 n) (FFAND g (FFXOR g (b3 n) (b2 n)) p);
          n2 = FFXOR g (b2 n) (FFAND g (FFXOR g (b2 n) (b1 n)) p);
          n1 = FFXOR g (b1 n) (FFAND g (FFXOR g (b1 n) (b0 n)) p);
          n0 = FFXOR g (b0 n) (FFAND g (FFXOR g (b0 n) tmp3) p)
      in Nib n0 n1 n2 n3)"

text \<open>T4: where q is set, the sum and the carry of Z, E and r.\<close>

definition add_q :: "'g group_ops \<Rightarrow> 'g \<Rightarrow> 'g nib \<Rightarrow> 'g nib \<Rightarrow> 'g \<Rightarrow> 'g nib \<times> 'g" where
  "add_q g q Z E r =
     (let tmp0 = FFXOR g (b0 Z) (b0 E); tmp1 = FFAND g (b0 Z) (b0 E);
          f0 = FFXOR g (b0 E) (FFAND g q (FFXOR g (b0 Z) r));
          tmp3 = FFAND g tmp0 r; tmp4 = FFOR g tmp1 tmp3;
          tmp0 = FFXOR g (b1 Z) (b1 E); tmp1 = FFAND g (b1 Z) (b1 E);
          f1 = FFXOR g (b1 E) (FFAND g q (FFXOR g (b1 Z) tmp4));
          tmp3 = FFAND g tmp0 tmp4; tmp4 = FFOR g tmp1 tmp3;
          tmp0 = FFXOR g (b2 Z) (b2 E); tmp1 = FFAND g (b2 Z) (b2 E);
          f2 = FFXOR g (b2 E) (FFAND g q (FFXOR g (b2 Z) tmp4));
          tmp3 = FFAND g tmp0 tmp4; tmp4 = FFOR g tmp1 tmp3;
          tmp0 = FFXOR g (b3 Z) (b3 E); tmp1 = FFAND g (b3 Z) (b3 E);
          f3 = FFXOR g (b3 E) (FFAND g q (FFXOR g (b3 Z) tmp4));
          tmp3 = FFAND g tmp0 tmp4;
          r' = FFXOR g r (FFAND g q (FFXOR g (FFOR g tmp1 tmp3) r))
      in (Nib f0 f1 f2 f3, r'))"

text \<open>The body of the internal loop. \<open>inp\<close> is \<open>None\<close> in the normal version; in the init version it
  holds what is xored to the new rows of A and B.\<close>

definition stream_step :: "'g group_ops \<Rightarrow> ('g nib \<times> 'g nib) option \<Rightarrow> nat \<Rightarrow> 'g stream_regs \<Rightarrow> 'g stream_regs" where
  "stream_step g inp aboff regs =
     (let A = rA regs; B = rB regs;
          (X, Y, Z, p, q) = sboxes g A aboff;
          next_A = xor4 g (A ! (aboff + 9)) (rX regs);
          next_A = (case inp of None \<Rightarrow> next_A
                    | Some (inA, inB) \<Rightarrow> xor4 g (xor4 g next_A (rD regs)) inA);
          next_B = xor4 g (xor4 g (B ! (aboff + 6)) (B ! (aboff + 9))) (rY regs);
          next_B = (case inp of None \<Rightarrow> next_B | Some (inA, inB) \<Rightarrow> xor4 g next_B inB);
          next_B = rotate_p g (rp regs) next_B;
          D = xor4 g (xor4 g (rE regs) (rZ regs)) (extra_B g B aboff);
          (F, r) = add_q g (rq regs) (rZ regs) (rE regs) (rr regs)
      in \<lparr>rA = A[aboff - 1 := next_A], rB = B[aboff - 1 := next_B], rX = X, rY = Y, rZ = Z,
          rD = D, rE = rF regs, rF = F, rp = p, rq = q, rr = r\<rparr>)"

subsection \<open>The loops\<close>

text \<open>The two nested loops in order.\<close>

definition loop_ij :: "(nat \<times> nat) list" where
  "loop_ij = concat (map (\<lambda>i. map (\<lambda>j. (i, j)) [0, 1, 2, 3]) [0, 1, 2, 3, 4, 5, 6, 7])"

text \<open>The input of step \<open>j\<close> for byte \<open>i\<close>: its high nibble \<open>in1\<close> and its low nibble \<open>in2\<close> change places
  in every step.\<close>

definition init_input :: "'g list \<Rightarrow> nat \<Rightarrow> nat \<Rightarrow> 'g nib \<times> 'g nib" where
  "init_input sb_g i j =
     (let in1 = Nib (sb_g ! (8 * i + 4)) (sb_g ! (8 * i + 5)) (sb_g ! (8 * i + 6)) (sb_g ! (8 * i + 7));
          in2 = Nib (sb_g ! (8 * i)) (sb_g ! (8 * i + 1)) (sb_g ! (8 * i + 2)) (sb_g ! (8 * i + 3))
      in if j mod 2 \<noteq> 0 then (in2, in1) else (in1, in2))"

text \<open>The registers after loading the key: \<open>iA\<close> and \<open>iB\<close> at rows 32 to 39, everything else 0. The rows
  below are not initialised.\<close>

definition load_key :: "'g group_ops \<Rightarrow> 'g nib list \<Rightarrow> 'g nib list \<Rightarrow> 'g stream_regs \<Rightarrow> 'g stream_regs" where
  "load_key g iA iB regs =
     (let z = Nib (FF0 g) (FF0 g) (FF0 g) (FF0 g)
      in \<lparr>rA = take 32 (rA regs) @ take 8 iA @ [z, z], rB = take 32 (rB regs) @ take 8 iB @ [z, z],
          rX = z, rY = z, rZ = z, rD = z, rE = z, rF = z, rp = FF0 g, rq = FF0 g, rr = FF0 g\<rparr>)"

definition move_forward :: "'g stream_regs \<Rightarrow> 'g stream_regs" where
  "move_forward regs =
     regs\<lparr>rA := take 32 (rA regs) @ take 10 (rA regs), rB := take 32 (rB regs) @ take 10 (rB regs)\<rparr>"

text \<open>One round of the loops, on the loop state: \<open>aboff\<close>, the registers, and in the normal version the
  output groups.\<close>

definition init_body :: "'g group_ops \<Rightarrow> 'g list \<Rightarrow> nat \<times> nat \<Rightarrow> nat \<times> 'g stream_regs \<Rightarrow> nat \<times> 'g stream_regs" where
  "init_body g sb_g = (\<lambda>(i, j) (aboff, regs).
     (aboff - 1, stream_step g (Some (init_input sb_g i j)) aboff regs))"

definition normal_body ::
  "'g group_ops \<Rightarrow> nat \<times> nat \<Rightarrow> nat \<times> 'g stream_regs \<times> 'g list \<Rightarrow> nat \<times> 'g stream_regs \<times> 'g list" where
  "normal_body g = (\<lambda>(i, j) (aboff, regs, cb_g).
     (let regs = stream_step g None aboff regs; D = rD regs
      in (aboff - 1, regs,
          cb_g[8 * i + 7 - 2 * j := FFXOR g (b2 D) (b3 D), 8 * i + 6 - 2 * j := FFXOR g (b0 D) (b1 D)])))"

definition stream_init ::
  "'g group_ops \<Rightarrow> 'g nib list \<Rightarrow> 'g nib list \<Rightarrow> 'g list \<Rightarrow> 'g stream_regs \<Rightarrow> 'g stream_regs" where
  "stream_init g iA iB sb_g regs =
     move_forward (snd (fold (init_body g sb_g) loop_ij (32, load_key g iA iB regs)))"

definition stream_normal :: "'g group_ops \<Rightarrow> 'g stream_regs \<Rightarrow> 'g list \<Rightarrow> 'g stream_regs \<times> 'g list" where
  "stream_normal g regs cb_g =
     (case fold (normal_body g) loop_ij (32, regs, cb_g) of (aboff, regs, cb_g) \<Rightarrow> (move_forward regs, cb_g))"

subsection \<open>Each lane on its own\<close>

definition lane_regs :: "('g \<Rightarrow> bool) \<Rightarrow> 'g stream_regs \<Rightarrow> bool stream_regs" where
  "lane_regs f regs = \<lparr>rA = map (map_nib f) (rA regs), rB = map (map_nib f) (rB regs),
     rX = map_nib f (rX regs), rY = map_nib f (rY regs), rZ = map_nib f (rZ regs), rD = map_nib f (rD regs),
     rE = map_nib f (rE regs), rF = map_nib f (rF regs), rp = f (rp regs), rq = f (rq regs), rr = f (rr regs)\<rparr>"

definition wf_regs :: "'g stream_regs \<Rightarrow> bool" where
  "wf_regs regs \<longleftrightarrow> length (rA regs) = 42 \<and> length (rB regs) = 42"

lemma map_nib_sel [simp]: "b0 (map_nib f n) = f (b0 n)" "b1 (map_nib f n) = f (b1 n)"
  "b2 (map_nib f n) = f (b2 n)" "b3 (map_nib f n) = f (b3 n)"
  by (cases n; simp)+

lemma wf_step [wf_intros]: "wf_regs regs \<Longrightarrow> wf_regs (stream_step g inp aboff regs)"
  by (simp add: wf_regs_def stream_step_def Let_def split_def)

context bitslice
begin

lemma lane_sbox:
  assumes "k < par"
  shows "lane k (fst (sbox1 g e a b c d)) = fst (sbox1 bool_ops (lane k e) (lane k a) (lane k b) (lane k c) (lane k d))"
    "lane k (snd (sbox1 g e a b c d)) = snd (sbox1 bool_ops (lane k e) (lane k a) (lane k b) (lane k c) (lane k d))"
    "lane k (fst (sbox2 g e a b c d)) = fst (sbox2 bool_ops (lane k e) (lane k a) (lane k b) (lane k c) (lane k d))"
    "lane k (snd (sbox2 g e a b c d)) = snd (sbox2 bool_ops (lane k e) (lane k a) (lane k b) (lane k c) (lane k d))"
    "lane k (fst (sbox3 g e a b c d)) = fst (sbox3 bool_ops (lane k e) (lane k a) (lane k b) (lane k c) (lane k d))"
    "lane k (snd (sbox3 g e a b c d)) = snd (sbox3 bool_ops (lane k e) (lane k a) (lane k b) (lane k c) (lane k d))"
    "lane k (fst (sbox4 g e a b c d)) = fst (sbox4 bool_ops (lane k e) (lane k a) (lane k b) (lane k c) (lane k d))"
    "lane k (snd (sbox4 g e a b c d)) = snd (sbox4 bool_ops (lane k e) (lane k a) (lane k b) (lane k c) (lane k d))"
    "lane k (fst (sbox5 g e a b c d)) = fst (sbox5 bool_ops (lane k e) (lane k a) (lane k b) (lane k c) (lane k d))"
    "lane k (snd (sbox5 g e a b c d)) = snd (sbox5 bool_ops (lane k e) (lane k a) (lane k b) (lane k c) (lane k d))"
    "lane k (fst (sbox6 g e a b c d)) = fst (sbox6 bool_ops (lane k e) (lane k a) (lane k b) (lane k c) (lane k d))"
    "lane k (snd (sbox6 g e a b c d)) = snd (sbox6 bool_ops (lane k e) (lane k a) (lane k b) (lane k c) (lane k d))"
    "lane k (fst (sbox7 g e a b c d)) = fst (sbox7 bool_ops (lane k e) (lane k a) (lane k b) (lane k c) (lane k d))"
    "lane k (snd (sbox7 g e a b c d)) = snd (sbox7 bool_ops (lane k e) (lane k a) (lane k b) (lane k c) (lane k d))"
  by (simp_all add: sbox1_def sbox2_def sbox3_def sbox4_def sbox5_def sbox6_def sbox7_def Let_def
      lane_hom [OF assms])

lemma lane_xor4: "k < par \<Longrightarrow> map_nib (lane k) (xor4 g x y) = xor4 bool_ops (map_nib (lane k) x) (map_nib (lane k) y)"
  by (simp add: xor4_def lane_hom)

lemma lane_rotate: "k < par \<Longrightarrow> map_nib (lane k) (rotate_p g p n) = rotate_p bool_ops (lane k p) (map_nib (lane k) n)"
  by (simp add: rotate_p_def Let_def lane_hom)

lemma lane_add:
  "k < par \<Longrightarrow> map_prod (map_nib (lane k)) (lane k) (add_q g q Z E r) =
     add_q bool_ops (lane k q) (map_nib (lane k) Z) (map_nib (lane k) E) (lane k r)"
  by (simp add: add_q_def Let_def lane_hom)

lemma lane_extra:
  "k < par \<Longrightarrow> aboff + 9 < length B \<Longrightarrow>
     map_nib (lane k) (extra_B g B aboff) = extra_B bool_ops (map (map_nib (lane k)) B) aboff"
  by (simp add: extra_B_def Let_def lane_hom)

lemma lane_sboxes:
  "k < par \<Longrightarrow> aboff + 9 < length A \<Longrightarrow>
     sboxes bool_ops (map (map_nib (lane k)) A) aboff =
     (case sboxes g A aboff of (X, Y, Z, p, q) \<Rightarrow>
        (map_nib (lane k) X, map_nib (lane k) Y, map_nib (lane k) Z, lane k p, lane k q))"
  by (simp add: sboxes_def Let_def split_def lane_sbox)

lemma lane_step:
  assumes k: "k < par" and ab: "aboff + 9 < length (rA regs)" "aboff + 9 < length (rB regs)"
  shows "lane_regs (lane k) (stream_step g inp aboff regs) =
    stream_step bool_ops (map_option (map_prod (map_nib (lane k)) (map_nib (lane k))) inp) aboff (lane_regs (lane k) regs)"
proof -
  obtain X Y Z p q where s: "sboxes g (rA regs) aboff = (X, Y, Z, p, q)" by (metis surj_pair)
  obtain F r where a: "add_q g (rq regs) (rZ regs) (rE regs) (rr regs) = (F, r)" by fastforce
  have s': "sboxes bool_ops (map (map_nib (lane k)) (rA regs)) aboff =
      (map_nib (lane k) X, map_nib (lane k) Y, map_nib (lane k) Z, lane k p, lane k q)"
    using lane_sboxes [OF k ab(1)] s by simp
  have a': "add_q bool_ops (lane k (rq regs)) (map_nib (lane k) (rZ regs)) (map_nib (lane k) (rE regs)) (lane k (rr regs)) =
      (map_nib (lane k) F, lane k r)"
    using lane_add [OF k, of "rq regs" "rZ regs" "rE regs" "rr regs"] a by simp
  have nth: "map_nib (lane k) (rA regs ! (aboff + 9)) = map (map_nib (lane k)) (rA regs) ! (aboff + 9)"
    "map_nib (lane k) (rB regs ! (aboff + 6)) = map (map_nib (lane k)) (rB regs) ! (aboff + 6)"
    "map_nib (lane k) (rB regs ! (aboff + 9)) = map (map_nib (lane k)) (rB regs) ! (aboff + 9)"
    using ab by simp_all
  show ?thesis
    by (cases inp)
      (auto simp: stream_step_def lane_regs_def Let_def s a s' a' map_update lane_xor4 [OF k] lane_rotate [OF k]
        lane_extra [OF k ab(2)] nth split: prod.splits)
qed

end

lemma loop_ij_bounds: "ij \<in> set loop_ij \<Longrightarrow> fst ij < 8 \<and> snd ij < 4"
  by (auto simp: loop_ij_def)

lemma length_loop_ij: "length loop_ij = 32"
  by (simp add: loop_ij_def)

lemma wf_normal_fold:
  "wf_regs rs \<Longrightarrow> wf_regs (fst (snd (fold (normal_body g) ps (aboff, rs, cb))))"
  by (induction ps arbitrary: aboff rs cb) (auto simp: normal_body_def Let_def split_def intro: wf_step)

lemma wf_init_fold:
  "wf_regs rs \<Longrightarrow> wf_regs (snd (fold (init_body g sb) ps (aboff, rs)))"
  by (induction ps arbitrary: aboff rs) (auto simp: init_body_def split_def intro: wf_step)

lemma wf_load [wf_intros]: "wf_regs regs \<Longrightarrow> length iA = 8 \<Longrightarrow> length iB = 8 \<Longrightarrow> wf_regs (load_key g iA iB regs)"
  by (simp add: wf_regs_def load_key_def Let_def)

lemma wf_forward [wf_intros]: "wf_regs regs \<Longrightarrow> wf_regs (move_forward regs)"
  by (simp add: wf_regs_def move_forward_def)

lemma wf_init [wf_intros]:
  "wf_regs regs \<Longrightarrow> length iA = 8 \<Longrightarrow> length iB = 8 \<Longrightarrow> wf_regs (stream_init g iA iB sb regs)"
  unfolding stream_init_def by (intro wf_forward wf_init_fold wf_load)

lemma wf_normal [wf_intros]: "wf_regs regs \<Longrightarrow> wf_regs (fst (stream_normal g regs cb))"
  using wf_normal_fold [of regs g loop_ij 32 cb]
  by (auto simp: stream_normal_def split: prod.splits intro: wf_forward)

lemma length_normal_fold: "length (snd (snd (fold (normal_body g) ps (aboff, rs, cb)))) = length cb"
  by (induction ps arbitrary: aboff rs cb) (auto simp: normal_body_def Let_def split_def)

lemma length_stream_normal [simp]: "length (snd (stream_normal g regs cb)) = length cb"
  using length_normal_fold [of g loop_ij 32 regs cb] by (auto simp: stream_normal_def split: prod.splits)

lemma lane_forward: "lane_regs f (move_forward regs) = move_forward (lane_regs f regs)"
  by (simp add: lane_regs_def move_forward_def take_map)

lemma lane_regs_sel: "rD (lane_regs f regs) = map_nib f (rD regs)"
  by (simp add: lane_regs_def)

context bitslice
begin

lemma lane_load:
  "k < par \<Longrightarrow> lane_regs (lane k) (load_key g iA iB regs) =
     load_key bool_ops (map (map_nib (lane k)) iA) (map (map_nib (lane k)) iB) (lane_regs (lane k) regs)"
  by (simp add: lane_regs_def load_key_def Let_def take_map lane_hom)

lemma lane_input:
  "i < 8 \<Longrightarrow> length sb = 64 \<Longrightarrow>
     map_prod (map_nib (lane k)) (map_nib (lane k)) (init_input sb i j) = init_input (map (lane k) sb) i j"
  by (simp add: init_input_def Let_def)

lemma lane_init_fold:
  assumes "k < par" "length sb = 64"
  shows "wf_regs rs \<Longrightarrow> aboff \<le> 32 \<Longrightarrow> set ps \<subseteq> set loop_ij \<Longrightarrow>
    map_prod id (lane_regs (lane k)) (fold (init_body g sb) ps (aboff, rs)) =
    fold (init_body bool_ops (map (lane k) sb)) ps (aboff, lane_regs (lane k) rs)"
proof (induction ps arbitrary: aboff rs)
  case (Cons ij ps)
  obtain i j where ij: "ij = (i, j)" by fastforce
  have "i < 8" using loop_ij_bounds [of ij] Cons.prems(3) ij by simp
  have "lane_regs (lane k) (stream_step g (Some (init_input sb i j)) aboff rs) =
      stream_step bool_ops (Some (init_input (map (lane k) sb) i j)) aboff (lane_regs (lane k) rs)"
    using Cons.prems(1,2) lane_input [OF \<open>i < 8\<close> assms(2), of k j]
    by (subst lane_step [OF assms(1)]) (auto simp: wf_regs_def)
  then show ?case
    using Cons by (simp add: ij init_body_def wf_step)
qed simp

lemma lane_init:
  assumes "k < par" "length sb = 64" "wf_regs regs" "length iA = 8" "length iB = 8"
  shows "lane_regs (lane k) (stream_init g iA iB sb regs) =
    stream_init bool_ops (map (map_nib (lane k)) iA) (map (map_nib (lane k)) iB) (map (lane k) sb) (lane_regs (lane k) regs)"
  using arg_cong [OF lane_init_fold [OF assms(1,2) wf_load [OF assms(3-5)], of 32 loop_ij g], of snd]
  by (simp add: stream_init_def lane_forward lane_load [OF assms(1)])

lemma lane_normal_fold:
  assumes "k < par"
  shows "wf_regs rs \<Longrightarrow> aboff \<le> 32 \<Longrightarrow>
    map_prod id (map_prod (lane_regs (lane k)) (map (lane k))) (fold (normal_body g) ps (aboff, rs, cb)) =
    fold (normal_body bool_ops) ps (aboff, lane_regs (lane k) rs, map (lane k) cb)"
proof (induction ps arbitrary: aboff rs cb)
  case (Cons ij ps)
  obtain i j where ij: "ij = (i, j)" by fastforce
  define rs' where "rs' = stream_step g None aboff rs"
  define cb' where "cb' = cb[8 * i + 7 - 2 * j := FFXOR g (b2 (rD rs')) (b3 (rD rs')),
    8 * i + 6 - 2 * j := FFXOR g (b0 (rD rs')) (b1 (rD rs'))]"
  have rs': "lane_regs (lane k) rs' = stream_step bool_ops None aboff (lane_regs (lane k) rs)"
    using Cons.prems(1,2) unfolding rs'_def by (subst lane_step [OF assms(1)]) (auto simp: wf_regs_def)
  have 1: "normal_body g ij (aboff, rs, cb) = (aboff - 1, rs', cb')"
    by (simp add: ij normal_body_def Let_def rs'_def cb'_def)
  have 2: "normal_body bool_ops ij (aboff, lane_regs (lane k) rs, map (lane k) cb) =
      (aboff - 1, lane_regs (lane k) rs', map (lane k) cb')"
    by (simp add: ij normal_body_def Let_def rs' [symmetric] cb'_def map_update lane_hom [OF assms] lane_regs_sel)
  show ?case
    using Cons.IH [of rs' "aboff - 1" cb'] Cons.prems wf_step [OF Cons.prems(1), of g None aboff]
    by (simp add: 1 2 rs'_def [symmetric])
qed simp

lemma lane_normal:
  assumes "k < par" "wf_regs regs"
  shows "map_prod (lane_regs (lane k)) (map (lane k)) (stream_normal g regs cb) =
    stream_normal bool_ops (lane_regs (lane k) regs) (map (lane k) cb)"
  using lane_normal_fold [OF assms, of 32 loop_ij cb]
  by (auto simp: stream_normal_def lane_forward split: prod.splits)

end

end
