(* ===== verification/Transpose.thy ===== *)
theory Transpose
  imports Stream
begin

text \<open>
  The transposition between packets and groups (stream.c, \<open>trasp64_32_88ccw\<close> and \<open>trasp64_32_88cw\<close>, for
  the 32-bit mode). A table of 256 bytes is 64 rows of 32 bits; row \<open>g\<close> and row \<open>32 + g\<close> hold the
  first and the last four bytes of packet \<open>g\<close> (\<open>FFTABLEIN\<close>), on a little-endian machine. After
  the transposition row \<open>8 * i + b\<close> is the group of bit \<open>b\<close> of byte \<open>i\<close>, and packet \<open>g\<close> is in lane
  \<open>g XOR 7\<close>.
\<close>

subsection \<open>The code\<close>

text \<open>One pass over the table: its rows are taken in pairs \<open>t\<close>, \<open>b\<close> that are \<open>d\<close> apart, and each pair
  is replaced once.\<close>

definition trasp_pass :: "nat \<Rightarrow> ('r \<Rightarrow> 'r \<Rightarrow> 'r \<times> 'r) \<Rightarrow> 'r list \<Rightarrow> 'r list" where
  "trasp_pass d f row =
     map (\<lambda>x. if x div d mod 2 = 0 then fst (f (row ! x) (row ! (x + d)))
              else snd (f (row ! (x - d)) (row ! x))) [0..<64]"

text \<open>What the passes do with a pair; the first two passes are the same in both directions.\<close>

definition swap16 :: "u32 \<Rightarrow> u32 \<Rightarrow> u32 \<times> u32" where
  "swap16 t b = ((t AND 0x0000ffff) OR push_bit 16 b, drop_bit 16 t OR (b AND 0xffff0000))"

definition swap8 :: "u32 \<Rightarrow> u32 \<Rightarrow> u32 \<times> u32" where
  "swap8 t b = ((t AND 0x00ff00ff) OR push_bit 8 (b AND 0x00ff00ff), drop_bit 8 (t AND 0xff00ff00) OR (b AND 0xff00ff00))"

definition ccw4 :: "u32 \<Rightarrow> u32 \<Rightarrow> u32 \<times> u32" where
  "ccw4 t b = (push_bit 4 (t AND 0x0f0f0f0f) OR (b AND 0x0f0f0f0f), (t AND 0xf0f0f0f0) OR drop_bit 4 (b AND 0xf0f0f0f0))"

definition ccw2 :: "u32 \<Rightarrow> u32 \<Rightarrow> u32 \<times> u32" where
  "ccw2 t b = (push_bit 2 (t AND 0x33333333) OR (b AND 0x33333333), (t AND 0xcccccccc) OR drop_bit 2 (b AND 0xcccccccc))"

definition ccw1 :: "u32 \<Rightarrow> u32 \<Rightarrow> u32 \<times> u32" where
  "ccw1 t b = (push_bit 1 (t AND 0x55555555) OR (b AND 0x55555555), (t AND 0xaaaaaaaa) OR drop_bit 1 (b AND 0xaaaaaaaa))"

definition cw4 :: "u32 \<Rightarrow> u32 \<Rightarrow> u32 \<times> u32" where
  "cw4 t b = (drop_bit 4 (t AND 0xf0f0f0f0) OR (b AND 0xf0f0f0f0), (t AND 0x0f0f0f0f) OR push_bit 4 (b AND 0x0f0f0f0f))"

definition cw2 :: "u32 \<Rightarrow> u32 \<Rightarrow> u32 \<times> u32" where
  "cw2 t b = (drop_bit 2 (t AND 0xcccccccc) OR (b AND 0xcccccccc), (t AND 0x33333333) OR push_bit 2 (b AND 0x33333333))"

definition cw1 :: "u32 \<Rightarrow> u32 \<Rightarrow> u32 \<times> u32" where
  "cw1 t b = (drop_bit 1 (t AND 0xaaaaaaaa) OR (b AND 0xaaaaaaaa), (t AND 0x55555555) OR push_bit 1 (b AND 0x55555555))"

definition trasp64_32_88ccw :: "u32 list \<Rightarrow> u32 list" where
  "trasp64_32_88ccw row =
     trasp_pass 1 ccw1 (trasp_pass 2 ccw2 (trasp_pass 4 ccw4 (trasp_pass 8 swap8 (trasp_pass 16 swap16 row))))"

definition trasp64_32_88cw :: "u32 list \<Rightarrow> u32 list" where
  "trasp64_32_88cw row =
     trasp_pass 1 cw1 (trasp_pass 2 cw2 (trasp_pass 4 cw4 (trasp_pass 8 swap8 (trasp_pass 16 swap16 row))))"

text \<open>The little-endian word of four bytes and back.\<close>

definition le32 :: "bytes \<Rightarrow> u32" where
  "le32 d = ucast (d ! 0) OR push_bit 8 (ucast (d ! 1)) OR push_bit 16 (ucast (d ! 2)) OR push_bit 24 (ucast (d ! 3))"

definition bytes32 :: "u32 \<Rightarrow> bytes" where
  "bytes32 w = map (\<lambda>i. ucast (drop_bit (8 * i) w)) [0, 1, 2, 3]"

definition FFTABLEIN :: "u32 list \<Rightarrow> nat \<Rightarrow> bytes \<Rightarrow> u32 list" where
  "FFTABLEIN tab g data = tab[g := le32 data, 32 + g := le32 (drop 4 data)]"

definition FFTABLEOUT :: "u32 list \<Rightarrow> nat \<Rightarrow> bytes" where
  "FFTABLEOUT tab g = bytes32 (tab ! g) @ bytes32 (tab ! (32 + g))"

text \<open>\<open>FFTABLEOUTXORNBY\<close> xors the first \<open>n\<close> of these bytes to \<open>data\<close>; byte \<open>k\<close> of a table is byte
  \<open>k mod 4\<close> of row \<open>k div 4\<close>.\<close>

definition tab_byte :: "u32 list \<Rightarrow> nat \<Rightarrow> u8" where
  "tab_byte tab k = bytes32 (tab ! (k div 4)) ! (k mod 4)"

definition FFTABLEOUTXORNBY :: "nat \<Rightarrow> bytes \<Rightarrow> u32 list \<Rightarrow> nat \<Rightarrow> bytes" where
  "FFTABLEOUTXORNBY n data tab g =
     map (\<lambda>j. data ! j XOR tab_byte tab (4 * (g + (if j \<ge> 4 then 32 - 1 else 0)) + j)) [0..<n] @ drop n data"

subsection \<open>What the transposition does to the bits\<close>

definition put_bit :: "nat \<Rightarrow> bool \<Rightarrow> nat \<Rightarrow> nat" where
  "put_bit n b x = (if b then set_bit n x else unset_bit n x)"

lemma bit_put_bit [simp]: "bit (put_bit n b x) i \<longleftrightarrow> (if i = n then b else bit x i)"
  by (auto simp: put_bit_def bit_simps)

lemma bit_0000ffff: "k < 32 \<Longrightarrow> bit (0x0000ffff :: u32) k \<longleftrightarrow> \<not> bit k 4"
proof -
  have "list_all (\<lambda>k. bit (0x0000ffff :: u32) k \<longleftrightarrow> \<not> bit k 4) [0..<32]" by code_simp
  then show "k < 32 \<Longrightarrow> bit (0x0000ffff :: u32) k \<longleftrightarrow> \<not> bit k 4" by (simp add: list_all_iff)
qed

lemma bit_ffff0000: "k < 32 \<Longrightarrow> bit (0xffff0000 :: u32) k \<longleftrightarrow> bit k 4"
proof -
  have "list_all (\<lambda>k. bit (0xffff0000 :: u32) k \<longleftrightarrow> bit k 4) [0..<32]" by code_simp
  then show "k < 32 \<Longrightarrow> bit (0xffff0000 :: u32) k \<longleftrightarrow> bit k 4" by (simp add: list_all_iff)
qed

lemma bit_00ff00ff: "k < 32 \<Longrightarrow> bit (0x00ff00ff :: u32) k \<longleftrightarrow> \<not> bit k 3"
proof -
  have "list_all (\<lambda>k. bit (0x00ff00ff :: u32) k \<longleftrightarrow> \<not> bit k 3) [0..<32]" by code_simp
  then show "k < 32 \<Longrightarrow> bit (0x00ff00ff :: u32) k \<longleftrightarrow> \<not> bit k 3" by (simp add: list_all_iff)
qed

lemma bit_ff00ff00: "k < 32 \<Longrightarrow> bit (0xff00ff00 :: u32) k \<longleftrightarrow> bit k 3"
proof -
  have "list_all (\<lambda>k. bit (0xff00ff00 :: u32) k \<longleftrightarrow> bit k 3) [0..<32]" by code_simp
  then show "k < 32 \<Longrightarrow> bit (0xff00ff00 :: u32) k \<longleftrightarrow> bit k 3" by (simp add: list_all_iff)
qed

lemma bit_0f0f0f0f: "k < 32 \<Longrightarrow> bit (0x0f0f0f0f :: u32) k \<longleftrightarrow> \<not> bit k 2"
proof -
  have "list_all (\<lambda>k. bit (0x0f0f0f0f :: u32) k \<longleftrightarrow> \<not> bit k 2) [0..<32]" by code_simp
  then show "k < 32 \<Longrightarrow> bit (0x0f0f0f0f :: u32) k \<longleftrightarrow> \<not> bit k 2" by (simp add: list_all_iff)
qed

lemma bit_f0f0f0f0: "k < 32 \<Longrightarrow> bit (0xf0f0f0f0 :: u32) k \<longleftrightarrow> bit k 2"
proof -
  have "list_all (\<lambda>k. bit (0xf0f0f0f0 :: u32) k \<longleftrightarrow> bit k 2) [0..<32]" by code_simp
  then show "k < 32 \<Longrightarrow> bit (0xf0f0f0f0 :: u32) k \<longleftrightarrow> bit k 2" by (simp add: list_all_iff)
qed

lemma bit_33333333: "k < 32 \<Longrightarrow> bit (0x33333333 :: u32) k \<longleftrightarrow> \<not> bit k 1"
proof -
  have "list_all (\<lambda>k. bit (0x33333333 :: u32) k \<longleftrightarrow> \<not> bit k 1) [0..<32]" by code_simp
  then show "k < 32 \<Longrightarrow> bit (0x33333333 :: u32) k \<longleftrightarrow> \<not> bit k 1" by (simp add: list_all_iff)
qed

lemma bit_cccccccc: "k < 32 \<Longrightarrow> bit (0xcccccccc :: u32) k \<longleftrightarrow> bit k 1"
proof -
  have "list_all (\<lambda>k. bit (0xcccccccc :: u32) k \<longleftrightarrow> bit k 1) [0..<32]" by code_simp
  then show "k < 32 \<Longrightarrow> bit (0xcccccccc :: u32) k \<longleftrightarrow> bit k 1" by (simp add: list_all_iff)
qed

lemma bit_55555555: "k < 32 \<Longrightarrow> bit (0x55555555 :: u32) k \<longleftrightarrow> \<not> bit k 0"
proof -
  have "list_all (\<lambda>k. bit (0x55555555 :: u32) k \<longleftrightarrow> \<not> bit k 0) [0..<32]" by code_simp
  then show "k < 32 \<Longrightarrow> bit (0x55555555 :: u32) k \<longleftrightarrow> \<not> bit k 0" by (simp add: list_all_iff)
qed

lemma bit_aaaaaaaa: "k < 32 \<Longrightarrow> bit (0xaaaaaaaa :: u32) k \<longleftrightarrow> bit k 0"
proof -
  have "list_all (\<lambda>k. bit (0xaaaaaaaa :: u32) k \<longleftrightarrow> bit k 0) [0..<32]" by code_simp
  then show "k < 32 \<Longrightarrow> bit (0xaaaaaaaa :: u32) k \<longleftrightarrow> bit k 0" by (simp add: list_all_iff)
qed

lemmas bit_masks32 = bit_0000ffff bit_ffff0000 bit_00ff00ff bit_ff00ff00 bit_0f0f0f0f bit_f0f0f0f0 bit_33333333 bit_cccccccc bit_55555555 bit_aaaaaaaa

text \<open>A pass exchanges bit \<open>n\<close> of the row number with bit \<open>n\<close> of the position in the row; \<open>inv1\<close> and
  \<open>inv2\<close> say which of the two is negated on the way.\<close>

definition exchanges ::
  "nat \<Rightarrow> bool \<Rightarrow> bool \<Rightarrow> ('w :: len word \<Rightarrow> 'w word \<Rightarrow> 'w word \<times> 'w word) \<Rightarrow> bool" where
  "exchanges n inv1 inv2 f \<longleftrightarrow>
     (\<forall>t b. \<forall>k < LENGTH('w). (bit (fst (f t b)) k \<longleftrightarrow> bit (if bit k n \<noteq> inv1 then b else t) (put_bit n inv2 k)) \<and>
                    (bit (snd (f t b)) k \<longleftrightarrow> bit (if bit k n \<noteq> inv1 then b else t) (put_bit n (\<not> inv2) k)))"

lemma put_bit_cases:
  "bit k n \<Longrightarrow> put_bit n True k = k" "\<not> bit k n \<Longrightarrow> put_bit n False k = k"
  "\<not> bit k n \<Longrightarrow> put_bit n True k = k + 2 ^ n" "bit k n \<Longrightarrow> put_bit n False k = k - 2 ^ n"
proof -
  show "bit k n \<Longrightarrow> put_bit n True k = k" "\<not> bit k n \<Longrightarrow> put_bit n False k = k"
    by (rule bit_eqI; auto)+
  show "\<not> bit k n \<Longrightarrow> put_bit n True k = k + 2 ^ n"
    by (simp add: put_bit_def set_bit_eq)
  have "set_bit n (unset_bit n k) = k" if "bit k n"
    by (rule bit_eqI) (use that in \<open>auto simp: bit_simps\<close>)
  then show "bit k n \<Longrightarrow> put_bit n False k = k - 2 ^ n"
    by (auto simp: put_bit_def set_bit_eq bit_simps)
qed

lemma length_trasp_pass [simp]: "length (trasp_pass d f row) = 64"
  by (simp add: trasp_pass_def)

lemma bit_trasp_pass:
  fixes f :: "'w :: len word \<Rightarrow> 'w word \<Rightarrow> 'w word \<times> 'w word"
  assumes "exchanges n inv1 inv2 f" "r < 64" "k < LENGTH('w)"
  shows "bit (trasp_pass (2 ^ n) f row ! r) k =
    bit (row ! put_bit n (bit k n \<noteq> inv1) r) (put_bit n (bit r n \<noteq> inv2) k)"
proof (cases "bit r n")
  case False
  then have "r div 2 ^ n mod 2 = 0" by (simp add: bit_iff_odd even_iff_mod_2_eq_zero)
  moreover have "r + 2 ^ n = put_bit n True r" "put_bit n False r = r"
    using False by (simp_all add: put_bit_cases)
  ultimately show ?thesis
    using assms(1,3) False by (simp add: trasp_pass_def assms(2) exchanges_def)
next
  case True
  then have "r div 2 ^ n mod 2 \<noteq> 0" by (simp add: bit_iff_odd even_iff_mod_2_eq_zero)
  moreover have "r - 2 ^ n = put_bit n False r" "put_bit n True r = r"
    using True by (simp_all add: put_bit_cases)
  ultimately show ?thesis
    using assms(1,3) True by (simp add: trasp_pass_def assms(2) exchanges_def)
qed


lemma bit_pow_ge: "bit (k :: nat) n \<Longrightarrow> 2 ^ n \<le> k"
  by (metis bit_iff_odd div_less even_zero linorder_not_le)

lemma bit_plus_pow: "bit (k + 2 ^ n :: nat) n \<longleftrightarrow> \<not> bit k n"
  by (simp add: bit_iff_odd div_add_self2)

lemma bit_minus_pow: "2 ^ n \<le> k \<Longrightarrow> bit (k - 2 ^ n :: nat) n \<longleftrightarrow> \<not> bit k n"
  using bit_plus_pow [of "k - 2 ^ n" n] by simp

definition low_mask :: "nat \<Rightarrow> 'w :: len word \<Rightarrow> bool" where
  "low_mask n (m :: 'w word) \<longleftrightarrow> (\<forall>k < LENGTH('w). bit m k \<longleftrightarrow> \<not> bit k n)"

definition high_mask :: "nat \<Rightarrow> 'w :: len word \<Rightarrow> bool" where
  "high_mask n (m :: 'w word) \<longleftrightarrow> (\<forall>k < LENGTH('w). bit m k \<longleftrightarrow> bit k n)"

lemma len32: "LENGTH(32) = 32"
  by simp

lemma len32_half: "LENGTH(32) = 2 * 2 ^ 4"
  by simp

lemma masks: "low_mask 4 (0x0000ffff :: u32)" "high_mask 4 (0xffff0000 :: u32)" "low_mask 3 (0x00ff00ff :: u32)" "high_mask 3 (0xff00ff00 :: u32)"
  "low_mask 2 (0x0f0f0f0f :: u32)" "high_mask 2 (0xf0f0f0f0 :: u32)" "low_mask 1 (0x33333333 :: u32)" "high_mask 1 (0xcccccccc :: u32)"
  "low_mask 0 (0x55555555 :: u32)" "high_mask 0 (0xaaaaaaaa :: u32)"
  unfolding low_mask_def high_mask_def len32 using bit_masks32 by blast+

lemma bit_push_low:
  assumes "low_mask n m" "k < LENGTH('w)"
  shows "bit (push_bit (2 ^ n) (x AND m :: 'w :: len word)) k \<longleftrightarrow> bit k n \<and> bit x (put_bit n False k)"
proof (cases "2 ^ n \<le> k")
  case True
  then have "k - 2 ^ n < LENGTH('w)" using assms(2) by simp
  then have "bit m (k - 2 ^ n) \<longleftrightarrow> bit k n"
    using assms(1) bit_minus_pow [OF True] by (auto simp: low_mask_def)
  then show ?thesis using True assms(2) by (auto simp: bit_simps put_bit_cases)
qed (use assms(2) bit_pow_ge in \<open>auto simp: bit_simps\<close>)

lemma bit_drop_high:
  assumes "high_mask n m" "k < LENGTH('w)"
  shows "bit (drop_bit (2 ^ n) (x AND m :: 'w :: len word)) k \<longleftrightarrow> \<not> bit k n \<and> bit x (put_bit n True k)"
proof -
  have "bit (drop_bit (2 ^ n) (x AND m)) k \<longleftrightarrow> bit x (k + 2 ^ n) \<and> bit m (k + 2 ^ n)"
    by (simp add: bit_simps add.commute)
  also have "\<dots> \<longleftrightarrow> bit x (k + 2 ^ n) \<and> \<not> bit k n"
    using assms(1) bit_plus_pow [of k n] by (auto simp: high_mask_def dest: bit_imp_le_length)
  finally show ?thesis by (auto simp: put_bit_cases)
qed

lemma bit_low: "low_mask n m \<Longrightarrow> k < LENGTH('w) \<Longrightarrow> bit (x AND m :: 'w :: len word) k \<longleftrightarrow> \<not> bit k n \<and> bit x k"
  and bit_high: "high_mask n m \<Longrightarrow> k < LENGTH('w) \<Longrightarrow> bit (x AND m :: 'w word) k \<longleftrightarrow> bit k n \<and> bit x k"
  by (auto simp: bit_simps low_mask_def high_mask_def)

lemma exchanges:
  assumes "low_mask n m0" "high_mask n m1"
  shows "exchanges n False False (\<lambda>t b. ((t AND m0) OR push_bit (2 ^ n) (b AND m0), drop_bit (2 ^ n) (t AND m1) OR (b AND m1)))"
    and "exchanges n True False (\<lambda>t b. (push_bit (2 ^ n) (t AND m0) OR (b AND m0), (t AND m1) OR drop_bit (2 ^ n) (b AND m1)))"
    and "exchanges n False True (\<lambda>t b. (drop_bit (2 ^ n) (t AND m1) OR (b AND m1), (t AND m0) OR push_bit (2 ^ n) (b AND m0)))"
  unfolding exchanges_def
  by (auto simp only: fst_conv snd_conv bit_or_iff bit_push_low [OF assms(1)] bit_drop_high [OF assms(2)]
      bit_low [OF assms(1)] bit_high [OF assms(2)] put_bit_cases(1,2) if_True if_False simp_thms
      split: if_split)

text \<open>In the widest pass the shift itself masks.\<close>

lemma push_half:
  assumes "low_mask n m" "LENGTH('w) = 2 * 2 ^ n"
  shows "push_bit (2 ^ n) (x AND m :: 'w :: len word) = push_bit (2 ^ n) x"
proof (rule bit_word_eqI)
  fix k assume "k < LENGTH('w)"
  then have "bit m (k - 2 ^ n)" if "2 ^ n \<le> k"
    using that bit_pow_ge [of "k - 2 ^ n" n] assms by (auto simp: low_mask_def)
  then show "bit (push_bit (2 ^ n) (x AND m)) k = bit (push_bit (2 ^ n) x) k"
    by (auto simp: bit_push_bit_iff bit_and_iff)
qed

lemma drop_half:
  assumes "high_mask n m" "LENGTH('w) = 2 * 2 ^ n"
  shows "drop_bit (2 ^ n) (x AND m :: 'w :: len word) = drop_bit (2 ^ n) x"
proof (rule bit_word_eqI)
  fix k assume "k < LENGTH('w)"
  have "bit m (2 ^ n + k)" if "bit x (2 ^ n + k)"
  proof -
    have "k < 2 ^ n" using bit_imp_le_length [OF that] assms(2) by simp
    then show ?thesis using assms bit_plus_pow [of k n] bit_pow_ge [of k n]
      by (auto simp: high_mask_def add.commute)
  qed
  then show "bit (drop_bit (2 ^ n) (x AND m)) k = bit (drop_bit (2 ^ n) x) k"
    by (auto simp: bit_drop_bit_eq bit_and_iff)
qed

text \<open>The five passes exchange the five bits.\<close>

lemma xor_bits: "bit ((k :: nat) XOR 7) i \<longleftrightarrow> (if i < 3 then \<not> bit k i else bit k i)"
proof -
  have "bit (7 :: nat) i \<longleftrightarrow> i < 3"
    using bit_mask_iff [of 3 i, where ?'a = nat] by (simp add: mask_eq_exp_minus_1)
  then show ?thesis by (auto simp: bit_xor_iff)
qed

lemma exchanges_passes:
  "exchanges 4 False False swap16" "exchanges 3 False False swap8"
  "exchanges 2 True False ccw4" "exchanges 1 True False ccw2" "exchanges 0 True False ccw1"
  "exchanges 2 False True cw4" "exchanges 1 False True cw2" "exchanges 0 False True cw1"
proof -
  have p: "(2::nat) ^ 4 = 16" "(2::nat) ^ 3 = 8" "(2::nat) ^ 2 = 4" "(2::nat) ^ 1 = 2" "(2::nat) ^ 0 = 1" by simp_all
  show "exchanges 4 False False swap16"
    using exchanges(1) [OF masks(1,2), unfolded push_half [OF masks(1) len32_half] drop_half [OF masks(2) len32_half]] unfolding swap16_def p .
  show "exchanges 3 False False swap8" using exchanges(1) [OF masks(3,4)] unfolding swap8_def p .
  show "exchanges 2 True False ccw4" using exchanges(2) [OF masks(5,6)] unfolding ccw4_def p .
  show "exchanges 1 True False ccw2" using exchanges(2) [OF masks(7,8)] unfolding ccw2_def p .
  show "exchanges 0 True False ccw1" using exchanges(2) [OF masks(9,10)] unfolding ccw1_def p .
  show "exchanges 2 False True cw4" using exchanges(3) [OF masks(5,6)] unfolding cw4_def p .
  show "exchanges 1 False True cw2" using exchanges(3) [OF masks(7,8)] unfolding cw2_def p .
  show "exchanges 0 False True cw1" using exchanges(3) [OF masks(9,10)] unfolding cw1_def p .
qed

lemmas bit_passes = exchanges_passes [THEN bit_trasp_pass, unfolded len32]

lemma bit_less_pow: "x < 2 ^ m \<Longrightarrow> bit (x :: nat) i \<Longrightarrow> i < m"
  by (metis bit_take_bit_iff take_bit_nat_eq_self_iff)

lemma put_bit_less: "n < m \<Longrightarrow> x < 2 ^ m \<Longrightarrow> put_bit n b x < 2 ^ m"
proof -
  assume "n < m" "x < 2 ^ m"
  then have "take_bit m (put_bit n b x) = put_bit n b x"
    by (intro bit_eqI) (auto simp: bit_take_bit_iff dest: bit_less_pow)
  then show ?thesis by (simp only: take_bit_nat_eq_self_iff)
qed

lemmas row_pos_less =
  put_bit_less [where m = 6, simplified] put_bit_less [where m = 5, simplified]

lemma passes_position:
  assumes "r < 64" "k < 32"
  shows "bit (trasp64_32_88ccw row ! r) k \<longleftrightarrow> bit (row ! put_bit 5 (bit r 5) (k XOR 7)) (take_bit 5 r)"
    and "bit (trasp64_32_88cw row ! r) k \<longleftrightarrow> bit (row ! put_bit 5 (bit r 5) k) (take_bit 5 (r XOR 7))"
proof -
  have p: "(2::nat) ^ 4 = 16" "(2::nat) ^ 3 = 8" "(2::nat) ^ 2 = 4" "(2::nat) ^ 1 = 2" "(2::nat) ^ 0 = 1" by simp_all
  have i: "i = 0 \<or> i = 1 \<or> i = 2 \<or> i = 3 \<or> i = 4 \<or> i = 5 \<or> 5 < i" for i :: nat by linarith
  have kb: "\<not> bit k i" if "5 \<le> i" for i using bit_less_pow [of k 5 i] assms(2) that by auto
  have rb: "\<not> bit r i" if "6 \<le> i" for i using bit_less_pow [of r 6 i] assms(1) that by auto
  note ps = bit_passes [unfolded p, unfolded One_nat_def]
  show "bit (trasp64_32_88ccw row ! r) k \<longleftrightarrow> bit (row ! put_bit 5 (bit r 5) (k XOR 7)) (take_bit 5 r)"
    unfolding trasp64_32_88ccw_def
    apply (simp add: ps row_pos_less assms)
    apply (rule arg_cong2 [where f = "\<lambda>x y. bit (row ! x) y"])
     apply (rule bit_eqI)
    subgoal for i using i [of i] rb [of i] kb [of i] by (auto simp: xor_bits)
     apply (rule bit_eqI)
    subgoal for i using i [of i] rb [of i] kb [of i] by (auto simp: xor_bits bit_take_bit_iff)
    done
  show "bit (trasp64_32_88cw row ! r) k \<longleftrightarrow> bit (row ! put_bit 5 (bit r 5) k) (take_bit 5 (r XOR 7))"
    unfolding trasp64_32_88cw_def
    apply (simp add: ps row_pos_less assms)
    apply (rule arg_cong2 [where f = "\<lambda>x y. bit (row ! x) y"])
     apply (rule bit_eqI)
    subgoal for i using i [of i] rb [of i] kb [of i] by (auto simp: xor_bits)
     apply (rule bit_eqI)
    subgoal for i using i [of i] rb [of i] kb [of i] by (auto simp: xor_bits bit_take_bit_iff)
    done
qed
subsection \<open>Packets and groups\<close>

lemma length_FFTABLEOUT [simp]: "length (FFTABLEOUT tab g) = 8"
  by (simp add: FFTABLEOUT_def bytes32_def)

lemma bit_bytes32: "i < 4 \<Longrightarrow> b < 8 \<Longrightarrow> bit (bytes32 w ! i) b \<longleftrightarrow> bit w (8 * i + b)"
proof -
  assume "i < 4" "b < 8"
  then have "bytes32 w ! i = ucast (drop_bit (8 * i) w)"
    by (auto simp: bytes32_def less_Suc_eq numeral_eq_Suc)
  then show ?thesis using \<open>b < 8\<close> by (simp add: bit_simps)
qed

lemma bit_FFTABLEOUT:
  "i < 8 \<Longrightarrow> b < 8 \<Longrightarrow> bit (FFTABLEOUT tab g ! i) b \<longleftrightarrow>
     bit (tab ! (if i < 4 then g else 32 + g)) (8 * (i mod 4) + b)"
proof -
  assume "i < 8" "b < 8"
  have l: "length (bytes32 (tab ! g)) = 4" by (simp add: bytes32_def)
  show ?thesis
  proof (cases "i < 4")
    case True
    then show ?thesis using \<open>b < 8\<close> by (simp add: FFTABLEOUT_def nth_append l bit_bytes32)
  next
    case False
    then have "i mod 4 = i - 4" using \<open>i < 8\<close> by (simp add: le_mod_geq)
    then show ?thesis using False \<open>b < 8\<close> \<open>i < 8\<close> by (simp add: FFTABLEOUT_def nth_append l bit_bytes32)
  qed
qed

lemma xor_7_less: "k < 32 \<Longrightarrow> k XOR 7 < (32::nat)"
proof -
  assume "k < 32"
  then have "take_bit 5 (k XOR 7) = k XOR 7"
    by (intro bit_eqI) (auto simp: bit_take_bit_iff xor_bits dest: bit_less_pow [of k 5, simplified] split: if_splits)
  then show ?thesis using take_bit_nat_eq_self_iff [of 5 "k XOR 7"] by simp
qed

lemma xor_7_xor_7 [simp]: "(k XOR 7) XOR 7 = (k::nat)"
  by (simp add: xor.assoc)

lemma row_number:
  assumes "i < 8" "b < 8"
  shows "bit (8 * i + b :: nat) 5 \<longleftrightarrow> 4 \<le> i" "take_bit 5 (8 * i + b :: nat) = 8 * (i mod 4) + b"
proof -
  consider "i < 4" | "4 \<le> i" by linarith
  then have "(bit (8 * i + b :: nat) 5 \<longleftrightarrow> 4 \<le> i) \<and> take_bit 5 (8 * i + b :: nat) = 8 * (i mod 4) + b"
  proof cases
    case 1
    then have "8 * i + b < 32" using assms by linarith
    then show ?thesis using 1 by (auto simp: bit_iff_odd take_bit_eq_mod)
  next
    case 2
    then have "i mod 4 = i - 4" using assms(1) by (simp add: le_mod_geq)
    then have e: "8 * i + b = 8 * (i mod 4) + b + 32" using 2 by linarith
    have "8 * (i mod 4) + b < 32" using assms(2) mod_less_divisor [of 4 i] by linarith
    moreover define x where "x = 8 * (i mod 4) + b"
    ultimately have "x < 32" by simp
    then have "(x + 32) div 32 = 1" "(x + 32) mod 32 = x" by (simp_all add: div_add_self2)
    then show ?thesis unfolding e x_def [symmetric] using 2 by (simp add: bit_iff_odd take_bit_eq_mod)
  qed
  then show "bit (8 * i + b :: nat) 5 \<longleftrightarrow> 4 \<le> i" "take_bit 5 (8 * i + b :: nat) = 8 * (i mod 4) + b" by auto
qed

lemma put_bit_5: "k < 32 \<Longrightarrow> put_bit 5 c k = (if c then 32 + k else k)"
  using put_bit_cases [of k 5] bit_less_pow [of k 5 5] by (auto simp: add.commute)

lemma groups_of_packets:
  assumes "i < 8" "b < 8" "k < 32"
  shows "bit (trasp64_32_88ccw tab ! (8 * i + b)) k \<longleftrightarrow> bit (FFTABLEOUT tab (k XOR 7) ! i) b"
proof -
  have "8 * i + b < 64" using assms by linarith
  then show ?thesis
    using assms by (simp add: passes_position row_number bit_FFTABLEOUT put_bit_5 xor_7_less)
qed

lemma packets_of_groups:
  assumes "i < 8" "b < 8" "g < 32"
  shows "bit (FFTABLEOUT (trasp64_32_88cw cb) g ! i) b \<longleftrightarrow> bit (cb ! (8 * i + b)) (g XOR 7)"
proof -
  define r where "r = (if i < 4 then g else 32 + g)"
  have r: "r < 64" "bit r 5 \<longleftrightarrow> 4 \<le> i" "take_bit 5 r = g"
  proof -
    show "r < 64" using assms by (simp add: r_def)
    have g: "\<not> bit g 5" using bit_less_pow [of g 5 5] assms(3) by auto
    show "bit r 5 \<longleftrightarrow> 4 \<le> i" using g bit_plus_pow [of g 5] by (auto simp: r_def add.commute)
    show "take_bit 5 r = g" using assms(3) by (simp add: r_def take_bit_eq_mod)
  qed
  have k: "8 * (i mod 4) + b < 32" using assms(2) mod_less_divisor [of 4 i] by linarith
  have "(if 4 \<le> i then 32 + (8 * (i mod 4) + b) else 8 * (i mod 4) + b) = 8 * i + b"
    using assms(1) by (auto simp: le_mod_geq)
  then show ?thesis
    using assms k by (simp add: bit_FFTABLEOUT r_def [symmetric] passes_position r put_bit_5)
qed

lemma bit_le32: "i < 4 \<Longrightarrow> b < 8 \<Longrightarrow> bit (le32 d) (8 * i + b) \<longleftrightarrow> bit (d ! i) b"
proof -
  assume "i < 4" "b < 8"
  have no: "\<not> bit (x :: u8) (n + b)" if "8 \<le> n" for x n using that by (auto dest: bit_imp_le_length)
  consider "i = 0" | "i = 1" | "i = 2" | "i = 3" using \<open>i < 4\<close> by linarith
  then show ?thesis by cases (use \<open>b < 8\<close> no in \<open>auto simp: le32_def bit_simps\<close>)
qed

lemma le32_bytes: "length d = 4 \<Longrightarrow> bytes32 (le32 d) = d"
proof (rule nth_equalityI)
  assume d: "length d = 4"
  then show "length (bytes32 (le32 d)) = length d" by (simp add: bytes32_def)
  fix i assume "i < length (bytes32 (le32 d))"
  then have i: "i < 4" by (simp add: bytes32_def)
  show "bytes32 (le32 d) ! i = d ! i"
    by (rule bit_word_eqI) (simp add: bit_bytes32 bit_le32 i)
qed

lemma FFTABLEIN_OUT:
  assumes "length tab = 64" "g < 32" "h < 32" "8 \<le> length d"
  shows "FFTABLEOUT (FFTABLEIN tab g d) h = (if h = g then take 8 d else FFTABLEOUT tab h)"
proof -
  have "bytes32 (le32 (take 4 d)) @ bytes32 (le32 (take 4 (drop 4 d))) = take 8 d"
    using assms(4) by (simp add: le32_bytes take_add [of 4 4, simplified, symmetric])
  moreover have "le32 (take 4 d) = le32 d" "le32 (take 4 (drop 4 d)) = le32 (drop 4 d)"
    by (simp_all add: le32_def)
  ultimately show ?thesis
    using assms by (auto simp: FFTABLEOUT_def FFTABLEIN_def nth_list_update)
qed

lemma FFTABLEOUTXORNBY_eq:
  assumes "n \<le> 8" "n \<le> length data" "g < 32"
  shows "FFTABLEOUTXORNBY n data tab g = map2 (XOR) (take n data) (take n (FFTABLEOUT tab g)) @ drop n data"
proof -
  have "tab_byte tab (4 * (g + (if j \<ge> 4 then 32 - 1 else 0)) + j) = FFTABLEOUT tab g ! j" if "j < 8" for j
  proof -
    have l: "length (bytes32 w) = 4" for w by (simp add: bytes32_def)
    show ?thesis
    proof (cases "j < 4")
      case False
      define m where "m = j - 4"
      have m: "j = 4 + m" "m < 4" using False that by (simp_all add: m_def)
      have "4 * (g + (32 - 1)) + (4 + m) = m + (32 + g) * 4" by simp
      moreover have "(m + a * 4) div 4 = a" "(m + a * 4) mod 4 = m" for a using m(2) by simp_all
      ultimately have "(4 * (g + (32 - 1)) + (4 + m)) div 4 = 32 + g" "(4 * (g + (32 - 1)) + (4 + m)) mod 4 = m"
        by (simp_all only:)
      then show ?thesis by (simp only: tab_byte_def m(1)) (simp add: FFTABLEOUT_def nth_append l m)
    qed (simp add: tab_byte_def FFTABLEOUT_def nth_append l)
  qed
  then show ?thesis
    using assms by (auto simp: FFTABLEOUTXORNBY_def intro!: nth_equalityI)
qed

end
