(* ===== verification/StreamRef.thy ===== *)
theory StreamRef
  imports Transpose
begin

text \<open>
  The stream cypher of the common scrambling algorithm as it is specified: for one packet, with
  4-bit registers and the seven s-box tables (the comments in stream.c give tables and steps in this
  form). The theorem says that the bit-sliced, transposed code of FFdecsa computes this cypher for
  every packet of a group.
\<close>

subsection \<open>The reference cypher\<close>

type_synonym nibble = "4 word"

record csa_regs =
  cA :: "nibble list"
  cB :: "nibble list"
  cX :: nibble
  cY :: nibble
  cZ :: nibble
  cD :: nibble
  cE :: nibble
  cF :: nibble
  cp :: bool
  cq :: bool
  cr :: bool

definition nibble4 :: "bool \<Rightarrow> bool \<Rightarrow> bool \<Rightarrow> bool \<Rightarrow> nibble" where
  "nibble4 a b c d = of_bool a + 2 * of_bool b + 4 * of_bool c + 8 * of_bool d"

definition sbox_tab :: "nat list list" where
  "sbox_tab =
    [[2,0,1,1,2,3,3,0, 3,2,2,0,1,1,0,3, 0,3,3,0,2,2,1,1, 2,2,0,3,1,1,3,0],
     [3,1,0,2,2,3,3,0, 1,3,2,1,0,0,1,2, 3,1,0,3,3,2,0,2, 0,0,1,2,2,1,3,1],
     [2,0,1,2,2,3,3,1, 1,1,0,3,3,0,2,0, 1,3,0,1,3,0,2,2, 2,0,1,2,0,3,3,1],
     [3,1,2,3,0,2,1,2, 1,2,0,1,3,0,0,3, 1,0,3,1,2,3,0,3, 0,3,2,0,1,2,2,1],
     [2,0,0,1,3,2,3,2, 0,1,3,3,1,0,2,1, 2,3,2,0,0,3,1,1, 1,0,3,2,3,1,0,2],
     [0,1,2,3,1,2,2,0, 0,1,3,0,2,3,1,3, 2,3,0,2,3,0,1,1, 2,1,1,2,0,3,3,0],
     [0,3,2,2,3,0,0,1, 3,0,1,3,1,2,2,1, 1,0,3,3,0,1,1,2, 2,3,1,0,2,3,0,2]]"

text \<open>The two output bits of s-box \<open>n\<close>, the high one first.\<close>

definition sbox_ref :: "nat \<Rightarrow> bool \<Rightarrow> bool \<Rightarrow> bool \<Rightarrow> bool \<Rightarrow> bool \<Rightarrow> bool \<times> bool" where
  "sbox_ref n e a b c d =
     (let v = sbox_tab ! (n - 1) ! (16 * of_bool e + 8 * of_bool a + 4 * of_bool b + 2 * of_bool c + of_bool d)
      in (v \<ge> 2, odd v))"

definition csa_step :: "(nibble \<times> nibble) option \<Rightarrow> csa_regs \<Rightarrow> csa_regs" where
  "csa_step inp s =
     (let A = (\<lambda>n i. bit (cA s ! n) i); B = (\<lambda>n i. bit (cB s ! n) i);
          (s1a, s1b) = sbox_ref 1 (A 3 0) (A 0 2) (A 5 1) (A 6 3) (A 8 0);
          (s2a, s2b) = sbox_ref 2 (A 1 1) (A 2 2) (A 5 3) (A 6 0) (A 8 1);
          (s3a, s3b) = sbox_ref 3 (A 0 3) (A 1 0) (A 4 1) (A 4 3) (A 5 2);
          (s4a, s4b) = sbox_ref 4 (A 2 3) (A 0 1) (A 1 3) (A 3 2) (A 7 0);
          (s5a, s5b) = sbox_ref 5 (A 4 2) (A 3 3) (A 5 0) (A 7 1) (A 8 2);
          (s6a, s6b) = sbox_ref 6 (A 2 1) (A 3 1) (A 4 0) (A 6 2) (A 8 3);
          (s7a, s7b) = sbox_ref 7 (A 1 2) (A 2 0) (A 6 1) (A 7 2) (A 7 3);
          extra = nibble4 (((B 8 2 \<noteq> B 5 3) \<noteq> B 2 1) \<noteq> B 7 0) (((B 4 3 \<noteq> B 7 2) \<noteq> B 3 0) \<noteq> B 4 1)
                          (((B 5 0 \<noteq> B 7 1) \<noteq> B 2 3) \<noteq> B 3 2) (((B 2 0 \<noteq> B 5 1) \<noteq> B 6 2) \<noteq> B 8 3);
          next_A0 = (case inp of None \<Rightarrow> cA s ! 9 XOR cX s
                     | Some (ia, ib) \<Rightarrow> ((cA s ! 9 XOR cX s) XOR cD s) XOR ia);
          T2 = (case inp of None \<Rightarrow> (cB s ! 6 XOR cB s ! 9) XOR cY s
                | Some (ia, ib) \<Rightarrow> ((cB s ! 6 XOR cB s ! 9) XOR cY s) XOR ib);
          next_B0 = (if cp s then push_bit 1 T2 OR drop_bit 3 T2 else T2);
          sum = uint (cZ s) + uint (cE s) + of_bool (cr s)
      in \<lparr>cA = next_A0 # take 9 (cA s), cB = next_B0 # take 9 (cB s),
          cX = nibble4 s1a s2a s3b s4b, cY = nibble4 s3a s4a s5b s6b, cZ = nibble4 s5a s6a s1b s2b,
          cD = (cE s XOR cZ s) XOR extra, cE = cF s,
          cF = (if cq s then word_of_int sum else cE s),
          cp = s7a, cq = s7b, cr = (if cq s then sum \<ge> 16 else cr s)\<rparr>)"

text \<open>Key and first block of the packet go in during 32 steps.\<close>

definition hi_nibble :: "u8 \<Rightarrow> nibble" where
  "hi_nibble b = ucast (drop_bit 4 b)"

definition lo_nibble :: "u8 \<Rightarrow> nibble" where
  "lo_nibble b = ucast b"

definition csa_load :: "bytes \<Rightarrow> csa_regs" where
  "csa_load ck =
     \<lparr>cA = concat (map (\<lambda>b. [hi_nibble b, lo_nibble b]) (take 4 ck)) @ [0, 0],
      cB = concat (map (\<lambda>b. [hi_nibble b, lo_nibble b]) (drop 4 ck)) @ [0, 0],
      cX = 0, cY = 0, cZ = 0, cD = 0, cE = 0, cF = 0, cp = False, cq = False, cr = False\<rparr>"

definition csa_init :: "bytes \<Rightarrow> bytes \<Rightarrow> csa_regs" where
  "csa_init ck sb =
     fold (\<lambda>(i, j). csa_step (Some (if j mod 2 \<noteq> 0 then (lo_nibble (sb ! i), hi_nibble (sb ! i))
                                    else (hi_nibble (sb ! i), lo_nibble (sb ! i)))))
       loop_ij (csa_load ck)"

text \<open>Two output bits per step, four steps per byte.\<close>

definition csa_two_bits :: "csa_regs \<Rightarrow> bool list" where
  "csa_two_bits s = [bit (cD s) 2 \<noteq> bit (cD s) 3, bit (cD s) 0 \<noteq> bit (cD s) 1]"

fun csa_bits :: "nat \<Rightarrow> csa_regs \<Rightarrow> bool list \<times> csa_regs" where
  "csa_bits 0 s = ([], s)"
| "csa_bits (Suc n) s =
     (let s1 = csa_step None s; (bs, s2) = csa_bits n s1 in (csa_two_bits s1 @ bs, s2))"

text \<open>Eight bytes, the most significant bit of each first.\<close>

definition bits_byte :: "bool list \<Rightarrow> u8" where
  "bits_byte bs = horner_sum of_bool 2 (rev bs)"

definition csa_stream :: "csa_regs \<Rightarrow> bytes \<times> csa_regs" where
  "csa_stream s =
     (case csa_bits 32 s of (bs, s') \<Rightarrow> (map (\<lambda>i. bits_byte (take 8 (drop (8 * i) bs))) [0..<8], s'))"

subsection \<open>One step of one lane\<close>

definition nibw :: "bool nib \<Rightarrow> nibble" where
  "nibw n = nibble4 (b0 n) (b1 n) (b2 n) (b3 n)"

definition ref_regs :: "nat \<Rightarrow> bool stream_regs \<Rightarrow> csa_regs" where
  "ref_regs aboff regs =
     \<lparr>cA = map nibw (take 10 (drop aboff (rA regs))), cB = map nibw (take 10 (drop aboff (rB regs))),
      cX = nibw (rX regs), cY = nibw (rY regs), cZ = nibw (rZ regs), cD = nibw (rD regs), cE = nibw (rE regs),
      cF = nibw (rF regs), cp = rp regs, cq = rq regs, cr = rr regs\<rparr>"

lemma bit_nibble4: "bit (nibble4 a b c d) i \<longleftrightarrow> (i = 0 \<and> a) \<or> (i = 1 \<and> b) \<or> (i = 2 \<and> c) \<or> (i = 3 \<and> d)"
proof (cases "i < 4")
  case True
  then consider "i = 0" | "i = 1" | "i = 2" | "i = 3" by linarith
  then show ?thesis
    by cases (cases a; cases b; cases c; cases d; simp add: nibble4_def)+
qed (auto dest: bit_imp_le_length)

lemma bit_nibw [simp]: "bit (nibw n) 0 = b0 n" "bit (nibw n) (Suc 0) = b1 n" "bit (nibw n) 2 = b2 n" "bit (nibw n) 3 = b3 n"
  by (simp_all add: nibw_def bit_nibble4)

lemma nibw_Nib: "nibw (Nib a b c d) = nibble4 a b c d"
  by (simp add: nibw_def)

lemma nibw_xor: "nibw (xor4 bool_ops x y) = nibw x XOR nibw y"
  by (rule bit_word_eqI) (auto simp: nibw_def bit_nibble4 bit_xor_iff xor4_def bool_ops_def)

lemma sbox_ref_circuits:
  "sbox1 bool_ops e a b c d = sbox_ref 1 e a b c d" "sbox2 bool_ops e a b c d = sbox_ref 2 e a b c d"
  "sbox3 bool_ops e a b c d = sbox_ref 3 e a b c d" "sbox4 bool_ops e a b c d = sbox_ref 4 e a b c d"
  "sbox5 bool_ops e a b c d = sbox_ref 5 e a b c d" "sbox6 bool_ops e a b c d = sbox_ref 6 e a b c d"
  "sbox7 bool_ops e a b c d = sbox_ref 7 e a b c d"
  by (cases e; cases a; cases b; cases c; cases d;
      simp add: sbox1_def sbox2_def sbox3_def sbox4_def sbox5_def sbox6_def sbox7_def sbox_ref_def sbox_tab_def
        bool_ops_def Let_def)+

lemma nibw_rotate: "nibw (rotate_p bool_ops p n) = (if p then push_bit 1 (nibw n) OR drop_bit 3 (nibw n) else nibw n)"
  by (cases n; cases p) (auto simp: rotate_p_def bool_ops_def nibw_def nibble4_def)

lemma uint_nibble4: "uint (nibble4 a b c d) = of_bool a + 2 * of_bool b + 4 * of_bool c + 8 * of_bool d"
  by (cases a; cases b; cases c; cases d; simp add: nibble4_def)

lemma full_adder:
  "(of_bool (x \<noteq> (y \<noteq> c)) :: int) + 2 * of_bool ((x \<and> y) \<or> ((x \<noteq> y) \<and> c)) = of_bool x + of_bool y + of_bool c"
  by (cases x; cases y; cases c; simp)

lemma add_q_ref:
  assumes "add_q bool_ops q Z E r = (F, r')"
  shows "nibw F = (if q then word_of_int (uint (nibw Z) + uint (nibw E) + of_bool r) else nibw E)"
    and "r' = (if q then uint (nibw Z) + uint (nibw E) + of_bool r \<ge> 16 else r)"
proof -
  have "nibw F = (if q then word_of_int (uint (nibw Z) + uint (nibw E) + of_bool r) else nibw E) \<and>
    r' = (if q then uint (nibw Z) + uint (nibw E) + of_bool r \<ge> 16 else r)"
  proof (cases q)
    case True
    define c1 where "c1 = ((b0 Z \<and> b0 E) \<or> ((b0 Z \<noteq> b0 E) \<and> r))"
    define c2 where "c2 = ((b1 Z \<and> b1 E) \<or> ((b1 Z \<noteq> b1 E) \<and> c1))"
    define c3 where "c3 = ((b2 Z \<and> b2 E) \<or> ((b2 Z \<noteq> b2 E) \<and> c2))"
    define c4 where "c4 = ((b3 Z \<and> b3 E) \<or> ((b3 Z \<noteq> b3 E) \<and> c3))"
    have F: "F = Nib (b0 Z \<noteq> (b0 E \<noteq> r)) (b1 Z \<noteq> (b1 E \<noteq> c1)) (b2 Z \<noteq> (b2 E \<noteq> c2)) (b3 Z \<noteq> (b3 E \<noteq> c3))"
      and r': "r' = c4"
      using assms True by (auto simp: add_q_def bool_ops_def Let_def c4_def c3_def c2_def c1_def)
    have "uint (nibw F) + 16 * of_bool r' = uint (nibw Z) + uint (nibw E) + of_bool r"
      using full_adder [of "b0 Z" "b0 E" r] full_adder [of "b1 Z" "b1 E" c1]
        full_adder [of "b2 Z" "b2 E" c2] full_adder [of "b3 Z" "b3 E" c3]
      unfolding nibw_def uint_nibble4 F r' nib.sel c1_def [symmetric] c2_def [symmetric] c3_def [symmetric] c4_def [symmetric]
      by linarith
    moreover have "0 \<le> uint (nibw F)" "uint (nibw F) < 16" using uint_lt2p [of "nibw F"] by simp_all
    moreover have "word_of_int (uint (nibw F) + 16 * of_bool r') = nibw F"
      by (simp add: word_of_int_eq_iff take_bit_eq_mod of_bool_def)
    moreover have "r' \<longleftrightarrow> 16 \<le> x" if "f + 16 * of_bool r' = x" "0 \<le> f" "f < 16" for f x :: int
      using that by (cases r') auto
    ultimately have "r' \<longleftrightarrow> 16 \<le> uint (nibw Z) + uint (nibw E) + of_bool r"
      and "word_of_int (uint (nibw Z) + uint (nibw E) + of_bool r) = nibw F"
      by metis+
    then show ?thesis using True by simp
  qed (use assms in \<open>auto simp: add_q_def bool_ops_def Let_def\<close>)
  then show "nibw F = (if q then word_of_int (uint (nibw Z) + uint (nibw E) + of_bool r) else nibw E)"
    "r' = (if q then uint (nibw Z) + uint (nibw E) + of_bool r \<ge> 16 else r)" by auto
qed


text \<open>The parts of a step of the reference.\<close>

lemma csa_step_regs:
  "cA (csa_step inp s) = (case inp of None \<Rightarrow> cA s ! 9 XOR cX s
     | Some (ia, ib) \<Rightarrow> ((cA s ! 9 XOR cX s) XOR cD s) XOR ia) # take 9 (cA s)"
  "cB (csa_step inp s) = (let T2 = (case inp of None \<Rightarrow> (cB s ! 6 XOR cB s ! 9) XOR cY s
     | Some (ia, ib) \<Rightarrow> ((cB s ! 6 XOR cB s ! 9) XOR cY s) XOR ib)
     in if cp s then push_bit 1 T2 OR drop_bit 3 T2 else T2) # take 9 (cB s)"
  "cE (csa_step inp s) = cF s"
  "cF (csa_step inp s) = (if cq s then word_of_int (uint (cZ s) + uint (cE s) + of_bool (cr s)) else cE s)"
  "cr (csa_step inp s) = (if cq s then uint (cZ s) + uint (cE s) + of_bool (cr s) \<ge> 16 else cr s)"
  by (simp_all add: csa_step_def Let_def split_def)

lemma csa_step_D:
  "cD (csa_step inp s) = (cE s XOR cZ s) XOR
     (let B = (\<lambda>n i. bit (cB s ! n) i) in
      nibble4 (((B 8 2 \<noteq> B 5 3) \<noteq> B 2 1) \<noteq> B 7 0) (((B 4 3 \<noteq> B 7 2) \<noteq> B 3 0) \<noteq> B 4 1)
              (((B 5 0 \<noteq> B 7 1) \<noteq> B 2 3) \<noteq> B 3 2) (((B 2 0 \<noteq> B 5 1) \<noteq> B 6 2) \<noteq> B 8 3))"
  unfolding csa_step_def Let_def split_def by simp

lemma csa_step_sboxes:
  assumes "length A = 10" "cA s = map nibw A"
  shows "sboxes bool_ops A 0 = (X, Y, Z, p, q) \<Longrightarrow>
    cX (csa_step inp s) = nibw X \<and> cY (csa_step inp s) = nibw Y \<and> cZ (csa_step inp s) = nibw Z \<and>
    cp (csa_step inp s) = p \<and> cq (csa_step inp s) = q"
  unfolding csa_step_def Let_def split_def sboxes_def sbox_ref_circuits prod.inject add_0_left assms(2)
  using assms(1) by (elim conjE, hypsubst) (simp add: nibw_Nib)

text \<open>The window of a register.\<close>

lemma window:
  assumes "aboff + 10 \<le> length xs"
  shows "sboxes g xs aboff = sboxes g (take 10 (drop aboff xs)) 0"
    "extra_B g xs aboff = extra_B g (take 10 (drop aboff xs)) 0"
    "n < 10 \<Longrightarrow> xs ! (aboff + n) = take 10 (drop aboff xs) ! n"
proof -
  define ys where "ys = take 10 (drop aboff xs)"
  have n: "xs ! (aboff + n) = ys ! (0 + n)" if "n < 10" for n using that assms by (simp add: ys_def)
  have e: "xs ! (aboff + 0) = ys ! (0 + 0)" "xs ! (aboff + 1) = ys ! (0 + 1)" "xs ! (aboff + 2) = ys ! (0 + 2)"
    "xs ! (aboff + 3) = ys ! (0 + 3)" "xs ! (aboff + 4) = ys ! (0 + 4)" "xs ! (aboff + 5) = ys ! (0 + 5)"
    "xs ! (aboff + 6) = ys ! (0 + 6)" "xs ! (aboff + 7) = ys ! (0 + 7)" "xs ! (aboff + 8) = ys ! (0 + 8)"
    by (rule n; simp)+
  show "sboxes g xs aboff = sboxes g (take 10 (drop aboff xs)) 0"
    unfolding sboxes_def ys_def [symmetric] e ..
  show "extra_B g xs aboff = extra_B g (take 10 (drop aboff xs)) 0"
    unfolding extra_B_def ys_def [symmetric] e ..
  show "n < 10 \<Longrightarrow> xs ! (aboff + n) = take 10 (drop aboff xs) ! n"
    using n by (simp add: ys_def)
qed

lemma window_shift:
  assumes "0 < aboff" "aboff \<le> 32" "length xs = 42"
  shows "take 10 (drop (aboff - 1) (xs[aboff - 1 := x])) = x # take 9 (take 10 (drop aboff xs))"
proof -
  have "drop (aboff - 1) (xs[aboff - 1 := x]) = x # drop aboff xs"
    using assms by (simp add: drop_update_swap Cons_nth_drop_Suc [symmetric] del: One_nat_def)
  then show ?thesis by (simp add: numeral_eq_Suc)
qed

lemma extra_ref:
  assumes "length B = 10"
  shows "nibw (extra_B bool_ops B 0) =
      (let B = (\<lambda>n i. bit (map nibw B ! n) i) in
       nibble4 (((B 8 2 \<noteq> B 5 3) \<noteq> B 2 1) \<noteq> B 7 0) (((B 4 3 \<noteq> B 7 2) \<noteq> B 3 0) \<noteq> B 4 1)
              (((B 5 0 \<noteq> B 7 1) \<noteq> B 2 3) \<noteq> B 3 2) (((B 2 0 \<noteq> B 5 1) \<noteq> B 6 2) \<noteq> B 8 3))"
  using assms unfolding extra_B_def Let_def nibw_Nib add_0_left by (simp add: bool_ops_def)

lemma ref_step:
  assumes "0 < aboff" "aboff \<le> 32" "wf_regs regs"
  shows "ref_regs (aboff - 1) (stream_step bool_ops inp aboff regs) =
    csa_step (map_option (map_prod nibw nibw) inp) (ref_regs aboff regs)"
proof -
  define A where "A = take 10 (drop aboff (rA regs))"
  define B where "B = take 10 (drop aboff (rB regs))"
  have regs: "length (rA regs) = 42" "length (rB regs) = 42" using assms(3) by (simp_all add: wf_regs_def)
  then have len: "length A = 10" "length B = 10" "aboff + 10 \<le> length (rA regs)" "aboff + 10 \<le> length (rB regs)"
    using assms(2) by (simp_all add: A_def B_def)
  note w = window [OF len(3), folded A_def] window [OF len(4), folded B_def]
  obtain F r where F: "add_q bool_ops (rq regs) (rZ regs) (rE regs) (rr regs) = (F, r)" by fastforce
  obtain X Y Z p q where S: "sboxes bool_ops A 0 = (X, Y, Z, p, q)" by (metis surj_pair)
  define s where "s = ref_regs aboff regs"
  have s: "cA s = map nibw A" "cB s = map nibw B" by (simp_all add: s_def ref_regs_def A_def B_def)
  define inp' where "inp' = map_option (map_prod nibw nibw) inp"
  show ?thesis
    unfolding s_def [symmetric] inp'_def [symmetric]
  proof (rule csa_regs.equality)
    show "cA (ref_regs (aboff - 1) (stream_step bool_ops inp aboff regs)) = cA (csa_step inp' s)"
      unfolding stream_step_def Let_def w(1) S F prod.case w(3) [of 9, simplified] csa_step_regs s
      by (cases inp) (auto simp: ref_regs_def window_shift [OF assms(1,2) regs(1)] inp'_def nibw_xor
          len s_def A_def [symmetric] take_map simp del: One_nat_def)
    show "cB (ref_regs (aboff - 1) (stream_step bool_ops inp aboff regs)) = cB (csa_step inp' s)"
      unfolding stream_step_def Let_def w(1) S F prod.case w(6) [of 9, simplified] w(6) [of 6, simplified] csa_step_regs s
      by (cases inp) (auto simp: ref_regs_def window_shift [OF assms(1,2) regs(2)] inp'_def nibw_xor
          len s_def B_def [symmetric] take_map nibw_rotate simp del: One_nat_def)
    show "cD (ref_regs (aboff - 1) (stream_step bool_ops inp aboff regs)) = cD (csa_step inp' s)"
      unfolding stream_step_def Let_def [of _ "\<lambda>x. _ x"] w(1,5) S F prod.case csa_step_D s extra_ref [OF len(2), symmetric]
      by (simp add: ref_regs_def s_def nibw_xor extra_ref [OF len(2), unfolded Let_def])
  qed (use csa_step_sboxes [OF len(1) s(1) S, of inp'] add_q_ref [OF F] in
        \<open>simp_all add: stream_step_def Let_def w(1) S F ref_regs_def csa_step_regs s_def\<close>)
qed

subsection \<open>The loops of one lane\<close>

lemma ref_forward: "wf_regs regs \<Longrightarrow> ref_regs 32 (move_forward regs) = ref_regs 0 regs"
  by (simp add: ref_regs_def move_forward_def wf_regs_def)

lemma ref_init_fold:
  "wf_regs rs \<Longrightarrow> length ps \<le> aboff \<Longrightarrow> aboff \<le> 32 \<Longrightarrow>
     ref_regs (aboff - length ps) (snd (fold (init_body bool_ops sb) ps (aboff, rs))) =
     fold (\<lambda>(i, j). csa_step (Some (map_prod nibw nibw (init_input sb i j)))) ps (ref_regs aboff rs)"
proof (induction ps arbitrary: aboff rs)
  case (Cons ij ps)
  obtain i j where ij: "ij = (i, j)" by fastforce
  define rs' where "rs' = stream_step bool_ops (Some (init_input sb i j)) aboff rs"
  have "ref_regs (aboff - 1) rs' = csa_step (Some (map_prod nibw nibw (init_input sb i j))) (ref_regs aboff rs)"
    using Cons.prems ref_step [of aboff rs "Some (init_input sb i j)"] by (simp add: rs'_def)
  moreover have "wf_regs rs'" using Cons.prems(1) by (simp add: rs'_def wf_step)
  ultimately show ?case
    using Cons.IH [of rs' "aboff - 1"] Cons.prems by (simp add: ij init_body_def rs'_def)
qed simp

lemma ref_init:
  assumes "wf_regs regs" "length iA = 8" "length iB = 8"
  shows "ref_regs 32 (stream_init bool_ops iA iB sb regs) =
    fold (\<lambda>(i, j). csa_step (Some (map_prod nibw nibw (init_input sb i j)))) loop_ij
      (ref_regs 32 (load_key bool_ops iA iB regs))"
  using ref_init_fold [OF wf_load [OF assms, of bool_ops], of loop_ij 32 sb]
  by (simp add: stream_init_def ref_forward wf_init_fold wf_load assms length_loop_ij)

lemma nibw_zero: "nibw (Nib False False False False) = 0"
  by (simp add: nibw_Nib nibble4_def)

lemma ref_load:
  assumes "wf_regs regs" "length iA = 8" "length iB = 8"
  shows "ref_regs 32 (load_key bool_ops iA iB regs) =
    \<lparr>cA = map nibw iA @ [0, 0], cB = map nibw iB @ [0, 0], cX = 0, cY = 0, cZ = 0, cD = 0, cE = 0, cF = 0,
     cp = False, cq = False, cr = False\<rparr>"
  using assms by (simp add: ref_regs_def load_key_def wf_regs_def Let_def bool_ops_def nibw_zero)

lemma loop_ij_upt: "loop_ij = map (\<lambda>m. (m div 4, m mod 4)) [0..<32]"
  by (simp add: loop_ij_def upt_rec)

lemma csa_bits_eq:
  "csa_bits n s = (concat (map (\<lambda>m. csa_two_bits ((csa_step None ^^ Suc m) s)) [0..<n]), (csa_step None ^^ n) s)"
proof (induction n arbitrary: s)
  case (Suc n)
  have "map (\<lambda>m. csa_two_bits ((csa_step None ^^ Suc m) s)) [0..<Suc n] =
      csa_two_bits (csa_step None s) # map (\<lambda>m. csa_two_bits ((csa_step None ^^ Suc m) (csa_step None s))) [0..<n]"
    by (simp add: map_upt_Suc funpow_swap1 del: upt_Suc)
  then show ?case
    by (simp add: Suc.IH funpow_swap1 Let_def del: upt_Suc)
qed simp

text \<open>The two output positions of step \<open>m\<close>.\<close>

abbreviation (input) out_hi :: "nat \<Rightarrow> nat" where "out_hi m \<equiv> 8 * (m div 4) + 7 - 2 * (m mod 4)"
abbreviation (input) out_lo :: "nat \<Rightarrow> nat" where "out_lo m \<equiv> 8 * (m div 4) + 6 - 2 * (m mod 4)"

lemma out_positions:
  "out_hi m \<noteq> out_lo m'" "m \<noteq> m' \<Longrightarrow> out_hi m \<noteq> out_hi m'" "m \<noteq> m' \<Longrightarrow> out_lo m \<noteq> out_lo m'"
proof -
  have r: "m mod 4 \<le> 3" "m' mod 4 \<le> 3" by (simp_all add: less_Suc_eq_le [symmetric])
  have "8 * q + 7 - 2 * r \<noteq> 8 * q' + 6 - 2 * r'" if "r \<le> 3" "r' \<le> 3" for q r q' r' :: nat
  proof
    assume "8 * q + 7 - 2 * r = 8 * q' + 6 - 2 * r'"
    then have e: "8 * q + 7 + 2 * r' = 8 * q' + 6 + 2 * r" using that by linarith
    have "odd (8 * q + 7 + 2 * r')" "even (8 * q' + 6 + 2 * r)" by simp_all
    then show False unfolding e by simp
  qed
  then show "out_hi m \<noteq> out_lo m'" using r .
  have e: "m = m'" if "8 * (m div 4) + c - 2 * (m mod 4) = 8 * (m' div 4) + c - 2 * (m' mod 4)" "6 \<le> c" for c
  proof -
    have "4 * (m div 4) + m' mod 4 = 4 * (m' div 4) + m mod 4" using that r by linarith
    then have "m div 4 = m' div 4" using r by linarith
    moreover from this have "m mod 4 = m' mod 4"
      using \<open>4 * (m div 4) + m' mod 4 = 4 * (m' div 4) + m mod 4\<close> by linarith
    ultimately show ?thesis by (metis mult_div_mod_eq)
  qed
  show "m \<noteq> m' \<Longrightarrow> out_hi m \<noteq> out_hi m'" using e [of 7] by auto
  show "m \<noteq> m' \<Longrightarrow> out_lo m \<noteq> out_lo m'" using e [of 6] by auto
qed

lemma out_less: "m < 32 \<Longrightarrow> out_hi m < 64" "m < 32 \<Longrightarrow> out_lo m < 64"
proof -
  assume "m < 32"
  then have "m div 4 \<le> 7" by (simp add: div_le_mono [of m 31 4, simplified])
  then show "out_hi m < 64" "out_lo m < 64" by linarith+
qed

lemma ref_normal_fold:
  assumes "wf_regs rs" "length cb = 64" "n \<le> 32"
  shows "\<exists>rs' cb'. fold (normal_body bool_ops) (map (\<lambda>m. (m div 4, m mod 4)) [0..<n]) (32, rs, cb) = (32 - n, rs', cb') \<and>
    wf_regs rs' \<and> length cb' = 64 \<and> ref_regs (32 - n) rs' = (csa_step None ^^ n) (ref_regs 32 rs) \<and>
    (\<forall>m < n. [cb' ! out_hi m, cb' ! out_lo m] = csa_two_bits ((csa_step None ^^ Suc m) (ref_regs 32 rs)))"
  using assms(3)
proof (induction n)
  case (Suc n)
  then obtain rs1 cb1 where ih: "fold (normal_body bool_ops) (map (\<lambda>m. (m div 4, m mod 4)) [0..<n]) (32, rs, cb) = (32 - n, rs1, cb1)"
      "wf_regs rs1" "length cb1 = 64" "ref_regs (32 - n) rs1 = (csa_step None ^^ n) (ref_regs 32 rs)"
      "\<forall>m < n. [cb1 ! out_hi m, cb1 ! out_lo m] = csa_two_bits ((csa_step None ^^ Suc m) (ref_regs 32 rs))"
    by auto
  define rs2 where "rs2 = stream_step bool_ops None (32 - n) rs1"
  define cb2 where "cb2 = cb1[out_hi n := b2 (rD rs2) \<noteq> b3 (rD rs2), out_lo n := b0 (rD rs2) \<noteq> b1 (rD rs2)]"
  have fold2: "fold (normal_body bool_ops) (map (\<lambda>m. (m div 4, m mod 4)) [0..<Suc n]) (32, rs, cb) = (32 - Suc n, rs2, cb2)"
    using ih(1) by (simp add: normal_body_def Let_def rs2_def cb2_def bool_ops_def)
  have ref2: "ref_regs (32 - Suc n) rs2 = (csa_step None ^^ Suc n) (ref_regs 32 rs)"
    using ref_step [of "32 - n" rs1 None] ih(2,4) Suc.prems by (simp add: rs2_def)
  have D: "[b2 (rD rs2) \<noteq> b3 (rD rs2), b0 (rD rs2) \<noteq> b1 (rD rs2)] = csa_two_bits ((csa_step None ^^ Suc n) (ref_regs 32 rs))"
    unfolding ref2 [symmetric] by (simp add: csa_two_bits_def ref_regs_def)
  have pos: "out_hi n < 64" "out_lo n < 64" using Suc.prems out_less [of n] by simp_all
  have "[cb2 ! out_hi m, cb2 ! out_lo m] = csa_two_bits ((csa_step None ^^ Suc m) (ref_regs 32 rs))" if "m < Suc n" for m
  proof (cases "m = n")
    case True
    then show ?thesis
      using pos ih(3) out_positions(1) [of n n] D by (simp add: cb2_def del: funpow.simps)
  next
    case False
    then have "m < n" using that by simp
    moreover have "cb2 ! out_hi m = cb1 ! out_hi m" "cb2 ! out_lo m = cb1 ! out_lo m"
      using out_positions(1) [of m n] out_positions(1) [of n m] out_positions(2,3) [OF False]
      unfolding cb2_def by (metis nth_list_update_neq)+
    ultimately show ?thesis using ih(5) by simp
  qed
  then show ?case
    using fold2 ref2 ih(2,3) by (auto simp: rs2_def cb2_def wf_step)
qed (use assms in auto)


subsection \<open>The group functions\<close>

text \<open>The functions of FFdecsa with the transposition (\<open>GROUP_PARALLELISM\<close> 32). The key schedule of
  the stream cypher gives nibbles, which become groups of all ones or all zeros.\<close>

definition key_schedule_stream :: "bytes \<Rightarrow> int list \<times> int list" where
  "key_schedule_stream ck =
     (let hi = (\<lambda>i. uint (drop_bit 4 (ck ! i) AND 0xf)); lo = (\<lambda>i. uint ((ck ! i) AND 0xf))
      in ([hi 0, lo 0, hi 1, lo 1, hi 2, lo 2, hi 3, lo 3], [hi 4, lo 4, hi 5, lo 5, hi 6, lo 6, hi 7, lo 7]))"

definition nibble_groups :: "'g group_ops \<Rightarrow> int list \<Rightarrow> 'g nib list" where
  "nibble_groups g ia =
     (let ff = (\<lambda>n bi. if n AND push_bit bi 1 \<noteq> 0 then FF1 g else FF0 g)
      in map (\<lambda>n. Nib (ff n 0) (ff n 1) (ff n 2) (ff n 3)) ia)"

definition stream_cypher_group_init ::
  "u32 stream_regs \<Rightarrow> u32 nib list \<Rightarrow> u32 nib list \<Rightarrow> u32 list \<Rightarrow> u32 stream_regs" where
  "stream_cypher_group_init regs iA iB sb = stream_init int32_ops iA iB (trasp64_32_88ccw sb) regs"

definition stream_cypher_group_normal :: "u32 stream_regs \<Rightarrow> u32 list \<Rightarrow> u32 stream_regs \<times> u32 list" where
  "stream_cypher_group_normal regs cb =
     (case stream_normal int32_ops regs cb of (regs', cb') \<Rightarrow> (regs', trasp64_32_88cw cb'))"

text \<open>The reference registers of packet \<open>g\<close> inside the group registers.\<close>

definition packet_regs :: "nat \<Rightarrow> u32 stream_regs \<Rightarrow> csa_regs" where
  "packet_regs g regs = ref_regs 32 (lane_regs (\<lambda>w. bit w (g XOR 7)) regs)"

lemma nibble_bits: "nibble4 (bit b 0) (bit b 1) (bit b 2) (bit b 3) = lo_nibble b"
  "nibble4 (bit b 4) (bit b 5) (bit b 6) (bit b 7) = hi_nibble b"
proof -
  show "nibble4 (bit b 0) (bit b 1) (bit b 2) (bit b 3) = lo_nibble b"
  proof (rule bit_word_eqI)
    fix n assume "n < LENGTH(4)"
    then consider "n = 0" | "n = 1" | "n = 2" | "n = 3" by fastforce
    then show "bit (nibble4 (bit b 0) (bit b 1) (bit b 2) (bit b 3)) n = bit (lo_nibble b) n"
      by cases (simp_all add: bit_nibble4 lo_nibble_def bit_simps)
  qed
  show "nibble4 (bit b 4) (bit b 5) (bit b 6) (bit b 7) = hi_nibble b"
  proof (rule bit_word_eqI)
    fix n assume "n < LENGTH(4)"
    then consider "n = 0" | "n = 1" | "n = 2" | "n = 3" by fastforce
    then show "bit (nibble4 (bit b 4) (bit b 5) (bit b 6) (bit b 7)) n = bit (hi_nibble b) n"
      by cases (simp_all add: bit_nibble4 hi_nibble_def bit_simps)
  qed
qed

lemma length_key_groups [simp]:
  "length (nibble_groups g (fst (key_schedule_stream ck))) = 8" "length (nibble_groups g (snd (key_schedule_stream ck))) = 8"
  by (simp_all add: nibble_groups_def key_schedule_stream_def Let_def)

lemma length_trasp [simp]: "length (trasp64_32_88ccw row) = 64" "length (trasp64_32_88cw row) = 64"
  by (simp_all add: trasp64_32_88ccw_def trasp64_32_88cw_def)

lemma wf_lane_regs [simp]: "wf_regs (lane_regs f regs) \<longleftrightarrow> wf_regs regs"
  by (simp add: wf_regs_def lane_regs_def)

lemma four_and_four:
  "length ck = 8 \<Longrightarrow> take 4 ck = [ck ! 0, ck ! 1, ck ! 2, ck ! 3] \<and> drop 4 ck = [ck ! 4, ck ! 5, ck ! 6, ck ! 7]"
  by (auto simp: list_eq_iff_nth_eq less_Suc_eq numeral_eq_Suc)

lemma bit_bits_byte: "length bs = 8 \<Longrightarrow> b < 8 \<Longrightarrow> bit (bits_byte bs) b = bs ! (7 - b)"
  by (simp add: bits_byte_def bit_horner_sum_bit_word_iff rev_nth)

lemma csa_bits_nth:
  assumes "m < n"
  shows "[fst (csa_bits n s) ! (2 * m), fst (csa_bits n s) ! (2 * m + 1)] = csa_two_bits ((csa_step None ^^ Suc m) s)"
    "length (fst (csa_bits n s)) = 2 * n"
proof -
  have two: "length (csa_two_bits t) = 2" for t by (simp add: csa_two_bits_def)
  have len: "length (concat (map (\<lambda>m. csa_two_bits (f m)) [0..<n])) = 2 * n" for f n
    by (induction n) (simp_all add: two)
  have "[xs ! (2 * m), xs ! (2 * m + 1)] = csa_two_bits (f m)"
    if "xs = concat (map (\<lambda>m. csa_two_bits (f m)) [0..<n])" "m < n" for f n xs
    using that
  proof (induction n arbitrary: xs)
    case (Suc n)
    show ?case
    proof (cases "m = n")
      case True
      then show ?thesis using Suc.prems len [of f n]
        by (simp add: nth_append) (simp add: csa_two_bits_def)
    next
      case False
      then show ?thesis using Suc len [of f n] by (auto simp: nth_append less_Suc_eq)
    qed
  qed simp
  then show "[fst (csa_bits n s) ! (2 * m), fst (csa_bits n s) ! (2 * m + 1)] = csa_two_bits ((csa_step None ^^ Suc m) s)"
    using assms by (simp add: csa_bits_eq)
  show "length (fst (csa_bits n s)) = 2 * n" by (simp add: csa_bits_eq len)
qed

lemma csa_stream_bit:
  assumes "i < 8" "b < 8"
  shows "bit (fst (csa_stream s) ! i) b = fst (csa_bits 32 s) ! (8 * i + (7 - b))"
proof -
  define bs where "bs = fst (csa_bits 32 s)"
  have l: "length bs = 64" using csa_bits_nth(2) [of 0 32 s] by (simp add: bs_def)
  have "fst (csa_stream s) ! i = bits_byte (take 8 (drop (8 * i) bs))"
    using assms(1) by (simp add: csa_stream_def bs_def split_def)
  then show ?thesis using assms l by (simp add: bit_bits_byte bs_def)
qed

lemma length_csa_stream [simp]: "length (fst (csa_stream s)) = 8"
  by (simp add: csa_stream_def split_def)

lemma ref_normal:
  assumes "wf_regs rs" "length cb = 64" "stream_normal bool_ops rs cb = (rs', cb')"
  shows "ref_regs 32 rs' = snd (csa_stream (ref_regs 32 rs))" "length cb' = 64"
    "i < 8 \<Longrightarrow> b < 8 \<Longrightarrow> cb' ! (8 * i + b) = bit (fst (csa_stream (ref_regs 32 rs)) ! i) b"
proof -
  define s where "s = ref_regs 32 rs"
  obtain rs1 cb1 where f: "fold (normal_body bool_ops) loop_ij (32, rs, cb) = (32 - 32, rs1, cb1)" "wf_regs rs1"
      "length cb1 = 64" "ref_regs (32 - 32) rs1 = (csa_step None ^^ 32) s"
      "\<forall>m < 32. [cb1 ! out_hi m, cb1 ! out_lo m] = csa_two_bits ((csa_step None ^^ Suc m) s)"
    using ref_normal_fold [OF assms(1,2) order_refl] unfolding loop_ij_upt [symmetric] s_def by blast
  have r: "rs' = move_forward rs1" "cb' = cb1" using assms(3) f(1) by (simp_all add: stream_normal_def)
  show "ref_regs 32 rs' = snd (csa_stream (ref_regs 32 rs))"
    using f(4) by (simp add: r ref_forward f(2) s_def [symmetric] csa_stream_def csa_bits_eq split_def del: funpow.simps)
  show "length cb' = 64" by (simp add: r f(3))
  assume i: "i < 8" and b: "b < 8"
  define m where "m = 4 * i + (7 - b) div 2"
  have "(7 - b) div 2 < 4" using b by linarith
  then have m: "m < 32" "m div 4 = i" "m mod 4 = (7 - b) div 2" using i by (simp_all add: m_def)
  have two: "[cb1 ! out_hi m, cb1 ! out_lo m] = [fst (csa_bits 32 s) ! (2 * m), fst (csa_bits 32 s) ! (2 * m + 1)]"
    using f(5) m(1) csa_bits_nth(1) [OF m(1), of s] by simp
  have "cb1 ! (8 * i + b) = fst (csa_bits 32 s) ! (8 * i + (7 - b))"
  proof (cases "odd b")
    case True
    then have "2 * ((7 - b) div 2) = 7 - b" using b by (auto elim!: oddE)
    then have "out_hi m = 8 * i + b" "2 * m = 8 * i + (7 - b)" using b unfolding m(2,3) by (simp_all add: m_def)
    then show ?thesis using two by simp
  next
    case False
    then have "2 * ((7 - b) div 2) + 1 = 7 - b" using b by (auto elim!: evenE)
    then have "out_lo m = 8 * i + b" "2 * m + 1 = 8 * i + (7 - b)" using b unfolding m(2,3) by (simp_all add: m_def)
    then show ?thesis using two by simp
  qed
  then show "cb' ! (8 * i + b) = bit (fst (csa_stream (ref_regs 32 rs)) ! i) b"
    by (simp add: r csa_stream_bit [OF i b] s_def)
qed

subsection \<open>Parallel modes\<close>

text \<open>What a mode gives to the stream cypher: its group operations, its table of 64 rows with the access to the
  eight bytes of a packet (\<open>FFTABLEIN\<close>, \<open>FFTABLEOUT\<close>), the table read as a list of groups, and the transpositions
  between the two.\<close>

record ('g, 't) slice_mode =
  m_ops :: "'g group_ops"
  m_in :: "'t \<Rightarrow> nat \<Rightarrow> bytes \<Rightarrow> 't"
  m_out :: "'t \<Rightarrow> nat \<Rightarrow> bytes"
  m_rows :: "'t \<Rightarrow> 'g list"
  m_ccw :: "'t \<Rightarrow> 'g list"
  m_cw :: "'g list \<Rightarrow> 't"

definition group_init ::
  "('g, 't) slice_mode \<Rightarrow> 'g stream_regs \<Rightarrow> 'g nib list \<Rightarrow> 'g nib list \<Rightarrow> 't \<Rightarrow> 'g stream_regs" where
  "group_init m regs iA iB sb = stream_init (m_ops m) iA iB (m_ccw m sb) regs"

definition group_normal :: "('g, 't) slice_mode \<Rightarrow> 'g stream_regs \<Rightarrow> 't \<Rightarrow> 'g stream_regs \<times> 't" where
  "group_normal m regs cb =
     (case stream_normal (m_ops m) regs (m_rows m cb) of (regs', cb') \<Rightarrow> (regs', m_cw m cb'))"

text \<open>The outputs of \<open>n\<close> successive calls, which reuse their output table.\<close>

fun mode_outputs :: "('g, 't) slice_mode \<Rightarrow> nat \<Rightarrow> 'g stream_regs \<Rightarrow> 't \<Rightarrow> 't list" where
  "mode_outputs m 0 regs cb = []"
| "mode_outputs m (Suc n) regs cb = (case group_normal m regs cb of (regs', out) \<Rightarrow> out # mode_outputs m n regs' out)"

fun csa_outputs :: "nat \<Rightarrow> csa_regs \<Rightarrow> bytes list" where
  "csa_outputs 0 s = []"
| "csa_outputs (Suc n) s = (case csa_stream s of (out, s') \<Rightarrow> out # csa_outputs n s')"

text \<open>The contract of a mode: the transpositions bring bit \<open>b\<close> of byte \<open>i\<close> of packet \<open>p\<close> to lane \<open>pos p\<close> of
  group \<open>8 * i + b\<close> and back.\<close>

locale packed = bitslice "m_ops m" lane par
  for m :: "('g, 't) slice_mode" and lane :: "nat \<Rightarrow> 'g \<Rightarrow> bool" and par :: nat +
  fixes pos :: "nat \<Rightarrow> nat" and tab_ok :: "'t \<Rightarrow> bool"
  assumes pos_less: "p < par \<Longrightarrow> pos p < par"
    and length_ccw: "length (m_ccw m tab) = 64"
    and length_rows: "tab_ok tab \<Longrightarrow> length (m_rows m tab) = 64"
    and length_out: "length (m_out m tab p) = 8"
    and tab_ok_cw: "length cb = 64 \<Longrightarrow> tab_ok (m_cw m cb)"
    and tab_ok_in: "tab_ok tab \<Longrightarrow> tab_ok (m_in m tab p d)"
    and in_out: "tab_ok tab \<Longrightarrow> p < par \<Longrightarrow> q < par \<Longrightarrow> 8 \<le> length d \<Longrightarrow>
      m_out m (m_in m tab p d) q = (if q = p then take 8 d else m_out m tab q)"
    and ccw_bits: "i < 8 \<Longrightarrow> b < 8 \<Longrightarrow> p < par \<Longrightarrow>
      lane (pos p) (m_ccw m tab ! (8 * i + b)) \<longleftrightarrow> bit (m_out m tab p ! i) b"
    and cw_bits: "length cb = 64 \<Longrightarrow> i < 8 \<Longrightarrow> b < 8 \<Longrightarrow> p < par \<Longrightarrow>
      bit (m_out m (m_cw m cb) p ! i) b \<longleftrightarrow> lane (pos p) (cb ! (8 * i + b))"
begin

text \<open>The reference registers of packet \<open>p\<close> inside the group registers.\<close>

definition regs_of :: "nat \<Rightarrow> 'g stream_regs \<Rightarrow> csa_regs" where
  "regs_of p regs = ref_regs 32 (lane_regs (lane (pos p)) regs)"

lemma key_groups:
  assumes "k < par"
  shows "map nibw (map (map_nib (lane k)) (nibble_groups (m_ops m) (fst (key_schedule_stream ck)))) =
      concat (map (\<lambda>b. [hi_nibble b, lo_nibble b]) [ck ! 0, ck ! 1, ck ! 2, ck ! 3])"
    and "map nibw (map (map_nib (lane k)) (nibble_groups (m_ops m) (snd (key_schedule_stream ck)))) =
      concat (map (\<lambda>b. [hi_nibble b, lo_nibble b]) [ck ! 4, ck ! 5, ck ! 6, ck ! 7])"
proof -
  have f: "lane k (if c then FF1 (m_ops m) else FF0 (m_ops m)) = c" for c
    using lane_0 [OF assms] lane_1 [OF assms] by simp
  have n: "uint (x AND 0xf) AND push_bit n 1 \<noteq> 0 \<longleftrightarrow> bit x n" if "n < 4" for x :: u8 and n
  proof -
    have e: "x AND 0xf = take_bit 4 x" by (simp add: take_bit_eq_mask mask_eq_exp_minus_1)
    have "uint (take_bit 4 x) AND push_bit n 1 \<noteq> 0 \<longleftrightarrow> bit (uint (take_bit 4 x)) n"
      by (simp add: push_bit_eq_mult and_exp_eq_0_iff_not_bit)
    then show ?thesis unfolding e using that by (simp add: bit_uint_iff bit_take_bit_iff bit_imp_le_length)
  qed
  have lo: "nibw (Nib (uint (b AND 0xf) AND push_bit 0 1 \<noteq> 0) (uint (b AND 0xf) AND push_bit 1 1 \<noteq> 0)
      (uint (b AND 0xf) AND push_bit 2 1 \<noteq> 0) (uint (b AND 0xf) AND push_bit 3 1 \<noteq> 0)) = lo_nibble b" for b :: u8
    unfolding nibw_Nib using nibble_bits(1) [of b] by (simp only: n)
  have hi: "nibw (Nib (uint (drop_bit 4 b AND 0xf) AND push_bit 0 1 \<noteq> 0) (uint (drop_bit 4 b AND 0xf) AND push_bit 1 1 \<noteq> 0)
      (uint (drop_bit 4 b AND 0xf) AND push_bit 2 1 \<noteq> 0) (uint (drop_bit 4 b AND 0xf) AND push_bit 3 1 \<noteq> 0)) = hi_nibble b" for b :: u8
    unfolding nibw_Nib using nibble_bits(2) [of b] by (simp only: n) (simp add: bit_drop_bit_eq)
  have hl: "lo_nibble (drop_bit 4 b) = hi_nibble b" for b by (simp add: lo_nibble_def hi_nibble_def)
  show "map nibw (map (map_nib (lane k)) (nibble_groups (m_ops m) (fst (key_schedule_stream ck)))) =
      concat (map (\<lambda>b. [hi_nibble b, lo_nibble b]) [ck ! 0, ck ! 1, ck ! 2, ck ! 3])"
    and "map nibw (map (map_nib (lane k)) (nibble_groups (m_ops m) (snd (key_schedule_stream ck)))) =
      concat (map (\<lambda>b. [hi_nibble b, lo_nibble b]) [ck ! 4, ck ! 5, ck ! 6, ck ! 7])"
    by (simp_all only: key_schedule_stream_def Let_def fst_conv snd_conv nibble_groups_def list.map nib.map f lo hi hl
        concat.simps append_Cons append_Nil)
qed


lemma group_input:
  assumes "i < 8" "p < par"
  shows "map_prod nibw nibw (init_input (map (lane (pos p)) (m_ccw m sb)) i j) =
    (let b = m_out m sb p ! i
     in if j mod 2 \<noteq> 0 then (lo_nibble b, hi_nibble b) else (hi_nibble b, lo_nibble b))"
proof -
  have nth: "map (lane (pos p)) (m_ccw m sb) ! (8 * i + b) = bit (m_out m sb p ! i) b" if "b < 8" for b
    using that assms ccw_bits [OF assms(1) that assms(2), of sb] by (simp add: length_ccw)
  show ?thesis
    using nth [of 0] nth [of 1] nth [of 2] nth [of 3] nth [of 4] nth [of 5] nth [of 6] nth [of 7]
      nibble_bits [of "m_out m sb p ! i"]
    by (simp add: init_input_def Let_def nibw_Nib)
qed

lemma regs_of_init:
  assumes "wf_regs regs" "p < par" "length ck = 8"
  shows "regs_of p (group_init m regs (nibble_groups (m_ops m) (fst (key_schedule_stream ck)))
      (nibble_groups (m_ops m) (snd (key_schedule_stream ck))) sb) = csa_init ck (m_out m sb p)"
proof -
  define f where "f = lane (pos p)"
  note k = pos_less [OF assms(2)]
  define iA where "iA = map (map_nib f) (nibble_groups (m_ops m) (fst (key_schedule_stream ck)))"
  define iB where "iB = map (map_nib f) (nibble_groups (m_ops m) (snd (key_schedule_stream ck)))"
  have l: "length iA = 8" "length iB = 8" by (simp_all add: iA_def iB_def)
  have "regs_of p (group_init m regs (nibble_groups (m_ops m) (fst (key_schedule_stream ck)))
      (nibble_groups (m_ops m) (snd (key_schedule_stream ck))) sb) =
      ref_regs 32 (stream_init bool_ops iA iB (map f (m_ccw m sb)) (lane_regs f regs))"
    unfolding regs_of_def group_init_def f_def [symmetric] iA_def iB_def
    using lane_init [OF k length_ccw assms(1) length_key_groups, folded f_def] by simp
  also have "\<dots> = fold (\<lambda>(i, j). csa_step (Some (map_prod nibw nibw (init_input (map f (m_ccw m sb)) i j))))
      loop_ij (csa_load ck)"
    using key_groups [OF k, of ck] four_and_four [OF assms(3)]
    by (subst ref_init) (auto simp: assms(1) l ref_load csa_load_def iA_def iB_def f_def length_ccw)
  also have "\<dots> = csa_init ck (m_out m sb p)"
    unfolding csa_init_def
    by (rule fold_cong) (auto simp: f_def group_input [OF _ assms(2)] Let_def dest!: loop_ij_bounds)
  finally show ?thesis .
qed

lemma regs_of_normal:
  assumes "wf_regs regs" "tab_ok cb" "p < par" "group_normal m regs cb = (regs', out)"
  shows "regs_of p regs' = snd (csa_stream (regs_of p regs))" "wf_regs regs'" "tab_ok out"
    "m_out m out p = fst (csa_stream (regs_of p regs))"
proof -
  define f where "f = lane (pos p)"
  note k = pos_less [OF assms(3)]
  obtain cb' where n: "stream_normal (m_ops m) regs (m_rows m cb) = (regs', cb')" and o: "out = m_cw m cb'"
    using assms(4) by (auto simp: group_normal_def split: prod.splits)
  have b: "stream_normal bool_ops (lane_regs f regs) (map f (m_rows m cb)) = (lane_regs f regs', map f cb')"
    using lane_normal [OF k assms(1), of "m_rows m cb"] n by (simp add: f_def)
  have w: "wf_regs (lane_regs f regs)" "length (map f (m_rows m cb)) = 64" using assms length_rows by simp_all
  have l: "length cb' = 64" using ref_normal(2) [OF w b] by simp
  show "regs_of p regs' = snd (csa_stream (regs_of p regs))"
    using ref_normal(1) [OF w b] by (simp add: regs_of_def f_def)
  show "wf_regs regs'" using wf_normal [OF assms(1), of "m_ops m" "m_rows m cb"] n by simp
  show "tab_ok out" using tab_ok_cw [OF l] by (simp add: o)
  show "m_out m out p = fst (csa_stream (regs_of p regs))"
  proof (rule nth_equalityI)
    fix i assume "i < length (m_out m out p)"
    then have i: "i < 8" by (simp add: length_out)
    show "m_out m out p ! i = fst (csa_stream (regs_of p regs)) ! i"
    proof (rule bit_word_eqI)
      fix b' assume "b' < LENGTH(8)"
      then have b': "b' < 8" by simp
      then have "8 * i + b' < length cb'" using i l by simp
      then show "bit (m_out m out p ! i) b' = bit (fst (csa_stream (regs_of p regs)) ! i) b'"
        using ref_normal(3) [OF w b i b'] cw_bits [OF l i b' assms(3)] by (simp add: o regs_of_def f_def)
    qed
  qed (simp add: length_out)
qed

lemma mode_outputs_ref:
  "wf_regs regs \<Longrightarrow> tab_ok cb \<Longrightarrow> p < par \<Longrightarrow>
     map (\<lambda>t. m_out m t p) (mode_outputs m n regs cb) = csa_outputs n (regs_of p regs)"
proof (induction n arbitrary: regs cb)
  case (Suc n)
  obtain regs' out where o: "group_normal m regs cb = (regs', out)" by fastforce
  note s = regs_of_normal [OF Suc.prems o]
  show ?case
    using Suc.IH [OF s(2,3) Suc.prems(3)] by (simp add: o s(1,4) split_def)
qed simp

text \<open>Each packet of a group gets the bytes of the reference cypher.\<close>

lemma stream_refines:
  assumes "wf_regs regs" "tab_ok cb" "length ck = 8" "p < par"
  shows "map (\<lambda>t. m_out m t p)
      (mode_outputs m n
        (group_init m regs (nibble_groups (m_ops m) (fst (key_schedule_stream ck)))
          (nibble_groups (m_ops m) (snd (key_schedule_stream ck))) sb) cb) =
    csa_outputs n (csa_init ck (m_out m sb p))"
proof -
  have "wf_regs (group_init m regs (nibble_groups (m_ops m) (fst (key_schedule_stream ck)))
      (nibble_groups (m_ops m) (snd (key_schedule_stream ck))) sb)"
    unfolding group_init_def by (intro wf_init assms(1) length_key_groups)
  then show ?thesis
    using mode_outputs_ref [OF _ assms(2,4)] regs_of_init [OF assms(1,4,3), of sb] by simp
qed

end

subsection \<open>The 32-bit mode\<close>

definition mode_032_int :: "(u32, u32 list) slice_mode" where
  "mode_032_int = \<lparr>m_ops = int32_ops, m_in = FFTABLEIN, m_out = FFTABLEOUT, m_rows = id,
     m_ccw = trasp64_32_88ccw, m_cw = trasp64_32_88cw\<rparr>"

lemmas mode_032_int_sel [simp] = mode_032_int_def [THEN arg_cong [where f = m_ops], simplified]
  mode_032_int_def [THEN arg_cong [where f = m_in], simplified] mode_032_int_def [THEN arg_cong [where f = m_out], simplified]
  mode_032_int_def [THEN arg_cong [where f = m_rows], simplified] mode_032_int_def [THEN arg_cong [where f = m_ccw], simplified]
  mode_032_int_def [THEN arg_cong [where f = m_cw], simplified]

interpretation p32: packed mode_032_int "\<lambda>i w. bit w i" 32 "\<lambda>p. p XOR 7" "\<lambda>tab. length tab = 64"
proof (rule packed.intro)
  show "bitslice (m_ops mode_032_int) (\<lambda>i w. bit w i) 32" using int32.bitslice_axioms by simp
  show "packed_axioms mode_032_int (\<lambda>i w. bit w i) 32 (\<lambda>p. p XOR 7) (\<lambda>tab. length tab = 64)"
    by unfold_locales
      (simp_all add: xor_7_less groups_of_packets packets_of_groups FFTABLEIN_OUT, simp add: FFTABLEIN_def)
qed

lemma packet_init:
  assumes "wf_regs regs" "g < 32" "length ck = 8"
  shows "packet_regs g (stream_cypher_group_init regs (nibble_groups int32_ops (fst (key_schedule_stream ck)))
      (nibble_groups int32_ops (snd (key_schedule_stream ck))) sb) = csa_init ck (FFTABLEOUT sb g)"
  using p32.regs_of_init [OF assms, of sb]
  by (simp add: p32.regs_of_def packet_regs_def stream_cypher_group_init_def group_init_def)

lemma packet_normal:
  assumes "wf_regs regs" "length cb = 64" "g < 32" "stream_cypher_group_normal regs cb = (regs', out)"
  shows "packet_regs g regs' = snd (csa_stream (packet_regs g regs))" "wf_regs regs'" "length out = 64"
    "FFTABLEOUT out g = fst (csa_stream (packet_regs g regs))"
proof -
  have "group_normal mode_032_int regs cb = (regs', out)"
    using assms(4) by (simp add: group_normal_def stream_cypher_group_normal_def)
  from p32.regs_of_normal [OF assms(1-3) this]
  show "packet_regs g regs' = snd (csa_stream (packet_regs g regs))" "wf_regs regs'" "length out = 64"
    "FFTABLEOUT out g = fst (csa_stream (packet_regs g regs))"
    by (simp_all add: p32.regs_of_def packet_regs_def)
qed

fun group_outputs :: "nat \<Rightarrow> u32 stream_regs \<Rightarrow> u32 list \<Rightarrow> u32 list list" where
  "group_outputs 0 regs cb = []"
| "group_outputs (Suc n) regs cb =
     (case stream_cypher_group_normal regs cb of (regs', out) \<Rightarrow> out # group_outputs n regs' out)"

lemma group_outputs_mode: "group_outputs n regs cb = mode_outputs mode_032_int n regs cb"
  by (induction n arbitrary: regs cb)
    (simp_all add: stream_cypher_group_normal_def group_normal_def split: prod.splits)

subsection \<open>Property\<close>

text \<open>C35: for every packet of a group, the bit-sliced and transposed stream cypher of FFdecsa computes
  the bytes of the reference cypher of that packet alone: loaded with the control word and the
  packet's first eight bytes, whatever else is in the group and in the uninitialised part of the
  registers, and however many outputs are taken.\<close>

theorem stream_cypher_refines:
  assumes "wf_regs regs" "length cb = 64" "length ck = 8" "g < 32"
  shows "map (\<lambda>t. FFTABLEOUT t g)
      (group_outputs n
        (stream_cypher_group_init regs (nibble_groups int32_ops (fst (key_schedule_stream ck)))
          (nibble_groups int32_ops (snd (key_schedule_stream ck))) sb) cb) =
    csa_outputs n (csa_init ck (FFTABLEOUT sb g))"
  using p32.stream_refines [OF assms]
  by (simp add: group_outputs_mode stream_cypher_group_init_def group_init_def)

theorem stream_cypher_refines_witness:
  "let z = Nib 0 0 0 0; regs = \<lparr>rA = replicate 42 z, rB = replicate 42 z, rX = z, rY = z, rZ = z, rD = z, rE = z,
       rF = z, rp = 0, rq = 0, rr = 0\<rparr>; ck = [1, 2, 3, 6, 5, 6, 7, 18] :: bytes; sb = replicate 64 0x1234
   in map (\<lambda>t. FFTABLEOUT t 9)
      (group_outputs 2
        (stream_cypher_group_init regs (nibble_groups int32_ops (fst (key_schedule_stream ck)))
          (nibble_groups int32_ops (snd (key_schedule_stream ck))) sb) (replicate 64 0)) =
    csa_outputs 2 (csa_init ck [0x34, 0x12, 0, 0, 0x34, 0x12, 0, 0])"
proof -
  let ?z = "Nib 0 0 0 0 :: u32 nib"
  let ?regs = "\<lparr>rA = replicate 42 ?z, rB = replicate 42 ?z, rX = ?z, rY = ?z, rZ = ?z, rD = ?z, rE = ?z,
       rF = ?z, rp = 0, rq = 0, rr = 0\<rparr>"
  have "FFTABLEOUT (replicate 64 0x1234) 9 = [0x34, 0x12, 0, 0, 0x34, 0x12, 0, 0]"
    by (simp add: FFTABLEOUT_def bytes32_def)
  moreover have "wf_regs ?regs" by (simp add: wf_regs_def)
  ultimately show ?thesis
    using stream_cypher_refines [of ?regs "replicate 64 0" "[1, 2, 3, 6, 5, 6, 7, 18]" 9 2 "replicate 64 0x1234"]
    by (simp only: Let_def) simp
qed

end
