(* ===== verification/Block.thy ===== *)
theory Block
  imports StreamRef
begin

text \<open>
  The block decypher of FFdecsa.c for a group of 32 packets (\<open>block_decypher_group\<close>, \<open>trasp_N_8\<close>,
  \<open>trasp_8_N\<close>), in the 32-bit mode where a batch is one unsigned int of four bytes, and its reference:
  the 56 rounds on the eight bytes of one packet.

  The memory \<open>r\<close> of \<open>32 * 64\<close> bytes is a list of 64 rows of 8 ints; register \<open>j\<close> of all packets is row
  \<open>roff + j\<close>, and the registers are shifted by moving \<open>roff\<close> down one row per round.
\<close>

subsection \<open>The code\<close>

definition block_sbox :: "bytes" where
  "block_sbox = [
    0x3a, 0xea, 0x68, 0xfe, 0x33, 0xe9, 0x88, 0x1a, 0x83, 0xcf, 0xe1, 0x7f, 0xba, 0xe2, 0x38, 0x12,
    0xe8, 0x27, 0x61, 0x95, 0x0c, 0x36, 0xe5, 0x70, 0xa2, 0x06, 0x82, 0x7c, 0x17, 0xa3, 0x26, 0x49,
    0xbe, 0x7a, 0x6d, 0x47, 0xc1, 0x51, 0x8f, 0xf3, 0xcc, 0x5b, 0x67, 0xbd, 0xcd, 0x18, 0x08, 0xc9,
    0xff, 0x69, 0xef, 0x03, 0x4e, 0x48, 0x4a, 0x84, 0x3f, 0xb4, 0x10, 0x04, 0xdc, 0xf5, 0x5c, 0xc6,
    0x16, 0xab, 0xac, 0x4c, 0xf1, 0x6a, 0x2f, 0x3c, 0x3b, 0xd4, 0xd5, 0x94, 0xd0, 0xc4, 0x63, 0x62,
    0x71, 0xa1, 0xf9, 0x4f, 0x2e, 0xaa, 0xc5, 0x56, 0xe3, 0x39, 0x93, 0xce, 0x65, 0x64, 0xe4, 0x58,
    0x6c, 0x19, 0x42, 0x79, 0xdd, 0xee, 0x96, 0xf6, 0x8a, 0xec, 0x1e, 0x85, 0x53, 0x45, 0xde, 0xbb,
    0x7e, 0x0a, 0x9a, 0x13, 0x2a, 0x9d, 0xc2, 0x5e, 0x5a, 0x1f, 0x32, 0x35, 0x9c, 0xa8, 0x73, 0x30,
    0x29, 0x3d, 0xe7, 0x92, 0x87, 0x1b, 0x2b, 0x4b, 0xa5, 0x57, 0x97, 0x40, 0x15, 0xe6, 0xbc, 0x0e,
    0xeb, 0xc3, 0x34, 0x2d, 0xb8, 0x44, 0x25, 0xa4, 0x1c, 0xc7, 0x23, 0xed, 0x90, 0x6e, 0x50, 0x00,
    0x99, 0x9e, 0x4d, 0xd9, 0xda, 0x8d, 0x6f, 0x5f, 0x3e, 0xd7, 0x21, 0x74, 0x86, 0xdf, 0x6b, 0x05,
    0x8e, 0x5d, 0x37, 0x11, 0xd2, 0x28, 0x75, 0xd6, 0xa7, 0x77, 0x24, 0xbf, 0xf0, 0xb0, 0x02, 0xb7,
    0xf8, 0xfc, 0x81, 0x09, 0xb1, 0x01, 0x76, 0x91, 0x7d, 0x0f, 0xc8, 0xa0, 0xf2, 0xcb, 0x78, 0x60,
    0xd1, 0xf7, 0xe0, 0xb5, 0x98, 0x22, 0xb3, 0x20, 0x1d, 0xa6, 0xdb, 0x7b, 0x59, 0x9f, 0xae, 0x31,
    0xfb, 0xd3, 0xb6, 0xca, 0x43, 0x72, 0x07, 0xf4, 0xd8, 0x41, 0x14, 0x55, 0x0d, 0x54, 0x8b, 0xb9,
    0xad, 0x46, 0x0b, 0xaf, 0x80, 0x52, 0x2c, 0xfa, 0x8c, 0x89, 0x66, 0xfd, 0xb2, 0xa9, 0x9b, 0xc0]"

text \<open>\<open>ri[g] = ibi[2*g]; ri[32+g] = ibi[2*g+1]\<close> for the packets in use, then two passes of swaps
  between rows that are 16 and 8 ints apart.\<close>

definition trasp_N_8 :: "u32 list \<Rightarrow> u32 list \<Rightarrow> nat \<Rightarrow> u32 list" where
  "trasp_N_8 ri ibi count =
     (let ri = fold (\<lambda>g ri. ri[g := ibi ! (2 * g), GROUP_PARALLELISM + g := ibi ! (2 * g + 1)]) [0..<count] ri
      in trasp_pass 8 swap8 (trasp_pass 16 swap16 ri))"

definition trasp_8_N :: "u32 list \<Rightarrow> u32 list \<Rightarrow> nat \<Rightarrow> u32 list" where
  "trasp_8_N ri bdi count =
     (let ri = trasp_pass 16 swap16 (trasp_pass 8 swap8 ri)
      in fold (\<lambda>g bdi. bdi[2 * g := ri ! g, 2 * g + 1 := ri ! (GROUP_PARALLELISM + g)]) [0..<count] bdi)"

text \<open>The table lookup on each byte of a batch, and the bit permutation of all its bytes at once.\<close>

definition sbox_batch :: "u32 \<Rightarrow> u32" where
  "sbox_batch w = le32 (map (\<lambda>b. block_sbox ! unat b) (bytes32 w))"

definition perm_batch :: "u32 \<Rightarrow> u32" where
  "perm_batch w =
     (((((push_bit 1 (w AND 0x29292929) OR
          push_bit 6 (w AND 0x02020202)) OR
          push_bit 3 (w AND 0x04040404)) OR
          drop_bit 2 (w AND 0x10101010)) OR
          drop_bit 6 (w AND 0x40404040)) OR
          drop_bit 4 (w AND 0x80808080))"

definition xor_row :: "u32 list \<Rightarrow> u32 list \<Rightarrow> u32 list" where
  "xor_row a b = map2 (XOR) a b"

text \<open>One round with key batch \<open>k\<close>.\<close>

definition block_round :: "u32 \<Rightarrow> nat \<times> u32 list list \<Rightarrow> nat \<times> u32 list list" where
  "block_round k = (\<lambda>(roff, r).
     (let sbox_in = map (\<lambda>w. k XOR w) (r ! (roff + 6));
          sbox_out = map sbox_batch sbox_in;
          perm_out = map perm_batch sbox_out;
          roff = roff - 1;
          r = r[roff := xor_row (r ! (roff + 8)) sbox_out];
          r = r[roff + 6 := xor_row (r ! (roff + 6)) perm_out];
          r = r[roff + 4 := xor_row (r ! (roff + 4)) (r ! roff)];
          r = r[roff + 3 := xor_row (r ! (roff + 3)) (r ! roff)];
          r = r[roff + 2 := xor_row (r ! (roff + 2)) (r ! roff)]
      in (roff, r)))"

text \<open>\<open>r\<close> is uninitialised before, and the entries of \<open>ib\<close> and \<open>bd\<close> from \<open>count\<close> on are not used.\<close>

definition block_decypher_group :: "u32 list \<Rightarrow> u32 list \<Rightarrow> u32 list \<Rightarrow> nat \<Rightarrow> u32 list list \<Rightarrow> u32 list" where
  "block_decypher_group kkmulti ib bd count r =
     (let win = trasp_N_8 (concat (drop 56 r)) ib count;
          r = take 56 r @ map (\<lambda>j. take 8 (drop (8 * j) win)) [0..<8];
          (roff, r) = fold (\<lambda>i. block_round (kkmulti ! i)) (rev [0..<56]) (56, r)
      in trasp_8_N (concat (take 8 (drop roff r))) bd count)"

subsection \<open>The reference\<close>

definition block_perm_byte :: "u8 \<Rightarrow> u8" where
  "block_perm_byte b = horner_sum of_bool 2 [bit b 6, bit b 0, bit b 4, bit b 7, bit b 3, bit b 2, bit b 5, bit b 1]"

definition block_step :: "u8 \<Rightarrow> bytes \<Rightarrow> bytes" where
  "block_step k R =
     (let w = block_sbox ! unat (k XOR R ! 6); n = R ! 7 XOR w
      in [n, R ! 0, R ! 1 XOR n, R ! 2 XOR n, R ! 3 XOR n, R ! 4, R ! 5 XOR block_perm_byte w, R ! 6])"

definition block_decrypt :: "bytes \<Rightarrow> bytes \<Rightarrow> bytes" where
  "block_decrypt kk B = fold block_step (rev kk) B"

text \<open>The encryption runs the rounds backwards.\<close>

definition block_unstep :: "u8 \<Rightarrow> bytes \<Rightarrow> bytes" where
  "block_unstep k N =
     (let w = block_sbox ! unat (k XOR N ! 7)
      in [N ! 1, N ! 2 XOR N ! 0, N ! 3 XOR N ! 0, N ! 4 XOR N ! 0, N ! 5, N ! 6 XOR block_perm_byte w,
          N ! 7, N ! 0 XOR w])"

definition block_encrypt :: "bytes \<Rightarrow> bytes \<Rightarrow> bytes" where
  "block_encrypt kk B = fold block_unstep kk B"

lemma eight: "length xs = 8 \<Longrightarrow> xs = [xs ! 0, xs ! 1, xs ! 2, xs ! 3, xs ! 4, xs ! 5, xs ! 6, xs ! 7]"
  by (auto simp: list_eq_iff_nth_eq less_Suc_eq numeral_eq_Suc)

lemma list8E:
  assumes "length xs = 8"
  obtains a b c d e f g h where "xs = [a, b, c, d, e, f, g, h]"
  using eight [OF assms] by blast

lemma length_block_step [simp]: "length (block_step k R) = 8" "length (block_unstep k R) = 8"
  by (simp_all add: block_step_def block_unstep_def Let_def)

lemma block_unstep_step: "length R = 8 \<Longrightarrow> block_unstep k (block_step k R) = R"
  by (elim list8E) (simp add: block_step_def block_unstep_def Let_def xor.assoc)

lemma block_step_unstep: "length N = 8 \<Longrightarrow> block_step k (block_unstep k N) = N"
  by (elim list8E) (simp add: block_step_def block_unstep_def Let_def xor.assoc)

lemma length_block_decrypt [simp]: "length B = 8 \<Longrightarrow> length (block_decrypt kk B) = 8"
  and length_block_encrypt [simp]: "length B = 8 \<Longrightarrow> length (block_encrypt kk B) = 8"
proof -
  have "length (fold block_step ks B) = 8" "length (fold block_unstep ks B) = 8" if "length B = 8" for ks B
    using that by (induction ks arbitrary: B) simp_all
  then show "length B = 8 \<Longrightarrow> length (block_decrypt kk B) = 8" "length B = 8 \<Longrightarrow> length (block_encrypt kk B) = 8"
    by (simp_all add: block_decrypt_def block_encrypt_def)
qed

lemma block_decrypt_encrypt: "length B = 8 \<Longrightarrow> block_decrypt kk (block_encrypt kk B) = B"
proof (induction kk arbitrary: B)
  case (Cons k kk)
  then show ?case
    using Cons.IH [of "block_unstep k B"] by (simp add: block_decrypt_def block_encrypt_def block_step_unstep)
qed (simp add: block_decrypt_def block_encrypt_def)


subsection \<open>Packets in the rows\<close>

text \<open>Packet \<open>g\<close> has byte \<open>g div 8\<close> of int \<open>g mod 8\<close> in every row.\<close>

definition packet_byte :: "nat \<Rightarrow> u32 list \<Rightarrow> u8" where
  "packet_byte g row = bytes32 (row ! (g mod 8)) ! (g div 8)"

definition wf_rows :: "u32 list list \<Rightarrow> bool" where
  "wf_rows r \<longleftrightarrow> length r = 64 \<and> (\<forall>row \<in> set r. length row = 8)"

definition packet_rows :: "nat \<Rightarrow> nat \<times> u32 list list \<Rightarrow> bytes" where
  "packet_rows g = (\<lambda>(roff, r). map (\<lambda>j. packet_byte g (r ! (roff + j))) [0..<8])"

lemma byte_index: "g < 32 \<Longrightarrow> g div 8 < 4 \<and> g mod 8 < 8" for g :: nat
  by auto

lemma bytes32_xor: "i < 4 \<Longrightarrow> bytes32 (a XOR b) ! i = bytes32 a ! i XOR bytes32 b ! i"
  by (rule bit_word_eqI) (simp add: bit_bytes32 bit_xor_iff)

lemma bytes32_le32: "length d = 4 \<Longrightarrow> bytes32 (le32 d) = d"
  by (rule le32_bytes)

lemma length_bytes32 [simp]: "length (bytes32 w) = 4"
  by (simp add: bytes32_def)

lemma packet_byte_xor_row:
  "g < 32 \<Longrightarrow> length a = 8 \<Longrightarrow> length b = 8 \<Longrightarrow>
     packet_byte g (xor_row a b) = packet_byte g a XOR packet_byte g b"
  using byte_index [of g] by (simp add: packet_byte_def xor_row_def bytes32_xor)

lemma packet_byte_key:
  "g < 32 \<Longrightarrow> length a = 8 \<Longrightarrow> packet_byte g (map (\<lambda>w. le32 (replicate 4 k) XOR w) a) = k XOR packet_byte g a"
  using byte_index [of g] by (simp add: packet_byte_def bytes32_xor bytes32_le32)

lemma packet_byte_sbox:
  "g < 32 \<Longrightarrow> length a = 8 \<Longrightarrow> packet_byte g (map sbox_batch a) = block_sbox ! unat (packet_byte g a)"
  using byte_index [of g] by (simp add: packet_byte_def sbox_batch_def bytes32_le32)

text \<open>A mask with the same bits in every byte.\<close>

definition byte_mask :: "'w :: len word \<Rightarrow> nat set \<Rightarrow> bool" where
  "byte_mask (m :: 'w word) S \<longleftrightarrow> (\<forall>k < LENGTH('w). bit m k \<longleftrightarrow> k mod 8 \<in> S)"

lemma less_8: "k < 8 \<longleftrightarrow> k = 0 \<or> k = 1 \<or> k = 2 \<or> k = 3 \<or> k = 4 \<or> k = 5 \<or> k = 6 \<or> k = 7" for k :: nat
  by linarith

lemma all_less_8: "(\<forall>k < 8. P k) \<longleftrightarrow> P 0 \<and> P 1 \<and> P 2 \<and> P 3 \<and> P 4 \<and> P 5 \<and> P 6 \<and> P (7 :: nat)"
  unfolding less_8 by blast

lemma byte_maskI:
  assumes "m = le32 [c, c, c, c]" "\<forall>k < 8. bit c k \<longleftrightarrow> k \<in> S"
  shows "byte_mask m S"
  unfolding byte_mask_def
proof (intro allI impI)
  fix k :: nat assume "k < LENGTH(32)"
  then have k: "k < 32" by simp
  have "bytes32 m = [c, c, c, c]" using assms(1) by (simp add: bytes32_le32)
  then have "bit m (8 * (k div 8) + k mod 8) \<longleftrightarrow> bit ([c, c, c, c] ! (k div 8)) (k mod 8)"
    using bit_bytes32 [of "k div 8" "k mod 8" m] k by simp
  moreover have "[c, c, c, c] ! (k div 8) = c" 
  proof -
    have "k div 8 = 0 \<or> k div 8 = 1 \<or> k div 8 = 2 \<or> k div 8 = 3" using k by linarith
    then show ?thesis by (elim disjE) simp_all
  qed
  ultimately show "bit m k \<longleftrightarrow> k mod 8 \<in> S" using assms(2) by simp
qed

lemma byte_masks:
  "byte_mask (0x29292929 :: u32) {0, 3, 5}" "byte_mask (0x02020202 :: u32) {1}" "byte_mask (0x04040404 :: u32) {2}"
  "byte_mask (0x10101010 :: u32) {4}" "byte_mask (0x40404040 :: u32) {6}" "byte_mask (0x80808080 :: u32) {7}"
proof -
  show "byte_mask (0x29292929 :: u32) {0, 3, 5}" by (rule byte_maskI [of _ "0x29"]) (simp_all add: le32_def all_less_8)
  show "byte_mask (0x02020202 :: u32) {1}" by (rule byte_maskI [of _ "0x02"]) (simp_all add: le32_def all_less_8)
  show "byte_mask (0x04040404 :: u32) {2}" by (rule byte_maskI [of _ "0x04"]) (simp_all add: le32_def all_less_8)
  show "byte_mask (0x10101010 :: u32) {4}" by (rule byte_maskI [of _ "0x10"]) (simp_all add: le32_def all_less_8)
  show "byte_mask (0x40404040 :: u32) {6}" by (rule byte_maskI [of _ "0x40"]) (simp_all add: le32_def all_less_8)
  show "byte_mask (0x80808080 :: u32) {7}" by (rule byte_maskI [of _ "0x80"]) (simp_all add: le32_def all_less_8)
qed

lemma byte_mask_bit: "byte_mask (m :: 'w :: len word) S \<Longrightarrow> k < LENGTH('w) \<Longrightarrow> bit m k \<longleftrightarrow> k mod 8 \<in> S"
  by (simp add: byte_mask_def)

lemma bit_push_masked:
  assumes m: "byte_mask m S" and S: "\<forall>s \<in> S. s + n < 8" and i: "8 * i + 8 \<le> LENGTH('w)" "b < 8"
  shows "bit (push_bit n (w AND m :: 'w :: len word)) (8 * i + b) \<longleftrightarrow> n \<le> b \<and> b - n \<in> S \<and> bit w (8 * i + (b - n))"
proof -
  have push: "bit (push_bit n (w AND m)) (8 * i + b) \<longleftrightarrow>
      n \<le> 8 * i + b \<and> bit w (8 * i + b - n) \<and> bit m (8 * i + b - n)"
    using i by (simp add: bit_push_bit_iff bit_and_iff del: push_bit_and)
  show ?thesis
  proof (cases "n \<le> b")
    case True
    then have e: "8 * i + b - n = 8 * i + (b - n)" by simp
    have "bit m (8 * i + (b - n)) \<longleftrightarrow> (8 * i + (b - n)) mod 8 \<in> S" using i by (intro byte_mask_bit [OF m]) simp
    moreover have "(8 * i + (b - n)) mod 8 = b - n" using i by simp
    ultimately have "bit m (8 * i + (b - n)) \<longleftrightarrow> b - n \<in> S" by simp
    then show ?thesis using True i by (simp only: push e simp_thms) auto
  next
    case False
    have "\<not> bit m (8 * i + b - n)" if n: "n \<le> 8 * i + b"
    proof
      assume "bit m (8 * i + b - n)"
      then have "(8 * i + b - n) mod 8 \<in> S" using byte_mask_bit [OF m, of "8 * i + b - n"] i by simp
      then have l: "(8 * i + b - n) mod 8 + n < 8" using S by blast
      define q where "q = 8 * i + b - n"
      have "q + n = 8 * i + b" "q = 8 * (q div 8) + q mod 8" using n by (simp_all add: q_def)
      moreover from this have "q div 8 < Suc i" "i < Suc (q div 8)"
        using l i(2) unfolding q_def [symmetric] by linarith+
      ultimately have "q mod 8 + n = b" by linarith
      then show False using False by simp
    qed
    then show ?thesis using False by (simp only: push) blast
  qed
qed

lemma bit_drop_masked:
  assumes m: "byte_mask m S" and S: "\<forall>s \<in> S. n \<le> s \<and> s < 8" and i: "8 * i + 8 \<le> LENGTH('w)" "b < 8"
  shows "bit (drop_bit n (w AND m :: 'w :: len word)) (8 * i + b) \<longleftrightarrow> b + n \<in> S \<and> bit w (8 * i + (b + n))"
proof (cases "b + n < 8")
  case True
  then have "bit m (8 * i + (b + n)) \<longleftrightarrow> b + n \<in> S"
    using byte_mask_bit [OF m, of "8 * i + (b + n)"] i by simp
  then show ?thesis by (auto simp: bit_drop_bit_eq bit_and_iff ac_simps)
next
  case False
  have "\<not> bit m (8 * i + (b + n))"
  proof
    assume b: "bit m (8 * i + (b + n))"
    define q where "q = 8 * i + (b + n)"
    have q: "q < LENGTH('w)" using b bit_imp_le_length [OF b] by (simp add: q_def)
    then have "n \<le> q mod 8" using byte_mask_bit [OF m q] b S by (simp add: q_def)
    moreover have "q = 8 * (q div 8) + q mod 8" by simp
    moreover have "q mod 8 < 8" by simp
    ultimately have "i < q div 8" "q div 8 < Suc i" using False i q_def by linarith+
    then show False by simp
  qed
  then show ?thesis using False S by (auto simp: bit_drop_bit_eq bit_and_iff ac_simps)
qed

text \<open>The permutation with these six masks, on words of any number of bytes.\<close>

definition perm_word :: "'w :: len word \<Rightarrow> 'w word \<Rightarrow> 'w word \<Rightarrow> 'w word \<Rightarrow> 'w word \<Rightarrow> 'w word \<Rightarrow> 'w word \<Rightarrow> 'w word" where
  "perm_word m29 m02 m04 m10 m40 m80 w =
     (((((push_bit 1 (w AND m29) OR push_bit 6 (w AND m02)) OR push_bit 3 (w AND m04)) OR drop_bit 2 (w AND m10)) OR
       drop_bit 6 (w AND m40)) OR drop_bit 4 (w AND m80))"

lemma perm_word_bits:
  assumes m: "byte_mask m29 {0, 3, 5}" "byte_mask m02 {1}" "byte_mask m04 {2}"
    "byte_mask m10 {4}" "byte_mask m40 {6}" "byte_mask m80 {7}"
    and i: "8 * i + 8 \<le> LENGTH('w)" "b < 8"
  shows "bit (perm_word m29 m02 m04 m10 m40 m80 w :: 'w :: len word) (8 * i + b) \<longleftrightarrow>
    bit w (8 * i + [6, 0, 4, 7, 3, 2, 5, 1] ! b)"
proof -
  have b: "b = 0 \<or> b = 1 \<or> b = 2 \<or> b = 3 \<or> b = 4 \<or> b = 5 \<or> b = 6 \<or> b = 7" using i(2) by linarith
  note p = bit_push_masked [OF m(1) _ i, of 1 w] bit_push_masked [OF m(2) _ i, of 6 w]
    bit_push_masked [OF m(3) _ i, of 3 w] bit_drop_masked [OF m(4) _ i, of 2 w]
    bit_drop_masked [OF m(5) _ i, of 6 w] bit_drop_masked [OF m(6) _ i, of 4 w]
  have "\<forall>s \<in> {0, 3, 5 :: nat}. s + 1 < 8" "\<forall>s \<in> {1 :: nat}. s + 6 < 8" "\<forall>s \<in> {2 :: nat}. s + 3 < 8"
    "\<forall>s \<in> {4 :: nat}. 2 \<le> s \<and> s < 8" "\<forall>s \<in> {6 :: nat}. 6 \<le> s \<and> s < 8" "\<forall>s \<in> {7 :: nat}. 4 \<le> s \<and> s < 8"
    by simp_all
  note q = p(1) [OF this(1)] p(2) [OF this(2)] p(3) [OF this(3)] p(4) [OF this(4)] p(5) [OF this(5)] p(6) [OF this(6)]
  have "bit (perm_word m29 m02 m04 m10 m40 m80 w) (8 * i + b) \<longleftrightarrow>
      (1 \<le> b \<and> b - 1 \<in> {0, 3, 5} \<and> bit w (8 * i + (b - 1))) \<or>
      (6 \<le> b \<and> b - 6 \<in> {1} \<and> bit w (8 * i + (b - 6))) \<or>
      (3 \<le> b \<and> b - 3 \<in> {2} \<and> bit w (8 * i + (b - 3))) \<or>
      (b + 2 \<in> {4} \<and> bit w (8 * i + (b + 2))) \<or>
      (b + 6 \<in> {6} \<and> bit w (8 * i + (b + 6))) \<or>
      (b + 4 \<in> {7} \<and> bit w (8 * i + (b + 4)))"
    unfolding perm_word_def bit_or_iff q by (simp only: disj_assoc)
  then show ?thesis using b by (elim disjE) (simp_all add: numeral_eq_Suc)
qed

lemma perm_batch_bits:
  assumes "i < 4" "b < 8"
  shows "bit (perm_batch w) (8 * i + b) \<longleftrightarrow> bit w (8 * i + [6, 0, 4, 7, 3, 2, 5, 1] ! b)"
  using perm_word_bits [OF byte_masks _ assms(2), of i w] assms(1) by (simp only: perm_batch_def perm_word_def len32)

lemma bit_block_perm_byte:
  assumes "k < 8"
  shows "bit (block_perm_byte c) k \<longleftrightarrow> bit c ([6, 0, 4, 7, 3, 2, 5, 1] ! k)"
proof -
  have "bit (block_perm_byte c) k \<longleftrightarrow>
      [bit c 6, bit c 0, bit c 4, bit c 7, bit c 3, bit c 2, bit c 5, bit c 1] ! k"
    using assms unfolding block_perm_byte_def by (simp only: bit_horner_sum_bit_word_iff) simp
  then show ?thesis using assms unfolding less_8 by (elim disjE) simp_all
qed

lemma packet_byte_perm:
  assumes "g < 32" "length a = 8"
  shows "packet_byte g (map perm_batch a) = block_perm_byte (packet_byte g a)"
proof (rule bit_word_eqI)
  fix b :: nat assume "b < LENGTH(8)"
  then have b: "b < 8" by simp
  have g: "g div 8 < 4" "g mod 8 < 8" using byte_index [OF assms(1)] by auto
  have p: "[6, 0, 4, 7, 3, 2, 5, 1] ! b < (8 :: nat)"
    using b by (elim less_8 [THEN iffD1, THEN disjE] disjE; simp)
  have "bit (packet_byte g (map perm_batch a)) b \<longleftrightarrow>
      bit (packet_byte g a) ([6, 0, 4, 7, 3, 2, 5, 1] ! b)"
    using g b p assms(2) by (simp add: packet_byte_def bit_bytes32 perm_batch_bits)
  also have "\<dots> \<longleftrightarrow> bit (block_perm_byte (packet_byte g a)) b"
    using b by (simp add: bit_block_perm_byte)
  finally show "bit (packet_byte g (map perm_batch a)) b \<longleftrightarrow> bit (block_perm_byte (packet_byte g a)) b" .
qed

subsection \<open>The rounds\<close>

lemma wf_rows_nth: "wf_rows r \<Longrightarrow> j < 64 \<Longrightarrow> length (r ! j) = 8"
  by (simp add: wf_rows_def)

lemma wf_rows_update: "wf_rows r \<Longrightarrow> length row = 8 \<Longrightarrow> wf_rows (r[j := row])"
  unfolding wf_rows_def by (auto dest: set_update_subset_insert [THEN subsetD])

lemma length_xor_row [simp]: "length (xor_row a b) = min (length a) (length b)"
  by (simp add: xor_row_def)

lemma packet_rows_unfold:
  "packet_rows g (roff, r) = [packet_byte g (r ! roff), packet_byte g (r ! (roff + 1)), packet_byte g (r ! (roff + 2)),
     packet_byte g (r ! (roff + 3)), packet_byte g (r ! (roff + 4)), packet_byte g (r ! (roff + 5)),
     packet_byte g (r ! (roff + 6)), packet_byte g (r ! (roff + 7))]"
  by (simp add: packet_rows_def upt_rec numeral_eq_Suc)

lemma block_round_step:
  assumes w: "wf_rows r" and o: "Suc n + 8 \<le> 64" and g: "g < 32"
    and b: "block_round (le32 (replicate 4 k)) (Suc n, r) = (roff', r')"
  shows "roff' = n" "wf_rows r'" "packet_rows g (n, r') = block_step k (packet_rows g (Suc n, r))"
proof -
  define si where "si = map (\<lambda>w. le32 (replicate 4 k) XOR w) (r ! (n + 7))"
  define so where "so = map sbox_batch si"
  define N where "N = xor_row (r ! (n + 8)) so"
  have a: "Suc n + 1 = n + 2" "Suc n + 2 = n + 3" "Suc n + 3 = n + 4" "Suc n + 4 = n + 5" "Suc n + 5 = n + 6"
    "Suc n + 6 = n + 7" "Suc n + 7 = n + 8" "Suc n - 1 = n" by simp_all
  have l: "length (r ! j) = 8" if "j < n + 9" for j using wf_rows_nth [OF w, of j] o that by simp
  have len: "length r = 64" using w by (simp add: wf_rows_def)
  have si: "length si = 8" and so: "length so = 8" and N: "length N = 8" using l by (simp_all add: si_def so_def N_def)
  have "block_round (le32 (replicate 4 k)) (Suc n, r) = (n, r[n := N, n + 6 := xor_row (r ! (n + 6)) (map perm_batch so),
         n + 4 := xor_row (r ! (n + 4)) N, n + 3 := xor_row (r ! (n + 3)) N, n + 2 := xor_row (r ! (n + 2)) N])"
    using o len unfolding block_round_def Let_def split_conv a si_def [symmetric] so_def [symmetric] N_def [symmetric]
    by simp
  then have e: "roff' = n" "r' = r[n := N, n + 6 := xor_row (r ! (n + 6)) (map perm_batch so),
         n + 4 := xor_row (r ! (n + 4)) N, n + 3 := xor_row (r ! (n + 3)) N, n + 2 := xor_row (r ! (n + 2)) N]"
    using b by simp_all
  show "roff' = n" by (fact e(1))
  show "wf_rows r'" unfolding e(2) using l so N by (intro wf_rows_update w) simp_all
  have s: "packet_byte g so = block_sbox ! unat (k XOR packet_byte g (r ! (n + 7)))"
    using l [of "n + 7"] unfolding so_def packet_byte_sbox [OF g si] unfolding si_def by (simp add: packet_byte_key g)
  have p: "packet_byte g (map perm_batch so) = block_perm_byte (packet_byte g so)"
    by (rule packet_byte_perm [OF g so])
  have x: "packet_byte g (xor_row (r ! j) c) = packet_byte g (r ! j) XOR packet_byte g c"
    if "j < n + 9" "length c = 8" for j c
    by (rule packet_byte_xor_row [OF g l [OF that(1)] that(2)])
  have Nb: "packet_byte g N = packet_byte g (r ! (n + 8)) XOR packet_byte g so"
    unfolding N_def by (rule x [OF _ so]) simp
  have "packet_rows g (n, r') = [packet_byte g N, packet_byte g (r ! (n + 1)), packet_byte g (r ! (n + 2)) XOR packet_byte g N,
      packet_byte g (r ! (n + 3)) XOR packet_byte g N, packet_byte g (r ! (n + 4)) XOR packet_byte g N,
      packet_byte g (r ! (n + 5)), packet_byte g (r ! (n + 6)) XOR packet_byte g (map perm_batch so), packet_byte g (r ! (n + 7))]"
    unfolding packet_rows_unfold e(2) using o len so N by (simp add: x)
  then show "packet_rows g (n, r') = block_step k (packet_rows g (Suc n, r))"
    unfolding packet_rows_unfold a block_step_def Nb s p by (simp add: Let_def)
qed

lemma block_rounds:
  assumes "wf_rows r" "length ks \<le> n" "n + 8 \<le> 64" "g < 32"
    "fold (\<lambda>k. block_round (le32 (replicate 4 k))) ks (n, r) = (roff', r')"
  shows "roff' = n - length ks \<and> wf_rows r' \<and> packet_rows g (roff', r') = fold block_step ks (packet_rows g (n, r))"
  using assms
proof (induction ks arbitrary: n r)
  case (Cons k ks)
  obtain n' where n: "n = Suc n'" using Cons.prems(2) by (cases n) auto
  obtain o1 r1 where r1: "block_round (le32 (replicate 4 k)) (Suc n', r) = (o1, r1)" by fastforce
  note s = block_round_step [OF Cons.prems(1) _ Cons.prems(4) r1]
  have "o1 = n'" "wf_rows r1" "packet_rows g (n', r1) = block_step k (packet_rows g (n, r))"
    using s Cons.prems(3) by (simp_all add: n)
  moreover have "fold (\<lambda>k. block_round (le32 (replicate 4 k))) ks (n', r1) = (roff', r')"
    using Cons.prems(5) r1 \<open>o1 = n'\<close> by (simp add: n)
  moreover have "length ks \<le> n'" "n' + 8 \<le> 64" using Cons.prems by (simp_all add: n)
  ultimately have "roff' = n' - length ks \<and> wf_rows r' \<and>
      packet_rows g (roff', r') = fold block_step ks (block_step k (packet_rows g (n, r)))"
    using Cons.IH [of r1 n'] Cons.prems(4) by (simp only:)
  then show ?case by (auto simp: n)
qed simp

subsection \<open>The transposition to rows and back\<close>

lemma bit_split: "m < 2 ^ n \<Longrightarrow> bit (2 ^ n * j + m :: nat) i \<longleftrightarrow> (if i < n then bit m i else bit j (i - n))"
proof -
  assume m: "m < 2 ^ n"
  have "\<not> bit (push_bit n j) k \<or> \<not> bit m k" for k
    using bit_less_pow [OF m, of k] by (auto simp: bit_push_bit_iff)
  then have "push_bit n j + m = push_bit n j OR m" by (intro disjunctive_add) auto
  moreover have "push_bit n j = 2 ^ n * j" by (simp add: push_bit_eq_mult mult.commute)
  ultimately have "2 ^ n * j + m = push_bit n j OR m" by (simp only:)
  then have "bit (2 ^ n * j + m) i \<longleftrightarrow> n \<le> i \<and> bit j (i - n) \<or> bit m i"
    by (simp only: bit_or_iff bit_push_bit_iff) auto
  then show ?thesis using bit_less_pow [OF m, of i] by auto
qed

text \<open>A position in the table as \<open>c\<close> (1 bit), \<open>d\<close> (2 bits), \<open>m\<close> (3 bits) and a position in a row as \<open>q\<close> (2 bits),
  \<open>b\<close> (3 bits): the passes exchange \<open>d\<close> and \<open>q\<close>.\<close>

lemma put_bits_row:
  assumes "d < 4" "m < 8" "q < 4" "b < 8" "\<And>i. i < 2 \<Longrightarrow> bit k (3 + i) \<longleftrightarrow> bit q i"
  shows "put_bit 4 (bit k 4) (put_bit 3 (bit k 3) (8 * (4 * c + d) + m)) = 8 * (4 * c + q) + m"
proof (rule bit_eqI)
  fix i :: nat
  note s = bit_split [of _ 3, simplified] bit_split [of _ 2, simplified]
  have i: "i < 3 \<or> i = 3 \<or> i = 4 \<or> 4 < i" by linarith
  show "bit (put_bit 4 (bit k 4) (put_bit 3 (bit k 3) (8 * (4 * c + d) + m))) i = bit (8 * (4 * c + q) + m) i"
    using i assms(5) [of 0] assms(5) [of 1] by (elim disjE) (simp_all add: s assms(1-4) del: distrib_left_numeral, linarith)
qed

lemma swap_passes_position:
  assumes "c < 2" "d < 4" "m < 8" "q < 4" "b < 8"
  shows "bit (trasp_pass 8 swap8 (trasp_pass 16 swap16 row) ! (8 * (4 * c + d) + m)) (8 * q + b) \<longleftrightarrow>
      bit (row ! (8 * (4 * c + q) + m)) (8 * d + b)"
    and "bit (trasp_pass 16 swap16 (trasp_pass 8 swap8 row) ! (8 * (4 * c + d) + m)) (8 * q + b) \<longleftrightarrow>
      bit (row ! (8 * (4 * c + q) + m)) (8 * d + b)"
proof -
  let ?r = "8 * (4 * c + d) + m" and ?k = "8 * q + b"
  have "c \<le> 1" "d \<le> 3" "m \<le> 7" "q \<le> 3" "b \<le> 7" using assms by simp_all
  then have l: "?r < 64" "?k < 32" by simp_all
  have p: "(2::nat) ^ 4 = 16" "(2::nat) ^ 3 = 8" by simp_all
  note s = bit_split [of _ 3, simplified] bit_split [of _ 2, simplified]
  have rk: "bit ?r (3 + i) \<longleftrightarrow> bit d i" "bit ?k (3 + i) \<longleftrightarrow> bit q i" if "i < 2" for i
    using that assms by (simp_all add: s del: distrib_left_numeral)
  have r: "put_bit 4 (bit ?k 4) (put_bit 3 (bit ?k 3) ?r) = 8 * (4 * c + q) + m"
    by (rule put_bits_row [OF assms(2-5)]) (use rk in blast)
  have "put_bit 4 (bit ?r 4) (put_bit 3 (bit ?r 3) (8 * (4 * 0 + q) + b)) = 8 * (4 * 0 + d) + b"
    by (rule put_bits_row [OF assms(4,5,2,3)]) (use rk in blast)
  then have k: "put_bit 4 (bit ?r 4) (put_bit 3 (bit ?r 3) ?k) = 8 * d + b" by simp
  have c: "put_bit 3 y (put_bit 4 x z) = put_bit 4 x (put_bit 3 y z)" for x y z
    by (rule bit_eqI) simp
  note ps = bit_passes(1,2) [unfolded p]
  show "bit (trasp_pass 8 swap8 (trasp_pass 16 swap16 row) ! ?r) ?k \<longleftrightarrow>
      bit (row ! (8 * (4 * c + q) + m)) (8 * d + b)"
    using r k by (simp add: ps row_pos_less l c del: distrib_left_numeral)
  show "bit (trasp_pass 16 swap16 (trasp_pass 8 swap8 row) ! ?r) ?k \<longleftrightarrow>
      bit (row ! (8 * (4 * c + q) + m)) (8 * d + b)"
    using r k by (simp add: ps row_pos_less l c del: distrib_left_numeral)
qed

lemma byte_of_passes:
  assumes "g < 32" "j < 8"
  shows "bytes32 (trasp_pass 8 swap8 (trasp_pass 16 swap16 row) ! (8 * j + g mod 8)) ! (g div 8) =
      bytes32 (row ! (32 * (j div 4) + g)) ! (j mod 4)"
    and "bytes32 (trasp_pass 16 swap16 (trasp_pass 8 swap8 row) ! (32 * (j div 4) + g)) ! (j mod 4) =
      bytes32 (row ! (8 * j + g mod 8)) ! (g div 8)"
proof -
  have c: "j div 4 < 2" "j mod 4 < 4" "g mod 8 < 8" "g div 8 < 4" using assms by auto
  have e: "8 * j + g mod 8 = 8 * (4 * (j div 4) + j mod 4) + g mod 8"
    "32 * (j div 4) + g = 8 * (4 * (j div 4) + g div 8) + g mod 8"
    by simp_all
  show "bytes32 (trasp_pass 8 swap8 (trasp_pass 16 swap16 row) ! (8 * j + g mod 8)) ! (g div 8) =
      bytes32 (row ! (32 * (j div 4) + g)) ! (j mod 4)"
    unfolding e
  proof (rule bit_word_eqI)
    fix b assume "b < LENGTH(8)"
    then have b: "b < 8" by simp
    show "bit (bytes32 (trasp_pass 8 swap8 (trasp_pass 16 swap16 row) ! (8 * (4 * (j div 4) + j mod 4) + g mod 8)) ! (g div 8)) b =
        bit (bytes32 (row ! (8 * (4 * (j div 4) + g div 8) + g mod 8)) ! (j mod 4)) b"
      by (simp only: bit_bytes32 [OF c(4) b] bit_bytes32 [OF c(2) b] swap_passes_position(1) [OF c b])
  qed
  show "bytes32 (trasp_pass 16 swap16 (trasp_pass 8 swap8 row) ! (32 * (j div 4) + g)) ! (j mod 4) =
      bytes32 (row ! (8 * j + g mod 8)) ! (g div 8)"
    unfolding e
  proof (rule bit_word_eqI)
    fix b assume "b < LENGTH(8)"
    then have b: "b < 8" by simp
    show "bit (bytes32 (trasp_pass 16 swap16 (trasp_pass 8 swap8 row) ! (8 * (4 * (j div 4) + g div 8) + g mod 8)) ! (j mod 4)) b =
        bit (bytes32 (row ! (8 * (4 * (j div 4) + j mod 4) + g mod 8)) ! (g div 8)) b"
      by (simp only: bit_bytes32 [OF c(4) b] bit_bytes32 [OF c(2) b] swap_passes_position(2) [OF c(1,4,3,2) b])
  qed
qed

text \<open>Packet \<open>g\<close> of a buffer of 32 packets of eight bytes.\<close>

definition packet8 :: "u32 list \<Rightarrow> nat \<Rightarrow> bytes" where
  "packet8 ib g = bytes32 (ib ! (2 * g)) @ bytes32 (ib ! (2 * g + 1))"

lemma length_packet8 [simp]: "length (packet8 ib g) = 8"
  by (simp add: packet8_def)

lemma fold_two_updates:
  assumes "inj_on f {..<n}" "inj_on h {..<n}" "\<And>a b. a < n \<Longrightarrow> b < n \<Longrightarrow> f a \<noteq> h b"
    and "\<And>a. a < n \<Longrightarrow> f a < length xs \<and> h a < length xs"
    and ys: "ys = fold (\<lambda>g xs. xs[f g := u g, h g := v g]) [0..<n] xs"
  shows "length ys = length xs" "a < n \<Longrightarrow> ys ! f a = u a" "a < n \<Longrightarrow> ys ! h a = v a"
    "(\<And>a. a < n \<Longrightarrow> k \<noteq> f a \<and> k \<noteq> h a) \<Longrightarrow> ys ! k = xs ! k"
proof -
  have "length (fold (\<lambda>g xs. xs[f g := u g, h g := v g]) [0..<m] xs) = length xs \<and>
      (\<forall>a < m. fold (\<lambda>g xs. xs[f g := u g, h g := v g]) [0..<m] xs ! f a = u a \<and>
        fold (\<lambda>g xs. xs[f g := u g, h g := v g]) [0..<m] xs ! h a = v a) \<and>
      (\<forall>k. (\<forall>a < m. k \<noteq> f a \<and> k \<noteq> h a) \<longrightarrow>
        fold (\<lambda>g xs. xs[f g := u g, h g := v g]) [0..<m] xs ! k = xs ! k)" if "m \<le> n" for m
    using that
  proof (induction m)
    case (Suc m)
    have d: "f a \<noteq> f m" "h a \<noteq> h m" "f a \<noteq> h m" "h a \<noteq> f m" if "a < m" for a
      using assms(1,2) assms(3) [of a m] assms(3) [of m a] that Suc.prems by (auto dest: inj_onD)
    show ?case
      using Suc assms(3) [of m m] assms(4) [of m] d d [THEN not_sym] by (auto simp: less_Suc_eq nth_list_update)
  qed simp
  from this [of n] show "length ys = length xs" "a < n \<Longrightarrow> ys ! f a = u a" "a < n \<Longrightarrow> ys ! h a = v a"
    "(\<And>a. a < n \<Longrightarrow> k \<noteq> f a \<and> k \<noteq> h a) \<Longrightarrow> ys ! k = xs ! k"
    unfolding ys by auto
qed

lemma packet_of_window:
  assumes "length ri = 64" "g < count" "count \<le> 32"
  shows "map (\<lambda>j. packet_byte g (take 8 (drop (8 * j) (trasp_N_8 ri ib count)))) [0..<8] = packet8 ib g"
proof (rule nth_equalityI)
  define rc where "rc = fold (\<lambda>g ri. ri[g := ib ! (2 * g), GROUP_PARALLELISM + g := ib ! (2 * g + 1)]) [0..<count] ri"
  have w: "trasp_N_8 ri ib count = trasp_pass 8 swap8 (trasp_pass 16 swap16 rc)"
    by (simp add: trasp_N_8_def rc_def)
  have rc: "rc ! g = ib ! (2 * g)" "rc ! (32 + g) = ib ! (2 * g + 1)"
    using fold_two_updates(2,3) [of "\<lambda>g. g" count "\<lambda>g. 32 + g" ri rc "\<lambda>g. ib ! (2 * g)" "\<lambda>g. ib ! (2 * g + 1)" g] assms
    by (auto simp: rc_def)
  fix j assume "j < length (map (\<lambda>j. packet_byte g (take 8 (drop (8 * j) (trasp_N_8 ri ib count)))) [0..<8])"
  then have j: "j < 8" by simp
  have "packet_byte g (take 8 (drop (8 * j) (trasp_N_8 ri ib count))) =
      bytes32 (trasp_N_8 ri ib count ! (8 * j + g mod 8)) ! (g div 8)"
    using j by (simp add: packet_byte_def w)
  also have "\<dots> = bytes32 (rc ! (32 * (j div 4) + g)) ! (j mod 4)"
    unfolding w using assms j by (intro byte_of_passes) auto
  also have "\<dots> = packet8 ib g ! j"
  proof (cases "j < 4")
    case True
    then show ?thesis using rc by (simp add: packet8_def nth_append)
  next
    case False
    then have "j div 4 = 1" "j mod 4 = j - 4" using j by (auto simp: le_mod_geq)
    then show ?thesis using rc False by (simp add: packet8_def nth_append)
  qed
  finally show "map (\<lambda>j. packet_byte g (take 8 (drop (8 * j) (trasp_N_8 ri ib count)))) [0..<8] ! j = packet8 ib g ! j"
    using j by simp
qed simp

lemma packet_of_output:
  assumes "length win = 64" "length bd = 64" "count \<le> 32" "g < 32"
  shows "packet8 (trasp_8_N win bd count) g =
    (if g < count then map (\<lambda>j. packet_byte g (take 8 (drop (8 * j) win))) [0..<8] else packet8 bd g)"
    and "length (trasp_8_N win bd count) = 64"
proof -
  define ri where "ri = trasp_pass 16 swap16 (trasp_pass 8 swap8 win)"
  define out where "out = fold (\<lambda>g bdi. bdi[2 * g := ri ! g, 2 * g + 1 := ri ! (GROUP_PARALLELISM + g)]) [0..<count] bd"
  have o: "trasp_8_N win bd count = out" by (simp add: trasp_8_N_def ri_def out_def Let_def)
  have odd: "2 * a \<noteq> 2 * b + 1" for a b :: nat by presburger
  note upd = fold_two_updates [of "\<lambda>g. 2 * g" count "\<lambda>g. 2 * g + 1" bd out "\<lambda>g. ri ! g" "\<lambda>g. ri ! (32 + g)"]
  have "length out = length bd \<and> (g < count \<longrightarrow> out ! (2 * g) = ri ! g \<and> out ! (2 * g + 1) = ri ! (32 + g)) \<and>
      (\<not> g < count \<longrightarrow> out ! (2 * g) = bd ! (2 * g) \<and> out ! (2 * g + 1) = bd ! (2 * g + 1))"
    using upd(1) upd(2) [of g] upd(3) [of g] upd(4) [of "2 * g"] upd(4) [of "2 * g + 1"] assms(2,3) odd
    by (auto simp: out_def inj_on_def)
  then have l: "length out = 64" and u: "g < count \<Longrightarrow> out ! (2 * g) = ri ! g \<and> out ! (2 * g + 1) = ri ! (32 + g)"
    and n: "\<not> g < count \<Longrightarrow> packet8 out g = packet8 bd g"
    using assms(2) by (auto simp: packet8_def)
  show "length (trasp_8_N win bd count) = 64" using l o by simp
  have "packet8 out g = map (\<lambda>j. packet_byte g (take 8 (drop (8 * j) win))) [0..<8]" if c: "g < count"
  proof (rule nth_equalityI)
    fix j assume "j < length (packet8 out g)"
    then have j: "j < 8" by simp
    have "packet8 out g ! j = bytes32 (ri ! (32 * (j div 4) + g)) ! (j mod 4)"
    proof (cases "j < 4")
      case True
      then show ?thesis using u [OF c] by (simp add: packet8_def nth_append)
    next
      case False
      then have "j div 4 = 1" "j mod 4 = j - 4" using j by (auto simp: le_mod_geq)
      then show ?thesis using u [OF c] False by (simp add: packet8_def nth_append)
    qed
    also have "\<dots> = bytes32 (win ! (8 * j + g mod 8)) ! (g div 8)"
      unfolding ri_def by (rule byte_of_passes(2) [OF assms(4) j])
    finally show "packet8 out g ! j = map (\<lambda>j. packet_byte g (take 8 (drop (8 * j) win))) [0..<8] ! j"
      using j assms(1) by (simp add: packet_byte_def)
  qed simp
  then show "packet8 (trasp_8_N win bd count) g =
    (if g < count then map (\<lambda>j. packet_byte g (take 8 (drop (8 * j) win))) [0..<8] else packet8 bd g)"
    using n o by simp
qed

lemma length_concat_rows: "\<forall>row \<in> set r. length row = 8 \<Longrightarrow> length (concat r) = 8 * length r"
  by (induction r) auto

lemma rows_of_concat: "\<forall>row \<in> set r. length row = 8 \<Longrightarrow> j < length r \<Longrightarrow> take 8 (drop (8 * j) (concat r)) = r ! j"
proof (induction r arbitrary: j)
  case (Cons row r)
  then show ?case by (cases j) auto
qed simp

lemma block_group_ref:
  assumes "wf_rows r" "length kk = 56" "length bd = 64" "count \<le> 32" "g < 32"
  shows "packet8 (block_decypher_group (map (\<lambda>k. le32 (replicate 4 k)) kk) ib bd count r) g =
      (if g < count then block_decrypt kk (packet8 ib g) else packet8 bd g)"
    and "length (block_decypher_group (map (\<lambda>k. le32 (replicate 4 k)) kk) ib bd count r) = 64"
proof -
  define kkm where "kkm = map (\<lambda>k. le32 (replicate 4 k)) kk"
  define win where "win = trasp_N_8 (concat (drop 56 r)) ib count"
  define r1 where "r1 = take 56 r @ map (\<lambda>j. take 8 (drop (8 * j) win)) [0..<8]"
  have lw: "length win = 64" by (simp add: win_def trasp_N_8_def Let_def)
  have wr: "length r = 64" "\<forall>row \<in> set r. length row = 8" using assms(1) by (auto simp: wf_rows_def)
  have lc: "length (concat (drop 56 r)) = 64"
    using length_concat_rows [of "drop 56 r"] wr by (simp add: set_drop_subset [THEN subsetD])
  have w1: "wf_rows r1"
    using wr lw by (auto simp: wf_rows_def r1_def dest: in_set_takeD)
  have f: "fold (\<lambda>i. block_round (kkm ! i)) (rev [0..<56]) st = fold (\<lambda>k. block_round (le32 (replicate 4 k))) (rev kk) st" for st
  proof -
    have "length kkm = 56" using assms(2) by (simp add: kkm_def)
    then have "map (\<lambda>i. kkm ! i) [0..<56] = kkm" using map_nth [of kkm] by simp
    then have "rev kkm = map (\<lambda>i. kkm ! i) (rev [0..<56])" by (simp only: rev_map [symmetric])
    then have "fold (\<lambda>i. block_round (kkm ! i)) (rev [0..<56]) st = fold block_round (rev kkm) st"
      by (simp add: fold_map comp_def)
    then show ?thesis by (simp add: kkm_def rev_map fold_map comp_def)
  qed
  obtain roff' r' where r': "fold (\<lambda>k. block_round (le32 (replicate 4 k))) (rev kk) (56, r1) = (roff', r')" by fastforce
  have b: "roff' = 0" "wf_rows r'" "packet_rows g (roff', r') = block_decrypt kk (packet_rows g (56, r1))"
    using block_rounds [OF w1 _ _ assms(5) r'] assms(2) by (auto simp: block_decrypt_def)
  have out: "block_decypher_group kkm ib bd count r = trasp_8_N (concat (take 8 r')) bd count"
    using r' b(1) by (simp add: block_decypher_group_def Let_def win_def [symmetric] r1_def [symmetric] f)
  have wr': "length r' = 64" "\<forall>row \<in> set r'. length row = 8" using b(2) by (auto simp: wf_rows_def)
  have t8: "\<forall>row \<in> set (take 8 r'). length row = 8" using wr' by (auto dest: in_set_takeD)
  have lo: "length (concat (take 8 r')) = 64" using length_concat_rows [OF t8] wr' by simp
  note po = packet_of_output [OF lo assms(3,4,5)]
  have "map (\<lambda>j. packet_byte g (take 8 (drop (8 * j) (concat (take 8 r'))))) [0..<8] = packet_rows g (0, r')"
    using rows_of_concat [OF t8] wr' by (simp add: packet_rows_def)
  moreover have "packet_rows g (56, r1) = packet8 ib g" if "g < count"
  proof -
    have "packet_rows g (56, r1) = map (\<lambda>j. packet_byte g (take 8 (drop (8 * j) win))) [0..<8]"
      unfolding packet_rows_def split_conv by (rule map_cong [OF refl]) (use wr in \<open>simp add: r1_def nth_append\<close>)
    then show ?thesis using packet_of_window [OF lc that assms(4), of ib] by (simp add: win_def)
  qed
  ultimately show "packet8 (block_decypher_group (map (\<lambda>k. le32 (replicate 4 k)) kk) ib bd count r) g =
      (if g < count then block_decrypt kk (packet8 ib g) else packet8 bd g)"
    "length (block_decypher_group (map (\<lambda>k. le32 (replicate 4 k)) kk) ib bd count r) = 64"
    unfolding kkm_def [symmetric] out using po b(1,3) by auto
qed

subsection \<open>Property\<close>

text \<open>C38: the batched, row-shifted block decypher of a group is the reference cypher on every packet in
  use, whatever else is in the group, in the row memory and in the output; the output packets that are
  not in use stay as they are. Its reference is invertible, so it is the decryption of a block cypher.\<close>

theorem block_decypher_refines:
  assumes "wf_rows r" "length kk = 56" "length bd = 64" "count \<le> 32" "g < 32"
  shows "packet8 (block_decypher_group (map (\<lambda>k. le32 (replicate 4 k)) kk) ib bd count r) g =
      (if g < count then block_decrypt kk (packet8 ib g) else packet8 bd g) \<and>
    (\<forall>B. length B = 8 \<longrightarrow> block_decrypt kk (block_encrypt kk B) = B)"
  using block_group_ref [OF assms] block_decrypt_encrypt by blast

theorem block_decypher_refines_witness:
  "let kk = map of_nat [0..<56]; r = replicate 64 (replicate 8 0xdead)
   in packet8 (block_decypher_group (map (\<lambda>k. le32 (replicate 4 k)) kk) (replicate 64 7) (replicate 64 9) 2 r) 1 =
        block_decrypt kk [7, 0, 0, 0, 7, 0, 0, 0] \<and>
      packet8 (block_decypher_group (map (\<lambda>k. le32 (replicate 4 k)) kk) (replicate 64 7) (replicate 64 9) 2 r) 31 =
        [9, 0, 0, 0, 9, 0, 0, 0]"
proof -
  have p: "packet8 (replicate 64 7) 1 = [7, 0, 0, 0, 7, 0, 0, 0]" "packet8 (replicate 64 9) 31 = [9, 0, 0, 0, 9, 0, 0, 0]"
    by (simp_all add: packet8_def bytes32_def)
  have w: "wf_rows (replicate 64 (replicate 8 0xdead))" by (simp add: wf_rows_def)
  have l: "length (map of_nat [0..<56]) = 56" by simp
  show ?thesis
    unfolding Let_def
    using block_decypher_refines [OF w l, of "replicate 64 9" 2 1 "replicate 64 7"]
      block_decypher_refines [OF w l, of "replicate 64 9" 2 31 "replicate 64 7"] p
    by (simp del: map_map replicate.simps)
qed

end
