(* ===== verification/StdMap.thy ===== *)
theory StdMap
  imports Prelude "HOL-Library.Product_Lexorder"
begin

text \<open>
  \<open>std::map\<close> as the plugin uses it: a key-sorted association list, because \<open>GetECM\<close>,
  \<open>Init_Parity\<close> and \<open>StopDecrypt\<close> iterate over such maps and stop at the first hit, so the
  order of the entries is observable. \<open>sm_put\<close> is the assignment \<open>m[k] = v\<close>, \<open>sm_erase\<close> is
  \<open>m.erase(k)\<close>, \<open>sm_find\<close> is \<open>m.find(k)\<close>.

  The locale \<open>keyed_store\<close> is the interface the clients rely on (what a lookup returns after an
  assignment or an erase, and the invariant both keep); the sorted association list is its provider.
\<close>

type_synonym ('k, 'v) std_map = "('k \<times> 'v) list"

fun sm_find :: "('k, 'v) std_map \<Rightarrow> 'k \<Rightarrow> 'v option" where
  "sm_find [] k = None"
| "sm_find ((k', v) # m) k = (if k' = k then Some v else sm_find m k)"

fun sm_put :: "('k::linorder) \<Rightarrow> 'v \<Rightarrow> ('k, 'v) std_map \<Rightarrow> ('k, 'v) std_map" where
  "sm_put k v [] = [(k, v)]"
| "sm_put k v ((k', v') # m) =
     (if k < k' then (k, v) # (k', v') # m
      else if k = k' then (k, v) # m
      else (k', v') # sm_put k v m)"

fun sm_erase :: "'k \<Rightarrow> ('k, 'v) std_map \<Rightarrow> ('k, 'v) std_map" where
  "sm_erase k [] = []"
| "sm_erase k ((k', v') # m) = (if k' = k then m else (k', v') # sm_erase k m)"

definition sm_ok :: "('k::linorder, 'v) std_map \<Rightarrow> bool" where
  "sm_ok m = sorted_wrt (<) (List.map fst m)"

subsection \<open>The interface\<close>

locale keyed_store =
  fixes lookup :: "'m \<Rightarrow> 'k \<Rightarrow> 'v option"
    and put :: "'k \<Rightarrow> 'v \<Rightarrow> 'm \<Rightarrow> 'm"
    and erase :: "'k \<Rightarrow> 'm \<Rightarrow> 'm"
    and ok :: "'m \<Rightarrow> bool"
  assumes lookup_put: "ok m \<Longrightarrow> lookup (put k v m) = (lookup m)(k := Some v)"
    and lookup_erase: "ok m \<Longrightarrow> lookup (erase k m) = (lookup m)(k := None)"
    and ok_put: "ok m \<Longrightarrow> ok (put k v m)"
    and ok_erase: "ok m \<Longrightarrow> ok (erase k m)"
begin

lemma put_same: "ok m \<Longrightarrow> lookup (put k v m) k = Some v"
  by (simp add: lookup_put)

lemma put_other: "ok m \<Longrightarrow> k' \<noteq> k \<Longrightarrow> lookup (put k v m) k' = lookup m k'"
  by (simp add: lookup_put)

lemma erase_same: "ok m \<Longrightarrow> lookup (erase k m) k = None"
  by (simp add: lookup_erase)

lemma erase_other: "ok m \<Longrightarrow> k' \<noteq> k \<Longrightarrow> lookup (erase k m) k' = lookup m k'"
  by (simp add: lookup_erase)

lemma erase_put: "ok m \<Longrightarrow> lookup (erase k (put k v m)) = (lookup m)(k := None)"
  by (simp add: lookup_put lookup_erase ok_put)

lemma put_put_commute:
  "ok m \<Longrightarrow> k \<noteq> k' \<Longrightarrow> lookup (put k v (put k' v' m)) = lookup (put k' v' (put k v m))"
  by (simp add: lookup_put ok_put fun_upd_twist)

end

subsection \<open>The sorted association list provides it\<close>

lemma sm_ok_Nil [simp]: "sm_ok []"
  by (simp add: sm_ok_def)

lemma sm_ok_Cons: "sm_ok ((k, v) # m) \<longleftrightarrow> (\<forall>k' \<in> fst ` set m. k < k') \<and> sm_ok m"
  by (auto simp: sm_ok_def)

lemma fst_set_sm_put: "fst ` set (sm_put k v m) = insert k (fst ` set m)"
  by (induction k v m rule: sm_put.induct) auto

lemma fst_set_sm_erase: "fst ` set (sm_erase k m) \<subseteq> fst ` set m"
  by (induction k m rule: sm_erase.induct) auto

lemma sm_ok_put [wf_intros]: "sm_ok m \<Longrightarrow> sm_ok (sm_put k v m)"
  by (induction k v m rule: sm_put.induct) (auto simp: sm_ok_Cons fst_set_sm_put)

lemma sm_ok_erase [wf_intros]: "sm_ok m \<Longrightarrow> sm_ok (sm_erase k m)"
  using fst_set_sm_erase by (induction k m rule: sm_erase.induct) (fastforce simp: sm_ok_Cons)+

lemma sm_find_None: "k \<notin> fst ` set m \<Longrightarrow> sm_find m k = None"
  by (induction m k rule: sm_find.induct) (auto simp: image_iff)

lemma sm_find_fresh: "sm_ok ((k, v) # m) \<Longrightarrow> sm_find m k = None"
  by (rule sm_find_None) (auto simp: sm_ok_Cons)

lemma sm_ok_tl: "sm_ok ((k, v) # m) \<Longrightarrow> sm_ok m"
  by (simp add: sm_ok_Cons)

lemma sm_find_Some_iff: "sm_ok m \<Longrightarrow> sm_find m k = Some v \<longleftrightarrow> (k, v) \<in> set m"
  by (induction m k rule: sm_find.induct) (force simp: sm_ok_Cons)+

lemma sm_find_in_set: "sm_find m k = Some v \<Longrightarrow> (k, v) \<in> set m"
  by (induction m k rule: sm_find.induct) (auto split: if_splits)

lemma sm_find_put: "sm_find (sm_put k v m) k' = (if k' = k then Some v else sm_find m k')"
  by (induction k v m rule: sm_put.induct) auto

lemma sm_find_erase: "sm_ok m \<Longrightarrow> sm_find (sm_erase k m) k' = (if k' = k then None else sm_find m k')"
  by (induction k m rule: sm_erase.induct) (auto simp: sm_find_fresh dest: sm_ok_tl)

interpretation sm: keyed_store sm_find sm_put sm_erase sm_ok
proof unfold_locales
  fix m :: "('k::linorder, 'v) std_map" and k :: 'k and v :: 'v
  show "sm_find (sm_put k v m) = (sm_find m)(k := Some v)"
    by (rule ext) (simp add: sm_find_put)
  assume "sm_ok m"
  then show "sm_find (sm_erase k m) = (sm_find m)(k := None)"
    by (intro ext) (simp add: sm_find_erase)
  from \<open>sm_ok m\<close> show "sm_ok (sm_put k v m)" "sm_ok (sm_erase k m)"
    by (auto intro: wf_intros)
qed

lemma set_sm_put_subset: "set (sm_put k v m) \<subseteq> insert (k, v) (set m)"
  by (induction k v m rule: sm_put.induct) auto

lemma set_sm_erase_subset: "set (sm_erase k m) \<subseteq> set m"
  by (induction k m rule: sm_erase.induct) auto

lemma sm_put_find_id: "sm_ok m \<Longrightarrow> sm_find m k = Some v \<Longrightarrow> sm_put k v m = m"
  by (induction k v m rule: sm_put.induct) (force simp: sm_ok_Cons dest: sm_find_in_set split: if_splits)+

end
