(* ===== verification/FastEcm.thy ===== *)
theory FastEcm
  imports StdMap
begin

text \<open>
  The FastECM state of a key (struct \<open>FAST_ECM\<close> in FFdecsa.h, functions at the end of FFdecsa.c):
  which control word arrived last and when, and per pid the parity in use. A receiver that switches
  to a parity whose control word has not arrived yet must wait; \<open>set_FastECM_CW_Parity\<close>
  decides that. Parities are 0 (undefined), 1 (even) and 2 (odd). The functions are modelled for a
  non-null key; the callers in \<open>DeCSAKey\<close> check the key first. \<open>now\<close> is the result of \<open>GetTick\<close>.
\<close>

record FAST_ECM =
  nextparity :: int
  evenparityTime :: u64
  oddparityTime :: u64
  csaSid :: int
  csaCaid :: int
  csaPid :: int
  activparity :: "(int, int) std_map"
  activparity2 :: "(int, int) std_map"

text \<open>Reading a missing entry with \<open>operator[]\<close> creates it with value 0.\<close>

definition sm_get :: "('k, int) std_map \<Rightarrow> 'k \<Rightarrow> int" where
  "sm_get m k = (case sm_find m k of None \<Rightarrow> 0 | Some v \<Rightarrow> v)"

definition setFastECMPid :: "int \<Rightarrow> FAST_ECM \<Rightarrow> FAST_ECM" where
  "setFastECMPid pid fe = fe\<lparr>csaPid := pid\<rparr>"

definition setFastECMCaidSid :: "int \<Rightarrow> int \<Rightarrow> FAST_ECM \<Rightarrow> FAST_ECM" where
  "setFastECMCaidSid caid sid fe = fe\<lparr>csaCaid := caid, csaSid := sid\<rparr>"

definition Init_FastECM :: "bool \<Rightarrow> FAST_ECM \<Rightarrow> FAST_ECM" where
  "Init_FastECM binitcsa fe =
     (let fe1 = fe\<lparr>oddparityTime := 0, evenparityTime := 0, nextparity := 0,
                   activparity := [], activparity2 := []\<rparr>
      in if binitcsa then fe1\<lparr>csaPid := 0, csaSid := 0, csaCaid := 0\<rparr> else fe1)"

text \<open>The part of \<open>set_even_control_word\<close> and \<open>set_odd_control_word\<close> on this state.\<close>

definition even_word_arrived :: "u64 \<Rightarrow> FAST_ECM \<Rightarrow> FAST_ECM" where
  "even_word_arrived now fe = fe\<lparr>nextparity := 1, evenparityTime := now\<rparr>"

definition odd_word_arrived :: "u64 \<Rightarrow> FAST_ECM \<Rightarrow> FAST_ECM" where
  "odd_word_arrived now fe = fe\<lparr>nextparity := 2, oddparityTime := now\<rparr>"

definition getActiveParity :: "FAST_ECM \<Rightarrow> int \<Rightarrow> int \<times> int" where
  "getActiveParity fe pid =
     (if pid \<le> 0 then (0, 0) else (sm_get (activparity fe) pid, sm_get (activparity2 fe) pid))"

text \<open>The out parameters of \<open>set_FastECM_CW_Parity\<close> beside its result.\<close>

record parity_result =
  pr_ok :: int
  pr_oldparity :: int
  pr_firsttime :: bool
  pr_nextset :: bool
  pr_patched :: bool

definition set_FastECM_CW_Parity ::
  "FAST_ECM \<Rightarrow> int \<Rightarrow> int \<Rightarrow> bool \<Rightarrow> FAST_ECM \<times> parity_result" where
  "set_FastECM_CW_Parity fe pid parity bforce =
     (if pid \<le> 0 then
        (fe, \<lparr>pr_ok = 1, pr_oldparity = parity, pr_firsttime = False, pr_nextset = False, pr_patched = False\<rparr>)
      else
        (let old = sm_get (activparity2 fe) pid;
             fe1 = fe\<lparr>activparity2 := sm_put pid parity (activparity2 fe)\<rparr>;
             res = \<lparr>pr_ok = 1, pr_oldparity = old, pr_firsttime = False, pr_nextset = False, pr_patched = False\<rparr>
         in
         if oddparityTime fe1 = 0 \<or> evenparityTime fe1 = 0 then (fe1, res)
         else if bforce then (fe1\<lparr>activparity := sm_put pid parity (activparity fe1)\<rparr>, res)
         else
           (let aparity0 = fst (getActiveParity fe1 pid);
                first = (aparity0 = 0);
                aparity = (if first then parity else aparity0);
                fe2 = (if first then fe1\<lparr>activparity := sm_put pid parity (activparity fe1)\<rparr> else fe1);
                nextset = (first \<and> nextparity fe2 = parity);
                fe3 = (if nextset then
                         (if evenparityTime fe2 > 0 \<and> evenparityTime fe2 \<ge> oddparityTime fe2
                          then fe2\<lparr>nextparity := 1\<rparr>
                          else if oddparityTime fe2 > 0 \<and> oddparityTime fe2 \<ge> evenparityTime fe2
                          then fe2\<lparr>nextparity := 2\<rparr>
                          else fe2)
                       else fe2);
                res3 = res\<lparr>pr_firsttime := first, pr_nextset := nextset\<rparr>
            in
            if aparity \<noteq> parity then
              (if nextparity fe3 = parity
               then (fe3\<lparr>activparity := sm_put pid parity (activparity fe3)\<rparr>, res3)
               else if nextparity fe3 > 0 then
                 (let delta = (if evenparityTime fe3 > oddparityTime fe3
                               then evenparityTime fe3 - oddparityTime fe3
                               else oddparityTime fe3 - evenparityTime fe3)
                  in if delta < 500
                     then (fe3\<lparr>activparity := sm_put pid parity (activparity fe3)\<rparr>, res3\<lparr>pr_patched := True\<rparr>)
                     else (fe3, res3\<lparr>pr_ok := 0\<rparr>))
               else (fe3, res3\<lparr>pr_ok := 0\<rparr>))
            else (fe3, res3))))"

subsection \<open>Invariant\<close>

definition wf_parities :: "(int, int) std_map \<Rightarrow> bool" where
  "wf_parities m \<longleftrightarrow> sm_ok m \<and> (\<forall>(pid, v) \<in> set m. v \<in> {0, 1, 2} \<and> 0 \<le> pid)"

definition wf_fastecm :: "FAST_ECM \<Rightarrow> bool" where
  "wf_fastecm fe \<longleftrightarrow> nextparity fe \<in> {0, 1, 2} \<and> wf_parities (activparity fe) \<and> wf_parities (activparity2 fe)"

lemma wf_parities_Nil [simp]: "wf_parities []"
  by (simp add: wf_parities_def)

lemma wf_parities_put [wf_intros]:
  "wf_parities m \<Longrightarrow> 0 \<le> pid \<Longrightarrow> v \<in> {0, 1, 2} \<Longrightarrow> wf_parities (sm_put pid v m)"
  using set_sm_put_subset [of pid v m] by (fastforce simp: wf_parities_def intro: wf_intros)

lemma wf_fastecm_next: "wf_fastecm fe \<Longrightarrow> nextparity fe \<noteq> 0 \<Longrightarrow> nextparity fe > 0"
  by (auto simp: wf_fastecm_def)

lemma sm_get_put [simp]: "sm_get (sm_put k v m) k' = (if k' = k then v else sm_get m k')"
  by (simp add: sm_get_def sm_find_put)

subsection \<open>The decision\<close>

text \<open>The distance of the two arrival times.\<close>

definition time_gap :: "FAST_ECM \<Rightarrow> u64" where
  "time_gap fe = max (oddparityTime fe) (evenparityTime fe) - min (oddparityTime fe) (evenparityTime fe)"

lemma delta_time_gap:
  "(if evenparityTime fe > oddparityTime fe then evenparityTime fe - oddparityTime fe
    else oddparityTime fe - evenparityTime fe) = time_gap fe"
  by (auto simp: time_gap_def max_def min_def)

text \<open>When the call must wait, and the parity per pid it leaves behind.\<close>

definition must_wait :: "FAST_ECM \<Rightarrow> int \<Rightarrow> int \<Rightarrow> bool" where
  "must_wait fe pid parity \<longleftrightarrow>
     0 < pid \<and> oddparityTime fe \<noteq> 0 \<and> evenparityTime fe \<noteq> 0 \<and>
     sm_get (activparity fe) pid \<notin> {0, parity} \<and> nextparity fe \<noteq> parity \<and>
     (nextparity fe \<le> 0 \<or> 500 \<le> time_gap fe)"

lemma pr_ok_set: "pr_ok (snd (set_FastECM_CW_Parity fe pid parity bforce)) =
    (if must_wait fe pid parity \<and> \<not> bforce then 0 else 1)"
  by (auto simp: set_FastECM_CW_Parity_def must_wait_def Let_def getActiveParity_def
      delta_time_gap time_gap_def max_def min_def linorder_not_less)

lemma activparity_after:
  "0 < pid \<Longrightarrow> oddparityTime fe \<noteq> 0 \<Longrightarrow> evenparityTime fe \<noteq> 0 \<Longrightarrow>
     \<not> (must_wait fe pid parity \<and> \<not> bforce) \<Longrightarrow>
     sm_get (activparity (fst (set_FastECM_CW_Parity fe pid parity bforce))) pid = parity"
  by (auto simp: set_FastECM_CW_Parity_def must_wait_def Let_def getActiveParity_def
      delta_time_gap time_gap_def max_def min_def linorder_not_less)

lemma wf_fst_if: "wf_fastecm (fst x) \<Longrightarrow> wf_fastecm (fst y) \<Longrightarrow> wf_fastecm (fst (if c then x else y))"
  and wf_if: "wf_fastecm u \<Longrightarrow> wf_fastecm v \<Longrightarrow> wf_fastecm (if c then u else v)"
  and wf_fst_pair: "wf_fastecm u \<Longrightarrow> wf_fastecm (fst (u, r))"
  by simp_all

lemma wf_fastecm_updates:
  "wf_fastecm fe \<Longrightarrow> 0 < pid \<Longrightarrow> v \<in> {0, 1, 2} \<Longrightarrow> wf_fastecm (fe\<lparr>activparity := sm_put pid v (activparity fe)\<rparr>)"
  "wf_fastecm fe \<Longrightarrow> 0 < pid \<Longrightarrow> v \<in> {0, 1, 2} \<Longrightarrow> wf_fastecm (fe\<lparr>activparity2 := sm_put pid v (activparity2 fe)\<rparr>)"
  "wf_fastecm fe \<Longrightarrow> wf_fastecm (fe\<lparr>nextparity := 1\<rparr>)"
  "wf_fastecm fe \<Longrightarrow> wf_fastecm (fe\<lparr>nextparity := 2\<rparr>)"
  by (auto simp: wf_fastecm_def intro: wf_parities_put)

lemma wf_set_FastECM_CW_Parity [wf_intros]:
  assumes "wf_fastecm fe" "parity \<in> {0, 1, 2}"
  shows "wf_fastecm (fst (set_FastECM_CW_Parity fe pid parity bforce))"
proof (cases "pid \<le> 0")
  case False
  then have "0 < pid" by simp
  show ?thesis
    unfolding set_FastECM_CW_Parity_def Let_def
    by (intro wf_fst_if wf_if wf_fst_pair wf_fastecm_updates assms \<open>0 < pid\<close>)
qed (use assms in \<open>simp add: set_FastECM_CW_Parity_def\<close>)

lemma other_pids_unchanged:
  "x \<noteq> pid \<Longrightarrow>
     sm_find (activparity (fst (set_FastECM_CW_Parity fe pid parity bforce))) x = sm_find (activparity fe) x \<and>
     sm_find (activparity2 (fst (set_FastECM_CW_Parity fe pid parity bforce))) x = sm_find (activparity2 fe) x"
  by (simp add: set_FastECM_CW_Parity_def Let_def sm_find_put)

subsection \<open>Properties\<close>

text \<open>C20: the receiver is told to wait (result 0) exactly when it switches an active pid to the other
  parity while both control words have been seen before, the control word that arrived last is not of
  the wanted parity, and it is not one of a pair that arrived within 500 ms of each other. A forced
  call never waits.\<close>

theorem FastECM_waits_iff:
  "pr_ok (snd (set_FastECM_CW_Parity fe pid parity bforce)) = 0 \<longleftrightarrow>
     \<not> bforce \<and> 0 < pid \<and> oddparityTime fe \<noteq> 0 \<and> evenparityTime fe \<noteq> 0 \<and>
     fst (getActiveParity fe pid) \<noteq> 0 \<and> fst (getActiveParity fe pid) \<noteq> parity \<and>
     nextparity fe \<noteq> parity \<and>
     (nextparity fe \<le> 0 \<or>
      500 \<le> max (oddparityTime fe) (evenparityTime fe) - min (oddparityTime fe) (evenparityTime fe))"
  by (auto simp: pr_ok_set must_wait_def getActiveParity_def time_gap_def)

text \<open>The arrival of the wanted control word ends every wait, and when both words have been seen the
  parity becomes the active one of the pid.\<close>

lemma FastECM_word_ends_wait:
  "pr_ok (snd (set_FastECM_CW_Parity (even_word_arrived now fe) pid 1 bforce)) = 1 \<and>
   pr_ok (snd (set_FastECM_CW_Parity (odd_word_arrived now fe) pid 2 bforce)) = 1 \<and>
   (if 0 < pid \<and> now \<noteq> 0 \<and> oddparityTime fe \<noteq> 0
    then fst (getActiveParity (fst (set_FastECM_CW_Parity (even_word_arrived now fe) pid 1 bforce)) pid) = 1
    else True) \<and>
   (if 0 < pid \<and> now \<noteq> 0 \<and> evenparityTime fe \<noteq> 0
    then fst (getActiveParity (fst (set_FastECM_CW_Parity (odd_word_arrived now fe) pid 2 bforce)) pid) = 2
    else True)"
proof -
  have "\<not> must_wait (even_word_arrived now fe) pid 1" "\<not> must_wait (odd_word_arrived now fe) pid 2"
    by (simp_all add: must_wait_def even_word_arrived_def odd_word_arrived_def)
  then show ?thesis
    by (auto simp: pr_ok_set getActiveParity_def intro!: activparity_after)
      (simp_all add: even_word_arrived_def odd_word_arrived_def)
qed

text \<open>Every operation keeps the FastECM state well formed (parities 0, 1 or 2, sorted maps of
  positive pids), and deciding for one pid never touches the parity of another.\<close>

lemma FastECM_invariant:
  assumes "wf_fastecm fe" "parity \<in> {1, 2}"
  shows "wf_fastecm (fst (set_FastECM_CW_Parity fe pid parity bforce)) \<and>
    wf_fastecm (even_word_arrived now fe) \<and> wf_fastecm (odd_word_arrived now fe) \<and>
    wf_fastecm (Init_FastECM b fe) \<and> wf_fastecm (setFastECMPid p fe) \<and>
    wf_fastecm (setFastECMCaidSid c s fe) \<and>
    (\<forall>x. x \<noteq> pid \<longrightarrow>
       getActiveParity (fst (set_FastECM_CW_Parity fe pid parity bforce)) x = getActiveParity fe x)"
proof -
  have "wf_fastecm (fst (set_FastECM_CW_Parity fe pid parity bforce))"
    using assms by (intro wf_intros) auto
  moreover have "getActiveParity (fst (set_FastECM_CW_Parity fe pid parity bforce)) x = getActiveParity fe x"
    if "x \<noteq> pid" for x
    using other_pids_unchanged [OF that, of fe parity bforce] by (simp add: getActiveParity_def sm_get_def)
  ultimately show ?thesis
    using assms(1)
    by (auto simp: wf_fastecm_def even_word_arrived_def odd_word_arrived_def Init_FastECM_def
        setFastECMPid_def setFastECMCaidSid_def Let_def)
qed

text \<open>After the timeout reset (\<open>Init_FastECM\<close>), no pid and no parity waits until both an even
  and an odd control word have arrived again.\<close>

lemma FastECM_reset_no_wait:
  "pr_ok (snd (set_FastECM_CW_Parity (Init_FastECM b fe) pid parity f)) = 1 \<and>
   pr_ok (snd (set_FastECM_CW_Parity (even_word_arrived now (Init_FastECM b fe)) pid parity f)) = 1 \<and>
   pr_ok (snd (set_FastECM_CW_Parity (odd_word_arrived now (Init_FastECM b fe)) pid parity f)) = 1"
  by (simp add: pr_ok_set must_wait_def Init_FastECM_def even_word_arrived_def odd_word_arrived_def Let_def)

end
