(* ===== verification/KeySchedule.thy ===== *)
theory KeySchedule
  imports Block FastEcm
begin

text \<open>
  The key structure of FFdecsa.c and its schedules: \<open>key_schedule_block\<close>, \<open>schedule_key\<close> and the
  functions of the external interface that set and read control words. A \<open>struct csa_key_t\<close> is
  recomputed as a whole from the eight bytes of a control word.
\<close>

subsection \<open>The code\<close>

definition key_perm :: "nat list" where
  "key_perm = [
    0x12, 0x24, 0x09, 0x07, 0x2a, 0x31, 0x1d, 0x15, 0x1c, 0x36, 0x3e, 0x32, 0x13, 0x21, 0x3b, 0x40,
    0x18, 0x14, 0x25, 0x27, 0x02, 0x35, 0x1b, 0x01, 0x22, 0x04, 0x0d, 0x0e, 0x39, 0x28, 0x1a, 0x29,
    0x33, 0x23, 0x34, 0x0c, 0x16, 0x30, 0x1e, 0x3a, 0x2d, 0x1f, 0x08, 0x19, 0x17, 0x2f, 0x3d, 0x11,
    0x3c, 0x05, 0x38, 0x2b, 0x0b, 0x06, 0x0a, 0x2c, 0x20, 0x3f, 0x2e, 0x0f, 0x03, 0x26, 0x10, 0x37]"

definition csa_block_perm :: "bytes" where
  "csa_block_perm = [
    0x00, 0x02, 0x80, 0x82, 0x20, 0x22, 0xa0, 0xa2, 0x04, 0x06, 0x84, 0x86, 0x24, 0x26, 0xa4, 0xa6,
    0x40, 0x42, 0xc0, 0xc2, 0x60, 0x62, 0xe0, 0xe2, 0x44, 0x46, 0xc4, 0xc6, 0x64, 0x66, 0xe4, 0xe6,
    0x01, 0x03, 0x81, 0x83, 0x21, 0x23, 0xa1, 0xa3, 0x05, 0x07, 0x85, 0x87, 0x25, 0x27, 0xa5, 0xa7,
    0x41, 0x43, 0xc1, 0xc3, 0x61, 0x63, 0xe1, 0xe3, 0x45, 0x47, 0xc5, 0xc7, 0x65, 0x67, 0xe5, 0xe7,
    0x08, 0x0a, 0x88, 0x8a, 0x28, 0x2a, 0xa8, 0xaa, 0x0c, 0x0e, 0x8c, 0x8e, 0x2c, 0x2e, 0xac, 0xae,
    0x48, 0x4a, 0xc8, 0xca, 0x68, 0x6a, 0xe8, 0xea, 0x4c, 0x4e, 0xcc, 0xce, 0x6c, 0x6e, 0xec, 0xee,
    0x09, 0x0b, 0x89, 0x8b, 0x29, 0x2b, 0xa9, 0xab, 0x0d, 0x0f, 0x8d, 0x8f, 0x2d, 0x2f, 0xad, 0xaf,
    0x49, 0x4b, 0xc9, 0xcb, 0x69, 0x6b, 0xe9, 0xeb, 0x4d, 0x4f, 0xcd, 0xcf, 0x6d, 0x6f, 0xed, 0xef,
    0x10, 0x12, 0x90, 0x92, 0x30, 0x32, 0xb0, 0xb2, 0x14, 0x16, 0x94, 0x96, 0x34, 0x36, 0xb4, 0xb6,
    0x50, 0x52, 0xd0, 0xd2, 0x70, 0x72, 0xf0, 0xf2, 0x54, 0x56, 0xd4, 0xd6, 0x74, 0x76, 0xf4, 0xf6,
    0x11, 0x13, 0x91, 0x93, 0x31, 0x33, 0xb1, 0xb3, 0x15, 0x17, 0x95, 0x97, 0x35, 0x37, 0xb5, 0xb7,
    0x51, 0x53, 0xd1, 0xd3, 0x71, 0x73, 0xf1, 0xf3, 0x55, 0x57, 0xd5, 0xd7, 0x75, 0x77, 0xf5, 0xf7,
    0x18, 0x1a, 0x98, 0x9a, 0x38, 0x3a, 0xb8, 0xba, 0x1c, 0x1e, 0x9c, 0x9e, 0x3c, 0x3e, 0xbc, 0xbe,
    0x58, 0x5a, 0xd8, 0xda, 0x78, 0x7a, 0xf8, 0xfa, 0x5c, 0x5e, 0xdc, 0xde, 0x7c, 0x7e, 0xfc, 0xfe,
    0x19, 0x1b, 0x99, 0x9b, 0x39, 0x3b, 0xb9, 0xbb, 0x1d, 0x1f, 0x9d, 0x9f, 0x3d, 0x3f, 0xbd, 0xbf,
    0x59, 0x5b, 0xd9, 0xdb, 0x79, 0x7b, 0xf9, 0xfb, 0x5d, 0x5f, 0xdd, 0xdf, 0x7d, 0x7f, 0xfd, 0xff]"

text \<open>One pass of the loop over \<open>i\<close>: the 64 bits of a row, numbered from the most significant bit of its
  first byte, go to the places that \<open>key_perm\<close> names (from 1).\<close>

definition row_bit :: "bytes \<Rightarrow> nat \<Rightarrow> bool" where
  "row_bit R p \<longleftrightarrow> bit (R ! (p div 8)) (7 - p mod 8)"

definition permute_row :: "bytes \<Rightarrow> bytes" where
  "permute_row R =
     (let newbit = fold (\<lambda>p newbit. newbit[key_perm ! p - 1 := row_bit R p]) [0..<64] (replicate 64 False)
      in map (\<lambda>j. horner_sum of_bool 2 (rev (take 8 (drop (8 * j) newbit)))) [0..<8])"

text \<open>The rows \<open>kb[0]\<close> to \<open>kb[6]\<close>.\<close>

definition key_rows :: "bytes \<Rightarrow> u8 \<Rightarrow> bytes list" where
  "key_rows ck ecm =
     (let kb6 = (if ecm = 4 then ck[0 := csa_block_perm ! unat (ck ! 0), 4 := csa_block_perm ! unat (ck ! 4)] else ck)
      in fold (\<lambda>i kb. permute_row (hd kb) # kb) (rev [0..<6]) [kb6])"

definition key_schedule_block :: "bytes \<Rightarrow> u8 \<Rightarrow> bytes" where
  "key_schedule_block ck ecm =
     (let kb = key_rows ck ecm
      in concat (map (\<lambda>i. map (\<lambda>j. kb ! i ! j XOR word_of_nat i) [0..<8]) [0..<7]))"

record csa_key_t =
  k_ck :: bytes
  k_iA :: "int list"
  k_iB :: "int list"
  k_ck_g :: "u32 list list"
  k_iA_g :: "u32 nib list"
  k_iB_g :: "u32 nib list"
  k_kk :: bytes
  k_kkmulti :: "u32 list"

record csa_keys_t =
  even_key :: csa_key_t
  odd_key :: csa_key_t
  fastecm :: FAST_ECM

definition schedule_key :: "bytes \<Rightarrow> u8 \<Rightarrow> csa_key_t" where
  "schedule_key pk ecm =
     (let w = take 8 pk; (ia, ib) = key_schedule_stream w; kb = key_schedule_block w ecm
      in \<lparr>k_ck = w, k_iA = ia, k_iB = ib,
          k_ck_g = map (\<lambda>b. map (\<lambda>bi. if b AND push_bit bi 1 \<noteq> 0 then FF1 int32_ops else FF0 int32_ops) [0..<8]) w,
          k_iA_g = nibble_groups int32_ops ia, k_iB_g = nibble_groups int32_ops ib,
          k_kk = kb, k_kkmulti = map (\<lambda>k. le32 (replicate 4 k)) kb\<rparr>)"

definition set_control_words :: "bytes \<Rightarrow> bytes \<Rightarrow> csa_keys_t \<Rightarrow> csa_keys_t" where
  "set_control_words ev od keys = keys\<lparr>even_key := schedule_key ev 0, odd_key := schedule_key od 0\<rparr>"

definition set_even_control_word :: "u64 \<Rightarrow> bytes \<Rightarrow> u8 \<Rightarrow> csa_keys_t \<Rightarrow> csa_keys_t" where
  "set_even_control_word now pk ecm keys =
     keys\<lparr>fastecm := even_word_arrived now (fastecm keys), even_key := schedule_key pk ecm\<rparr>"

definition set_odd_control_word :: "u64 \<Rightarrow> bytes \<Rightarrow> u8 \<Rightarrow> csa_keys_t \<Rightarrow> csa_keys_t" where
  "set_odd_control_word now pk ecm keys =
     keys\<lparr>fastecm := odd_word_arrived now (fastecm keys), odd_key := schedule_key pk ecm\<rparr>"

definition get_control_words :: "csa_keys_t \<Rightarrow> bytes \<times> bytes" where
  "get_control_words keys = (k_ck (even_key keys), k_ck (odd_key keys))"

text \<open>A new key structure, on memory that holds \<open>keys\<close>: both control words are zero.\<close>

definition get_key_struct :: "csa_keys_t \<Rightarrow> csa_keys_t" where
  "get_key_struct keys =
     (let pk = replicate 8 0; keys = set_control_words pk pk keys
      in keys\<lparr>fastecm := Init_FastECM True (fastecm keys)\<rparr>)"

text \<open>The values of the 32-bit mode; the plugin's own build is PARALLEL_128_SSE2, where they are 128 and 140.\<close>

definition get_internal_parallelism :: nat where
  "get_internal_parallelism = GROUP_PARALLELISM"

definition get_suggested_cluster_size :: nat where
  "get_suggested_cluster_size =
     (let r = GROUP_PARALLELISM + GROUP_PARALLELISM div 10
      in if r < GROUP_PARALLELISM + 5 then GROUP_PARALLELISM + 5 else r)"

subsection \<open>The rows of the block key\<close>

lemma key_perm_ok: "length key_perm = 64" "distinct key_perm" "\<forall>x \<in> set key_perm. 1 \<le> x \<and> x \<le> 64"
  by (simp_all add: key_perm_def)

lemma key_perm_less: "p < 64 \<Longrightarrow> key_perm ! p - 1 < 64"
  using key_perm_ok nth_mem [of p key_perm] by fastforce

lemma key_perm_inj: "p < 64 \<Longrightarrow> q < 64 \<Longrightarrow> key_perm ! p - 1 = key_perm ! q - 1 \<Longrightarrow> p = q"
proof -
  assume a: "p < 64" "q < 64" "key_perm ! p - 1 = key_perm ! q - 1"
  have "1 \<le> key_perm ! p" "1 \<le> key_perm ! q" using key_perm_ok nth_mem a by metis+
  then have "key_perm ! p = key_perm ! q" using a(3) by linarith
  then show "p = q" using a(1,2) key_perm_ok nth_eq_iff_index_eq [of key_perm p q] by simp
qed

lemma newbits:
  assumes "m \<le> 64" "length nb = 64"
  shows "length (fold (\<lambda>p nb. nb[key_perm ! p - 1 := f p]) [0..<m] nb) = 64 \<and>
    (\<forall>p < m. fold (\<lambda>p nb. nb[key_perm ! p - 1 := f p]) [0..<m] nb ! (key_perm ! p - 1) = f p)"
  using assms(1)
proof (induction m)
  case (Suc m)
  have "key_perm ! m - 1 \<noteq> key_perm ! p - 1" if "p < m" for p
    using key_perm_inj [of m p] Suc.prems that by auto
  then show ?case using Suc key_perm_less [of m] by (auto simp: less_Suc_eq)
qed (simp add: assms(2))

lemma length_permute_row [simp]: "length (permute_row R) = 8"
  by (simp add: permute_row_def Let_def)

lemma row_bit_of_bits:
  assumes "length nb = 64" "q < 64"
  shows "row_bit (map (\<lambda>j. horner_sum of_bool 2 (rev (take 8 (drop (8 * j) nb)))) [0..<8]) q \<longleftrightarrow> nb ! q"
proof -
  define xs where "xs = take 8 (drop (8 * (q div 8)) nb)"
  have "q div 8 < 8" using assms(2) by (simp add: less_mult_imp_div_less)
  then have "8 * (q div 8) \<le> 56" by linarith
  then have "length xs = 8" using assms(1) by (simp add: xs_def)
  moreover have "7 - q mod 8 < 8" by linarith
  ultimately have "bit (horner_sum of_bool 2 (rev xs) :: u8) (7 - q mod 8) \<longleftrightarrow> xs ! (q mod 8)"
    by (simp add: bit_horner_sum_bit_word_iff rev_nth)
  also have "xs ! (q mod 8) \<longleftrightarrow> nb ! q"
    using assms by (simp add: xs_def)
  finally show ?thesis using \<open>q div 8 < 8\<close> by (simp add: row_bit_def xs_def)
qed

lemma row_bit_permute: "p < 64 \<Longrightarrow> row_bit (permute_row R) (key_perm ! p - 1) \<longleftrightarrow> row_bit R p"
  using newbits [of 64 "replicate 64 False" "row_bit R"] key_perm_less [of p]
  by (simp add: permute_row_def Let_def row_bit_of_bits)

definition key_row6 :: "bytes \<Rightarrow> u8 \<Rightarrow> bytes" where
  "key_row6 w ecm = (if ecm = 4 then w[0 := csa_block_perm ! unat (w ! 0), 4 := csa_block_perm ! unat (w ! 4)] else w)"

lemma key_rows_eq: "key_rows w ecm = map (\<lambda>i. (permute_row ^^ (6 - i)) (key_row6 w ecm)) [0..<7]"
  by (simp add: key_rows_def key_row6_def [symmetric] Let_def upt_rec numeral_eq_Suc)

lemma length_key_rows:
  assumes "length w = 8" "i < 7"
  shows "length (key_rows w ecm ! i) = 8"
proof (cases "i = 6")
  case False
  then obtain n where "6 - i = Suc n" using assms(2) by (metis Suc_diff_Suc less_antisym numeral_eq_Suc pred_numeral_simps(3) diff_is_0_eq not_less not0_implies_Suc)
  then show ?thesis using assms(2) by (simp add: key_rows_eq)
qed (use assms in \<open>simp add: key_rows_eq key_row6_def\<close>)

lemma key_schedule_nth:
  assumes "i < 7" "j < 8"
  shows "key_schedule_block w ecm ! (8 * i + j) = key_rows w ecm ! i ! j XOR word_of_nat i"
proof -
  let ?rs = "map (\<lambda>i. map (\<lambda>j. key_rows w ecm ! i ! j XOR word_of_nat i) [0..<8]) [0..<7]"
  have l: "\<forall>row \<in> set ?rs. length row = 8" by simp
  have "take 8 (drop (8 * i) (concat ?rs)) = ?rs ! i" by (rule rows_of_concat [OF l]) (simp add: assms(1))
  then have "take 8 (drop (8 * i) (concat ?rs)) ! j = ?rs ! i ! j" by simp
  moreover have "length (concat ?rs) = 56" using length_concat_rows [OF l] by simp
  ultimately show ?thesis using assms by (simp add: key_schedule_block_def Let_def)
qed

lemma length_key_schedule [simp]: "length (key_schedule_block w ecm) = 56"
  using length_concat_rows [of "map (\<lambda>i. map (\<lambda>j. key_rows w ecm ! i ! j XOR word_of_nat i) [0..<8]) [0..<7]"]
  by (simp add: key_schedule_block_def Let_def)

text \<open>Row \<open>i\<close> of a schedule, without the xor with its number.\<close>

definition schedule_row :: "bytes \<Rightarrow> nat \<Rightarrow> bytes" where
  "schedule_row ks i = map (\<lambda>j. ks ! (8 * i + j) XOR word_of_nat i) [0..<8]"

lemma schedule_row_eq: "length w = 8 \<Longrightarrow> i < 7 \<Longrightarrow> schedule_row (key_schedule_block w ecm) i = key_rows w ecm ! i"
  by (rule nth_equalityI) (simp_all add: schedule_row_def key_schedule_nth length_key_rows xor.assoc)

text \<open>The block key schedule of eight bytes is 56 bytes in seven rows. The last row is the control word
  (with its bytes 0 and 4 replaced by a table if ecm is 4), and every earlier row is the next one with its 64
  bits permuted by \<open>key_perm\<close>; row number \<open>i\<close> is xored with \<open>i\<close>. So different
  control words have different schedules (unless ecm is 4).\<close>

lemma key_schedule_block_rows:
  assumes "length w = 8"
  shows "length (key_schedule_block w ecm) = 56 \<and>
    schedule_row (key_schedule_block w ecm) 6 =
      (if ecm = 4 then w[0 := csa_block_perm ! unat (w ! 0), 4 := csa_block_perm ! unat (w ! 4)] else w) \<and>
    (\<forall>i < 6. \<forall>p < 64. row_bit (schedule_row (key_schedule_block w ecm) i) (key_perm ! p - 1) \<longleftrightarrow>
      row_bit (schedule_row (key_schedule_block w ecm) (Suc i)) p) \<and>
    (\<forall>w'. length w' = 8 \<longrightarrow> ecm \<noteq> 4 \<longrightarrow> key_schedule_block w' ecm = key_schedule_block w ecm \<longrightarrow> w' = w)"
proof -
  have r6: "schedule_row (key_schedule_block w ecm) 6 = key_row6 w ecm" if "length w = 8" for w
    using that by (simp add: schedule_row_eq key_rows_eq)
  have r: "row_bit (schedule_row (key_schedule_block w ecm) i) (key_perm ! p - 1) \<longleftrightarrow>
      row_bit (schedule_row (key_schedule_block w ecm) (Suc i)) p" if "i < 6" "p < 64" for i p
  proof -
    have "6 - i = Suc (6 - Suc i)" using that(1) by simp
    then have "key_rows w ecm ! i = permute_row (key_rows w ecm ! Suc i)"
      using that(1) unfolding key_rows_eq by simp
    moreover have "schedule_row (key_schedule_block w ecm) i = key_rows w ecm ! i"
      "schedule_row (key_schedule_block w ecm) (Suc i) = key_rows w ecm ! Suc i"
      using that(1) assms by (simp_all add: schedule_row_eq)
    ultimately show ?thesis using row_bit_permute [OF that(2)] by (simp only:)
  qed
  have "w' = w" if "length w' = 8" "ecm \<noteq> 4" "key_schedule_block w' ecm = key_schedule_block w ecm" for w'
    using r6 [OF assms] r6 [OF that(1)] that(2,3) by (simp add: key_row6_def)
  then show ?thesis using r6 [OF assms] r by (auto simp: key_row6_def)
qed

subsection \<open>The key structure\<close>

definition wf_key :: "csa_key_t \<Rightarrow> bool" where
  "wf_key k \<longleftrightarrow> length (k_ck k) = 8 \<and> (k_iA k, k_iB k) = key_schedule_stream (k_ck k) \<and>
     k_iA_g k = nibble_groups int32_ops (k_iA k) \<and> k_iB_g k = nibble_groups int32_ops (k_iB k) \<and>
     (\<exists>ecm. k_kk k = key_schedule_block (k_ck k) ecm) \<and> k_kkmulti k = map (\<lambda>b. le32 (replicate 4 b)) (k_kk k) \<and>
     length (k_ck_g k) = 8 \<and>
     (\<forall>by < 8. \<forall>bi < 8. k_ck_g k ! by ! bi = (if bit (k_ck k ! by) bi then 0xffffffff else 0))"

definition wf_keys :: "csa_keys_t \<Rightarrow> bool" where
  "wf_keys keys \<longleftrightarrow> wf_key (even_key keys) \<and> wf_key (odd_key keys) \<and> wf_fastecm (fastecm keys)"

lemma and_exp_eq_0: "b AND 2 ^ n = 0 \<longleftrightarrow> \<not> bit b n" for b :: u8
  using bit_iff_and_push_bit_not_eq_0 [of b n] by (simp add: push_bit_eq_mult)

lemma wf_schedule_key [wf_intros]: "8 \<le> length pk \<Longrightarrow> wf_key (schedule_key pk ecm)"
  by (auto simp: wf_key_def schedule_key_def Let_def split_def int32_ops_def and_exp_eq_0)

lemma wf_keys_updates [wf_intros]:
  "wf_keys keys \<Longrightarrow> wf_fastecm fe \<Longrightarrow> wf_keys (keys\<lparr>fastecm := fe\<rparr>)"
  "wf_keys keys \<Longrightarrow> wf_key k \<Longrightarrow> wf_keys (keys\<lparr>even_key := k\<rparr>)"
  "wf_keys keys \<Longrightarrow> wf_key k \<Longrightarrow> wf_keys (keys\<lparr>odd_key := k\<rparr>)"
  by (simp_all add: wf_keys_def)

lemma wf_word_arrived [wf_intros]:
  "wf_fastecm fe \<Longrightarrow> wf_fastecm (even_word_arrived now fe)" "wf_fastecm fe \<Longrightarrow> wf_fastecm (odd_word_arrived now fe)"
  by (simp_all add: wf_fastecm_def even_word_arrived_def odd_word_arrived_def)

lemma wf_Init_FastECM: "wf_fastecm (Init_FastECM b fe)"
  by (simp add: Init_FastECM_def wf_fastecm_def Let_def)

text \<open>The schedule of a control word \<open>w\<close> and its ecm byte: the rows of the block key are pinned by \<open>ecm\<close> and
  \<open>key_perm\<close>, everything else by \<open>wf_key\<close>.\<close>

definition key_for :: "bytes \<Rightarrow> u8 \<Rightarrow> csa_key_t \<Rightarrow> bool" where
  "key_for w ecm k \<longleftrightarrow> wf_key k \<and> k_ck k = w \<and> k_kk k = key_schedule_block w ecm \<and> length (k_kk k) = 56 \<and>
     schedule_row (k_kk k) 6 =
       (if ecm = 4 then w[0 := csa_block_perm ! unat (w ! 0), 4 := csa_block_perm ! unat (w ! 4)] else w) \<and>
     (\<forall>i < 6. \<forall>p < 64. row_bit (schedule_row (k_kk k) i) (key_perm ! p - 1) \<longleftrightarrow> row_bit (schedule_row (k_kk k) (Suc i)) p)"

lemma key_for_schedule: "length w = 8 \<Longrightarrow> key_for w ecm (schedule_key w ecm)"
proof -
  assume w: "length w = 8"
  then have "k_ck (schedule_key w ecm) = w" "k_kk (schedule_key w ecm) = key_schedule_block w ecm"
    by (simp_all add: schedule_key_def Let_def split_def)
  then show ?thesis using w key_schedule_block_rows [OF w, of ecm] by (simp add: key_for_def wf_schedule_key)
qed

text \<open>C40: a new key structure holds the schedules of two control words 0 and an empty FastECM state, whatever was in its
  memory. Setting both control words replaces both schedules, with ecm 0, and leaves the FastECM state. Setting
  the word of one parity gives that parity the schedule of the word and of the ecm byte, which changes the last row of the
  block key when it is 4, records the parity as the last one and the time of its arrival, and leaves the other parity's
  schedule and the rest of the FastECM state. The structure stays well formed, and reading the control words gives back
  what was set.\<close>

theorem key_structure_type:
  assumes "wf_keys keys" "length ev = 8" "length od = 8"
  shows "wf_keys (get_key_struct junk) \<and> get_control_words (get_key_struct junk) = (replicate 8 0, replicate 8 0) \<and>
    key_for (replicate 8 0) 0 (even_key (get_key_struct junk)) \<and> key_for (replicate 8 0) 0 (odd_key (get_key_struct junk)) \<and>
    fastecm (get_key_struct junk) = \<lparr>nextparity = 0, evenparityTime = 0, oddparityTime = 0, csaSid = 0, csaCaid = 0, csaPid = 0,
      activparity = [], activparity2 = []\<rparr> \<and>
    wf_keys (set_control_words ev od keys) \<and> get_control_words (set_control_words ev od keys) = (ev, od) \<and>
    key_for ev 0 (even_key (set_control_words ev od keys)) \<and> key_for od 0 (odd_key (set_control_words ev od keys)) \<and>
    fastecm (set_control_words ev od keys) = fastecm keys \<and>
    wf_keys (set_even_control_word now ev ecm keys) \<and>
    get_control_words (set_even_control_word now ev ecm keys) = (ev, snd (get_control_words keys)) \<and>
    key_for ev ecm (even_key (set_even_control_word now ev ecm keys)) \<and>
    odd_key (set_even_control_word now ev ecm keys) = odd_key keys \<and>
    fastecm (set_even_control_word now ev ecm keys) = (fastecm keys)\<lparr>nextparity := 1, evenparityTime := now\<rparr> \<and>
    wf_keys (set_odd_control_word now od ecm keys) \<and>
    get_control_words (set_odd_control_word now od ecm keys) = (fst (get_control_words keys), od) \<and>
    key_for od ecm (odd_key (set_odd_control_word now od ecm keys)) \<and>
    even_key (set_odd_control_word now od ecm keys) = even_key keys \<and>
    fastecm (set_odd_control_word now od ecm keys) = (fastecm keys)\<lparr>nextparity := 2, oddparityTime := now\<rparr>"
proof -
  note defs = set_control_words_def set_even_control_word_def set_odd_control_word_def
  have c: "k_ck (schedule_key w e) = take 8 w" for w e
    by (simp add: schedule_key_def Let_def split_def)
  have z: "key_for (replicate 8 0) 0 (schedule_key (replicate 8 0) 0)" by (rule key_for_schedule) simp
  have "wf_keys (get_key_struct junk)"
    by (simp add: get_key_struct_def set_control_words_def Let_def wf_keys_def wf_schedule_key wf_Init_FastECM)
  moreover have "wf_keys (set_control_words ev od keys)" "wf_keys (set_even_control_word now ev ecm keys)"
    "wf_keys (set_odd_control_word now od ecm keys)"
    using assms by (auto simp: defs wf_keys_def intro!: wf_intros)
  moreover have "get_control_words (get_key_struct junk) = (replicate 8 0, replicate 8 0)"
    "get_control_words (set_control_words ev od keys) = (ev, od)"
    "get_control_words (set_even_control_word now ev ecm keys) = (ev, snd (get_control_words keys))"
    "get_control_words (set_odd_control_word now od ecm keys) = (fst (get_control_words keys), od)"
    using assms(2,3) by (simp_all add: c get_control_words_def get_key_struct_def Let_def defs)
  moreover have "fastecm (get_key_struct junk) = \<lparr>nextparity = 0, evenparityTime = 0, oddparityTime = 0, csaSid = 0, csaCaid = 0,
      csaPid = 0, activparity = [], activparity2 = []\<rparr>"
    by (simp add: get_key_struct_def Let_def Init_FastECM_def)
  moreover have "even_key (get_key_struct junk) = schedule_key (replicate 8 0) 0"
    "odd_key (get_key_struct junk) = schedule_key (replicate 8 0) 0"
    by (simp_all add: get_key_struct_def Let_def defs)
  ultimately show ?thesis
    using z key_for_schedule [OF assms(2)] key_for_schedule [OF assms(3)]
    by (simp add: defs even_word_arrived_def odd_word_arrived_def)
qed

theorem key_structure_type_witness:
  "\<forall>junk. key_for [8, 7, 6, 5, 4, 3, 2, 1] 4 (odd_key (set_odd_control_word 7 [8, 7, 6, 5, 4, 3, 2, 1] 4 (get_key_struct junk))) \<and>
     oddparityTime (fastecm (set_odd_control_word 7 [8, 7, 6, 5, 4, 3, 2, 1] 4 (get_key_struct junk))) = 7"
proof
  fix junk
  let ?z = "replicate 8 0 :: bytes"
  have "wf_keys (get_key_struct junk)"
    by (simp add: get_key_struct_def set_control_words_def Let_def wf_keys_def wf_schedule_key wf_Init_FastECM)
  from key_structure_type [OF this, of ?z "[8, 7, 6, 5, 4, 3, 2, 1]" junk 7 4]
  show "key_for [8, 7, 6, 5, 4, 3, 2, 1] 4 (odd_key (set_odd_control_word 7 [8, 7, 6, 5, 4, 3, 2, 1] 4 (get_key_struct junk))) \<and>
     oddparityTime (fastecm (set_odd_control_word 7 [8, 7, 6, 5, 4, 3, 2, 1] 4 (get_key_struct junk))) = 7" by simp
qed

end
