(* ===== verification/Csa.thy ===== *)
theory Csa
  imports KeySchedule
begin

text \<open>
  The reference of the Common Scrambling Algorithm for the payload of one packet, from the two
  reference cyphers: the stream cypher (theory \<open>StreamRef\<close>) and the block cypher (theory \<open>Block\<close>).
  The first block of the scrambled payload initialises the stream; every further block and the residue
  shorter than a block are xored with the stream, and the blocks are chained backwards through the
  block cypher. The theory defines the scrambler as well and shows that descrambling inverts it. The
  bit-sliced, batched code is compared with this reference in theory \<open>DecryptRef\<close>.
\<close>

definition xorb :: "bytes \<Rightarrow> bytes \<Rightarrow> bytes" where
  "xorb xs ys = map2 (XOR) xs ys"

lemma length_xorb [simp]: "length (xorb xs ys) = min (length xs) (length ys)"
  by (simp add: xorb_def)

lemma nth_xorb [simp]: "i < length xs \<Longrightarrow> i < length ys \<Longrightarrow> xorb xs ys ! i = xs ! i XOR ys ! i"
  by (simp add: xorb_def)

lemma xorb_xorb [simp]: "length ys = length xs \<Longrightarrow> xorb (xorb xs ys) ys = xs"
  by (rule nth_equalityI) (simp_all add: xor.assoc)

lemma xorb_xorb_left [simp]: "length ys = length xs \<Longrightarrow> xorb (xorb ys xs) ys = xs"
  by (rule nth_equalityI) (simp_all add: xor.assoc xor.left_commute)

subsection \<open>Descrambling\<close>

text \<open>\<open>ib\<close> is the input of the block cypher for the block in hand, \<open>cs\<close> the scrambled bytes after it.\<close>

fun csa_chain :: "bytes \<Rightarrow> csa_regs \<Rightarrow> bytes \<Rightarrow> bytes \<Rightarrow> bytes" where
  "csa_chain kk s ib cs =
     (case csa_stream s of (st, s') \<Rightarrow>
        if 8 \<le> length cs
        then let ib' = xorb st (take 8 cs) in xorb ib' (block_decrypt kk ib) @ csa_chain kk s' ib' (drop 8 cs)
        else block_decrypt kk ib @ xorb cs (take (length cs) st))"

declare csa_chain.simps [simp del]

definition csa_decrypt :: "bytes \<Rightarrow> bytes \<Rightarrow> bytes \<Rightarrow> bytes" where
  "csa_decrypt w kk payload =
     (if length payload < 8 then payload
      else csa_chain kk (csa_init w (take 8 payload)) (take 8 payload) (drop 8 payload))"

subsection \<open>Scrambling\<close>

text \<open>The chain backwards: the block cypher inputs of all blocks.\<close>

fun csa_blocks :: "bytes \<Rightarrow> bytes \<Rightarrow> bytes list" where
  "csa_blocks kk ps =
     (if length ps < 8 then []
      else case csa_blocks kk (drop 8 ps) of
             [] \<Rightarrow> [block_encrypt kk (take 8 ps)]
           | ib # ibs \<Rightarrow> block_encrypt kk (xorb ib (take 8 ps)) # ib # ibs)"

declare csa_blocks.simps [simp del]

text \<open>The stream over the blocks after the first and over the residue.\<close>

fun csa_mask :: "csa_regs \<Rightarrow> bytes list \<Rightarrow> bytes \<Rightarrow> bytes" where
  "csa_mask s [] residue = xorb residue (take (length residue) (fst (csa_stream s)))"
| "csa_mask s (ib # ibs) residue = (case csa_stream s of (st, s') \<Rightarrow> xorb st ib @ csa_mask s' ibs residue)"

definition csa_encrypt :: "bytes \<Rightarrow> bytes \<Rightarrow> bytes \<Rightarrow> bytes" where
  "csa_encrypt w kk ps =
     (case csa_blocks kk ps of
        [] \<Rightarrow> ps
      | ib # ibs \<Rightarrow> ib @ csa_mask (csa_init w ib) ibs (drop (8 * (length ps div 8)) ps))"

subsection \<open>Round trip\<close>

lemma length_csa_chain: "length ib = 8 \<Longrightarrow> length (csa_chain kk s ib cs) = 8 + length cs"
proof (induction kk s ib cs rule: csa_chain.induct)
  case (1 kk s ib cs)
  obtain st s' where st: "csa_stream s = (st, s')" by fastforce
  then have l: "length st = 8" using length_csa_stream [of s] by simp
  show ?case
  proof (cases "8 \<le> length cs")
    case True
    then show ?thesis using "1.IH" [OF st [symmetric] True refl] 1(2) st l
      by (subst csa_chain.simps) (simp add: Let_def)
  qed (use 1(2) st l in \<open>subst csa_chain.simps, simp\<close>)
qed

lemma length_csa_decrypt [simp]: "length (csa_decrypt w kk ps) = length ps"
  by (simp add: csa_decrypt_def length_csa_chain)

lemma csa_blocks_Cons:
  assumes "8 \<le> length ps"
  shows "csa_blocks kk ps =
    block_encrypt kk (case csa_blocks kk (drop 8 ps) of [] \<Rightarrow> take 8 ps | ib # ibs \<Rightarrow> xorb ib (take 8 ps)) #
    csa_blocks kk (drop 8 ps)"
  using assms by (subst csa_blocks.simps) (simp split: list.split)

lemma csa_blocks_lengths: "list_all (\<lambda>ib. length ib = 8) (csa_blocks kk ps)"
proof (induction kk ps rule: csa_blocks.induct)
  case (1 kk ps)
  show ?case
  proof (cases "length ps < 8")
    case False
    then have "list_all (\<lambda>ib. length ib = 8) (csa_blocks kk (drop 8 ps))" by (rule 1)
    moreover have "8 \<le> length ps" using False by simp
    ultimately show ?thesis
      by (cases "csa_blocks kk (drop 8 ps)") (simp_all add: csa_blocks_Cons [of ps kk])
  qed (simp add: csa_blocks.simps [of kk ps])
qed

lemma csa_blocks_Nil: "csa_blocks kk ps = [] \<longleftrightarrow> length ps < 8"
  by (cases "length ps < 8") (simp_all add: csa_blocks.simps [of kk ps] split: list.split)

lemma csa_chain_mask:
  "8 \<le> length ps \<Longrightarrow> csa_blocks kk ps = ib # ibs \<Longrightarrow>
     csa_chain kk s ib (csa_mask s ibs (drop (8 * (length ps div 8)) ps)) = ps"
proof (induction kk ps arbitrary: s ib ibs rule: csa_blocks.induct)
  case (1 kk ps)
  obtain st s' where st: "csa_stream s = (st, s')" by fastforce
  then have l: "length st = 8" using length_csa_stream [of s] by simp
  have e: "csa_blocks kk ps = block_encrypt kk (case csa_blocks kk (drop 8 ps) of [] \<Rightarrow> take 8 ps | ib # ibs \<Rightarrow> xorb ib (take 8 ps)) #
      csa_blocks kk (drop 8 ps)" using 1(2) by (rule csa_blocks_Cons)
  have r: "drop (8 * (length ps div 8)) ps = drop (8 * (length (drop 8 ps) div 8)) (drop 8 ps)"
  proof -
    have "8 * (length ps div 8) = 8 * (length (drop 8 ps) div 8) + 8"
      using 1(2) by (simp add: le_div_geq)
    then show ?thesis by (simp add: add.commute)
  qed
  show ?case
  proof (cases ibs)
    case Nil
    then have s8: "length (drop 8 ps) < 8" using 1(3) e csa_blocks_Nil by auto
    then have "csa_blocks kk (drop 8 ps) = []" by (simp only: csa_blocks_Nil)
    then have ib: "ib = block_encrypt kk (take 8 ps)" using 1(3) e by simp
    have "drop (8 * (length ps div 8)) ps = drop 8 ps" unfolding r using s8 by simp
    then show ?thesis
      using 1(2) s8 Nil st l ib
      by (subst csa_chain.simps) (simp add: block_decrypt_encrypt min_def)
  next
    case (Cons ib' ibs')
    then have s8: "8 \<le> length (drop 8 ps)" and b: "csa_blocks kk (drop 8 ps) = ib' # ibs'"
      and ib: "ib = block_encrypt kk (xorb ib' (take 8 ps))"
      using 1(3) e csa_blocks_Nil [of kk "drop 8 ps"] by (auto simp: not_less)
    have l': "length ib' = 8" using csa_blocks_lengths [of kk "drop 8 ps"] b by simp
    have IH: "csa_chain kk s' ib' (csa_mask s' ibs' (drop (8 * (length (drop 8 ps) div 8)) (drop 8 ps))) = drop 8 ps"
      using "1.IH" [OF _ s8 b] 1(2) by simp
    have "xorb st (xorb st ib') = ib'" using l l' by (intro nth_equalityI) (simp_all add: xor.assoc [symmetric])
    moreover have "xorb ib' (xorb ib' (take 8 ps)) = take 8 ps"
      using l' 1(2) by (intro nth_equalityI) (simp_all add: xor.assoc [symmetric])
    ultimately show ?thesis
      unfolding r using IH 1(2) Cons st l l' ib
      by (subst csa_chain.simps) (simp add: block_decrypt_encrypt Let_def)
  qed
qed

lemma csa_decrypt_encrypt: "csa_decrypt w kk (csa_encrypt w kk ps) = ps"
proof (cases "csa_blocks kk ps")
  case Nil
  then have "length ps < 8" by (simp only: csa_blocks_Nil)
  then show ?thesis using Nil by (simp add: csa_encrypt_def csa_decrypt_def)
next
  case (Cons ib ibs)
  then have "8 \<le> length ps" "length ib = 8"
    using csa_blocks_Nil [of kk ps] csa_blocks_lengths [of kk ps] by auto
  then show ?thesis
    using csa_chain_mask [OF _ Cons] Cons by (simp add: csa_encrypt_def csa_decrypt_def)
qed

lemma length_csa_encrypt [simp]: "length (csa_encrypt w kk ps) = length ps"
  using length_csa_decrypt [of w kk "csa_encrypt w kk ps"] by (simp add: csa_decrypt_encrypt)

end
