(* ===== verification/DecryptPackets.thy ===== *)
theory DecryptPackets
  imports Csa
begin

text \<open>
  \<open>decrypt_packets\<close> of FFdecsa.c, in the 32-bit mode (PARALLEL_32_INT, not the
  PARALLEL_128_SSE2 that the Makefile of the plugin asks for). The memory that the cluster points into is one
  list of bytes and a pointer is an index of it; the cluster is the list of its ranges \<open>(start, end)\<close>
  before the NULL, and a pointer to an entry of it is the rest of the list from there. The parts are
  those of the code: the search for packets of one parity, the removal of empty ranges, the two sorting
  steps, the counts \<open>alive\<close>, and the iterations over the blocks. Local buffers that the code does not
  initialise are arguments.
\<close>

subsection \<open>The packets of the group\<close>

record gpkt =
  g_pkt :: nat
  g_len :: nat
  g_offset :: nat
  g_n :: nat
  g_residue :: nat

record scan_state =
  sc_mem :: bytes
  sc_group :: "gpkt list"
  group_ev_od :: int
  advanced :: nat
  can_advance :: bool

definition advance :: "scan_state \<Rightarrow> scan_state" where
  "advance s = s\<lparr>advanced := advanced s + (if can_advance s then 1 else 0)\<rparr>"

definition add_to_group :: "nat \<Rightarrow> nat \<Rightarrow> nat \<Rightarrow> nat \<Rightarrow> nat \<Rightarrow> scan_state \<Rightarrow> scan_state" where
  "add_to_group pkt len offset n residue s =
     advance (s\<lparr>sc_group := sc_group s @ [\<lparr>g_pkt = pkt, g_len = len, g_offset = offset, g_n = n, g_residue = residue\<rparr>]\<rparr>)"

text \<open>\<open>do { ... } while(0)\<close> on the packet at \<open>pkt\<close>.\<close>

definition handle_packet :: "nat \<Rightarrow> scan_state \<Rightarrow> scan_state" where
  "handle_packet pkt s =
     (let xc0 = sc_mem s ! (pkt + 3) AND 0xc0 in
      if xc0 = 0x00 then advance s
      else if xc0 = 0x40 then advance s
      else if xc0 = 0x80 \<or> xc0 = 0xc0 then
        (let ev_od = uint (drop_bit 6 (xc0 AND 0x40));
             s = (if sc_group s = [] then s\<lparr>group_ev_od := ev_od\<rparr> else s)
         in
         if group_ev_od s = ev_od then
           (let s = s\<lparr>sc_mem := (sc_mem s)[pkt + 3 := sc_mem s ! (pkt + 3) AND 0x3f]\<rparr> in
            if sc_mem s ! (pkt + 3) AND 0x20 \<noteq> 0 then
              (let offset = 4 + uint (sc_mem s ! (pkt + 4)) + 1; len = 188 - offset in
               if len \<le> 0 then advance s
               else
                 (let n = len div 8; residue = len - n * 8 in
                  if n = 0 then advance s
                  else add_to_group pkt (nat len) (nat offset) (nat n) (nat residue) s))
            else add_to_group pkt 184 4 23 0 s)
         else s\<lparr>can_advance := False\<rparr>)
      else s)"

text \<open>The loop over the packets. \<open>fin\<close> are the ranges that \<open>clst\<close> has left behind.\<close>

function scan_packets ::
  "(nat \<times> nat) list \<Rightarrow> (nat \<times> nat) list \<Rightarrow> nat \<Rightarrow> scan_state \<Rightarrow> (nat \<times> nat) list \<times> scan_state" where
  "scan_packets fin clst pkt s =
     (if length (sc_group s) = GROUP_PARALLELISM then (fin @ clst, s)
      else case clst of
             [] \<Rightarrow> (fin, s)
           | (st, en) # rest \<Rightarrow>
               if en \<le> pkt
               then scan_packets (fin @ [(st, en)]) rest (case rest of [] \<Rightarrow> 0 | (st', _) # _ \<Rightarrow> st') s
               else (let s = handle_packet pkt s;
                         st = (if can_advance s then st + TS_SIZE else st)
                     in scan_packets fin ((st, en) # rest) (pkt + TS_SIZE) s))"
  by pat_completeness auto

termination
  by (relation "measures [\<lambda>(fin, clst, pkt, s). length clst,
        \<lambda>(fin, clst, pkt, s). case clst of [] \<Rightarrow> 0 | (st, en) # rest \<Rightarrow> en - pkt]") auto

declare scan_packets.simps [simp del]

definition compact_ranges :: "(nat \<times> nat) list \<Rightarrow> (nat \<times> nat) list" where
  "compact_ranges cluster = filter (\<lambda>(st, en). st < en) cluster"

subsection \<open>Sorting\<close>

definition g_swap :: "nat \<Rightarrow> nat \<Rightarrow> gpkt list \<Rightarrow> gpkt list" where
  "g_swap a b gs = gs[a := gs ! b, b := gs ! a]"

text \<open>Step 1: the packets with 23 blocks to the front.\<close>

function skip_t23 :: "gpkt list \<Rightarrow> nat \<Rightarrow> nat" where
  "skip_t23 gs t23 = (if t23 < length gs \<and> g_n (gs ! t23) = 23 then skip_t23 gs (t23 + 1) else t23)"
  by pat_completeness auto

termination by (relation "measure (\<lambda>(gs, t23). length gs - t23)") auto

function skip_tsmall :: "gpkt list \<Rightarrow> int \<Rightarrow> int" where
  "skip_tsmall gs tsmall = (if tsmall \<ge> 0 \<and> g_n (gs ! nat tsmall) \<noteq> 23 then skip_tsmall gs (tsmall - 1) else tsmall)"
  by pat_completeness auto

termination by (relation "measure (\<lambda>(gs, tsmall). nat (tsmall + 1))") auto

declare skip_t23.simps [simp del] skip_tsmall.simps [simp del]

lemma skip_t23_ge: "t23 \<le> skip_t23 gs t23"
  by (induction gs t23 rule: skip_t23.induct) (subst skip_t23.simps, auto)

lemma skip_tsmall_le: "skip_tsmall gs tsmall \<le> tsmall"
  by (induction gs tsmall rule: skip_tsmall.induct) (subst skip_tsmall.simps, auto)

function sort_step1 :: "gpkt list \<Rightarrow> nat \<Rightarrow> int \<Rightarrow> gpkt list \<times> nat" where
  "sort_step1 gs t23 tsmall =
     (let t23' = skip_t23 gs t23; tsmall' = skip_tsmall gs tsmall in
      if tsmall' - int t23' < 1 then (gs, t23')
      else sort_step1 (g_swap t23' (nat tsmall') gs) (t23' + 1) (tsmall' - 1))"
  by pat_completeness auto

termination
proof (relation "measure (\<lambda>(gs, t23, tsmall). nat (tsmall - int t23 + 1))")
  fix gs t23 tsmall t23' tsmall'
  assume "t23' = skip_t23 gs t23" "tsmall' = skip_tsmall gs tsmall" "\<not> tsmall' - int t23' < 1"
  moreover have "t23 \<le> skip_t23 gs t23" "skip_tsmall gs tsmall \<le> tsmall" by (rule skip_t23_ge, rule skip_tsmall_le)
  ultimately show "((g_swap t23' (nat tsmall') gs, t23' + 1, tsmall' - 1), gs, t23, tsmall)
      \<in> measure (\<lambda>(gs, t23, tsmall). nat (tsmall - int t23 + 1))"
    by simp
qed simp

declare sort_step1.simps [simp del]

text \<open>Step 2: the others by decreasing number of blocks.\<close>

definition sort_step2 :: "nat \<Rightarrow> gpkt list \<Rightarrow> gpkt list" where
  "sort_step2 t23 gs =
     fold (\<lambda>i. fold (\<lambda>j gs. if g_n (gs ! j) > g_n (gs ! i) then g_swap i j gs else gs) [i + 1..<length gs])
       [t23..<length gs] gs"

text \<open>\<open>alive ! i\<close>: how many packets have more than \<open>i\<close> blocks.\<close>

definition count_alive :: "nat \<Rightarrow> gpkt list \<Rightarrow> nat list" where
  "count_alive t23 gs =
     (let alive = (replicate 24 0)[23 - 1 := t23];
          alive = fold (\<lambda>g alive. alive[g_n g - 1 := alive ! (g_n g - 1) + 1]) (drop t23 gs) alive
      in fold (\<lambda>i alive. alive[i := alive ! i + alive ! (i + 1)]) (rev [0..<23]) alive)"

subsection \<open>The iterations\<close>

definition put :: "nat \<Rightarrow> bytes \<Rightarrow> bytes \<Rightarrow> bytes" where
  "put a bs mem = take a mem @ bs @ drop (a + length bs) mem"

definition set_packet8 :: "nat \<Rightarrow> bytes \<Rightarrow> u32 list \<Rightarrow> u32 list" where
  "set_packet8 g bs ib = ib[2 * g := le32 bs, 2 * g + 1 := le32 (drop 4 bs)]"

record iter_state =
  it_mem :: bytes
  it_encp :: "nat list"
  it_regs :: "u32 stream_regs"
  it_ib :: "u32 list"
  it_block_out :: "u32 list"
  it_stream_out :: "u32 list"

text \<open>What is in the local buffers before; \<open>j_rows\<close> for the local buffer of each call of
  \<open>block_decypher_group\<close>.\<close>

record junk =
  j_stream_in :: "u32 list"
  j_regs :: "u32 stream_regs"
  j_ib :: "u32 list"
  j_block_out :: "u32 list"
  j_stream_out :: "u32 list"
  j_rows :: "nat \<Rightarrow> u32 list list"

text \<open>ITER 0.\<close>

definition iter_0 :: "csa_key_t \<Rightarrow> gpkt list \<Rightarrow> nat list \<Rightarrow> junk \<Rightarrow> bytes \<Rightarrow> iter_state" where
  "iter_0 k gs alive J mem =
     (let encp = map (\<lambda>g. g_pkt g + g_offset g) gs;
          stream_in = fold (\<lambda>g tab. FFTABLEIN tab g (take 8 (drop (encp ! g) mem))) [0..<length gs] (j_stream_in J)
      in \<lparr>it_mem = mem, it_encp = encp,
          it_regs = stream_cypher_group_init (j_regs J) (k_iA_g k) (k_iB_g k) stream_in,
          it_ib = fold (\<lambda>g. set_packet8 g (take 8 (drop (encp ! g) mem))) [0..<alive ! 0] (j_ib J),
          it_block_out = j_block_out J, it_stream_out = j_stream_out J\<rparr>)"

text \<open>The body of the loop \<open>ITER 1..N-1\<close>.\<close>

definition iter_body :: "csa_key_t \<Rightarrow> gpkt list \<Rightarrow> nat list \<Rightarrow> junk \<Rightarrow> nat \<Rightarrow> iter_state \<Rightarrow> iter_state" where
  "iter_body k gs alive J iter st =
     (let block_out = block_decypher_group (k_kkmulti k) (it_ib st) (it_block_out st) (alive ! (iter - 1)) (j_rows J iter);
          (regs, stream_out) = stream_cypher_group_normal (it_regs st) (it_stream_out st);
          encp = it_encp st;
          ib = fold (\<lambda>g ib. let ib = set_packet8 g (FFTABLEOUT stream_out g) ib
                            in set_packet8 g (xorb (packet8 ib g) (take 8 (drop (encp ! g + 8) (it_mem st)))) ib)
                 [0..<alive ! iter] (it_ib st);
          mem = fold (\<lambda>g. put (encp ! g) (xorb (packet8 ib g) (packet8 block_out g))) [0..<alive ! iter] (it_mem st);
          mem = fold (\<lambda>g. put (encp ! g) (packet8 block_out g)) [alive ! iter..<alive ! (iter - 1)] mem;
          mem = fold (\<lambda>g mem. put (encp ! g + 8)
                        (FFTABLEOUTXORNBY (g_residue (gs ! g)) (take (g_residue (gs ! g)) (drop (encp ! g + 8) mem)) stream_out g) mem)
                  [alive ! iter..<alive ! (iter - 1)] mem
      in \<lparr>it_mem = mem, it_encp = fold (\<lambda>g encp. encp[g := encp ! g + 8]) [0..<alive ! iter] encp,
          it_regs = regs, it_ib = ib, it_block_out = block_out, it_stream_out = stream_out\<rparr>)"

function iter_loop :: "csa_key_t \<Rightarrow> gpkt list \<Rightarrow> nat list \<Rightarrow> junk \<Rightarrow> nat \<Rightarrow> iter_state \<Rightarrow> iter_state" where
  "iter_loop k gs alive J iter st =
     (if iter < 23 \<and> alive ! (iter - 1) > 0
      then iter_loop k gs alive J (iter + 1) (iter_body k gs alive J iter st) else st)"
  by pat_completeness auto

termination by (relation "measure (\<lambda>(k, gs, alive, J, iter, st). 23 - iter)") auto

declare iter_loop.simps [simp del]

text \<open>ITER 23.\<close>

definition iter_23 :: "csa_key_t \<Rightarrow> nat list \<Rightarrow> junk \<Rightarrow> iter_state \<Rightarrow> bytes" where
  "iter_23 k alive J st =
     (let block_out = block_decypher_group (k_kkmulti k) (it_ib st) (it_block_out st) (alive ! 22) (j_rows J 23)
      in fold (\<lambda>g. put (it_encp st ! g) (packet8 block_out g)) [alive ! 23..<alive ! 22] (it_mem st))"

subsection \<open>The function\<close>

definition choose_key :: "csa_keys_t \<Rightarrow> int \<Rightarrow> csa_key_t" where
  "choose_key keys ev_od = (if ev_od = 0 then even_key keys else odd_key keys)"

text \<open>The result: the memory, the cluster and \<open>advanced\<close>.\<close>

definition decrypt_packets ::
  "csa_keys_t \<Rightarrow> junk \<Rightarrow> bytes \<Rightarrow> (nat \<times> nat) list \<Rightarrow> bytes \<times> (nat \<times> nat) list \<times> nat" where
  "decrypt_packets keys J mem cluster =
     (let (cluster, s) = scan_packets [] cluster (case cluster of [] \<Rightarrow> 0 | (st, _) # _ \<Rightarrow> st)
                           \<lparr>sc_mem = mem, sc_group = [], group_ev_od = -1, advanced = 0, can_advance = True\<rparr>;
          cluster = compact_ranges cluster
      in
      if sc_group s = [] then (sc_mem s, cluster, advanced s)
      else
        (let (gs, t23) = sort_step1 (sc_group s) 0 (int (length (sc_group s)) - 1);
             gs = sort_step2 t23 gs;
             alive = count_alive t23 gs;
             k = choose_key keys (group_ev_od s);
             st = iter_loop k gs alive J 1 (iter_0 k gs alive J (sc_mem s))
         in (iter_23 k alive J st, cluster, advanced s)))"

end
