(* ===== verification/DecryptSort.thy ===== *)
theory DecryptSort
  imports DecryptPackets "HOL-Library.Multiset"
begin

text \<open>
  The sorting of the group in \<open>decrypt_packets\<close>: both steps permute it, the packets with 23 blocks come
  first, the group ends in decreasing order of blocks, and \<open>alive ! i\<close> is the number of packets with more
  than \<open>i\<close> blocks, which are therefore the first ones.
\<close>

lemma mset_g_swap: "a < length gs \<Longrightarrow> b < length gs \<Longrightarrow> mset (g_swap a b gs) = mset gs"
  by (simp add: g_swap_def mset_swap)

lemma length_g_swap [simp]: "length (g_swap a b gs) = length gs"
  by (simp add: g_swap_def)

lemma nth_g_swap:
  "a < length gs \<Longrightarrow> b < length gs \<Longrightarrow>
     g_swap a b gs ! i = (if i = b then gs ! a else if i = a then gs ! b else gs ! i)"
  by (cases "i < length gs") (auto simp: g_swap_def nth_list_update)

subsection \<open>Step 1\<close>

lemma skip_t23_spec:
  "t \<le> length gs \<Longrightarrow> skip_t23 gs t \<le> length gs \<and> (\<forall>i. t \<le> i \<and> i < skip_t23 gs t \<longrightarrow> g_n (gs ! i) = 23) \<and>
     (skip_t23 gs t < length gs \<longrightarrow> g_n (gs ! skip_t23 gs t) \<noteq> 23)"
proof (induction gs t rule: skip_t23.induct)
  case (1 gs t)
  show ?case
  proof (cases "t < length gs \<and> g_n (gs ! t) = 23")
    case True
    then have e: "skip_t23 gs t = skip_t23 gs (t + 1)" by (subst skip_t23.simps) simp
    have "\<forall>i. t + 1 \<le> i \<and> i < skip_t23 gs (t + 1) \<longrightarrow> g_n (gs ! i) = 23"
      using "1.IH" [OF True] True by simp
    moreover have "t = i \<or> t + 1 \<le> i" if "t \<le> i" for i using that by linarith
    ultimately have "\<forall>i. t \<le> i \<and> i < skip_t23 gs (t + 1) \<longrightarrow> g_n (gs ! i) = 23"
      using True by blast
    then show ?thesis using "1.IH" [OF True] True unfolding e by simp
  next
    case False
    then have "skip_t23 gs t = t" by (subst skip_t23.simps) auto
    then show ?thesis using 1(2) False by auto
  qed
qed

lemma skip_tsmall_spec:
  "-1 \<le> t \<Longrightarrow> -1 \<le> skip_tsmall gs t \<and> (\<forall>i. skip_tsmall gs t < int i \<and> int i \<le> t \<longrightarrow> g_n (gs ! i) \<noteq> 23) \<and>
     (0 \<le> skip_tsmall gs t \<longrightarrow> g_n (gs ! nat (skip_tsmall gs t)) = 23)"
proof (induction gs t rule: skip_tsmall.induct)
  case (1 gs t)
  show ?case
  proof (cases "t \<ge> 0 \<and> g_n (gs ! nat t) \<noteq> 23")
    case True
    then have e: "skip_tsmall gs t = skip_tsmall gs (t - 1)" by (subst skip_tsmall.simps) simp
    have IH: "-1 \<le> skip_tsmall gs (t - 1) \<and>
        (\<forall>i. skip_tsmall gs (t - 1) < int i \<and> int i \<le> t - 1 \<longrightarrow> g_n (gs ! i) \<noteq> 23) \<and>
        (0 \<le> skip_tsmall gs (t - 1) \<longrightarrow> g_n (gs ! nat (skip_tsmall gs (t - 1))) = 23)"
      using "1.IH" [OF True] True by simp
    have "g_n (gs ! i) \<noteq> 23" if "skip_tsmall gs (t - 1) < int i" "int i \<le> t" for i
    proof (cases "int i = t")
      case True
      then have "nat t = i" by simp
      then show ?thesis using \<open>t \<ge> 0 \<and> g_n (gs ! nat t) \<noteq> 23\<close> by simp
    qed (use IH that in auto)
    then show ?thesis using IH unfolding e by blast
  next
    case False
    then have "skip_tsmall gs t = t" by (subst skip_tsmall.simps) auto
    then show ?thesis using 1(2) False by auto
  qed
qed

lemma sort_step1_spec:
  assumes "t \<le> length gs" "-1 \<le> ts" "ts < int (length gs)"
    "\<forall>i < t. g_n (gs ! i) = 23" "\<forall>i. ts < int i \<and> i < length gs \<longrightarrow> g_n (gs ! i) \<noteq> 23"
    "sort_step1 gs t ts = (gs', t')"
  shows "mset gs' = mset gs \<and> t' \<le> length gs' \<and> (\<forall>i < t'. g_n (gs' ! i) = 23) \<and>
    (\<forall>i. t' \<le> i \<and> i < length gs' \<longrightarrow> g_n (gs' ! i) \<noteq> 23)"
  using assms
proof (induction gs t ts rule: sort_step1.induct)
  case (1 gs t ts)
  define t1 where "t1 = skip_t23 gs t"
  define ts1 where "ts1 = skip_tsmall gs ts"
  note a = skip_t23_spec [OF 1(2), folded t1_def] skip_tsmall_spec [OF 1(3), of gs, folded ts1_def]
  have le: "ts1 \<le> ts" unfolding ts1_def by (rule skip_tsmall_le)
  have ge: "t \<le> t1" unfolding t1_def by (rule skip_t23_ge)
  have lo: "\<forall>i < t1. g_n (gs ! i) = 23" using 1(5) a(1) by (meson not_less)
  have hi: "\<forall>i. ts1 < int i \<and> i < length gs \<longrightarrow> g_n (gs ! i) \<noteq> 23" using 1(6) a(2) by (meson not_less)
  show ?case
  proof (cases "ts1 - int t1 < 1")
    case True
    then have r: "gs' = gs" "t' = t1"
      using 1(7) by (subst (asm) sort_step1.simps, simp add: t1_def [symmetric] ts1_def [symmetric])+
    have "ts1 \<noteq> int t1" if "t1 < length gs" using a that by auto
    then have "ts1 < int i" if "t1 \<le> i" "i < length gs" for i using True that by force
    then have "\<forall>i. t1 \<le> i \<and> i < length gs \<longrightarrow> g_n (gs ! i) \<noteq> 23" using hi by blast
    then show ?thesis using r lo a by simp
  next
    case False
    let ?gs = "g_swap t1 (nat ts1) gs"
    have b: "t1 < length gs" "nat ts1 < length gs" "t1 < nat ts1" "0 \<le> ts1" using False le 1(4) by linarith+
    have r: "sort_step1 ?gs (t1 + 1) (ts1 - 1) = (gs', t')"
      using 1(7) False by (subst (asm) sort_step1.simps, simp add: t1_def [symmetric] ts1_def [symmetric])
    have n: "g_n (gs ! t1) \<noteq> 23" "g_n (gs ! nat ts1) = 23" using a b by auto
    have lo': "\<forall>i < t1 + 1. g_n (?gs ! i) = 23" using lo n b by (auto simp: nth_g_swap less_Suc_eq)
    have hi': "\<forall>i. ts1 - 1 < int i \<and> i < length ?gs \<longrightarrow> g_n (?gs ! i) \<noteq> 23"
    proof (intro allI impI)
      fix i assume i: "ts1 - 1 < int i \<and> i < length ?gs"
      then have "i = nat ts1 \<or> ts1 < int i" by linarith
      then show "g_n (?gs ! i) \<noteq> 23" using hi n b i by (auto simp: nth_g_swap)
    qed
    have "mset gs' = mset ?gs \<and> t' \<le> length gs' \<and> (\<forall>i < t'. g_n (gs' ! i) = 23) \<and>
        (\<forall>i. t' \<le> i \<and> i < length gs' \<longrightarrow> g_n (gs' ! i) \<noteq> 23)"
      using "1.IH" [OF t1_def ts1_def False _ _ _ lo' hi' r] b by simp
    then show ?thesis using mset_g_swap b by simp
  qed
qed

subsection \<open>Step 2\<close>

abbreviation (input) swap_if :: "nat \<Rightarrow> nat \<Rightarrow> gpkt list \<Rightarrow> gpkt list" where
  "swap_if i j gs \<equiv> (if g_n (gs ! j) > g_n (gs ! i) then g_swap i j gs else gs)"

lemma inner_loop:
  assumes "m \<le> length gs" "i < m"
  shows "length (fold (\<lambda>j gs. swap_if i j gs) [i + 1..<m] gs) = length gs \<and>
    mset (fold (\<lambda>j gs. swap_if i j gs) [i + 1..<m] gs) = mset gs \<and>
    (\<forall>j. i < j \<and> j < m \<longrightarrow>
      g_n (fold (\<lambda>j gs. swap_if i j gs) [i + 1..<m] gs ! j) \<le> g_n (fold (\<lambda>j gs. swap_if i j gs) [i + 1..<m] gs ! i)) \<and>
    (\<forall>k < i. fold (\<lambda>j gs. swap_if i j gs) [i + 1..<m] gs ! k = gs ! k) \<and>
    (\<forall>c. (\<forall>k. i \<le> k \<and> k < length gs \<longrightarrow> g_n (gs ! k) \<le> c) \<longrightarrow>
      (\<forall>k. i \<le> k \<and> k < length gs \<longrightarrow> g_n (fold (\<lambda>j gs. swap_if i j gs) [i + 1..<m] gs ! k) \<le> c))"
  using assms(2,1)
proof (induction m)
  case (Suc m)
  show ?case
  proof (cases "i = m")
    case False
    then have im: "i < m" using Suc.prems by simp
    define f where "f = fold (\<lambda>j gs. swap_if i j gs) [i + 1..<m] gs"
    have e: "fold (\<lambda>j gs. swap_if i j gs) [i + 1..<Suc m] gs = swap_if i m f" using im by (simp add: f_def)
    note IH = Suc.IH [OF im Suc_leD [OF Suc.prems(2)], folded f_def]
    have len: "length f = length gs" using IH by blast
    show ?thesis
    proof (cases "g_n (f ! m) > g_n (f ! i)")
      case True
      have il: "i < length f" and ml: "m < length f" using im Suc.prems(2) len by simp_all
      have sw: "g_swap i m f ! k = (if k = m then f ! i else if k = i then f ! m else f ! k)" for k
        by (rule nth_g_swap [OF il ml])
      have "g_n (g_swap i m f ! j) \<le> g_n (g_swap i m f ! i)" if "i < j" "j < Suc m" for j
      proof -
        have "j = m \<or> g_n (f ! j) \<le> g_n (f ! i)" using IH that less_Suc_eq by blast
        then show ?thesis using True that im by (auto simp: sw)
      qed
      moreover have "g_n (g_swap i m f ! k) \<le> c"
        if "\<forall>k. i \<le> k \<and> k < length gs \<longrightarrow> g_n (gs ! k) \<le> c" "i \<le> k \<and> k < length gs" for c k
      proof -
        have b: "\<forall>k. i \<le> k \<and> k < length gs \<longrightarrow> g_n (f ! k) \<le> c" using IH that(1) by blast
        have "i < length gs" "m < length gs" using il ml len by simp_all
        then show ?thesis using b that(2) im by (simp add: sw)
      qed
      moreover have "\<forall>k < i. g_swap i m f ! k = gs ! k" using IH im by (auto simp: sw)
      moreover have "mset (g_swap i m f) = mset gs" using mset_g_swap [OF il ml] IH by simp
      ultimately show ?thesis unfolding e using True len by simp
    next
      case False
      have "g_n (f ! j) \<le> g_n (f ! i)" if "i < j" "j < Suc m" for j
      proof (cases "j = m")
        case False
        then show ?thesis using IH that by simp
      qed (use False in simp)
      then show ?thesis unfolding e using IH False by simp
    qed
  qed simp
qed simp

lemma outer_loop:
  assumes "m \<le> length gs" "t \<le> m"
  shows "length (fold (\<lambda>i. fold (\<lambda>j gs. swap_if i j gs) [i + 1..<length gs]) [t..<m] gs) = length gs \<and>
    mset (fold (\<lambda>i. fold (\<lambda>j gs. swap_if i j gs) [i + 1..<length gs]) [t..<m] gs) = mset gs \<and>
    (\<forall>k < t. fold (\<lambda>i. fold (\<lambda>j gs. swap_if i j gs) [i + 1..<length gs]) [t..<m] gs ! k = gs ! k) \<and>
    (\<forall>p q. t \<le> p \<and> p < m \<and> p < q \<and> q < length gs \<longrightarrow>
      g_n (fold (\<lambda>i. fold (\<lambda>j gs. swap_if i j gs) [i + 1..<length gs]) [t..<m] gs ! q) \<le>
      g_n (fold (\<lambda>i. fold (\<lambda>j gs. swap_if i j gs) [i + 1..<length gs]) [t..<m] gs ! p))"
  using assms(2,1)
proof (induction m)
  case (Suc m)
  show ?case
  proof (cases "t = Suc m")
    case False
    then have tm: "t \<le> m" using Suc.prems by simp
    have ml: "m < length gs" using Suc.prems by simp
    define f where "f = fold (\<lambda>i. fold (\<lambda>j gs. swap_if i j gs) [i + 1..<length gs]) [t..<m] gs"
    define g where "g = fold (\<lambda>j gs. swap_if m j gs) [m + 1..<length gs] f"
    note IH = Suc.IH [OF tm Suc_leD [OF Suc.prems(2)], folded f_def]
    have e: "fold (\<lambda>i. fold (\<lambda>j gs. swap_if i j gs) [i + 1..<length gs]) [t..<Suc m] gs = g"
      using tm by (simp add: g_def f_def)
    have len: "length f = length gs" using IH by blast
    note I = inner_loop [of "length gs" f m, unfolded len, OF order_refl ml, folded g_def]
    have "g_n (g ! q) \<le> g_n (g ! p)" if pq: "t \<le> p" "p < Suc m" "p < q" "q < length gs" for p q
    proof (cases "p = m")
      case True
      then show ?thesis using I pq by simp
    next
      case False
      then have pm: "p < m" using pq by simp
      have "\<forall>k. m \<le> k \<and> k < length gs \<longrightarrow> g_n (f ! k) \<le> g_n (f ! p)"
        using IH pq(1) pm less_le_trans by blast
      then have "\<forall>k. m \<le> k \<and> k < length gs \<longrightarrow> g_n (g ! k) \<le> g_n (f ! p)" using I by blast
      moreover have "g ! p = f ! p" using I pm by simp
      moreover have "g_n (f ! q) \<le> g_n (f ! p)" using IH pq pm by blast
      moreover have "q < m \<Longrightarrow> g ! q = f ! q" using I by simp
      ultimately show ?thesis using pq(4) not_less [of q m] by auto
    qed
    then show ?thesis unfolding e using I IH tm by simp
  qed simp
qed simp

lemma sort_step2_spec:
  assumes "t \<le> length gs"
  shows "length (sort_step2 t gs) = length gs" "mset (sort_step2 t gs) = mset gs"
    "k < t \<Longrightarrow> sort_step2 t gs ! k = gs ! k"
    "t \<le> p \<Longrightarrow> p < q \<Longrightarrow> q < length gs \<Longrightarrow> g_n (sort_step2 t gs ! q) \<le> g_n (sort_step2 t gs ! p)"
  using outer_loop [OF order_refl assms] unfolding sort_step2_def by auto

subsection \<open>The counts\<close>

lemma integrate_counts:
  assumes "m < length xs"
  shows "length (fold (\<lambda>i xs. xs[i := xs ! i + xs ! (i + 1)]) (rev [0..<m]) xs) = length xs \<and>
    (\<forall>i. m \<le> i \<longrightarrow> fold (\<lambda>i xs. xs[i := xs ! i + xs ! (i + 1)]) (rev [0..<m]) xs ! i = xs ! i) \<and>
    (\<forall>i \<le> m. fold (\<lambda>i xs. xs[i := xs ! i + xs ! (i + 1)]) (rev [0..<m]) xs ! i = sum ((!) xs) {i..<m} + (xs ! m :: nat))"
  using assms
proof (induction m arbitrary: xs)
  case (Suc m)
  define ys where "ys = xs[m := xs ! m + xs ! (m + 1)]"
  define f where "f = fold (\<lambda>i xs. xs[i := xs ! i + xs ! (i + 1)]) (rev [0..<m]) ys"
  have e: "fold (\<lambda>i xs. xs[i := xs ! i + xs ! (i + 1)]) (rev [0..<Suc m]) xs = f" by (simp add: f_def ys_def)
  have IH: "length f = length ys \<and> (\<forall>i. m \<le> i \<longrightarrow> f ! i = ys ! i) \<and> (\<forall>i \<le> m. f ! i = sum ((!) ys) {i..<m} + ys ! m)"
    using Suc.IH [of ys] Suc.prems by (simp add: f_def ys_def)
  have s: "sum ((!) ys) {i..<m} = sum ((!) xs) {i..<m}" for i
    by (rule sum.cong) (simp_all add: ys_def)
  have "f ! i = sum ((!) xs) {i..<Suc m} + xs ! Suc m" if "i \<le> Suc m" for i
  proof (cases "i = Suc m")
    case True
    then show ?thesis using IH by (simp add: ys_def)
  next
    case False
    then show ?thesis using IH that Suc.prems s [of i] by (simp add: ys_def)
  qed
  then show ?case unfolding e using IH by (simp add: ys_def)
qed simp

lemma nth_count:
  assumes "\<forall>g \<in> set gs. 1 \<le> g_n g \<and> g_n g \<le> length xs"
  shows "length (fold (\<lambda>g xs. xs[g_n g - 1 := xs ! (g_n g - 1) + 1]) gs xs) = length xs \<and>
    (v < length xs \<longrightarrow> fold (\<lambda>g xs. xs[g_n g - 1 := xs ! (g_n g - 1) + 1]) gs xs ! v =
      xs ! v + length (filter (\<lambda>g. g_n g = v + 1) gs))"
  using assms
proof (induction gs arbitrary: xs)
  case (Cons g gs)
  have n: "1 \<le> g_n g" "g_n g - 1 < length xs" using Cons.prems by auto
  have IH: "length (fold (\<lambda>g xs. xs[g_n g - 1 := xs ! (g_n g - 1) + 1]) gs ys) = length ys \<and>
    (v < length ys \<longrightarrow> fold (\<lambda>g xs. xs[g_n g - 1 := xs ! (g_n g - 1) + 1]) gs ys ! v =
      ys ! v + length (filter (\<lambda>g. g_n g = v + 1) gs))" if "length ys = length xs" for ys
    using that Cons.prems by (intro Cons.IH) simp
  have "g_n g - 1 = v \<longleftrightarrow> g_n g = v + 1" using n(1) by auto
  then show ?case using IH [of "xs[g_n g - 1 := xs ! (g_n g - 1) + 1]"] n by (simp add: nth_list_update)
qed simp

lemma sum_filter_counts:
  "sum (\<lambda>v. length (filter (\<lambda>g. f g = v + 1) gs)) {i..<m} = length (filter (\<lambda>g. i < f g \<and> f g \<le> m) gs)" for f :: "'a \<Rightarrow> nat"
proof (induction gs)
  case (Cons g gs)
  have "sum (\<lambda>v. length (filter (\<lambda>g. f g = v + 1) (g # gs))) {i..<m} =
      sum (\<lambda>v. (if v + 1 = f g then 1 else 0) + length (filter (\<lambda>g. f g = v + 1) gs)) {i..<m}"
    by (rule sum.cong) auto
  also have "\<dots> = sum (\<lambda>v. if v + 1 = f g then 1 else 0) {i..<m} + length (filter (\<lambda>g. i < f g \<and> f g \<le> m) gs)"
    using Cons.IH by (simp add: sum.distrib)
  also have "sum (\<lambda>v. if v + 1 = f g then 1 else 0) {i..<m} = (if i < f g \<and> f g \<le> m then 1 else 0 :: nat)"
  proof (cases "f g")
    case (Suc n)
    then have "sum (\<lambda>v. if v + 1 = f g then 1 else 0) {i..<m} = sum (\<lambda>v. if v = n then 1 else 0 :: nat) {i..<m}"
      by (intro sum.cong) auto
    then show ?thesis using Suc by (simp add: sum.delta)
  qed simp
  finally show ?case by simp
qed simp

lemma alive_spec:
  assumes "\<forall>g \<in> set gs. 1 \<le> g_n g \<and> g_n g \<le> 23" "t \<le> length gs" "\<forall>i < t. g_n (gs ! i) = 23"
    "\<forall>i. t \<le> i \<and> i < length gs \<longrightarrow> g_n (gs ! i) \<noteq> 23"
  shows "i < 24 \<Longrightarrow> count_alive t gs ! i = length (filter (\<lambda>g. i < g_n g) gs)"
proof -
  define xs where "xs = fold (\<lambda>g alive. alive[g_n g - 1 := alive ! (g_n g - 1) + 1]) (drop t gs) ((replicate 24 0)[23 - 1 := t])"
  have b: "\<forall>g \<in> set (drop t gs). 1 \<le> g_n g \<and> g_n g \<le> length ((replicate 24 0)[23 - 1 := t])"
    using assms(1) by (fastforce dest: in_set_dropD)
  have t23: "\<forall>g \<in> set (take t gs). g_n g = 23" using assms(2,3) by (auto simp: in_set_conv_nth)
  have d23: "\<forall>g \<in> set (drop t gs). g_n g \<noteq> 23" using assms(4) by (auto simp: in_set_conv_nth)
  have f: "filter P gs = filter P (take t gs) @ filter P (drop t gs)" for P
    by (metis append_take_drop_id filter_append)
  have x: "xs ! v = length (filter (\<lambda>g. g_n g = v + 1) gs)" if v: "v < 24" for v
  proof -
    have "xs ! v = ((replicate 24 0)[23 - 1 := t]) ! v + length (filter (\<lambda>g. g_n g = v + 1) (drop t gs))"
      using nth_count [OF b, of v] v by (simp add: xs_def)
    moreover have "length (filter (\<lambda>g. g_n g = v + 1) (take t gs)) = (if v = 22 then t else 0)"
    proof -
      have "filter (\<lambda>g. g_n g = v + 1) (take t gs) = (if v = 22 then take t gs else [])"
        using t23 by (auto simp: filter_id_conv filter_empty_conv)
      then show ?thesis using assms(2) by simp
    qed
    ultimately show ?thesis unfolding f [of "\<lambda>g. g_n g = v + 1"] using v by (simp add: nth_list_update)
  qed
  have lx: "length xs = 24" using nth_count [OF b, of 0] by (simp add: xs_def)
  assume i: "i < 24"
  have c: "count_alive t gs = fold (\<lambda>i xs. xs[i := xs ! i + xs ! (i + 1)]) (rev [0..<23]) xs"
    by (simp add: count_alive_def Let_def xs_def)
  have "count_alive t gs ! i = sum ((!) xs) {i..<23} + xs ! 23"
    unfolding c using integrate_counts [of 23 xs] lx i by simp
  also have "xs ! 23 = 0" using x [of 23] assms(1) by (auto simp: filter_empty_conv)
  also have "sum ((!) xs) {i..<23} = sum (\<lambda>v. length (filter (\<lambda>g. g_n g = v + 1) gs)) {i..<23}"
    by (rule sum.cong) (simp_all add: x)
  also have "\<dots> = length (filter (\<lambda>g. i < g_n g \<and> g_n g \<le> 23) gs)" by (rule sum_filter_counts)
  also have "filter (\<lambda>g. i < g_n g \<and> g_n g \<le> 23) gs = filter (\<lambda>g. i < g_n g) gs"
    using assms(1) by (intro filter_cong) auto
  finally show ?thesis by simp
qed

lemma filter_prefix:
  assumes "\<And>p q. p < q \<Longrightarrow> q < length gs \<Longrightarrow> f (gs ! q) \<le> (f (gs ! p) :: nat)"
  shows "k < length gs \<Longrightarrow> k < length (filter (\<lambda>g. i < f g) gs) \<longleftrightarrow> i < f (gs ! k)"
  using assms
proof (induction gs arbitrary: k)
  case (Cons g gs)
  have d: "f (gs ! q) \<le> f (gs ! p)" if "p < q" "q < length gs" for p q
    using Cons.prems(2) [of "Suc p" "Suc q"] that by simp
  have g: "f (gs ! q) \<le> f g" if "q < length gs" for q
    using Cons.prems(2) [of 0 "Suc q"] that by simp
  show ?case
  proof (cases "i < f g")
    case True
    then show ?thesis using Cons.IH [OF _ d] Cons.prems(1) by (cases k) simp_all
  next
    case False
    then have "filter (\<lambda>g. i < f g) gs = []"
      using g by (auto simp: filter_empty_conv in_set_conv_nth) (meson le_less_trans not_less)
    moreover have "\<not> i < f ((g # gs) ! k)"
    proof (cases k)
      case (Suc n)
      then show ?thesis using False g [of n] Cons.prems(1) by simp
    qed (use False in simp)
    ultimately show ?thesis using False by simp
  qed
qed simp

text \<open>Both steps and the counts together.\<close>

lemma sorted_group:
  assumes "\<forall>g \<in> set gs. 1 \<le> g_n g \<and> g_n g \<le> 23" "sort_step1 gs 0 (int (length gs) - 1) = (gs1, t)"
  defines "gs2 \<equiv> sort_step2 t gs1"
  shows "mset gs2 = mset gs"
    "i < 24 \<Longrightarrow> k < length gs \<Longrightarrow> k < count_alive t gs2 ! i \<longleftrightarrow> i < g_n (gs2 ! k)"
    "i < 24 \<Longrightarrow> count_alive t gs2 ! i \<le> length gs"
proof -
  have s1: "mset gs1 = mset gs \<and> t \<le> length gs1 \<and> (\<forall>i < t. g_n (gs1 ! i) = 23) \<and>
      (\<forall>i. t \<le> i \<and> i < length gs1 \<longrightarrow> g_n (gs1 ! i) \<noteq> 23)"
    by (rule sort_step1_spec [OF _ _ _ _ _ assms(2)]) auto
  then have t: "t \<le> length gs1" by simp
  note s2 = sort_step2_spec [OF t, folded gs2_def]
  show m: "mset gs2 = mset gs" using s1 s2(2) by simp
  then have len: "length gs2 = length gs" by (rule mset_eq_length)
  have len1: "length gs1 = length gs" using s2(1) len by simp
  have set: "set gs2 = set gs" using m by (rule mset_eq_setD)
  have n: "\<forall>g \<in> set gs2. 1 \<le> g_n g \<and> g_n g \<le> 23" using assms(1) set by simp
  have lo: "\<forall>i < t. g_n (gs2 ! i) = 23" using s2(3) s1 by simp
  have "set (drop t gs2) = set (drop t gs1)"
  proof -
    have "take t gs2 = take t gs1" using s2(1,3) t by (intro nth_equalityI) auto
    then have "mset (drop t gs2) = mset (drop t gs1)"
      using s2(2) by (metis append_take_drop_id mset_append add_left_cancel)
    then show ?thesis by (rule mset_eq_setD)
  qed
  moreover have "\<forall>g \<in> set (drop t gs1). g_n g \<noteq> 23" using s1 by (auto simp: in_set_conv_nth)
  ultimately have d: "\<forall>g \<in> set (drop t gs2). g_n g \<noteq> 23" by simp
  have hi: "\<forall>i. t \<le> i \<and> i < length gs2 \<longrightarrow> g_n (gs2 ! i) \<noteq> 23"
  proof (intro allI impI)
    fix i assume "t \<le> i \<and> i < length gs2"
    then have "drop t gs2 ! (i - t) = gs2 ! i" "i - t < length (drop t gs2)" by auto
    then show "g_n (gs2 ! i) \<noteq> 23" using d nth_mem by metis
  qed
  have a: "count_alive t gs2 ! i = length (filter (\<lambda>g. i < g_n g) gs2)" if "i < 24"
    using alive_spec [OF n _ lo hi that] t len len1 by simp
  have desc: "g_n (gs2 ! q) \<le> g_n (gs2 ! p)" if "p < q" "q < length gs2" for p q
  proof (cases "t \<le> p")
    case True
    then show ?thesis using s2(4) that s2(1) by simp
  next
    case False
    then show ?thesis using lo n that nth_mem [OF that(2)] by auto
  qed
  show "k < count_alive t gs2 ! i \<longleftrightarrow> i < g_n (gs2 ! k)" if "i < 24" "k < length gs"
    unfolding a [OF that(1)] by (rule filter_prefix [where f = g_n]) (simp_all add: desc that(2) len)
  show "count_alive t gs2 ! i \<le> length gs" if "i < 24" unfolding a [OF that] using len length_filter_le [of _ gs2] by simp
qed

end
