(* ===== verification/DecryptRef.thy ===== *)
theory DecryptRef
  imports DecryptSort
begin

text \<open>
  \<open>decrypt_packets\<close> against its specification: the packets that a simple walk over the cluster selects are
  descrambled, each on its own, by the reference of theory \<open>Csa\<close>, and nothing else in the memory changes.

  The proof follows the parts of the code. The search is related to the walk by induction over its
  loop; sorting permutes the group and puts it in decreasing order of blocks, so that the packets with more
  than \<open>i\<close> blocks are the first \<open>alive ! i\<close>; and every iteration keeps, for every packet of the group, the
  relation between its bytes and the reference.
\<close>

subsection \<open>Packets in the memory\<close>

definition pk :: "nat \<Rightarrow> bytes \<Rightarrow> bytes" where
  "pk a mem = take TS_SIZE (drop a mem)"

definition frame_at :: "nat \<Rightarrow> bytes \<Rightarrow> bytes \<Rightarrow> bool" where
  "frame_at a mem mem' \<longleftrightarrow> length mem' = length mem \<and> (\<forall>x. \<not> (a \<le> x \<and> x < a + TS_SIZE) \<longrightarrow> mem' ! x = mem ! x)"

definition apart :: "nat \<Rightarrow> nat \<Rightarrow> bool" where
  "apart a b \<longleftrightarrow> a + TS_SIZE \<le> b \<or> b + TS_SIZE \<le> a"

lemma apart_sym: "apart a b \<Longrightarrow> apart b a"
  by (auto simp: apart_def)

lemma length_pk [simp]: "length (pk a mem) = min TS_SIZE (length mem - a)"
  by (simp add: pk_def min.commute)

lemma nth_pk: "i < TS_SIZE \<Longrightarrow> a + i < length mem \<Longrightarrow> pk a mem ! i = mem ! (a + i)"
  by (simp add: pk_def)

lemma pk_frame: "frame_at a mem mem' \<Longrightarrow> apart a b \<Longrightarrow> pk b mem' = pk b mem"
  by (rule nth_equalityI) (auto simp: frame_at_def apart_def nth_pk)

lemma frame_refl [simp]: "frame_at a mem mem"
  by (simp add: frame_at_def)

lemma frame_trans: "frame_at a m1 m2 \<Longrightarrow> frame_at a m2 m3 \<Longrightarrow> frame_at a m1 m3"
  by (simp add: frame_at_def)

lemma length_put: "a + length bs \<le> length mem \<Longrightarrow> length (put a bs mem) = length mem"
  by (simp add: put_def)

lemma nth_put: "a + length bs \<le> length mem \<Longrightarrow> i < length mem \<Longrightarrow>
    put a bs mem ! i = (if a \<le> i \<and> i < a + length bs then bs ! (i - a) else mem ! i)"
  by (auto simp: put_def nth_append)

lemma frame_put:
  assumes "o1 + length bs \<le> TS_SIZE" "a + TS_SIZE \<le> length mem"
  shows "frame_at a mem (put (a + o1) bs mem)"
proof -
  have "put (a + o1) bs mem ! x = mem ! x" if "\<not> (a \<le> x \<and> x < a + TS_SIZE)" for x
  proof (cases "x < length mem")
    case True
    then show ?thesis using that assms by (auto simp: nth_put)
  next
    case False
    then have "drop (a + o1 + length bs) mem ! (x - (a + o1 + length bs)) = mem ! x"
      and "\<not> x - (a + o1) < length bs"
      using assms by auto
    then show ?thesis using False assms by (simp add: put_def nth_append)
  qed
  then show ?thesis using assms by (simp add: frame_at_def length_put)
qed

lemma pk_put:
  assumes "o1 + length bs \<le> TS_SIZE" "a + TS_SIZE \<le> length mem"
  shows "pk a (put (a + o1) bs mem) = put o1 bs (pk a mem)"
proof (rule nth_equalityI)
  show "length (pk a (put (a + o1) bs mem)) = length (put o1 bs (pk a mem))"
    using assms by (simp add: length_put)
  fix i assume "i < length (pk a (put (a + o1) bs mem))"
  then have "i < 188" by simp
  then show "pk a (put (a + o1) bs mem) ! i = put o1 bs (pk a mem) ! i"
    using assms by (auto simp: nth_pk nth_put length_put)
qed

text \<open>A loop whose bodies work on one packet each.\<close>

lemma fold_packets:
  assumes loc: "\<And>g mem. g \<in> set ks \<Longrightarrow> length mem = L \<Longrightarrow> frame_at (A g) mem (F g mem)"
    and eff: "\<And>g mem. g \<in> set ks \<Longrightarrow> length mem = L \<Longrightarrow> pk (A g) (F g mem) = G g (pk (A g) mem)"
    and ap: "\<And>g h. g \<in> set ks \<Longrightarrow> h \<in> insert k (set ks) \<Longrightarrow> g \<noteq> h \<Longrightarrow> apart (A g) (A h)"
    and d: "distinct ks" and len: "length mem = L"
  shows "pk (A k) (fold F ks mem) = (if k \<in> set ks then G k (pk (A k) mem) else pk (A k) mem)"
    and "length (fold F ks mem) = L"
    and "(\<And>g. g \<in> set ks \<Longrightarrow> \<not> (A g \<le> x \<and> x < A g + TS_SIZE)) \<Longrightarrow> fold F ks mem ! x = mem ! x"
proof -
  have l: "length (F g mem) = L" if "g \<in> set ks" "length mem = L" for g mem
    using loc [OF that] that(2) by (simp add: frame_at_def)
  have "pk (A k) (fold F ls mem) = (if k \<in> set ls then G k (pk (A k) mem) else pk (A k) mem) \<and>
      length (fold F ls mem) = L \<and>
      ((\<forall>g \<in> set ls. \<not> (A g \<le> x \<and> x < A g + TS_SIZE)) \<longrightarrow> fold F ls mem ! x = mem ! x)"
    if "distinct ls" "set ls \<subseteq> set ks" "length mem = L" for ls
    using that
  proof (induction ls arbitrary: mem)
    case (Cons g ls)
    have g: "g \<in> set ks" using Cons.prems by simp
    have pkg: "pk (A k) (F g mem) = (if k = g then G k (pk (A k) mem) else pk (A k) mem)"
      using eff [OF g Cons.prems(3)] pk_frame [OF loc [OF g Cons.prems(3)] ap [OF g _]] by auto
    have x: "\<not> (A g \<le> x \<and> x < A g + TS_SIZE) \<Longrightarrow> F g mem ! x = mem ! x"
      using loc [OF g Cons.prems(3)] by (simp add: frame_at_def)
    have IH: "pk (A k) (fold F ls (F g mem)) = (if k \<in> set ls then G k (pk (A k) (F g mem)) else pk (A k) (F g mem)) \<and>
      length (fold F ls (F g mem)) = L \<and>
      ((\<forall>g \<in> set ls. \<not> (A g \<le> x \<and> x < A g + TS_SIZE)) \<longrightarrow> fold F ls (F g mem) ! x = F g mem ! x)"
      using Cons.prems l [OF g Cons.prems(3)] by (intro Cons.IH) simp_all
    then show ?case using pkg x Cons.prems(1) by auto
  qed simp
  from this [OF d subset_refl len]
  show "pk (A k) (fold F ks mem) = (if k \<in> set ks then G k (pk (A k) mem) else pk (A k) mem)"
    "length (fold F ks mem) = L"
    "(\<And>g. g \<in> set ks \<Longrightarrow> \<not> (A g \<le> x \<and> x < A g + TS_SIZE)) \<Longrightarrow> fold F ks mem ! x = mem ! x"
    by auto
qed

subsection \<open>One packet through the iterations\<close>

definition payload :: "gpkt \<Rightarrow> bytes \<Rightarrow> bytes" where
  "payload gp p = drop (g_offset gp) p"

text \<open>Packet \<open>p0\<close> of the group before iteration \<open>i\<close>: \<open>s\<close> is its stream state, \<open>e\<close> its \<open>encp\<close>, \<open>ib\<close> its block
  in \<open>ib\<close>, and \<open>p\<close> its bytes. Before block \<open>i - 1\<close> the bytes are done, and what the reference makes of the rest
  completes them.\<close>

definition slot_inv :: "csa_key_t \<Rightarrow> gpkt \<Rightarrow> bytes \<Rightarrow> nat \<Rightarrow> csa_regs \<Rightarrow> nat \<Rightarrow> bytes \<Rightarrow> bytes \<Rightarrow> bool" where
  "slot_inv k gp p0 i s e ib p \<longleftrightarrow>
     (if i \<le> g_n gp then
        e = g_pkt gp + g_offset gp + 8 * (i - 1) \<and>
        (\<exists>D. length D = 8 * (i - 1) \<and> p = take (g_offset gp) p0 @ D @ drop (8 * (i - 1)) (payload gp p0) \<and>
          D @ csa_chain (k_kk k) s ib (drop (8 * i) (payload gp p0)) = csa_decrypt (k_ck k) (k_kk k) (payload gp p0))
      else p = take (g_offset gp) p0 @ csa_decrypt (k_ck k) (k_kk k) (payload gp p0))"

definition gpkt_ok :: "gpkt \<Rightarrow> bool" where
  "gpkt_ok gp \<longleftrightarrow> g_offset gp \<le> TS_SIZE \<and> 1 \<le> g_n gp \<and> g_n gp \<le> 23 \<and>
     TS_SIZE - g_offset gp = 8 * g_n gp + g_residue gp \<and> g_residue gp < 8 \<and> (g_n gp = 23 \<longrightarrow> g_residue gp = 0)"

lemma put_Nil [simp]: "put n [] xs = xs"
  by (simp add: put_def)

lemma xorb_Nil [simp]: "xorb [] ys = []"
  by (simp add: xorb_def)

lemma put_append: "length A = n \<Longrightarrow> put n bs (A @ Q) = A @ bs @ drop (length bs) Q"
  by (simp add: put_def)

lemma length_payload: "gpkt_ok gp \<Longrightarrow> length p0 = TS_SIZE \<Longrightarrow> length (payload gp p0) = 8 * g_n gp + g_residue gp"
  by (simp add: payload_def gpkt_ok_def)

lemma slot_start:
  assumes "gpkt_ok gp" "length p0 = TS_SIZE"
  shows "slot_inv k gp p0 1 (csa_init (k_ck k) (take 8 (payload gp p0))) (g_pkt gp + g_offset gp)
    (take 8 (payload gp p0)) p0"
proof -
  have "8 \<le> length (payload gp p0)" "1 \<le> g_n gp"
    using assms length_payload [OF assms] by (simp_all add: gpkt_ok_def)
  then show ?thesis by (simp add: slot_inv_def csa_decrypt_def) (simp add: payload_def)
qed

text \<open>The next scrambled block is where \<open>encp + 8\<close> points.\<close>

lemma slot_next_block:
  assumes "slot_inv k gp p0 i s e ib p" "i \<le> g_n gp" "1 \<le> i" "gpkt_ok gp" "length p0 = TS_SIZE"
  shows "drop (g_offset gp + 8 * (i - 1) + 8) p = drop (8 * i) (payload gp p0)" "length p = TS_SIZE"
proof -
  obtain D where D: "length D = 8 * (i - 1)" "p = take (g_offset gp) p0 @ D @ drop (8 * (i - 1)) (payload gp p0)"
    using assms(1,2) by (auto simp: slot_inv_def)
  have l: "length (take (g_offset gp) p0) = g_offset gp" using assms(4,5) by (simp add: gpkt_ok_def)
  have i: "8 + 8 * (i - 1) = 8 * i" using assms(3) by simp
  have "drop (g_offset gp + (8 * (i - 1) + 8)) p = drop (8 * (i - 1) + 8) (D @ drop (8 * (i - 1)) (payload gp p0))"
    unfolding D(2) drop_drop [symmetric] add.commute [of "g_offset gp"] using l by simp
  also have "\<dots> = drop 8 (drop (8 * (i - 1)) (payload gp p0))"
    using D(1) by (simp add: add.commute)
  also have "\<dots> = drop (8 * i) (payload gp p0)" by (simp only: drop_drop i)
  finally show "drop (g_offset gp + 8 * (i - 1) + 8) p = drop (8 * i) (payload gp p0)" by (simp add: add.assoc)
  have "8 * (i - 1) \<le> length (payload gp p0)" using length_payload [OF assms(4,5)] assms(2) by simp
  moreover have "length (payload gp p0) = TS_SIZE - g_offset gp" using assms(5) by (simp add: payload_def)
  moreover have "g_offset gp \<le> TS_SIZE" using assms(4) by (simp add: gpkt_ok_def)
  ultimately show "length p = TS_SIZE" using D l by simp
qed

lemma slot_alive:
  assumes "slot_inv k gp p0 i s e ib p" "i < g_n gp" "1 \<le> i" "gpkt_ok gp" "length p0 = TS_SIZE"
    "csa_stream s = (st, s')" "length ib = 8" "ib' = xorb st (take 8 (drop (8 * i) (payload gp p0)))"
    "p' = put (g_offset gp + 8 * (i - 1)) (xorb ib' (block_decrypt (k_kk k) ib)) p"
  shows "slot_inv k gp p0 (i + 1) s' (e + 8) ib' p'"
proof -
  obtain D where D: "length D = 8 * (i - 1)" "p = take (g_offset gp) p0 @ D @ drop (8 * (i - 1)) (payload gp p0)"
    and c: "D @ csa_chain (k_kk k) s ib (drop (8 * i) (payload gp p0)) = csa_decrypt (k_ck k) (k_kk k) (payload gp p0)"
    and e: "e = g_pkt gp + g_offset gp + 8 * (i - 1)"
    using assms(1,2) by (auto simp: slot_inv_def)
  have lt: "length (take (g_offset gp) p0) = g_offset gp" using assms(4,5) by (simp add: gpkt_ok_def)
  have st: "length st = 8" using length_csa_stream [of s] assms(6) by simp
  have lc: "8 \<le> length (drop (8 * i) (payload gp p0))" using length_payload [OF assms(4,5)] assms(2) by simp
  have lib: "length ib' = 8" using st lc assms(8) by simp
  define b where "b = xorb ib' (block_decrypt (k_kk k) ib)"
  have lb: "length b = 8" using lib assms(7) by (simp add: b_def)
  have i: "8 + 8 * (i - 1) = 8 * i" using assms(3) by simp
  have "p' = (take (g_offset gp) p0 @ D) @ b @ drop 8 (drop (8 * (i - 1)) (payload gp p0))"
    unfolding assms(9) D(2) append_assoc [symmetric] b_def [symmetric]
    using lb lt D(1) by (subst put_append) simp_all
  then have p': "p' = take (g_offset gp) p0 @ (D @ b) @ drop (8 * i) (payload gp p0)"
    by (simp only: drop_drop i append_assoc)
  have "csa_chain (k_kk k) s ib (drop (8 * i) (payload gp p0)) =
      b @ csa_chain (k_kk k) s' ib' (drop 8 (drop (8 * i) (payload gp p0)))"
    using lc assms(6) by (subst csa_chain.simps) (simp add: Let_def b_def assms(8))
  then have "(D @ b) @ csa_chain (k_kk k) s' ib' (drop (8 * (i + 1)) (payload gp p0)) =
      csa_decrypt (k_ck k) (k_kk k) (payload gp p0)"
    using c by (simp add: drop_drop)
  moreover have "length (D @ b) = 8 * i" using D(1) lb i by simp
  ultimately show ?thesis
    using p' e i assms(2) unfolding slot_inv_def by (auto simp del: append_assoc)
qed

text \<open>The last block and the residue.\<close>

lemma slot_dead:
  assumes "slot_inv k gp p0 (g_n gp) s e ib p" "gpkt_ok gp" "length p0 = TS_SIZE"
    "csa_stream s = (st, s')" "length ib = 8"
    "p1 = put (g_offset gp + 8 * (g_n gp - 1)) (block_decrypt (k_kk k) ib) p"
  shows "take (g_residue gp) (drop (g_offset gp + 8 * (g_n gp - 1) + 8) p1) = drop (8 * g_n gp) (payload gp p0)"
    "put (g_offset gp + 8 * (g_n gp - 1) + 8) (xorb (drop (8 * g_n gp) (payload gp p0)) (take (g_residue gp) st)) p1 =
      take (g_offset gp) p0 @ csa_decrypt (k_ck k) (k_kk k) (payload gp p0)"
    "g_residue gp = 0 \<Longrightarrow> p1 = take (g_offset gp) p0 @ csa_decrypt (k_ck k) (k_kk k) (payload gp p0)"
proof -
  let ?n = "g_n gp"
  have n: "1 \<le> ?n" "g_residue gp < 8" using assms(2) by (simp_all add: gpkt_ok_def)
  obtain D where D: "length D = 8 * (?n - 1)" "p = take (g_offset gp) p0 @ D @ drop (8 * (?n - 1)) (payload gp p0)"
    and c: "D @ csa_chain (k_kk k) s ib (drop (8 * ?n) (payload gp p0)) = csa_decrypt (k_ck k) (k_kk k) (payload gp p0)"
    using assms(1) by (auto simp: slot_inv_def)
  have lt: "length (take (g_offset gp) p0) = g_offset gp" using assms(2,3) by (simp add: gpkt_ok_def)
  define b where "b = block_decrypt (k_kk k) ib"
  define R where "R = drop (8 * ?n) (payload gp p0)"
  have st: "length st = 8" using length_csa_stream [of s] assms(4) by simp
  have lb: "length b = 8" using assms(5) by (simp add: b_def)
  have lR: "length R = g_residue gp" using length_payload [OF assms(2,3)] by (simp add: R_def)
  have i: "8 + 8 * (?n - 1) = 8 * ?n" using n by simp
  have "p1 = (take (g_offset gp) p0 @ D) @ b @ drop 8 (drop (8 * (?n - 1)) (payload gp p0))"
    unfolding assms(6) D(2) append_assoc [symmetric] b_def [symmetric]
    using lb lt D(1) by (subst put_append) simp_all
  then have p1: "p1 = (take (g_offset gp) p0 @ D @ b) @ R"
    by (simp only: drop_drop i append_assoc R_def)
  have l: "length (take (g_offset gp) p0 @ D @ b) = g_offset gp + 8 * (?n - 1) + 8" using lt D(1) lb by simp
  show "take (g_residue gp) (drop (g_offset gp + 8 * (?n - 1) + 8) p1) = drop (8 * ?n) (payload gp p0)"
    unfolding p1 R_def [symmetric] using l lR by (metis append_eq_conv_conj take_all order_refl)
  have x: "length (xorb R (take (g_residue gp) st)) = length R" using st n lR by simp
  have "put (g_offset gp + 8 * (?n - 1) + 8) (xorb R (take (g_residue gp) st)) p1 =
      (take (g_offset gp) p0 @ D @ b) @ xorb R (take (g_residue gp) st)"
    unfolding p1 using x by (subst put_append [OF l]) simp
  moreover have "csa_chain (k_kk k) s ib R = b @ xorb R (take (g_residue gp) st)"
    using lR n(2) assms(4) by (subst csa_chain.simps) (simp add: b_def)
  ultimately show r: "put (g_offset gp + 8 * (?n - 1) + 8) (xorb (drop (8 * ?n) (payload gp p0)) (take (g_residue gp) st)) p1 =
      take (g_offset gp) p0 @ csa_decrypt (k_ck k) (k_kk k) (payload gp p0)"
    using c unfolding R_def by simp
  assume "g_residue gp = 0"
  then have "R = []" using lR by simp
  then show "p1 = take (g_offset gp) p0 @ csa_decrypt (k_ck k) (k_kk k) (payload gp p0)"
    using r p1 unfolding R_def [symmetric] by simp
qed

subsection \<open>The group through the iterations\<close>

definition group_ok :: "nat \<Rightarrow> gpkt list \<Rightarrow> bool" where
  "group_ok L gs \<longleftrightarrow> length gs \<le> GROUP_PARALLELISM \<and> (\<forall>gp \<in> set gs. gpkt_ok gp \<and> g_pkt gp + TS_SIZE \<le> L) \<and>
     (\<forall>g h. g < length gs \<and> h < length gs \<and> g \<noteq> h \<longrightarrow> apart (g_pkt (gs ! g)) (g_pkt (gs ! h)))"

definition alive_ok :: "gpkt list \<Rightarrow> nat list \<Rightarrow> bool" where
  "alive_ok gs alive \<longleftrightarrow> (\<forall>i < 24. alive ! i \<le> length gs \<and> (\<forall>g < length gs. g < alive ! i \<longleftrightarrow> i < g_n (gs ! g)))"

definition outside :: "gpkt list \<Rightarrow> nat \<Rightarrow> bool" where
  "outside gs x \<longleftrightarrow> (\<forall>gp \<in> set gs. \<not> (g_pkt gp \<le> x \<and> x < g_pkt gp + TS_SIZE))"

definition state_ok :: "csa_key_t \<Rightarrow> gpkt list \<Rightarrow> bytes \<Rightarrow> nat \<Rightarrow> iter_state \<Rightarrow> bool" where
  "state_ok k gs mem0 i st \<longleftrightarrow> length (it_mem st) = length mem0 \<and> length (it_encp st) = length gs \<and>
     wf_regs (it_regs st) \<and> length (it_ib st) = 64 \<and> length (it_block_out st) = 64 \<and> length (it_stream_out st) = 64 \<and>
     (\<forall>x. outside gs x \<longrightarrow> it_mem st ! x = mem0 ! x) \<and>
     (\<forall>g < length gs. slot_inv k (gs ! g) (pk (g_pkt (gs ! g)) mem0) i (packet_regs g (it_regs st)) (it_encp st ! g)
        (packet8 (it_ib st) g) (pk (g_pkt (gs ! g)) (it_mem st)))"

definition junk_ok :: "junk \<Rightarrow> bool" where
  "junk_ok J \<longleftrightarrow> length (j_stream_in J) = 64 \<and> wf_regs (j_regs J) \<and> length (j_ib J) = 64 \<and>
     length (j_block_out J) = 64 \<and> length (j_stream_out J) = 64 \<and> (\<forall>i. wf_rows (j_rows J i))"

lemma packet8_set:
  assumes "length ib = 64" "g < 32" "length bs = 8"
  shows "packet8 (set_packet8 g bs ib) h = (if h = g then bs else packet8 ib h)" "length (set_packet8 g bs ib) = 64"
proof -
  have "bytes32 (le32 (take 4 bs)) @ bytes32 (le32 (drop 4 bs)) = bs"
    using assms(3) by (simp add: le32_bytes)
  moreover have "le32 (take 4 bs) = le32 bs" by (simp add: le32_def)
  moreover have "2 * h \<noteq> 2 * g + 1" "2 * h + 1 \<noteq> 2 * g" by presburger+
  ultimately show "packet8 (set_packet8 g bs ib) h = (if h = g then bs else packet8 ib h)"
    using assms(1,2) by (auto simp: packet8_def set_packet8_def nth_list_update)
  show "length (set_packet8 g bs ib) = 64" by (simp add: set_packet8_def assms(1))
qed

text \<open>A loop that sets one block of the buffer in each round.\<close>

lemma fold_set_packet8:
  assumes "m \<le> 32" "length ib = 64" "\<And>g ib. g < m \<Longrightarrow> length ib = 64 \<Longrightarrow>
      length (F g ib) = 64 \<and> (\<forall>h. packet8 (F g ib) h = (if h = g then B g else packet8 ib h))"
  shows "length (fold F [0..<m] ib) = 64 \<and> packet8 (fold F [0..<m] ib) h = (if h < m then B h else packet8 ib h)"
proof -
  have "length (fold F [0..<n] ib) = 64 \<and> packet8 (fold F [0..<n] ib) h = (if h < n then B h else packet8 ib h)" if "n \<le> m" for n
    using that
  proof (induction n)
    case (Suc n)
    then have IH: "length (fold F [0..<n] ib) = 64 \<and> packet8 (fold F [0..<n] ib) h = (if h < n then B h else packet8 ib h)" by simp
    then show ?case using assms(3) [of n "fold F [0..<n] ib"] Suc.prems by (auto simp: less_Suc_eq)
  qed (simp add: assms(2))
  then show ?thesis by simp
qed

lemma fold_increment:
  "m \<le> length xs \<Longrightarrow> length (fold (\<lambda>g xs. xs[g := xs ! g + 8]) [0..<m] xs) = length xs \<and>
     (\<forall>h < length xs. fold (\<lambda>g xs. xs[g := xs ! g + 8]) [0..<m] xs ! h = (if h < m then xs ! h + 8 else (xs ! h :: nat)))"
  by (induction m) (auto simp: less_Suc_eq nth_list_update)

lemma fold_FFTABLEIN:
  assumes "m \<le> 32" "length tab = 64" "\<And>g. g < m \<Longrightarrow> length (B g) = 8"
  shows "length (fold (\<lambda>g tab. FFTABLEIN tab g (B g)) [0..<m] tab) = 64 \<and>
    (\<forall>h < 32. FFTABLEOUT (fold (\<lambda>g tab. FFTABLEIN tab g (B g)) [0..<m] tab) h = (if h < m then B h else FFTABLEOUT tab h))"
proof -
  have "length (fold (\<lambda>g tab. FFTABLEIN tab g (B g)) [0..<n] tab) = 64 \<and>
    (\<forall>h < 32. FFTABLEOUT (fold (\<lambda>g tab. FFTABLEIN tab g (B g)) [0..<n] tab) h = (if h < n then B h else FFTABLEOUT tab h))"
    if "n \<le> m" for n using that
  proof (induction n)
    case (Suc n)
    define t where "t = fold (\<lambda>g tab. FFTABLEIN tab g (B g)) [0..<n] tab"
    have IH: "length t = 64" "\<forall>h < 32. FFTABLEOUT t h = (if h < n then B h else FFTABLEOUT tab h)"
      using Suc by (simp_all add: t_def)
    have n: "n < 32" "length (B n) = 8" using Suc.prems assms by simp_all
    have "length (FFTABLEIN t n (B n)) = 64" using IH by (simp add: FFTABLEIN_def)
    moreover have "FFTABLEOUT (FFTABLEIN t n (B n)) h = (if h = n then B n else FFTABLEOUT t h)" if "h < 32" for h
      using FFTABLEIN_OUT [OF IH(1) n(1) that, of "B n"] n(2) by simp
    ultimately show ?case using IH by (auto simp: t_def [symmetric] less_Suc_eq)
  qed (simp add: assms(2))
  then show ?thesis by simp
qed

lemma group_okD:
  assumes "group_ok L gs" "g < length gs"
  shows "gpkt_ok (gs ! g)" "g_pkt (gs ! g) + TS_SIZE \<le> L" "g < 32"
    "h < length gs \<Longrightarrow> g \<noteq> h \<Longrightarrow> apart (g_pkt (gs ! g)) (g_pkt (gs ! h))"
  using assms nth_mem [OF assms(2)] by (auto simp: group_ok_def)

lemma take_drop_pk: "x + r \<le> TS_SIZE \<Longrightarrow> take r (drop (a + x) mem) = take r (drop x (pk a mem))"
  by (simp add: pk_def drop_take add.commute min_def)

lemma length_pk_group: "group_ok L gs \<Longrightarrow> g < length gs \<Longrightarrow> length mem = L \<Longrightarrow> length (pk (g_pkt (gs ! g)) mem) = TS_SIZE"
  using group_okD(2) [of L gs g] by simp

text \<open>A loop of the code that writes into the packets numbered from \<open>lo\<close> to \<open>hi\<close>.\<close>

lemma fold_group:
  assumes ok: "group_ok L gs" and hi: "hi \<le> length gs" and mem: "length mem = L"
    and F: "\<And>g m. lo \<le> g \<Longrightarrow> g < hi \<Longrightarrow> length m = L \<Longrightarrow>
      F g m = put (g_pkt (gs ! g) + ofs g) (W g (pk (g_pkt (gs ! g)) m)) m"
    and W: "\<And>g p. lo \<le> g \<Longrightarrow> g < hi \<Longrightarrow> length p = TS_SIZE \<Longrightarrow> ofs g + length (W g p) \<le> TS_SIZE"
  shows "length (fold F [lo..<hi] mem) = L"
    and "outside gs x \<Longrightarrow> fold F [lo..<hi] mem ! x = mem ! x"
    and "k < length gs \<Longrightarrow> pk (g_pkt (gs ! k)) (fold F [lo..<hi] mem) =
      (if lo \<le> k \<and> k < hi then put (ofs k) (W k (pk (g_pkt (gs ! k)) mem)) (pk (g_pkt (gs ! k)) mem)
       else pk (g_pkt (gs ! k)) mem)"
proof -
  define A where "A = (\<lambda>g. g_pkt (gs ! g))"
  define G where "G = (\<lambda>g p. put (ofs g) (W g p) p)"
  have loc: "frame_at (A g) m (F g m)" and eff: "pk (A g) (F g m) = G g (pk (A g) m)"
    if g: "g \<in> set [lo..<hi]" and m: "length m = L" for g m
  proof -
    have g': "lo \<le> g" "g < hi" "g < length gs" using g hi by auto
    have b: "g_pkt (gs ! g) + TS_SIZE \<le> length m" using group_okD(2) [OF ok g'(3)] m by simp
    have w: "ofs g + length (W g (pk (g_pkt (gs ! g)) m)) \<le> TS_SIZE"
      by (rule W [OF g'(1,2) length_pk_group [OF ok g'(3) m]])
    show "frame_at (A g) m (F g m)" unfolding F [OF g'(1,2) m] A_def by (rule frame_put [OF w b])
    show "pk (A g) (F g m) = G g (pk (A g) m)" unfolding F [OF g'(1,2) m] A_def G_def by (rule pk_put [OF w b])
  qed
  have ap: "apart (A g) (A h)" if "g \<in> set [lo..<hi]" "h < length gs" "g \<noteq> h" for g h
    unfolding A_def using group_okD(4) [OF ok _ that(2,3)] that(1) hi by auto
  have ap': "apart (A g) (A h)" if "g \<in> set [lo..<hi]" "h \<in> insert k (set [lo..<hi])" "g \<noteq> h" "k < length gs" for g h k
    using ap [OF that(1) _ that(3)] that(2,4) hi by auto
  show l: "length (fold F [lo..<hi] mem) = L"
  proof (cases "lo < hi")
    case True
    show ?thesis
      by (rule fold_packets(2) [where k = lo, OF loc eff ap' _ mem]) (use True hi in auto)
  qed (simp add: mem)
  show "fold F [lo..<hi] mem ! x = mem ! x" if o: "outside gs x"
  proof (cases "lo < hi")
    case True
    show ?thesis
    proof (rule fold_packets(3) [where k = lo, OF loc eff ap' _ mem])
      fix g assume "g \<in> set [lo..<hi]"
      then show "\<not> (A g \<le> x \<and> x < A g + TS_SIZE)" using o hi nth_mem [of g gs] by (auto simp: outside_def A_def)
    qed (use True hi in auto)
  qed simp
  show "pk (g_pkt (gs ! k)) (fold F [lo..<hi] mem) =
      (if lo \<le> k \<and> k < hi then put (ofs k) (W k (pk (g_pkt (gs ! k)) mem)) (pk (g_pkt (gs ! k)) mem)
       else pk (g_pkt (gs ! k)) mem)" if k: "k < length gs"
  proof -
    have "pk (A k) (fold F [lo..<hi] mem) = (if k \<in> set [lo..<hi] then G k (pk (A k) mem) else pk (A k) mem)"
      by (rule fold_packets(1) [OF loc eff ap' _ mem]) (use k in auto)
    then show ?thesis by (simp add: A_def G_def)
  qed
qed

lemma alive_okD:
  assumes "alive_ok gs alive" "i < 24"
  shows "alive ! i \<le> length gs" "g < length gs \<Longrightarrow> g < alive ! i \<longleftrightarrow> i < g_n (gs ! g)"
  using assms by (simp_all add: alive_ok_def)

text \<open>The three writes of the body: alive packets, packets that end here, and their residues.\<close>

lemma body_ib:
  fixes so :: "u32 list" and B :: "nat \<Rightarrow> bytes"
  assumes "m \<le> 32" "length ib = 64" "\<And>g. g < m \<Longrightarrow> length (B g) = 8"
  defines "F \<equiv> \<lambda>g ib. let ib = set_packet8 g (FFTABLEOUT so g) ib in set_packet8 g (xorb (packet8 ib g) (B g)) ib"
  shows "length (fold F [0..<m] ib) = 64"
    "packet8 (fold F [0..<m] ib) h = (if h < m then xorb (FFTABLEOUT so h) (B h) else packet8 ib h)"
proof -
  have "length (F g ib) = 64 \<and> (\<forall>h. packet8 (F g ib) h = (if h = g then xorb (FFTABLEOUT so g) (B g) else packet8 ib h))"
    if "g < m" "length ib = 64" for g ib
  proof -
    have g: "g < 32" using that(1) assms(1) by simp
    note s1 = packet8_set [OF that(2) g length_FFTABLEOUT]
    have x: "length (xorb (FFTABLEOUT so g) (B g)) = 8" using assms(3) [OF that(1)] by simp
    show ?thesis unfolding F_def Let_def using packet8_set [OF s1(2) g x] s1(1) by simp
  qed
  from fold_set_packet8 [OF assms(1,2) this, of h]
  show "length (fold F [0..<m] ib) = 64"
    "packet8 (fold F [0..<m] ib) h = (if h < m then xorb (FFTABLEOUT so h) (B h) else packet8 ib h)" by auto
qed

definition body_mem :: "gpkt list \<Rightarrow> nat \<Rightarrow> nat \<Rightarrow> nat list \<Rightarrow> u32 list \<Rightarrow> u32 list \<Rightarrow> u32 list \<Rightarrow> bytes \<Rightarrow> bytes" where
  "body_mem gs a1 a0 encp ib block_out stream_out mem =
     (let mem = fold (\<lambda>g. put (encp ! g) (xorb (packet8 ib g) (packet8 block_out g))) [0..<a1] mem;
          mem = fold (\<lambda>g. put (encp ! g) (packet8 block_out g)) [a1..<a0] mem
      in fold (\<lambda>g mem. put (encp ! g + 8)
                (FFTABLEOUTXORNBY (g_residue (gs ! g)) (take (g_residue (gs ! g)) (drop (encp ! g + 8) mem)) stream_out g) mem)
           [a1..<a0] mem)"

lemma length_FFTABLEOUTXORNBY: "n \<le> length data \<Longrightarrow> length (FFTABLEOUTXORNBY n data tab g) = length data"
  by (simp add: FFTABLEOUTXORNBY_def)

lemma body_mem_spec:
  fixes ib bo so :: "u32 list"
  assumes ok: "group_ok (length mem) gs" and a: "a1 \<le> a0" "a0 \<le> length gs"
    and e: "\<And>g. g < a0 \<Longrightarrow> encp ! g = g_pkt (gs ! g) + ofs g" and o: "\<And>g. g < a0 \<Longrightarrow> ofs g + 8 + g_residue (gs ! g) \<le> TS_SIZE"
  defines "mem' \<equiv> body_mem gs a1 a0 encp ib bo so mem"
  shows "length mem' = length mem" "outside gs x \<Longrightarrow> mem' ! x = mem ! x"
    "k < a1 \<Longrightarrow> pk (g_pkt (gs ! k)) mem' = put (ofs k) (xorb (packet8 ib k) (packet8 bo k)) (pk (g_pkt (gs ! k)) mem)"
    "a1 \<le> k \<Longrightarrow> k < a0 \<Longrightarrow> pk (g_pkt (gs ! k)) mem' =
      (let p = put (ofs k) (packet8 bo k) (pk (g_pkt (gs ! k)) mem)
       in put (ofs k + 8) (FFTABLEOUTXORNBY (g_residue (gs ! k)) (take (g_residue (gs ! k)) (drop (ofs k + 8) p)) so k) p)"
    "a0 \<le> k \<Longrightarrow> k < length gs \<Longrightarrow> pk (g_pkt (gs ! k)) mem' = pk (g_pkt (gs ! k)) mem"
proof -
  define m1 where "m1 = fold (\<lambda>g. put (encp ! g) (xorb (packet8 ib g) (packet8 bo g))) [0..<a1] mem"
  define m2 where "m2 = fold (\<lambda>g. put (encp ! g) (packet8 bo g)) [a1..<a0] m1"
  have m': "mem' = fold (\<lambda>g mem. put (encp ! g + 8)
      (FFTABLEOUTXORNBY (g_residue (gs ! g)) (take (g_residue (gs ! g)) (drop (encp ! g + 8) mem)) so g) mem) [a1..<a0] m2"
    by (simp add: mem'_def body_mem_def m1_def m2_def)
  have a1: "a1 \<le> length gs" using a by simp
  let ?X = "\<lambda>g (p :: bytes). xorb (packet8 ib g) (packet8 bo g)"
  let ?Y = "\<lambda>g (p :: bytes). packet8 bo g"
  have F1: "put (encp ! g) (xorb (packet8 ib g) (packet8 bo g)) m = put (g_pkt (gs ! g) + ofs g) (?X g (pk (g_pkt (gs ! g)) m)) m"
    if "0 \<le> g" "g < a1" "length m = length mem" for g m
    using that a e [of g] by simp
  have W1: "ofs g + length (?X g p) \<le> TS_SIZE" if "0 \<le> g" "g < a1" "length p = TS_SIZE" for g p
    using that a o [of g] by simp
  have f1: "length m1 = length mem" "outside gs x \<Longrightarrow> m1 ! x = mem ! x"
    "k < length gs \<Longrightarrow> pk (g_pkt (gs ! k)) m1 =
      (if 0 \<le> k \<and> k < a1 then put (ofs k) (?X k (pk (g_pkt (gs ! k)) mem)) (pk (g_pkt (gs ! k)) mem)
       else pk (g_pkt (gs ! k)) mem)" for x k
    unfolding m1_def
    using fold_group [where ofs = "ofs" and W = ?X and mem = mem and L = "length mem" and lo = 0, OF ok a1 refl F1 W1]
    by (simp_all only:)
  have F2: "put (encp ! g) (packet8 bo g) m = put (g_pkt (gs ! g) + ofs g) (?Y g (pk (g_pkt (gs ! g)) m)) m"
    if "a1 \<le> g" "g < a0" "length m = length mem" for g m
    using that e [of g] by simp
  have W2: "ofs g + length (?Y g p) \<le> TS_SIZE" if "a1 \<le> g" "g < a0" "length p = TS_SIZE" for g p
    using that o [of g] by simp
  have f2: "length m2 = length mem" "outside gs x \<Longrightarrow> m2 ! x = m1 ! x"
    "k < length gs \<Longrightarrow> pk (g_pkt (gs ! k)) m2 =
      (if a1 \<le> k \<and> k < a0 then put (ofs k) (?Y k (pk (g_pkt (gs ! k)) m1)) (pk (g_pkt (gs ! k)) m1)
       else pk (g_pkt (gs ! k)) m1)" for x k
    unfolding m2_def
    using fold_group [where ofs = "ofs" and W = ?Y and mem = m1 and L = "length mem" and lo = a1, OF ok a(2) f1(1) F2 W2]
    by (simp_all only:)
  let ?R = "\<lambda>g p. FFTABLEOUTXORNBY (g_residue (gs ! g)) (take (g_residue (gs ! g)) (drop (ofs g + 8) p)) so g"
  have F: "put (encp ! g + 8) (FFTABLEOUTXORNBY (g_residue (gs ! g)) (take (g_residue (gs ! g)) (drop (encp ! g + 8) m)) so g) m =
      put (g_pkt (gs ! g) + (ofs g + 8)) (?R g (pk (g_pkt (gs ! g)) m)) m" if "a1 \<le> g" "g < a0" "length m = length mem" for g m
    using take_drop_pk [OF o [OF that(2)], of "g_pkt (gs ! g)" m] e [OF that(2)] by (simp add: add.assoc)
  have W: "ofs g + 8 + length (?R g p) \<le> TS_SIZE" if "a1 \<le> g" "g < a0" "length p = TS_SIZE" for g p
    using o [OF that(2)] that(3) by (simp add: length_FFTABLEOUTXORNBY)
  have f3: "length mem' = length mem" "outside gs x \<Longrightarrow> mem' ! x = m2 ! x"
    "k < length gs \<Longrightarrow> pk (g_pkt (gs ! k)) mem' =
      (if a1 \<le> k \<and> k < a0 then put (ofs k + 8) (?R k (pk (g_pkt (gs ! k)) m2)) (pk (g_pkt (gs ! k)) m2)
       else pk (g_pkt (gs ! k)) m2)" for x k
    unfolding m'
    using fold_group [where ofs = "\<lambda>g. ofs g + 8" and W = ?R and mem = m2 and L = "length mem" and lo = a1, OF ok a(2) f2(1) F W]
    by (simp_all only:)
  show "length mem' = length mem" by (rule f3(1))
  show "outside gs x \<Longrightarrow> mem' ! x = mem ! x" using f3(2) f2(2) f1(2) by simp
  show "k < a1 \<Longrightarrow> pk (g_pkt (gs ! k)) mem' = put (ofs k) (xorb (packet8 ib k) (packet8 bo k)) (pk (g_pkt (gs ! k)) mem)"
    using f3(3) [of k] f2(3) [of k] f1(3) [of k] a by simp
  show "a1 \<le> k \<Longrightarrow> k < a0 \<Longrightarrow> pk (g_pkt (gs ! k)) mem' =
      (let p = put (ofs k) (packet8 bo k) (pk (g_pkt (gs ! k)) mem)
       in put (ofs k + 8) (FFTABLEOUTXORNBY (g_residue (gs ! k)) (take (g_residue (gs ! k)) (drop (ofs k + 8) p)) so k) p)"
    using f3(3) [of k] f2(3) [of k] f1(3) [of k] a by (simp add: Let_def)
  show "a0 \<le> k \<Longrightarrow> k < length gs \<Longrightarrow> pk (g_pkt (gs ! k)) mem' = pk (g_pkt (gs ! k)) mem"
    using f3(3) [of k] f2(3) [of k] f1(3) [of k] a by simp
qed

text \<open>What the body computes, by its parts.\<close>

lemma iter_body_parts:
  assumes "stream_cypher_group_normal (it_regs st) (it_stream_out st) = (regs, so)"
    and bo: "bo = block_decypher_group (k_kkmulti k) (it_ib st) (it_block_out st) (alive ! (i - 1)) (j_rows J i)"
    and ib: "ib = fold (\<lambda>g ib. let ib = set_packet8 g (FFTABLEOUT so g) ib
        in set_packet8 g (xorb (packet8 ib g) (take 8 (drop (it_encp st ! g + 8) (it_mem st)))) ib) [0..<alive ! i] (it_ib st)"
  shows "iter_body k gs alive J i st =
    \<lparr>it_mem = body_mem gs (alive ! i) (alive ! (i - 1)) (it_encp st) ib bo so (it_mem st),
     it_encp = fold (\<lambda>g encp. encp[g := encp ! g + 8]) [0..<alive ! i] (it_encp st),
     it_regs = regs, it_ib = ib, it_block_out = bo, it_stream_out = so\<rparr>"
  unfolding iter_body_def assms(1) bo [symmetric] Let_def split_conv body_mem_def
  using ib by (simp add: Let_def)

text \<open>One packet of the group in the body.\<close>

lemma slot_body:
  assumes gp: "gpkt_ok gp" "length p0 = TS_SIZE" and i: "1 \<le> i" and inv: "slot_inv k gp p0 i s e ib p"
    and ib: "length ib = 8" and st: "csa_stream s = (FFTABLEOUT so g, s')" and g: "g < 32"
    and alive: "i < g_n gp \<Longrightarrow> ib' = xorb (FFTABLEOUT so g) (take 8 (drop (8 * i) (payload gp p0))) \<and> e' = e + 8 \<and>
      p' = put (g_offset gp + 8 * (i - 1)) (xorb ib' (block_decrypt (k_kk k) ib)) p"
    and dead: "i = g_n gp \<Longrightarrow> p' = (let p = put (g_offset gp + 8 * (i - 1)) (block_decrypt (k_kk k) ib) p
      in put (g_offset gp + 8 * (i - 1) + 8) (FFTABLEOUTXORNBY (g_residue gp)
           (take (g_residue gp) (drop (g_offset gp + 8 * (i - 1) + 8) p)) so g) p)"
    and over: "g_n gp < i \<Longrightarrow> p' = p"
  shows "slot_inv k gp p0 (i + 1) s' e' ib' p'"
proof -
  consider "i < g_n gp" | "i = g_n gp" | "g_n gp < i" by linarith
  then show ?thesis
  proof cases
    case 1
    then show ?thesis using slot_alive [OF inv 1 i gp st ib] alive by simp
  next
    case 2
    define p1 where "p1 = put (g_offset gp + 8 * (i - 1)) (block_decrypt (k_kk k) ib) p"
    define R where "R = drop (8 * i) (payload gp p0)"
    note d = slot_dead [OF inv [unfolded 2] gp st ib, folded 2, OF p1_def, folded R_def]
    have r: "g_residue gp < 8" "length R = g_residue gp"
      using gp(1) length_payload [OF gp] 2 by (simp_all add: gpkt_ok_def R_def)
    have "FFTABLEOUTXORNBY (g_residue gp) R so g = xorb R (take (g_residue gp) (FFTABLEOUT so g))"
      using FFTABLEOUTXORNBY_eq [of "g_residue gp" R g so] r g by (simp add: xorb_def)
    then have "p' = take (g_offset gp) p0 @ csa_decrypt (k_ck k) (k_kk k) (payload gp p0)"
      unfolding dead [OF 2, folded p1_def] Let_def d(1) using d(2) by (simp only:)
    then show ?thesis using 2 by (simp add: slot_inv_def)
  next
    case 3
    then show ?thesis using over inv by (simp add: slot_inv_def)
  qed
qed

lemma iter_body_ok:
  assumes ok: "group_ok (length mem0) gs" and al: "alive_ok gs alive" and k: "wf_key k" and J: "junk_ok J"
    and i: "1 \<le> i" "i < 23" and st: "state_ok k gs mem0 i st"
  shows "state_ok k gs mem0 (i + 1) (iter_body k gs alive J i st)"
proof -
  define a0 where "a0 = alive ! (i - 1)"
  define a1 where "a1 = alive ! i"
  have a0: "a0 \<le> length gs" "\<And>g. g < length gs \<Longrightarrow> g < a0 \<longleftrightarrow> i \<le> g_n (gs ! g)"
    and a1: "a1 \<le> length gs" "\<And>g. g < length gs \<Longrightarrow> g < a1 \<longleftrightarrow> i < g_n (gs ! g)"
    using alive_okD [OF al, of "i - 1"] alive_okD [OF al, of i] i by (auto simp: a0_def a1_def)
  have len32: "length gs \<le> 32" using ok by (simp add: group_ok_def)
  have lens: "length (it_mem st) = length mem0" "length (it_encp st) = length gs" "wf_regs (it_regs st)"
    "length (it_ib st) = 64" "length (it_block_out st) = 64" "length (it_stream_out st) = 64"
    "\<And>x. outside gs x \<Longrightarrow> it_mem st ! x = mem0 ! x"
    using st by (auto simp: state_ok_def)
  define P0 where "P0 = (\<lambda>g. pk (g_pkt (gs ! g)) mem0)"
  have slot: "slot_inv k (gs ! g) (P0 g) i (packet_regs g (it_regs st)) (it_encp st ! g) (packet8 (it_ib st) g)
      (pk (g_pkt (gs ! g)) (it_mem st))" if "g < length gs" for g
    using st that by (simp add: state_ok_def P0_def)
  have lP0: "length (P0 g) = TS_SIZE" if "g < length gs" for g
    unfolding P0_def by (rule length_pk_group [OF ok that refl])
  define ofs where "ofs = (\<lambda>g. g_offset (gs ! g) + 8 * (i - 1))"
  have le10: "a1 \<le> a0"
  proof (rule ccontr)
    assume "\<not> a1 \<le> a0"
    then have "a0 < length gs" "a0 < a1" using a1(1) by simp_all
    then show False using a0(2) [of a0] a1(2) [of a0] by simp
  qed
  have in0: "g < length gs" "i \<le> g_n (gs ! g)" if "g < a0" for g using that a0(1) a0(2) [of g] by simp_all
  have encp: "it_encp st ! g = g_pkt (gs ! g) + ofs g" if "g < a0" for g
    using slot [OF in0(1) [OF that]] in0(2) [OF that] by (simp add: slot_inv_def ofs_def)
  have o: "ofs g + 8 + g_residue (gs ! g) \<le> TS_SIZE" if "g < a0" for g
    using group_okD(1) [OF ok in0(1) [OF that]] in0(2) [OF that] i by (auto simp: gpkt_ok_def ofs_def)
  define bo where "bo = block_decypher_group (k_kkmulti k) (it_ib st) (it_block_out st) a0 (j_rows J i)"
  have kk: "k_kkmulti k = map (\<lambda>b. le32 (replicate 4 b)) (k_kk k)" "length (k_kk k) = 56"
    using k by (auto simp: wf_key_def)
  have bo: "g < 32 \<Longrightarrow> packet8 bo g = (if g < a0 then block_decrypt (k_kk k) (packet8 (it_ib st) g) else packet8 (it_block_out st) g)"
    "length bo = 64" for g
    unfolding bo_def kk(1) using block_group_ref [OF _ kk(2) lens(5), of "j_rows J i" a0 g "it_ib st"]
      block_group_ref(2) [OF _ kk(2) lens(5), of "j_rows J i" a0 0 "it_ib st"] J a0(1) len32
    by (simp_all add: junk_ok_def)
  obtain regs so where so: "stream_cypher_group_normal (it_regs st) (it_stream_out st) = (regs, so)" by fastforce
  have stream: "csa_stream (packet_regs g (it_regs st)) = (FFTABLEOUT so g, packet_regs g regs)" if "g < 32" for g
    using packet_normal(1,4) [OF lens(3,6) that so] by (simp add: prod_eq_iff)
  have so64: "length so = 64" "wf_regs regs" using packet_normal(2,3) [OF lens(3,6) _ so, of 0] by simp_all
  define blk where "blk = (\<lambda>g. take 8 (drop (it_encp st ! g + 8) (it_mem st)))"
  have blk: "blk g = take 8 (drop (8 * i) (payload (gs ! g) (P0 g))) \<and> length (blk g) = 8" if "g < a1" for g
  proof -
    have g: "g < length gs" "g < a0" using that a1(1) le10 by simp_all
    have n: "i < g_n (gs ! g)" using that a1(2) [OF g(1)] by simp
    have gok: "gpkt_ok (gs ! g)" by (rule group_okD(1) [OF ok g(1)])
    have o: "ofs g + 8 + 8 \<le> TS_SIZE" using gok n i by (auto simp: gpkt_ok_def ofs_def)
    have "blk g = take 8 (drop (ofs g + 8) (pk (g_pkt (gs ! g)) (it_mem st)))"
      unfolding blk_def encp [OF g(2)] using take_drop_pk [OF o] by (simp add: add.assoc)
    then have e: "blk g = take 8 (drop (8 * i) (payload (gs ! g) (P0 g)))"
      using slot_next_block(1) [OF slot [OF g(1)] less_imp_le [OF n] i(1) gok lP0 [OF g(1)]] by (simp add: ofs_def)
    then show ?thesis using length_payload [OF gok lP0 [OF g(1)]] n by simp
  qed
  have lblk: "length (blk g) = 8" if "g < a1" for g using blk [OF that] by blast
  define ib where "ib = fold (\<lambda>g ib. let ib = set_packet8 g (FFTABLEOUT so g) ib
      in set_packet8 g (xorb (packet8 ib g) (blk g)) ib) [0..<a1] (it_ib st)"
  have ibs: "length ib = 64" "packet8 ib g = (if g < a1 then xorb (FFTABLEOUT so g) (blk g) else packet8 (it_ib st) g)" for g
    unfolding ib_def using body_ib [where B = blk and so = so, OF le_trans [OF a1(1) len32] lens(4) lblk] by (simp_all only:)
  note parts = iter_body_parts [where bo = bo and ib = ib and k = k and alive = alive and i = i and J = J and gs = gs,
      OF so, folded a0_def a1_def, OF bo_def ib_def [unfolded blk_def]]
  have ok': "group_ok (length (it_mem st)) gs" using ok lens(1) by simp
  note mem = body_mem_spec [where encp = "it_encp st" and ofs = ofs and ib = ib and bo = bo and so = so, OF ok' le10 a0(1) encp o]
  note enc = fold_increment [of a1 "it_encp st", unfolded lens(2), OF a1(1)]
  have "slot_inv k (gs ! g) (P0 g) (i + 1) (packet_regs g regs) (fold (\<lambda>g encp. encp[g := encp ! g + 8]) [0..<a1] (it_encp st) ! g)
      (packet8 ib g) (pk (g_pkt (gs ! g)) (body_mem gs a1 a0 (it_encp st) ib bo so (it_mem st)))" if g: "g < length gs" for g
  proof (rule slot_body [OF group_okD(1) [OF ok g] lP0 [OF g] i(1) slot [OF g] length_packet8 stream])
    show g32: "g < 32" "g < 32" using g len32 by simp_all
    note c = a0(2) [OF g] a1(2) [OF g] bo(1) [OF g32(1)] ibs(2) [of g] enc [THEN conjunct2, rule_format, OF g]
    let ?p' = "pk (g_pkt (gs ! g)) (body_mem gs a1 a0 (it_encp st) ib bo so (it_mem st))"
    show "packet8 ib g = xorb (FFTABLEOUT so g) (take 8 (drop (8 * i) (payload (gs ! g) (P0 g)))) \<and>
        fold (\<lambda>g encp. encp[g := encp ! g + 8]) [0..<a1] (it_encp st) ! g = it_encp st ! g + 8 \<and>
        ?p' = put (g_offset (gs ! g) + 8 * (i - 1)) (xorb (packet8 ib g) (block_decrypt (k_kk k) (packet8 (it_ib st) g)))
          (pk (g_pkt (gs ! g)) (it_mem st))" if "i < g_n (gs ! g)"
      using c that blk [of g] mem(3) [of g] by (simp add: ofs_def)
    show "?p' = (let p = put (g_offset (gs ! g) + 8 * (i - 1)) (block_decrypt (k_kk k) (packet8 (it_ib st) g)) (pk (g_pkt (gs ! g)) (it_mem st))
        in put (g_offset (gs ! g) + 8 * (i - 1) + 8) (FFTABLEOUTXORNBY (g_residue (gs ! g))
             (take (g_residue (gs ! g)) (drop (g_offset (gs ! g) + 8 * (i - 1) + 8) p)) so g) p)" if "i = g_n (gs ! g)"
      using c that mem(4) [of g] by (simp add: ofs_def Let_def)
    show "?p' = pk (g_pkt (gs ! g)) (it_mem st)" if "g_n (gs ! g) < i"
      using c that g mem(5) [of g] by simp
  qed
  then show ?thesis
    unfolding parts state_ok_def using mem(1,2) enc ibs(1) bo(2) so64 lens(1,7) by (simp add: P0_def)
qed

lemma iter_0_ok:
  assumes ok: "group_ok (length mem0) gs" and al: "alive_ok gs alive" and k: "wf_key k" and J: "junk_ok J"
  shows "state_ok k gs mem0 1 (iter_0 k gs alive J mem0)"
proof -
  define encp where "encp = map (\<lambda>g. g_pkt g + g_offset g) gs"
  define B where "B = (\<lambda>g. take 8 (drop (encp ! g) mem0))"
  define tab where "tab = fold (\<lambda>g tab. FFTABLEIN tab g (B g)) [0..<length gs] (j_stream_in J)"
  define ib where "ib = fold (\<lambda>g. set_packet8 g (B g)) [0..<alive ! 0] (j_ib J)"
  have len32: "length gs \<le> 32" using ok by (simp add: group_ok_def)
  have a0: "alive ! 0 = length gs"
  proof (rule antisym)
    show "alive ! 0 \<le> length gs" by (rule alive_okD(1) [OF al]) simp
    show "length gs \<le> alive ! 0"
    proof (rule ccontr)
      assume "\<not> length gs \<le> alive ! 0"
      then have "alive ! 0 < length gs" by simp
      then show False
        using alive_okD(2) [OF al, of 0 "alive ! 0"] group_okD(1) [OF ok, of "alive ! 0"] by (simp add: gpkt_ok_def)
    qed
  qed
  have B: "B g = take 8 (payload (gs ! g) (pk (g_pkt (gs ! g)) mem0)) \<and> length (B g) = 8" if "g < length gs" for g
  proof -
    have gok: "gpkt_ok (gs ! g)" by (rule group_okD(1) [OF ok that])
    have "g_offset (gs ! g) + 8 \<le> TS_SIZE" using gok by (auto simp: gpkt_ok_def)
    then have "B g = take 8 (payload (gs ! g) (pk (g_pkt (gs ! g)) mem0))"
      using take_drop_pk [of "g_offset (gs ! g)" 8] that by (simp add: B_def encp_def payload_def)
    moreover have "8 \<le> length (payload (gs ! g) (pk (g_pkt (gs ! g)) mem0))"
      using length_payload [OF gok length_pk_group [OF ok that refl]] gok by (simp add: gpkt_ok_def)
    ultimately show ?thesis by simp
  qed
  have lB: "length (B g) = 8" if "g < length gs" for g using B [OF that] by (rule conjunct2)
  have j: "length (j_stream_in J) = 64" "wf_regs (j_regs J)" "length (j_ib J) = 64" "length (j_block_out J) = 64"
    "length (j_stream_out J) = 64" using J by (simp_all add: junk_ok_def)
  note t = fold_FFTABLEIN [where B = B, OF len32 j(1) lB, folded tab_def]
  have ib: "length ib = 64 \<and> packet8 ib g = B g" if "g < length gs" for g
    using fold_set_packet8 [where F = "\<lambda>g. set_packet8 g (B g)" and B = B and h = g, OF len32 j(3)] packet8_set [OF _ _ lB] len32 that
    by (simp add: ib_def a0)
  have ib64: "length ib = 64"
    using fold_set_packet8 [where F = "\<lambda>g. set_packet8 g (B g)" and B = B and h = 0, OF len32 j(3)] packet8_set [OF _ _ lB] len32
    by (simp add: ib_def a0)
  define regs where "regs = stream_cypher_group_init (j_regs J) (k_iA_g k) (k_iB_g k) tab"
  have kw: "k_iA_g k = nibble_groups int32_ops (fst (key_schedule_stream (k_ck k)))"
    "k_iB_g k = nibble_groups int32_ops (snd (key_schedule_stream (k_ck k)))" "length (k_ck k) = 8"
    using k by (auto simp: wf_key_def dest: arg_cong [where f = fst] arg_cong [where f = snd])
  have regs: "packet_regs g regs = csa_init (k_ck k) (B g)" if "g < length gs" for g
    using packet_init [OF j(2) _ kw(3), of g tab] t that len32 by (simp add: regs_def kw(1,2))
  have wf: "wf_regs regs"
    unfolding regs_def kw(1,2) stream_cypher_group_init_def by (intro wf_init j(2) length_key_groups)
  have "slot_inv k (gs ! g) (pk (g_pkt (gs ! g)) mem0) 1 (packet_regs g regs) (encp ! g) (packet8 ib g) (pk (g_pkt (gs ! g)) mem0)"
    if g: "g < length gs" for g
    using slot_start [OF group_okD(1) [OF ok g] length_pk_group [OF ok g refl], of k] regs [OF g] B [OF g] ib [OF g] g
    by (simp add: encp_def)
  moreover have "iter_0 k gs alive J mem0 = \<lparr>it_mem = mem0, it_encp = encp, it_regs = regs, it_ib = ib,
      it_block_out = j_block_out J, it_stream_out = j_stream_out J\<rparr>"
    by (simp add: iter_0_def Let_def encp_def regs_def tab_def ib_def B_def)
  ultimately show ?thesis using wf ib64 j by (simp add: state_ok_def encp_def)
qed

lemma iter_loop_ok:
  "group_ok (length mem0) gs \<Longrightarrow> alive_ok gs alive \<Longrightarrow> wf_key k \<Longrightarrow> junk_ok J \<Longrightarrow>
    1 \<le> i \<Longrightarrow> i \<le> 23 \<Longrightarrow> state_ok k gs mem0 i st \<Longrightarrow>
    \<exists>i'. 1 \<le> i' \<and> i' \<le> 23 \<and> state_ok k gs mem0 i' (iter_loop k gs alive J i st) \<and> (i' = 23 \<or> alive ! (i' - 1) = 0)"
proof (induction k gs alive J i st rule: iter_loop.induct)
  case (1 k gs alive J i st)
  show ?case
  proof (cases "i < 23 \<and> alive ! (i - 1) > 0")
    case True
    then have e: "iter_loop k gs alive J i st = iter_loop k gs alive J (i + 1) (iter_body k gs alive J i st)"
      by (subst iter_loop.simps) simp
    have "state_ok k gs mem0 (i + 1) (iter_body k gs alive J i st)"
      by (rule iter_body_ok) (use True 1 in auto)
    then show ?thesis unfolding e using "1.IH" [OF True "1.prems"(1-4)] True by simp
  next
    case False
    then have "iter_loop k gs alive J i st = st" by (subst iter_loop.simps) auto
    then show ?thesis using "1.prems" False by (intro exI [of _ i]) auto
  qed
qed

text \<open>After the last iteration every packet of the group is what the reference makes of it.\<close>

definition finished :: "csa_key_t \<Rightarrow> gpkt \<Rightarrow> bytes \<Rightarrow> bytes" where
  "finished k gp p0 = take (g_offset gp) p0 @ csa_decrypt (k_ck k) (k_kk k) (payload gp p0)"

lemma iter_23_ok:
  assumes ok: "group_ok (length mem0) gs" and al: "alive_ok gs alive" and k: "wf_key k" and J: "junk_ok J"
    and st: "state_ok k gs mem0 i st" and i: "1 \<le> i" "i \<le> 23" "i = 23 \<or> alive ! (i - 1) = 0"
  shows "length (iter_23 k alive J st) = length mem0"
    "outside gs x \<Longrightarrow> iter_23 k alive J st ! x = mem0 ! x"
    "g < length gs \<Longrightarrow> pk (g_pkt (gs ! g)) (iter_23 k alive J st) = finished k (gs ! g) (pk (g_pkt (gs ! g)) mem0)"
proof -
  define a0 where "a0 = alive ! 22"
  have a0: "a0 \<le> length gs" "\<And>g. g < length gs \<Longrightarrow> g < a0 \<longleftrightarrow> g_n (gs ! g) = 23"
    using alive_okD [OF al, of 22] group_okD(1) [OF ok] by (force simp: a0_def gpkt_ok_def)+
  have len32: "length gs \<le> 32" using ok by (simp add: group_ok_def)
  have a1: "alive ! 23 = 0"
  proof (rule ccontr)
    assume "alive ! 23 \<noteq> 0"
    moreover have "alive ! 23 \<le> length gs" by (rule alive_okD(1) [OF al]) simp
    ultimately have "0 < length gs" "0 < alive ! 23" by linarith+
    then show False
      using alive_okD(2) [OF al, of 23 0] group_okD(1) [OF ok, of 0] by (simp add: gpkt_ok_def)
  qed
  have last: "i = 23" if "g < a0" for g
  proof (rule ccontr)
    assume "i \<noteq> 23"
    then have z: "alive ! (i - 1) = 0" using i(3) by simp
    have g: "g < length gs" "g_n (gs ! g) = 23" using that a0(1) a0(2) [of g] by simp_all
    have "i - 1 < 24" "i - 1 < 23" using i(1,2) by simp_all
    then show False using alive_okD(2) [OF al, of "i - 1" g] z g by simp
  qed
  have lens: "length (it_mem st) = length mem0" "length (it_ib st) = 64" "length (it_block_out st) = 64"
    "\<And>x. outside gs x \<Longrightarrow> it_mem st ! x = mem0 ! x" using st by (auto simp: state_ok_def)
  have slot: "slot_inv k (gs ! g) (pk (g_pkt (gs ! g)) mem0) i (packet_regs g (it_regs st)) (it_encp st ! g)
      (packet8 (it_ib st) g) (pk (g_pkt (gs ! g)) (it_mem st))" if "g < length gs" for g
    using st that by (simp add: state_ok_def)
  define bo where "bo = block_decypher_group (k_kkmulti k) (it_ib st) (it_block_out st) a0 (j_rows J 23)"
  have kk: "k_kkmulti k = map (\<lambda>b. le32 (replicate 4 b)) (k_kk k)" "length (k_kk k) = 56"
    using k by (auto simp: wf_key_def)
  have bo: "packet8 bo g = block_decrypt (k_kk k) (packet8 (it_ib st) g)" if "g < a0" for g
    unfolding bo_def kk(1) using block_group_ref(1) [OF _ kk(2) lens(3), of "j_rows J 23" a0 g "it_ib st"] J a0(1) len32 that
    by (simp add: junk_ok_def)
  define ofs where "ofs = (\<lambda>g. g_offset (gs ! g) + 8 * 22)"
  have e: "it_encp st ! g = g_pkt (gs ! g) + ofs g" and o: "ofs g + 8 \<le> TS_SIZE" if "g < a0" for g
  proof -
    have g: "g < length gs" "g_n (gs ! g) = 23" using that a0(1) a0(2) [of g] by simp_all
    show "it_encp st ! g = g_pkt (gs ! g) + ofs g"
      using slot [OF g(1)] last [OF that] g(2) by (simp add: slot_inv_def ofs_def)
    show "ofs g + 8 \<le> TS_SIZE" using group_okD(1) [OF ok g(1)] g(2) unfolding gpkt_ok_def ofs_def by auto
  qed
  let ?W = "\<lambda>g (p :: bytes). packet8 bo g"
  have F: "put (it_encp st ! g) (packet8 bo g) m = put (g_pkt (gs ! g) + ofs g) (?W g (pk (g_pkt (gs ! g)) m)) m"
    if "0 \<le> g" "g < a0" "length m = length mem0" for g m using e [OF that(2)] by simp
  have W: "ofs g + length (?W g p) \<le> TS_SIZE" if "0 \<le> g" "g < a0" "length p = TS_SIZE" for g p
    using o [OF that(2)] by simp
  have r: "iter_23 k alive J st = fold (\<lambda>g. put (it_encp st ! g) (packet8 bo g)) [0..<a0] (it_mem st)"
    by (simp add: iter_23_def a1 a0_def bo_def Let_def)
  have f: "length (iter_23 k alive J st) = length mem0" "outside gs x \<Longrightarrow> iter_23 k alive J st ! x = it_mem st ! x"
    "k' < length gs \<Longrightarrow> pk (g_pkt (gs ! k')) (iter_23 k alive J st) =
      (if 0 \<le> k' \<and> k' < a0 then put (ofs k') (packet8 bo k') (pk (g_pkt (gs ! k')) (it_mem st))
       else pk (g_pkt (gs ! k')) (it_mem st))" for x k'
    unfolding r
    using fold_group [where ofs = ofs and W = ?W and L = "length mem0" and lo = 0, OF ok a0(1) lens(1) F W]
    by (simp_all only:)
  show "length (iter_23 k alive J st) = length mem0" by (rule f(1))
  show "outside gs x \<Longrightarrow> iter_23 k alive J st ! x = mem0 ! x" using f(2) lens(4) by simp
  show "pk (g_pkt (gs ! g)) (iter_23 k alive J st) = finished k (gs ! g) (pk (g_pkt (gs ! g)) mem0)" if g: "g < length gs"
  proof (cases "g < a0")
    case True
    then have n: "g_n (gs ! g) = 23" "i = 23" using a0(2) [OF g] last by simp_all
    have gok: "gpkt_ok (gs ! g)" by (rule group_okD(1) [OF ok g])
    have "pk (g_pkt (gs ! g)) (iter_23 k alive J st) = put (ofs g) (packet8 bo g) (pk (g_pkt (gs ! g)) (it_mem st))"
      using f(3) [OF g] True by simp
    moreover have "g_residue (gs ! g) = 0" using gok n by (simp add: gpkt_ok_def)
    ultimately show ?thesis
      using slot_dead(3) [OF slot [OF g, unfolded n(2)  n(1) [symmetric]] gok length_pk_group [OF ok g refl] _ length_packet8] n bo [OF True]
      by (simp add: ofs_def finished_def prod_eq_iff)
  next
    case False
    have "g_n (gs ! g) < i"
    proof (cases "i = 23")
      case True
      then show ?thesis using False a0(2) [OF g] group_okD(1) [OF ok g] by (auto simp: gpkt_ok_def)
    next
      case False
      then have "alive ! (i - 1) = 0" "i - 1 < 24" using i by simp_all
      then have "\<not> i - 1 < g_n (gs ! g)" using alive_okD(2) [OF al, of "i - 1" g] g by simp
      then show ?thesis using i(1) by linarith
    qed
    moreover have "pk (g_pkt (gs ! g)) (iter_23 k alive J st) = pk (g_pkt (gs ! g)) (it_mem st)"
      using f(3) [OF g] False by simp
    ultimately show ?thesis using slot [OF g] by (simp add: slot_inv_def finished_def)
  qed
qed

end
