(* ===== verification/DecryptScan.thy ===== *)
theory DecryptScan
  imports DecryptRef
begin

text \<open>
  The specification of \<open>decrypt_packets\<close> on the packets of the cluster in their order, and the theorem that
  the code implements it. A packet whose scrambling bits are set is \<open>done\<close> when its bits are cleared and its
  payload is descrambled by the reference with the key of its own parity; \<open>selected\<close> says which packets of
  the cluster one call treats.
\<close>

subsection \<open>The specification\<close>

definition scrambled :: "bytes \<Rightarrow> bool" where
  "scrambled p \<longleftrightarrow> bit (p ! 3) 7"

definition odd_parity_bit :: "bytes \<Rightarrow> bool" where
  "odd_parity_bit p \<longleftrightarrow> bit (p ! 3) 6"

definition clear_bits :: "bytes \<Rightarrow> bytes" where
  "clear_bits p = p[3 := p ! 3 AND 0x3f]"

text \<open>The start of the payload: after the header and the adaptation field.\<close>

definition payload_start :: "bytes \<Rightarrow> nat" where
  "payload_start p = (if bit (p ! 3) 5 then min TS_SIZE (5 + unat (p ! 4)) else 4)"

definition full_blocks :: "bytes \<Rightarrow> nat" where
  "full_blocks p = (TS_SIZE - payload_start p) div 8"

definition descramble :: "csa_keys_t \<Rightarrow> bytes \<Rightarrow> bytes" where
  "descramble keys p =
     (if scrambled p then
        let k = (if odd_parity_bit p then odd_key keys else even_key keys); p' = clear_bits p; n = payload_start p
        in take n p' @ csa_decrypt (k_ck k) (k_kk k) (drop n p')
      else p)"

text \<open>One call takes scrambled packets of one parity, at most 32 with at least one full block; \<open>n\<close> is their
  number so far and \<open>par\<close> their parity. Packets in the clear need nothing.\<close>

fun selected :: "nat \<Rightarrow> bool \<Rightarrow> bytes list \<Rightarrow> bool list" where
  "selected n par [] = []"
| "selected n par (p # ps) =
     (if n = GROUP_PARALLELISM then False # selected n par ps
      else if \<not> scrambled p then True # selected n par ps
      else let par' = (if n = 0 then odd_parity_bit p else par) in
           if odd_parity_bit p = par'
           then True # selected (if full_blocks p = 0 then n else n + 1) par' ps
           else False # selected n par' ps)"

text \<open>The addresses of the packets of a range and of a cluster.\<close>

definition range_packets :: "nat \<Rightarrow> nat \<Rightarrow> nat list" where
  "range_packets st en = map (\<lambda>i. st + TS_SIZE * i) [0..<(en - st) div TS_SIZE]"

definition cluster_packets :: "(nat \<times> nat) list \<Rightarrow> nat list" where
  "cluster_packets cluster = concat (map (\<lambda>(st, en). range_packets st en) cluster)"

definition cluster_ok :: "bytes \<Rightarrow> (nat \<times> nat) list \<Rightarrow> bool" where
  "cluster_ok mem cluster \<longleftrightarrow>
     (\<forall>(st, en) \<in> set cluster. st \<le> en \<and> TS_SIZE dvd (en - st) \<and> en \<le> length mem) \<and>
     sorted_wrt apart (cluster_packets cluster)"

subsection \<open>One packet\<close>

lemma range_packets_Nil: "en \<le> st \<Longrightarrow> range_packets st en = []"
  by (simp add: range_packets_def)

lemma range_packets_Cons:
  assumes "st < en" "TS_SIZE dvd (en - st)"
  shows "range_packets st en = st # range_packets (st + TS_SIZE) en" "st + TS_SIZE \<le> en" "TS_SIZE dvd (en - (st + TS_SIZE))"
proof -
  obtain m where m: "en - st = 188 * m" using assms(2) by (elim dvdE)
  then obtain m' where m': "m = Suc m'" using assms(1) by (cases m) auto
  have e: "en - (st + TS_SIZE) = 188 * m'" using m m' by simp
  show "st + TS_SIZE \<le> en" using m m' assms(1) by simp
  show "TS_SIZE dvd (en - (st + TS_SIZE))" unfolding e by simp
  have "(en - st) div 188 = Suc m'" "(en - (st + TS_SIZE)) div 188 = m'" using m m' e by simp_all
  then show "range_packets st en = st # range_packets (st + TS_SIZE) en"
    unfolding range_packets_def by (simp only: upt_conv_Cons zero_less_Suc map_Suc_upt [symmetric]) simp
qed

lemma word8_eq: "x = y \<longleftrightarrow> (\<forall>n < 8. bit x n \<longleftrightarrow> bit y n)" for x y :: u8
  by (auto intro: bit_word_eqI)

lemma xc0_cases:
  fixes b :: u8
  shows "b AND 0xc0 = 0 \<longleftrightarrow> \<not> bit b 7 \<and> \<not> bit b 6" "b AND 0xc0 = 0x40 \<longleftrightarrow> \<not> bit b 7 \<and> bit b 6"
    "b AND 0xc0 = 0x80 \<longleftrightarrow> bit b 7 \<and> \<not> bit b 6" "b AND 0xc0 = 0xc0 \<longleftrightarrow> bit b 7 \<and> bit b 6"
  unfolding word8_eq all_less_8 bit_and_iff by auto

lemma and_3f_20:
  fixes b :: u8
  shows "(b AND 0x3f) AND 0x20 = 0 \<longleftrightarrow> \<not> bit b 5" "bit (b AND 0x3f) 5 \<longleftrightarrow> bit b 5"
    "\<not> bit (b AND 0x3f) 7" "\<not> bit (b AND 0x3f) 6"
  unfolding word8_eq all_less_8 bit_and_iff by auto

definition gpkt_of :: "nat \<Rightarrow> bytes \<Rightarrow> gpkt" where
  "gpkt_of a p = \<lparr>g_pkt = a, g_len = TS_SIZE - payload_start p, g_offset = payload_start p, g_n = full_blocks p,
     g_residue = (TS_SIZE - payload_start p) mod 8\<rparr>"

lemma payload_start_le: "payload_start p \<le> TS_SIZE"
  by (simp add: payload_start_def)

lemma blocks_bounds: "L \<le> 184 \<Longrightarrow> L div 8 \<le> 23 \<and> (L div 8 = 23 \<longrightarrow> L mod 8 = 0)" for L :: nat
  by presburger

lemma gpkt_ok_of: "full_blocks p \<noteq> 0 \<Longrightarrow> gpkt_ok (gpkt_of a p)"
proof -
  assume f: "full_blocks p \<noteq> 0"
  have "4 \<le> payload_start p" by (simp add: payload_start_def)
  then have "TS_SIZE - payload_start p \<le> 184" by simp
  note b = blocks_bounds [OF this]
  show ?thesis
    unfolding gpkt_ok_def gpkt_of_def gpkt.simps full_blocks_def
    using f b payload_start_le [of p] by (auto simp only: full_blocks_def mult_div_mod_eq mod_less_divisor) simp_all
qed

lemma clear_keeps:
  assumes "length p = TS_SIZE"
  shows "payload_start (clear_bits p) = payload_start p" "full_blocks (clear_bits p) = full_blocks p"
    "\<not> scrambled (clear_bits p)" "length (clear_bits p) = length p"
  using assms by (simp_all add: payload_start_def full_blocks_def clear_bits_def scrambled_def and_3f_20)

text \<open>What one round does to the state, by the class of the packet.\<close>

definition take_packet :: "nat \<Rightarrow> bytes \<Rightarrow> scan_state \<Rightarrow> scan_state" where
  "take_packet a p s =
     advance (s\<lparr>group_ev_od := (if odd_parity_bit p then 1 else 0), sc_mem := (sc_mem s)[a + 3 := p ! 3 AND 0x3f],
       sc_group := sc_group s @ (if full_blocks p = 0 then [] else [gpkt_of a p])\<rparr>)"

lemma take_packet_code:
  fixes p :: bytes
  assumes "bit (p ! 3) 5"
  shows "(let offset = 4 + uint (p ! 4) + 1; len = 188 - offset in
          if len \<le> 0 then advance s1
          else (let n = len div 8; residue = len - n * 8 in
                if n = 0 then advance s1 else add_to_group a (nat len) (nat offset) (nat n) (nat residue) s1)) =
    advance (s1\<lparr>sc_group := sc_group s1 @ (if full_blocks p = 0 then [] else [gpkt_of a p])\<rparr>)"
proof (cases "unat (p ! 4) < 183")
  case True
  have u: "uint (p ! 4) = int (unat (p ! 4))" by simp
  define L where "L = 183 - unat (p ! 4)"
  have L: "188 - int (5 + unat (p ! 4)) = int L" "4 + uint (p ! 4) + 1 = int (5 + unat (p ! 4))"
    unfolding u using True by (simp_all add: L_def of_nat_diff)
  have ps: "payload_start p = 5 + unat (p ! 4)" "TS_SIZE - payload_start p = L" "0 < L"
    using assms True by (simp_all add: payload_start_def L_def)
  have d: "int L div 8 = int (L div 8)" by simp
  have r: "int L - int (L div 8) * 8 = int (L mod 8)" by (simp add: minus_div_mult_eq_mod zdiv_int zmod_int)
  have fb: "full_blocks p = L div 8" by (simp only: full_blocks_def ps(2))
  have g: "gpkt_of a p = \<lparr>g_pkt = a, g_len = L, g_offset = 5 + unat (p ! 4), g_n = L div 8, g_residue = L mod 8\<rparr>"
    by (simp only: gpkt_of_def fb ps(2), simp only: ps(1))
  show ?thesis
    unfolding Let_def L d r fb g add_to_group_def
    using ps(3) by (simp only: nat_int of_nat_0_eq_iff of_nat_le_0_iff if_split) (simp add: advance_def)
next
  case False
  then have "full_blocks p = 0" using assms by (simp add: full_blocks_def payload_start_def)
  moreover have "183 \<le> int (unat (p ! 4))" using False by linarith
  then have "188 - (4 + uint (p ! 4) + 1) \<le> 0" by simp
  ultimately show ?thesis by simp
qed

lemma handle_packet_cases:
  assumes "a + TS_SIZE \<le> length (sc_mem s)" "p = pk a (sc_mem s)"
    "sc_group s \<noteq> [] \<Longrightarrow> group_ev_od s = (if par then 1 else 0)"
  shows "\<not> scrambled p \<Longrightarrow> handle_packet a s = advance s"
    "scrambled p \<Longrightarrow> sc_group s = [] \<or> odd_parity_bit p = par \<Longrightarrow> handle_packet a s = take_packet a p s"
    "scrambled p \<Longrightarrow> sc_group s \<noteq> [] \<Longrightarrow> odd_parity_bit p \<noteq> par \<Longrightarrow> handle_packet a s = s\<lparr>can_advance := False\<rparr>"
proof -
  have p: "sc_mem s ! (a + 3) = p ! 3" "sc_mem s ! (a + 4) = p ! 4" using assms(1,2) by (simp_all add: nth_pk)
  define x where "x = p ! 3 AND 0xc0"
  have clear: "x = 0x00 \<or> x = 0x40" if "\<not> scrambled p"
    using that xc0_cases [of "p ! 3"] by (auto simp: scrambled_def x_def)
  have set: "x = (if odd_parity_bit p then 0xc0 else 0x80)" if "scrambled p"
    using that xc0_cases(3,4) [of "p ! 3"] by (auto simp: scrambled_def odd_parity_bit_def x_def)
  have par: "uint (drop_bit 6 (x AND 0x40)) = (if odd_parity_bit p then 1 else 0)" "x \<noteq> 0x00" "x \<noteq> 0x40" "x = 0x80 \<or> x = 0xc0"
    if "scrambled p"
    unfolding set [OF that] by simp_all
  show "handle_packet a s = advance s" if "\<not> scrambled p"
    unfolding handle_packet_def p x_def [symmetric] Let_def using clear [OF that] by (elim disjE) simp_all
  show "handle_packet a s = s\<lparr>can_advance := False\<rparr>" if sc: "scrambled p" "sc_group s \<noteq> []" "odd_parity_bit p \<noteq> par"
    unfolding handle_packet_def p x_def [symmetric] Let_def par(1) [OF sc(1)]
    using par(2-4) [OF sc(1)] sc(2,3) assms(3) by simp
  assume sc: "scrambled p" and ok: "sc_group s = [] \<or> odd_parity_bit p = par"
  define s1 where "s1 = s\<lparr>group_ev_od := (if odd_parity_bit p then 1 else 0), sc_mem := (sc_mem s)[a + 3 := p ! 3 AND 0x3f]\<rparr>"
  have m: "sc_mem s1 ! (a + 3) = p ! 3 AND 0x3f" "sc_mem s1 ! (a + 4) = p ! 4"
    using assms(1) p by (simp_all add: s1_def)
  define s0 where "s0 = (if sc_group s = [] then s\<lparr>group_ev_od := if odd_parity_bit p then 1 else 0\<rparr> else s)"
  have s0: "group_ev_od s0 = (if odd_parity_bit p then 1 else 0)"
    "s0\<lparr>sc_mem := (sc_mem s0)[a + 3 := sc_mem s0 ! (a + 3) AND 0x3f]\<rparr> = s1"
    using ok assms(3) p by (auto simp: s0_def s1_def)
  have "handle_packet a s =
      (if sc_mem s1 ! (a + 3) AND 0x20 \<noteq> 0 then
         (let offset = 4 + uint (sc_mem s1 ! (a + 4)) + 1; len = 188 - offset in
          if len \<le> 0 then advance s1
          else (let n = len div 8; residue = len - n * 8 in
                if n = 0 then advance s1 else add_to_group a (nat len) (nat offset) (nat n) (nat residue) s1))
       else add_to_group a 184 4 23 0 s1)"
    unfolding handle_packet_def p x_def [symmetric] Let_def par(1) [OF sc] s0_def [symmetric] s0
    using par(2-4) [OF sc] by (simp only: simp_thms if_False if_True)
  also have "\<dots> = take_packet a p s"
  proof (cases "bit (p ! 3) 5")
    case True
    have "take_packet a p s = advance (s1\<lparr>sc_group := sc_group s1 @ (if full_blocks p = 0 then [] else [gpkt_of a p])\<rparr>)"
      by (simp add: take_packet_def s1_def)
    then show ?thesis using True take_packet_code [OF True] by (simp only: m and_3f_20(1) simp_thms if_True)
  next
    case False
    then have "full_blocks p = 23" "gpkt_of a p = \<lparr>g_pkt = a, g_len = 184, g_offset = 4, g_n = 23, g_residue = 0\<rparr>"
      by (simp_all add: gpkt_of_def full_blocks_def payload_start_def)
    then show ?thesis using False
      by (simp only: m and_3f_20(1) simp_thms if_False) (simp add: add_to_group_def take_packet_def s1_def)
  qed
  finally show "handle_packet a s = take_packet a p s" .
qed

lemma handle_packet_advance:
  "can_advance (handle_packet a s) \<Longrightarrow> can_advance s \<and> advanced (handle_packet a s) = advanced s + 1"
  "\<not> can_advance (handle_packet a s) \<Longrightarrow> advanced (handle_packet a s) = advanced s"
  "\<not> can_advance s \<Longrightarrow> \<not> can_advance (handle_packet a s)"
  "length (sc_mem (handle_packet a s)) = length (sc_mem s)"
proof -
  define x where "x = sc_mem s ! (a + 3) AND 0xc0"
  have x: "x = 0 \<or> x = 0x40 \<or> x = 0x80 \<or> x = 0xc0"
    unfolding x_def using xc0_cases [of "sc_mem s ! (a + 3)"] by blast
  note d = handle_packet_def x_def [symmetric] Let_def add_to_group_def advance_def
  show "can_advance (handle_packet a s) \<Longrightarrow> can_advance s \<and> advanced (handle_packet a s) = advanced s + 1"
    unfolding d using x by (auto split: if_splits)
  show "\<not> can_advance (handle_packet a s) \<Longrightarrow> advanced (handle_packet a s) = advanced s"
    unfolding d using x by (auto split: if_splits)
  show "\<not> can_advance s \<Longrightarrow> \<not> can_advance (handle_packet a s)"
    unfolding d using x by (auto split: if_splits)
  show "length (sc_mem (handle_packet a s)) = length (sc_mem s)"
    unfolding d using x by (auto split: if_splits)
qed

subsection \<open>The search over the addresses\<close>

fun visit :: "nat list \<Rightarrow> scan_state \<Rightarrow> scan_state" where
  "visit [] s = s"
| "visit (a # as) s = (if length (sc_group s) = GROUP_PARALLELISM then s else visit as (handle_packet a s))"

lemma visit_advance: "advanced s \<le> advanced (visit as s)" "\<not> can_advance s \<Longrightarrow> advanced (visit as s) = advanced s"
proof (induction as arbitrary: s)
  case (Cons a as)
  { case 1
    have "advanced s \<le> advanced (handle_packet a s)" using handle_packet_advance(1,2) [of a s] by fastforce
    then show ?case using Cons(1) [of "handle_packet a s"] by simp
  next
    case 2
    then show ?case using Cons(2) [of "handle_packet a s"] handle_packet_advance(2,3) [where s = s and a = a] by simp
  }
qed simp_all

lemma visit_full: "length (sc_group s) = GROUP_PARALLELISM \<Longrightarrow> visit as s = s"
  by (cases as) simp_all

text \<open>\<open>pkt\<close> is where the search is in the first range of \<open>clst\<close>.\<close>

definition scan_at :: "(nat \<times> nat) list \<Rightarrow> nat \<Rightarrow> scan_state \<Rightarrow> bool" where
  "scan_at clst pkt s \<longleftrightarrow>
     (case clst of [] \<Rightarrow> True
      | (st, en) # rest \<Rightarrow> st \<le> pkt \<and> pkt \<le> en \<and> TS_SIZE dvd (en - pkt) \<and> (can_advance s \<longrightarrow> pkt = st) \<and>
          (\<forall>(st, en) \<in> set rest. st \<le> en \<and> TS_SIZE dvd (en - st)))"

definition remaining :: "(nat \<times> nat) list \<Rightarrow> nat \<Rightarrow> nat list" where
  "remaining clst pkt = (case clst of [] \<Rightarrow> [] | (st, en) # rest \<Rightarrow> range_packets pkt en @ cluster_packets rest)"

lemma cluster_packets_simps [simp]:
  "cluster_packets [] = []" "cluster_packets ((st, en) # rest) = range_packets st en @ cluster_packets rest"
  "cluster_packets (xs @ ys) = cluster_packets xs @ cluster_packets ys"
  by (simp_all add: cluster_packets_def)

lemma remaining_start: "remaining rest (case rest of [] \<Rightarrow> 0 | (st, _) # _ \<Rightarrow> st) = cluster_packets rest"
  by (simp add: remaining_def split: list.split)

lemma scan_at_start: "\<forall>(st, en) \<in> set rest. st \<le> en \<and> TS_SIZE dvd (en - st) \<Longrightarrow>
    scan_at rest (case rest of [] \<Rightarrow> 0 | (st, _) # _ \<Rightarrow> st) s"
  by (auto simp: scan_at_def split: list.split)

lemma scan_visit:
  "scan_at clst pkt s \<Longrightarrow>
   snd (scan_packets fin clst pkt s) = visit (remaining clst pkt) s \<and>
   cluster_packets (fst (scan_packets fin clst pkt s)) =
     cluster_packets fin @ drop (advanced (visit (remaining clst pkt) s) - advanced s) (cluster_packets clst)"
proof (induction fin clst pkt s rule: scan_packets.induct)
  case (1 fin clst pkt s)
  show ?case
  proof (cases "length (sc_group s) = GROUP_PARALLELISM")
    case True
    then show ?thesis by (simp add: scan_packets.simps visit_full)
  next
    case f: False
    show ?thesis
    proof (cases clst)
      case Nil
      then show ?thesis using f by (simp add: scan_packets.simps remaining_def)
    next
      case (Cons r rest)
      obtain st en where r: "r = (st, en)" by fastforce
      note at = 1(3) [unfolded Cons r scan_at_def list.case prod.case]
      show ?thesis
      proof (cases "en \<le> pkt")
        case True
        let ?p = "case rest of [] \<Rightarrow> 0 | (st, _) # _ \<Rightarrow> st"
        have e: "scan_packets fin clst pkt s = scan_packets (fin @ [(st, en)]) rest ?p s"
          using True f Cons r by (subst scan_packets.simps) simp
        have m: "remaining clst pkt = cluster_packets rest"
          using True Cons r by (simp add: remaining_def range_packets_Nil)
        have d: "drop (advanced (visit X s) - advanced s) (range_packets st en @ Y) =
            range_packets st en @ drop (advanced (visit X s) - advanced s) Y" for X Y
          by (cases "can_advance s") (use at True in \<open>simp_all add: range_packets_Nil visit_advance(2)\<close>)
        have "scan_at rest ?p s" using at by (intro scan_at_start) blast
        from 1(1) [OF f Cons r [symmetric] True this]
        show ?thesis unfolding e m remaining_start by (simp add: Cons r d del: drop_append)
      next
        case False
        define s1 where "s1 = handle_packet pkt s"
        define st1 where "st1 = (if can_advance s1 then st + TS_SIZE else st)"
        have e: "scan_packets fin clst pkt s = scan_packets fin ((st1, en) # rest) (pkt + TS_SIZE) s1"
          using False f Cons r by (subst scan_packets.simps) (simp add: s1_def st1_def Let_def)
        have lt: "pkt < en" using False by simp
        note rc = range_packets_Cons [OF lt, OF conjunct1 [OF conjunct2 [OF conjunct2 [OF at]]]]
        have adv: "can_advance s1 \<Longrightarrow> can_advance s \<and> advanced s1 = advanced s + 1"
          "\<not> can_advance s1 \<Longrightarrow> advanced s1 = advanced s"
          unfolding s1_def by (rule handle_packet_advance, assumption)+
        have at1: "scan_at ((st1, en) # rest) (pkt + TS_SIZE) s1"
          using at rc(2,3) adv by (auto simp: scan_at_def st1_def)
        have m: "remaining clst pkt = pkt # remaining ((st1, en) # rest) (pkt + TS_SIZE)"
          using rc(1) by (simp add: remaining_def Cons r)
        have v: "visit (remaining clst pkt) s = visit (remaining ((st1, en) # rest) (pkt + TS_SIZE)) s1"
          unfolding m using f by (simp add: s1_def)
        have "drop (advanced (visit X s1) - advanced s1) (cluster_packets ((st1, en) # rest)) =
            drop (advanced (visit X s1) - advanced s) (cluster_packets clst)" for X
        proof (cases "can_advance s1")
          case True
          then have "cluster_packets clst = pkt # cluster_packets ((st1, en) # rest)"
            using at adv(1) rc(1) by (simp add: Cons r st1_def)
          moreover have "advanced (visit X s1) - advanced s = Suc (advanced (visit X s1) - advanced s1)"
            using adv(1) [OF True] visit_advance(1) [of s1 X] by simp
          ultimately show ?thesis by simp
        next
          case False
          then show ?thesis using adv(2) visit_advance(2) [of s1 X] by (simp add: Cons r st1_def)
        qed
        with 1(2) [OF f Cons r [symmetric] False s1_def st1_def at1] show ?thesis
          unfolding e v by simp
      qed
    qed
  qed
qed

lemma compact_packets: "cluster_packets (compact_ranges cluster) = cluster_packets cluster"
  by (induction cluster) (auto simp: compact_ranges_def range_packets_Nil)

subsection \<open>What the search has done\<close>

definition unmark :: "bytes \<Rightarrow> bytes" where
  "unmark p = (if scrambled p then clear_bits p else p)"

definition has_work :: "bytes \<Rightarrow> bool" where
  "has_work p \<longleftrightarrow> scrambled p \<and> full_blocks p \<noteq> 0"

definition picked :: "bool list \<Rightarrow> nat list \<Rightarrow> bytes list \<Rightarrow> gpkt list" where
  "picked bs as ps = concat (map (\<lambda>(b, a, p). if b \<and> has_work p then [gpkt_of a p] else []) (zip bs (zip as ps)))"

lemma picked_simps [simp]:
  "picked [] as ps = []" "picked (b # bs) (a # as) (p # ps) = (if b \<and> has_work p then [gpkt_of a p] else []) @ picked bs as ps"
  by (simp_all add: picked_def)

definition visited :: "nat list \<Rightarrow> bool \<Rightarrow> scan_state \<Rightarrow> scan_state \<Rightarrow> bool" where
  "visited as par s s' \<longleftrightarrow>
     (let ps = map (\<lambda>a. pk a (sc_mem s)) as; bs = selected (length (sc_group s)) par ps in
      length (sc_mem s') = length (sc_mem s) \<and>
      (\<forall>x. (\<forall>a \<in> set as. \<not> (a \<le> x \<and> x < a + TS_SIZE)) \<longrightarrow> sc_mem s' ! x = sc_mem s ! x) \<and>
      map (\<lambda>a. pk a (sc_mem s')) as = map2 (\<lambda>b p. if b then unmark p else p) bs ps \<and>
      sc_group s' = sc_group s @ picked bs as ps \<and>
      length (sc_group s') \<le> GROUP_PARALLELISM \<and>
      (\<exists>par'. (sc_group s' \<noteq> [] \<longrightarrow> group_ev_od s' = (if par' then 1 else 0)) \<and> (sc_group s \<noteq> [] \<longrightarrow> par' = par) \<and>
         (\<forall>(b, p) \<in> set (zip bs ps). b \<and> has_work p \<longrightarrow> odd_parity_bit p = par')) \<and>
      advanced s' = advanced s + (if can_advance s then length (takeWhile id bs) else 0))"

lemma selected_full: "selected GROUP_PARALLELISM par ps = replicate (length ps) False"
  by (induction ps) simp_all

lemma length_selected [simp]: "length (selected n par ps) = length ps"
  by (induction n par ps rule: selected.induct) (simp_all add: Let_def)

lemma pk_cong:
  "length mem' = length mem \<Longrightarrow> (\<And>x. a \<le> x \<Longrightarrow> x < a + TS_SIZE \<Longrightarrow> mem' ! x = mem ! x) \<Longrightarrow> pk a mem' = pk a mem"
  by (rule nth_equalityI) (auto simp: pk_def)

lemma pk_clear: "a + TS_SIZE \<le> length mem \<Longrightarrow> pk a (mem[a + 3 := pk a mem ! 3 AND 0x3f]) = clear_bits (pk a mem)"
  by (intro nth_equalityI) (auto simp: nth_pk clear_bits_def nth_list_update)

lemma pk_update: "apart a b \<Longrightarrow> pk b (mem[a + 3 := v]) = pk b mem"
  by (intro pk_cong) (auto simp: apart_def nth_list_update)

lemma visited_full:
  assumes "length (sc_group s) = GROUP_PARALLELISM" "sc_group s \<noteq> [] \<Longrightarrow> group_ev_od s = (if par then 1 else 0)"
  shows "visited as par s s"
proof -
  have m: "map2 (\<lambda>b p. if b then unmark p else p) (replicate (length ps) False) ps = ps"
    "picked (replicate (length ps) False) as ps = []" "\<forall>(b, p) \<in> set (zip (replicate (length ps) False) ps). \<not> b" for ps as
  proof -
    show "map2 (\<lambda>b p. if b then unmark p else p) (replicate (length ps) False) ps = ps"
      by (induction ps) simp_all
    show "\<forall>(b, p) \<in> set (zip (replicate (length ps) False) ps). \<not> b"
      by (auto simp: set_zip)
    show "picked (replicate (length ps) False) as ps = []"
      by (auto simp: picked_def set_zip)
  qed
  have t: "takeWhile id (replicate n False) = []" for n by (cases n) simp_all
  have z: "\<forall>(b, p) \<in> set (zip (replicate (length ps) False) ps). b \<and> has_work p \<longrightarrow> odd_parity_bit p = par" for ps
    by (auto simp: set_zip)
  show ?thesis
    unfolding visited_def assms(1) selected_full Let_def m t
    by (intro conjI exI [of _ par] z impI) (simp_all add: assms)
qed

lemma visited_step:
  assumes as: "sorted_wrt apart (a # as)" "\<forall>b \<in> set (a # as). b + TS_SIZE \<le> length (sc_mem s)"
    and n: "length (sc_group s) < GROUP_PARALLELISM"
    and c: "selected (length (sc_group s)) par (p # ps) = c # selected (length (sc_group s1)) par1 ps" "p = pk a (sc_mem s)"
    and s1: "sc_mem s1 = (if c \<and> scrambled p then (sc_mem s)[a + 3 := p ! 3 AND 0x3f] else sc_mem s)"
      "sc_group s1 = sc_group s @ (if c \<and> has_work p then [gpkt_of a p] else [])"
      "advanced s1 = advanced s + (if can_advance s \<and> c then 1 else 0)" "can_advance s1 \<longleftrightarrow> can_advance s \<and> c"
      "sc_group s \<noteq> [] \<Longrightarrow> par1 = par" "c \<and> has_work p \<Longrightarrow> par1 = odd_parity_bit p"
    and ps: "ps = map (\<lambda>a. pk a (sc_mem s)) as"
    and IH: "visited as par1 s1 s'"
  shows "visited (a # as) par s s'"
proof -
  have l1: "length (sc_mem s1) = length (sc_mem s)" using s1(1) by simp
  have ps1: "map (\<lambda>a. pk a (sc_mem s1)) as = ps"
    unfolding ps using as c(2) by (auto simp: s1(1) pk_update)
  note IH = IH [unfolded visited_def ps1 Let_def]
  let ?bs = "selected (length (sc_group s1)) par1 ps"
  have "pk a (sc_mem s') = pk a (sc_mem s1)"
  proof (rule pk_cong)
    show "length (sc_mem s') = length (sc_mem s1)" using IH by blast
    fix x assume "a \<le> x" "x < a + TS_SIZE"
    then have "\<forall>b \<in> set as. \<not> (b \<le> x \<and> x < b + TS_SIZE)" using as(1) by (auto simp: apart_def)
    then show "sc_mem s' ! x = sc_mem s1 ! x" using IH by blast
  qed
  also have "\<dots> = (if c then unmark p else p)"
    using as(2) by (auto simp: s1(1) unmark_def c(2) pk_clear)
  finally have pa: "pk a (sc_mem s') = (if c then unmark p else p)" .
  have out: "sc_mem s1 ! x = sc_mem s ! x" if "\<not> (a \<le> x \<and> x < a + TS_SIZE)" for x
    using that by (auto simp: s1(1) nth_list_update)
  obtain par' where par': "sc_group s' \<noteq> [] \<longrightarrow> group_ev_od s' = (if par' then 1 else 0)" "sc_group s1 \<noteq> [] \<longrightarrow> par' = par1"
    "\<forall>(b, p) \<in> set (zip ?bs ps). b \<and> has_work p \<longrightarrow> odd_parity_bit p = par'"
    using IH by blast
  have q: "sc_group s \<noteq> [] \<longrightarrow> par' = par" "c \<and> has_work p \<longrightarrow> odd_parity_bit p = par'"
    using par'(2) s1(2,5,6) by auto
  have ms: "map (\<lambda>a. pk a (sc_mem s)) (a # as) = p # ps" by (simp add: ps c(2))
  show ?thesis
    unfolding visited_def ms c(1) Let_def
  proof (intro conjI exI [of _ par'])
    show "length (sc_mem s') = length (sc_mem s)" using IH l1 by simp
    show "\<forall>x. (\<forall>a \<in> set (a # as). \<not> (a \<le> x \<and> x < a + TS_SIZE)) \<longrightarrow> sc_mem s' ! x = sc_mem s ! x"
      using IH out by simp
    show "map (\<lambda>a. pk a (sc_mem s')) (a # as) = map2 (\<lambda>b p. if b then unmark p else p) (c # ?bs) (p # ps)"
      using IH pa by simp
    show "sc_group s' = sc_group s @ picked (c # ?bs) (a # as) (p # ps)" using IH s1(2) by simp
    show "length (sc_group s') \<le> GROUP_PARALLELISM" using IH by blast
    show "sc_group s' \<noteq> [] \<longrightarrow> group_ev_od s' = (if par' then 1 else 0)" by (rule par'(1))
    show "sc_group s \<noteq> [] \<longrightarrow> par' = par" by (rule q)
    show "\<forall>(b, p) \<in> set (zip (c # ?bs) (p # ps)). b \<and> has_work p \<longrightarrow> odd_parity_bit p = par'"
      using par'(3) q(2) by simp
    show "advanced s' = advanced s + (if can_advance s then length (takeWhile id (c # ?bs)) else 0)"
      using IH s1(3,4) by simp
  qed
qed

lemma visit_visited:
  "sorted_wrt apart as \<Longrightarrow> \<forall>a \<in> set as. a + TS_SIZE \<le> length (sc_mem s) \<Longrightarrow> length (sc_group s) \<le> GROUP_PARALLELISM \<Longrightarrow>
   (sc_group s \<noteq> [] \<Longrightarrow> group_ev_od s = (if par then 1 else 0)) \<Longrightarrow> visited as par s (visit as s)"
proof (induction as arbitrary: s par)
  case Nil
  then show ?case by (auto simp: visited_def)
next
  case (Cons a as)
  show ?case
  proof (cases "length (sc_group s) = GROUP_PARALLELISM")
    case True
    show ?thesis using visited_full [OF True Cons.prems(4)] True by simp
  next
    case False
    then have n: "length (sc_group s) < GROUP_PARALLELISM" using Cons.prems(3) by simp
    define p where "p = pk a (sc_mem s)"
    define s1 where "s1 = handle_packet a s"
    have a: "a + TS_SIZE \<le> length (sc_mem s)" using Cons.prems(2) by simp
    have hp: "\<not> scrambled p \<Longrightarrow> s1 = advance s"
      "scrambled p \<Longrightarrow> sc_group s = [] \<or> odd_parity_bit p = par \<Longrightarrow> s1 = take_packet a p s"
      "scrambled p \<Longrightarrow> sc_group s \<noteq> [] \<Longrightarrow> odd_parity_bit p \<noteq> par \<Longrightarrow> s1 = s\<lparr>can_advance := False\<rparr>"
      unfolding s1_def
      by (erule handle_packet_cases [OF a p_def, of par, rotated -1]; use Cons.prems(4) in blast)+
    have v: "visit (a # as) s = visit as s1" using False by (simp add: s1_def)
    have l: "length (sc_mem s1) = length (sc_mem s)" by (simp add: s1_def handle_packet_advance(4))
    note IH = Cons.IH [of s1, unfolded l]
    show ?thesis
    proof (cases "scrambled p")
      case False
      have e: "s1 = advance s" by (rule hp(1) [OF False])
      have "visited as par s1 (visit as s1)"
        by (rule IH) (use Cons.prems in \<open>simp_all add: e advance_def\<close>)
      then show ?thesis
        unfolding v using Cons.prems(1,2) n
        by (rule visited_step [where c = True and p = p and ps = "map (\<lambda>a. pk a (sc_mem s)) as", rotated -1])
          (use False n in \<open>simp_all add: e advance_def p_def has_work_def\<close>)
    next
      case sc: True
      show ?thesis
      proof (cases "sc_group s = [] \<or> odd_parity_bit p = par")
        case True
        have e: "s1 = take_packet a p s" by (rule hp(2) [OF sc True])
        have "visited as (odd_parity_bit p) s1 (visit as s1)"
          by (rule IH) (use Cons.prems n in \<open>simp_all add: e take_packet_def advance_def\<close>)
        then show ?thesis
          unfolding v using Cons.prems(1,2) n
          by (rule visited_step [where c = True and p = p and ps = "map (\<lambda>a. pk a (sc_mem s)) as", rotated -1])
            (use sc n True in \<open>auto simp: e take_packet_def advance_def p_def has_work_def Let_def\<close>)
      next
        case False
        then have f: "sc_group s \<noteq> []" "odd_parity_bit p \<noteq> par" by simp_all
        have e: "s1 = s\<lparr>can_advance := False\<rparr>" by (rule hp(3) [OF sc f])
        have "visited as par s1 (visit as s1)"
          by (rule IH) (use Cons.prems in \<open>simp_all add: e\<close>)
        then show ?thesis
          unfolding v using Cons.prems(1,2) n
          by (rule visited_step [where c = False and p = p and ps = "map (\<lambda>a. pk a (sc_mem s)) as", rotated -1])
            (use sc n f in \<open>simp_all add: e p_def Let_def\<close>)
      qed
    qed
  qed
qed

end
