(* ===== verification/Decrypt.thy ===== *)
theory Decrypt
  imports DecryptScan
begin

text \<open>
  \<open>decrypt_packets\<close> implements its specification: every packet of the cluster that the call selects is
  descrambled by the reference with the key of its parity, everything else in memory stays as it is, the
  result is the number of packets at the front of the cluster that are done, and the cluster returned
  consists of the others. With the reference round trip, packets scrambled with the control words are
  recovered.
\<close>

subsection \<open>The group as a selection of the packets\<close>

lemma apart_irrefl: "\<not> apart a a"
  by (simp add: apart_def)

lemma sorted_apart: "sorted_wrt apart as \<Longrightarrow> distinct as"
  "sorted_wrt apart as \<Longrightarrow> a \<in> set as \<Longrightarrow> b \<in> set as \<Longrightarrow> a \<noteq> b \<Longrightarrow> apart a b"
  by (induction as) (auto simp: apart_irrefl intro: apart_sym)

lemma g_pkt_picked:
  "length bs = length ps \<Longrightarrow> length as = length ps \<Longrightarrow> distinct as \<Longrightarrow>
     set (map g_pkt (picked bs as ps)) \<subseteq> set as \<and> distinct (map g_pkt (picked bs as ps))"
proof (induction bs ps arbitrary: as rule: list_induct2)
  case (Cons b bs p ps)
  then obtain a as' where "as = a # as'" by (cases as) auto
  then show ?case using Cons.IH [of as'] Cons.prems by (auto simp: gpkt_of_def)
qed simp

lemma set_picked:
  "gp \<in> set (picked bs as ps) \<longleftrightarrow> (\<exists>i < length bs. i < length as \<and> i < length ps \<and> bs ! i \<and> has_work (ps ! i) \<and>
     gp = gpkt_of (as ! i) (ps ! i))"
  by (force simp: picked_def set_zip)

lemma group_ok_perm:
  assumes "sorted_wrt apart as" "\<forall>a \<in> set as. a + TS_SIZE \<le> L" "length bs = length ps" "length as = length ps"
    "mset gs = mset (picked bs as ps)" "length gs \<le> GROUP_PARALLELISM"
  shows "group_ok L gs"
proof -
  have set: "set gs = set (picked bs as ps)" using assms(5) by (rule mset_eq_setD)
  note sub = g_pkt_picked [OF assms(3,4) sorted_apart(1) [OF assms(1)]]
  have s: "set (map g_pkt gs) \<subseteq> set as" using sub set by simp
  have "mset (map g_pkt gs) = mset (map g_pkt (picked bs as ps))" using assms(5) by simp
  then have d: "distinct (map g_pkt gs)" using sub mset_eq_imp_distinct_iff by blast
  have ok: "gpkt_ok gp" if "gp \<in> set gs" for gp
    using that unfolding set set_picked has_work_def by (auto intro: gpkt_ok_of)
  have ap: "apart (g_pkt (gs ! g)) (g_pkt (gs ! h))" if "g < length gs" "h < length gs" "g \<noteq> h" for g h
  proof (rule sorted_apart(2) [OF assms(1)])
    show "g_pkt (gs ! g) \<in> set as" "g_pkt (gs ! h) \<in> set as" using s that by auto
    show "g_pkt (gs ! g) \<noteq> g_pkt (gs ! h)" using d that nth_eq_iff_index_eq [of "map g_pkt gs" g h] by simp
  qed
  show ?thesis
    unfolding group_ok_def using assms(2,6) ok ap s by auto
qed

lemma descramble_no_work: "\<not> has_work p \<Longrightarrow> length p = TS_SIZE \<Longrightarrow> descramble keys p = unmark p"
  by (auto simp: has_work_def descramble_def unmark_def Let_def csa_decrypt_def full_blocks_def clear_keeps)

lemma descramble_finished:
  assumes "has_work p"
  shows "finished (choose_key keys (if odd_parity_bit p then 1 else 0)) (gpkt_of a p) (unmark p) = descramble keys p"
  using assms
  by (simp add: finished_def has_work_def descramble_def unmark_def Let_def choose_key_def gpkt_of_def payload_def)

subsection \<open>The iterations on the sorted group\<close>

lemma iterations_ok:
  assumes ok: "group_ok (length mem0) gs2" and al: "alive_ok gs2 alive" and k: "wf_key k" and J: "junk_ok J"
  defines "mem' \<equiv> iter_23 k alive J (iter_loop k gs2 alive J 1 (iter_0 k gs2 alive J mem0))"
  shows "length mem' = length mem0" "outside gs2 x \<Longrightarrow> mem' ! x = mem0 ! x"
    "gp \<in> set gs2 \<Longrightarrow> pk (g_pkt gp) mem' = finished k gp (pk (g_pkt gp) mem0)"
proof -
  obtain i where i: "1 \<le> i" "i \<le> 23" "state_ok k gs2 mem0 i (iter_loop k gs2 alive J 1 (iter_0 k gs2 alive J mem0))"
    "i = 23 \<or> alive ! (i - 1) = 0"
    using iter_loop_ok [OF ok al k J _ _ iter_0_ok [OF ok al k J]] by auto
  note f = iter_23_ok [OF ok al k J i(3,1,2,4), folded mem'_def]
  show "length mem' = length mem0" by (rule f(1))
  show "outside gs2 x \<Longrightarrow> mem' ! x = mem0 ! x" by (rule f(2))
  show "gp \<in> set gs2 \<Longrightarrow> pk (g_pkt gp) mem' = finished k gp (pk (g_pkt gp) mem0)"
    using f(3) by (auto simp: in_set_conv_nth)
qed

lemma sorted_group_ok:
  assumes g: "\<forall>gp \<in> set gs. 1 \<le> g_n gp \<and> g_n gp \<le> 23" "sort_step1 gs 0 (int (length gs) - 1) = (gs1, t)"
  shows "alive_ok (sort_step2 t gs1) (count_alive t (sort_step2 t gs1))"
proof -
  note s = sorted_group [OF g]
  have "length (sort_step2 t gs1) = length gs" using s(1) by (rule mset_eq_length)
  then show ?thesis using s(2,3) by (simp add: alive_ok_def)
qed

subsection \<open>The whole function\<close>

lemma length_pk_nth:
  "\<forall>a \<in> set as. a + TS_SIZE \<le> length mem \<Longrightarrow> i < length as \<Longrightarrow> length (map (\<lambda>a. pk a mem) as ! i) = TS_SIZE"
  using nth_mem [of i as] by fastforce

text \<open>The memory after the search, and after the iterations, packet by packet.\<close>

lemma decrypted_memory:
  assumes v: "visited as False s0 s" and s0: "sc_mem s0 = mem" "sc_group s0 = []"
    and as: "sorted_wrt apart as" "\<forall>a \<in> set as. a + TS_SIZE \<le> length mem"
    and ps: "ps = map (\<lambda>a. pk a mem) as" and bs: "bs = selected 0 False ps"
    and gs: "mset gs2 = mset (sc_group s)" "alive_ok gs2 alive" "sc_group s \<noteq> []"
    and keys: "wf_keys keys" and J: "junk_ok J"
    and k: "k = choose_key keys (group_ev_od s)"
    and mem': "mem' = iter_23 k alive J (iter_loop k gs2 alive J 1 (iter_0 k gs2 alive J (sc_mem s)))"
  shows "length mem' = length mem \<and> (\<forall>x. (\<forall>a \<in> set as. \<not> (a \<le> x \<and> x < a + TS_SIZE)) \<longrightarrow> mem' ! x = mem ! x) \<and>
    map (\<lambda>a. pk a mem') as = map2 (\<lambda>b p. if b then descramble keys p else p) bs ps"
proof -
  note v = v [unfolded visited_def Let_def s0 ps [symmetric] list.size bs [symmetric], simplified]
  have len: "length bs = length ps" "length as = length ps" by (simp_all add: bs ps)
  have l: "length (sc_mem s) = length mem" using v by blast
  have g: "sc_group s = picked bs as ps" using v by blast
  have lg: "length gs2 = length (sc_group s)" using gs(1) by (rule mset_eq_length)
  have sg: "set gs2 = set (picked bs as ps)" using gs(1) unfolding g by (rule mset_eq_setD)
  have ok: "group_ok (length (sc_mem s)) gs2"
    by (rule group_ok_perm [OF as(1) _ len]) (use as(2) l gs(1) g v lg in auto)
  obtain par' where par: "group_ev_od s = (if par' then 1 else 0)"
    "\<forall>(b, p) \<in> set (zip bs ps). b \<and> has_work p \<longrightarrow> odd_parity_bit p = par'"
    using v gs(3) by blast
  have "wf_key k" using keys by (simp add: k choose_key_def wf_keys_def)
  note it = iterations_ok [OF ok gs(2) this J, folded mem']
  have sub: "g_pkt gp \<in> set as" if "gp \<in> set gs2" for gp
    using that g_pkt_picked [OF len sorted_apart(1) [OF as(1)]] unfolding sg by auto
  have packet: "pk (as ! i) mem' = (if bs ! i then descramble keys (ps ! i) else ps ! i)" if i: "i < length as" for i
  proof -
    have m: "pk (as ! i) (sc_mem s) = (if bs ! i then unmark (ps ! i) else ps ! i)"
    proof -
      have "map (\<lambda>a. pk a (sc_mem s)) as ! i = map2 (\<lambda>b p. if b then unmark p else p) bs ps ! i" using v by simp
      then show ?thesis using i len by simp
    qed
    have lp: "length (ps ! i) = TS_SIZE" unfolding ps by (rule length_pk_nth [OF as(2) i])
    show ?thesis
    proof (cases "bs ! i \<and> has_work (ps ! i)")
      case True
      then have "gpkt_of (as ! i) (ps ! i) \<in> set gs2" unfolding sg set_picked using i len by auto
      from it(3) [OF this] have "pk (as ! i) mem' = finished k (gpkt_of (as ! i) (ps ! i)) (unmark (ps ! i))"
        using True m by (simp add: gpkt_of_def)
      moreover have "(bs ! i, ps ! i) \<in> set (zip bs ps)" using i len by (auto simp: set_zip)
      then have "k = choose_key keys (if odd_parity_bit (ps ! i) then 1 else 0)"
        using par True by (auto simp: k)
      ultimately show ?thesis using True descramble_finished by simp
    next
      case False
      have "pk (as ! i) mem' = pk (as ! i) (sc_mem s)"
      proof (rule pk_cong)
        show "length mem' = length (sc_mem s)" by (rule it(1))
        fix x assume x: "as ! i \<le> x" "x < as ! i + TS_SIZE"
        have "\<not> (g_pkt gp \<le> x \<and> x < g_pkt gp + TS_SIZE)" if gp: "gp \<in> set gs2" for gp
        proof -
          obtain j where j: "j < length as" "bs ! j" "has_work (ps ! j)" "g_pkt gp = as ! j"
            using gp unfolding sg set_picked by (auto simp: gpkt_of_def)
          then have "j \<noteq> i" using False by auto
          then have "as ! j \<noteq> as ! i"
            using nth_eq_iff_index_eq [OF sorted_apart(1) [OF as(1)] j(1) i] by simp
          then have "apart (as ! j) (as ! i)" using sorted_apart(2) [OF as(1)] i j(1) by simp
          then show ?thesis using x by (auto simp: j(4) apart_def)
        qed
        then show "mem' ! x = sc_mem s ! x" by (intro it(2)) (simp add: outside_def)
      qed
      then show ?thesis using False m descramble_no_work [OF _ lp] by auto
    qed
  qed
  show ?thesis
  proof (intro conjI allI impI)
    show "length mem' = length mem" using it(1) l by simp
    fix x assume x: "\<forall>a \<in> set as. \<not> (a \<le> x \<and> x < a + TS_SIZE)"
    then have "outside gs2 x" using sub by (simp add: outside_def)
    then show "mem' ! x = mem ! x" using it(2) x v by simp
  next
    show "map (\<lambda>a. pk a mem') as = map2 (\<lambda>b p. if b then descramble keys p else p) bs ps"
      using packet len by (intro nth_equalityI) auto
  qed
qed

lemma no_group_memory:
  assumes v: "visited as False s0 s" and s0: "sc_mem s0 = mem" "sc_group s0 = []" and g: "sc_group s = []"
    and as: "\<forall>a \<in> set as. a + TS_SIZE \<le> length mem"
    and ps: "ps = map (\<lambda>a. pk a mem) as" and bs: "bs = selected 0 False ps"
  shows "map (\<lambda>a. pk a (sc_mem s)) as = map2 (\<lambda>b p. if b then descramble keys p else p) bs ps"
proof -
  note v = v [unfolded visited_def Let_def s0 ps [symmetric] list.size bs [symmetric], simplified]
  have len: "length bs = length ps" "length as = length ps" by (simp_all add: bs ps)
  have "picked bs as ps = []" using v g by simp
  then have n: "\<not> (bs ! i \<and> has_work (ps ! i))" if "i < length ps" for i
    using set_picked [of "gpkt_of (as ! i) (ps ! i)" bs as ps] that len by auto
  have "map2 (\<lambda>b p. if b then unmark p else p) bs ps = map2 (\<lambda>b p. if b then descramble keys p else p) bs ps"
  proof (rule map_cong [OF refl])
    fix bp assume "bp \<in> set (zip bs ps)"
    then obtain i where i: "i < length ps" "bp = (bs ! i, ps ! i)" using len by (auto simp: set_zip)
    have "length (ps ! i) = TS_SIZE" unfolding ps by (rule length_pk_nth [OF as]) (use i len in simp)
    then show "(case bp of (b, p) \<Rightarrow> if b then unmark p else p) = (case bp of (b, p) \<Rightarrow> if b then descramble keys p else p)"
      using n [OF i(1)] descramble_no_work unfolding i(2) by simp
  qed
  then show ?thesis using v by simp
qed

text \<open>The function in its three parts: search, sort, iterate.\<close>

lemma decrypt_packets_spec:
  assumes c: "cluster_ok mem cluster" and keys: "wf_keys keys" and J: "junk_ok J"
    and d: "decrypt_packets keys J mem cluster = (mem', cluster', n)"
    and as: "as = cluster_packets cluster" and ps: "ps = map (\<lambda>a. pk a mem) as" and bs: "bs = selected 0 False ps"
  shows "length mem' = length mem \<and> (\<forall>x. (\<forall>a \<in> set as. \<not> (a \<le> x \<and> x < a + TS_SIZE)) \<longrightarrow> mem' ! x = mem ! x) \<and>
    map (\<lambda>a. pk a mem') as = map2 (\<lambda>b p. if b then descramble keys p else p) bs ps \<and>
    n = length (takeWhile id bs) \<and> cluster_packets cluster' = drop n as"
proof -
  define s0 where "s0 = \<lparr>sc_mem = mem, sc_group = [], group_ev_od = -1, advanced = 0, can_advance = True\<rparr>"
  define start :: nat where "start = (case cluster of [] \<Rightarrow> 0 | (st, _) # _ \<Rightarrow> st)"
  obtain c1 s where cs: "scan_packets [] cluster start s0 = (c1, s)" by fastforce
  have "scan_at cluster start s0"
    unfolding start_def by (rule scan_at_start) (use c in \<open>auto simp: cluster_ok_def\<close>)
  note sv = scan_visit [OF this, of "[]", unfolded cs fst_conv snd_conv]
  have r: "remaining cluster start = as" by (simp only: start_def remaining_start as)
  have s: "s = visit as s0" using sv unfolding r by blast
  have "advanced s0 = 0" by (simp add: s0_def)
  then have c1: "cluster_packets c1 = drop (advanced s) as" using sv unfolding r s [symmetric] by (simp add: as)
  have sw: "sorted_wrt apart as" using c by (simp add: cluster_ok_def as)
  have le: "\<forall>a \<in> set as. a + TS_SIZE \<le> length mem"
  proof
    fix a assume "a \<in> set as"
    then obtain st en where r: "(st, en) \<in> set cluster" "a \<in> set (range_packets st en)"
      by (auto simp: as cluster_packets_def)
    then have e: "st \<le> en" "TS_SIZE dvd (en - st)" "en \<le> length mem" using c by (auto simp: cluster_ok_def)
    obtain i where i: "a = st + TS_SIZE * i" "i < (en - st) div TS_SIZE" using r(2) by (auto simp: range_packets_def)
    then have "Suc i * 188 \<le> (en - st) div 188 * 188" by (intro mult_le_mono1) simp
    also have "\<dots> = en - st" using e(2) by simp
    finally show "a + TS_SIZE \<le> length mem" using e(1,3) by (simp add: i(1))
  qed
  have v: "visited as False s0 s"
    unfolding s by (rule visit_visited [OF sw]) (use le in \<open>simp_all add: s0_def\<close>)
  have s0: "sc_mem s0 = mem" "sc_group s0 = []" "advanced s0 = 0" "can_advance s0" by (simp_all add: s0_def)
  note v' = v [unfolded visited_def Let_def s0 ps [symmetric] list.size bs [symmetric], simplified]
  have n: "advanced s = length (takeWhile id bs)" using v' s0(4) by simp
  note D = d [unfolded decrypt_packets_def s0_def [symmetric] start_def [symmetric] cs prod.case Let_def]
  have clu: "n = advanced s \<and> cluster_packets cluster' = drop n as"
    using D c1 by (auto simp: compact_packets split: if_splits prod.splits)
  have "length mem' = length mem \<and> (\<forall>x. (\<forall>a \<in> set as. \<not> (a \<le> x \<and> x < a + TS_SIZE)) \<longrightarrow> mem' ! x = mem ! x) \<and>
    map (\<lambda>a. pk a mem') as = map2 (\<lambda>b p. if b then descramble keys p else p) bs ps"
  proof (cases "sc_group s = []")
    case True
    then have "mem' = sc_mem s" using D by simp
    then show ?thesis using no_group_memory [OF v s0(1,2) True le ps bs, of keys] v' by simp
  next
    case False
    obtain gs1 t where g: "sort_step1 (sc_group s) 0 (int (length (sc_group s)) - 1) = (gs1, t)" by fastforce
    define gs2 where "gs2 = sort_step2 t gs1"
    have m: "mem' = iter_23 (choose_key keys (group_ev_od s)) (count_alive t gs2) J
        (iter_loop (choose_key keys (group_ev_od s)) gs2 (count_alive t gs2) J 1
          (iter_0 (choose_key keys (group_ev_od s)) gs2 (count_alive t gs2) J (sc_mem s)))"
      using D False g by (simp add: gs2_def)
    have "sc_group s = picked bs as ps" using v' by blast
    then have ok: "\<forall>gp \<in> set (sc_group s). 1 \<le> g_n gp \<and> g_n gp \<le> 23"
      using gpkt_ok_of by (auto simp: set_picked has_work_def gpkt_ok_def) 
    have "mset gs2 = mset (sc_group s)" unfolding gs2_def by (rule sorted_group(1) [OF ok g])
    moreover have "alive_ok gs2 (count_alive t gs2)" unfolding gs2_def by (rule sorted_group_ok [OF ok g])
    ultimately show ?thesis
      by (rule decrypted_memory [OF v s0(1,2) sw le ps bs _ _ False keys J refl m])
  qed
  then show ?thesis using clu n by simp
qed

subsection \<open>A concrete cluster\<close>

definition junk0 :: junk where
  "junk0 = (let z = Nib 0 0 0 0 in
     \<lparr>j_stream_in = replicate 64 1, j_regs = \<lparr>rA = replicate 42 z, rB = replicate 42 z, rX = z, rY = z, rZ = z, rD = z,
        rE = z, rF = z, rp = 0, rq = 0, rr = 0\<rparr>, j_ib = replicate 64 2, j_block_out = replicate 64 3,
      j_stream_out = replicate 64 4, j_rows = (\<lambda>i. replicate 64 (replicate 8 5))\<rparr>)"

definition keys0 :: csa_keys_t where
  "keys0 = (let k = schedule_key [1, 2, 3, 6, 5, 6, 7, 18] 0 in
     \<lparr>even_key = k, odd_key = schedule_key [9, 2, 3, 14, 5, 6, 7, 18] 4,
      fastecm = Init_FastECM True \<lparr>nextparity = 0, evenparityTime = 0, oddparityTime = 0, csaSid = 0, csaCaid = 0, csaPid = 0,
        activparity = [], activparity2 = []\<rparr>\<rparr>)"

lemma junk0_ok: "junk_ok junk0"
  by (simp add: junk0_def Let_def junk_ok_def wf_regs_def wf_rows_def)

lemma keys0_ok: "wf_keys keys0"
  by (simp add: keys0_def Let_def wf_keys_def wf_schedule_key wf_Init_FastECM)

lemma two_ranges: "cluster_packets [(0, 188), (188, 376)] = [0, 188]"
  by (simp add: cluster_packets_def range_packets_def)

lemma two_ranges_ok: "length mem = 376 \<Longrightarrow> cluster_ok mem [(0, 188), (188, 376)]"
  unfolding cluster_ok_def two_ranges by (simp add: apart_def)

text \<open>C1: in the 32-bit mode, for every cluster of ranges of whole packets that do not overlap, the call
  descrambles by the reference, with the key of its own parity, each packet the specification selects, touches
  no other byte, returns the number of packets at the front that are done, and leaves the others in the cluster.\<close>

theorem decrypt_packets_refines:
  assumes "cluster_ok mem cluster" "wf_keys keys" "junk_ok J"
    "decrypt_packets keys J mem cluster = (mem', cluster', n)"
  shows "let as = cluster_packets cluster; ps = map (\<lambda>a. pk a mem) as; bs = selected 0 False ps in
    length mem' = length mem \<and> (\<forall>x. (\<forall>a \<in> set as. \<not> (a \<le> x \<and> x < a + TS_SIZE)) \<longrightarrow> mem' ! x = mem ! x) \<and>
    map (\<lambda>a. pk a mem') as = map2 (\<lambda>b p. if b then descramble keys p else p) bs ps \<and>
    n = length (takeWhile id bs) \<and> cluster_packets cluster' = drop n as"
  unfolding Let_def by (rule decrypt_packets_spec [OF assms refl refl refl])

theorem decrypt_packets_refines_witness:
  "case decrypt_packets keys0 junk0 (replicate 376 0x80) [(0, 188), (188, 376)] of (mem', cluster', n) \<Rightarrow>
     pk 188 mem' = descramble keys0 (replicate 188 0x80) \<and> n = 2 \<and> cluster_packets cluster' = []"
proof -
  obtain mem' cluster' n where d:
    "decrypt_packets keys0 junk0 (replicate 376 0x80) [(0, 188), (188, 376)] = (mem', cluster', n)"
    by (metis prod_cases3)
  have c: "cluster_ok (replicate 376 0x80) [(0, 188), (188, 376)]"
    by (simp add: two_ranges_ok)
  have p: "pk 0 (replicate 376 (0x80 :: u8)) = replicate 188 0x80" "pk 188 (replicate 376 (0x80 :: u8)) = replicate 188 0x80"
    by (simp_all add: pk_def)
  have s: "scrambled (replicate 188 0x80)" "odd_parity_bit (replicate 188 0x80) = False"
    by (simp_all add: scrambled_def odd_parity_bit_def)
  have b: "selected 0 False [replicate 188 0x80, replicate 188 0x80] = [True, True]"
    by (simp only: selected.simps s Let_def) (simp only: simp_thms if_True if_False split: if_split, simp)
  show ?thesis
    using decrypt_packets_refines [OF c keys0_ok junk0_ok d]
    unfolding d Let_def two_ranges list.map p b by simp
qed

subsection \<open>Recovery of scrambled packets\<close>

definition clear_packet :: "bytes \<Rightarrow> bool" where
  "clear_packet q \<longleftrightarrow> length q = TS_SIZE \<and> q ! 3 AND 0xc0 = 0"

definition scramble :: "csa_keys_t \<Rightarrow> bool \<Rightarrow> bytes \<Rightarrow> bytes" where
  "scramble keys od q =
     (let k = (if od then odd_key keys else even_key keys); n = payload_start q
      in (take n q @ csa_encrypt (k_ck k) (k_kk k) (drop n q))[3 := q ! 3 OR (if od then 0xc0 else 0x80)])"

lemma scramble_byte3:
  fixes b :: u8
  assumes "b AND 0xc0 = 0"
  shows "(b OR (if od then 0xc0 else 0x80)) AND 0x3f = b" "bit (b OR (if od then 0xc0 else 0x80)) 7"
    "bit (b OR (if od then 0xc0 else 0x80)) 6 \<longleftrightarrow> od" "bit (b OR (if od then 0xc0 else 0x80)) 5 \<longleftrightarrow> bit b 5"
proof -
  have b: "\<not> bit b 7" "\<not> bit b 6" using assms xc0_cases(1) by simp_all
  have c: "bit (0xc0 :: u8) 7" "bit (0xc0 :: u8) 6" "bit (0x80 :: u8) 7" "\<not> bit (0x80 :: u8) 6" "\<not> bit (0xc0 :: u8) 5"
    "\<not> bit (0x80 :: u8) 5"
    by simp_all
  show "bit (b OR (if od then 0xc0 else 0x80)) 7" "bit (b OR (if od then 0xc0 else 0x80)) 6 \<longleftrightarrow> od"
    "bit (b OR (if od then 0xc0 else 0x80)) 5 \<longleftrightarrow> bit b 5"
    using b c by (simp_all only: bit_or_iff split: if_split) simp_all
  have m: "(0xc0 :: u8) AND 0x3f = 0" "(0x80 :: u8) AND 0x3f = 0" by simp_all
  have "b AND 0x3f = b"
    unfolding word8_eq all_less_8 bit_and_iff using b by simp
  then show "(b OR (if od then 0xc0 else 0x80)) AND 0x3f = b"
    by (simp add: bit.conj_disj_distrib2 m)
qed

lemma scramble_descramble:
  assumes "clear_packet q"
  shows "scrambled (scramble keys od q)" "odd_parity_bit (scramble keys od q) \<longleftrightarrow> od"
    "descramble keys (scramble keys od q) = q"
proof -
  have l: "length q = 188" "q ! 3 AND 0xc0 = 0" using assms by (simp_all add: clear_packet_def)
  define k where "k = (if od then odd_key keys else even_key keys)"
  define n where "n = payload_start q"
  define e where "e = csa_encrypt (k_ck k) (k_kk k) (drop n q)"
  define s where "s = scramble keys od q"
  have n: "4 \<le> n" "n \<le> 188" "bit (q ! 3) 5 \<Longrightarrow> 5 \<le> n" by (simp_all add: n_def payload_start_def)
  have s: "s = (take n q @ e)[3 := q ! 3 OR (if od then 0xc0 else 0x80)]" "length e = 188 - n"
    by (simp_all add: s_def scramble_def Let_def k_def n_def e_def l)
  have s3: "s ! 3 = q ! 3 OR (if od then 0xc0 else 0x80)" using n l by (simp add: s)
  note b = scramble_byte3 [OF l(2), of od, folded s3]
  have s4: "s ! 4 = q ! 4" if "bit (q ! 3) 5" using n(3) [OF that] l s(2) by (simp add: s(1) nth_append)
  have ps: "payload_start s = n" unfolding payload_start_def b(4) using s4 by (simp add: n_def payload_start_def)
  show sc: "scrambled (scramble keys od q)" and od: "odd_parity_bit (scramble keys od q) \<longleftrightarrow> od"
    unfolding s_def [symmetric] scrambled_def odd_parity_bit_def by (rule b)+
  have cl: "clear_bits s = take n q @ e"
  proof -
    have "clear_bits s = s[3 := q ! 3]" by (simp add: clear_bits_def b(1))
    also have "\<dots> = (take n q @ e)[3 := q ! 3]" by (simp add: s(1))
    also have "\<dots> = (take n q)[3 := take n q ! 3] @ e" using n l by (simp add: list_update_append)
    finally show ?thesis by simp
  qed
  have "csa_decrypt (k_ck k) (k_kk k) e = drop n q" by (simp add: e_def csa_decrypt_encrypt)
  then show "descramble keys (scramble keys od q) = q"
    using sc od n(2) l unfolding s_def [symmetric] descramble_def ps by (simp add: cl k_def [symmetric] Let_def)
qed

lemma selected_all:
  "\<forall>p \<in> set ps. scrambled p \<and> odd_parity_bit p = od \<Longrightarrow> n + length ps \<le> GROUP_PARALLELISM \<Longrightarrow> n = 0 \<or> par = od \<Longrightarrow>
     selected n par ps = replicate (length ps) True"
proof (induction ps arbitrary: n par)
  case (Cons p ps)
  define m where "m = (if full_blocks p = 0 then n else n + 1)"
  have p: "scrambled p" "odd_parity_bit p = od" "n \<noteq> GROUP_PARALLELISM" using Cons.prems by simp_all
  have par: "(if n = 0 then od else par) = od" using p Cons.prems(3) by auto
  have "selected m od ps = replicate (length ps) True"
    by (rule Cons.IH) (use Cons.prems in \<open>simp_all add: m_def\<close>)
  then show ?case by (simp only: selected.simps Let_def par p m_def [symmetric]) simp
qed simp

lemma decrypt_packets_recovery:
  assumes "cluster_ok mem cluster" "wf_keys keys" "junk_ok J" "list_all clear_packet qs" "length qs \<le> GROUP_PARALLELISM"
    "map (\<lambda>a. pk a mem) (cluster_packets cluster) = map (scramble keys od) qs"
    "decrypt_packets keys J mem cluster = (mem', cluster', n)"
  shows "map (\<lambda>a. pk a mem') (cluster_packets cluster) = qs \<and> n = length qs \<and> cluster_packets cluster' = []"
proof -
  have q: "\<forall>q \<in> set qs. clear_packet q" using assms(4) by (simp add: list_all_iff)
  have "selected 0 False (map (scramble keys od) qs) = replicate (length qs) True"
    using selected_all [of "map (scramble keys od) qs" od 0 False] assms(5) q scramble_descramble by simp
  moreover have "map2 (\<lambda>b p. if b then descramble keys p else p) (replicate (length qs) True) (map (scramble keys od) qs) = qs"
    using q scramble_descramble(3) by (intro nth_equalityI) auto
  moreover have "length (cluster_packets cluster) = length qs" using arg_cong [OF assms(6), of length] by simp
  ultimately show ?thesis
    using decrypt_packets_spec [OF assms(1-3,7) refl refl refl] by (simp add: assms(6) takeWhile_replicate)
qed

text \<open>C2: up to 32 packets scrambled with the control word of one parity are all recovered by one call:
  the memory then has the original packets, their number is returned, and the cluster is empty.\<close>

theorem decrypt_packets_recovers:
  assumes "cluster_ok mem cluster" "wf_keys keys" "junk_ok J" "list_all clear_packet qs" "length qs \<le> GROUP_PARALLELISM"
    "map (\<lambda>a. pk a mem) (cluster_packets cluster) = map (scramble keys od) qs"
    "decrypt_packets keys J mem cluster = (mem', cluster', n)"
  shows "map (\<lambda>a. pk a mem') (cluster_packets cluster) = qs \<and> n = length qs \<and> cluster_packets cluster' = []"
  by (rule decrypt_packets_recovery [OF assms])

theorem decrypt_packets_recovers_witness:
  "case decrypt_packets keys0 junk0 (scramble keys0 True (replicate 188 7) @ scramble keys0 True (replicate 188 9))
          [(0, 188), (188, 376)] of
     (mem', cluster', n) \<Rightarrow> pk 188 mem' = replicate 188 9 \<and> n = 2 \<and> cluster_packets cluster' = []"
proof -
  let ?qs = "[replicate 188 7, replicate 188 9] :: bytes list"
  let ?mem = "scramble keys0 True (replicate 188 7) @ scramble keys0 True (replicate 188 9)"
  obtain mem' cluster' n where d:
    "decrypt_packets keys0 junk0 ?mem [(0, 188), (188, 376)] = (mem', cluster', n)"
    by (metis prod_cases3)
  have l: "length (scramble keys0 True (replicate 188 b)) = 188" for b
    by (simp add: scramble_def Let_def payload_start_def)
  have c: "cluster_ok ?mem [(0, 188), (188, 376)]"
    by (simp add: two_ranges_ok l)
  have q: "list_all clear_packet ?qs" by (simp add: clear_packet_def)
  have m: "map (\<lambda>a. pk a ?mem) (cluster_packets [(0, 188), (188, 376)]) = map (scramble keys0 True) ?qs"
    unfolding two_ranges by (simp add: pk_def l)
  show ?thesis
    using decrypt_packets_recovers [OF c keys0_ok junk0_ok q _ m d] unfolding two_ranges d by simp
qed

end
