(* ===== verification/Des.thy ===== *)
theory Des
  imports Prelude
begin

text \<open>
  The DES of cscrypt/des.cpp: key schedule, the block function on two 32-bit halves, and the ECB,
  CBC and two-key triple CBC modes. \<open>DeCSA\<close> decrypts packets of services with DES scrambling with it.
  A key and a block are lists of 8 bytes, a schedule a list of 32 words (fixed-size arrays in the C
  code). The modes work in place on the first \<open>len & ~7\<close> bytes of their buffer; the model returns
  the new buffer.
\<close>

subsection \<open>Tables\<close>

definition weak_keys :: "bytes list" where
  "weak_keys = [
   [1, 1, 1, 1, 1, 1, 1, 1],
   [0xfe, 0xfe, 0xfe, 0xfe, 0xfe, 0xfe, 0xfe, 0xfe],
   [0x1f, 0x1f, 0x1f, 0x1f, 0x1f, 0x1f, 0x1f, 0x1f],
   [0xe0, 0xe0, 0xe0, 0xe0, 0xe0, 0xe0, 0xe0, 0xe0],
   [1, 0xfe, 1, 0xfe, 1, 0xfe, 1, 0xfe],
   [0xfe, 1, 0xfe, 1, 0xfe, 1, 0xfe, 1],
   [0x1f, 0xe0, 0x1f, 0xe0, 0xe, 0xf1, 0xe, 0xf1],
   [0xe0, 0x1f, 0xe0, 0x1f, 0xf1, 0xe, 0xf1, 0xe],
   [1, 0xe0, 1, 0xe0, 1, 0xf1, 1, 0xf1],
   [0xe0, 1, 0xe0, 1, 0xf1, 1, 0xf1, 1],
   [0x1f, 0xfe, 0x1f, 0xfe, 0xe, 0xfe, 0xe, 0xfe],
   [0xfe, 0x1f, 0xfe, 0x1f, 0xfe, 0xe, 0xfe, 0xe],
   [1, 0x1f, 1, 0x1f, 1, 0xe, 1, 0xe],
   [0x1f, 1, 0x1f, 1, 0xe, 1, 0xe, 1],
   [0xe0, 0xfe, 0xe0, 0xfe, 0xf1, 0xfe, 0xf1, 0xfe],
   [0xfe, 0xe0, 0xfe, 0xe0, 0xfe, 0xf1, 0xfe, 0xf1]]"

definition odd_parity :: bytes where
  "odd_parity = [
    1, 1, 2, 2, 4, 4, 7, 7, 8, 8, 11, 11, 13, 13, 14, 14,
    16, 16, 19, 19, 21, 21, 22, 22, 25, 25, 26, 26, 28, 28, 31, 31,
    32, 32, 35, 35, 37, 37, 38, 38, 41, 41, 42, 42, 44, 44, 47, 47,
    49, 49, 50, 50, 52, 52, 55, 55, 56, 56, 59, 59, 61, 61, 62, 62,
    64, 64, 67, 67, 69, 69, 70, 70, 73, 73, 74, 74, 76, 76, 79, 79,
    81, 81, 82, 82, 84, 84, 87, 87, 88, 88, 91, 91, 93, 93, 94, 94,
    97, 97, 98, 98, 100, 100, 103, 103, 104, 104, 107, 107, 109, 109, 110, 110,
    112, 112, 115, 115, 117, 117, 118, 118, 121, 121, 122, 122, 124, 124, 127, 127,
    128, 128, 131, 131, 133, 133, 134, 134, 137, 137, 138, 138, 140, 140, 143, 143,
    145, 145, 146, 146, 148, 148, 151, 151, 152, 152, 155, 155, 157, 157, 158, 158,
    161, 161, 162, 162, 164, 164, 167, 167, 168, 168, 171, 171, 173, 173, 174, 174,
    176, 176, 179, 179, 181, 181, 182, 182, 185, 185, 186, 186, 188, 188, 191, 191,
    193, 193, 194, 194, 196, 196, 199, 199, 200, 200, 203, 203, 205, 205, 206, 206,
    208, 208, 211, 211, 213, 213, 214, 214, 217, 217, 218, 218, 220, 220, 223, 223,
    224, 224, 227, 227, 229, 229, 230, 230, 233, 233, 234, 234, 236, 236, 239, 239,
    241, 241, 242, 242, 244, 244, 247, 247, 248, 248, 251, 251, 253, 253, 254, 254]"

definition shifts2 :: "u8 list" where
  "shifts2 = [0, 0, 1, 1, 1, 1, 1, 1, 0, 1, 1, 1, 1, 1, 1, 0]"

definition des_skb :: "u32 list list" where
  "des_skb = [
   [0, 0x10, 0x20000000, 0x20000010, 0x10000, 0x10010, 0x20010000, 0x20010010,
    0x800, 0x810, 0x20000800, 0x20000810, 0x10800, 0x10810, 0x20010800, 0x20010810,
    0x20, 0x30, 0x20000020, 0x20000030, 0x10020, 0x10030, 0x20010020, 0x20010030,
    0x820, 0x830, 0x20000820, 0x20000830, 0x10820, 0x10830, 0x20010820, 0x20010830,
    0x80000, 0x80010, 0x20080000, 0x20080010, 0x90000, 0x90010, 0x20090000, 0x20090010,
    0x80800, 0x80810, 0x20080800, 0x20080810, 0x90800, 0x90810, 0x20090800, 0x20090810,
    0x80020, 0x80030, 0x20080020, 0x20080030, 0x90020, 0x90030, 0x20090020, 0x20090030,
    0x80820, 0x80830, 0x20080820, 0x20080830, 0x90820, 0x90830, 0x20090820, 0x20090830],
   [0, 0x2000000, 0x2000, 0x2002000, 0x200000, 0x2200000, 0x202000, 0x2202000,
    4, 0x2000004, 0x2004, 0x2002004, 0x200004, 0x2200004, 0x202004, 0x2202004,
    0x400, 0x2000400, 0x2400, 0x2002400, 0x200400, 0x2200400, 0x202400, 0x2202400,
    0x404, 0x2000404, 0x2404, 0x2002404, 0x200404, 0x2200404, 0x202404, 0x2202404,
    0x10000000, 0x12000000, 0x10002000, 0x12002000, 0x10200000, 0x12200000, 0x10202000, 0x12202000,
    0x10000004, 0x12000004, 0x10002004, 0x12002004, 0x10200004, 0x12200004, 0x10202004, 0x12202004,
    0x10000400, 0x12000400, 0x10002400, 0x12002400, 0x10200400, 0x12200400, 0x10202400, 0x12202400,
    0x10000404, 0x12000404, 0x10002404, 0x12002404, 0x10200404, 0x12200404, 0x10202404, 0x12202404],
   [0, 1, 0x40000, 0x40001, 0x1000000, 0x1000001, 0x1040000, 0x1040001,
    2, 3, 0x40002, 0x40003, 0x1000002, 0x1000003, 0x1040002, 0x1040003,
    0x200, 0x201, 0x40200, 0x40201, 0x1000200, 0x1000201, 0x1040200, 0x1040201,
    0x202, 0x203, 0x40202, 0x40203, 0x1000202, 0x1000203, 0x1040202, 0x1040203,
    0x8000000, 0x8000001, 0x8040000, 0x8040001, 0x9000000, 0x9000001, 0x9040000, 0x9040001,
    0x8000002, 0x8000003, 0x8040002, 0x8040003, 0x9000002, 0x9000003, 0x9040002, 0x9040003,
    0x8000200, 0x8000201, 0x8040200, 0x8040201, 0x9000200, 0x9000201, 0x9040200, 0x9040201,
    0x8000202, 0x8000203, 0x8040202, 0x8040203, 0x9000202, 0x9000203, 0x9040202, 0x9040203],
   [0, 0x100000, 0x100, 0x100100, 8, 0x100008, 0x108, 0x100108,
    0x1000, 0x101000, 0x1100, 0x101100, 0x1008, 0x101008, 0x1108, 0x101108,
    0x4000000, 0x4100000, 0x4000100, 0x4100100, 0x4000008, 0x4100008, 0x4000108, 0x4100108,
    0x4001000, 0x4101000, 0x4001100, 0x4101100, 0x4001008, 0x4101008, 0x4001108, 0x4101108,
    0x20000, 0x120000, 0x20100, 0x120100, 0x20008, 0x120008, 0x20108, 0x120108,
    0x21000, 0x121000, 0x21100, 0x121100, 0x21008, 0x121008, 0x21108, 0x121108,
    0x4020000, 0x4120000, 0x4020100, 0x4120100, 0x4020008, 0x4120008, 0x4020108, 0x4120108,
    0x4021000, 0x4121000, 0x4021100, 0x4121100, 0x4021008, 0x4121008, 0x4021108, 0x4121108],
   [0, 0x10000000, 0x10000, 0x10010000, 4, 0x10000004, 0x10004, 0x10010004,
    0x20000000, 0x30000000, 0x20010000, 0x30010000, 0x20000004, 0x30000004, 0x20010004, 0x30010004,
    0x100000, 0x10100000, 0x110000, 0x10110000, 0x100004, 0x10100004, 0x110004, 0x10110004,
    0x20100000, 0x30100000, 0x20110000, 0x30110000, 0x20100004, 0x30100004, 0x20110004, 0x30110004,
    0x1000, 0x10001000, 0x11000, 0x10011000, 0x1004, 0x10001004, 0x11004, 0x10011004,
    0x20001000, 0x30001000, 0x20011000, 0x30011000, 0x20001004, 0x30001004, 0x20011004, 0x30011004,
    0x101000, 0x10101000, 0x111000, 0x10111000, 0x101004, 0x10101004, 0x111004, 0x10111004,
    0x20101000, 0x30101000, 0x20111000, 0x30111000, 0x20101004, 0x30101004, 0x20111004, 0x30111004],
   [0, 0x8000000, 8, 0x8000008, 0x400, 0x8000400, 0x408, 0x8000408,
    0x20000, 0x8020000, 0x20008, 0x8020008, 0x20400, 0x8020400, 0x20408, 0x8020408,
    1, 0x8000001, 9, 0x8000009, 0x401, 0x8000401, 0x409, 0x8000409,
    0x20001, 0x8020001, 0x20009, 0x8020009, 0x20401, 0x8020401, 0x20409, 0x8020409,
    0x2000000, 0xa000000, 0x2000008, 0xa000008, 0x2000400, 0xa000400, 0x2000408, 0xa000408,
    0x2020000, 0xa020000, 0x2020008, 0xa020008, 0x2020400, 0xa020400, 0x2020408, 0xa020408,
    0x2000001, 0xa000001, 0x2000009, 0xa000009, 0x2000401, 0xa000401, 0x2000409, 0xa000409,
    0x2020001, 0xa020001, 0x2020009, 0xa020009, 0x2020401, 0xa020401, 0x2020409, 0xa020409],
   [0, 0x100, 0x80000, 0x80100, 0x1000000, 0x1000100, 0x1080000, 0x1080100,
    0x10, 0x110, 0x80010, 0x80110, 0x1000010, 0x1000110, 0x1080010, 0x1080110,
    0x200000, 0x200100, 0x280000, 0x280100, 0x1200000, 0x1200100, 0x1280000, 0x1280100,
    0x200010, 0x200110, 0x280010, 0x280110, 0x1200010, 0x1200110, 0x1280010, 0x1280110,
    0x200, 0x300, 0x80200, 0x80300, 0x1000200, 0x1000300, 0x1080200, 0x1080300,
    0x210, 0x310, 0x80210, 0x80310, 0x1000210, 0x1000310, 0x1080210, 0x1080310,
    0x200200, 0x200300, 0x280200, 0x280300, 0x1200200, 0x1200300, 0x1280200, 0x1280300,
    0x200210, 0x200310, 0x280210, 0x280310, 0x1200210, 0x1200310, 0x1280210, 0x1280310],
   [0, 0x4000000, 0x40000, 0x4040000, 2, 0x4000002, 0x40002, 0x4040002,
    0x2000, 0x4002000, 0x42000, 0x4042000, 0x2002, 0x4002002, 0x42002, 0x4042002,
    0x20, 0x4000020, 0x40020, 0x4040020, 0x22, 0x4000022, 0x40022, 0x4040022,
    0x2020, 0x4002020, 0x42020, 0x4042020, 0x2022, 0x4002022, 0x42022, 0x4042022,
    0x800, 0x4000800, 0x40800, 0x4040800, 0x802, 0x4000802, 0x40802, 0x4040802,
    0x2800, 0x4002800, 0x42800, 0x4042800, 0x2802, 0x4002802, 0x42802, 0x4042802,
    0x820, 0x4000820, 0x40820, 0x4040820, 0x822, 0x4000822, 0x40822, 0x4040822,
    0x2820, 0x4002820, 0x42820, 0x4042820, 0x2822, 0x4002822, 0x42822, 0x4042822]]"

definition des_SPtrans :: "u32 list list" where
  "des_SPtrans = [
   [0x820200, 0x20000, 0x80800000, 0x80820200, 0x800000, 0x80020200, 0x80020000, 0x80800000,
    0x80020200, 0x820200, 0x820000, 0x80000200, 0x80800200, 0x800000, 0, 0x80020000,
    0x20000, 0x80000000, 0x800200, 0x20200, 0x80820200, 0x820000, 0x80000200, 0x800200,
    0x80000000, 0x200, 0x20200, 0x80820000, 0x200, 0x80800200, 0x80820000, 0,
    0, 0x80820200, 0x800200, 0x80020000, 0x820200, 0x20000, 0x80000200, 0x800200,
    0x80820000, 0x200, 0x20200, 0x80800000, 0x80020200, 0x80000000, 0x80800000, 0x820000,
    0x80820200, 0x20200, 0x820000, 0x80800200, 0x800000, 0x80000200, 0x80020000, 0,
    0x20000, 0x800000, 0x80800200, 0x820200, 0x80000000, 0x80820000, 0x200, 0x80020200],
   [0x10042004, 0, 0x42000, 0x10040000, 0x10000004, 0x2004, 0x10002000, 0x42000,
    0x2000, 0x10040004, 4, 0x10002000, 0x40004, 0x10042000, 0x10040000, 4,
    0x40000, 0x10002004, 0x10040004, 0x2000, 0x42004, 0x10000000, 0, 0x40004,
    0x10002004, 0x42004, 0x10042000, 0x10000004, 0x10000000, 0x40000, 0x2004, 0x10042004,
    0x40004, 0x10042000, 0x10002000, 0x42004, 0x10042004, 0x40004, 0x10000004, 0,
    0x10000000, 0x2004, 0x40000, 0x10040004, 0x2000, 0x10000000, 0x42004, 0x10002004,
    0x10042000, 0x2000, 0, 0x10000004, 4, 0x10042004, 0x42000, 0x10040000,
    0x10040004, 0x40000, 0x2004, 0x10002000, 0x10002004, 4, 0x10040000, 0x42000],
   [0x41000000, 0x1010040, 0x40, 0x41000040, 0x40010000, 0x1000000, 0x41000040, 0x10040,
    0x1000040, 0x10000, 0x1010000, 0x40000000, 0x41010040, 0x40000040, 0x40000000, 0x41010000,
    0, 0x40010000, 0x1010040, 0x40, 0x40000040, 0x41010040, 0x10000, 0x41000000,
    0x41010000, 0x1000040, 0x40010040, 0x1010000, 0x10040, 0, 0x1000000, 0x40010040,
    0x1010040, 0x40, 0x40000000, 0x10000, 0x40000040, 0x40010000, 0x1010000, 0x41000040,
    0, 0x1010040, 0x10040, 0x41010000, 0x40010000, 0x1000000, 0x41010040, 0x40000000,
    0x40010040, 0x41000000, 0x1000000, 0x41010040, 0x10000, 0x1000040, 0x41000040, 0x10040,
    0x1000040, 0, 0x41010000, 0x40000040, 0x41000000, 0x40010040, 0x40, 0x1010000],
   [0x100402, 0x4000400, 2, 0x4100402, 0, 0x4100000, 0x4000402, 0x100002,
    0x4100400, 0x4000002, 0x4000000, 0x402, 0x4000002, 0x100402, 0x100000, 0x4000000,
    0x4100002, 0x100400, 0x400, 2, 0x100400, 0x4000402, 0x4100000, 0x400,
    0x402, 0, 0x100002, 0x4100400, 0x4000400, 0x4100002, 0x4100402, 0x100000,
    0x4100002, 0x402, 0x100000, 0x4000002, 0x100400, 0x4000400, 2, 0x4100000,
    0x4000402, 0, 0x400, 0x100002, 0, 0x4100002, 0x4100400, 0x400,
    0x4000000, 0x4100402, 0x100402, 0x100000, 0x4100402, 2, 0x4000400, 0x100402,
    0x100002, 0x100400, 0x4100000, 0x4000402, 0x402, 0x4000000, 0x4000002, 0x4100400],
   [0x2000000, 0x4000, 0x100, 0x2004108, 0x2004008, 0x2000100, 0x4108, 0x2004000,
    0x4000, 8, 0x2000008, 0x4100, 0x2000108, 0x2004008, 0x2004100, 0,
    0x4100, 0x2000000, 0x4008, 0x108, 0x2000100, 0x4108, 0, 0x2000008,
    8, 0x2000108, 0x2004108, 0x4008, 0x2004000, 0x100, 0x108, 0x2004100,
    0x2004100, 0x2000108, 0x4008, 0x2004000, 0x4000, 8, 0x2000008, 0x2000100,
    0x2000000, 0x4100, 0x2004108, 0, 0x4108, 0x2000000, 0x100, 0x4008,
    0x2000108, 0x100, 0, 0x2004108, 0x2004008, 0x2004100, 0x108, 0x4000,
    0x4100, 0x2004008, 0x2000100, 0x108, 8, 0x4108, 0x2004000, 0x2000008],
   [0x20000010, 0x80010, 0, 0x20080800, 0x80010, 0x800, 0x20000810, 0x80000,
    0x810, 0x20080810, 0x80800, 0x20000000, 0x20000800, 0x20000010, 0x20080000, 0x80810,
    0x80000, 0x20000810, 0x20080010, 0, 0x800, 0x10, 0x20080800, 0x20080010,
    0x20080810, 0x20080000, 0x20000000, 0x810, 0x10, 0x80800, 0x80810, 0x20000800,
    0x810, 0x20000000, 0x20000800, 0x80810, 0x20080800, 0x80010, 0, 0x20000800,
    0x20000000, 0x800, 0x20080010, 0x80000, 0x80010, 0x20080810, 0x80800, 0x10,
    0x20080810, 0x80800, 0x80000, 0x20000810, 0x20000010, 0x20080000, 0x80810, 0,
    0x800, 0x20000010, 0x20000810, 0x20080800, 0x20080000, 0x810, 0x10, 0x20080010],
   [0x1000, 0x80, 0x400080, 0x400001, 0x401081, 0x1001, 0x1080, 0,
    0x400000, 0x400081, 0x81, 0x401000, 1, 0x401080, 0x401000, 0x81,
    0x400081, 0x1000, 0x1001, 0x401081, 0, 0x400080, 0x400001, 0x1080,
    0x401001, 0x1081, 0x401080, 1, 0x1081, 0x401001, 0x80, 0x400000,
    0x1081, 0x401000, 0x401001, 0x81, 0x1000, 0x80, 0x400000, 0x401001,
    0x400081, 0x1081, 0x1080, 0, 0x80, 0x400001, 1, 0x400080,
    0, 0x400081, 0x400080, 0x1080, 0x81, 0x1000, 0x401081, 0x400000,
    0x401080, 1, 0x1001, 0x401081, 0x400001, 0x401080, 0x401000, 0x1001],
   [0x8200020, 0x8208000, 0x8020, 0, 0x8008000, 0x200020, 0x8200000, 0x8208020,
    0x20, 0x8000000, 0x208000, 0x8020, 0x208020, 0x8008020, 0x8000020, 0x8200000,
    0x8000, 0x208020, 0x200020, 0x8008000, 0x8208020, 0x8000020, 0, 0x208000,
    0x8000000, 0x200000, 0x8008020, 0x8200020, 0x200000, 0x8000, 0x8208000, 0x20,
    0x200000, 0x8000, 0x8000020, 0x8208020, 0x8020, 0x8000000, 0, 0x208000,
    0x8200020, 0x8008020, 0x8008000, 0x200020, 0x8208000, 0x20, 0x200020, 0x8008000,
    0x8208020, 0x200000, 0x8200000, 0x8000020, 0x208000, 0x8020, 0x8008020, 0x8200000,
    0x20, 0x8208000, 0x208020, 0, 0x8000000, 0x8200020, 0x8000, 0x208020]]"

subsection \<open>Key checks\<close>

definition des_set_odd_parity :: "bytes \<Rightarrow> bytes" where
  "des_set_odd_parity key = map (\<lambda>b. odd_parity ! unat b) key"

definition check_parity :: "bytes \<Rightarrow> bool" where
  "check_parity key \<longleftrightarrow> list_all (\<lambda>b. b = odd_parity ! unat b) key"

text \<open>The inner loop over the bytes of a weak key has no effect: its \<open>continue\<close> goes on with the next
  byte, not with the next weak key.\<close>

fun weak_key_loop :: "bytes list \<Rightarrow> bytes \<Rightarrow> bool" where
  "weak_key_loop [] key = False"
| "weak_key_loop (w # ws) key = True"

definition des_is_weak_key :: "bytes \<Rightarrow> bool" where
  "des_is_weak_key key = weak_key_loop weak_keys key"

subsection \<open>Key schedule\<close>

definition Get32bits :: "bytes \<Rightarrow> nat \<Rightarrow> u32" where
  "Get32bits key kindex =
     push_bit 24 (ucast (key ! (kindex + 3))) + push_bit 16 (ucast (key ! (kindex + 2))) +
     push_bit 8 (ucast (key ! (kindex + 1))) + ucast (key ! kindex)"

text \<open>The first part of \<open>des_set_key\<close>: the key permutation into two 28-bit halves.\<close>

definition key_halves :: "bytes \<Rightarrow> u32 \<times> u32" where
  "key_halves key =
     (let c = Get32bits key 0; d = Get32bits key 4;
          t = (drop_bit 4 d XOR c) AND 0x0f0f0f0f; c = c XOR t; d = d XOR push_bit 4 t;
          t = (push_bit 18 c XOR c) AND 0xcccc0000; c = c XOR t XOR drop_bit 18 t;
          t = (push_bit 18 d XOR d) AND 0xcccc0000; d = d XOR t XOR drop_bit 18 t;
          t = (drop_bit 1 d XOR c) AND 0x55555555; c = c XOR t; d = d XOR push_bit 1 t;
          t = (drop_bit 8 c XOR d) AND 0x00ff00ff; d = d XOR t; c = c XOR push_bit 8 t;
          t = (drop_bit 1 d XOR c) AND 0x55555555; c = c XOR t; d = d XOR push_bit 1 t;
          d = push_bit 16 (d AND 0x000000ff) OR (d AND 0x0000ff00) OR
              drop_bit 16 (d AND 0x00ff0000) OR drop_bit 4 (c AND 0xf0000000)
      in (c AND 0x0fffffff, d))"

text \<open>The rotations of one round.\<close>

definition rotate_halves :: "u8 \<Rightarrow> u32 \<times> u32 \<Rightarrow> u32 \<times> u32" where
  "rotate_halves two = (\<lambda>(c, d).
     let (c, d) = (if two \<noteq> 0 then (drop_bit 2 c OR push_bit 26 c, drop_bit 2 d OR push_bit 26 d)
                   else (drop_bit 1 c OR push_bit 27 c, drop_bit 1 d OR push_bit 27 d))
     in (c AND 0x0fffffff, d AND 0x0fffffff))"

definition skb :: "nat \<Rightarrow> u32 \<Rightarrow> u32" where
  "skb i x = des_skb ! i ! unat x"

text \<open>The two schedule words of one round.\<close>

definition round_keys :: "u32 \<times> u32 \<Rightarrow> u32 list" where
  "round_keys = (\<lambda>(c, d).
     let s = skb 0 (c AND 0x3f) OR
             skb 1 ((drop_bit 6 c AND 0x03) OR (drop_bit 7 c AND 0x3c)) OR
             skb 2 ((drop_bit 13 c AND 0x0f) OR (drop_bit 14 c AND 0x30)) OR
             skb 3 ((drop_bit 20 c AND 0x01) OR (drop_bit 21 c AND 0x06) OR (drop_bit 22 c AND 0x38));
         t = skb 4 (d AND 0x3f) OR
             skb 5 ((drop_bit 7 d AND 0x03) OR (drop_bit 8 d AND 0x3c)) OR
             skb 6 (drop_bit 15 d AND 0x3f) OR
             skb 7 ((drop_bit 21 d AND 0x0f) OR (drop_bit 22 d AND 0x30));
         k0 = push_bit 16 t OR (s AND 0x0000ffff);
         s = drop_bit 16 s OR (t AND 0xffff0000);
         k1 = push_bit 4 s OR drop_bit 28 s
     in [k0, k1])"

fun key_rounds :: "u8 list \<Rightarrow> u32 \<times> u32 \<Rightarrow> u32 list" where
  "key_rounds [] cd = []"
| "key_rounds (sh # shs) cd = (let cd' = rotate_halves sh cd in round_keys cd' @ key_rounds shs cd')"

definition des_set_key :: "bytes \<Rightarrow> u32 list" where
  "des_set_key key = key_rounds shifts2 (key_halves key)"

subsection \<open>The block function\<close>

definition lrotr :: "u32 \<Rightarrow> u32" where
  "lrotr i = drop_bit 4 i OR push_bit 28 (i AND 0xff)"

definition SP :: "nat \<Rightarrow> u32 \<Rightarrow> u32" where
  "SP i x = des_SPtrans ! i ! unat (x AND 0x3f)"

text \<open>The value one round xors to the other half.\<close>

definition des_round :: "u32 \<Rightarrow> u32 \<Rightarrow> u32 \<Rightarrow> u32" where
  "des_round r k0 k1 =
     (let u = r XOR k0; t = lrotr (r XOR k1)
      in SP 1 t OR SP 3 (drop_bit 8 t) OR SP 5 (drop_bit 16 t) OR SP 7 (drop_bit 24 t) OR
         SP 0 u OR SP 2 (drop_bit 8 u) OR SP 4 (drop_bit 16 u) OR SP 6 (drop_bit 24 u))"

text \<open>One step of the initial and final permutations: \<open>tt = ((b >> n) ^ a) & m; a ^= tt; b ^= tt << n\<close>.\<close>

definition swap_bits :: "nat \<Rightarrow> u32 \<Rightarrow> u32 \<times> u32 \<Rightarrow> u32 \<times> u32" where
  "swap_bits n m = (\<lambda>(a, b). let tt = (drop_bit n b XOR a) AND m in (a XOR tt, b XOR push_bit n tt))"

definition initial_perm :: "u32 \<times> u32 \<Rightarrow> u32 \<times> u32" where
  "initial_perm ur =
     (let (u, r) = swap_bits 4 0x0f0f0f0f ur;
          (r, u) = swap_bits 16 0x0000ffff (r, u);
          (u, r) = swap_bits 2 0x33333333 (u, r);
          (r, u) = swap_bits 8 0x00ff00ff (r, u)
      in swap_bits 1 0x55555555 (u, r))"

definition final_perm :: "u32 \<times> u32 \<Rightarrow> u32 \<times> u32" where
  "final_perm lr =
     (let (l, r) = swap_bits 1 0x55555555 lr;
          (r, l) = swap_bits 8 0x00ff00ff (r, l);
          (l, r) = swap_bits 2 0x33333333 (l, r);
          (r, l) = swap_bits 16 0x0000ffff (r, l)
      in swap_bits 4 0x0f0f0f0f (l, r))"

definition rotl1 :: "u32 \<Rightarrow> u32" where
  "rotl1 x = push_bit 1 x OR drop_bit 31 x"

definition rotr1 :: "u32 \<Rightarrow> u32" where
  "rotr1 x = drop_bit 1 x OR push_bit 31 x"

text \<open>The unrolled rounds: each line of the loop bodies is a pair of rounds that first changes \<open>l\<close> and
  then \<open>r\<close>. Encryption takes the schedule words 0, 2, \<open>\<dots>\<close>, 30, decryption 30, 28, \<open>\<dots>\<close>, 0.\<close>

fun des_rounds :: "nat list \<Rightarrow> u32 list \<Rightarrow> u32 \<times> u32 \<Rightarrow> u32 \<times> u32" where
  "des_rounds (i # j # is) ks (l, r) =
     (let l = l XOR des_round r (ks ! i) (ks ! (i + 1));
          r = r XOR des_round l (ks ! j) (ks ! (j + 1))
      in des_rounds is ks (l, r))"
| "des_rounds _ ks (l, r) = (l, r)"

definition des_encrypt_int :: "u32 \<times> u32 \<Rightarrow> u32 list \<Rightarrow> bool \<Rightarrow> u32 \<times> u32" where
  "des_encrypt_int d ks do_encrypt =
     (let (u, r) = initial_perm d;
          is = (if do_encrypt
                then concat (map (\<lambda>i. [i, i + 2, i + 4, i + 6]) [0, 8, 16, 24])
                else concat (map (\<lambda>i. [i, i - 2, i - 4, i - 6]) [30, 22, 14, 6]));
          (l, r) = des_rounds is ks (rotl1 r, rotl1 u)
      in final_perm (rotr1 l, rotr1 r))"

definition le_bytes :: "u32 \<Rightarrow> bytes" where
  "le_bytes l = [ucast (l AND 0xff), ucast (drop_bit 8 l AND 0xff), ucast (drop_bit 16 l AND 0xff),
                 ucast (drop_bit 24 l AND 0xff)]"

definition des :: "bytes \<Rightarrow> u32 list \<Rightarrow> bool \<Rightarrow> bytes" where
  "des data schedule do_encrypt =
     (let (l0, l1) = des_encrypt_int (Get32bits data 0, Get32bits data 4) schedule do_encrypt
      in le_bytes l0 @ le_bytes l1)"

subsection \<open>Modes\<close>

definition xxor :: "bytes \<Rightarrow> bytes \<Rightarrow> bytes" where
  "xxor v1 v2 = map2 (XOR) v1 v2"

text \<open>The number of bytes a mode changes.\<close>

definition whole_blocks :: "int \<Rightarrow> nat" where
  "whole_blocks len = nat (len AND NOT 7)"

function ecb_loop :: "(bytes \<Rightarrow> bytes) \<Rightarrow> bytes \<Rightarrow> bytes" where
  "ecb_loop f data = (if length data < 8 then data else f (take 8 data) @ ecb_loop f (drop 8 data))"
  by pat_completeness auto
termination by (relation "measure (\<lambda>(f, data). length data)") auto

declare ecb_loop.simps [simp del]

function cbc_encrypt_loop :: "(bytes \<Rightarrow> bytes) \<Rightarrow> bytes \<Rightarrow> bytes \<Rightarrow> bytes" where
  "cbc_encrypt_loop f civ data =
     (if length data < 8 then data
      else (let b = f (xxor (take 8 data) civ) in b @ cbc_encrypt_loop f b (drop 8 data)))"
  by pat_completeness auto
termination by (relation "measure (\<lambda>(f, civ, data). length data)") auto

declare cbc_encrypt_loop.simps [simp del]

function cbc_decrypt_loop :: "(bytes \<Rightarrow> bytes) \<Rightarrow> bytes \<Rightarrow> bytes \<Rightarrow> bytes" where
  "cbc_decrypt_loop f civ data =
     (if length data < 8 then data
      else xxor (f (take 8 data)) civ @ cbc_decrypt_loop f (take 8 data) (drop 8 data))"
  by pat_completeness auto
termination by (relation "measure (\<lambda>(f, civ, data). length data)") auto

declare cbc_decrypt_loop.simps [simp del]

definition on_blocks :: "(bytes \<Rightarrow> bytes) \<Rightarrow> bytes \<Rightarrow> int \<Rightarrow> bytes" where
  "on_blocks f data len = f (take (whole_blocks len) data) @ drop (whole_blocks len) data"

definition des_ecb_encrypt :: "bytes \<Rightarrow> bytes \<Rightarrow> int \<Rightarrow> bytes" where
  "des_ecb_encrypt data key len =
     (let schedule = des_set_key key in on_blocks (ecb_loop (\<lambda>b. des b schedule True)) data len)"

definition des_ecb_decrypt :: "bytes \<Rightarrow> bytes \<Rightarrow> int \<Rightarrow> bytes" where
  "des_ecb_decrypt data key len =
     (let schedule = des_set_key key in on_blocks (ecb_loop (\<lambda>b. des b schedule False)) data len)"

definition des_cbc_encrypt :: "bytes \<Rightarrow> bytes \<Rightarrow> bytes \<Rightarrow> int \<Rightarrow> bytes" where
  "des_cbc_encrypt data iv key len =
     (let schedule = des_set_key key
      in on_blocks (cbc_encrypt_loop (\<lambda>b. des b schedule True) (take 8 iv)) data len)"

definition des_cbc_decrypt :: "bytes \<Rightarrow> bytes \<Rightarrow> bytes \<Rightarrow> int \<Rightarrow> bytes" where
  "des_cbc_decrypt data iv key len =
     (let schedule = des_set_key key
      in on_blocks (cbc_decrypt_loop (\<lambda>b. des b schedule False) (take 8 iv)) data len)"

definition des_ede2_cbc_encrypt :: "bytes \<Rightarrow> bytes \<Rightarrow> bytes \<Rightarrow> bytes \<Rightarrow> int \<Rightarrow> bytes" where
  "des_ede2_cbc_encrypt data iv key1 key2 len =
     (let schedule1 = des_set_key key1; schedule2 = des_set_key key2
      in on_blocks (cbc_encrypt_loop
           (\<lambda>b. des (des (des b schedule1 True) schedule2 False) schedule1 True) (take 8 iv)) data len)"

definition des_ede2_cbc_decrypt :: "bytes \<Rightarrow> bytes \<Rightarrow> bytes \<Rightarrow> bytes \<Rightarrow> int \<Rightarrow> bytes" where
  "des_ede2_cbc_decrypt data iv key1 key2 len =
     (let schedule1 = des_set_key key1; schedule2 = des_set_key key2
      in on_blocks (cbc_decrypt_loop
           (\<lambda>b. des (des (des b schedule1 False) schedule2 True) schedule1 False) (take 8 iv)) data len)"

subsection \<open>The block function is invertible\<close>

lemma drop_push_mask: "m AND mask (32 - n) = m \<Longrightarrow> n \<le> 32 \<Longrightarrow> drop_bit n (push_bit n (t AND m)) = (t AND m :: u32)"
proof -
  assume m: "m AND mask (32 - n) = m" and "n \<le> 32"
  have "drop_bit n (push_bit n (t AND m)) = take_bit (32 - n) (t AND m)"
    by (rule bit_word_eqI) (use \<open>n \<le> 32\<close> in \<open>auto simp: bit_simps\<close>)
  also have "\<dots> = t AND (m AND mask (32 - n))" by (simp add: take_bit_eq_mask and.assoc)
  finally show ?thesis using m by simp
qed

lemma swap_bits_inv:
  assumes "m AND mask (32 - n) = m" "n \<le> 32"
  shows "swap_bits n m (swap_bits n m (a, b)) = (a, b)"
proof -
  define tt where "tt = (drop_bit n b XOR a) AND m"
  have "drop_bit n (b XOR push_bit n tt) = drop_bit n b XOR tt"
    using drop_push_mask [OF assms, of "drop_bit n b XOR a"] by (simp add: tt_def)
  then have "(drop_bit n (b XOR push_bit n tt) XOR (a XOR tt)) AND m = (drop_bit n b XOR a) AND m"
    by (simp add: xor.assoc xor.left_commute xor.commute [of a])
  then have "swap_bits n m (a XOR tt, b XOR push_bit n tt) = ((a XOR tt) XOR tt, (b XOR push_bit n tt) XOR push_bit n tt)"
    by (simp only: swap_bits_def prod.case Let_def tt_def [symmetric])
  then show ?thesis unfolding swap_bits_def prod.case Let_def tt_def [symmetric]
    by (simp only: xor.assoc xor_self_eq xor.right_neutral)
qed

lemma swap_bits_invs [simp]:
  "swap_bits 4 0x0f0f0f0f (swap_bits 4 0x0f0f0f0f p) = p"
  "swap_bits 16 0x0000ffff (swap_bits 16 0x0000ffff p) = p"
  "swap_bits 2 0x33333333 (swap_bits 2 0x33333333 p) = p"
  "swap_bits 8 0x00ff00ff (swap_bits 8 0x00ff00ff p) = p"
  "swap_bits (Suc 0) 0x55555555 (swap_bits (Suc 0) 0x55555555 p) = p"
  by (cases p; simp add: swap_bits_inv mask_eq_exp_minus_1)+

lemma rot1_inv [simp]: "rotr1 (rotl1 x) = x" "rotl1 (rotr1 x) = x"
proof -
  show "rotr1 (rotl1 x) = x"
  proof (rule bit_word_eqI)
    fix n assume "n < LENGTH(32)"
    then show "bit (rotr1 (rotl1 x)) n = bit x n"
      by (simp only: rotr1_def rotl1_def bit_or_iff bit_push_bit_iff bit_drop_bit_eq o_apply)
        (cases "n = 31"; auto dest: bit_imp_le_length)
  qed
  show "rotl1 (rotr1 x) = x"
  proof (rule bit_word_eqI)
    fix n assume "n < LENGTH(32)"
    then show "bit (rotl1 (rotr1 x)) n = bit x n"
      by (simp only: rotr1_def rotl1_def bit_or_iff bit_push_bit_iff bit_drop_bit_eq o_apply)
        (cases "n = 0"; auto dest: bit_imp_le_length)
  qed
qed

lemma swapped_pair: "(snd p, fst p) = prod.swap p"
  by (cases p) simp

lemma perms_inv [simp]: "final_perm (initial_perm p) = p" "initial_perm (final_perm p) = p"
  by (simp_all add: final_perm_def initial_perm_def Let_def split_def swapped_pair)

lemma des_rounds_append:
  "even (length xs) \<Longrightarrow> des_rounds (xs @ ys) ks p = des_rounds ys ks (des_rounds xs ks p)"
proof (induction xs ks p rule: des_rounds.induct)
  case (1 i j ixs ks l r)
  then show ?case by (simp only: append_Cons des_rounds.simps Let_def length_Cons even_Suc not_not)
qed (auto simp: Let_def split: prod.splits)

lemma des_rounds_reverse:
  "even (length ixs) \<Longrightarrow> des_rounds (rev ixs) ks (prod.swap (des_rounds ixs ks p)) = prod.swap p"
proof (induction ixs ks p rule: des_rounds.induct)
  case (1 i j ixs ks l r)
  define l' where "l' = l XOR des_round r (ks ! i) (ks ! (i + 1))"
  define r' where "r' = r XOR des_round l' (ks ! j) (ks ! (j + 1))"
  have ih: "des_rounds (rev ixs) ks (prod.swap (des_rounds ixs ks (l', r'))) = (r', l')"
    using 1 by (simp add: l'_def r'_def Let_def)
  have step: "des_rounds (i # j # ixs) ks (l, r) = des_rounds ixs ks (l', r')"
    by (simp only: des_rounds.simps Let_def l'_def [symmetric] r'_def [symmetric])
  have "des_rounds (rev (i # j # ixs)) ks (prod.swap (des_rounds (i # j # ixs) ks (l, r))) =
      des_rounds [j, i] ks (r', l')"
    using 1(2) by (simp only: step rev.simps append.assoc append_Cons append_Nil)
      (simp only: des_rounds_append length_rev length_Cons even_Suc not_not ih)
  also have "\<dots> = (r, l)"
    by (simp add: Let_def r'_def xor.assoc) (simp add: l'_def xor.assoc)
  finally show ?case by simp
qed auto

lemma des_int_inverse:
  "des_encrypt_int (des_encrypt_int d ks e) ks (\<not> e) = d"
proof -
  obtain u r where ur: "initial_perm d = (u, r)" by fastforce
  define ixs where "ixs = concat (map (\<lambda>i. [i, i + 2, i + 4, i + 6]) [0::nat, 8, 16, 24])"
  have idx: "(if b then ixs else rev ixs) =
      (if b then concat (map (\<lambda>i. [i, i + 2, i + 4, i + 6]) [0, 8, 16, 24])
       else concat (map (\<lambda>i. [i, i - 2, i - 4, i - 6]) [30, 22, 14, 6]))" for b
    by (simp add: ixs_def)
  define xs where "xs = (if e then ixs else rev ixs)"
  have xs: "(if \<not> e then ixs else rev ixs) = rev xs" "even (length xs)"
    by (simp_all add: xs_def ixs_def)
  obtain l' r' where lr: "des_rounds xs ks (rotl1 r, rotl1 u) = (l', r')" by fastforce
  have 1: "des_encrypt_int d ks e = final_perm (rotr1 l', rotr1 r')"
    unfolding des_encrypt_int_def idx [symmetric] xs_def [symmetric] ur Let_def prod.case lr by simp
  have "des_rounds (rev xs) ks (r', l') = (rotl1 u, rotl1 r)"
    using des_rounds_reverse [OF xs(2), of ks "(rotl1 r, rotl1 u)"] by (simp add: lr)
  then show ?thesis
    unfolding 1 unfolding des_encrypt_int_def idx [symmetric] xs perms_inv Let_def prod.case rot1_inv
    using ur by (metis case_prod_conv perms_inv(1) rot1_inv(1))
qed


lemma Get32bits_or:
  "Get32bits key k =
     push_bit 24 (ucast (key ! (k + 3))) OR push_bit 16 (ucast (key ! (k + 2))) OR
     push_bit 8 (ucast (key ! (k + 1))) OR ucast (key ! k)"
proof -
  have disj: "(push_bit 24 a OR push_bit 16 b) OR push_bit 8 c OR d =
      ((push_bit 24 a + push_bit 16 b) + push_bit 8 c) + (d :: u32)"
    if "a AND mask 8 = a" "b AND mask 8 = b" "c AND mask 8 = c" "d AND mask 8 = d" for a b c d
  proof -
    have lim: "n < 8" if "x AND mask 8 = x" "bit x n" for x :: u32 and n
    proof -
      have "bit (x AND mask 8) n" using that by simp
      then show ?thesis by (simp add: bit_simps)
    qed
    note l = lim [OF that(1)] lim [OF that(2)] lim [OF that(3)] lim [OF that(4)]
    have "push_bit 24 a + push_bit 16 b = push_bit 24 a OR push_bit 16 b"
      by (rule disjunctive_add) (auto simp: bit_simps dest!: l)
    moreover have "(push_bit 24 a OR push_bit 16 b) + push_bit 8 c = (push_bit 24 a OR push_bit 16 b) OR push_bit 8 c"
      by (rule disjunctive_add) (auto simp: bit_simps dest!: l)
    moreover have "((push_bit 24 a OR push_bit 16 b) OR push_bit 8 c) + d = ((push_bit 24 a OR push_bit 16 b) OR push_bit 8 c) OR d"
      by (rule disjunctive_add) (auto simp: bit_simps dest!: l)
    ultimately show ?thesis by (simp only: or.assoc)
  qed
  have byte: "ucast (b :: u8) AND mask 8 = (ucast b :: u32)" for b
    by (rule bit_word_eqI) (auto simp: bit_simps dest: bit_imp_le_length)
  show ?thesis unfolding Get32bits_def
    using disj [OF byte byte byte byte] by (simp only: or.assoc)
qed

lemma bit_Get32bits: "bit (Get32bits key k) n \<longleftrightarrow> n < 32 \<and> bit (key ! (k + n div 8)) (n mod 8)"
proof -
  have no: "\<not> bit (b :: u8) m" if "8 \<le> m" for b m
    using that by (auto dest: bit_imp_le_length)
  consider "n < 8" | "8 \<le> n" "n < 16" | "16 \<le> n" "n < 24" | "24 \<le> n" "n < 32" | "32 \<le> n" by linarith
  then show ?thesis
  proof cases
    case 2
    then have "n div 8 = 1" "n mod 8 = n - 8" by (simp_all add: div_nat_eqI mod_nat_eqI)
    with 2 show ?thesis by (auto simp: Get32bits_or bit_simps no)
  next
    case 3
    then have "n div 8 = 2" by (intro div_nat_eqI) auto
    moreover from this have "n mod 8 = n - 16" by (simp add: modulo_nat_def)
    ultimately show ?thesis using 3 by (auto simp: Get32bits_or bit_simps no)
  next
    case 4
    then have "n div 8 = 3" by (intro div_nat_eqI) auto
    moreover from this have "n mod 8 = n - 24" by (simp add: modulo_nat_def)
    ultimately show ?thesis using 4 by (auto simp: Get32bits_or bit_simps no)
  qed (auto simp: Get32bits_or bit_simps no)
qed

lemma length_le_bytes [simp]: "length (le_bytes l) = 4"
  by (simp add: le_bytes_def)

lemma ucast_and_ff: "ucast (x AND 0xff :: u32) = (ucast x :: u8)"
proof -
  have "bit (mask 8 :: u32) n \<longleftrightarrow> n < 8" for n unfolding bit_mask_iff by auto
  moreover have "(mask 8 :: u32) = 0xff" by (simp add: mask_eq_exp_minus_1)
  ultimately have ff: "bit (0xff :: u32) n \<longleftrightarrow> n < 8" for n by simp
  show ?thesis
  proof (rule bit_word_eqI)
    fix n assume "n < LENGTH(8)"
    then show "bit (ucast (x AND 0xff) :: u8) n = bit (ucast x :: u8) n"
      using ff [of n] by (simp add: bit_simps)
  qed
qed

lemma bit_le_bytes: "i < 4 \<Longrightarrow> n < 8 \<Longrightarrow> bit (le_bytes l ! i) n \<longleftrightarrow> bit l (8 * i + n)"
proof -
  assume "i < 4" "n < 8"
  then consider "i = 0" | "i = 1" | "i = 2" | "i = 3" by linarith
  then show ?thesis
    by cases (use \<open>n < 8\<close> in \<open>simp_all add: le_bytes_def ucast_and_ff bit_simps numeral_3_eq_3 [symmetric]
      nth_Cons_numeral\<close>)
qed

lemma Get32bits_le_bytes: "Get32bits (le_bytes l0 @ le_bytes l1) 0 = l0" "Get32bits (le_bytes l0 @ le_bytes l1) 4 = l1"
proof -
  have b: "bit (le_bytes l ! (n div 8)) (n mod 8) \<longleftrightarrow> bit l n" if "n < 32" for l n
    using that by (subst bit_le_bytes) (auto simp: less_mult_imp_div_less)
  show "Get32bits (le_bytes l0 @ le_bytes l1) 0 = l0"
    by (rule bit_word_eqI) (simp add: bit_Get32bits nth_append b less_mult_imp_div_less)
  show "Get32bits (le_bytes l0 @ le_bytes l1) 4 = l1"
    by (rule bit_word_eqI) (simp add: bit_Get32bits nth_append b)
qed

lemma le_bytes_Get32bits:
  assumes "k + 4 \<le> length d"
  shows "le_bytes (Get32bits d k) = take 4 (drop k d)"
proof (rule nth_equalityI)
  fix i assume "i < length (le_bytes (Get32bits d k))"
  then have i: "i < 4" by simp
  have "le_bytes (Get32bits d k) ! i = d ! (k + i)"
  proof (rule bit_word_eqI)
    fix n assume "n < LENGTH(8)"
    then have "(8 * i + n) div 8 = i" "(8 * i + n) mod 8 = n" "8 * i + n < 32" "n < 8" using i by simp_all
    then show "bit (le_bytes (Get32bits d k) ! i) n = bit (d ! (k + i)) n"
      using i by (simp add: bit_le_bytes bit_Get32bits)
  qed
  then show "le_bytes (Get32bits d k) ! i = take 4 (drop k d) ! i"
    using assms i by simp
qed (use assms in simp)

lemma length_des [simp]: "length (des b ks e) = 8"
  by (simp add: des_def split_def Let_def)

lemma des_des: "length b = 8 \<Longrightarrow> des (des b ks e) ks (\<not> e) = b"
proof -
  assume b: "length b = 8"
  obtain l0 l1 where e: "des_encrypt_int (Get32bits b 0, Get32bits b 4) ks e = (l0, l1)" by fastforce
  then have "des_encrypt_int (l0, l1) ks (\<not> e) = (Get32bits b 0, Get32bits b 4)"
    using des_int_inverse [of "(Get32bits b 0, Get32bits b 4)" ks e] by simp
  then have "des (des b ks e) ks (\<not> e) = le_bytes (Get32bits b 0) @ le_bytes (Get32bits b 4)"
    unfolding des_def e Let_def prod.case Get32bits_le_bytes by simp
  also have "\<dots> = take 4 b @ take 4 (drop 4 b)" using b by (simp add: le_bytes_Get32bits)
  also have "take 4 (drop 4 b) = drop 4 b" using b by simp
  finally show ?thesis by simp
qed

subsection \<open>The modes are invertible\<close>

lemma length_xxor [simp]: "length (xxor a b) = min (length a) (length b)"
  by (simp add: xxor_def)

lemma xxor_xxor: "length a \<le> length b \<Longrightarrow> xxor (xxor a b) b = a"
  by (rule nth_equalityI) (simp_all add: xxor_def xor.assoc)

lemma ecb_loop_inverse:
  assumes "\<And>b. length b = 8 \<Longrightarrow> g (f b) = b" "\<And>b. length (f b) = 8"
  shows "ecb_loop g (ecb_loop f data) = data"
proof (induction data rule: measure_induct_rule [of length])
  case (less data)
  show ?case
  proof (cases "length data < 8")
    case False
    then have "ecb_loop f data = f (take 8 data) @ ecb_loop f (drop 8 data)"
      by (subst ecb_loop.simps) simp
    moreover have "ecb_loop g (f (take 8 data) @ r) = take 8 data @ ecb_loop g r" for r
      using False by (subst ecb_loop.simps) (simp add: assms)
    ultimately show ?thesis using False less [of "drop 8 data"] by simp
  qed (subst ecb_loop.simps, subst ecb_loop.simps, simp)
qed

lemma cbc_loop_inverse:
  assumes "\<And>b. length b = 8 \<Longrightarrow> g (f b) = b" "\<And>b. length (f b) = 8" "length iv = 8"
  shows "cbc_decrypt_loop g iv (cbc_encrypt_loop f iv data) = data"
  using assms(3)
proof (induction data arbitrary: iv rule: measure_induct_rule [of length])
  case (less data)
  show ?case
  proof (cases "length data < 8")
    case False
    define b where "b = f (xxor (take 8 data) iv)"
    have lb: "length b = 8" by (simp add: b_def assms)
    have "cbc_encrypt_loop f iv data = b @ cbc_encrypt_loop f b (drop 8 data)"
      using False by (subst cbc_encrypt_loop.simps) (simp add: b_def Let_def)
    moreover have "cbc_decrypt_loop g iv (b @ r) = xxor (g b) iv @ cbc_decrypt_loop g b r" for r
      by (subst cbc_decrypt_loop.simps) (simp add: lb)
    moreover have "xxor (g b) iv = take 8 data"
      using False less.prems by (simp add: b_def assms xxor_xxor)
    ultimately show ?thesis using False less.IH [of "drop 8 data" b] lb by simp
  qed (subst cbc_encrypt_loop.simps, subst cbc_decrypt_loop.simps, simp)
qed

lemma length_loops [simp]:
  "(\<And>b. length (f b) = 8) \<Longrightarrow> length (ecb_loop f data) = length data"
  "(\<And>b. length (f b) = 8) \<Longrightarrow> length (cbc_encrypt_loop f iv data) = length data"
proof -
  assume f: "\<And>b. length (f b) = 8"
  show "length (ecb_loop f data) = length data"
    by (induction data rule: measure_induct_rule [of length], subst ecb_loop.simps) (simp add: f)
  show "length (cbc_encrypt_loop f iv data) = length data"
    by (induction data arbitrary: iv rule: measure_induct_rule [of length], subst cbc_encrypt_loop.simps)
      (simp add: f Let_def)
qed

lemma on_blocks_inverse:
  assumes "\<And>d. length (f d) = length d" "\<And>d. g (f d) = d"
  shows "on_blocks g (on_blocks f data len) len = data"
proof -
  define n where "n = whole_blocks len"
  have "take n (f (take n data) @ drop n data) = f (take n data)"
    "drop n (f (take n data) @ drop n data) = drop n data"
    by (cases "n \<le> length data"; simp add: assms)+
  then show ?thesis unfolding on_blocks_def n_def [symmetric] by (simp only: assms append_take_drop_id)
qed

subsection \<open>Properties\<close>

text \<open>\<open>des_is_weak_key\<close> reports every key as weak.\<close>

lemma des_is_weak_key_always: "des_is_weak_key key"
  by (simp add: des_is_weak_key_def weak_keys_def)

text \<open>C32: DES decryption inverts encryption and encryption inverts decryption, for every block of 8 bytes
  and every key schedule.\<close>

theorem des_roundtrip:
  assumes "length block = 8"
  shows "des (des block schedule True) schedule False = block \<and>
    des (des block schedule False) schedule True = block"
  using des_des [OF assms, of schedule True] des_des [OF assms, of schedule False] by simp

theorem des_roundtrip_witness:
  "des (des [1, 2, 3, 4, 5, 6, 7, 8] (des_set_key [0x13, 0x34, 0x57, 0x79, 0x9B, 0xBC, 0xDF, 0xF1]) True)
     (des_set_key [0x13, 0x34, 0x57, 0x79, 0x9B, 0xBC, 0xDF, 0xF1]) False = [1, 2, 3, 4, 5, 6, 7, 8]"
  by (rule des_roundtrip [THEN conjunct1]) simp

text \<open>C33: the ECB, CBC and two-key triple CBC modes decrypt what they encrypted, for data of any
  length, and leave an incomplete last block as it is.\<close>

theorem des_modes_roundtrip:
  assumes "8 \<le> length iv"
  shows "des_ecb_decrypt (des_ecb_encrypt data key len) key len = data \<and>
    des_cbc_decrypt (des_cbc_encrypt data iv key len) iv key len = data \<and>
    des_ede2_cbc_decrypt (des_ede2_cbc_encrypt data iv key key2 len) iv key key2 len = data \<and>
    drop (whole_blocks len) (des_cbc_encrypt data iv key len) = drop (whole_blocks len) data"
proof (intro conjI)
  show "des_ecb_decrypt (des_ecb_encrypt data key len) key len = data"
    unfolding des_ecb_decrypt_def des_ecb_encrypt_def Let_def
    by (intro on_blocks_inverse ecb_loop_inverse) (simp_all add: des_des [where e = True, simplified])
  show "des_cbc_decrypt (des_cbc_encrypt data iv key len) iv key len = data"
    unfolding des_cbc_decrypt_def des_cbc_encrypt_def Let_def
    by (intro on_blocks_inverse cbc_loop_inverse) (use assms in \<open>simp_all add: des_des [where e = True, simplified]\<close>)
  show "des_ede2_cbc_decrypt (des_ede2_cbc_encrypt data iv key key2 len) iv key key2 len = data"
    unfolding des_ede2_cbc_decrypt_def des_ede2_cbc_encrypt_def Let_def
    by (intro on_blocks_inverse cbc_loop_inverse)
      (use assms in \<open>simp_all add: des_des [where e = True, simplified] des_des [where e = False, simplified]\<close>)
  have "drop n (f (take n data) @ drop n data) = drop n data" if "\<And>d. length (f d) = length d"
    for n and f :: "bytes \<Rightarrow> bytes"
    by (cases "n \<le> length data"; simp add: that)
  then show "drop (whole_blocks len) (des_cbc_encrypt data iv key len) = drop (whole_blocks len) data"
    by (simp add: des_cbc_encrypt_def on_blocks_def Let_def)
qed

theorem des_modes_roundtrip_witness:
  "des_cbc_decrypt (des_cbc_encrypt (replicate 20 7) (replicate 8 1) (replicate 8 2) 20)
     (replicate 8 1) (replicate 8 2) 20 = replicate 20 7"
  by (rule des_modes_roundtrip [THEN conjunct2, THEN conjunct1]) simp

end
