(* ===== verification/Capmt.thy ===== *)
theory Capmt
  imports StdMap
begin

text \<open>
  \<open>CAPMT\<close> (CAPMT.h, CAPMT.cpp): the list of programs VDR asked the plugin to decrypt, and the
  CA_PMT messages that announce it to OSCam. The state is the vector \<open>pmt\<close>; every operation
  returns the new vector and the messages it hands to \<open>SocketHandler::Write\<close>, in order. The
  operations run under the object's mutex, so each is one atomic step. \<open>off\<close> is the global
  \<open>AdapterIndexOffset\<close>. A \<open>cString\<close> is \<open>None\<close> when it holds a null pointer.
\<close>

subsection \<open>Data\<close>

abbreviation (input) LIST_MORE :: u8 where "LIST_MORE \<equiv> 0x00"
abbreviation (input) LIST_FIRST :: u8 where "LIST_FIRST \<equiv> 0x01"
abbreviation (input) LIST_LAST :: u8 where "LIST_LAST \<equiv> 0x02"
abbreviation (input) LIST_ONLY :: u8 where "LIST_ONLY \<equiv> 0x03"

record pmtobj =
  p_sid :: int
  p_len :: int
  p_adapter :: int
  p_pireserved :: u8
  p_pilen :: int
  p_data :: bytes
  p_caid :: u16
  p_pid :: u16
  p_prid :: u32
  p_ecmtime :: u32
  p_cardsystem :: "bytes option"
  p_reader :: "bytes option"
  p_from :: "bytes option"
  p_protocol :: "bytes option"
  p_hops :: u8

record ecm_info =
  ei_sid :: u16
  ei_caid :: u16
  ei_pid :: u16
  ei_prid :: u32
  ei_ecmtime :: u32
  ei_cardsystem :: "bytes option"
  ei_reader :: "bytes option"
  ei_from :: "bytes option"
  ei_protocol :: "bytes option"
  ei_hops :: u8

text \<open>\<open>pmtobj pmto = {}\<close> with the three fields set before the branch on the length.\<close>

definition new_pmtobj :: "int \<Rightarrow> int \<Rightarrow> int \<Rightarrow> pmtobj" where
  "new_pmtobj sid len adapter =
     \<lparr>p_sid = sid, p_len = len, p_adapter = adapter, p_pireserved = 0, p_pilen = 0, p_data = [],
      p_caid = 0, p_pid = 0, p_prid = 0, p_ecmtime = 0, p_cardsystem = None, p_reader = None,
      p_from = None, p_protocol = None, p_hops = 0\<rparr>"

definition same_service :: "int \<Rightarrow> int \<Rightarrow> pmtobj \<Rightarrow> bool" where
  "same_service adapter sid p \<longleftrightarrow> p_sid p = sid \<and> p_adapter p = adapter"

subsection \<open>Sending\<close>

text \<open>The 22 bytes in front of the program data; \<open>lf\<close> is \<open>length_field\<close>.\<close>

definition capmt_header :: "int \<Rightarrow> int \<Rightarrow> int \<Rightarrow> u8 \<Rightarrow> pmtobj \<Rightarrow> bytes" where
  "capmt_header off adapter sid lm p =
     (let pilen = p_pilen p + 1 + 3 + 3 + 3;
          lf = 22 + p_len p - 6
      in [0x9F, 0x80, 0x32, 0x82,
          u8_of (lf div 256), u8_of lf,
          lm, u8_of (sid div 256), u8_of sid, 0,
          p_pireserved p OR (u8_of (pilen div 256) AND 0x0F), u8_of pilen,
          0x01,
          0x83, 0x01, u8_of (adapter + off),
          0x86, 0x01, 0x00,
          0x87, 0x01, u8_of (adapter + off)])"

definition send :: "int \<Rightarrow> int \<Rightarrow> int \<Rightarrow> u8 \<Rightarrow> pmtobj \<Rightarrow> bytes option" where
  "send off adapter sid lm p =
     do { d \<leftarrow> rdn (p_data p) 0 (nat (p_len p));
          Some (capmt_header off adapter sid lm p @ d) }"

text \<open>\<open>SocketHandler::SendStopDescrambling\<close> (SocketHandler.cpp), the message of an empty list.\<close>

definition stop_descrambling_msg :: bytes where
  "stop_descrambling_msg = [0x9F, 0x80, 0x3F, 0x04, 0x83, 0x02, 0x00, 0xFF]"

fun send_loop :: "int \<Rightarrow> u8 \<Rightarrow> pmtobj list \<Rightarrow> bytes list option" where
  "send_loop off lm [] = Some []"
| "send_loop off lm (p # ps) =
     do { m \<leftarrow> send off (p_adapter p) (p_sid p) (if ps = [] then lm OR LIST_LAST else lm) p;
          ms \<leftarrow> send_loop off LIST_MORE ps;
          Some (m # ms) }"

definition SendAll :: "int \<Rightarrow> pmtobj list \<Rightarrow> bytes list option" where
  "SendAll off pmt =
     (if pmt = [] then Some [stop_descrambling_msg] else send_loop off LIST_FIRST pmt)"

subsection \<open>Requests from VDR\<close>

text \<open>The loop that erases the first entry of the service and remembers that it did.\<close>

fun remove_pmt :: "int \<Rightarrow> int \<Rightarrow> pmtobj list \<Rightarrow> pmtobj list \<times> bool" where
  "remove_pmt adapter sid [] = ([], False)"
| "remove_pmt adapter sid (p # ps) =
     (if same_service adapter sid p then (ps, True)
      else (let (qs, r) = remove_pmt adapter sid ps in (p # qs, r)))"

text \<open>
  \<open>vdr\<close> is the block \<open>vdr_caPMT[0 .. vdr_caPMTLen - 1]\<close>, empty for the call with
  \<open>NULL, 0\<close>. \<open>None\<close> is a read outside that block.
\<close>

definition ProcessSIDRequest ::
  "int \<Rightarrow> pmtobj list \<Rightarrow> int \<Rightarrow> int \<Rightarrow> int \<Rightarrow> bytes \<Rightarrow> (pmtobj list \<times> bytes list) option" where
  "ProcessSIDRequest off pmt card_index sid ca_lm vdr =
     (if sid = 0 then Some (pmt, [])
      else (let (pmt1, removed) = remove_pmt card_index sid pmt in
        if ca_lm = 5 \<and> \<not> removed \<and> vdr = [] then Some (pmt1, [])
        else if ca_lm = 4 \<or> ca_lm = 3 then
          (if 0 < length vdr then
             do { b4 \<leftarrow> rd vdr 4;
                  b5 \<leftarrow> rd vdr 5;
                  let ilen0 = be16 (b4 AND 0x0F) b5;
                  let offset = (if ilen0 > 0 then 1 else (0::int));
                  let ilen = ilen0 - offset;
                  let len = int (length vdr) - 6 - offset;
                  if len < 0 then
                    (if removed then do { ms \<leftarrow> SendAll off pmt1; Some (pmt1, ms) }
                     else Some (pmt1, []))
                  else
                    do { d \<leftarrow> rdn vdr (nat (6 + offset)) (nat len);
                         let pmto = (new_pmtobj sid len card_index)
                               \<lparr>p_pireserved := b4 AND 0xF0, p_pilen := ilen, p_data := d\<rparr>;
                         let pmt2 = pmt1 @ [pmto];
                         ms \<leftarrow> SendAll off pmt2;
                         Some (pmt2, ms) } }
           else if removed then do { ms \<leftarrow> SendAll off pmt1; Some (pmt1, ms) }
           else Some (pmt1, []))
        else do { ms \<leftarrow> SendAll off pmt1; Some (pmt1, ms) }))"

subsection \<open>ECM information\<close>

definition GetCAIDFromPid :: "pmtobj list \<Rightarrow> int \<Rightarrow> int \<Rightarrow> u16 \<times> int" where
  "GetCAIDFromPid pmt adapter_index pid =
     (if pid \<le> 0 then (0, 0)
      else (case find (\<lambda>p. uint (p_pid p) = pid \<and> p_adapter p = adapter_index) pmt of
              None \<Rightarrow> (0, 0)
            | Some p \<Rightarrow> (p_caid p, p_sid p)))"

definition GetCAIDFromSid :: "pmtobj list \<Rightarrow> int \<Rightarrow> int \<Rightarrow> u16" where
  "GetCAIDFromSid pmt adapter_index sid =
     (case find (same_service adapter_index sid) pmt of None \<Rightarrow> 0 | Some p \<Rightarrow> p_caid p)"

fun UpdateEcmInfo ::
  "pmtobj list \<Rightarrow> int \<Rightarrow> int \<Rightarrow> u16 \<Rightarrow> u16 \<Rightarrow> u32 \<Rightarrow> u32 \<Rightarrow> bytes \<Rightarrow> bytes \<Rightarrow> bytes \<Rightarrow> bytes \<Rightarrow> u8
     \<Rightarrow> pmtobj list" where
  "UpdateEcmInfo [] adapter_index sid caid pid prid ecmtime cardsystem reader from protocol hops = []"
| "UpdateEcmInfo (p # ps) adapter_index sid caid pid prid ecmtime cardsystem reader from protocol hops =
     (if same_service adapter_index sid p
      then p\<lparr>p_caid := caid, p_pid := pid, p_prid := prid, p_ecmtime := ecmtime,
             p_cardsystem := Some cardsystem, p_reader := Some reader, p_from := Some from,
             p_protocol := Some protocol, p_hops := hops\<rparr> # ps
      else p # UpdateEcmInfo ps adapter_index sid caid pid prid ecmtime cardsystem reader from protocol hops)"

definition FillEcmInfo :: "pmtobj list \<Rightarrow> ecm_info \<Rightarrow> ecm_info \<times> bool" where
  "FillEcmInfo pmt e =
     (case find (\<lambda>p. p_sid p = uint (ei_sid e)) pmt of
        None \<Rightarrow> (e, False)
      | Some p \<Rightarrow>
          (e\<lparr>ei_caid := p_caid p, ei_pid := p_pid p, ei_prid := p_prid p, ei_ecmtime := p_ecmtime p,
             ei_cardsystem := p_cardsystem p, ei_reader := p_reader p, ei_from := p_from p,
             ei_protocol := p_protocol p, ei_hops := p_hops p\<rparr>, True))"

definition Empty :: "pmtobj list \<Rightarrow> bool" where
  "Empty pmt \<longleftrightarrow> pmt = []"

subsection \<open>The invariant of the list\<close>

text \<open>One entry per service, and the copied length of each entry is the length of its data.\<close>

definition service :: "pmtobj \<Rightarrow> int \<times> int" where
  "service p = (p_adapter p, p_sid p)"

definition wf_pmtobj :: "pmtobj \<Rightarrow> bool" where
  "wf_pmtobj p \<longleftrightarrow> p_len p = int (length (p_data p))"

definition wf_pmt :: "pmtobj list \<Rightarrow> bool" where
  "wf_pmt pmt \<longleftrightarrow> distinct (map service pmt) \<and> (\<forall>p \<in> set pmt. wf_pmtobj p)"

lemma wf_pmt_Nil [simp]: "wf_pmt []"
  by (simp add: wf_pmt_def)

lemma same_service_iff: "same_service a s p \<longleftrightarrow> service p = (a, s)"
  by (auto simp: same_service_def service_def)

lemma remove_pmt_filter:
  "distinct (map service pmt) \<Longrightarrow>
     remove_pmt a s pmt = (filter (\<lambda>p. \<not> same_service a s p) pmt, (a, s) \<in> service ` set pmt)"
proof (induction pmt)
  case (Cons p ps)
  show ?case
  proof (cases "service p = (a, s)")
    case True
    with Cons.prems have "filter (\<lambda>p. \<not> same_service a s p) ps = ps"
      by (intro filter_eq_self) (auto simp: same_service_iff image_iff)
    with True show ?thesis by (simp add: same_service_iff)
  next
    case False
    with Cons show ?thesis by (auto simp: same_service_iff)
  qed
qed simp

lemma wf_pmt_filter [wf_intros]: "wf_pmt pmt \<Longrightarrow> wf_pmt (filter P pmt)"
  by (auto simp: wf_pmt_def distinct_map_filter)

lemma wf_pmt_append [wf_intros]:
  "wf_pmt pmt \<Longrightarrow> wf_pmtobj p \<Longrightarrow> service p \<notin> service ` set pmt \<Longrightarrow> wf_pmt (pmt @ [p])"
  by (auto simp: wf_pmt_def)

subsection \<open>What is sent\<close>

text \<open>One message, and the list management bytes of a complete announcement of \<open>n\<close> programs.\<close>

definition capmt_msg :: "int \<Rightarrow> u8 \<Rightarrow> pmtobj \<Rightarrow> bytes" where
  "capmt_msg off lm p = capmt_header off (p_adapter p) (p_sid p) lm p @ p_data p"

definition lm_sequence :: "nat \<Rightarrow> u8 list" where
  "lm_sequence n =
     (if n = 0 then [] else if n = 1 then [LIST_ONLY]
      else LIST_FIRST # replicate (n - 2) LIST_MORE @ [LIST_LAST])"

lemma send_wf: "wf_pmtobj p \<Longrightarrow> send off (p_adapter p) (p_sid p) lm p = Some (capmt_msg off lm p)"
  by (simp add: send_def wf_pmtobj_def capmt_msg_def rd_simps)

lemma send_loop_more:
  "ps \<noteq> [] \<Longrightarrow> \<forall>p \<in> set ps. wf_pmtobj p \<Longrightarrow>
     send_loop off LIST_MORE ps =
       Some (map2 (capmt_msg off) (replicate (length ps - 1) LIST_MORE @ [LIST_LAST]) ps)"
proof (induction ps)
  case (Cons p ps)
  then show ?case by (cases ps) (auto simp: send_wf)
qed simp

lemma SendAll_eq:
  assumes "wf_pmt pmt" "pmt \<noteq> []"
  shows "SendAll off pmt = Some (map2 (capmt_msg off) (lm_sequence (length pmt)) pmt)"
proof -
  obtain p ps where pmt: "pmt = p # ps" using assms(2) by (cases pmt) auto
  have wf: "wf_pmtobj p" "\<forall>p \<in> set ps. wf_pmtobj p"
    using assms(1) by (auto simp: wf_pmt_def pmt)
  show ?thesis
  proof (cases ps)
    case Nil
    with wf(1) show ?thesis by (simp add: pmt SendAll_def send_wf lm_sequence_def)
  next
    case (Cons q qs)
    with wf(2) have "send_loop off LIST_MORE ps =
        Some (map2 (capmt_msg off) (replicate (length ps - 1) LIST_MORE @ [LIST_LAST]) ps)"
      by (intro send_loop_more) auto
    with Cons wf(1) show ?thesis by (simp add: pmt SendAll_def send_wf lm_sequence_def)
  qed
qed

lemma SendAll_Nil [simp]: "SendAll off [] = Some [stop_descrambling_msg]"
  by (simp add: SendAll_def)

text \<open>The complete announcement as one list, the stop message when there is nothing to announce.\<close>

definition announcement :: "int \<Rightarrow> pmtobj list \<Rightarrow> bytes list" where
  "announcement off pmt =
     (if pmt = [] then [stop_descrambling_msg]
      else map2 (capmt_msg off) (lm_sequence (length pmt)) pmt)"

lemma SendAll_announcement: "wf_pmt pmt \<Longrightarrow> SendAll off pmt = Some (announcement off pmt)"
  by (simp add: announcement_def SendAll_eq)

subsection \<open>Requests\<close>

text \<open>The entry a CA_PMT of VDR becomes, once the command byte is left out.\<close>

definition cmd_len :: "bytes \<Rightarrow> nat" where
  "cmd_len vdr = (if be16 (vdr ! 4 AND 0x0F) (vdr ! 5) > 0 then 1 else 0)"

definition vdr_entry :: "int \<Rightarrow> int \<Rightarrow> bytes \<Rightarrow> pmtobj" where
  "vdr_entry a sid vdr =
     (new_pmtobj sid (int (length vdr) - 6 - int (cmd_len vdr)) a)
       \<lparr>p_pireserved := vdr ! 4 AND 0xF0,
        p_pilen := be16 (vdr ! 4 AND 0x0F) (vdr ! 5) - int (cmd_len vdr),
        p_data := drop (6 + cmd_len vdr) vdr\<rparr>"

definition others :: "int \<Rightarrow> int \<Rightarrow> pmtobj list \<Rightarrow> pmtobj list" where
  "others a sid pmt = filter (\<lambda>p. \<not> same_service a sid p) pmt"

lemma wf_others [wf_intros]: "wf_pmt pmt \<Longrightarrow> wf_pmt (others a sid pmt)"
  by (simp add: others_def wf_pmt_filter)

lemma others_fresh: "(a, sid) \<notin> service ` set (others a sid pmt)"
  by (auto simp: others_def same_service_iff)

lemma remove_pmt_wf:
  "wf_pmt pmt \<Longrightarrow> remove_pmt a sid pmt = (others a sid pmt, (a, sid) \<in> service ` set pmt)"
  by (simp add: wf_pmt_def remove_pmt_filter others_def)

lemma vdr_entry_fields [simp]:
  "service (vdr_entry a sid vdr) = (a, sid)"
  "p_data (vdr_entry a sid vdr) = drop (6 + cmd_len vdr) vdr"
  "p_caid (vdr_entry a sid vdr) = 0"
  "p_pid (vdr_entry a sid vdr) = 0"
  by (simp_all add: vdr_entry_def new_pmtobj_def service_def)

lemma wf_vdr_entry [wf_intros]: "6 + cmd_len vdr \<le> length vdr \<Longrightarrow> wf_pmtobj (vdr_entry a sid vdr)"
  by (simp add: vdr_entry_def new_pmtobj_def wf_pmtobj_def)

lemma wf_insert [wf_intros]:
  "wf_pmt pmt \<Longrightarrow> 6 + cmd_len vdr \<le> length vdr \<Longrightarrow>
     wf_pmt (others a sid pmt @ [vdr_entry a sid vdr])"
  by (intro wf_pmt_append wf_others wf_vdr_entry) (auto simp: others_fresh)

lemma ProcessSIDRequest_add:
  assumes "wf_pmt pmt" "sid \<noteq> 0" "ca_lm = 3 \<or> ca_lm = 4"
    and "6 \<le> length vdr" "6 + cmd_len vdr \<le> length vdr"
  shows "ProcessSIDRequest off pmt a sid ca_lm vdr =
    Some (others a sid pmt @ [vdr_entry a sid vdr],
          announcement off (others a sid pmt @ [vdr_entry a sid vdr]))"
proof -
  let ?e = "vdr_entry a sid vdr"
  have ann: "SendAll off (others a sid pmt @ [?e]) = Some (announcement off (others a sid pmt @ [?e]))"
    using assms by (intro SendAll_announcement wf_insert)
  have nz: "0 < length vdr" "4 < length vdr" "5 < length vdr" "vdr \<noteq> []" using assms(4) by auto
  show ?thesis
    using assms nz ann
    by (auto simp: ProcessSIDRequest_def remove_pmt_wf rd_simps Let_def vdr_entry_def cmd_len_def
        nat_diff_distrib nat_add_distrib split: if_splits)
qed

lemma ProcessSIDRequest_short:
  assumes "wf_pmt pmt" "sid \<noteq> 0" "ca_lm = 3 \<or> ca_lm = 4"
    and "6 \<le> length vdr" "length vdr < 6 + cmd_len vdr"
  shows "ProcessSIDRequest off pmt a sid ca_lm vdr =
    Some (others a sid pmt,
          if (a, sid) \<in> service ` set pmt then announcement off (others a sid pmt) else [])"
proof -
  have ann: "SendAll off (others a sid pmt) = Some (announcement off (others a sid pmt))"
    using assms by (intro SendAll_announcement wf_others)
  have nz: "0 < length vdr" "4 < length vdr" "5 < length vdr" "vdr \<noteq> []" using assms(4) by auto
  show ?thesis
    using assms nz ann
    by (auto simp: ProcessSIDRequest_def remove_pmt_wf rd_simps Let_def cmd_len_def split: if_splits)
qed

lemma ProcessSIDRequest_stop:
  assumes "wf_pmt pmt" "sid \<noteq> 0" "vdr = [] \<or> ca_lm \<noteq> 3 \<and> ca_lm \<noteq> 4"
  shows "ProcessSIDRequest off pmt a sid ca_lm vdr =
    Some (others a sid pmt,
          if (a, sid) \<in> service ` set pmt \<or> vdr \<noteq> [] \<or> ca_lm \<notin> {3, 4, 5}
          then announcement off (others a sid pmt) else [])"
proof -
  have ann: "SendAll off (others a sid pmt) = Some (announcement off (others a sid pmt))"
    using assms by (intro SendAll_announcement wf_others)
  show ?thesis
    using assms ann by (auto simp: ProcessSIDRequest_def remove_pmt_wf Let_def split: if_splits)
qed

lemma ProcessSIDRequest_sid0: "ProcessSIDRequest off pmt a 0 ca_lm vdr = Some (pmt, [])"
  by (simp add: ProcessSIDRequest_def)

lemmas ProcessSIDRequest_cases =
  ProcessSIDRequest_add ProcessSIDRequest_short ProcessSIDRequest_stop ProcessSIDRequest_sid0

subsection \<open>ECM information\<close>

lemma service_UpdateEcmInfo [simp]:
  "map service (UpdateEcmInfo pmt a sid caid pid prid t cs re fr pr h) = map service pmt"
  by (induction pmt) (auto simp: service_def)

lemma wf_UpdateEcmInfo [wf_intros]:
  "wf_pmt pmt \<Longrightarrow> wf_pmt (UpdateEcmInfo pmt a sid caid pid prid t cs re fr pr h)"
proof -
  assume "wf_pmt pmt"
  moreover have "\<forall>p \<in> set pmt. wf_pmtobj p \<Longrightarrow>
      \<forall>p \<in> set (UpdateEcmInfo pmt a sid caid pid prid t cs re fr pr h). wf_pmtobj p"
    by (induction pmt) (auto simp: wf_pmtobj_def)
  ultimately show ?thesis by (simp add: wf_pmt_def)
qed

lemma find_same_service_UpdateEcmInfo:
  "(a, sid) \<in> service ` set pmt \<Longrightarrow>
     \<exists>p. find (same_service a sid) (UpdateEcmInfo pmt a sid caid pid prid t cs re fr pr h) = Some p
       \<and> p_caid p = caid \<and> p_pid p = pid"
  by (induction pmt) (auto simp: same_service_def service_def)

subsection \<open>The receiver's view of a CA_PMT message\<close>

text \<open>
  An independent reading of the message (EN 50221 CA_PMT with the three private descriptors):
  tag and length, list management, program number, program info length, command, descriptors.
\<close>

record capmt_view =
  v_lm :: u8
  v_program :: int
  v_info_len :: int
  v_cmd :: u8
  v_descriptors :: "(u8 \<times> bytes) list"
  v_rest :: bytes

fun parse_descriptors :: "nat \<Rightarrow> bytes \<Rightarrow> ((u8 \<times> bytes) list \<times> bytes) option" where
  "parse_descriptors 0 bs = Some ([], bs)"
| "parse_descriptors (Suc n) (t # l # bs) =
     (if unat l \<le> length bs then
        do { (ds, rest) \<leftarrow> parse_descriptors n (drop (unat l) bs);
             Some ((t, take (unat l) bs) # ds, rest) }
      else None)"
| "parse_descriptors (Suc n) bs = None"

definition parse_capmt :: "bytes \<Rightarrow> capmt_view option" where
  "parse_capmt m =
     (if length m < 13 \<or> take 4 m \<noteq> [0x9F, 0x80, 0x32, 0x82]
         \<or> be16 (m ! 4) (m ! 5) \<noteq> int (length m) - 6 then None
      else do { (ds, rest) \<leftarrow> parse_descriptors 3 (drop 13 m);
                Some \<lparr>v_lm = m ! 6, v_program = be16 (m ! 7) (m ! 8),
                      v_info_len = be16 (m ! 10 AND 0x0F) (m ! 11), v_cmd = m ! 12,
                      v_descriptors = ds, v_rest = rest\<rparr> })"

lemma length_capmt_header [simp]: "length (capmt_header off a sid lm p) = 22"
  by (simp add: capmt_header_def Let_def)

lemma capmt_msg_nth:
  "capmt_msg off lm p ! 6 = lm"
  "capmt_msg off lm p ! 7 = u8_of (p_sid p div 256)"
  "capmt_msg off lm p ! 8 = u8_of (p_sid p)"
  "drop 22 (capmt_msg off lm p) = p_data p"
  by (simp_all add: capmt_msg_def capmt_header_def Let_def nth_append)

lemma parse_capmt_msg:
  assumes "wf_pmtobj p" "length (p_data p) < 65520"
  shows "parse_capmt (capmt_msg off lm p) =
    Some \<lparr>v_lm = lm, v_program = be16 (u8_of (p_sid p div 256)) (u8_of (p_sid p)),
          v_info_len = be16 ((p_pireserved p OR (u8_of ((p_pilen p + 10) div 256) AND 0x0F)) AND 0x0F)
                            (u8_of (p_pilen p + 10)),
          v_cmd = 1,
          v_descriptors = [(0x83, [u8_of (p_adapter p + off)]), (0x86, [0]),
                           (0x87, [u8_of (p_adapter p + off)])],
          v_rest = p_data p\<rparr>"
proof -
  let ?lf = "22 + int (length (p_data p)) - 6"
  have "be16 (u8_of (?lf div 256)) (u8_of ?lf) = ?lf"
    using assms(2) by (intro be16_split) auto
  then show ?thesis
    using assms(1)
    by (simp add: parse_capmt_def capmt_msg_def capmt_header_def wf_pmtobj_def Let_def
        numeral_3_eq_3 add.commute)
qed

subsection \<open>Properties\<close>

text \<open>C12: the CA_PMT message the plugin sends for a program decodes to exactly that program: its
  list management byte, its program number, the program info length counting the command byte and
  the three private descriptors, the adapter number with the configured offset, and VDR's bytes
  unchanged; and its length field is the number of bytes that follow it.\<close>

theorem capmt_message_roundtrip:
  assumes "wf_pmtobj p" "0 \<le> p_sid p" "p_sid p < 65536"
    and "0 \<le> p_pilen p" "p_pilen p < 4086" "p_pireserved p AND 0x0F = 0"
    and "length (p_data p) < 65520"
  shows "\<exists>m. send off (p_adapter p) (p_sid p) lm p = Some m \<and>
    parse_capmt m =
      Some \<lparr>v_lm = lm, v_program = p_sid p, v_info_len = p_pilen p + 10, v_cmd = 1,
            v_descriptors = [(0x83, [u8_of (p_adapter p + off)]), (0x86, [0]),
                             (0x87, [u8_of (p_adapter p + off)])],
            v_rest = p_data p\<rparr>"
  using assms be12_split [of "p_pilen p + 10" "p_pireserved p"]
  by (simp add: send_wf parse_capmt_msg be16_split)

theorem capmt_message_roundtrip_witness:
  "\<exists>m. send 0 1 1010 LIST_ONLY (vdr_entry 1 1010 [3, 3, 242, 1, 0xF0, 1, 1, 2, 0, 100, 0, 0]) = Some m \<and>
    parse_capmt m =
      Some \<lparr>v_lm = LIST_ONLY, v_program = 1010, v_info_len = 10, v_cmd = 1,
            v_descriptors = [(0x83, [1]), (0x86, [0]), (0x87, [1])],
            v_rest = [2, 0, 100, 0, 0]\<rparr>"
  using capmt_message_roundtrip
    [of "vdr_entry 1 1010 [3, 3, 242, 1, 0xF0, 1, 1, 2, 0, 100, 0, 0]" 0 LIST_ONLY]
  by (simp add: vdr_entry_def new_pmtobj_def wf_pmtobj_def cmd_len_def be16_def)

text \<open>The info length has 12 bits: a program info of VDR longer than 4085 bytes wraps.\<close>

lemma capmt_info_len_wraps:
  assumes "wf_pmtobj p" "4086 \<le> p_pilen p" "p_pilen p < 4096" "p_pireserved p AND 0x0F = 0"
    and "length (p_data p) < 65520"
  shows "map_option v_info_len (parse_capmt (capmt_msg off lm p)) = Some (p_pilen p + 10 - 4096)"
proof -
  have "u8_of ((p_pilen p + 10) div 256) AND 0x0F = u8_of ((p_pilen p + 10 - 4096) div 256) AND 0x0F"
  proof -
    have "(p_pilen p + 10) div 256 = 16" "(p_pilen p + 10 - 4096) div 256 = 0"
      using assms(2,3) by linarith+
    then show ?thesis by simp
  qed
  moreover have "u8_of (p_pilen p + 10) = u8_of (p_pilen p + 10 - 4096)"
    by (rule u8_of_cong) (simp add: mod_eq_dvd_iff)
  ultimately show ?thesis
    using assms be12_split [of "p_pilen p + 10 - 4096" "p_pireserved p"]
    by (simp only: parse_capmt_msg) simp
qed

text \<open>C13: a complete announcement has one message per registered program, in registration order,
  numbered by its program number, with the list management bytes of a complete list: ONLY for a
  single program, otherwise FIRST, then MORE, and LAST on the last one.\<close>

theorem SendAll_complete_list:
  assumes "wf_pmt pmt" "pmt \<noteq> []"
  shows "\<exists>ms. SendAll off pmt = Some ms \<and> length ms = length pmt \<and>
    (\<forall>i < length pmt.
       ms ! i ! 6 = (if length pmt = 1 then LIST_ONLY else if i = 0 then LIST_FIRST
                     else if i = length pmt - 1 then LIST_LAST else LIST_MORE) \<and>
       be16 (ms ! i ! 7) (ms ! i ! 8) = p_sid (pmt ! i) mod 65536 \<and>
       drop 22 (ms ! i) = p_data (pmt ! i))"
proof -
  have len: "length (lm_sequence (length pmt)) = length pmt"
    using assms(2) by (cases pmt) (auto simp: lm_sequence_def)
  have lm: "lm_sequence (length pmt) ! i =
      (if length pmt = 1 then LIST_ONLY else if i = 0 then LIST_FIRST
       else if i = length pmt - 1 then LIST_LAST else LIST_MORE)" if "i < length pmt" for i
    using that by (auto simp: lm_sequence_def nth_append nth_Cons split: nat.splits)
  show ?thesis
    using assms len
    by (intro exI [of _ "map2 (capmt_msg off) (lm_sequence (length pmt)) pmt"])
      (auto simp: SendAll_eq lm capmt_msg_nth be16_u8_of)
qed

theorem SendAll_complete_list_witness:
  "\<exists>ms. SendAll 0 [new_pmtobj 10 0 1, new_pmtobj 20 0 1, new_pmtobj 30 0 2] = Some ms \<and>
     length ms = 3 \<and> ms ! 0 ! 6 = LIST_FIRST \<and> ms ! 1 ! 6 = LIST_MORE \<and> ms ! 2 ! 6 = LIST_LAST"
proof -
  let ?pmt = "[new_pmtobj 10 0 1, new_pmtobj 20 0 1, new_pmtobj 30 0 2]"
  have wf: "wf_pmt ?pmt" by (simp add: wf_pmt_def service_def wf_pmtobj_def new_pmtobj_def)
  show ?thesis using SendAll_complete_list [OF wf, of 0] by (auto simp: eval_nat_numeral)
qed

text \<open>A request from VDR with no data, or with at least the six bytes of a CA_PMT header (what
  \<open>SCCAMSlot::Process\<close> passes), is handled without a read outside VDR's buffer and keeps the
  list well formed: one entry per service, every stored length the length of its data.\<close>

lemma ProcessSIDRequest_safe:
  assumes "wf_pmt pmt" "vdr = [] \<or> 6 \<le> length vdr"
  shows "\<exists>pmt' ms. ProcessSIDRequest off pmt a sid ca_lm vdr = Some (pmt', ms) \<and> wf_pmt pmt'"
proof -
  consider (zero) "sid = 0"
    | (add) "sid \<noteq> 0" "ca_lm = 3 \<or> ca_lm = 4" "6 \<le> length vdr" "6 + cmd_len vdr \<le> length vdr"
    | (short) "sid \<noteq> 0" "ca_lm = 3 \<or> ca_lm = 4" "6 \<le> length vdr" "length vdr < 6 + cmd_len vdr"
    | (stop) "sid \<noteq> 0" "vdr = [] \<or> ca_lm \<noteq> 3 \<and> ca_lm \<noteq> 4"
    using assms(2) by linarith
  then show ?thesis
    using assms(1) by cases (auto simp: ProcessSIDRequest_cases intro!: wf_intros)
qed

text \<open>C14: a request for a service with its CA_PMT registers it once, replacing an older entry of the
  same service on the same adapter, keeps every other service in place, stores VDR's bytes behind the
  header without the command byte, and announces the new list to OSCam.\<close>

theorem ProcessSIDRequest_registers:
  assumes "wf_pmt pmt" "sid \<noteq> 0" "ca_lm = 3 \<or> ca_lm = 4" "7 \<le> length vdr"
  shows "\<exists>p. ProcessSIDRequest off pmt a sid ca_lm vdr =
             Some (filter (\<lambda>q. service q \<noteq> (a, sid)) pmt @ [p],
                   announcement off (filter (\<lambda>q. service q \<noteq> (a, sid)) pmt @ [p])) \<and>
           service p = (a, sid) \<and> p_data p = drop (6 + cmd_len vdr) vdr \<and>
           p_pilen p = be16 (vdr ! 4 AND 0x0F) (vdr ! 5) - int (cmd_len vdr)"
proof -
  have "6 + cmd_len vdr \<le> length vdr" "6 \<le> length vdr"
    using assms(4) by (auto simp: cmd_len_def)
  moreover have "others a sid pmt = filter (\<lambda>q. service q \<noteq> (a, sid)) pmt"
    by (simp add: others_def same_service_iff)
  ultimately show ?thesis
    using assms by (intro exI [of _ "vdr_entry a sid vdr"])
      (auto simp: ProcessSIDRequest_add vdr_entry_def new_pmtobj_def service_def)
qed

theorem ProcessSIDRequest_registers_witness:
  "\<exists>p. ProcessSIDRequest 0 [new_pmtobj 1010 0 1] 1 1010 4 [4, 3, 242, 1, 0xF0, 1, 1, 2, 0, 100, 0, 0]
         = Some ([p], announcement 0 [p]) \<and> p_data p = [2, 0, 100, 0, 0]"
  using ProcessSIDRequest_registers
    [of "[new_pmtobj 1010 0 1]" 1010 4 "[4, 3, 242, 1, 0xF0, 1, 1, 2, 0, 100, 0, 0]" 0 1]
  by (auto simp: wf_pmt_def wf_pmtobj_def service_def new_pmtobj_def cmd_len_def be16_def)

text \<open>C15: a stop request (no CA_PMT data, or a list management byte that registers nothing) drops
  exactly the named service, and when the service was registered OSCam is sent the list of the
  remaining ones, or the stop-descrambling message when none remains.\<close>

theorem ProcessSIDRequest_stops:
  assumes "wf_pmt pmt" "sid \<noteq> 0" "vdr = [] \<or> ca_lm \<noteq> 3 \<and> ca_lm \<noteq> 4"
  shows "\<exists>ms. ProcessSIDRequest off pmt a sid ca_lm vdr =
             Some (filter (\<lambda>q. service q \<noteq> (a, sid)) pmt, ms) \<and>
           ((a, sid) \<in> service ` set pmt \<longrightarrow>
              ms = announcement off (filter (\<lambda>q. service q \<noteq> (a, sid)) pmt)) \<and>
           ((a, sid) \<notin> service ` set pmt \<and> vdr = [] \<and> ca_lm \<in> {3, 4, 5} \<longrightarrow> ms = [])"
proof -
  have "others a sid pmt = filter (\<lambda>q. service q \<noteq> (a, sid)) pmt"
    by (simp add: others_def same_service_iff)
  then show ?thesis using assms by (simp add: ProcessSIDRequest_stop)
qed

theorem ProcessSIDRequest_stops_witness:
  "ProcessSIDRequest 0 [new_pmtobj 1010 0 1] 1 1010 5 [] = Some ([], [stop_descrambling_msg])"
  using ProcessSIDRequest_stops [of "[new_pmtobj 1010 0 1]" 1010 "[]" 5 0 1]
  by (auto simp: wf_pmt_def wf_pmtobj_def service_def new_pmtobj_def announcement_def)

text \<open>ECM information reported by OSCam for a registered service is what later lookups of that
  service return, and it changes no other service.\<close>

lemma UpdateEcmInfo_lookup:
  assumes "(a, sid) \<in> service ` set pmt"
  shows "GetCAIDFromSid (UpdateEcmInfo pmt a sid caid pid prid t cs re fr pr h) a sid = caid \<and>
    ((a', sid') \<noteq> (a, sid) \<longrightarrow>
       GetCAIDFromSid (UpdateEcmInfo pmt a sid caid pid prid t cs re fr pr h) a' sid' =
         GetCAIDFromSid pmt a' sid')"
proof -
  obtain p where "find (same_service a sid) (UpdateEcmInfo pmt a sid caid pid prid t cs re fr pr h) = Some p"
      "p_caid p = caid"
    using find_same_service_UpdateEcmInfo [OF assms] by blast
  moreover have "map_option p_caid (find (same_service a' sid') (UpdateEcmInfo pmt a sid caid pid prid t cs re fr pr h))
      = map_option p_caid (find (same_service a' sid') pmt)" if "(a', sid') \<noteq> (a, sid)"
    using that by (induction pmt) (auto simp: same_service_def)
  ultimately show ?thesis
    by (auto simp: GetCAIDFromSid_def split: option.splits)
qed

end
