(* ===== verification/DemuxFilter.thy ===== *)
theory DemuxFilter
  imports Capmt
begin

text \<open>
  \<open>cDvbapiFilter\<close> (Filter.h, Filter.cpp): the section filters OSCam sets, the assembly of sections
  from TS packets, and their delivery to OSCam. The state is \<open>pidmap\<close>, a \<open>std::map\<close> from
  (adapter, pid) to the filters of that pid and the section being assembled. Operations that send
  return the messages in order. A result \<open>None\<close> is a read outside a buffer.

  The call of \<open>SetFilter\<close> into \<open>DeCSA\<close> needs the state of both objects, so the whole handler is
  defined where both are known; here is the part on \<open>pidmap\<close>.
\<close>

subsection \<open>Data\<close>

abbreviation (input) MAX_CSA_PID :: int where "MAX_CSA_PID \<equiv> 0x1FFF"
abbreviation (input) DMX_FILTER_SIZE :: nat where "DMX_FILTER_SIZE \<equiv> 16"

record dmxfilter =
  demux_id :: int
  filter_num :: int
  f_filter :: bytes
  f_mask :: bytes
  ecm_even :: u8
  ecm_odd :: u8

record pidfilters =
  pf_filters :: "dmxfilter list"
  pf_section :: bytes
  pf_sectionLen :: int
  pf_lastcc :: int

type_synonym pidmap = "(int \<times> int, pidfilters) std_map"

definition new_pidfilters :: pidfilters where
  "new_pidfilters = \<lparr>pf_filters = [], pf_section = [], pf_sectionLen = 0, pf_lastcc = -1\<rparr>"

definition drop_section :: "pidfilters \<Rightarrow> pidfilters" where
  "drop_section pf = pf\<lparr>pf_section := [], pf_sectionLen := 0\<rparr>"

subsection \<open>Setting and stopping filters\<close>

definition same_filter :: "u8 \<Rightarrow> u8 \<Rightarrow> dmxfilter \<Rightarrow> bool" where
  "same_filter demux num f \<longleftrightarrow> demux_id f = int_of demux \<and> filter_num f = int_of num"

text \<open>The search, the \<open>push_back\<close> of a new filter when there is none, and the two \<open>memcpy\<close>s
  with the masking of the filter bytes.\<close>

definition masked :: "bytes \<Rightarrow> bytes \<Rightarrow> bytes" where
  "masked f m = map2 (AND) (take DMX_FILTER_SIZE f) (take DMX_FILTER_SIZE m)"

fun set_filter :: "u8 \<Rightarrow> u8 \<Rightarrow> bytes \<Rightarrow> bytes \<Rightarrow> dmxfilter list \<Rightarrow> dmxfilter list" where
  "set_filter demux num f m [] =
     [\<lparr>demux_id = int_of demux, filter_num = int_of num, f_filter = masked f m,
       f_mask = take DMX_FILTER_SIZE m, ecm_even = 0, ecm_odd = 0\<rparr>]"
| "set_filter demux num f m (x # xs) =
     (if same_filter demux num x
      then x\<lparr>f_filter := masked f m, f_mask := take DMX_FILTER_SIZE m\<rparr> # xs
      else x # set_filter demux num f m xs)"

fun erase_filter :: "u8 \<Rightarrow> u8 \<Rightarrow> dmxfilter list \<Rightarrow> dmxfilter list option" where
  "erase_filter demux num [] = None"
| "erase_filter demux num (x # xs) =
     (if same_filter demux num x then Some xs
      else map_option ((#) x) (erase_filter demux num xs))"

definition SetFilter_pidmap ::
  "pidmap \<Rightarrow> u8 \<Rightarrow> int \<Rightarrow> int \<Rightarrow> u8 \<Rightarrow> u8 \<Rightarrow> (bytes \<times> bytes) option \<Rightarrow> pidmap" where
  "SetFilter_pidmap pidmap adapter_index pid start demux num fm =
     (if 0 \<le> pid \<and> pid < MAX_CSA_PID then
        (case (start = 1, fm) of
           (True, Some (f, m)) \<Rightarrow>
             (let key = (int_of adapter_index, pid);
                  pf = (case sm_find pidmap key of None \<Rightarrow> new_pidfilters | Some pf \<Rightarrow> pf)
              in sm_put key (pf\<lparr>pf_filters := set_filter demux num f m (pf_filters pf)\<rparr>) pidmap)
         | _ \<Rightarrow>
             (if start = 0 then
                (let key = (int_of adapter_index, pid) in
                 case sm_find pidmap key of
                   None \<Rightarrow> pidmap
                 | Some pf \<Rightarrow>
                     (case erase_filter demux num (pf_filters pf) of
                        None \<Rightarrow> pidmap
                      | Some [] \<Rightarrow> sm_erase key pidmap
                      | Some flt \<Rightarrow> sm_put key (pf\<lparr>pf_filters := flt\<rparr>) pidmap))
              else pidmap))
      else pidmap)"

definition StopAllFilters :: "pidmap \<Rightarrow> pidmap" where
  "StopAllFilters pidmap = []"

subsection \<open>The ECM nibble of iCAM\<close>

definition SetECM :: "pmtobj list \<Rightarrow> dmxfilter \<Rightarrow> int \<Rightarrow> int \<Rightarrow> bytes \<Rightarrow> dmxfilter option" where
  "SetECM pmt f adapter_index pid data =
     (if length data > 4 then
        do { d0 \<leftarrow> rd data 0; d2 \<leftarrow> rd data 2; d4 \<leftarrow> rd data 4; dl \<leftarrow> rd data (length data - 1);
             let caid = fst (GetCAIDFromPid pmt adapter_index pid);
             let videoguard = ((caid = 0 \<or> drop_bit 8 caid = 0x09) \<and> d4 \<noteq> 0 \<and> int_of d2 - int_of d4 = 4);
             let ecm = (if videoguard then dl AND 0x0F else 0);
             Some (if d0 = 0x80 then f\<lparr>ecm_even := ecm\<rparr>
                   else if d0 = 0x81 then f\<lparr>ecm_odd := ecm\<rparr>
                   else f) }
      else Some f)"

text \<open>The scan of the pid map: the first ECM filter of the adapter with the demux index.\<close>

definition ecm_filter_for :: "u32 \<Rightarrow> int \<Rightarrow> dmxfilter \<Rightarrow> bool" where
  "ecm_filter_for index pid f \<longleftrightarrow>
     pid > 0 \<and> index = word_of_int (demux_id f) \<and> (f_filter f ! 0) AND 0xFE = 0x80"

fun GetECM :: "pidmap \<Rightarrow> u8 \<Rightarrow> u32 \<Rightarrow> u32 \<Rightarrow> u8" where
  "GetECM [] adapter_index index parity = 0"
| "GetECM (((a, pid), pf) # m) adapter_index index parity =
     (case (if a = int_of adapter_index then find (ecm_filter_for index pid) (pf_filters pf) else None) of
        Some f \<Rightarrow> (if parity = 0 then ecm_even f else ecm_odd f)
      | None \<Rightarrow> GetECM m adapter_index index parity)"

subsection \<open>Delivery\<close>

text \<open>\<open>SocketHandler::SendFilterData\<close> (SocketHandler.cpp).\<close>

definition filter_data_msg :: "int \<Rightarrow> int \<Rightarrow> bytes \<Rightarrow> bytes" where
  "filter_data_msg demux num data = [0xFF, 0xFF, 0x00, 0x00, u8_of demux, u8_of num] @ data"

text \<open>Filter byte 0 against the table id, bytes 1 to 15 against those after the section length.\<close>

definition section_byte :: "bytes \<Rightarrow> nat \<Rightarrow> u8" where
  "section_byte data i =
     (let pos = (if i = 0 then 0 else i + 2) in if pos < length data then data ! pos else 0)"

definition filter_matches :: "dmxfilter \<Rightarrow> bytes \<Rightarrow> bool" where
  "filter_matches f data =
     list_all (\<lambda>i. section_byte data i AND (f_mask f ! i) = f_filter f ! i) [0..<DMX_FILTER_SIZE]"

fun deliver_filters ::
  "pmtobj list \<Rightarrow> u8 \<Rightarrow> int \<Rightarrow> bytes \<Rightarrow> dmxfilter list \<Rightarrow> (dmxfilter list \<times> bytes list) option" where
  "deliver_filters pmt adapter_index pid data [] = Some ([], [])"
| "deliver_filters pmt adapter_index pid data (f # fs) =
     do { (f', ms) \<leftarrow> (if filter_matches f data
                       then do { f' \<leftarrow> SetECM pmt f (int_of adapter_index) pid data;
                                 Some (f', [filter_data_msg (demux_id f) (filter_num f) data]) }
                       else Some (f, []));
          (fs', ms') \<leftarrow> deliver_filters pmt adapter_index pid data fs;
          Some (f' # fs', ms @ ms') }"

definition Deliver ::
  "pmtobj list \<Rightarrow> pidfilters \<Rightarrow> u8 \<Rightarrow> int \<Rightarrow> bytes \<Rightarrow> (pidfilters \<times> bytes list) option" where
  "Deliver pmt pf adapter_index pid data =
     do { (fs, ms) \<leftarrow> deliver_filters pmt adapter_index pid data (pf_filters pf);
          Some (pf\<lparr>pf_filters := fs\<rparr>, ms) }"

subsection \<open>Section assembly\<close>

text \<open>The length a section header announces: three bytes and the 12-bit section length. The header may be
  incomplete: then the two bytes of the length are not there to be read.\<close>

definition read_section_len :: "bytes \<Rightarrow> int option" where
  "read_section_len s = do { s1 \<leftarrow> rd s 1; s2 \<leftarrow> rd s 2; Some (3 + be16 (s1 AND 0x0F) s2) }"

text \<open>\<open>data\<close> is the block \<open>data[0 .. len - 1]\<close>; a negative count would be a reversed range.\<close>

definition Collect ::
  "pmtobj list \<Rightarrow> pidfilters \<Rightarrow> u8 \<Rightarrow> int \<Rightarrow> bytes \<Rightarrow> (pidfilters \<times> bytes list) option" where
  "Collect pmt pf adapter_index pid data =
     (let len = (if pf_sectionLen pf \<noteq> 0
                 then min (int (length data)) (pf_sectionLen pf - int (length (pf_section pf)))
                 else int (length data))
      in if len < 0 then None
      else
        do { new \<leftarrow> rdn data 0 (nat len);
             let s1 = pf_section pf @ new;
             (s2, sl) \<leftarrow>
               (if pf_sectionLen pf = 0 \<and> length s1 \<ge> 3
                then do { n \<leftarrow> read_section_len s1;
                          Some (if int (length s1) > n then take (nat n) s1 else s1, n) }
                else Some (s1, pf_sectionLen pf));
             let pf1 = pf\<lparr>pf_section := s2, pf_sectionLen := sl\<rparr>;
             if sl \<noteq> 0 \<and> int (length s2) = sl then
               do { (pf2, ms) \<leftarrow> Deliver pmt pf1 adapter_index pid s2; Some (drop_section pf2, ms) }
             else Some (pf1, []) })"

text \<open>The loop over the sections that start in the packet; \<open>p\<close> is the rest of the packet.\<close>

lemma read_section_len_ge: "read_section_len s = Some n \<Longrightarrow> 3 \<le> n"
  by (auto simp: read_section_len_def split: Option.bind_splits)

function sections_loop ::
  "pmtobj list \<Rightarrow> pidfilters \<Rightarrow> u8 \<Rightarrow> int \<Rightarrow> bytes \<Rightarrow> (pidfilters \<times> bytes list) option" where
  "sections_loop pmt pf adapter_index pid p =
     (if p = [] \<or> hd p = 0xFF then Some (pf, [])
      else if length p < 3 then Collect pmt pf adapter_index pid p
      else
        do { n \<leftarrow> read_section_len p;
             if n > int (length p) then Collect pmt pf adapter_index pid p
             else
               do { sec \<leftarrow> rdn p 0 (nat n);
                    (pf1, ms) \<leftarrow> Deliver pmt pf adapter_index pid sec;
                    (pf2, ms') \<leftarrow> sections_loop pmt pf1 adapter_index pid (drop (nat n) p);
                    Some (pf2, ms @ ms') } })"
  by pat_completeness auto
termination
  by (relation "measure (\<lambda>(pmt, pf, a, pid, p). length p)") (auto dest: read_section_len_ge)

declare sections_loop.simps [simp del]

text \<open>The packet once its pid is known to have filters and it has a payload: \<open>p\<close> is the payload.\<close>

definition analyze_payload ::
  "pmtobj list \<Rightarrow> pidfilters \<Rightarrow> u8 \<Rightarrow> int \<Rightarrow> bool \<Rightarrow> bool \<Rightarrow> bytes \<Rightarrow> (pidfilters \<times> bytes list) option" where
  "analyze_payload pmt pf adapter_index pid pusi continuous p =
     (if \<not> pusi then
        (if continuous \<and> pf_section pf \<noteq> [] then Collect pmt pf adapter_index pid p
         else Some (drop_section pf, []))
      else
        do { b \<leftarrow> rd p 0;
             let pointer = unat b;
             let p1 = tl p;
             if pointer > length p1 then Some (drop_section pf, [])
             else
               do { (pf1, ms) \<leftarrow> (if continuous \<and> pf_section pf \<noteq> []
                                   then do { d \<leftarrow> rdn p1 0 pointer; Collect pmt pf adapter_index pid d }
                                   else Some (pf, []));
                    (pf2, ms') \<leftarrow> sections_loop pmt (drop_section pf1) adapter_index pid (drop pointer p1);
                    Some (pf2, ms @ ms') } })"

definition adaptation_control :: "u8 \<Rightarrow> u8" where
  "adaptation_control d3 = drop_bit 4 d3 AND 0x03"

definition Analyze ::
  "pmtobj list \<Rightarrow> pidmap \<Rightarrow> u8 \<Rightarrow> bytes \<Rightarrow> (pidmap \<times> bytes list) option" where
  "Analyze pmt pidmap adapter_index data =
     do { d1 \<leftarrow> rd data 1;
          d2 \<leftarrow> rd data 2;
          let pid = be16 d1 d2 AND MAX_CSA_PID;
          if pid \<ge> MAX_CSA_PID \<or> pid = 0 then Some (pidmap, [])
          else (case sm_find pidmap (int_of adapter_index, pid) of
            None \<Rightarrow> Some (pidmap, [])
          | Some pf \<Rightarrow>
              do { d3 \<leftarrow> rd data 3;
                   let afc = adaptation_control d3;
                   if afc AND 0x01 = 0 then Some (pidmap, [])
                   else
                     do { offset \<leftarrow> (if afc AND 0x02 \<noteq> 0
                                      then map_option (\<lambda>b. 4 + (1 + unat b)) (rd data 4)
                                      else Some 4);
                          if offset \<ge> TS_SIZE then Some (pidmap, [])
                          else
                            do { p \<leftarrow> rdn data offset (TS_SIZE - offset);
                                 let cc = int_of (d3 AND 0x0F);
                                 let continuous = (pf_lastcc pf \<ge> 0 \<and> cc = (pf_lastcc pf + 1) AND 0x0F);
                                 (pf', ms) \<leftarrow> analyze_payload pmt (pf\<lparr>pf_lastcc := cc\<rparr>) adapter_index pid
                                                (d1 AND 0x40 \<noteq> 0) continuous p;
                                 Some (sm_put (int_of adapter_index, pid) pf' pidmap, ms) } } }) }"

subsection \<open>Invariants\<close>

text \<open>The announced length of a header that is there.\<close>

definition section_len :: "bytes \<Rightarrow> int" where
  "section_len s = 3 + be16 (s ! 1 AND 0x0F) (s ! 2)"

lemma read_section_len_Some [simp]: "3 \<le> length s \<Longrightarrow> read_section_len s = Some (section_len s)"
  by (simp add: read_section_len_def section_len_def rd_simps)

text \<open>The assembly buffer holds either less than a header, or a proper prefix of the section whose
  length its header announces.\<close>

definition asm_ok :: "bytes \<Rightarrow> int \<Rightarrow> bool" where
  "asm_ok s sl \<longleftrightarrow>
     (sl = 0 \<and> length s < 3) \<or> (3 \<le> length s \<and> sl = section_len s \<and> int (length s) < sl)"

definition wf_filter :: "dmxfilter \<Rightarrow> bool" where
  "wf_filter f \<longleftrightarrow> length (f_filter f) = DMX_FILTER_SIZE \<and> length (f_mask f) = DMX_FILTER_SIZE
     \<and> demux_id f \<in> {0..<256} \<and> filter_num f \<in> {0..<256}"

definition filter_key :: "dmxfilter \<Rightarrow> int \<times> int" where
  "filter_key f = (demux_id f, filter_num f)"

definition wf_filters :: "dmxfilter list \<Rightarrow> bool" where
  "wf_filters fs \<longleftrightarrow> distinct (map filter_key fs) \<and> (\<forall>f \<in> set fs. wf_filter f)"

definition wf_pf :: "pidfilters \<Rightarrow> bool" where
  "wf_pf pf \<longleftrightarrow> asm_ok (pf_section pf) (pf_sectionLen pf) \<and> wf_filters (pf_filters pf)
     \<and> -1 \<le> pf_lastcc pf \<and> pf_lastcc pf < 16"

definition wf_pidmap :: "pidmap \<Rightarrow> bool" where
  "wf_pidmap m \<longleftrightarrow> sm_ok m \<and> (\<forall>(k, pf) \<in> set m. wf_pf pf \<and> pf_filters pf \<noteq> [])"

text \<open>A block that is exactly one section.\<close>

definition is_section :: "bytes \<Rightarrow> bool" where
  "is_section s \<longleftrightarrow> 3 \<le> length s \<and> int (length s) = section_len s"

lemma section_len_range: "3 \<le> section_len s" "section_len s \<le> 4098"
proof -
  show "3 \<le> section_len s" by (simp add: section_len_def)
  have "int_of (s ! 1 AND 0x0F) < 16" by (rule u8_and_0F_less)
  then have "int_of (s ! 1 AND 0x0F) \<le> 15" by linarith
  then show "section_len s \<le> 4098"
    using u8_le_255 [of "s ! 2"] unfolding section_len_def be16_def by linarith
qed

lemma section_len_append: "3 \<le> length s \<Longrightarrow> section_len (s @ t) = section_len s"
  by (simp add: section_len_def nth_append)

lemma section_len_take: "3 \<le> n \<Longrightarrow> section_len (take n s) = section_len s"
  by (simp add: section_len_def)

lemma wf_pf_drop_section [wf_intros]: "wf_pf pf \<Longrightarrow> wf_pf (drop_section pf)"
  by (simp add: wf_pf_def drop_section_def asm_ok_def)

lemma drop_section_simps [simp]:
  "pf_section (drop_section pf) = []" "pf_sectionLen (drop_section pf) = 0"
  "pf_filters (drop_section pf) = pf_filters pf" "pf_lastcc (drop_section pf) = pf_lastcc pf"
  by (simp_all add: drop_section_def)

lemma wf_pidmap_find: "wf_pidmap m \<Longrightarrow> sm_find m k = Some pf \<Longrightarrow> wf_pf pf \<and> pf_filters pf \<noteq> []"
  by (auto simp: wf_pidmap_def dest!: sm_find_in_set)

lemma wf_pidmap_put [wf_intros]:
  "wf_pidmap m \<Longrightarrow> wf_pf pf \<Longrightarrow> pf_filters pf \<noteq> [] \<Longrightarrow> wf_pidmap (sm_put k pf m)"
  using set_sm_put_subset [of k pf m] by (fastforce simp: wf_pidmap_def intro: wf_intros)

lemma wf_pidmap_erase [wf_intros]: "wf_pidmap m \<Longrightarrow> wf_pidmap (sm_erase k m)"
  using set_sm_erase_subset [of k m] by (fastforce simp: wf_pidmap_def intro: wf_intros)

subsection \<open>Delivery changes only the ECM nibbles\<close>

definition set_ecm :: "pmtobj list \<Rightarrow> int \<Rightarrow> int \<Rightarrow> bytes \<Rightarrow> dmxfilter \<Rightarrow> dmxfilter" where
  "set_ecm pmt a pid data f = the (SetECM pmt f a pid data)"

lemma SetECM_Some: "SetECM pmt f a pid data = Some (set_ecm pmt a pid data f)"
  by (auto simp: set_ecm_def SetECM_def Let_def rd_def)

lemma set_ecm_simps [simp]:
  "demux_id (set_ecm pmt a pid data f) = demux_id f"
  "filter_num (set_ecm pmt a pid data f) = filter_num f"
  "f_filter (set_ecm pmt a pid data f) = f_filter f"
  "f_mask (set_ecm pmt a pid data f) = f_mask f"
  by (auto simp: set_ecm_def SetECM_def Let_def rd_def)

text \<open>The filters of a pid after a section, and the messages for it.\<close>

definition delivered :: "pmtobj list \<Rightarrow> u8 \<Rightarrow> int \<Rightarrow> bytes \<Rightarrow> dmxfilter list \<Rightarrow> dmxfilter list" where
  "delivered pmt a pid s fs = map (\<lambda>f. if filter_matches f s then set_ecm pmt (int_of a) pid s f else f) fs"

definition section_msgs :: "dmxfilter list \<Rightarrow> bytes \<Rightarrow> bytes list" where
  "section_msgs fs s =
     map (\<lambda>f. filter_data_msg (demux_id f) (filter_num f) s) (filter (\<lambda>f. filter_matches f s) fs)"

lemma deliver_filters_eq:
  "deliver_filters pmt a pid data fs = Some (delivered pmt a pid data fs, section_msgs fs data)"
  by (induction fs) (auto simp: section_msgs_def delivered_def SetECM_Some)

lemma Deliver_eq:
  "Deliver pmt pf a pid s =
     Some (pf\<lparr>pf_filters := delivered pmt a pid s (pf_filters pf)\<rparr>, section_msgs (pf_filters pf) s)"
  by (simp add: Deliver_def deliver_filters_eq)

lemma length_delivered [simp]: "length (delivered pmt a pid s fs) = length fs"
  by (simp add: delivered_def)

lemma wf_filters_Deliver: "wf_filters fs \<Longrightarrow> wf_filters (delivered pmt a pid s fs)"
proof -
  assume wf: "wf_filters fs"
  have "map filter_key (delivered pmt a pid s fs) = map filter_key fs"
    by (simp add: filter_key_def delivered_def)
  with wf show ?thesis
    by (auto simp: wf_filters_def wf_filter_def delivered_def simp del: map_map)
qed

lemma sections_loop_eq:
  "sections_loop pmt pf a pid p =
     (if p = [] \<or> hd p = 0xFF then Some (pf, [])
      else if length p < 3 \<or> section_len p > int (length p) then Collect pmt pf a pid p
      else
        (let sec = take (nat (section_len p)) p
         in do { (pf2, ms') \<leftarrow> sections_loop pmt (pf\<lparr>pf_filters := delivered pmt a pid sec (pf_filters pf)\<rparr>) a pid
                                 (drop (nat (section_len p)) p);
                 Some (pf2, section_msgs (pf_filters pf) sec @ ms') }))"
  by (subst sections_loop.simps) (auto simp: Deliver_eq rdn_def Let_def)

subsection \<open>Collecting is feeding an assembly buffer\<close>

text \<open>
  What \<open>Collect\<close> implements, without the redundant length field: append the data, and once the
  header is there and announces no more than is available, the section is complete.
\<close>

definition feed :: "bytes \<Rightarrow> bytes \<Rightarrow> bytes \<times> bytes option" where
  "feed s data =
     (let t = s @ data in
      if length t < 3 \<or> int (length t) < section_len t then (t, None)
      else ([], Some (take (nat (section_len t)) t)))"

lemma feed_section: "feed s data = (s', Some sec) \<Longrightarrow> is_section sec \<and> s' = []"
proof -
  assume "feed s data = (s', Some sec)"
  moreover define t where "t = s @ data"
  ultimately have *: "3 \<le> length t" "section_len t \<le> int (length t)"
      "sec = take (nat (section_len t)) t" "s' = []"
    by (auto simp: feed_def Let_def split: if_splits)
  moreover have "3 \<le> nat (section_len t)"
    using section_len_range(1) [of t] by linarith
  ultimately show ?thesis
    using section_len_range(1) [of t] by (simp add: is_section_def section_len_take)
qed

lemma asm_ok_feed_None:
  "feed s data = (s', None) \<Longrightarrow> asm_ok s' (if length s' < 3 then 0 else section_len s')"
  by (auto simp: feed_def Let_def asm_ok_def split: if_splits)

text \<open>The state after \<open>feed\<close>: the buffer with the length field the code keeps beside it.\<close>

definition with_section :: "pidfilters \<Rightarrow> bytes \<Rightarrow> pidfilters" where
  "with_section pf s =
     pf\<lparr>pf_section := s, pf_sectionLen := if length s < 3 then 0 else section_len s\<rparr>"

lemma with_section_simps [simp]:
  "pf_section (with_section pf s) = s" "pf_filters (with_section pf s) = pf_filters pf"
  "pf_lastcc (with_section pf s) = pf_lastcc pf"
  "pf_sectionLen (with_section pf s) = (if length s < 3 then 0 else section_len s)"
  by (simp_all add: with_section_def)

lemma with_section_id: "asm_ok (pf_section pf) (pf_sectionLen pf) \<Longrightarrow> with_section pf (pf_section pf) = pf"
  by (cases pf) (auto simp: with_section_def asm_ok_def)

lemma drop_section_with_section [simp]: "drop_section (with_section pf s) = drop_section pf"
  by (simp add: drop_section_def with_section_def)

definition collect_result ::
  "pmtobj list \<Rightarrow> pidfilters \<Rightarrow> u8 \<Rightarrow> int \<Rightarrow> bytes \<times> bytes option \<Rightarrow> pidfilters \<times> bytes list" where
  "collect_result pmt pf a pid r =
     (case r of
        (s, None) \<Rightarrow> (with_section pf s, [])
      | (s, Some sec) \<Rightarrow>
          (drop_section (pf\<lparr>pf_filters := delivered pmt a pid sec (pf_filters pf)\<rparr>), section_msgs (pf_filters pf) sec))"

lemma Collect_feed:
  assumes "asm_ok (pf_section pf) (pf_sectionLen pf)"
  shows "Collect pmt pf a pid data = Some (collect_result pmt pf a pid (feed (pf_section pf) data))"
proof -
  define s where "s = pf_section pf"
  show ?thesis
  proof (cases "pf_sectionLen pf = 0")
    case True
    then show ?thesis
      using assms section_len_range(1) [of "pf_section pf @ data"]
      by (auto simp: Collect_def rdn_def feed_def collect_result_def with_section_def asm_ok_def Let_def
          Deliver_eq drop_section_def)
  next
    case False
    then have s: "3 \<le> length s" "pf_sectionLen pf = section_len s" "int (length s) < section_len s"
      using assms by (auto simp: asm_ok_def s_def)
    have sl: "section_len (s @ data) = section_len s"
      using s(1) by (rule section_len_append)
    define n where "n = nat (section_len s) - length s"
    have n: "nat (min (int (length data)) (section_len s - int (length s))) = min (length data) n"
      using s(3) by (auto simp: n_def min_def)
    show ?thesis
    proof (cases "length data < n")
      case True
      then have "feed s data = (s @ data, None)" "int (length s + length data) < section_len s"
        using s by (auto simp: feed_def sl n_def Let_def)
      then show ?thesis
        using s n True False
        by (simp add: Collect_def rdn_def Let_def collect_result_def with_section_def sl flip: s_def)
    next
      case False
      then have "feed s data = ([], Some (s @ take n data))"
        using s by (auto simp: feed_def sl n_def Let_def)
      moreover have "int (length (s @ take n data)) = section_len s"
        using False s(3) by (simp add: n_def)
      ultimately show ?thesis
        using s n False \<open>pf_sectionLen pf \<noteq> 0\<close>
        by (simp add: Collect_def rdn_def Let_def collect_result_def Deliver_eq drop_section_def flip: s_def)
    qed
  qed
qed

text \<open>Every message that leaves the filter carries one whole section.\<close>

definition carries_section :: "bytes \<Rightarrow> bool" where
  "carries_section m \<longleftrightarrow> (\<exists>d n s. m = filter_data_msg d n s \<and> is_section s)"

lemma carries_section_msgs: "is_section s \<Longrightarrow> m \<in> set (section_msgs fs s) \<Longrightarrow> carries_section m"
  by (auto simp: section_msgs_def carries_section_def)

definition good_step :: "pidfilters \<Rightarrow> (pidfilters \<times> bytes list) option \<Rightarrow> bool" where
  "good_step pf r \<longleftrightarrow> (\<exists>pf' ms. r = Some (pf', ms) \<and> wf_pf pf' \<and> pf_lastcc pf' = pf_lastcc pf
     \<and> length (pf_filters pf') = length (pf_filters pf) \<and> (\<forall>m \<in> set ms. carries_section m))"

lemma good_Collect: "wf_pf pf \<Longrightarrow> good_step pf (Collect pmt pf a pid data)"
proof -
  assume wf: "wf_pf pf"
  obtain s' so where f: "feed (pf_section pf) data = (s', so)" by fastforce
  show ?thesis
  proof (cases so)
    case None
    with f wf show ?thesis
      using asm_ok_feed_None [of "pf_section pf" data s']
      by (auto simp: good_step_def Collect_feed wf_pf_def collect_result_def)
  next
    case (Some sec)
    with f have "is_section sec" by (simp add: feed_section)
    with Some f wf show ?thesis
      by (auto simp: good_step_def Collect_feed wf_pf_def collect_result_def Deliver_eq asm_ok_def
          wf_filters_Deliver intro: carries_section_msgs)
  qed
qed

lemma good_sections_loop: "wf_pf pf \<Longrightarrow> good_step pf (sections_loop pmt pf a pid p)"
proof (induction "length p" arbitrary: p pf rule: less_induct)
  case less
  show ?case
  proof (cases "p = [] \<or> hd p = 0xFF \<or> length p < 3 \<or> section_len p > int (length p)")
    case True
    with less.prems show ?thesis
      by (subst sections_loop_eq) (auto simp: good_Collect, simp_all add: good_step_def)
  next
    case False
    let ?s = "take (nat (section_len p)) p"
    let ?pf = "pf\<lparr>pf_filters := delivered pmt a pid ?s (pf_filters pf)\<rparr>"
    have sec: "is_section ?s"
      using False section_len_range(1) [of p]
      by (auto simp: is_section_def section_len_take nat_le_iff)
    then have "length (drop (nat (section_len p)) p) < length p" "wf_pf ?pf"
      using False section_len_range(1) [of p] less.prems by (auto simp: wf_pf_def wf_filters_Deliver)
    from less.hyps [OF this] False carries_section_msgs [OF sec, of _ "pf_filters pf"] show ?thesis
      by (subst sections_loop_eq) (auto simp: good_step_def Let_def)
  qed
qed

lemma good_analyze_payload:
  assumes "wf_pf pf" "p \<noteq> []"
  shows "good_step pf (analyze_payload pmt pf a pid pusi continuous p)"
proof (cases pusi)
  case False
  with assms(1) show ?thesis
    by (auto simp: analyze_payload_def good_Collect) (simp_all add: good_step_def wf_intros)
next
  case True
  obtain b q where p: "p = b # q" using assms(2) by (cases p) auto
  show ?thesis
  proof (cases "unat b > length q")
    case True
    with \<open>pusi\<close> assms(1) show ?thesis
      by (simp add: p analyze_payload_def rd_def good_step_def wf_intros)
  next
    case False
    let ?r = "if continuous \<and> pf_section pf \<noteq> [] then do { d \<leftarrow> rdn q 0 (unat b); Collect pmt pf a pid d } else Some (pf, [])"
    have "good_step pf ?r"
      using assms(1) good_Collect [OF assms(1)] False by (auto simp: good_step_def rdn_def)
    then obtain pf1 ms where r: "?r = Some (pf1, ms)" and wf1: "wf_pf pf1" "pf_lastcc pf1 = pf_lastcc pf"
        "length (pf_filters pf1) = length (pf_filters pf)" "\<forall>m \<in> set ms. carries_section m"
      by (auto simp: good_step_def)
    have "good_step (drop_section pf1) (sections_loop pmt (drop_section pf1) a pid (drop (unat b) q))"
      using wf1(1) by (intro good_sections_loop wf_intros)
    with wf1 False r \<open>pusi\<close> show ?thesis
      by (auto simp: p analyze_payload_def rd_def good_step_def Let_def)
  qed
qed

subsection \<open>The packet level\<close>

text \<open>A packet of \<open>pid\<close> with payload \<open>p\<close>: the header fields as ISO 13818-1 lays them out.\<close>

definition payload_offset :: "bytes \<Rightarrow> nat" where
  "payload_offset d = (if adaptation_control (d ! 3) AND 0x02 \<noteq> 0 then 4 + (1 + unat (d ! 4)) else 4)"

definition ts_carries :: "int \<Rightarrow> bool \<Rightarrow> int \<Rightarrow> bytes \<Rightarrow> bytes \<Rightarrow> bool" where
  "ts_carries pid pusi cc p d \<longleftrightarrow>
     TS_SIZE \<le> length d \<and> be16 (d ! 1) (d ! 2) AND MAX_CSA_PID = pid \<and> 0 < pid \<and> pid < MAX_CSA_PID \<and>
     pusi = (d ! 1 AND 0x40 \<noteq> 0) \<and> cc = int_of (d ! 3 AND 0x0F) \<and>
     adaptation_control (d ! 3) AND 0x01 \<noteq> 0 \<and> payload_offset d < TS_SIZE \<and>
     p = take (TS_SIZE - payload_offset d) (drop (payload_offset d) d)"

definition next_cc :: "pidfilters \<Rightarrow> int \<Rightarrow> bool" where
  "next_cc pf cc \<longleftrightarrow> pf_lastcc pf \<ge> 0 \<and> cc = (pf_lastcc pf + 1) AND 0x0F"

lemma Analyze_carries:
  assumes "ts_carries pid pusi cc p d" "sm_find m (int_of a, pid) = Some pf"
  shows "Analyze pmt m a d =
    do { (pf', ms) \<leftarrow> analyze_payload pmt (pf\<lparr>pf_lastcc := cc\<rparr>) a pid pusi (next_cc pf cc) p;
         Some (sm_put (int_of a, pid) pf' m, ms) }"
  using assms
  by (auto simp: Analyze_def ts_carries_def rd_simps payload_offset_def next_cc_def Let_def
      split: if_splits)

lemma carries_payload_nonempty: "ts_carries pid pusi cc p d \<Longrightarrow> p \<noteq> []"
  by (auto simp: ts_carries_def)

lemma carries_cc: "ts_carries pid pusi cc p d \<Longrightarrow> 0 \<le> cc \<and> cc < 16"
  using u8_and_0F_less [of "d ! 3"] by (auto simp: ts_carries_def)

lemma Analyze_good:
  assumes wf: "wf_pidmap m" and len: "TS_SIZE \<le> length data"
  shows "\<exists>m' ms. Analyze pmt m a data = Some (m', ms) \<and> wf_pidmap m' \<and> (\<forall>x \<in> set ms. carries_section x)"
proof -
  define pid where "pid = be16 (data ! 1) (data ! 2) AND MAX_CSA_PID"
  have rds: "rd data 1 = Some (data ! 1)" "rd data 2 = Some (data ! 2)" "rd data 3 = Some (data ! 3)"
      "rd data 4 = Some (data ! 4)"
    using len by (simp_all add: rd_simps)
  show ?thesis
  proof (cases "pid \<ge> MAX_CSA_PID \<or> pid = 0 \<or> sm_find m (int_of a, pid) = None
      \<or> adaptation_control (data ! 3) AND 0x01 = 0 \<or> payload_offset data \<ge> TS_SIZE")
    case True
    have "Analyze pmt m a data = Some (m, [])"
      using True rds
      by (auto simp: Analyze_def Let_def payload_offset_def pid_def split: option.splits)
    with wf show ?thesis by simp
  next
    case False
    then obtain pf where pf: "sm_find m (int_of a, pid) = Some pf" by auto
    have "0 \<le> pid" by (simp add: pid_def)
    with False have "0 < pid" "pid < MAX_CSA_PID" by auto
    with False len have c: "ts_carries pid (data ! 1 AND 0x40 \<noteq> 0) (int_of (data ! 3 AND 0x0F))
        (take (TS_SIZE - payload_offset data) (drop (payload_offset data) data)) data"
        (is "ts_carries _ ?pusi ?cc ?p _")
      by (auto simp: ts_carries_def simp flip: One_nat_def pid_def)
    have "-1 \<le> ?cc" "?cc < 16" using carries_cc [OF c] by linarith+
    then have wfp: "wf_pf (pf\<lparr>pf_lastcc := ?cc\<rparr>)" "pf_filters pf \<noteq> []"
      using wf_pidmap_find [OF wf pf] by (auto simp: wf_pf_def)
    have "good_step (pf\<lparr>pf_lastcc := ?cc\<rparr>)
        (analyze_payload pmt (pf\<lparr>pf_lastcc := ?cc\<rparr>) a pid ?pusi (next_cc pf ?cc) ?p)"
      using wfp(1) carries_payload_nonempty [OF c] by (rule good_analyze_payload)
    then obtain pf' ms where "analyze_payload pmt (pf\<lparr>pf_lastcc := ?cc\<rparr>) a pid ?pusi (next_cc pf ?cc) ?p
          = Some (pf', ms)" "wf_pf pf'" "length (pf_filters pf') = length (pf_filters pf)"
        "\<forall>x \<in> set ms. carries_section x"
      by (auto simp: good_step_def)
    moreover from this(3) wfp(2) have "pf_filters pf' \<noteq> []" by auto
    ultimately show ?thesis
      using Analyze_carries [OF c pf, of pmt] wf by (auto intro: wf_intros)
  qed
qed

subsection \<open>Reassembly over several packets\<close>

fun analyze_run :: "pmtobj list \<Rightarrow> pidmap \<Rightarrow> u8 \<Rightarrow> bytes list \<Rightarrow> (pidmap \<times> bytes list) option" where
  "analyze_run pmt m a [] = Some (m, [])"
| "analyze_run pmt m a (d # ds) =
     do { (m1, ms) \<leftarrow> Analyze pmt m a d;
          (m2, ms') \<leftarrow> analyze_run pmt m1 a ds;
          Some (m2, ms @ ms') }"

text \<open>The packets \<open>ds\<close> continue a section of \<open>pid\<close> with the payloads \<open>cs\<close>, counting from \<open>cc\<close>.\<close>

fun continues :: "int \<Rightarrow> int \<Rightarrow> bytes list \<Rightarrow> bytes list \<Rightarrow> bool" where
  "continues pid cc [] [] = True"
| "continues pid cc (c # cs) (d # ds) =
     (ts_carries pid False ((cc + 1) mod 16) c d \<and> continues pid ((cc + 1) mod 16) cs ds)"
| "continues pid cc _ _ = False"

lemma section_prefix:
  "is_section s \<Longrightarrow> n < length s \<Longrightarrow> length (take n s) < 3 \<or> int (length (take n s)) < section_len (take n s)"
proof (cases "n < 3")
  case False
  assume "is_section s" "n < length s"
  with False show ?thesis by (simp add: is_section_def section_len_take)
qed auto

lemma feed_prefix:
  assumes "is_section s" "s0 @ c @ r = s @ pad" "length (s0 @ c) < length s"
  shows "feed s0 c = (s0 @ c, None)"
proof -
  define t where "t = s0 @ c"
  have "t = take (length t) (s @ pad)" by (simp add: t_def flip: assms(2))
  then have "t = take (length t) s" using assms(3) by (simp add: t_def)
  with section_prefix [OF assms(1,3)] have "length t < 3 \<or> int (length t) < section_len t"
    by (metis t_def)
  then show ?thesis by (auto simp: feed_def Let_def simp flip: t_def)
qed

lemma feed_complete:
  assumes "is_section s" "s0 @ c = s @ pad"
  shows "feed s0 c = ([], Some s)"
proof -
  have "nat (section_len s) = length s" "section_len s = int (length s)"
    using assms(1) by (auto simp: is_section_def)
  with assms show ?thesis by (simp add: feed_def is_section_def section_len_append)
qed

lemma Collect_prefix:
  "asm_ok (pf_section pf) (pf_sectionLen pf) \<Longrightarrow> feed (pf_section pf) c = (t, None) \<Longrightarrow>
     Collect pmt pf a pid c = Some (with_section pf t, [])"
  by (simp add: Collect_feed collect_result_def)

lemma Collect_complete:
  "asm_ok (pf_section pf) (pf_sectionLen pf) \<Longrightarrow> feed (pf_section pf) c = ([], Some s) \<Longrightarrow>
     \<exists>pf'. Collect pmt pf a pid c = Some (pf', section_msgs (pf_filters pf) s) \<and> pf_section pf' = []"
  by (simp add: Collect_feed collect_result_def)

lemma next_cc_mod: "pf_lastcc pf = cc \<Longrightarrow> 0 \<le> cc \<Longrightarrow> next_cc pf ((cc + 1) mod 16)"
proof -
  assume "pf_lastcc pf = cc" "0 \<le> cc"
  moreover have "(cc + 1) AND 0x0F = (cc + 1) mod 16"
    using take_bit_eq_mask [of 4 "cc + 1"] by (simp add: take_bit_eq_mod mask_eq_exp_minus_1)
  ultimately show ?thesis by (simp add: next_cc_def)
qed

text \<open>The filters a packet of the pid leaves behind, as the state of the pid map.\<close>

definition idle_at :: "pidmap \<Rightarrow> int \<times> int \<Rightarrow> bool" where
  "idle_at m k \<longleftrightarrow> (\<exists>pf. sm_find m k = Some pf \<and> pf_section pf = [])"

lemma analyze_run_continues:
  assumes "is_section s"
    and "sm_find m (int_of a, pid) = Some pf"
    and "asm_ok (pf_section pf) (pf_sectionLen pf)" "pf_section pf \<noteq> []"
    and "pf_lastcc pf = cc" "0 \<le> cc" "cc < 16"
    and "continues pid cc cs ds" "cs \<noteq> []"
    and "pf_section pf @ concat cs = s @ pad"
    and "length (pf_section pf @ concat (butlast cs)) < length s"
  shows "\<exists>m'. analyze_run pmt m a ds = Some (m', section_msgs (pf_filters pf) s) \<and> idle_at m' (int_of a, pid)"
  using assms
proof (induction cs arbitrary: m pf cc ds)
  case (Cons c cs)
  let ?cc = "(cc + 1) mod 16"
  obtain d ds' where ds: "ds = d # ds'" "ts_carries pid False ?cc c d" "continues pid ?cc cs ds'"
    using Cons.prems(8) by (cases ds) auto
  let ?pf = "pf\<lparr>pf_lastcc := ?cc\<rparr>"
  have A: "Analyze pmt m a d =
      do { (pf', ms) \<leftarrow> Collect pmt ?pf a pid c; Some (sm_put (int_of a, pid) pf' m, ms) }"
    using Cons.prems by (simp add: Analyze_carries [OF ds(2)] analyze_payload_def next_cc_mod)
  show ?case
  proof (cases "cs = []")
    case True
    then have "ds' = []" using ds(3) by (cases ds') auto
    have "feed (pf_section ?pf) c = ([], Some s)"
      using Cons.prems True by (intro feed_complete [of s _ _ pad]) auto
    then obtain pf' where "Collect pmt ?pf a pid c = Some (pf', section_msgs (pf_filters pf) s)"
        "pf_section pf' = []"
      using Collect_complete [of ?pf c s pmt a pid] Cons.prems(3) by auto
    then show ?thesis
      by (simp add: ds(1) \<open>ds' = []\<close> A idle_at_def sm_find_put)
  next
    case False
    define t where "t = pf_section pf @ c"
    have len: "length t < length s" "length (t @ concat (butlast cs)) < length s"
      using Cons.prems(11) False by (simp_all add: t_def)
    have "feed (pf_section ?pf) c = (t, None)"
      using Cons.prems(1,10) len(1) by (auto simp: t_def intro!: feed_prefix [of s _ _ "concat cs" pad])
    moreover from this have "asm_ok t (if length t < 3 then 0 else section_len t)"
      by (rule asm_ok_feed_None)
    ultimately have C: "Collect pmt ?pf a pid c = Some (with_section ?pf t, [])"
      using Cons.prems(3) by (simp add: Collect_prefix)
    have "\<exists>m'. analyze_run pmt (sm_put (int_of a, pid) (with_section ?pf t) m) a ds'
        = Some (m', section_msgs (pf_filters (with_section ?pf t)) s) \<and> idle_at m' (int_of a, pid)"
      using Cons.prems False ds(3) len(2) \<open>asm_ok t _\<close>
      by (intro Cons.IH [where cc = ?cc]) (auto simp: sm_find_put t_def)
    then show ?thesis by (auto simp: ds(1) A C)
  qed
qed simp

lemma sections_loop_first:
  assumes "is_section s" "hd s \<noteq> 0xFF" "c \<noteq> []" "pf_section pf = []" "pf_sectionLen pf = 0"
  shows "c @ r = s \<Longrightarrow> r \<noteq> [] \<Longrightarrow> sections_loop pmt pf a pid c = Some (with_section pf c, [])"
    and "c = s @ pad \<Longrightarrow> pad = [] \<or> hd pad = 0xFF \<Longrightarrow>
           \<exists>pf'. sections_loop pmt pf a pid c = Some (pf', section_msgs (pf_filters pf) s) \<and> pf_section pf' = []"
proof -
  have asm: "asm_ok (pf_section pf) (pf_sectionLen pf)" using assms(4,5) by (simp add: asm_ok_def)
  have hd: "hd c \<noteq> 0xFF" if "c @ r = s @ x" for r x
    using that assms(1-3) by (cases c; cases s) (auto simp: is_section_def)
  show "sections_loop pmt pf a pid c = Some (with_section pf c, [])" if "c @ r = s" "r \<noteq> []"
  proof -
    have "feed [] c = (c, None)"
      using feed_prefix [of s "[]" c r "[]"] assms(1) that by auto
    then have "length c < 3 \<or> int (length c) < section_len c"
      by (auto simp: feed_def Let_def split: if_splits)
    with \<open>feed [] c = (c, None)\<close> show ?thesis
      using asm assms(3,4) hd [of r "[]"] that
      by (subst sections_loop_eq) (auto simp: Collect_prefix)
  qed
  show "\<exists>pf'. sections_loop pmt pf a pid c = Some (pf', section_msgs (pf_filters pf) s) \<and> pf_section pf' = []"
    if "c = s @ pad" "pad = [] \<or> hd pad = 0xFF"
  proof -
    have s: "3 \<le> length s" "section_len c = int (length s)"
      using assms(1) by (auto simp: that(1) is_section_def section_len_append)
    have stop: "sections_loop pmt pf' a pid pad = Some (pf', [])" for pf'
      using that(2) by (subst sections_loop_eq) auto
    show ?thesis
      using s hd [of "[]" pad] that(1) assms(3,4)
      by (subst sections_loop_eq) (auto simp: stop)
  qed
qed

subsection \<open>Setting and stopping: the list of one pid\<close>

lemma same_filter_iff: "same_filter demux num f \<longleftrightarrow> filter_key f = (int_of demux, int_of num)"
  by (simp add: same_filter_def filter_key_def)

text \<open>The filter a start request leaves in the list, given the old one if there is one.\<close>

definition updated_filter :: "u8 \<Rightarrow> u8 \<Rightarrow> bytes \<Rightarrow> bytes \<Rightarrow> dmxfilter option \<Rightarrow> dmxfilter" where
  "updated_filter demux num f m old =
     (case old of
        None \<Rightarrow> \<lparr>demux_id = int_of demux, filter_num = int_of num, f_filter = masked f m,
                 f_mask = take DMX_FILTER_SIZE m, ecm_even = 0, ecm_odd = 0\<rparr>
      | Some x \<Rightarrow> x\<lparr>f_filter := masked f m, f_mask := take DMX_FILTER_SIZE m\<rparr>)"

lemma updated_filter_key [simp]:
  "old = None \<or> (\<exists>x. old = Some x \<and> same_filter demux num x) \<Longrightarrow>
     filter_key (updated_filter demux num f m old) = (int_of demux, int_of num)"
  by (auto simp: updated_filter_def same_filter_iff filter_key_def)

lemma keys_set_filter:
  "map filter_key (set_filter demux num f m fs) =
     map filter_key fs @ (if (int_of demux, int_of num) \<in> filter_key ` set fs then [] else [(int_of demux, int_of num)])"
  by (induction fs) (auto simp: same_filter_def filter_key_def)

lemma set_set_filter:
  "distinct (map filter_key fs) \<Longrightarrow>
     set (set_filter demux num f m fs) =
       insert (updated_filter demux num f m (find (same_filter demux num) fs))
         {x \<in> set fs. filter_key x \<noteq> (int_of demux, int_of num)}"
proof (induction fs)
  case (Cons x fs)
  show ?case
  proof (cases "same_filter demux num x")
    case True
    with Cons.prems have "{y \<in> set (x # fs). filter_key y \<noteq> (int_of demux, int_of num)} = set fs"
      by (auto simp: same_filter_iff image_iff)
    with True show ?thesis by (simp add: updated_filter_def same_filter_iff)
  next
    case False
    with Cons show ?thesis by (auto simp: same_filter_iff)
  qed
qed (simp add: updated_filter_def)

lemma erase_filter_eq:
  "distinct (map filter_key fs) \<Longrightarrow>
     erase_filter demux num fs =
       (if (int_of demux, int_of num) \<in> filter_key ` set fs
        then Some (filter (\<lambda>x. filter_key x \<noteq> (int_of demux, int_of num)) fs) else None)"
proof (induction fs)
  case (Cons x fs)
  show ?case
  proof (cases "same_filter demux num x")
    case True
    with Cons.prems have "filter (\<lambda>x. filter_key x \<noteq> (int_of demux, int_of num)) fs = fs"
      by (intro filter_eq_self) (auto simp: same_filter_iff image_iff)
    with True show ?thesis by (simp add: same_filter_iff)
  next
    case False
    with Cons show ?thesis by (auto simp: same_filter_iff)
  qed
qed simp

lemma masked_length [simp]:
  "DMX_FILTER_SIZE \<le> length f \<Longrightarrow> DMX_FILTER_SIZE \<le> length m \<Longrightarrow> length (masked f m) = DMX_FILTER_SIZE"
  by (simp add: masked_def)

lemma masked_nth:
  "DMX_FILTER_SIZE \<le> length f \<Longrightarrow> DMX_FILTER_SIZE \<le> length m \<Longrightarrow> i < DMX_FILTER_SIZE \<Longrightarrow>
     masked f m ! i = f ! i AND m ! i"
  by (simp add: masked_def)

lemma wf_updated_filter:
  assumes "DMX_FILTER_SIZE \<le> length f" "DMX_FILTER_SIZE \<le> length m"
    and "\<And>x. old = Some x \<Longrightarrow> wf_filter x"
  shows "wf_filter (updated_filter demux num f m old)"
  using assms by (auto simp: wf_filter_def updated_filter_def split: option.splits)

lemma wf_set_filter:
  assumes "wf_filters fs" "DMX_FILTER_SIZE \<le> length f" "DMX_FILTER_SIZE \<le> length m"
  shows "wf_filters (set_filter demux num f m fs)"
proof -
  have "wf_filter (updated_filter demux num f m (find (same_filter demux num) fs))"
    using assms by (intro wf_updated_filter) (auto simp: wf_filters_def find_Some_iff)
  with assms(1) show ?thesis
    by (auto simp: wf_filters_def set_set_filter keys_set_filter)
qed

lemma wf_filters_filter: "wf_filters fs \<Longrightarrow> wf_filters (filter P fs)"
  by (auto simp: wf_filters_def distinct_map_filter)

lemma set_filter_nonempty: "set_filter demux num f m fs \<noteq> []"
  by (cases fs) auto

lemma wf_new_pidfilters: "wf_pf new_pidfilters"
  by (simp add: wf_pf_def new_pidfilters_def asm_ok_def wf_filters_def)

lemma wf_pf_with_filters: "wf_pf pf \<Longrightarrow> wf_filters fs \<Longrightarrow> wf_pf (pf\<lparr>pf_filters := fs\<rparr>)"
  by (simp add: wf_pf_def)

lemma SetFilter_pidmap_start:
  "0 \<le> pid \<Longrightarrow> pid < MAX_CSA_PID \<Longrightarrow>
     SetFilter_pidmap m a pid 1 demux num (Some (f, k)) =
       sm_put (int_of a, pid)
         ((case sm_find m (int_of a, pid) of None \<Rightarrow> new_pidfilters | Some pf \<Rightarrow> pf)
            \<lparr>pf_filters := set_filter demux num f k
               (case sm_find m (int_of a, pid) of None \<Rightarrow> [] | Some pf \<Rightarrow> pf_filters pf)\<rparr>) m"
  by (simp add: SetFilter_pidmap_def Let_def new_pidfilters_def split: option.splits)

lemma SetFilter_pidmap_stop:
  "0 \<le> pid \<Longrightarrow> pid < MAX_CSA_PID \<Longrightarrow>
     SetFilter_pidmap m a pid 0 demux num fm =
       (case sm_find m (int_of a, pid) of
          None \<Rightarrow> m
        | Some pf \<Rightarrow> (case erase_filter demux num (pf_filters pf) of
             None \<Rightarrow> m
           | Some [] \<Rightarrow> sm_erase (int_of a, pid) m
           | Some fs \<Rightarrow> sm_put (int_of a, pid) (pf\<lparr>pf_filters := fs\<rparr>) m))"
  by (simp add: SetFilter_pidmap_def Let_def)

lemma SetFilter_pidmap_ignored:
  "\<not> (0 \<le> pid \<and> pid < MAX_CSA_PID) \<or> start \<noteq> 0 \<and> (start \<noteq> 1 \<or> fm = None) \<Longrightarrow>
     SetFilter_pidmap m a pid start demux num fm = m"
  by (auto simp: SetFilter_pidmap_def split: option.splits bool.splits)

lemma wf_pf_found: "wf_pidmap m \<Longrightarrow>
    wf_pf (case sm_find m k of None \<Rightarrow> new_pidfilters | Some pf \<Rightarrow> pf)"
  using wf_new_pidfilters wf_pidmap_find [of m k] by (cases "sm_find m k") auto

lemma wf_filters_found: "wf_pidmap m \<Longrightarrow>
    wf_filters (case sm_find m k of None \<Rightarrow> [] | Some pf \<Rightarrow> pf_filters pf)"
  using wf_pidmap_find [of m k]
  by (cases "sm_find m k") (auto simp: wf_filters_def wf_pf_def)

subsection \<open>Properties\<close>



text \<open>C17: sections survive the split over TS packets. A section that starts at the pointer field of
  a packet and continues in packets of the same pid with consecutive continuity counters is delivered
  byte for byte to exactly the matching filters of the pid, once, when its last byte arrives, and no
  section is left in assembly.\<close>

theorem Analyze_reassembles:
  assumes "wf_pidmap m" "sm_find m (int_of a, pid) = Some pf"
    and "ts_carries pid True cc (0 # c0) d0" "c0 \<noteq> []" "continues pid cc cs ds"
    and "is_section s" "hd s \<noteq> 0xFF" "c0 @ concat cs = s @ pad"
    and "cs = [] \<longrightarrow> pad = [] \<or> hd pad = 0xFF"
    and "cs \<noteq> [] \<longrightarrow> length (c0 @ concat (butlast cs)) < length s"
  shows "\<exists>m'. analyze_run pmt m a (d0 # ds) = Some (m', section_msgs (pf_filters pf) s) \<and>
    idle_at m' (int_of a, pid)"
proof -
  let ?pf = "pf\<lparr>pf_lastcc := cc\<rparr>"
  have wf: "wf_pf pf" using wf_pidmap_find [OF assms(1,2)] by simp
  have "\<exists>pf1. (if next_cc pf cc \<and> pf_section pf \<noteq> [] then Collect pmt ?pf a pid []
          else Some (?pf, [])) = Some (pf1, []) \<and> drop_section pf1 = drop_section ?pf"
  proof -
    have "feed (pf_section pf) [] = (pf_section pf, None)"
      using wf by (auto simp: wf_pf_def asm_ok_def feed_def)
    then show ?thesis
      using wf by (auto simp: Collect_prefix wf_pf_def)
  qed
  then obtain pf1 where pf1:
      "(if next_cc pf cc \<and> pf_section pf \<noteq> [] then Collect pmt ?pf a pid [] else Some (?pf, [])) = Some (pf1, [])"
      "drop_section pf1 = drop_section ?pf" by blast
  let ?d = "drop_section ?pf"
  have A: "Analyze pmt m a d0 =
      do { (pf', ms) \<leftarrow> sections_loop pmt ?d a pid c0; Some (sm_put (int_of a, pid) pf' m, ms) }"
    using pf1 by (cases "next_cc pf cc \<and> pf_section pf \<noteq> []")
      (auto simp: Analyze_carries [OF assms(3,2)] analyze_payload_def rd_def rdn_def split: bind_splits)
  show ?thesis
  proof (cases "cs = []")
    case True
    then have "ds = []" using assms(5) by (cases ds) auto
    obtain pf' where "sections_loop pmt ?d a pid c0 = Some (pf', section_msgs (pf_filters pf) s)"
        "pf_section pf' = []"
      using sections_loop_first(2) [of s c0 ?d pad pmt a pid] assms True by auto
    then show ?thesis by (simp add: \<open>ds = []\<close> A idle_at_def sm_find_put)
  next
    case False
    with assms(10) have len: "length c0 < length s" "length (c0 @ concat (butlast cs)) < length s" by auto
    have "c0 = take (length c0) (s @ pad)" by (simp flip: assms(8))
    with len(1) have "c0 = take (length c0) s" by simp
    then have c0': "c0 @ drop (length c0) s = s" by (metis append_take_drop_id)
    have S: "sections_loop pmt ?d a pid c0 = Some (with_section ?d c0, [])"
      using sections_loop_first(1) [of s c0 ?d "drop (length c0) s" pmt a pid] assms len(1) c0' by auto
    have asm: "asm_ok c0 (if length c0 < 3 then 0 else section_len c0)"
      by (rule asm_ok_feed_None [of "[]" c0]) (use feed_prefix [OF assms(6), of "[]" c0 "concat cs" pad] assms(8) len in auto)
    have "\<exists>m'. analyze_run pmt (sm_put (int_of a, pid) (with_section ?d c0) m) a ds
        = Some (m', section_msgs (pf_filters (with_section ?d c0)) s) \<and> idle_at m' (int_of a, pid)"
      using assms False len(2) asm carries_cc [OF assms(3)]
      by (intro analyze_run_continues [where cc = cc and cs = cs and pad = pad]) (auto simp: sm_find_put)
    then show ?thesis by (auto simp: A S)
  qed
qed

text \<open>One demux filter that passes everything on pid 0x100, and a section of 190 bytes in two packets.\<close>

lemma Analyze_reassembles_witness:
  "\<exists>m'. analyze_run [] (SetFilter_pidmap [] 0 0x100 1 2 0 (Some (replicate 16 0, replicate 16 0))) 0
      [[0x47, 0x41, 0x00, 0x10, 0x00, 0x80, 0x00, 0xBB] @ replicate 180 7,
       [0x47, 0x01, 0x00, 0x11] @ replicate 7 7 @ replicate 177 0xFF]
    = Some (m', [[0xFF, 0xFF, 0, 0, 2, 0, 0x80, 0x00, 0xBB] @ replicate 187 7])"
proof -
  let ?f = "\<lparr>demux_id = 2, filter_num = 0, f_filter = replicate 16 0, f_mask = replicate 16 0,
             ecm_even = 0, ecm_odd = 0\<rparr>"
  let ?pf = "new_pidfilters\<lparr>pf_filters := [?f]\<rparr>"
  let ?m = "[((0, 0x100), ?pf)]"
  let ?c0 = "[0x80, 0x00, 0xBB] @ replicate 180 (7::u8)"
  let ?c1 = "replicate 7 (7::u8) @ replicate 177 0xFF"
  let ?s = "[0x80, 0x00, 0xBB] @ replicate 187 (7::u8)"
  have m: "SetFilter_pidmap [] 0 0x100 1 2 0 (Some (replicate 16 0, replicate 16 0)) = ?m"
    by (simp add: SetFilter_pidmap_start new_pidfilters_def masked_def)
  have wf: "wf_pidmap ?m"
    by (simp add: wf_pidmap_def sm_ok_def wf_pf_def new_pidfilters_def asm_ok_def wf_filters_def wf_filter_def)
  have c0: "ts_carries 0x100 True 0 (0 # ?c0) ([0x47, 0x41, 0x00, 0x10, 0x00] @ ?c0)"
    by (simp add: ts_carries_def payload_offset_def adaptation_control_def be16_def)
  have c1: "continues 0x100 0 [?c1] [[0x47, 0x01, 0x00, 0x11] @ ?c1]"
    by (simp add: ts_carries_def payload_offset_def adaptation_control_def be16_def)
  have s: "is_section ?s" by (simp add: is_section_def section_len_def be16_def)
  have f: "filter_matches ?f ?s"
    by (auto simp: filter_matches_def list_all_iff)
  have "\<exists>m'. analyze_run [] ?m 0 (([0x47, 0x41, 0x00, 0x10, 0x00] @ ?c0) # [[0x47, 0x01, 0x00, 0x11] @ ?c1])
      = Some (m', section_msgs (pf_filters ?pf) ?s) \<and> idle_at m' (int_of 0, 0x100)"
    by (rule Analyze_reassembles [OF wf _ c0 _ c1 s, where pad = "replicate 177 0xFF"])
      (simp_all flip: replicate_add)
  with f show ?thesis
    by (auto simp: m section_msgs_def filter_data_msg_def)
qed

lemma filter_data_msg_inj:
  assumes "filter_data_msg d n s = filter_data_msg d' n' s" "{d, n, d', n'} \<subseteq> {0..<256}"
  shows "d = d' \<and> n = n'"
proof -
  have eq: "u8_of d = u8_of d'" "u8_of n = u8_of n'" using assms(1) by (auto simp: filter_data_msg_def)
  have "d = d'" using arg_cong [OF eq(1), of uint] assms(2) by (simp add: uint_u8_of)
  moreover have "n = n'" using arg_cong [OF eq(2), of uint] assms(2) by (simp add: uint_u8_of)
  ultimately show ?thesis ..
qed

lemma section_msgs_iff:
  assumes "wf_filters fs" "g \<in> set fs"
  shows "filter_data_msg (demux_id g) (filter_num g) s \<in> set (section_msgs fs s) \<longleftrightarrow> filter_matches g s"
proof
  assume "filter_data_msg (demux_id g) (filter_num g) s \<in> set (section_msgs fs s)"
  then obtain h where h: "h \<in> set fs" "filter_matches h s"
      "filter_data_msg (demux_id h) (filter_num h) s = filter_data_msg (demux_id g) (filter_num g) s"
    by (auto simp: section_msgs_def)
  have "{demux_id h, filter_num h, demux_id g, filter_num g} \<subseteq> {0..<256}"
    using assms h(1) by (auto simp: wf_filters_def wf_filter_def)
  from filter_data_msg_inj [OF h(3) this] have "filter_key h = filter_key g"
    by (simp add: filter_key_def)
  with assms h show "filter_matches g s" by (auto simp: wf_filters_def distinct_map dest: inj_onD)
qed (use assms(2) in \<open>auto simp: section_msgs_def\<close>)



text \<open>C19: setting and stopping filters keeps the pid map well formed, and stopping a filter that
  was just set removes it: no filter of that demux and number is left on the pid, the other filters
  of the pid stay as they were, and a pid without filters has no entry.\<close>

theorem SetFilter_stop_removes:
  assumes "wf_pidmap m" "0 \<le> pid" "pid < MAX_CSA_PID" "16 \<le> length f" "16 \<le> length k"
  shows "wf_pidmap (SetFilter_pidmap m a pid 1 demux num (Some (f, k))) \<and>
    (let m' = SetFilter_pidmap (SetFilter_pidmap m a pid 1 demux num (Some (f, k))) a pid 0 demux num None;
         left = filter (\<lambda>g. (demux_id g, filter_num g) \<noteq> (int_of demux, int_of num))
                  (case sm_find m (int_of a, pid) of None \<Rightarrow> [] | Some pf \<Rightarrow> pf_filters pf)
     in wf_pidmap m' \<and>
        (case sm_find m' (int_of a, pid) of None \<Rightarrow> left = [] | Some pf \<Rightarrow> pf_filters pf = left \<and> left \<noteq> []) \<and>
        (\<forall>x. x \<noteq> (int_of a, pid) \<longrightarrow> sm_find m' x = sm_find m x))"
  using assms
proof -
  let ?fs = "case sm_find m (int_of a, pid) of None \<Rightarrow> [] | Some pf \<Rightarrow> pf_filters pf"
  let ?pf = "(case sm_find m (int_of a, pid) of None \<Rightarrow> new_pidfilters | Some pf \<Rightarrow> pf)"
  let ?m1 = "SetFilter_pidmap m a pid 1 demux num (Some (f, k))"
  let ?left = "filter (\<lambda>g. filter_key g \<noteq> (int_of demux, int_of num)) ?fs"
  have m1: "?m1 = sm_put (int_of a, pid) (?pf\<lparr>pf_filters := set_filter demux num f k ?fs\<rparr>) m"
    using assms by (simp add: SetFilter_pidmap_start)
  have fs: "wf_filters ?fs" using assms(1) by (rule wf_filters_found)
  then have fs1: "wf_filters (set_filter demux num f k ?fs)" using assms by (intro wf_set_filter)
  have wf1: "wf_pidmap ?m1"
    unfolding m1 using assms(1) fs1
    by (intro wf_pidmap_put wf_pf_with_filters wf_pf_found) (simp_all add: set_filter_nonempty)
  have er: "erase_filter demux num (set_filter demux num f k ?fs) = Some ?left"
  proof -
    have "filter (\<lambda>g. filter_key g \<noteq> (int_of demux, int_of num)) (set_filter demux num f k xs)
        = filter (\<lambda>g. filter_key g \<noteq> (int_of demux, int_of num)) xs" if "distinct (map filter_key xs)" for xs
      using that by (induction xs) (auto simp: same_filter_iff filter_key_def)
    moreover have "(int_of demux, int_of num) \<in> filter_key ` set (set_filter demux num f k ?fs)"
      unfolding set_map [symmetric] by (simp add: keys_set_filter)
    ultimately show ?thesis using fs fs1 by (simp add: erase_filter_eq wf_filters_def)
  qed
  have ok: "sm_ok ?m1" "sm_ok m" using wf1 assms(1) by (auto simp: wf_pidmap_def)
  have stop: "SetFilter_pidmap ?m1 a pid 0 demux num None =
      (if ?left = [] then sm_erase (int_of a, pid) ?m1
       else sm_put (int_of a, pid) (?pf\<lparr>pf_filters := ?left\<rparr>) ?m1)"
    using assms er by (simp add: SetFilter_pidmap_stop m1 sm_find_put split: list.splits)
  have wf2: "wf_pidmap (SetFilter_pidmap ?m1 a pid 0 demux num None)"
    unfolding stop using wf1 assms(1) fs
    by (auto intro!: wf_intros wf_pf_with_filters wf_pf_found wf_filters_filter)
  have keys: "(\<lambda>g. (demux_id g, filter_num g) \<noteq> (int_of demux, int_of num))
      = (\<lambda>g. filter_key g \<noteq> (int_of demux, int_of num))" by (simp add: filter_key_def)
  show ?thesis
    unfolding Let_def keys using wf1 wf2 ok
    by (auto simp: stop sm_find_put sm_find_erase) (auto simp: m1 sm_find_put)
qed

theorem SetFilter_stop_removes_witness:
  "wf_pidmap (SetFilter_pidmap [] 1 0x6e 1 2 1 (Some (replicate 16 0x80, replicate 16 0xFE))) \<and>
   sm_find (SetFilter_pidmap (SetFilter_pidmap [] 1 0x6e 1 2 1 (Some (replicate 16 0x80, replicate 16 0xFE)))
      1 0x6e 0 2 1 None) (1, 0x6e) = None"
  using SetFilter_stop_removes [of "[]" "0x6e" "replicate 16 0x80" "replicate 16 0xFE" 1 2 1]
  by (auto simp: wf_pidmap_def Let_def split: option.splits)

text \<open>A lost packet never produces a damaged section. When the continuity counter does not
  follow the last one of the pid, the packet of a running section sends nothing and drops what was
  collected; only the counter is remembered.\<close>

lemma Analyze_discontinuity:
  assumes "ts_carries pid False cc p d" "sm_find m (int_of a, pid) = Some pf"
    and "cc \<noteq> (pf_lastcc pf + 1) mod 16"
  shows "Analyze pmt m a d =
    Some (sm_put (int_of a, pid) (pf\<lparr>pf_lastcc := cc, pf_section := [], pf_sectionLen := 0\<rparr>) m, [])"
proof -
  have "\<not> next_cc pf cc"
    using assms(3) take_bit_eq_mask [of 4 "pf_lastcc pf + 1"]
    by (simp add: next_cc_def take_bit_eq_mod mask_eq_exp_minus_1)
  then show ?thesis
    using assms(2) by (simp add: Analyze_carries [OF assms(1)] analyze_payload_def drop_section_def)
qed

text \<open>The descriptor nibble of an ECM: the low nibble of its last byte, for the VideoGuard structure.\<close>

definition ecm_nibble :: "u16 \<Rightarrow> bytes \<Rightarrow> u8" where
  "ecm_nibble caid s =
     (if (caid = 0 \<or> drop_bit 8 caid = 0x09) \<and> s ! 4 \<noteq> 0 \<and> int_of (s ! 2) = int_of (s ! 4) + 4
      then last s AND 0x0F else 0)"

lemma SetECM_nibble:
  "4 < length s \<Longrightarrow>
     set_ecm pmt a pid s f =
       (if s ! 0 = 0x80 then f\<lparr>ecm_even := ecm_nibble (fst (GetCAIDFromPid pmt a pid)) s\<rparr>
        else if s ! 0 = 0x81 then f\<lparr>ecm_odd := ecm_nibble (fst (GetCAIDFromPid pmt a pid)) s\<rparr>
        else f)"
proof -
  assume "4 < length s"
  then have "s ! (length s - 1) = last s" by (intro last_conv_nth [symmetric]) auto
  moreover have "int_of x - int_of y = 4 \<longleftrightarrow> int_of x = int_of y + 4" for x y :: u8 by linarith
  ultimately show ?thesis using \<open>4 < length s\<close> by (auto simp: set_ecm_def SetECM_def rd_def Let_def ecm_nibble_def)
qed

text \<open>\<open>GetECM\<close> as a search: the first ECM filter with the index, over the entries in map order.\<close>

lemma GetECM_find:
  "GetECM m a idx par =
     (case find (\<lambda>(pid, f). ecm_filter_for idx pid f)
             (concat (map (\<lambda>((b, pid), pf). if b = int_of a then map (Pair pid) (pf_filters pf) else []) m)) of
        None \<Rightarrow> 0
      | Some (pid, f) \<Rightarrow> if par = 0 then ecm_even f else ecm_odd f)"
proof (induction m a idx par rule: GetECM.induct)
  case (2 b pid pf m a idx par)
  have app: "find P (xs @ ys) = (case find P xs of None \<Rightarrow> find P ys | Some x \<Rightarrow> Some x)"
    for P and xs ys :: "(int \<times> dmxfilter) list"
    by (induction xs) auto
  have mp: "find (\<lambda>(p, f). ecm_filter_for idx p f) (map (Pair pid) fs)
      = map_option (Pair pid) (find (ecm_filter_for idx pid) fs)" for fs
    by (induction fs) auto
  show ?case
    using 2 by (cases "b = int_of a"; cases "find (ecm_filter_for idx pid) (pf_filters pf)") (simp_all add: app mp)
qed simp

lemma case_find_all:
  "x \<in> set xs \<Longrightarrow> P x \<Longrightarrow> (\<And>y. y \<in> set xs \<Longrightarrow> P y \<Longrightarrow> g y = v) \<Longrightarrow>
     (case find P xs of None \<Rightarrow> d | Some y \<Rightarrow> g y) = v"
  by (cases "find P xs") (auto simp: find_None_iff dest!: find_Some_iff [THEN iffD1])

text \<open>The key-selection nibble of an ECM reaches the descrambler. When a section with an even
  (0x80) or odd (0x81) ECM table id is delivered to the only ECM filter with an index on the adapter,
  \<open>GetECM\<close> for that index and the parity of the table id returns the nibble: the low four
  bits of the last byte for the VideoGuard ECM structure, otherwise 0.\<close>

lemma GetECM_after_delivery:
  assumes "wf_pidmap m" "sm_find m (int_of a, pid) = Some pf"
    and "f \<in> set (pf_filters pf)" "ecm_filter_for idx pid f" "filter_matches f s"
    and "\<forall>p pf' g. sm_find m (int_of a, p) = Some pf' \<and> g \<in> set (pf_filters pf') \<and> ecm_filter_for idx p g
          \<longrightarrow> p = pid \<and> g = f"
    and "4 < length s" "s ! 0 = (if par = 0 then 0x80 else 0x81)"
  shows "\<exists>pf' ms. Deliver pmt pf a pid s = Some (pf', ms) \<and> GetECM (sm_put (int_of a, pid) pf' m) a idx par =
    ecm_nibble (fst (GetCAIDFromPid pmt (int_of a) pid)) s"
proof -
  let ?S = "\<lambda>g. if filter_matches g s then set_ecm pmt (int_of a) pid s g else g"
  let ?v = "ecm_nibble (fst (GetCAIDFromPid pmt (int_of a) pid)) s"
  let ?m = "sm_put (int_of a, pid) (pf\<lparr>pf_filters := delivered pmt a pid s (pf_filters pf)\<rparr>) m"
  let ?xs = "concat (map (\<lambda>((b, pid), pf). if b = int_of a then map (Pair pid) (pf_filters pf) else []) ?m)"
  have ok: "sm_ok ?m" using assms(1) by (auto simp: wf_pidmap_def intro: wf_intros)
  have in_xs: "(p, g) \<in> set ?xs \<longleftrightarrow> (\<exists>pf'. sm_find ?m (int_of a, p) = Some pf' \<and> g \<in> set (pf_filters pf'))" for p g
    by (force simp: sm_find_Some_iff [OF ok] split: if_splits prod.splits)
  have efS: "ecm_filter_for idx p (?S g) = ecm_filter_for idx p g" for p g
    by (simp add: ecm_filter_for_def)
  have "(pid, ?S f) \<in> set ?xs"
    unfolding in_xs using assms(3) by (auto simp: sm_find_put delivered_def)
  moreover have "(case (pid, ?S f) of (pid, f) \<Rightarrow> ecm_filter_for idx pid f)"
    using assms(4) efS by simp
  moreover have "(case y of (pid, f) \<Rightarrow> if par = 0 then ecm_even f else ecm_odd f) = ?v"
    if "y \<in> set ?xs" "case y of (pid, f) \<Rightarrow> ecm_filter_for idx pid f" for y
  proof -
    obtain p g where y: "y = (p, g)" by fastforce
    with that obtain pf' where pf': "sm_find ?m (int_of a, p) = Some pf'" "g \<in> set (pf_filters pf')"
        "ecm_filter_for idx p g"
      using in_xs by auto
    have "p = pid"
      using pf' assms(6) by (auto simp: sm_find_put split: if_splits)
    then obtain h where h: "h \<in> set (pf_filters pf)" "g = ?S h"
      using pf' by (auto simp: sm_find_put delivered_def)
    have "ecm_filter_for idx pid (?S h)" using pf'(3) h(2) \<open>p = pid\<close> by (simp only:)
    then have "h = f" unfolding efS using h(1) assms(2,6) by blast
    with h have "g = set_ecm pmt (int_of a) pid s f" using assms(5) by simp
    then show ?thesis
      using assms(7,8) by (simp add: y SetECM_nibble)
  qed
  ultimately have "GetECM ?m a idx par = ?v"
    unfolding GetECM_find by (rule case_find_all)
  then show ?thesis by (simp add: Deliver_eq)
qed

end
