(* ===== verification/Socket.thy ===== *)
theory Socket
  imports Prelude
begin

text \<open>
  \<open>SocketHandler\<close> (SocketHandler.h, SocketHandler.cpp): the TCP connection to OSCam. What the
  network does is an input: the results of \<open>recv\<close>, \<open>poll\<close>, \<open>send\<close> and \<open>connect\<close>. The handlers
  return what they do to the rest of the plugin as a list of calls, in order; the theory that knows
  the state of the other components executes them.

  A segment of the stream is an event \<open>Got bs\<close>; \<open>recv\<close> takes at most the bytes it was asked
  for and leaves the rest to the next call. When the events are used up the thread is still waiting.
  Multi-byte fields are big endian on the wire (\<open>ntohl\<close>, \<open>ntohs\<close>).
\<close>

subsection \<open>Big-endian words\<close>

definition be32 :: "bytes \<Rightarrow> u32" where
  "be32 b = word_of_int (((int_of (b ! 0) * 256 + int_of (b ! 1)) * 256 + int_of (b ! 2)) * 256 + int_of (b ! 3))"

definition be16w :: "bytes \<Rightarrow> u16" where
  "be16w b = word_of_int (be16 (b ! 0) (b ! 1))"

definition put32 :: "u32 \<Rightarrow> bytes" where
  "put32 w = [u8_of (uint w div 16777216), u8_of (uint w div 65536), u8_of (uint w div 256), u8_of (uint w)]"

definition put16 :: "u16 \<Rightarrow> bytes" where
  "put16 w = [u8_of (uint w div 256), u8_of (uint w)]"

lemma put_length [simp]: "length (put32 w) = 4" "length (put16 v) = 2"
  by (simp_all add: put32_def put16_def)

lemma horner4: "(256::int) * a + r = x \<Longrightarrow> 256 * b + s = a \<Longrightarrow> 256 * c + t = b \<Longrightarrow>
    ((c * 256 + t) * 256 + s) * 256 + r = x"
  by simp

lemma be32_bytes:
  assumes "0 \<le> x" "x < 4294967296"
  shows "((x div 16777216 mod 256 * 256 + x div 65536 mod 256) * 256 + x div 256 mod 256) * 256 + x mod 256 = (x::int)"
proof -
  define c where "c = x div 16777216"
  have "x div (256 * 256) = x div 256 div 256" by (rule zdiv_zmult2_eq) simp
  then have b: "x div 65536 = x div 256 div 256" by simp
  have "x div (65536 * 256) = x div 65536 div 256" by (rule zdiv_zmult2_eq) simp
  then have c: "c = x div 256 div 256 div 256" by (simp add: c_def b)
  have r: "16777216 * c + x mod 16777216 = x" unfolding c_def by (rule mult_div_mod_eq)
  moreover define r where "r = x mod 16777216"
  moreover have "0 \<le> r" by (simp add: r_def)
  ultimately have "16777216 * c \<le> x" by linarith
  with assms(2) have "c < 256" by linarith
  moreover have "0 \<le> c" using assms(1) by (simp add: c_def pos_imp_zdiv_nonneg_iff)
  ultimately have "c mod 256 = c" by (intro mod_pos_pos_trivial)
  then show ?thesis
    unfolding c_def [symmetric] b
    by (simp only:) (rule horner4 [OF mult_div_mod_eq mult_div_mod_eq], simp only: c mult_div_mod_eq)
qed

lemma be32_put32 [simp]: "be32 (put32 w @ r) = w" "be32 (put32 w) = w"
proof -
  have "((uint w div 16777216 mod 256 * 256 + uint w div 65536 mod 256) * 256 + uint w div 256 mod 256) * 256
      + uint w mod 256 = uint w"
    using uint_lt2p [of w] by (intro be32_bytes) simp_all
  then show "be32 (put32 w @ r) = w" "be32 (put32 w) = w"
    by (simp_all only: be32_def put32_def uint_u8_of append_Cons nth_Cons_0 nth_Cons_Suc numeral_3_eq_3
        numeral_2_eq_2 One_nat_def word_of_int_uint)
qed

lemma be16w_put16 [simp]: "be16w (put16 w @ r) = w" "be16w (put16 w) = w"
proof -
  have "be16 (u8_of (uint w div 256)) (u8_of (uint w)) = uint w"
    using uint_lt2p [of w] by (intro be16_split) simp_all
  then show "be16w (put16 w @ r) = w" "be16w (put16 w) = w"
    by (simp_all add: be16w_def put16_def)
qed

subsection \<open>Receiving\<close>

text \<open>One result of \<open>recv\<close> or of the \<open>poll\<close> that follows a \<open>recv\<close> which would block.\<close>

datatype net_event =
    Got bytes
  | Closed
  | Recv_intr
  | Would_block
  | Recv_error
  | Poll_ready
  | Poll_intr
  | Poll_failed

datatype 'a rx = Rx 'a "net_event list" | Rx_fail "net_event list" | Rx_wait

text \<open>\<open>Receive\<close>: the bytes, or the failure that makes the caller close the connection. An event
  that the state of the loop does not ask for cannot occur and is taken as a failure.\<close>

function Receive :: "net_event list \<Rightarrow> nat \<Rightarrow> bytes rx" where
  "Receive evs n =
     (if n = 0 then Rx [] evs
      else case evs of
        [] \<Rightarrow> Rx_wait
      | Got bs # evs' \<Rightarrow>
          (if bs = [] then Rx_fail evs'
           else if length bs \<le> n then
             (case Receive evs' (n - length bs) of
                Rx cs evs'' \<Rightarrow> Rx (bs @ cs) evs''
              | Rx_fail evs'' \<Rightarrow> Rx_fail evs''
              | Rx_wait \<Rightarrow> Rx_wait)
           else Rx (take n bs) (Got (drop n bs) # evs'))
      | Closed # evs' \<Rightarrow> Rx_fail evs'
      | Recv_intr # evs' \<Rightarrow> Receive evs' n
      | Would_block # [] \<Rightarrow> Rx_wait
      | Would_block # Poll_ready # evs' \<Rightarrow> Receive evs' n
      | Would_block # Poll_intr # evs' \<Rightarrow> Receive evs' n
      | Would_block # _ # evs' \<Rightarrow> Rx_fail evs'
      | _ # evs' \<Rightarrow> Rx_fail evs')"
  by pat_completeness auto
termination
  by (relation "measure (\<lambda>(evs, n). length evs)") auto

declare Receive.simps [simp del]

definition rx_bind :: "'a rx \<Rightarrow> ('a \<Rightarrow> net_event list \<Rightarrow> 'b rx) \<Rightarrow> 'b rx" where
  "rx_bind r f = (case r of Rx x evs \<Rightarrow> f x evs | Rx_fail evs \<Rightarrow> Rx_fail evs | Rx_wait \<Rightarrow> Rx_wait)"

text \<open>\<open>ReceiveString\<close>: a length byte and the characters. The callers use the buffer as a C string,
  so only what stands in front of the first null character counts.\<close>

definition c_string :: "bytes \<Rightarrow> bytes" where
  "c_string bs = takeWhile (\<lambda>b. b \<noteq> 0) bs"

definition ReceiveString :: "net_event list \<Rightarrow> bytes rx" where
  "ReceiveString evs =
     rx_bind (Receive evs 1) (\<lambda>l evs. rx_bind (Receive evs (unat (l ! 0))) (\<lambda>s evs. Rx (c_string s) evs))"

subsection \<open>Requests of OSCam\<close>

abbreviation (input) CA_SET_PID :: u32 where "CA_SET_PID \<equiv> 0x40086f87"
abbreviation (input) CA_SET_DESCR :: u32 where "CA_SET_DESCR \<equiv> 0x40106f86"
abbreviation (input) CA_SET_DESCR_AES :: u32 where "CA_SET_DESCR_AES \<equiv> 0x40106f87"
abbreviation (input) CA_SET_DESCR_MODE :: u32 where "CA_SET_DESCR_MODE \<equiv> 0x400c6f88"
abbreviation (input) CA_SET_DESCR_DATA :: u32 where "CA_SET_DESCR_DATA \<equiv> 0x40186f89"
abbreviation (input) DMX_SET_FILTER :: u32 where "DMX_SET_FILTER \<equiv> 0x403c6f2b"
abbreviation (input) DMX_STOP :: u32 where "DMX_STOP \<equiv> 0x00006f2a"
abbreviation (input) DVBAPI_SERVER_INFO :: u32 where "DVBAPI_SERVER_INFO \<equiv> 0xFFFF0002"
abbreviation (input) DVBAPI_ECM_INFO :: u32 where "DVBAPI_ECM_INFO \<equiv> 0xFFFF0003"

text \<open>What the socket thread asks of the other components.\<close>

datatype call =
    Call_SetCaPid u8 u32 int
  | Call_SetAes u32 bool
  | Call_SetDescr u32 u32 bytes u8
  | Call_SetDescrAes u32 u32 bytes
  | Call_SetAlgo u32 u32
  | Call_SetCipherMode u32 u32
  | Call_SetData u32 u32 u32 bytes
  | Call_SetFilter u8 int int u8 u8 "(bytes \<times> bytes) option"
  | Call_SetVersion u16
  | Call_UpdateEcmInfo u8 u16 u16 u16 u32 u32 bytes bytes bytes bytes u8
  | Call_SendClientInfo
  | Call_SendAll
  | Call_StopAllFilters

definition HandleMessage :: "u32 \<Rightarrow> u8 \<Rightarrow> net_event list \<Rightarrow> call list rx" where
  "HandleMessage request adapter_index evs =
     (if request = CA_SET_PID then
        rx_bind (Receive evs 8) (\<lambda>b evs.
          Rx [Call_SetCaPid adapter_index (be32 b) (sint (be32 (drop 4 b)))] evs)
      else if request = CA_SET_DESCR then
        rx_bind (Receive evs 16) (\<lambda>b evs.
          Rx [Call_SetAes (be32 b) False,
              Call_SetDescr (be32 b) (be32 (drop 4 b)) (drop 8 b) adapter_index] evs)
      else if request = CA_SET_DESCR_AES then
        rx_bind (Receive evs 24) (\<lambda>b evs.
          Rx [Call_SetAes (be32 b) True, Call_SetDescrAes (be32 b) (be32 (drop 4 b)) (drop 8 b)] evs)
      else if request = CA_SET_DESCR_MODE then
        rx_bind (Receive evs 12) (\<lambda>b evs.
          Rx [Call_SetAlgo (be32 b) (be32 (drop 4 b)), Call_SetCipherMode (be32 b) (be32 (drop 8 b))] evs)
      else if request = CA_SET_DESCR_DATA then
        rx_bind (Receive evs 16) (\<lambda>h evs.
          if unat (be32 (drop 12 h)) > 262 then Rx_fail evs
          else rx_bind (Receive evs (unat (be32 (drop 12 h)))) (\<lambda>d evs.
            Rx [Call_SetAes (be32 h) False,
                Call_SetData (be32 h) (be32 (drop 4 h)) (be32 (drop 8 h)) d] evs))
      else if request = DMX_SET_FILTER then
        rx_bind (Receive evs 60) (\<lambda>b evs.
          Rx [Call_SetFilter adapter_index (uint (be16w (drop 2 b))) 1 (b ! 0) (b ! 1)
                (Some (take 16 (drop 4 b), take 16 (drop 20 b)))] evs)
      else if request = DMX_STOP then
        rx_bind (Receive evs 4) (\<lambda>b evs.
          Rx [Call_SetFilter adapter_index (uint (be16w (drop 2 b))) 0 (b ! 0) (b ! 1) None] evs)
      else if request = DVBAPI_SERVER_INFO then
        rx_bind (Receive evs 2) (\<lambda>v evs.
        rx_bind (ReceiveString evs) (\<lambda>info evs. Rx [Call_SetVersion (be16w v)] evs))
      else if request = DVBAPI_ECM_INFO then
        rx_bind (Receive evs 2) (\<lambda>sid evs.
        rx_bind (Receive evs 2) (\<lambda>caid evs.
        rx_bind (Receive evs 2) (\<lambda>pid evs.
        rx_bind (Receive evs 4) (\<lambda>prid evs.
        rx_bind (Receive evs 4) (\<lambda>ecmtime evs.
        rx_bind (ReceiveString evs) (\<lambda>cardsystem evs.
        rx_bind (ReceiveString evs) (\<lambda>reader evs.
        rx_bind (ReceiveString evs) (\<lambda>from evs.
        rx_bind (ReceiveString evs) (\<lambda>protocol evs.
        rx_bind (Receive evs 1) (\<lambda>hops evs.
          Rx [Call_UpdateEcmInfo adapter_index (be16w sid) (be16w caid) (be16w pid) (be32 prid)
                (be32 ecmtime) cardsystem reader from protocol (hops ! 0)] evs))))))))))
      else Rx_fail evs)"

text \<open>The request word, the adapter byte that all requests but \<open>SERVER_INFO\<close> have, and the message;
  \<open>off\<close> is \<open>AdapterIndexOffset\<close>.\<close>

definition read_message :: "int \<Rightarrow> net_event list \<Rightarrow> call list rx" where
  "read_message off evs =
     rx_bind (Receive evs 4) (\<lambda>r evs.
       (let request = be32 r in
        if request \<noteq> DVBAPI_SERVER_INFO
        then rx_bind (Receive evs 1) (\<lambda>a evs. HandleMessage request (a ! 0 - u8_of off) evs)
        else HandleMessage request 0 evs))"

subsection \<open>The connection\<close>

text \<open>\<open>OpenConnection\<close>: \<open>None\<close> when \<open>getaddrinfo\<close> fails, otherwise per address the result of
  \<open>socket\<close> (-1 for an error) and whether \<open>connect\<close> succeeded.\<close>

fun connect_first :: "(int \<times> bool) list \<Rightarrow> int" where
  "connect_first [] = -1"
| "connect_first ((sockfd, connected) # ps) =
     (if sockfd = -1 then connect_first ps
      else if \<not> connected then connect_first ps
      else sockfd)"

definition OpenConnection :: "int \<Rightarrow> (int \<times> bool) list option \<Rightarrow> int" where
  "OpenConnection sock servinfo = (case servinfo of None \<Rightarrow> sock | Some ps \<Rightarrow> connect_first ps)"

record sock_state =
  sk_sock :: int
  sk_faults :: int
  sk_version :: u16

definition CloseConnection :: "sock_state \<Rightarrow> sock_state \<times> call list" where
  "CloseConnection st =
     (st\<lparr>sk_sock := -1\<rparr>, if sk_sock st \<ge> 0 then [Call_StopAllFilters] else [])"

datatype poll_result = Poll_timeout | Poll_eintr | Poll_error | Poll_in

text \<open>The inputs of one round of the thread's loop: whether there is something to announce, whether
  the reconnect timer has run out, what a connection attempt yields, and the network.\<close>

record round_input =
  in_empty :: bool
  in_timedout :: bool
  in_servinfo :: "(int \<times> bool) list option"
  in_poll :: poll_result
  in_net :: "net_event list"

fun set_version :: "call list \<Rightarrow> u16 \<Rightarrow> u16" where
  "set_version (Call_SetVersion v # cs) v0 = set_version cs v"
| "set_version (_ # cs) v0 = set_version cs v0"
| "set_version [] v0 = v0"

text \<open>One round of \<open>Action\<close>: the new state, the calls and the rest of the network events; \<open>None\<close>
  while the thread waits inside \<open>Receive\<close>.\<close>

definition Action_round ::
  "int \<Rightarrow> sock_state \<Rightarrow> round_input \<Rightarrow> (sock_state \<times> call list \<times> net_event list) option" where
  "Action_round off st inp =
     (if sk_sock st < 0 then
        (if \<not> in_empty inp \<and> (sk_faults st = 0 \<or> in_timedout inp) then
           (let s = OpenConnection (sk_sock st) (in_servinfo inp) in
            if s \<ge> 0 then Some (st\<lparr>sk_sock := s, sk_faults := 0\<rparr>, [Call_SendClientInfo, Call_SendAll], in_net inp)
            else Some (st\<lparr>sk_sock := s, sk_faults := sk_faults st + 1\<rparr>, [], in_net inp))
         else Some (st, [], in_net inp))
      else if in_poll inp = Poll_timeout \<or> in_poll inp = Poll_eintr then Some (st, [], in_net inp)
      else if in_poll inp = Poll_error then
        (case CloseConnection st of (st', cs) \<Rightarrow> Some (st', cs, in_net inp))
      else (case read_message off (in_net inp) of
              Rx cs evs \<Rightarrow> Some (st\<lparr>sk_version := set_version cs (sk_version st)\<rparr>, cs, evs)
            | Rx_fail evs \<Rightarrow> (case CloseConnection st of (st', cs) \<Rightarrow> Some (st', cs, evs))
            | Rx_wait \<Rightarrow> None))"

subsection \<open>Sending\<close>

datatype send_result = Sent nat | Send_intr | Send_failed

datatype write_outcome = Written | Shut_down

text \<open>The loop of \<open>Write\<close> over the results of \<open>send\<close>: what went out and how it ended; \<open>None\<close> while a
  \<open>send\<close> has not returned. \<open>send\<close> never reports more than it was given.\<close>

fun write_loop :: "send_result list \<Rightarrow> bytes \<Rightarrow> (bytes \<times> write_outcome) option" where
  "write_loop rs [] = Some ([], Written)"
| "write_loop [] (b # data) = None"
| "write_loop (Send_intr # rs) (b # data) = write_loop rs (b # data)"
| "write_loop (Send_failed # rs) (b # data) = Some ([], Shut_down)"
| "write_loop (Sent k # rs) (b # data) =
     (if k = 0 then Some ([], Shut_down)
      else map_option (\<lambda>(out, r). (take k (b # data) @ out, r)) (write_loop rs (drop k (b # data))))"

definition Write :: "int \<Rightarrow> send_result list \<Rightarrow> bytes \<Rightarrow> (bytes \<times> write_outcome option) option" where
  "Write sock rs data =
     (if sock < 0 then Some ([], None)
      else map_option (\<lambda>(out, r). (out, Some r)) (write_loop rs data))"

text \<open>\<open>SendClientInfo\<close>: protocol version 2 and the version text, whose length must fit a byte.\<close>

definition client_info_msg :: "bytes \<Rightarrow> bytes" where
  "client_info_msg info = [0xFF, 0xFF, 0x00, 0x01, 0x00, 0x02, u8_of (int (length info))] @ info"

subsection \<open>Reading is independent of the segmentation\<close>

text \<open>Network events without failure: segments, interrupted calls, and waits that end.\<close>

fun clean :: "net_event list \<Rightarrow> bool" where
  "clean [] = True"
| "clean (Got bs # evs) = (bs \<noteq> [] \<and> clean evs)"
| "clean (Recv_intr # evs) = clean evs"
| "clean (Would_block # Poll_ready # evs) = clean evs"
| "clean (Would_block # Poll_intr # evs) = clean evs"
| "clean (_ # evs) = False"

fun payload :: "net_event list \<Rightarrow> bytes" where
  "payload [] = []"
| "payload (Got bs # evs) = bs @ payload evs"
| "payload (_ # evs) = payload evs"

lemma Receive_0 [simp]: "Receive evs 0 = Rx [] evs"
  by (simp add: Receive.simps)

text \<open>What comes after the events the reader needs does not matter.\<close>

lemma Receive_clean_tail:
  "clean evs \<Longrightarrow> n \<le> length (payload evs) \<Longrightarrow>
     \<exists>evs'. Receive (evs @ tail) n = Rx (take n (payload evs)) (evs' @ tail) \<and> clean evs' \<and> payload evs' = drop n (payload evs)"
proof (induction evs arbitrary: n rule: clean.induct)
  case (2 bs evs)
  show ?case
  proof (cases "n = 0")
    case True
    with 2 show ?thesis by (intro exI [of _ "Got bs # evs"]) simp
  next
    case False
    show ?thesis
    proof (cases "length bs \<le> n")
      case True
      from 2 have "clean evs" "n - length bs \<le> length (payload evs)" by auto
      then obtain evs' where "Receive (evs @ tail) (n - length bs) = Rx (take (n - length bs) (payload evs)) (evs' @ tail)"
          "clean evs'" "payload evs' = drop (n - length bs) (payload evs)"
        using "2.IH" by blast
      with True False 2 show ?thesis by (subst Receive.simps) auto
    next
      case short: False
      with False 2 show ?thesis
        by (subst Receive.simps) (auto intro!: exI [of _ "Got (drop n bs) # evs"])
    qed
  qed
next
  case (3 evs)
  show ?case
  proof (cases "n = 0")
    case True
    with 3 show ?thesis by (intro exI [of _ "Recv_intr # evs"]) simp
  next
    case False
    from 3 obtain evs' where "Receive (evs @ tail) n = Rx (take n (payload evs)) (evs' @ tail)" "clean evs'"
        "payload evs' = drop n (payload evs)" by auto
    with False show ?thesis by (subst Receive.simps) auto
  qed
next
  case (4 evs)
  show ?case
  proof (cases "n = 0")
    case True
    with 4 show ?thesis by (intro exI [of _ "Would_block # Poll_ready # evs"]) simp
  next
    case False
    from 4 obtain evs' where "Receive (evs @ tail) n = Rx (take n (payload evs)) (evs' @ tail)" "clean evs'"
        "payload evs' = drop n (payload evs)" by auto
    with False show ?thesis by (subst Receive.simps) auto
  qed
next
  case (5 evs)
  show ?case
  proof (cases "n = 0")
    case True
    with 5 show ?thesis by (intro exI [of _ "Would_block # Poll_intr # evs"]) simp
  next
    case False
    from 5 obtain evs' where "Receive (evs @ tail) n = Rx (take n (payload evs)) (evs' @ tail)" "clean evs'"
        "payload evs' = drop n (payload evs)" by auto
    with False show ?thesis by (subst Receive.simps) auto
  qed
qed auto

lemma Receive_clean:
  "clean evs \<Longrightarrow> n \<le> length (payload evs) \<Longrightarrow>
     \<exists>evs'. Receive evs n = Rx (take n (payload evs)) evs' \<and> clean evs' \<and> payload evs' = drop n (payload evs)"
  using Receive_clean_tail [of evs n "[]"] by simp

text \<open>The connection breaks: it is closed by the peer, or \<open>recv\<close> or \<open>poll\<close> fails.\<close>

fun breaks :: "net_event list \<Rightarrow> bool" where
  "breaks (Closed # evs) = True"
| "breaks (Recv_error # evs) = True"
| "breaks (Would_block # Poll_failed # evs) = True"
| "breaks _ = False"

lemma Receive_breaks_now: "breaks tail \<Longrightarrow> 0 < n \<Longrightarrow> \<exists>e. Receive tail n = Rx_fail e"
  by (cases tail rule: breaks.cases) (auto simp: Receive.simps)

lemma Receive_breaks:
  "clean evs \<Longrightarrow> breaks tail \<Longrightarrow> length (payload evs) < n \<Longrightarrow> \<exists>e. Receive (evs @ tail) n = Rx_fail e"
proof (induction evs arbitrary: n rule: clean.induct)
  case 1
  then show ?case using Receive_breaks_now [of tail n] by simp
next
  case (2 bs evs)
  then obtain e where "Receive (evs @ tail) (n - length bs) = Rx_fail e" by fastforce
  with 2 show ?case by (subst Receive.simps) auto
qed (auto, (subst Receive.simps, fastforce)+)

text \<open>A reader consumes exactly the bytes \<open>bs\<close> and returns \<open>x\<close>, however they are segmented.\<close>

definition reads :: "(net_event list \<Rightarrow> 'a rx) \<Rightarrow> bytes \<Rightarrow> 'a \<Rightarrow> bool" where
  "reads f bs x \<longleftrightarrow>
     (\<forall>evs tail r. clean evs \<longrightarrow> payload evs = bs @ r \<longrightarrow>
        (\<exists>evs'. f (evs @ tail) = Rx x (evs' @ tail) \<and> clean evs' \<and> payload evs' = r))"

named_theorems reads_intros \<open>readers and their composition\<close>

lemma readsD:
  "reads f bs x \<Longrightarrow> clean evs \<Longrightarrow> payload evs = bs @ r \<Longrightarrow>
     \<exists>evs'. f evs = Rx x evs' \<and> clean evs' \<and> payload evs' = r"
  unfolding reads_def by (metis append_Nil2)

lemma reads_tail:
  "reads f bs x \<Longrightarrow> clean evs \<Longrightarrow> payload evs = bs @ r \<Longrightarrow>
     \<exists>evs'. f (evs @ tail) = Rx x (evs' @ tail) \<and> clean evs' \<and> payload evs' = r"
  by (simp add: reads_def)

lemma reads_Receive: "length bs = n \<Longrightarrow> reads (\<lambda>evs. Receive evs n) bs bs"
  unfolding reads_def
proof (intro allI impI)
  fix evs tail r assume *: "length bs = n" "clean evs" "payload evs = bs @ r"
  then show "\<exists>evs'. Receive (evs @ tail) n = Rx bs (evs' @ tail) \<and> clean evs' \<and> payload evs' = r"
    using Receive_clean_tail [of evs n tail] by auto
qed

lemma reads_bind:
  assumes "reads f bs x" "reads (g x) cs y"
  shows "reads (\<lambda>evs. rx_bind (f evs) g) (bs @ cs) y"
  unfolding reads_def
proof (intro allI impI)
  fix evs tail r assume "clean evs" "payload evs = (bs @ cs) @ r"
  then obtain evs1 where 1: "f (evs @ tail) = Rx x (evs1 @ tail)" "clean evs1" "payload evs1 = cs @ r"
    using reads_tail [OF assms(1), of evs "cs @ r"] by auto
  then obtain evs2 where "g x (evs1 @ tail) = Rx y (evs2 @ tail)" "clean evs2" "payload evs2 = r"
    using reads_tail [OF assms(2)] by blast
  with 1 show "\<exists>evs'. rx_bind (f (evs @ tail)) g = Rx y (evs' @ tail) \<and> clean evs' \<and> payload evs' = r"
    by (simp add: rx_bind_def)
qed

lemma reads_Rx: "reads (Rx x) [] x"
  by (simp add: reads_def)

text \<open>A reader that has not got enough when the connection breaks after the bytes \<open>bs\<close>.\<close>

definition torn :: "(net_event list \<Rightarrow> 'a rx) \<Rightarrow> bytes \<Rightarrow> bool" where
  "torn f bs \<longleftrightarrow> (\<forall>evs tail. clean evs \<longrightarrow> payload evs = bs \<longrightarrow> breaks tail \<longrightarrow> (\<exists>e. f (evs @ tail) = Rx_fail e))"

lemma torn_fail: "torn Rx_fail bs"
  by (simp add: torn_def)

lemma torn_first: "torn f bs \<Longrightarrow> torn (\<lambda>evs. rx_bind (f evs) g) bs"
  unfolding torn_def rx_bind_def by fastforce

lemma torn_second:
  assumes "reads f bs x" "torn (g x) cs"
  shows "torn (\<lambda>evs. rx_bind (f evs) g) (bs @ cs)"
  unfolding torn_def
proof (intro allI impI)
  fix evs tail assume "clean evs" "payload evs = bs @ cs" "breaks tail"
  then obtain evs1 where 1: "f (evs @ tail) = Rx x (evs1 @ tail)" "clean evs1" "payload evs1 = cs"
    using reads_tail [OF assms(1)] by blast
  then show "\<exists>e. rx_bind (f (evs @ tail)) g = Rx_fail e"
    using assms(2) \<open>breaks tail\<close> by (simp add: torn_def rx_bind_def)
qed

lemma torn_Receive_bind:
  assumes "n \<le> length bs \<Longrightarrow> torn (g (take n bs)) (drop n bs)"
  shows "torn (\<lambda>evs. rx_bind (Receive evs n) g) bs"
proof (cases "n \<le> length bs")
  case True
  then have "reads (\<lambda>evs. Receive evs n) (take n bs) (take n bs)" by (intro reads_Receive) simp
  from torn_second [of _ _ _ g, OF this assms [OF True]] show ?thesis by simp
next
  case False
  then have "torn (\<lambda>evs. Receive evs n) bs" using Receive_breaks unfolding torn_def by auto
  then show ?thesis by (rule torn_first)
qed

lemma reads_Receive_bind:
  "length bs = n \<Longrightarrow> reads (g bs) cs y \<Longrightarrow> reads (\<lambda>evs. rx_bind (Receive evs n) g) (bs @ cs) y"
  by (rule reads_bind [OF reads_Receive])

lemma reads_Receive_last:
  "length bs = n \<Longrightarrow> y = h bs \<Longrightarrow> reads (\<lambda>evs. rx_bind (Receive evs n) (\<lambda>b. Rx (h b))) bs y"
  using reads_Receive_bind [of bs n "\<lambda>b. Rx (h b)" "[]" y] reads_Rx [of "h bs"] by simp

definition put_string :: "bytes \<Rightarrow> bytes" where
  "put_string s = u8_of (int (length s)) # s"

lemma reads_ReceiveString: "length s < 256 \<Longrightarrow> reads ReceiveString (put_string s) (c_string s)"
proof -
  assume "length s < 256"
  then have "int_of (u8_of (int (length s))) = int (length s)" by (simp only: uint_u8_of) simp
  then have "unat (u8_of (int (length s))) = length s" by (metis nat_int nat_uint_eq)
  then have "reads (\<lambda>evs. rx_bind (Receive evs (unat ([u8_of (int (length s))] ! 0))) (\<lambda>s. Rx (c_string s)))
      s (c_string s)"
    by (intro reads_Receive_last) simp_all
  then have "reads ReceiveString ([u8_of (int (length s))] @ s) (c_string s)"
    unfolding ReceiveString_def [abs_def] by (intro reads_Receive_bind) simp_all
  then show ?thesis by (simp add: put_string_def)
qed

lemma torn_String_bind:
  assumes "\<And>s r. bs = put_string s @ r \<Longrightarrow> length s < 256 \<Longrightarrow> torn (g (c_string s)) r"
  shows "torn (\<lambda>evs. rx_bind (ReceiveString evs) g) bs"
proof (cases "\<exists>s r. bs = put_string s @ r \<and> length s < 256")
  case True
  then obtain s r where s: "bs = put_string s @ r" "length s < 256" by blast
  show ?thesis unfolding s(1) by (rule torn_second [OF reads_ReceiveString [OF s(2)]]) (rule assms [OF s])
next
  case False
  have "torn ReceiveString bs"
    unfolding ReceiveString_def [abs_def]
  proof (rule torn_Receive_bind)
    assume 1: "1 \<le> length bs"
    then obtain b cs where bs: "bs = b # cs" by (cases bs) auto
    have "length cs < unat b"
    proof (rule ccontr)
      assume "\<not> length cs < unat b"
      moreover have "unat b < 2 ^ LENGTH(8)" by (rule unsigned_less)
      ultimately have l: "length (take (unat b) cs) = unat b" "unat b < 256" by simp_all
      then have "bs = put_string (take (unat b) cs) @ drop (unat b) cs" by (simp add: put_string_def bs)
      then show False using False l by metis
    qed
    then show "torn (\<lambda>evs. rx_bind (Receive evs (unat (take 1 bs ! 0))) (\<lambda>s. Rx (c_string s))) (drop 1 bs)"
      by (intro torn_Receive_bind) (simp add: bs)
  qed
  then show ?thesis by (rule torn_first)
qed

lemma reads_String_bind:
  "length s < 256 \<Longrightarrow> reads (g (c_string s)) cs y \<Longrightarrow>
     reads (\<lambda>evs. rx_bind (ReceiveString evs) g) (put_string s @ cs) y"
  by (rule reads_bind [OF reads_ReceiveString])

subsection \<open>The wire format\<close>

text \<open>The messages of OSCam (dvbapi protocol version 2), written independently of the reader.\<close>

datatype oscam_msg =
    M_SetPid u8 u32 int
  | M_SetDescr u8 u32 u32 bytes
  | M_SetDescrAes u8 u32 u32 bytes
  | M_SetMode u8 u32 u32 u32
  | M_SetData u8 u32 u32 u32 bytes
  | M_SetFilter u8 u8 u8 u16 bytes bytes bytes
  | M_StopFilter u8 u8 u8 u16
  | M_ServerInfo u16 bytes
  | M_EcmInfo u8 u16 u16 u16 u32 u32 bytes bytes bytes bytes u8

fun wire :: "int \<Rightarrow> oscam_msg \<Rightarrow> bytes" where
  "wire off (M_SetPid a pid idx) = put32 CA_SET_PID @ [a + u8_of off] @ put32 pid @ put32 (word_of_int idx)"
| "wire off (M_SetDescr a idx par cw) =
     put32 CA_SET_DESCR @ [a + u8_of off] @ put32 idx @ put32 par @ cw"
| "wire off (M_SetDescrAes a idx par cw) =
     put32 CA_SET_DESCR_AES @ [a + u8_of off] @ put32 idx @ put32 par @ cw"
| "wire off (M_SetMode a idx algo mode) =
     put32 CA_SET_DESCR_MODE @ [a + u8_of off] @ put32 idx @ put32 algo @ put32 mode"
| "wire off (M_SetData a idx par ty data) =
     put32 CA_SET_DESCR_DATA @ [a + u8_of off] @ put32 idx @ put32 par @ put32 ty @
       put32 (of_nat (length data)) @ data"
| "wire off (M_SetFilter a demux num pid f m rest) =
     put32 DMX_SET_FILTER @ [a + u8_of off] @ [demux, num] @ put16 pid @ f @ m @ rest"
| "wire off (M_StopFilter a demux num pid) =
     put32 DMX_STOP @ [a + u8_of off] @ [demux, num] @ put16 pid"
| "wire off (M_ServerInfo ver info) = put32 DVBAPI_SERVER_INFO @ put16 ver @ put_string info"
| "wire off (M_EcmInfo a sid caid pid prid t cs re fr pr hops) =
     put32 DVBAPI_ECM_INFO @ [a + u8_of off] @ put16 sid @ put16 caid @ put16 pid @ put32 prid @ put32 t @
       put_string cs @ put_string re @ put_string fr @ put_string pr @ [hops]"

fun msg_ok :: "oscam_msg \<Rightarrow> bool" where
  "msg_ok (M_SetPid a pid idx) = (- (2 ^ 31) \<le> idx \<and> idx < 2 ^ 31)"
| "msg_ok (M_SetDescr a idx par cw) = (length cw = 8)"
| "msg_ok (M_SetDescrAes a idx par cw) = (length cw = 16)"
| "msg_ok (M_SetMode a idx algo mode) = True"
| "msg_ok (M_SetData a idx par ty data) = (length data \<le> 262)"
| "msg_ok (M_SetFilter a demux num pid f m rest) = (length f = 16 \<and> length m = 16 \<and> length rest = 24)"
| "msg_ok (M_StopFilter a demux num pid) = True"
| "msg_ok (M_ServerInfo ver info) = (length info < 256)"
| "msg_ok (M_EcmInfo a sid caid pid prid t cs re fr pr hops) =
     (length cs < 256 \<and> length re < 256 \<and> length fr < 256 \<and> length pr < 256)"

text \<open>What each message asks for.\<close>

fun calls_of :: "oscam_msg \<Rightarrow> call list" where
  "calls_of (M_SetPid a pid idx) = [Call_SetCaPid a pid idx]"
| "calls_of (M_SetDescr a idx par cw) = [Call_SetAes idx False, Call_SetDescr idx par cw a]"
| "calls_of (M_SetDescrAes a idx par cw) = [Call_SetAes idx True, Call_SetDescrAes idx par cw]"
| "calls_of (M_SetMode a idx algo mode) = [Call_SetAlgo idx algo, Call_SetCipherMode idx mode]"
| "calls_of (M_SetData a idx par ty data) = [Call_SetAes idx False, Call_SetData idx par ty data]"
| "calls_of (M_SetFilter a demux num pid f m rest) = [Call_SetFilter a (uint pid) 1 demux num (Some (f, m))]"
| "calls_of (M_StopFilter a demux num pid) = [Call_SetFilter a (uint pid) 0 demux num None]"
| "calls_of (M_ServerInfo ver info) = [Call_SetVersion ver]"
| "calls_of (M_EcmInfo a sid caid pid prid t cs re fr pr hops) =
     [Call_UpdateEcmInfo a sid caid pid prid t (c_string cs) (c_string re) (c_string fr) (c_string pr) hops]"

lemma reads_message:
  assumes "request \<noteq> DVBAPI_SERVER_INFO" "reads (HandleMessage request a) bs cs"
  shows "reads (read_message off) (put32 request @ [a + u8_of off] @ bs) cs"
proof -
  have "reads (\<lambda>evs. rx_bind (Receive evs 1) (\<lambda>b evs. HandleMessage request (b ! 0 - u8_of off) evs))
      ([a + u8_of off] @ bs) cs"
    using assms(2) by (intro reads_Receive_bind) simp_all
  with assms(1) show ?thesis
    unfolding read_message_def [abs_def] by (intro reads_Receive_bind) (simp_all add: Let_def)
qed

lemma put32_at: "xs = put32 a @ ys \<Longrightarrow> be32 xs = a" "length xs = 4 \<Longrightarrow> drop 4 (xs @ ys) = ys"
  by simp_all

lemma sint_put32: "- (2 ^ 31) \<le> i \<Longrightarrow> i < 2 ^ 31 \<Longrightarrow> sint (be32 (put32 (word_of_int i))) = i"
  by (simp add: signed_of_int signed_take_bit_int_eq_self)

lemma reads_HandleMessage:
  "- (2 ^ 31) \<le> i \<Longrightarrow> i < 2 ^ 31 \<Longrightarrow>
     reads (HandleMessage CA_SET_PID a) (put32 pid @ put32 (word_of_int i)) [Call_SetCaPid a pid i]"
  "length cw = 8 \<Longrightarrow>
     reads (HandleMessage CA_SET_DESCR a) (put32 idx @ put32 par @ cw)
       [Call_SetAes idx False, Call_SetDescr idx par cw a]"
  "length cw = 16 \<Longrightarrow>
     reads (HandleMessage CA_SET_DESCR_AES a) (put32 idx @ put32 par @ cw)
       [Call_SetAes idx True, Call_SetDescrAes idx par cw]"
  "reads (HandleMessage CA_SET_DESCR_MODE a) (put32 idx @ put32 algo @ put32 mode)
       [Call_SetAlgo idx algo, Call_SetCipherMode idx mode]"
  "length f = 16 \<Longrightarrow> length m = 16 \<Longrightarrow> length rest = 24 \<Longrightarrow>
     reads (HandleMessage DMX_SET_FILTER a) ([demux, num] @ put16 p @ f @ m @ rest)
       [Call_SetFilter a (uint p) 1 demux num (Some (f, m))]"
  "reads (HandleMessage DMX_STOP a) ([demux, num] @ put16 p) [Call_SetFilter a (uint p) 0 demux num None]"
  unfolding HandleMessage_def [abs_def]
  by (simp, rule reads_Receive_last; simp add: sint_put32 [simplified])+

lemma reads_SetData:
  assumes "length data \<le> 262"
  shows "reads (HandleMessage CA_SET_DESCR_DATA a)
    (put32 idx @ put32 par @ put32 ty @ put32 (of_nat (length data)) @ data)
    [Call_SetAes idx False, Call_SetData idx par ty data]"
proof -
  let ?h = "put32 idx @ put32 par @ put32 ty @ put32 (of_nat (length data))"
  have len: "unat (of_nat (length data) :: u32) = length data"
    using assms by (simp add: unsigned_of_nat take_bit_nat_eq_self)
  have d: "drop 12 ?h = put32 (of_nat (length data))" by simp
  have "reads (\<lambda>evs. rx_bind (Receive evs (length data))
        (\<lambda>d. Rx [Call_SetAes idx False, Call_SetData idx par ty d])) data
      [Call_SetAes idx False, Call_SetData idx par ty data]"
    by (rule reads_Receive_last) simp_all
  then have "reads (\<lambda>evs. rx_bind (Receive evs 16) (\<lambda>h evs.
          if unat (be32 (drop 12 h)) > 262 then Rx_fail evs
          else rx_bind (Receive evs (unat (be32 (drop 12 h)))) (\<lambda>d evs.
            Rx [Call_SetAes (be32 h) False,
                Call_SetData (be32 h) (be32 (drop 4 h)) (be32 (drop 8 h)) d] evs))) (?h @ data)
      [Call_SetAes idx False, Call_SetData idx par ty data]"
    using assms len by (intro reads_Receive_bind) simp_all
  then show ?thesis unfolding HandleMessage_def [abs_def] by simp
qed

lemma reads_ServerInfo:
  "length info < 256 \<Longrightarrow>
     reads (HandleMessage DVBAPI_SERVER_INFO a) (put16 ver @ put_string info) [Call_SetVersion ver]"
  unfolding HandleMessage_def [abs_def]
  using reads_String_bind [OF _ reads_Rx, of info "\<lambda>_. [Call_SetVersion ver]"]
  by (simp, intro reads_Receive_bind) simp_all

lemma reads_EcmInfo:
  assumes "length cs < 256" "length re < 256" "length fr < 256" "length pr < 256"
  shows "reads (HandleMessage DVBAPI_ECM_INFO a)
    (put16 sid @ put16 caid @ put16 pid @ put32 prid @ put32 t @
       put_string cs @ put_string re @ put_string fr @ put_string pr @ [hops])
    [Call_UpdateEcmInfo a sid caid pid prid t (c_string cs) (c_string re) (c_string fr) (c_string pr) hops]"
  unfolding HandleMessage_def [abs_def]
  by (simp, intro reads_Receive_bind reads_String_bind reads_Receive_last assms) simp_all

text \<open>Every well-formed message is read back from the wire as what it asks for.\<close>

lemma reads_wire: "msg_ok msg \<Longrightarrow> reads (read_message off) (wire off msg) (calls_of msg)"
proof (cases msg)
  case (M_ServerInfo ver info)
  assume "msg_ok msg"
  with M_ServerInfo show ?thesis
    unfolding read_message_def [abs_def]
    by (simp, intro reads_Receive_bind) (simp_all add: Let_def reads_ServerInfo)
qed (auto simp del: append_Cons append_Nil intro!: reads_message reads_HandleMessage reads_SetData reads_EcmInfo)

text \<open>And only such messages are: when the connection breaks after bytes that do not begin with one, reading fails.\<close>

lemma byte_below: "(y * 256 + int_of c) div 256 = y" "u8_of (y * 256 + int_of c) = c"
  "y \<le> z \<Longrightarrow> y * 256 + int_of c \<le> z * 256 + 255"
proof -
  show "(y * 256 + int_of c) div 256 = y" using div_mult_self3 [of 256 y "int_of c"] u8_range [of c] by simp
  have "u8_of (y * 256 + int_of c) = u8_of (int_of c)" by (rule u8_of_cong) simp
  then show "u8_of (y * 256 + int_of c) = c" by simp
  show "y * 256 + int_of c \<le> z * 256 + 255" if "y \<le> z" using that u8_le_255 [of c] by linarith
qed

lemma put32_be32: "length b = 4 \<Longrightarrow> put32 (be32 b) = b"
proof -
  assume "length b = 4"
  then obtain b0 b1 b2 b3 where b: "b = [b0, b1, b2, b3]" by (auto simp: numeral_eq_Suc length_Suc_conv)
  let ?x = "((int_of b0 * 256 + int_of b1) * 256 + int_of b2) * 256 + int_of b3"
  have "?x \<le> ((255 * 256 + 255) * 256 + 255) * 256 + 255" by (intro byte_below u8_le_255)
  then have "0 \<le> ?x" "?x < 4294967296" by simp_all
  then have "?x mod 4294967296 = ?x" by (rule mod_pos_pos_trivial)
  then have u: "uint (be32 b) = ?x"
    by (simp only: b be32_def uint_word_of_int nth_Cons_0 nth_Cons_Suc numeral_3_eq_3 numeral_2_eq_2 One_nat_def) simp
  have z: "x div 65536 = x div 256 div 256" "x div 16777216 = x div 256 div 256 div 256" for x :: int
    by (simp_all flip: zdiv_zmult2_eq)
  show ?thesis unfolding put32_def u z byte_below by (simp add: b)
qed

lemma put16_be16w: "length b = 2 \<Longrightarrow> put16 (be16w b) = b"
proof -
  assume "length b = 2"
  then obtain b0 b1 where b: "b = [b0, b1]" by (auto simp: numeral_eq_Suc length_Suc_conv)
  have "uint (be16w b) = be16 b0 b1"
    using be16_range [of b0 b1] by (simp add: b be16w_def uint_word_of_int)
  then have u: "uint (be16w b) = int_of b0 * 256 + int_of b1" by (simp only: be16_def)
  show ?thesis unfolding put16_def u byte_below by (simp add: b)
qed

text \<open>Fields of a message that are there can be written as such.\<close>

lemma field32: "4 \<le> length bs \<Longrightarrow> bs = put32 (be32 bs) @ drop 4 bs"
proof -
  assume "4 \<le> length bs"
  then have "put32 (be32 (take 4 bs)) = take 4 bs" by (intro put32_be32) simp
  moreover have "be32 (take 4 bs) = be32 bs" by (simp add: be32_def)
  ultimately show ?thesis by (metis append_take_drop_id)
qed

lemma field16: "2 \<le> length bs \<Longrightarrow> bs = put16 (be16w bs) @ drop 2 bs"
proof -
  assume "2 \<le> length bs"
  then have "put16 (be16w (take 2 bs)) = take 2 bs" by (intro put16_be16w) simp
  moreover have "be16w (take 2 bs) = be16w bs" by (simp add: be16w_def)
  ultimately show ?thesis by (metis append_take_drop_id)
qed

definition no_message :: "int \<Rightarrow> bytes \<Rightarrow> bool" where
  "no_message off bs \<longleftrightarrow> (\<forall>msg r. msg_ok msg \<longrightarrow> bs \<noteq> wire off msg @ r)"

lemma no_messageD: "no_message off bs \<Longrightarrow> bs = wire off msg @ r \<Longrightarrow> \<not> msg_ok msg"
  unfolding no_message_def by blast

lemma two_fields32: "8 \<le> length bs \<Longrightarrow> bs = put32 (be32 bs) @ put32 (be32 (drop 4 bs)) @ drop 8 bs"
  using field32 [of bs] field32 [of "drop 4 bs"] by simp

lemma split_at: "bs = take n bs @ drop n bs"
  by simp

lemma torn_fixed_messages:
  assumes "no_message off (put32 req @ [a + u8_of off] @ bs)"
    and "req \<in> {CA_SET_PID, CA_SET_DESCR, CA_SET_DESCR_AES, CA_SET_DESCR_MODE, DMX_SET_FILTER, DMX_STOP}"
  shows "torn (HandleMessage req a) bs"
proof -
  note nm = no_messageD [OF assms(1)]
  have two: "bs = put32 (be32 bs) @ put32 (be32 (drop 4 bs)) @ take n (drop 8 bs) @ drop (8 + n) bs" if "8 \<le> length bs" for n
    using two_fields32 [OF that] split_at [of "drop 8 bs" n] by (metis drop_drop add.commute)
  consider "req = CA_SET_PID" | "req = CA_SET_DESCR" | "req = CA_SET_DESCR_AES" | "req = CA_SET_DESCR_MODE" |
    "req = DMX_SET_FILTER" | "req = DMX_STOP" using assms(2) by blast
  then show ?thesis
  proof cases
    case 1
    have "\<not> 8 \<le> length bs"
      using nm [of "M_SetPid a (be32 bs) (sint (be32 (drop 4 bs)))" "drop 8 bs"] two [of 0]
        sint_greater_eq [of "be32 (drop 4 bs)"] sint_less [of "be32 (drop 4 bs)"] by (auto simp: 1)
    then show ?thesis unfolding HandleMessage_def [abs_def] 1 by simp (intro torn_Receive_bind, simp)
  next
    case 2
    have "\<not> 16 \<le> length bs"
      using nm [of "M_SetDescr a (be32 bs) (be32 (drop 4 bs)) (take 8 (drop 8 bs))" "drop 16 bs"] two [of 8] by (auto simp: 2)
    then show ?thesis unfolding HandleMessage_def [abs_def] 2 by simp (intro torn_Receive_bind, simp)
  next
    case 3
    have "\<not> 24 \<le> length bs"
      using nm [of "M_SetDescrAes a (be32 bs) (be32 (drop 4 bs)) (take 16 (drop 8 bs))" "drop 24 bs"] two [of 16] by (auto simp: 3)
    then show ?thesis unfolding HandleMessage_def [abs_def] 3 by simp (intro torn_Receive_bind, simp)
  next
    case 4
    have "\<not> 12 \<le> length bs"
      using nm [of "M_SetMode a (be32 bs) (be32 (drop 4 bs)) (be32 (drop 8 bs))" "drop 12 bs"] two_fields32 [of bs]
        field32 [of "drop 8 bs"] by (auto simp: 4)
    then show ?thesis unfolding HandleMessage_def [abs_def] 4 by simp (intro torn_Receive_bind, simp)
  next
    case 5
    have "\<not> 60 \<le> length bs"
    proof
      assume l: "60 \<le> length bs"
      then obtain d n cs where bs: "bs = [d, n] @ cs" by (cases bs; cases "tl bs") auto
      define d1 where "d1 = drop 2 cs"
      define d2 where "d2 = drop 16 d1"
      define d3 where "d3 = drop 16 d2"
      have "cs = put16 (be16w cs) @ d1" using field16 [of cs] l by (simp add: bs d1_def)
      moreover have "d1 = take 16 d1 @ d2" "d2 = take 16 d2 @ d3" "d3 = take 24 d3 @ drop 24 d3"
        unfolding d3_def d2_def by (rule split_at)+
      ultimately have "cs = put16 (be16w cs) @ take 16 d1 @ take 16 d2 @ take 24 d3 @ drop 24 d3" by metis
      then show False
        using nm [of "M_SetFilter a d n (be16w cs) (take 16 d1) (take 16 d2) (take 24 d3)" "drop 24 d3"] l
        by (simp add: 5 bs d1_def d2_def d3_def)
    qed
    then show ?thesis unfolding HandleMessage_def [abs_def] 5 by simp (intro torn_Receive_bind, simp)
  next
    case 6
    have "\<not> 4 \<le> length bs"
    proof
      assume l: "4 \<le> length bs"
      then obtain d n cs where bs: "bs = [d, n] @ cs" by (cases bs; cases "tl bs") auto
      have "cs = put16 (be16w cs) @ drop 2 cs" using field16 [of cs] l by (simp add: bs)
      then show False using nm [of "M_StopFilter a d n (be16w cs)" "drop 2 cs"] l by (auto simp: 6 bs)
    qed
    then show ?thesis unfolding HandleMessage_def [abs_def] 6 by simp (intro torn_Receive_bind, simp)
  qed
qed

lemma torn_SetData:
  assumes "no_message off (put32 CA_SET_DESCR_DATA @ [a + u8_of off] @ bs)"
  shows "torn (HandleMessage CA_SET_DESCR_DATA a) bs"
proof -
  let ?h = "take 16 bs" and ?len = "unat (be32 (drop 12 bs))"
  have "torn (\<lambda>evs. rx_bind (Receive evs (unat (be32 (drop 12 ?h)))) (\<lambda>d evs.
      Rx [Call_SetAes (be32 ?h) False, Call_SetData (be32 ?h) (be32 (drop 4 ?h)) (be32 (drop 8 ?h)) d] evs)) (drop 16 bs)"
    if l: "16 \<le> length bs" and n: "\<not> unat (be32 (drop 12 ?h)) > 262"
  proof (rule torn_Receive_bind)
    have b: "be32 (drop 12 ?h) = be32 (drop 12 bs)" using l by (simp add: be32_def)
    define data where "data = take ?len (drop 16 bs)"
    assume "unat (be32 (drop 12 ?h)) \<le> length (drop 16 bs)"
    then have ld: "length data = ?len" by (simp add: data_def b)
    have pl: "put32 (of_nat (length data)) = put32 (be32 (drop 12 bs))" by (simp add: ld)
    have "bs = put32 (be32 bs) @ put32 (be32 (drop 4 bs)) @ put32 (be32 (drop 8 bs)) @ put32 (be32 (drop 12 bs)) @ drop 16 bs"
      using l two_fields32 [of bs] two_fields32 [of "drop 8 bs"] by simp
    then have "bs = put32 (be32 bs) @ put32 (be32 (drop 4 bs)) @ put32 (be32 (drop 8 bs)) @ put32 (of_nat (length data)) @
        data @ drop ?len (drop 16 bs)" using pl unfolding data_def by (simp only: append_take_drop_id)
    then show "torn ((\<lambda>d evs. Rx [Call_SetAes (be32 ?h) False, Call_SetData (be32 ?h) (be32 (drop 4 ?h)) (be32 (drop 8 ?h)) d] evs)
        (take (unat (be32 (drop 12 ?h))) (drop 16 bs))) (drop (unat (be32 (drop 12 ?h))) (drop 16 bs))"
      using no_messageD [OF assms, of "M_SetData a (be32 bs) (be32 (drop 4 bs)) (be32 (drop 8 bs)) data" "drop ?len (drop 16 bs)"]
        n ld by (simp add: b)
  qed
  then show ?thesis unfolding HandleMessage_def [abs_def] by simp (intro torn_Receive_bind, cases "262 < unat (be32 (drop 12 ?h))", simp_all add: torn_fail)
qed

lemma torn_strings:
  assumes "no_message off (put32 DVBAPI_SERVER_INFO @ bs)"
  shows "torn (HandleMessage DVBAPI_SERVER_INFO a) bs"
proof -
  have "torn (\<lambda>evs. rx_bind (ReceiveString evs) (\<lambda>info evs. Rx [Call_SetVersion (be16w (take 2 bs))] evs)) (drop 2 bs)"
    if l: "2 \<le> length bs"
  proof (rule torn_String_bind)
    fix s r assume "drop 2 bs = put_string s @ r" "length s < 256"
    then show "torn ((\<lambda>info evs. Rx [Call_SetVersion (be16w (take 2 bs))] evs) (c_string s)) r"
      using no_messageD [OF assms, of "M_ServerInfo (be16w bs) s" r] field16 [OF l] by simp
  qed
  then show ?thesis unfolding HandleMessage_def [abs_def] by simp (intro torn_Receive_bind, simp)
qed

lemma torn_EcmInfo:
  assumes "no_message off (put32 DVBAPI_ECM_INFO @ [a + u8_of off] @ bs)"
  shows "torn (HandleMessage DVBAPI_ECM_INFO a) bs"
proof -
  have F: False if "2 \<le> length bs" "2 \<le> length (drop 2 bs)" "2 \<le> length (drop 2 (drop 2 bs))"
    "4 \<le> length (drop 2 (drop 2 (drop 2 bs)))" "4 \<le> length (drop 4 (drop 2 (drop 2 (drop 2 bs))))"
    "drop 4 (drop 4 (drop 2 (drop 2 (drop 2 bs)))) = put_string cs @ r1" "r1 = put_string re @ r2" "r2 = put_string fr @ r3"
    "r3 = put_string pr @ r4" "Suc 0 \<le> length r4" "length cs < 256" "length re < 256" "length fr < 256" "length pr < 256"
    for cs re fr pr r1 r2 r3 r4
  proof -
    obtain hops r where r4: "r4 = [hops] @ r" using \<open>Suc 0 \<le> length r4\<close> by (cases r4) auto
    have "bs = put16 (be16w bs) @ put16 (be16w (drop 2 bs)) @ put16 (be16w (drop 2 (drop 2 bs))) @
        put32 (be32 (drop 2 (drop 2 (drop 2 bs)))) @ put32 (be32 (drop 4 (drop 2 (drop 2 (drop 2 bs))))) @
        put_string cs @ put_string re @ put_string fr @ put_string pr @ [hops] @ r"
      using field16 [OF that(1)] field16 [OF that(2)] field16 [OF that(3)] field32 [OF that(4)] field32 [OF that(5)]
      unfolding that(6) that(7) that(8) that(9) r4 by (metis append.assoc)
    then show False
      using no_messageD [OF assms, of "M_EcmInfo a (be16w bs) (be16w (drop 2 bs)) (be16w (drop 2 (drop 2 bs)))
          (be32 (drop 2 (drop 2 (drop 2 bs)))) (be32 (drop 4 (drop 2 (drop 2 (drop 2 bs))))) cs re fr pr hops" r]
        that(11-14) by simp
  qed
  show ?thesis
    unfolding HandleMessage_def [abs_def]
    by simp (intro torn_Receive_bind torn_String_bind, rule FalseE, rule F, assumption+)
qed

text \<open>Requests without a meaning.\<close>

abbreviation (input) known_requests :: "u32 set" where
  "known_requests \<equiv> {CA_SET_PID, CA_SET_DESCR, CA_SET_DESCR_AES, CA_SET_DESCR_MODE, CA_SET_DESCR_DATA, DMX_SET_FILTER, DMX_STOP,
     DVBAPI_SERVER_INFO, DVBAPI_ECM_INFO}"

lemma torn_message: "no_message off bs \<Longrightarrow> torn (read_message off) bs"
proof -
  assume nm: "no_message off bs"
  show ?thesis
    unfolding read_message_def [abs_def]
  proof (rule torn_Receive_bind)
    assume l: "4 \<le> length bs"
    let ?req = "be32 (take 4 bs)" and ?r = "drop 4 bs"
    have bs: "bs = put32 ?req @ ?r" using put32_be32 [of "take 4 bs"] l by simp
    have "torn (\<lambda>evs. rx_bind (Receive evs 1) (\<lambda>a evs. HandleMessage ?req (a ! 0 - u8_of off) evs)) ?r"
      if s: "?req \<noteq> DVBAPI_SERVER_INFO"
    proof (rule torn_Receive_bind)
      assume "1 \<le> length ?r"
      then obtain b r where r: "?r = b # r" by (cases ?r) auto
      define a where "a = b - u8_of off"
      have "no_message off (put32 ?req @ [a + u8_of off] @ r)" using nm bs r by (simp add: a_def)
      note t = torn_fixed_messages [OF this] torn_SetData [of off a r] torn_EcmInfo [of off a r] this
      show "torn ((\<lambda>a. HandleMessage ?req (a ! 0 - u8_of off)) (take 1 ?r)) (drop 1 ?r)"
      proof (cases "?req \<in> known_requests")
        case True
        then show ?thesis using t s by (auto simp: r a_def)
      next
        case False
        then have "HandleMessage ?req a = Rx_fail" by (intro ext) (simp add: HandleMessage_def)
        then show ?thesis by (simp add: r a_def [symmetric] torn_fail)
      qed
    qed
    moreover have "torn (HandleMessage DVBAPI_SERVER_INFO 0) ?r" if "?req = DVBAPI_SERVER_INFO"
      using torn_strings [of off ?r 0] nm bs that by simp
    ultimately show "torn (\<lambda>evs. let request = ?req in if request \<noteq> DVBAPI_SERVER_INFO
        then rx_bind (Receive evs 1) (\<lambda>a evs. HandleMessage request (a ! 0 - u8_of off) evs)
        else HandleMessage request 0 evs) ?r"
      unfolding Let_def by (cases "?req = DVBAPI_SERVER_INFO") simp_all
  qed
qed

subsection \<open>Rounds of the thread\<close>

text \<open>Rounds on a connected socket whose \<open>poll\<close> reports data, one per message.\<close>

fun receive_rounds :: "int \<Rightarrow> nat \<Rightarrow> sock_state \<Rightarrow> net_event list \<Rightarrow> (sock_state \<times> call list \<times> net_event list) option" where
  "receive_rounds off 0 st evs = Some (st, [], evs)"
| "receive_rounds off (Suc n) st evs =
     (case Action_round off st
             \<lparr>in_empty = True, in_timedout = False, in_servinfo = None, in_poll = Poll_in, in_net = evs\<rparr> of
        None \<Rightarrow> None
      | Some (st1, cs, evs1) \<Rightarrow>
          (case receive_rounds off n st1 evs1 of
             None \<Rightarrow> None
           | Some (st2, cs', evs2) \<Rightarrow> Some (st2, cs @ cs', evs2)))"

lemma round_message:
  assumes "msg_ok msg" "clean (in_net inp)" "payload (in_net inp) = wire off msg @ r"
    and "0 \<le> sk_sock st" "in_poll inp = Poll_in"
  shows "\<exists>evs'. Action_round off st inp =
      Some (st\<lparr>sk_version := set_version (calls_of msg) (sk_version st)\<rparr>, calls_of msg, evs')
    \<and> clean evs' \<and> payload evs' = r"
  using readsD [OF reads_wire [OF assms(1)] assms(2,3)] assms(4,5)
  by (auto simp: Action_round_def)

text \<open>The request and the adapter byte.\<close>

lemma read_header:
  assumes "clean evs" "payload evs = put32 req @ [a] @ r" "req \<noteq> DVBAPI_SERVER_INFO"
  shows "\<exists>e2. read_message off (evs @ tail) = HandleMessage req (a - u8_of off) (e2 @ tail) \<and> clean e2 \<and> payload e2 = r"
proof -
  obtain e1 where 1: "Receive (evs @ tail) 4 = Rx (put32 req) (e1 @ tail)" "clean e1" "payload e1 = [a] @ r"
    using reads_tail [OF reads_Receive [of "put32 req" 4] assms(1,2)] by auto
  obtain e2 where 2: "Receive (e1 @ tail) 1 = Rx [a] (e2 @ tail)" "clean e2" "payload e2 = r"
    using reads_tail [OF reads_Receive [of "[a]" 1] 1(2,3)] by auto
  then have "read_message off (evs @ tail) = HandleMessage req (a - u8_of off) (e2 @ tail)"
    using 1(1) assms(3) by (simp add: read_message_def rx_bind_def Let_def)
  then show ?thesis using 2 by blast
qed

subsection \<open>Properties\<close>

text \<open>C21: reading does not depend on how TCP cuts the stream: however the bytes arrive, with
  interrupted system calls and waits in between, \<open>Receive\<close> returns exactly the next \<open>n\<close> bytes and
  leaves the rest for the next call; it never reads past them.\<close>

theorem Receive_exact:
  assumes "clean evs" "n \<le> length (payload evs)"
  shows "\<exists>evs'. Receive evs n = Rx (take n (payload evs)) evs' \<and> clean evs' \<and>
    payload evs' = drop n (payload evs)"
  using assms by (rule Receive_clean)

theorem Receive_exact_witness:
  "\<exists>evs'. Receive [Got [1, 2], Recv_intr, Got [3], Would_block, Poll_ready, Got [4, 5, 6]] 4 = Rx [1, 2, 3, 4] evs' \<and>
     payload evs' = [5, 6]"
  using Receive_exact [of "[Got [1, 2], Recv_intr, Got [3], Would_block, Poll_ready, Got [4, 5, 6]]" 4]
  by auto

text \<open>C22: every well-formed sequence of OSCam messages (all nine kinds, in the wire format of the
  dvbapi protocol, cut into segments in any way) is understood message by message: each round of the
  thread performs exactly the calls the next message asks for, in order, the connection stays open,
  and the stream never gets out of step.\<close>

theorem messages_understood:
  assumes "list_all msg_ok msgs" "clean evs" "payload evs = concat (map (wire off) msgs) @ r"
    and "0 \<le> sk_sock st"
  shows "\<exists>st' evs'. receive_rounds off (length msgs) st evs = Some (st', concat (map calls_of msgs), evs') \<and>
    sk_sock st' = sk_sock st \<and> clean evs' \<and> payload evs' = r"
  using assms
proof (induction msgs arbitrary: st evs)
  case (Cons msg msgs)
  let ?inp = "\<lparr>in_empty = True, in_timedout = False, in_servinfo = None, in_poll = Poll_in, in_net = evs\<rparr>"
  let ?st = "st\<lparr>sk_version := set_version (calls_of msg) (sk_version st)\<rparr>"
  obtain evs1 where 1: "Action_round off st ?inp = Some (?st, calls_of msg, evs1)" "clean evs1"
      "payload evs1 = concat (map (wire off) msgs) @ r"
    using round_message [of msg ?inp off "concat (map (wire off) msgs) @ r" st] Cons.prems by auto
  then obtain st' evs' where "receive_rounds off (length msgs) ?st evs1 = Some (st', concat (map calls_of msgs), evs')"
      "sk_sock st' = sk_sock st" "clean evs'" "payload evs' = r"
    using Cons.IH [of evs1 ?st] Cons.prems by auto
  with 1 show ?case by auto
qed simp

theorem messages_understood_witness:
  "\<exists>st' evs'. receive_rounds 0 2 \<lparr>sk_sock = 5, sk_faults = 0, sk_version = 0\<rparr>
     [Got [0x40, 0x08, 0x6f, 0x87, 1, 0, 0], Would_block, Poll_ready, Got [0, 0x64, 0xFF, 0xFF, 0xFF],
      Got [0xFF, 0x00, 0x00, 0x6f, 0x2a, 1, 0, 3, 0, 0x64]]
   = Some (st', [Call_SetCaPid 1 0x64 (-1), Call_SetFilter 1 0x64 0 0 3 None], evs')"
proof -
  let ?evs = "[Got [0x40, 0x08, 0x6f, 0x87, 1, 0, 0], Would_block, Poll_ready, Got [0, 0x64, 0xFF, 0xFF, 0xFF],
      Got [0xFF, 0x00, 0x00, 0x6f, 0x2a, 1, 0, 3, 0, 0x64]]"
  have "put32 (word_of_int (-1)) = [0xFF, 0xFF, 0xFF, 0xFF]" by code_simp
  then have "payload ?evs = concat (map (wire 0) [M_SetPid 1 0x64 (-1), M_StopFilter 1 0 3 0x64]) @ []"
    by (simp add: put32_def [of "numeral _"] put32_def [of 0] put16_def)
  from messages_understood [OF _ _ this, of "\<lparr>sk_sock = 5, sk_faults = 0, sk_version = 0\<rparr>"]
  show ?thesis unfolding numeral_2_eq_2 by auto
qed

text \<open>C23: a connected thread that finds the stream damaged closes the connection and stops all filters, and nothing of the
  message is acted on. The stream is damaged when \<open>poll\<close> fails; when the connection breaks after bytes that do not
  begin with a whole message of one of the nine kinds, wherever in the message that happens and however the bytes were cut into
  segments; when the request is an unknown one, whatever follows it, and when the header of a descriptor data block
  announces more than the buffer holds, whatever follows the header.\<close>

theorem bad_message_closes:
  assumes "0 \<le> sk_sock st" and evs: "in_net inp = evs @ tail" "clean evs"
    and "in_poll inp = Poll_error \<or> in_poll inp = Poll_in \<and>
      (breaks tail \<and> (\<forall>msg r. msg_ok msg \<longrightarrow> payload evs \<noteq> wire off msg @ r) \<or>
       (\<exists>req a r. payload evs = put32 req @ [a] @ r \<and>
          req \<notin> {CA_SET_PID, CA_SET_DESCR, CA_SET_DESCR_AES, CA_SET_DESCR_MODE, CA_SET_DESCR_DATA, DMX_SET_FILTER, DMX_STOP,
            DVBAPI_SERVER_INFO, DVBAPI_ECM_INFO}) \<or>
       (\<exists>a hdr r. payload evs = put32 CA_SET_DESCR_DATA @ [a] @ hdr @ r \<and> length hdr = 16 \<and> 262 < be32 (drop 12 hdr)))"
  shows "\<exists>evs'. Action_round off st inp = Some (st\<lparr>sk_sock := -1\<rparr>, [Call_StopAllFilters], evs')"
proof -
  have close: ?thesis if "in_poll inp = Poll_in" "read_message off (in_net inp) = Rx_fail e" for e
    using that assms(1) by (simp add: Action_round_def CloseConnection_def)
  consider "in_poll inp = Poll_error" | "in_poll inp = Poll_in" "breaks tail" "no_message off (payload evs)"
    | req a r where "in_poll inp = Poll_in" "payload evs = put32 req @ [a] @ r" "req \<notin> known_requests"
    | a hdr r where "in_poll inp = Poll_in" "payload evs = put32 CA_SET_DESCR_DATA @ [a] @ hdr @ r" "length hdr = 16"
        "262 < be32 (drop 12 hdr)"
    using assms(4) unfolding no_message_def by blast
  then show ?thesis
  proof cases
    case 1
    then show ?thesis using assms(1) by (simp add: Action_round_def CloseConnection_def)
  next
    case 2
    then show ?thesis using torn_message [of off "payload evs"] evs close by (auto simp: torn_def)
  next
    case 3
    from read_header [OF evs(2) 3(2), of off tail] obtain e2 where
      "read_message off (evs @ tail) = HandleMessage req (a - u8_of off) (e2 @ tail)" using 3(3) by auto
    then show ?thesis using close [OF 3(1)] 3(3) by (simp add: evs HandleMessage_def)
  next
    case 4
    from read_header [OF evs(2) 4(2), of off tail] obtain e2 where
      2: "read_message off (evs @ tail) = HandleMessage CA_SET_DESCR_DATA (a - u8_of off) (e2 @ tail)" "clean e2"
        "payload e2 = hdr @ r" by auto
    obtain e3 where "Receive (e2 @ tail) 16 = Rx hdr (e3 @ tail)"
      using reads_tail [OF reads_Receive [of hdr 16] 2(2,3)] 4(3) by auto
    moreover have "262 < unat (be32 (drop 12 hdr))" using 4(4) by (simp add: word_less_nat_alt)
    ultimately show ?thesis using close [OF 4(1)] 2(1) by (simp add: evs HandleMessage_def rx_bind_def)
  qed
qed

lemma length_wire: "4 \<le> length (wire off msg)"
  by (cases msg) simp_all

theorem bad_message_closes_witness:
  "(\<exists>evs'. Action_round 0 \<lparr>sk_sock = 5, sk_faults = 0, sk_version = 2\<rparr>
     \<lparr>in_empty = False, in_timedout = False, in_servinfo = None, in_poll = Poll_in,
      in_net = [Got [0x12, 0x34], Would_block, Poll_ready, Got [0x56, 0x78, 0]]\<rparr>
   = Some (\<lparr>sk_sock = -1, sk_faults = 0, sk_version = 2\<rparr>, [Call_StopAllFilters], evs')) \<and>
   (\<exists>evs'. Action_round 0 \<lparr>sk_sock = 5, sk_faults = 0, sk_version = 2\<rparr>
     \<lparr>in_empty = False, in_timedout = False, in_servinfo = None, in_poll = Poll_in, in_net = [Got [0x40, 0x08, 0x6f], Closed]\<rparr>
   = Some (\<lparr>sk_sock = -1, sk_faults = 0, sk_version = 2\<rparr>, [Call_StopAllFilters], evs'))"
proof -
  let ?st = "\<lparr>sk_sock = 5, sk_faults = 0, sk_version = 2\<rparr>"
  let ?inp = "\<lambda>evs. \<lparr>in_empty = False, in_timedout = False, in_servinfo = None, in_poll = Poll_in, in_net = evs\<rparr>"
  let ?e = "[Got [0x12, 0x34], Would_block, Poll_ready, Got [0x56, 0x78, 0]]"
  have p: "payload ?e = put32 0x12345678 @ [0] @ []" by (simp add: put32_def)
  have u: "(0x12345678 :: u32) \<notin> known_requests" by simp
  have 1: "\<exists>evs'. Action_round 0 ?st (?inp (?e @ [])) = Some (?st\<lparr>sk_sock := -1\<rparr>, [Call_StopAllFilters], evs')"
    by (rule bad_message_closes [where evs = ?e and tail = "[]"], simp, simp, simp,
        rule disjI2, rule conjI, simp, rule disjI2, rule disjI1, intro exI, rule conjI [OF p u])
  have n: "[0x40, 0x08, 0x6f] \<noteq> wire 0 msg @ r" for msg r
  proof
    assume "[0x40, 0x08, 0x6f] = wire 0 msg @ r"
    then have "length [0x40, 0x08, 0x6f :: u8] = length (wire 0 msg) + length r" by (simp only: length_append)
    then show False using length_wire [of 0 msg] by simp
  qed
  have 2: "\<exists>evs'. Action_round 0 ?st (?inp ([Got [0x40, 0x08, 0x6f]] @ [Closed])) = Some (?st\<lparr>sk_sock := -1\<rparr>, [Call_StopAllFilters], evs')"
    using n by (intro bad_message_closes [where evs = "[Got [0x40, 0x08, 0x6f]]" and tail = "[Closed]"]) simp_all
  from 1 2 show ?thesis by simp
qed

text \<open>C24: a message goes out whole or the connection is shut down: \<open>Write\<close> ends only with all bytes
  sent in order, or, after a failed or empty \<open>send\<close>, with a proper prefix sent and the socket shut
  down (so that the socket thread reconnects and the stream never continues after a torn message).\<close>

theorem Write_whole_or_shutdown:
  assumes "0 \<le> sock" "Write sock rs data = Some (out, res)"
  shows "(res = Some Written \<and> out = data) \<or>
    (res = Some Shut_down \<and> (\<exists>rest. rest \<noteq> [] \<and> data = out @ rest))"
proof -
  have "(r = Written \<and> out = data) \<or> (r = Shut_down \<and> (\<exists>rest. rest \<noteq> [] \<and> data = out @ rest))"
    if "write_loop rs data = Some (out, r)" for rs data out r
    using that
  proof (induction rs data arbitrary: out r rule: write_loop.induct)
    case (5 k rs b data)
    show ?case
    proof (cases "k = 0")
      case False
      with "5.prems" obtain out' where "write_loop rs (drop k (b # data)) = Some (out', r)"
          "out = take k (b # data) @ out'" by auto
      with "5.IH" [OF False, of out' r] show ?thesis by (metis append.assoc append_take_drop_id)
    qed (use "5.prems" in simp)
  qed auto
  with assms show ?thesis by (auto simp: Write_def)
qed

theorem Write_whole_or_shutdown_witness:
  "Write 3 [Sent 2, Send_intr, Sent 1] [7, 8, 9] = Some ([7, 8, 9], Some Written)"
  using Write_whole_or_shutdown [of 3 "[Sent 2, Send_intr, Sent 1]" "[7, 8, 9]" "[7, 8, 9]" "Some Written"]
  by (simp add: Write_def)

text \<open>The plugin introduces itself exactly when a round turns a missing connection into an open one.\<close>

lemma handshake_on_connect:
  assumes "Action_round off st inp = Some (st', cs, evs)"
  shows "(sk_sock st < 0 \<and> 0 \<le> sk_sock st' \<longrightarrow>
      cs = [Call_SendClientInfo, Call_SendAll] \<and> sk_faults st' = 0 \<and> \<not> in_empty inp \<and>
      (sk_faults st = 0 \<or> in_timedout inp)) \<and>
    (sk_sock st < 0 \<and> sk_sock st' < 0 \<longrightarrow> cs = []) \<and>
    (0 \<le> sk_sock st \<and> sk_sock st' < 0 \<longrightarrow> cs = [Call_StopAllFilters])"
  using assms
  by (auto simp: Action_round_def CloseConnection_def Let_def split: if_splits rx.splits)

end
