(* ===== verification/CamSlot.thy ===== *)
theory CamSlot
  imports Prelude
begin

text \<open>
  \<open>SCCAMSlot\<close> and \<open>DeCSAFillControl\<close> (SCCAMSlot.h, SCCAMSlot.cpp): the emulated CAM slot that VDR
  talks to with TPDUs, and the control that batches packets for the descrambler. The slot's handlers
  return what they do to their surroundings as a list, in order: frames for the slot's answer buffer,
  clearing it, program requests for \<open>CAPMT\<close> and parity resets for \<open>DeCSA\<close> (the default build, with
  FFdecsa). What a handler asks VDR for (timer, decrypting or not) is an input. A C pointer that moves
  through a buffer is the rest of the buffer; \<open>None\<close> is a read outside it.
\<close>

subsection \<open>Lengths of TPDUs\<close>

abbreviation (input) TDPU_SIZE_INDICATOR :: u8 where "TDPU_SIZE_INDICATOR \<equiv> 0x80"
abbreviation (input) AOT_CA_INFO_ENQ :: int where "AOT_CA_INFO_ENQ \<equiv> 0x9F8030"
abbreviation (input) AOT_CA_PMT :: int where "AOT_CA_PMT \<equiv> 0x9F8032"

text \<open>The loop of \<open>GetLength\<close>; the accumulator is a 32-bit int that wraps.\<close>

fun length_bytes :: "nat \<Rightarrow> u32 \<Rightarrow> bytes \<Rightarrow> (u32 \<times> bytes) option" where
  "length_bytes 0 acc d = Some (acc, d)"
| "length_bytes (Suc i) acc [] = None"
| "length_bytes (Suc i) acc (b # d) = length_bytes i (push_bit 8 acc + ucast b) d"

definition GetLength :: "bytes \<Rightarrow> (int \<times> bytes) option" where
  "GetLength d =
     do { b \<leftarrow> rd d 0;
          if b AND TDPU_SIZE_INDICATOR \<noteq> 0
          then map_option (\<lambda>(l, r). (sint l, r)) (length_bytes (unat (b AND NOT TDPU_SIZE_INDICATOR)) 0 (tl d))
          else Some (uint b, tl d) }"

definition LengthSize :: "int \<Rightarrow> int" where
  "LengthSize n = (if n < 0x80 then 1 else 3)"

definition SetSize :: "int \<Rightarrow> bytes" where
  "SetSize n = (if n < 0x80 then [u8_of n] else [2 OR TDPU_SIZE_INDICATOR, u8_of (n div 256), u8_of n])"

subsection \<open>The slot\<close>

datatype module_status = msNone | msReset | msPresent | msReady

record slot_state =
  sl_card :: int
  sl_version :: int
  sl_reset :: bool
  sl_doReply :: bool
  sl_lastStatus :: module_status

datatype slot_out =
    Out_frame bytes
  | Out_clear
  | Out_SIDRequest int int int bytes
  | Out_Init_Parity int int int bool

text \<open>What VDR and the adapter answer while a handler runs.\<close>

record slot_input =
  si_decrypting :: bool
  si_timedout :: bool
  si_version :: int

definition ResetSlot :: "slot_state \<Rightarrow> slot_state \<times> slot_out list" where
  "ResetSlot st = (st\<lparr>sl_reset := True\<rparr>, [Out_clear])"

definition new_slot :: "int \<Rightarrow> slot_state \<times> slot_out list" where
  "new_slot cardIndex =
     ResetSlot \<lparr>sl_card = cardIndex, sl_version = 0, sl_reset = False, sl_doReply = False, sl_lastStatus = msReset\<rparr>"

definition Check :: "slot_input \<Rightarrow> slot_state \<Rightarrow> slot_state \<times> slot_out list \<times> bool" where
  "Check inp st =
     (let dr = True;
          (st1, outs) = (if dr \<noteq> sl_doReply st \<and> \<not> si_decrypting inp
                         then (case ResetSlot st of (st', os) \<Rightarrow> (st'\<lparr>sl_doReply := dr\<rparr>, os))
                         else (st, []))
      in if si_timedout inp \<and> sl_version st1 \<noteq> si_version inp
         then (st1\<lparr>sl_version := si_version inp\<rparr>, outs, True)
         else (st1, outs, False))"

definition Status :: "slot_input \<Rightarrow> slot_state \<Rightarrow> slot_state \<times> slot_out list \<times> module_status" where
  "Status inp st =
     (let (st1, outs, status) =
        (if sl_reset st then (st\<lparr>sl_reset := False\<rparr>, [], msReset)
         else if sl_version st \<noteq> 0 then (st, [], msReady)
         else (case Check inp st of (st', os, res) \<Rightarrow> (st', os, msPresent)))
      in (st1\<lparr>sl_lastStatus := status\<rparr>, outs, status))"

text \<open>The CA info answer with the wildcard CAID.\<close>

definition CaInfo_frame :: "u8 \<Rightarrow> int \<Rightarrow> bytes" where
  "CaInfo_frame tcid cid =
     (let cn = 2; n = cn + 8 + LengthSize cn
      in [0xa0] @ SetSize n @
         [tcid, 0x90, 0x02, u8_of (cid div 256), u8_of cid, 0x9f, 0x80, 0x31] @ SetSize cn @ [0xff, 0xff])"

definition CaPmtReply_frame :: "u8 \<Rightarrow> int \<Rightarrow> int \<Rightarrow> bytes" where
  "CaPmtReply_frame tcid cid sid =
     [0xa0, 4 + 9, tcid, 0x90, 0x02, u8_of (cid div 256), u8_of cid, 0x9f, 0x80, 0x33, 4,
      u8_of (sid div 256), u8_of sid, 0x00, 0x81]"

subsection \<open>CA_PMT\<close>

text \<open>The loop over the elementary streams: the last command seen and whether any descriptor is there.\<close>

function es_loop :: "bytes \<Rightarrow> int \<Rightarrow> int \<Rightarrow> bool \<Rightarrow> (int \<times> bool) option" where
  "es_loop data dlen ci_cmd has =
     (if dlen < 5 then Some (ci_cmd, has)
      else
        do { b3 \<leftarrow> rd data 3;
             b4 \<leftarrow> rd data 4;
             let ilen = be16 (b3 AND 0x0F) b4;
             let data1 = drop 5 data;
             let dlen1 = dlen - 5;
             (cmd, h) \<leftarrow> (if ilen > 0 \<and> dlen1 \<ge> ilen
                           then do { c \<leftarrow> rd data1 0; Some (uint c, has \<or> ilen > 1) }
                           else Some (ci_cmd, has));
             es_loop (drop (nat ilen) data1) (dlen1 - ilen) cmd h })"
  by pat_completeness auto
termination
proof (relation "measure (\<lambda>(data, dlen, ci_cmd, has). nat dlen)")
  fix data :: bytes and dlen ci_cmd :: int and has b3 b4 ilen data1 dlen1 x cmd h
  assume "\<not> dlen < 5" "ilen = be16 (b3 AND 0x0F) b4" "dlen1 = dlen - 5"
  moreover have "-5 < be16 (b3 AND 0x0F) b4"
    using be16_range(1) [of "b3 AND 0x0F" b4] by linarith
  ultimately show "((drop (nat ilen) data1, dlen1 - ilen, cmd, h), data, dlen, ci_cmd, has)
      \<in> measure (\<lambda>(data, dlen, ci_cmd, has). nat dlen)" by auto
qed auto

declare es_loop.simps [simp del]

text \<open>The case \<open>AOT_CA_PMT\<close> of \<open>Process\<close>; \<open>pmt\<close> is the block \<open>data[0 .. dlen - 1]\<close>, \<open>rest\<close> the buffer
  behind it is in. VDR guarantees nothing about the lengths inside.\<close>

definition process_ca_pmt :: "int \<Rightarrow> bool \<Rightarrow> u8 \<Rightarrow> int \<Rightarrow> bytes \<Rightarrow> int \<Rightarrow> slot_out list option" where
  "process_ca_pmt cardIndex doReply tcid cid data dlen =
     (if dlen < 6 then Some []
      else
        do { b0 \<leftarrow> rd data 0; b1 \<leftarrow> rd data 1; b2 \<leftarrow> rd data 2; b4 \<leftarrow> rd data 4; b5 \<leftarrow> rd data 5;
             let ca_lm = uint b0;
             let sid = be16 b1 b2;
             let ilen = be16 (b4 AND 0x0F) b5;
             let data1 = drop 6 data;
             let dlen1 = dlen - 6;
             (cmd1, has1) \<leftarrow> (if ilen > 0 \<and> dlen1 \<ge> ilen
                               then do { c \<leftarrow> rd data1 0; Some (uint c, ilen > 1) }
                               else Some (-1, False));
             (ci_cmd, has) \<leftarrow> es_loop (drop (nat ilen) data1) (dlen1 - ilen) cmd1 has1;
             let reply = (if doReply \<and> (ci_cmd = 0x03 \<or> (ci_cmd = 0x01 \<and> ca_lm = 0x03))
                          then [Out_frame (CaPmtReply_frame tcid cid sid)] else []);
             if ci_cmd = 0x04 \<or> (ci_cmd = -1 \<and> sid = 0 \<and> ca_lm = 0x03) then
               Some (reply @ [Out_SIDRequest cardIndex sid ca_lm [], Out_Init_Parity cardIndex sid (-1) True])
             else if ci_cmd = 0x01 \<or> (ci_cmd = -1 \<and> sid \<noteq> 0 \<and> (ca_lm = 0x03 \<or> ca_lm = 0x04 \<or> ca_lm = 0x05)) then
               do { p \<leftarrow> (if has then rdn data 0 (nat dlen) else Some []);
                    Some (reply @ [Out_Init_Parity cardIndex sid (-1) False, Out_SIDRequest cardIndex sid ca_lm p]) }
             else Some reply })"

text \<open>\<open>Process\<close> on a TPDU \<open>data\<close> of length \<open>len\<close>.\<close>

definition Process :: "slot_input \<Rightarrow> slot_state \<Rightarrow> bytes \<Rightarrow> (slot_state \<times> slot_out list) option" where
  "Process inp st data =
     do { (dlen0, d1) \<leftarrow> GetLength (drop 3 data);
          let dlen1 = (if dlen0 > int (length d1) then int (length d1) else dlen0);
          tcid \<leftarrow> rd d1 0;
          let (st1, outs1, res) = Check inp st;
          let outs2 = outs1 @ (if res then [Out_frame (CaInfo_frame tcid 0x01)] else []);
          if dlen1 < 8 then Some (st1, outs2)
          else
            do { b1 \<leftarrow> rd d1 1;
                 if b1 \<noteq> 0x90 then Some (st1, outs2)
                 else
                   do { b3 \<leftarrow> rd d1 3; b4 \<leftarrow> rd d1 4; b5 \<leftarrow> rd d1 5; b6 \<leftarrow> rd d1 6; b7 \<leftarrow> rd d1 7;
                        let cid = be16 b3 b4;
                        let tag = uint b5 * 65536 + uint b6 * 256 + uint b7;
                        (dlen2, d3) \<leftarrow> GetLength (drop 8 d1);
                        let dlen3 = (if dlen2 > int (length d3) then int (length d3) else dlen2);
                        if tag = AOT_CA_INFO_ENQ then
                          Some (st1, outs2 @ [Out_frame (CaInfo_frame tcid cid)])
                        else if tag = AOT_CA_PMT then
                          do { outs3 \<leftarrow> process_ca_pmt (sl_card st1) (sl_doReply st1) tcid cid d3 dlen3;
                               Some (st1, outs2 @ outs3) }
                        else Some (st1, outs2) } } }"

subsection \<open>DeCSAFillControl\<close>

datatype fill_state = READY | SLEEP | WRAP

record fill_control =
  fc_maxWaterMark :: int
  fc_timeout :: int
  fc_dataInterval :: int
  fc_minWaterMark :: int
  fc_sleepInterval :: int
  fc_lowWaterMark :: int
  fc_lastCount :: int
  fc_timeSlept :: int
  fc_lastData :: int
  fc_state :: fill_state
  fc_fltTap1 :: int
  fc_fltTap2 :: int

definition fill_Reset :: "fill_control \<Rightarrow> fill_control" where
  "fill_Reset fc = fc\<lparr>fc_state := READY, fc_lowWaterMark := fc_maxWaterMark fc, fc_fltTap1 := -1, fc_fltTap2 := -1\<rparr>"

text \<open>The fields the constructor leaves uninitialised get any value.\<close>

definition new_fill_control :: "int \<Rightarrow> int \<Rightarrow> int \<Rightarrow> int \<Rightarrow> int \<Rightarrow> int \<Rightarrow> fill_control" where
  "new_fill_control MaxWaterMark Timeout DataInterval c0 t0 d0 =
     fill_Reset \<lparr>fc_maxWaterMark = MaxWaterMark, fc_timeout = Timeout,
       fc_dataInterval = (if DataInterval > Timeout then Timeout else DataInterval),
       fc_minWaterMark = 2 * int TS_SIZE, fc_sleepInterval = 20, fc_lowWaterMark = 0,
       fc_lastCount = c0, fc_timeSlept = t0, fc_lastData = d0, fc_state = READY,
       fc_fltTap1 = -1, fc_fltTap2 = -1\<rparr>"

definition median_filter :: "int \<Rightarrow> fill_control \<Rightarrow> fill_control \<times> int" where
  "median_filter x fc =
     (let tap1 = fc_fltTap1 fc; tap2 = fc_fltTap2 fc;
          ret = (if tap1 \<ge> 0 \<and> tap2 \<ge> 0 then min (max (min x tap1) tap2) (max x tap1) else x)
      in (fc\<lparr>fc_fltTap2 := tap1, fc_fltTap1 := x\<rparr>, ret))"

text \<open>A pointer is its address; each \<open>SleepMs\<close> is part of the call that returns \<open>False\<close>.\<close>

definition CanProcess :: "fill_control \<Rightarrow> int \<Rightarrow> int \<Rightarrow> fill_control \<times> bool" where
  "CanProcess fc Data Count =
     (case fc_state fc of
        READY \<Rightarrow>
          (if Count < fc_lowWaterMark fc
           then (fc\<lparr>fc_lastCount := Count, fc_lastData := Data, fc_state := SLEEP, fc_timeSlept := 0\<rparr>, False)
           else (fc, True))
      | SLEEP \<Rightarrow>
          (let fc1 = fc\<lparr>fc_timeSlept := fc_timeSlept fc + fc_sleepInterval fc\<rparr> in
           if fc_timeSlept fc1 \<ge> fc_dataInterval fc1 \<and> Count = fc_lastCount fc1 \<and> Data = fc_lastData fc1
           then (fc1\<lparr>fc_state := WRAP\<rparr>, True)
           else if fc_timeSlept fc1 \<ge> fc_timeout fc1 \<or> Count - fc_lastCount fc1 > fc_maxWaterMark fc1
           then (let low1 = Count - fc_lastCount fc1;
                     low2 = (if low1 > fc_maxWaterMark fc1 then fc_maxWaterMark fc1 else low1);
                     low3 = (if low2 < fc_minWaterMark fc1 then fc_minWaterMark fc1 else low2);
                     (fc2, low) = median_filter low3 fc1
                 in (fc2\<lparr>fc_lowWaterMark := low, fc_state := READY\<rparr>, False))
           else (fc1, False))
      | WRAP \<Rightarrow>
          (if Data + Count \<noteq> fc_lastData fc + fc_lastCount fc
           then (fc\<lparr>fc_state := READY\<rparr>, False)
           else (fc\<lparr>fc_lastData := Data, fc_lastCount := Count\<rparr>, True)))"

subsection \<open>Length fields\<close>

lemma u8_bit7: "b AND 0x80 = 0 \<longleftrightarrow> uint (b :: u8) < 128"
proof -
  have "b AND 2 ^ 7 = 0 \<longleftrightarrow> \<not> bit b 7" by (rule and_exp_eq_0_iff_not_bit)
  also have "bit b 7 \<longleftrightarrow> bit (uint b) 7" by (simp add: bit_uint_iff bit_imp_le_length)
  also have "\<dots> \<longleftrightarrow> odd (uint b div 128)" by (simp add: bit_iff_odd)
  also have "\<dots> \<longleftrightarrow> 128 \<le> uint b"
  proof (cases "128 \<le> uint b")
    case True
    have "uint b div 128 = (uint b - 128) div 128 + 1" by simp
    also have "(uint b - 128) div 128 = 0" using True u8_range(2) [of b] by (intro div_pos_pos_trivial) linarith+
    finally show ?thesis using True by simp
  next
    case False
    then have "uint b div 128 = 0" by (intro div_pos_pos_trivial) auto
    with False show ?thesis by simp
  qed
  finally show ?thesis by auto
qed

lemma GetLength_long: "GetLength (0x82 # h # l # r) = Some (sint (push_bit 8 (ucast h :: u32) + ucast l), r)"
proof -
  have "(0x82 :: u8) AND 0x80 \<noteq> 0" by simp
  moreover have "unat ((0x82 :: u8) AND NOT 0x80) = 2" by code_simp
  moreover have "length_bytes 2 0 (h # l # r) = Some (push_bit 8 (ucast h :: u32) + ucast l, r)"
    by (simp add: numeral_2_eq_2)
  ultimately show ?thesis by (simp add: GetLength_def rd_def del: length_bytes.simps)
qed

lemma GetLength_SetSize:
  assumes "0 \<le> n" "n < 65536"
  shows "GetLength (SetSize n @ r) = Some (n, r)"
proof (cases "n < 0x80")
  case True
  then show ?thesis
    using assms by (simp add: SetSize_def GetLength_def rd_def u8_bit7 uint_u8_of)
next
  case False
  have uc: "ucast (u8_of x) = (word_of_int (x mod 256) :: u32)" for x
  proof -
    have "ucast (u8_of x) = (word_of_int (uint (u8_of x)) :: u32)" by (simp only: unsigned_of_int word_of_int_uint) simp
    then show ?thesis by (simp only: uint_u8_of)
  qed
  have hi: "n div 256 mod 256 = n div 256" using assms by (intro mod_pos_pos_trivial) auto
  have "push_bit 8 (ucast (u8_of (n div 256)) :: u32) + ucast (u8_of n) = word_of_int (n div 256 * 256 + n mod 256)"
    unfolding uc hi by (simp only: push_bit_eq_mult of_int_add of_int_mult) simp
  then have "push_bit 8 (ucast (u8_of (n div 256)) :: u32) + ucast (u8_of n) = word_of_int n"
    by (simp only: div_mult_mod_eq)
  moreover have "sint (word_of_int n :: u32) = n"
    using assms by (simp add: signed_of_int signed_take_bit_int_eq_self)
  ultimately show ?thesis
    using False by (simp add: SetSize_def GetLength_long)
qed

subsection \<open>The CA_PMT format\<close>

text \<open>What VDR sends, written independently of the decoder (EN 50221): a descriptor block starts with
  the command byte; its 12-bit length shares two bytes with reserved bits. A stream is its type, pid
  and descriptor block.\<close>

definition len12 :: "u8 \<Rightarrow> bytes \<Rightarrow> bytes" where
  "len12 r info = [r OR (u8_of (int (length info) div 256) AND 0x0F), u8_of (int (length info))]"

record es_info =
  es_type :: u8
  es_pid1 :: u8
  es_pid2 :: u8
  es_reserved :: u8
  es_block :: bytes

definition es_enc :: "es_info \<Rightarrow> bytes" where
  "es_enc e = [es_type e, es_pid1 e, es_pid2 e] @ len12 (es_reserved e) (es_block e) @ es_block e"

definition ca_pmt :: "u8 \<Rightarrow> int \<Rightarrow> u8 \<Rightarrow> u8 \<Rightarrow> bytes \<Rightarrow> es_info list \<Rightarrow> bytes" where
  "ca_pmt lm sid ver r info ess =
     [lm, u8_of (sid div 256), u8_of sid, ver] @ len12 r info @ info @ concat (map es_enc ess)"

definition es_ok :: "es_info \<Rightarrow> bool" where
  "es_ok e \<longleftrightarrow> length (es_block e) < 4096 \<and> es_reserved e AND 0x0F = 0"

text \<open>The command that counts is that of the last non-empty block; descriptors are there when some
  block holds more than its command.\<close>

definition block_cmd :: "bytes \<Rightarrow> int \<Rightarrow> int" where
  "block_cmd info c = (if info = [] then c else uint (hd info))"

definition pmt_cmd :: "bytes \<Rightarrow> es_info list \<Rightarrow> int" where
  "pmt_cmd info ess = foldl (\<lambda>c e. block_cmd (es_block e) c) (block_cmd info (-1)) ess"

definition pmt_has_descriptors :: "bytes \<Rightarrow> es_info list \<Rightarrow> bool" where
  "pmt_has_descriptors info ess \<longleftrightarrow> 1 < length info \<or> (\<exists>e \<in> set ess. 1 < length (es_block e))"

lemma len12_decode:
  "length info < 4096 \<Longrightarrow> r AND 0x0F = 0 \<Longrightarrow>
     be16 ((len12 r info ! 0) AND 0x0F) (len12 r info ! Suc 0) = int (length info)"
  using be12_split [of "int (length info)" r] by (simp add: len12_def)

lemma es_loop_step:
  assumes "be16 (x AND 0x0F) y = int (length b)" "0 \<le> n"
  shows "es_loop (t # p1 # p2 # x # y # b @ rest) (5 + int (length b) + n) c h =
    es_loop rest n (block_cmd b c) (h \<or> 1 < length b)"
proof -
  let ?d = "t # p1 # p2 # x # y # b @ rest"
  have rds: "rd ?d 3 = Some x" "rd ?d 4 = Some y" "drop 5 ?d = b @ rest"
    by (simp_all add: rd_def)
  have "(if int (length b) > 0 \<and> int (length b) + n \<ge> int (length b)
      then do { c \<leftarrow> rd (b @ rest) 0; Some (uint c, h \<or> int (length b) > 1) } else Some (c, h))
      = Some (block_cmd b c, h \<or> 1 < length b)"
    using assms(2) by (cases b) (auto simp: block_cmd_def rd_def)
  then show ?thesis
    using assms(2)
    by (subst es_loop.simps) (simp only: rds assms(1) bind.bind_lunit Let_def, simp)
qed

lemma es_loop_enc:
  assumes "\<forall>e \<in> set ess. es_ok e"
  shows "es_loop (concat (map es_enc ess) @ tail) (int (length (concat (map es_enc ess)))) c h =
    Some (foldl (\<lambda>c e. block_cmd (es_block e) c) c ess, h \<or> (\<exists>e \<in> set ess. 1 < length (es_block e)))"
  using assms
proof (induction ess arbitrary: c h)
  case Nil
  show ?case by (subst es_loop.simps) simp
next
  case (Cons e ess)
  let ?b = "es_block e"
  let ?rest = "concat (map es_enc ess)"
  obtain x y where xy: "len12 (es_reserved e) ?b = [x, y]" by (simp add: len12_def)
  have il: "be16 (x AND 0x0F) y = int (length ?b)"
    using len12_decode [of ?b "es_reserved e"] Cons.prems by (simp add: xy es_ok_def)
  have "es_loop (es_enc e @ ?rest @ tail) (int (length (es_enc e @ ?rest))) c h =
      es_loop (?rest @ tail) (int (length ?rest)) (block_cmd ?b c) (h \<or> 1 < length ?b)"
    using es_loop_step [OF il, of "int (length ?rest)"] by (simp add: es_enc_def xy add.assoc)
  then show ?case using Cons by auto
qed

text \<open>The actions a CA_PMT asks for.\<close>

definition pmt_actions :: "int \<Rightarrow> bool \<Rightarrow> u8 \<Rightarrow> int \<Rightarrow> int \<Rightarrow> int \<Rightarrow> int \<Rightarrow> bytes \<Rightarrow> slot_out list" where
  "pmt_actions cardIndex doReply tcid cid lm sid cmd pmt =
     (if doReply \<and> (cmd = 0x03 \<or> (cmd = 0x01 \<and> lm = 0x03))
      then [Out_frame (CaPmtReply_frame tcid cid sid)] else []) @
     (if cmd = 0x04 \<or> (cmd = -1 \<and> sid = 0 \<and> lm = 0x03)
      then [Out_SIDRequest cardIndex sid lm [], Out_Init_Parity cardIndex sid (-1) True]
      else if cmd = 0x01 \<or> (cmd = -1 \<and> sid \<noteq> 0 \<and> (lm = 0x03 \<or> lm = 0x04 \<or> lm = 0x05))
      then [Out_Init_Parity cardIndex sid (-1) False, Out_SIDRequest cardIndex sid lm pmt]
      else [])"

lemma process_ca_pmt_enc:
  assumes "length info < 4096" "r AND 0x0F = 0" "\<forall>e \<in> set ess. es_ok e" "0 \<le> sid" "sid < 65536"
    and data: "data = ca_pmt lm sid ver r info ess"
  shows "process_ca_pmt cardIndex doReply tcid cid (data @ tail) (int (length data)) =
    Some (pmt_actions cardIndex doReply tcid cid (uint lm) sid (pmt_cmd info ess)
            (if pmt_has_descriptors info ess then data else []))"
proof -
  let ?rest = "concat (map es_enc ess)"
  obtain x y where xy: "len12 r info = [x, y]" by (simp add: len12_def)
  have il: "be16 (x AND 0x0F) y = int (length info)"
    using len12_decode [of info r] assms(1,2) by (simp add: xy)
  have sid: "be16 (u8_of (sid div 256)) (u8_of sid) = sid"
    using assms(4,5) by (rule be16_split)
  have d: "data = [lm, u8_of (sid div 256), u8_of sid, ver, x, y] @ info @ ?rest"
    by (simp add: data ca_pmt_def xy)
  have loop: "es_loop (?rest @ tail) (int (length ?rest)) (block_cmd info (-1)) (1 < length info)
      = Some (pmt_cmd info ess, pmt_has_descriptors info ess)"
    using es_loop_enc [OF assms(3)] by (simp add: pmt_cmd_def pmt_has_descriptors_def)
  have first: "(if int (length info) > 0 \<and> int (length (info @ ?rest)) \<ge> int (length info)
      then do { c \<leftarrow> rd (info @ ?rest @ tail) 0; Some (uint c, int (length info) > 1) } else Some (-1, False))
      = Some (block_cmd info (-1), 1 < length info)"
    by (cases info) (auto simp: block_cmd_def rd_def)
  have len: "int (length data) - 6 = int (length (info @ ?rest))" "\<not> int (length data) < 6"
    by (simp_all add: d)
  have rds: "rd (data @ tail) 0 = Some lm" "rd (data @ tail) 1 = Some (u8_of (sid div 256))"
      "rd (data @ tail) 2 = Some (u8_of sid)" "rd (data @ tail) 4 = Some x" "rd (data @ tail) 5 = Some y"
      "drop 6 (data @ tail) = info @ ?rest @ tail"
    by (simp_all add: d rd_def)
  have e: "drop (length info) (info @ ?rest @ tail) = ?rest @ tail"
      "int (length (info @ ?rest)) - int (length info) = int (length ?rest)" by simp_all
  have rdn: "rdn (data @ tail) 0 (length data) = Some data"
    by (simp add: rdn_def)
  show ?thesis
    unfolding process_ca_pmt_def if_not_P [OF len(2)] rds bind.bind_lunit Let_def len(1) sid il nat_int
      first prod.case e loop
    by (cases "pmt_has_descriptors info ess") (auto simp: rdn pmt_actions_def)
qed

subsection \<open>Whole TPDUs\<close>

text \<open>A data TPDU with one application object: its tag (three bytes), its length and its content.\<close>

definition tpdu_body :: "u8 \<Rightarrow> int \<Rightarrow> bytes \<Rightarrow> bytes \<Rightarrow> bytes" where
  "tpdu_body tcid cid tag object =
     [tcid, 0x90, 0x02, u8_of (cid div 256), u8_of cid] @ tag @ SetSize (int (length object)) @ object"

definition tpdu :: "u8 \<Rightarrow> u8 \<Rightarrow> int \<Rightarrow> bytes \<Rightarrow> bytes \<Rightarrow> bytes" where
  "tpdu slot tcid cid tag object =
     [slot, tcid, 0xA0] @ SetSize (int (length (tpdu_body tcid cid tag object))) @ tpdu_body tcid cid tag object"

definition slot_head :: "slot_input \<Rightarrow> slot_state \<Rightarrow> u8 \<Rightarrow> slot_state \<times> slot_out list" where
  "slot_head inp st tcid =
     (case Check inp st of (st1, outs, res) \<Rightarrow>
        (st1, outs @ (if res then [Out_frame (CaInfo_frame tcid 0x01)] else [])))"

text \<open>\<open>Process\<close> on such a TPDU, up to the object.\<close>

lemma Process_tpdu:
  assumes "0 \<le> cid" "cid < 65536" "length object < 65000"
  shows "Process inp st (tpdu slot tcid cid [t0, t1, t2] object) =
    (case slot_head inp st tcid of (st1, outs) \<Rightarrow>
       (let tag = uint t0 * 65536 + uint t1 * 256 + uint t2 in
        if tag = AOT_CA_INFO_ENQ then Some (st1, outs @ [Out_frame (CaInfo_frame tcid cid)])
        else if tag = AOT_CA_PMT then
          do { os \<leftarrow> process_ca_pmt (sl_card st1) (sl_doReply st1) tcid cid object (int (length object));
               Some (st1, outs @ os) }
        else Some (st1, outs)))"
proof -
  let ?body = "tpdu_body tcid cid [t0, t1, t2] object"
  have lb: "0 \<le> int (length ?body)" "int (length ?body) < 65536" "8 \<le> length ?body"
    using assms(3) by (auto simp: tpdu_body_def SetSize_def)
  have g1: "GetLength (drop 3 (tpdu slot tcid cid [t0, t1, t2] object)) = Some (int (length ?body), ?body)"
    using GetLength_SetSize [OF lb(1,2), of ?body] by (simp add: tpdu_def)
  have g2: "GetLength (drop 8 ?body) = Some (int (length object), object)"
    using GetLength_SetSize [of "int (length object)" object] assms(3) by (simp add: tpdu_body_def)
  have rds: "rd ?body 0 = Some tcid" "rd ?body 1 = Some 0x90" "rd ?body 3 = Some (u8_of (cid div 256))"
      "rd ?body 4 = Some (u8_of cid)" "rd ?body 5 = Some t0" "rd ?body 6 = Some t1" "rd ?body 7 = Some t2"
    by (simp_all add: tpdu_body_def rd_def)
  have cid: "be16 (u8_of (cid div 256)) (u8_of cid) = cid" using assms(1,2) by (rule be16_split)
  obtain st1 outs1 res where c: "Check inp st = (st1, outs1, res)" by (cases "Check inp st") auto
  show ?thesis
    using lb(3)
    by (simp only: Process_def g1 g2 bind.bind_lunit prod.case Let_def rds cid c slot_head_def) simp
qed

subsection \<open>Robustness\<close>

lemma es_loop_safe: "dlen \<le> int (length data) \<Longrightarrow> es_loop data dlen c h \<noteq> None"
proof (induction data dlen c h rule: es_loop.induct)
  case (1 data dlen c h)
  show ?case
  proof (cases "dlen < 5")
    case True
    then show ?thesis by (subst es_loop.simps) simp
  next
    case False
    define ilen where "ilen = be16 (data ! 3 AND 0x0F) (data ! 4)"
    have il: "0 \<le> ilen" by (simp add: ilen_def)
    have rds: "rd data 3 = Some (data ! 3)" "rd data 4 = Some (data ! 4)"
      using False 1(2) by (simp_all add: rd_def)
    obtain cmd h' where first: "(if ilen > 0 \<and> dlen - 5 \<ge> ilen
          then do { c \<leftarrow> rd (drop 5 data) 0; Some (uint c, h \<or> ilen > 1) } else Some (c, h)) = Some (cmd, h')"
      using False 1(2) by (cases "ilen > 0 \<and> dlen - 5 \<ge> ilen") (auto simp: rd_def)
    have "dlen - 5 - ilen \<le> int (length (drop (nat ilen) (drop 5 data)))"
      using False 1(2) il by auto
    then have "es_loop (drop (nat ilen) (drop 5 data)) (dlen - 5 - ilen) cmd h' \<noteq> None"
      by (rule "1.IH" [OF False rds ilen_def refl refl first refl])
    then show ?thesis
      using False
      by (subst es_loop.simps)
        (simp only: if_False rds bind.bind_lunit Let_def flip: ilen_def, simp only: first bind.bind_lunit prod.case, simp)
  qed
qed

lemma process_ca_pmt_safe:
  assumes "dlen \<le> int (length data)"
  shows "process_ca_pmt cardIndex doReply tcid cid data dlen \<noteq> None"
proof (cases "dlen < 6")
  case False
  define ilen where "ilen = be16 (data ! 4 AND 0x0F) (data ! 5)"
  have il: "0 \<le> ilen" by (simp add: ilen_def)
  have "5 < length data" using False assms by linarith
  then have rds: "rd data 0 = Some (data ! 0)" "rd data 1 = Some (data ! 1)" "rd data 2 = Some (data ! 2)"
      "rd data 4 = Some (data ! 4)" "rd data 5 = Some (data ! 5)"
    by (simp_all only: rd_def) auto
  obtain cmd h' where first: "(if ilen > 0 \<and> dlen - 6 \<ge> ilen
        then do { c \<leftarrow> rd (drop 6 data) 0; Some (uint c, ilen > 1) } else Some (-1, False)) = Some (cmd, h')"
    using False assms by (cases "ilen > 0 \<and> dlen - 6 \<ge> ilen") (auto simp: rd_def)
  have "dlen - 6 - ilen \<le> int (length (drop (nat ilen) (drop 6 data)))"
    using False assms il by auto
  then obtain r where loop: "es_loop (drop (nat ilen) (drop 6 data)) (dlen - 6 - ilen) cmd h' = Some r"
    using es_loop_safe by blast
  obtain ci has where r: "r = (ci, has)" by fastforce
  have "rdn data 0 (nat dlen) \<noteq> None" using assms by (simp add: rdn_def nat_le_iff)
  then show ?thesis
    unfolding process_ca_pmt_def if_not_P [OF False] rds bind.bind_lunit Let_def ilen_def [symmetric]
      first prod.case loop r
    by auto
qed (simp add: process_ca_pmt_def)

subsection \<open>Invariant of the fill control\<close>

definition wf_tap :: "fill_control \<Rightarrow> int \<Rightarrow> bool" where
  "wf_tap fc x \<longleftrightarrow> x = -1 \<or> (fc_minWaterMark fc \<le> x \<and> x \<le> fc_maxWaterMark fc)"

definition wf_fill :: "fill_control \<Rightarrow> bool" where
  "wf_fill fc \<longleftrightarrow>
     fc_minWaterMark fc = 376 \<and> fc_minWaterMark fc \<le> fc_maxWaterMark fc \<and> fc_sleepInterval fc = 20 \<and>
     fc_dataInterval fc \<le> fc_timeout fc \<and>
     fc_minWaterMark fc \<le> fc_lowWaterMark fc \<and> fc_lowWaterMark fc \<le> fc_maxWaterMark fc \<and>
     wf_tap fc (fc_fltTap1 fc) \<and> wf_tap fc (fc_fltTap2 fc) \<and>
     (fc_state fc = SLEEP \<longrightarrow> 0 \<le> fc_timeSlept fc)"

lemma wf_fill_Reset: "wf_fill fc \<Longrightarrow> wf_fill (fill_Reset fc)"
  by (simp add: wf_fill_def fill_Reset_def wf_tap_def)

lemma wf_new_fill_control: "376 \<le> m \<Longrightarrow> wf_fill (new_fill_control m t d c0 t0 d0)"
  by (simp add: new_fill_control_def fill_Reset_def wf_fill_def wf_tap_def)

lemma wf_fill_state:
  "wf_fill fc \<Longrightarrow> s \<noteq> SLEEP \<or> 0 \<le> t \<Longrightarrow>
     wf_fill (fc\<lparr>fc_state := s, fc_timeSlept := t, fc_lastCount := c, fc_lastData := d\<rparr>)"
  by (auto simp: wf_fill_def wf_tap_def)

lemma median_range:
  "lo \<le> (x::int) \<Longrightarrow> x \<le> hi \<Longrightarrow> lo \<le> y \<Longrightarrow> y \<le> hi \<Longrightarrow>
     lo \<le> min (max (min x y) z) (max x y) \<and> min (max (min x y) z) (max x y) \<le> hi"
  by (auto simp: min_def max_def)

lemma wf_median:
  assumes "wf_fill fc" "fc_minWaterMark fc \<le> x" "x \<le> fc_maxWaterMark fc"
    and "median_filter x fc = (fc', low)"
  shows "wf_fill (fc'\<lparr>fc_lowWaterMark := low, fc_state := READY\<rparr>)"
proof -
  have fc': "fc' = fc\<lparr>fc_fltTap2 := fc_fltTap1 fc, fc_fltTap1 := x\<rparr>"
    using assms(4) by (simp add: median_filter_def Let_def)
  have "fc_minWaterMark fc \<le> low \<and> low \<le> fc_maxWaterMark fc"
  proof (cases "fc_fltTap1 fc \<ge> 0 \<and> fc_fltTap2 fc \<ge> 0")
    case True
    with assms(1) have "fc_minWaterMark fc \<le> fc_fltTap1 fc" "fc_fltTap1 fc \<le> fc_maxWaterMark fc"
      by (auto simp: wf_fill_def wf_tap_def)
    have "low = min (max (min x (fc_fltTap1 fc)) (fc_fltTap2 fc)) (max x (fc_fltTap1 fc))"
      using True assms(4) by (simp add: median_filter_def Let_def)
    with median_range [OF assms(2,3) \<open>fc_minWaterMark fc \<le> fc_fltTap1 fc\<close> \<open>fc_fltTap1 fc \<le> fc_maxWaterMark fc\<close>]
    show ?thesis by blast
  next
    case False
    with assms(2-4) show ?thesis by (auto simp: median_filter_def Let_def)
  qed
  with assms(1-3) show ?thesis by (auto simp: wf_fill_def wf_tap_def fc')
qed

lemma wf_CanProcess: "wf_fill fc \<Longrightarrow> wf_fill (fst (CanProcess fc Data Count))"
proof (cases "fc_state fc")
  case SLEEP
  assume wf: "wf_fill fc"
  define fc1 where "fc1 = fc\<lparr>fc_timeSlept := fc_timeSlept fc + fc_sleepInterval fc\<rparr>"
  define low1 where "low1 = Count - fc_lastCount fc1"
  define low2 where "low2 = (if low1 > fc_maxWaterMark fc1 then fc_maxWaterMark fc1 else low1)"
  define low3 where "low3 = (if low2 < fc_minWaterMark fc1 then fc_minWaterMark fc1 else low2)"
  obtain fc2 low where m: "median_filter low3 fc1 = (fc2, low)" by fastforce
  have wf1: "wf_fill fc1" using wf SLEEP by (auto simp: fc1_def wf_fill_def wf_tap_def)
  then have "fc_minWaterMark fc1 \<le> low3" "low3 \<le> fc_maxWaterMark fc1"
    by (auto simp: low3_def low2_def wf_fill_def)
  from wf_median [OF wf1 this m] have wf2: "wf_fill (fc2\<lparr>fc_lowWaterMark := low, fc_state := READY\<rparr>)" .
  have "wf_fill (fc1\<lparr>fc_state := WRAP\<rparr>)" using wf1 by (auto simp: wf_fill_def wf_tap_def)
  moreover have "fst (CanProcess fc Data Count) \<in>
      {fc1\<lparr>fc_state := WRAP\<rparr>, fc2\<lparr>fc_lowWaterMark := low, fc_state := READY\<rparr>, fc1}"
    unfolding CanProcess_def SLEEP fill_state.case Let_def fc1_def [symmetric] low1_def [symmetric]
      low2_def [symmetric] low3_def [symmetric] m prod.case
    by auto
  ultimately show ?thesis using wf1 wf2 by auto
qed (auto simp: CanProcess_def wf_fill_def wf_tap_def)

text \<open>Repeated calls with an unchanged buffer.\<close>

fun fill_run :: "nat \<Rightarrow> fill_control \<Rightarrow> int \<Rightarrow> int \<Rightarrow> bool list" where
  "fill_run 0 fc Data Count = []"
| "fill_run (Suc n) fc Data Count =
     (case CanProcess fc Data Count of (fc', b) \<Rightarrow> b # fill_run n fc' Data Count)"

text \<open>The controller of the slot: \<open>decsaFillControl(200000, 100, 40)\<close>.\<close>

definition slot_control :: "fill_control \<Rightarrow> bool" where
  "slot_control fc \<longleftrightarrow> wf_fill fc \<and> fc_maxWaterMark fc = 200000 \<and> fc_timeout fc = 100 \<and> fc_dataInterval fc = 40"

lemma slot_control_CanProcess: "slot_control fc \<Longrightarrow> slot_control (fst (CanProcess fc Data Count))"
  using wf_CanProcess [of fc Data Count]
  by (cases "fc_state fc")
    (auto simp: slot_control_def CanProcess_def median_filter_def Let_def split: if_splits)

lemma fill_step: "CanProcess fc d c = (fc', b) \<Longrightarrow> fill_run (Suc n) fc d c = b # fill_run n fc' d c"
  by simp

lemma stuck_sleep2:
  "fc_state fc = SLEEP \<Longrightarrow> fc_dataInterval fc = 40 \<Longrightarrow> fc_sleepInterval fc = 20 \<Longrightarrow> 20 \<le> fc_timeSlept fc \<Longrightarrow>
     fc_lastCount fc = c \<Longrightarrow> fc_lastData fc = d \<Longrightarrow> True \<in> set (fill_run (Suc n) fc d c)"
  by (simp add: CanProcess_def Let_def)

lemma stuck_sleep1:
  assumes "slot_control fc" "fc_state fc = SLEEP" "fc_lastCount fc = c" "fc_lastData fc = d"
  shows "True \<in> set (fill_run (Suc (Suc n)) fc d c)"
proof (cases "20 \<le> fc_timeSlept fc")
  case True
  with assms show ?thesis by (intro stuck_sleep2) (auto simp: slot_control_def wf_fill_def)
next
  case False
  let ?fc = "fc\<lparr>fc_timeSlept := fc_timeSlept fc + 20\<rparr>"
  have "0 \<le> fc_timeSlept fc" "fc_sleepInterval fc = 20" "376 \<le> fc_maxWaterMark fc"
    using assms by (auto simp: slot_control_def wf_fill_def)
  with False assms have "CanProcess fc d c = (?fc, False)"
    by (simp add: CanProcess_def Let_def slot_control_def)
  moreover have "True \<in> set (fill_run (Suc n) ?fc d c)"
    using assms \<open>0 \<le> fc_timeSlept fc\<close> \<open>fc_sleepInterval fc = 20\<close> by (intro stuck_sleep2) (auto simp: slot_control_def)
  ultimately show ?thesis by (subst fill_step) auto
qed

lemma stuck_ready:
  assumes "slot_control fc" "fc_state fc = READY"
  shows "True \<in> set (fill_run (Suc (Suc (Suc n))) fc d c)"
proof (cases "c < fc_lowWaterMark fc")
  case True
  let ?fc = "fc\<lparr>fc_lastCount := c, fc_lastData := d, fc_state := SLEEP, fc_timeSlept := 0\<rparr>"
  have "CanProcess fc d c = (?fc, False)" using True assms by (simp add: CanProcess_def)
  moreover have "slot_control ?fc" using assms by (auto simp: slot_control_def wf_fill_def wf_tap_def)
  then have "True \<in> set (fill_run (Suc (Suc n)) ?fc d c)" by (rule stuck_sleep1) simp_all
  ultimately show ?thesis by (subst fill_step) auto
qed (use assms in \<open>simp add: CanProcess_def\<close>)

lemma sleep_other_step:
  assumes "slot_control fc" "fc_state fc = SLEEP" "\<not> (fc_lastCount fc = c \<and> fc_lastData fc = d)"
  shows "(\<exists>fc'. CanProcess fc d c = (fc', False) \<and> fc_state fc' = READY) \<or>
    (CanProcess fc d c = (fc\<lparr>fc_timeSlept := fc_timeSlept fc + 20\<rparr>, False) \<and> fc_timeSlept fc + 20 < 100)"
proof -
  define fc1 where "fc1 = fc\<lparr>fc_timeSlept := fc_timeSlept fc + 20\<rparr>"
  have k: "fc_sleepInterval fc = 20" "fc_timeout fc1 = 100" "fc_timeSlept fc1 = fc_timeSlept fc + 20"
    using assms(1) by (simp_all add: slot_control_def wf_fill_def fc1_def)
  have ne: "\<not> (fc_dataInterval fc1 \<le> fc_timeSlept fc1 \<and> c = fc_lastCount fc1 \<and> d = fc_lastData fc1)"
    using assms(3) by (auto simp: fc1_def)
  obtain fc2 low where m: "median_filter
      (if (if c - fc_lastCount fc1 > fc_maxWaterMark fc1 then fc_maxWaterMark fc1 else c - fc_lastCount fc1)
          < fc_minWaterMark fc1 then fc_minWaterMark fc1
       else (if c - fc_lastCount fc1 > fc_maxWaterMark fc1 then fc_maxWaterMark fc1 else c - fc_lastCount fc1)) fc1
      = (fc2, low)" by fastforce
  show ?thesis
    unfolding CanProcess_def assms(2) fill_state.case Let_def k(1) fc1_def [symmetric] m prod.case
    using ne by (auto simp: k)
qed

lemma stuck_other:
  assumes "slot_control fc" "fc_state fc = SLEEP" "\<not> (fc_lastCount fc = c \<and> fc_lastData fc = d)"
  shows "100 - fc_timeSlept fc \<le> 20 * int (Suc k) \<Longrightarrow> True \<in> set (fill_run (k + 4) fc d c)"
  using assms
proof (induction k arbitrary: fc)
  case 0
  then obtain fc' where s: "CanProcess fc d c = (fc', False)" "fc_state fc' = READY"
    using sleep_other_step [of fc c d] by auto
  moreover have "slot_control fc'" using slot_control_CanProcess [OF "0.prems"(2), of d c] s by simp
  ultimately have "True \<in> set (fill_run (Suc (Suc (Suc 0))) fc' d c)" by (intro stuck_ready)
  with s show ?case by (simp add: eval_nat_numeral)
next
  case (Suc k)
  obtain fc' where s: "CanProcess fc d c = (fc', False)"
      "fc_state fc' = READY \<or> fc' = fc\<lparr>fc_timeSlept := fc_timeSlept fc + 20\<rparr>"
    using sleep_other_step [OF Suc.prems(2-4)] by auto
  have sc: "slot_control fc'" using slot_control_CanProcess [OF Suc.prems(2), of d c] s by simp
  have "True \<in> set (fill_run (k + 4) fc' d c)"
  proof (cases "fc_state fc' = READY")
    case True
    have "k + 4 = Suc (Suc (Suc (Suc k)))" by simp
    with True sc show ?thesis by (simp only:) (intro stuck_ready)
  next
    case False
    with s have "fc' = fc\<lparr>fc_timeSlept := fc_timeSlept fc + 20\<rparr>" by simp
    then show ?thesis using Suc.prems sc by (intro Suc.IH) auto
  qed
  moreover have "Suc k + 4 = Suc (k + 4)" by simp
  ultimately show ?case using fill_step [OF s(1), of "k + 4"] by (simp only:) simp
qed

subsection \<open>Properties\<close>

text \<open>The length fields of TPDUs round trip for every length up to 65535, in the short and in the
  long form, and take exactly the number of bytes \<open>LengthSize\<close> announces.\<close>

lemma TPDU_length_roundtrip:
  assumes "0 \<le> n" "n < 65536"
  shows "GetLength (SetSize n @ r) = Some (n, r) \<and> int (length (SetSize n)) = LengthSize n"
  using GetLength_SetSize [OF assms] by (simp add: SetSize_def LengthSize_def)

text \<open>C25: a CA_PMT of VDR, in any encoding of its reserved bits, is understood: the command is that of
  the last non-empty descriptor block, a stop command withdraws the service from OSCam and resets its
  parities, a decrypt command resets the parities and hands the unchanged CA_PMT on (or withdraws the
  service when no descriptor is there), and a query is answered with a reply for the program.\<close>

theorem Process_CA_PMT:
  assumes "length info < 4096" "r AND 0x0F = 0" "\<forall>e \<in> set ess. es_ok e" "0 \<le> sid" "sid < 65536"
    and "0 \<le> cid" "cid < 65536" "length (ca_pmt lm sid ver r info ess) < 65000"
    and "slot_head inp st tcid = (st1, outs)"
  shows "Process inp st (tpdu slot tcid cid [0x9F, 0x80, 0x32] (ca_pmt lm sid ver r info ess)) =
    Some (st1, outs @
      pmt_actions (sl_card st1) (sl_doReply st1) tcid cid (uint lm) sid (pmt_cmd info ess)
        (if pmt_has_descriptors info ess then ca_pmt lm sid ver r info ess else []))"
  using process_ca_pmt_enc [OF assms(1-5) refl, of "sl_card st1" "sl_doReply st1" tcid cid lm ver "[]"]
  by (simp add: Process_tpdu [OF assms(6-8)] assms(9))

text \<open>A program with a CA descriptor in its program block, decrypt command 1.\<close>

theorem Process_CA_PMT_witness:
  "let st = \<lparr>sl_card = 2, sl_version = 1, sl_reset = False, sl_doReply = True, sl_lastStatus = msReady\<rparr>;
       inp = \<lparr>si_decrypting = True, si_timedout = False, si_version = 1\<rparr>;
       pmt = ca_pmt 4 1010 3 0xF0 [1, 9, 4, 9, 0xC4, 0xE0, 0x6E] []
   in Process inp st (tpdu 0 1 1 [0x9F, 0x80, 0x32] pmt) =
        Some (st, [Out_Init_Parity 2 1010 (-1) False, Out_SIDRequest 2 1010 4 pmt])"
  using Process_CA_PMT [of "[1, 9, 4, 9, 0xC4, 0xE0, 0x6E]" "0xF0" "[]" 1010 1 4 3
      "\<lparr>si_decrypting = True, si_timedout = False, si_version = 1\<rparr>"
      "\<lparr>sl_card = 2, sl_version = 1, sl_reset = False, sl_doReply = True, sl_lastStatus = msReady\<rparr>" 1
      "\<lparr>sl_card = 2, sl_version = 1, sl_reset = False, sl_doReply = True, sl_lastStatus = msReady\<rparr>" "[]" 0]
  by (simp add: slot_head_def Check_def pmt_cmd_def block_cmd_def pmt_has_descriptors_def pmt_actions_def
      ca_pmt_def len12_def)

text \<open>A TPDU that ends inside the length field at its start, right behind it, or inside the length field of its object.\<close>

definition tpdu_cut :: "bytes \<Rightarrow> bool" where
  "tpdu_cut data \<longleftrightarrow>
     (case GetLength (drop 3 data) of
        None \<Rightarrow> True
      | Some (l, d) \<Rightarrow> d = [] \<or> (8 \<le> l \<and> 8 \<le> length d \<and> d ! 1 = 0x90 \<and> GetLength (drop 8 d) = None))"

lemma Process_None: "Process inp st data = None \<longleftrightarrow> tpdu_cut data"
proof (cases "GetLength (drop 3 data)")
  case None
  then show ?thesis by (simp add: Process_def tpdu_cut_def)
next
  case (Some r)
  obtain l1 d1 where g1: "GetLength (drop 3 data) = Some (l1, d1)" using Some by (cases r) simp
  define dlen1 where "dlen1 = (if l1 > int (length d1) then int (length d1) else l1)"
  obtain st1 outs1 res where c: "Check inp st = (st1, outs1, res)" by (cases "Check inp st") auto
  show ?thesis
  proof (cases "d1 = []")
    case True
    then show ?thesis by (simp add: Process_def tpdu_cut_def g1 rd_def Let_def)
  next
    case d1: False
    have tc: "rd d1 0 = Some (d1 ! 0)" using d1 by (simp add: rd_def)
    have d8: "dlen1 < 8 \<longleftrightarrow> \<not> (8 \<le> l1 \<and> 8 \<le> length d1)" by (auto simp: dlen1_def)
    show ?thesis
    proof (cases "dlen1 < 8 \<or> d1 ! 1 \<noteq> 0x90")
      case True
      then have "\<not> tpdu_cut data" using d1 d8 by (auto simp: tpdu_cut_def g1)
      moreover have "Process inp st data \<noteq> None"
        using True d8 d1 by (cases "dlen1 < 8") (auto simp: Process_def g1 tc c Let_def rd_def dlen1_def [symmetric])
      ultimately show ?thesis by simp
    next
      case False
      then have len: "8 \<le> l1" "8 \<le> length d1" using d8 by auto
      then have rds: "rd d1 1 = Some 0x90" "rd d1 3 = Some (d1 ! 3)" "rd d1 4 = Some (d1 ! 4)"
          "rd d1 5 = Some (d1 ! 5)" "rd d1 6 = Some (d1 ! 6)" "rd d1 7 = Some (d1 ! 7)"
        using False by (simp_all add: rd_def)
      have cut: "tpdu_cut data \<longleftrightarrow> GetLength (drop 8 d1) = None"
        using False d1 len by (simp add: tpdu_cut_def g1)
      show ?thesis
      proof (cases "GetLength (drop 8 d1)")
        case None
        then show ?thesis
          unfolding cut Process_def g1 bind.bind_lunit prod.case Let_def tc c rds dlen1_def [symmetric]
          using False by auto
      next
        case (Some r2)
        obtain l2 d3 where g2: "GetLength (drop 8 d1) = Some (l2, d3)" using Some by (cases r2) simp
        have "(if l2 > int (length d3) then int (length d3) else l2) \<le> int (length d3)" by simp
        then obtain os where os: "process_ca_pmt (sl_card st1) (sl_doReply st1) (d1 ! 0) (be16 (d1 ! 3) (d1 ! 4)) d3
            (if l2 > int (length d3) then int (length d3) else l2) = Some os"
          using process_ca_pmt_safe by blast
        show ?thesis
          unfolding cut g2 unfolding Process_def g1 bind.bind_lunit prod.case Let_def tc c g2 rds dlen1_def [symmetric] os
          by auto
      qed
    qed
  qed
qed

lemma bind_SomeE: "m \<bind> f = Some y \<Longrightarrow> (\<And>x. m = Some x \<Longrightarrow> f x = Some y \<Longrightarrow> P) \<Longrightarrow> P"
  by (cases m) simp_all

lemma bind_SomeE2: "m \<bind> (\<lambda>(a, b). f a b) = Some y \<Longrightarrow> (\<And>a b. m = Some (a, b) \<Longrightarrow> f a b = Some y \<Longrightarrow> P) \<Longrightarrow> P"
  by (cases m) auto

lemma if_SomeE: "(if c then x else y) = Some z \<Longrightarrow> (c \<Longrightarrow> x = Some z \<Longrightarrow> P) \<Longrightarrow> (\<not> c \<Longrightarrow> y = Some z \<Longrightarrow> P) \<Longrightarrow> P"
  by (cases c) simp_all

text \<open>What \<open>Process\<close> asks of its surroundings: a CA_PMT it hands on has at least its six fixed bytes, and it resets
  the parities of its own card only.\<close>

definition request_ok :: "int \<Rightarrow> slot_out \<Rightarrow> bool" where
  "request_ok cardIndex out \<longleftrightarrow>
     (case out of Out_SIDRequest c sid lm p \<Rightarrow> p = [] \<or> 6 \<le> length p
                | Out_Init_Parity c sid slot del \<Rightarrow> c = cardIndex \<and> 0 \<le> sid
                | _ \<Rightarrow> True)"

lemma pmt_request:
  assumes "(if A then Some (reply @ [Out_SIDRequest c sid lm [], Out_Init_Parity c sid (-1) True])
     else if B then do { p \<leftarrow> (if h then rdn data 0 (nat n) else Some []);
                         Some (reply @ [Out_Init_Parity c sid (-1) False, Out_SIDRequest c sid lm p]) }
     else Some reply) = Some outs" "6 \<le> n" "list_all (request_ok c) reply" "0 \<le> sid"
  shows "list_all (request_ok c) outs"
  using assms by (cases A; cases B; cases h) (auto simp: request_ok_def rdn_def split: if_splits)

lemma process_ca_pmt_requests:
  "process_ca_pmt cardIndex doReply tcid cid data dlen = Some outs \<Longrightarrow> list_all (request_ok cardIndex) outs"
proof (cases "dlen < 6")
  case False
  assume "process_ca_pmt cardIndex doReply tcid cid data dlen = Some outs"
  then show ?thesis
    unfolding process_ca_pmt_def if_not_P [OF False] Let_def
    by (elim bind_SomeE2 bind_SomeE) (erule pmt_request, use False in \<open>simp_all add: request_ok_def\<close>)
qed (simp add: process_ca_pmt_def)

lemma Check_requests: "Check inp st = (st1, outs, res) \<Longrightarrow> sl_card st1 = sl_card st \<and> list_all (request_ok c) outs"
  by (auto simp: Check_def ResetSlot_def Let_def request_ok_def split: if_splits)

lemma Process_requests:
  "Process inp st data = Some (st', outs) \<Longrightarrow> list_all (request_ok (sl_card st)) outs"
proof -
  obtain st1 outs1 res where c: "Check inp st = (st1, outs1, res)" by (cases "Check inp st") auto
  note k = Check_requests [OF c, of "sl_card st"]
  assume "Process inp st data = Some (st', outs)"
  then show ?thesis
    using k unfolding Process_def c Let_def prod.case
    by (auto simp: request_ok_def [of _ "Out_frame _"] split: if_splits Option.bind_splits dest!: process_ca_pmt_requests)
qed

text \<open>C26: whatever lengths a CA_PMT claims inside (program info, stream infos, even contradictory
  ones), it is decoded without a read outside the TPDU, as long as the TPDU's own two length fields
  are there.\<close>

theorem Process_safe:
  assumes "GetLength (drop 3 data) = Some (l1, d1)" "d1 \<noteq> []"
    and "8 \<le> length d1 \<longrightarrow> GetLength (drop 8 d1) \<noteq> None"
  shows "Process inp st data \<noteq> None"
  using assms by (simp add: Process_None tpdu_cut_def)

theorem Process_safe_witness:
  "Process \<lparr>si_decrypting = True, si_timedout = False, si_version = 1\<rparr>
     \<lparr>sl_card = 2, sl_version = 1, sl_reset = False, sl_doReply = True, sl_lastStatus = msReady\<rparr>
     ([0, 1, 0xA0, 0x10] @ [1, 0x90, 2, 0, 1, 0x9F, 0x80, 0x32, 7, 3, 0x12, 0x34, 0, 0xFF, 0xFF, 1]) \<noteq> None"
  by (rule Process_safe [of _ "0x10" "[1, 0x90, 2, 0, 1, 0x9F, 0x80, 0x32, 7, 3, 0x12, 0x34, 0, 0xFF, 0xFF, 1]"])
    (simp_all add: GetLength_def rd_def)

text \<open>The length fields themselves are trusted: a TPDU whose outer length field announces more length
  bytes than it has is read past its end.\<close>

lemma Process_length_overrun:
  "Process inp st [0, 1, 0xA0, 0x84, 1] = None"
proof -
  have "unat ((0x84 :: u8) AND NOT 0x80) = 4" by code_simp
  moreover have "length_bytes 4 0 [1] = None" by (simp add: eval_nat_numeral)
  moreover have "(0x84 :: u8) AND 0x80 \<noteq> 0" by simp
  ultimately have "GetLength [0x84, 1] = None"
    by (simp add: GetLength_def rd_def del: length_bytes.simps)
  then show ?thesis by (simp add: Process_def)
qed

text \<open>C27: the low-water mark of the descrambler's fill control always stays between two packets and
  its maximum, and every value it takes is the median of the last three measurements once there are
  three.\<close>

theorem fill_control_bounds:
  assumes "wf_fill fc"
  shows "wf_fill (fst (CanProcess fc Data Count)) \<and> wf_fill (fill_Reset fc) \<and>
    fc_lowWaterMark (fst (CanProcess fc Data Count)) \<in> {2 * 188 .. fc_maxWaterMark fc} \<and>
    (\<forall>x. 0 \<le> fc_fltTap1 fc \<and> 0 \<le> fc_fltTap2 fc \<longrightarrow>
       snd (median_filter x fc) = sort [x, fc_fltTap1 fc, fc_fltTap2 fc] ! 1)"
proof -
  have "fc_maxWaterMark (fst (CanProcess fc Data Count)) = fc_maxWaterMark fc"
    by (cases "fc_state fc") (simp_all add: CanProcess_def median_filter_def Let_def)
  moreover have "snd (median_filter x fc) = sort [x, fc_fltTap1 fc, fc_fltTap2 fc] ! 1"
    if "0 \<le> fc_fltTap1 fc" "0 \<le> fc_fltTap2 fc" for x
    using that by (auto simp: median_filter_def Let_def min_def max_def)
  ultimately show ?thesis
    using assms wf_CanProcess [OF assms, of Data Count] wf_fill_Reset [OF assms]
    by (auto simp: wf_fill_def)
qed

theorem fill_control_bounds_witness:
  "wf_fill (fst (CanProcess (new_fill_control 200000 100 40 0 0 0) 4096 1880))"
  using fill_control_bounds [OF wf_new_fill_control [of 200000 100 40 0 0 0], of 4096 1880] by simp

text \<open>C28: the descrambler is never starved by a full or wrapped ring buffer: in the slot's controller,
  from any state, nine consecutive calls with an unchanged buffer let it process at least once.\<close>

theorem fill_control_progress:
  assumes "slot_control fc"
  shows "True \<in> set (fill_run 9 fc Data Count)"
proof -
  have n: "9 = Suc (Suc (Suc 6))" "9 = Suc (Suc 7)" "8 = Suc (Suc (Suc 5))" "9 = Suc 8" by simp_all
  show ?thesis
  proof (cases "fc_state fc")
    case READY
    show ?thesis unfolding n(1) by (rule stuck_ready [OF assms READY])
  next
    case SLEEP
    show ?thesis
    proof (cases "fc_lastCount fc = Count \<and> fc_lastData fc = Data")
      case True
      then show ?thesis unfolding n(2) by (intro stuck_sleep1 [OF assms SLEEP]) auto
    next
      case False
      have "0 \<le> fc_timeSlept fc" using assms SLEEP by (simp add: slot_control_def wf_fill_def)
      with stuck_other [OF assms SLEEP False, of 5] show ?thesis by simp
    qed
  next
    case WRAP
    show ?thesis
    proof (cases "Data + Count = fc_lastData fc + fc_lastCount fc")
      case True
      with WRAP have "CanProcess fc Data Count = (fc\<lparr>fc_lastData := Data, fc_lastCount := Count\<rparr>, True)"
        by (simp add: CanProcess_def)
      then show ?thesis unfolding n(4) by (subst fill_step) auto
    next
      case False
      let ?fc = "fc\<lparr>fc_state := READY\<rparr>"
      have "slot_control ?fc" using assms by (auto simp: slot_control_def wf_fill_def wf_tap_def)
      then have "True \<in> set (fill_run 8 ?fc Data Count)"
        unfolding n(3) by (rule stuck_ready) simp
      moreover have "CanProcess fc Data Count = (?fc, False)" using False WRAP by (simp add: CanProcess_def)
      ultimately show ?thesis unfolding n(4) by (subst fill_step) auto
    qed
  qed
qed

theorem fill_control_progress_witness:
  "True \<in> set (fill_run 9 (new_fill_control 200000 100 40 0 0 0) 4096 376)"
proof -
  have "slot_control (new_fill_control 200000 100 40 0 0 0)"
    using wf_new_fill_control [of 200000 100 40 0 0 0]
    by (simp add: slot_control_def) (simp add: new_fill_control_def fill_Reset_def)
  then show ?thesis by (rule fill_control_progress)
qed

end
