(* ===== verification/Frame.thy ===== *)
theory Frame
  imports Prelude
begin

text \<open>
  \<open>Frame\<close> (Frame.h, Frame.cpp): length-prefixed frames in a ring buffer. The ring buffer is VDR's
  \<open>cRingBufferLinear\<close>, which is not part of this repository: its operations are a parameter, and
  what the frames rely on (\<open>ring_fifo\<close>) is a hypothesis of the theorems. The result of \<open>MALLOC\<close>
  (contents of the fresh block, or \<open>None\<close>) is an input.
\<close>

record 'r ring_ops =
  ro_Put :: "bytes \<Rightarrow> 'r \<Rightarrow> 'r"
  ro_Get :: "'r \<Rightarrow> bytes option"
  ro_Del :: "nat \<Rightarrow> 'r \<Rightarrow> 'r"
  ro_Clear :: "'r \<Rightarrow> 'r"
  ro_Available :: "'r \<Rightarrow> nat"

text \<open>\<open>fr_mem\<close> is the block behind the two length bytes; it has \<open>fr_alen\<close> bytes.\<close>

record 'r frame =
  fr_rb :: "'r option"
  fr_mem :: "bytes option"
  fr_len :: int
  fr_alen :: int
  fr_glen :: int

abbreviation (input) LEN_OFF :: nat where "LEN_OFF \<equiv> 2"

definition new_frame :: "'r frame" where
  "new_frame = \<lparr>fr_rb = None, fr_mem = None, fr_len = 0, fr_alen = 0, fr_glen = 0\<rparr>"

definition SetRb :: "'r \<Rightarrow> 'r frame \<Rightarrow> 'r frame" where
  "SetRb r fr = fr\<lparr>fr_rb := Some r\<rparr>"

definition GetBuff :: "bytes option \<Rightarrow> int \<Rightarrow> 'r frame \<Rightarrow> 'r frame \<times> bool" where
  "GetBuff fresh l fr =
     (let fr1 = (if fr_mem fr = None \<or> l > fr_alen fr
                 then fr\<lparr>fr_mem := fresh, fr_alen := (if fresh = None then 0 else l)\<rparr>
                 else fr);
          fr2 = fr1\<lparr>fr_len := l\<rparr>
      in (fr2, fr_mem fr2 \<noteq> None))"

text \<open>What a caller writes through the pointer \<open>GetBuff\<close> returned.\<close>

definition write_buff :: "bytes \<Rightarrow> 'r frame \<Rightarrow> 'r frame" where
  "write_buff bs fr = fr\<lparr>fr_mem := map_option (\<lambda>m. bs @ drop (length bs) m) (fr_mem fr)\<rparr>"

definition Put :: "'r ring_ops \<Rightarrow> 'r frame \<Rightarrow> 'r frame" where
  "Put ops fr =
     (case (fr_rb fr, fr_mem fr) of
        (Some r, Some m) \<Rightarrow>
          fr\<lparr>fr_rb := Some (ro_Put ops ([u8_of (fr_len fr), u8_of (fr_len fr div 256)] @ take (nat (fr_len fr)) m) r)\<rparr>
      | _ \<Rightarrow> fr)"

definition Get :: "'r ring_ops \<Rightarrow> 'r frame \<Rightarrow> 'r frame \<times> bytes option" where
  "Get ops fr =
     (case fr_rb fr of
        None \<Rightarrow> (fr, None)
      | Some r \<Rightarrow>
          (case ro_Get ops r of
             None \<Rightarrow> (fr, None)
           | Some data \<Rightarrow>
               (if length data > LEN_OFF \<and> int (length data) \<ge> be16 (data ! 1) (data ! 0) + int LEN_OFF
                then (fr\<lparr>fr_glen := be16 (data ! 1) (data ! 0)\<rparr>,
                      Some (take (nat (be16 (data ! 1) (data ! 0))) (drop LEN_OFF data)))
                else (fr\<lparr>fr_rb := Some (ro_Clear ops r)\<rparr>, None))))"

definition Avail :: "'r ring_ops \<Rightarrow> 'r frame \<Rightarrow> nat" where
  "Avail ops fr = (case fr_rb fr of None \<Rightarrow> 0 | Some r \<Rightarrow> ro_Available ops r)"

definition Del :: "'r ring_ops \<Rightarrow> 'r frame \<Rightarrow> 'r frame" where
  "Del ops fr =
     (case fr_rb fr of
        None \<Rightarrow> fr
      | Some r \<Rightarrow>
          (if fr_glen fr \<noteq> 0
           then fr\<lparr>fr_rb := Some (ro_Del ops (nat (fr_glen fr) + LEN_OFF) r), fr_glen := 0\<rparr>
           else fr))"

text \<open>The use the callers make of it: get a buffer, fill it, put it; nothing when there is no memory.\<close>

definition send_frame :: "'r ring_ops \<Rightarrow> bytes option \<Rightarrow> bytes \<Rightarrow> 'r frame \<Rightarrow> 'r frame" where
  "send_frame ops fresh bs fr =
     (case GetBuff fresh (int (length bs)) fr of
        (fr1, ok) \<Rightarrow> if ok then Put ops (write_buff bs fr1) else fr1)"

subsection \<open>The ring buffer\<close>

text \<open>VDR's ring buffer is a FIFO of bytes: as long as a block fits (\<open>cap\<close>), \<open>Put\<close> appends it, \<open>Del\<close>
  removes from the front, \<open>Clear\<close> empties it and \<open>Available\<close> is the number of bytes in it. \<open>Get\<close>
  shows a contiguous beginning of the contents; that it shows everything up to the end of the frame
  is a condition of its own (\<open>shows\<close>), because the buffer is linear and wraps.\<close>

definition ring_fifo :: "'r ring_ops \<Rightarrow> ('r \<Rightarrow> bytes) \<Rightarrow> nat \<Rightarrow> bool" where
  "ring_fifo ops content cap \<longleftrightarrow>
     (\<forall>r d. length (content r) + length d \<le> cap \<longrightarrow> content (ro_Put ops d r) = content r @ d) \<and>
     (\<forall>r n. content (ro_Del ops n r) = drop n (content r)) \<and>
     (\<forall>r. content (ro_Clear ops r) = []) \<and>
     (\<forall>r. ro_Available ops r = length (content r)) \<and>
     (\<forall>r. content r = [] \<longrightarrow> ro_Get ops r = None) \<and>
     (\<forall>r d. ro_Get ops r = Some d \<longrightarrow> d = take (length d) (content r))"

definition ring_shows :: "'r ring_ops \<Rightarrow> nat \<Rightarrow> 'r \<Rightarrow> bool" where
  "ring_shows ops n r \<longleftrightarrow> (\<exists>d. ro_Get ops r = Some d \<and> n \<le> length d)"

subsection \<open>Frames are a queue\<close>

definition frame_bytes :: "bytes \<Rightarrow> bytes" where
  "frame_bytes bs = [u8_of (int (length bs)), u8_of (int (length bs) div 256)] @ bs"

text \<open>The frames in the buffer.\<close>

definition holds :: "('r \<Rightarrow> bytes) \<Rightarrow> 'r frame \<Rightarrow> bytes list \<Rightarrow> bool" where
  "holds content fr q \<longleftrightarrow>
     (\<exists>r. fr_rb fr = Some r \<and> content r = concat (map frame_bytes q)) \<and>
     (\<forall>bs \<in> set q. bs \<noteq> [] \<and> length bs < 65536) \<and>
     (\<forall>m. fr_mem fr = Some m \<longrightarrow> int (length m) = fr_alen fr)"

lemma send_frame_holds:
  assumes "ring_fifo ops content cap" "holds content fr q"
    and "bs \<noteq> []" "length bs < 65536" "fresh = Some junk" "length junk = length bs"
    and "length (concat (map frame_bytes (q @ [bs]))) \<le> cap"
  shows "holds content (send_frame ops fresh bs fr) (q @ [bs])"
proof -
  obtain r where r: "fr_rb fr = Some r" "content r = concat (map frame_bytes q)"
    using assms(2) by (auto simp: holds_def)
  obtain fr1 m where g: "GetBuff fresh (int (length bs)) fr = (fr1, True)"
      "fr_rb fr1 = Some r" "fr_mem fr1 = Some m" "fr_len fr1 = int (length bs)" "int (length m) = fr_alen fr1"
      "length bs \<le> length m"
  proof (cases "fr_mem fr = None \<or> int (length bs) > fr_alen fr")
    case True
    then show ?thesis
      using assms(5,6) r(1)
      by (intro that [of "fr\<lparr>fr_mem := Some junk, fr_alen := int (length bs), fr_len := int (length bs)\<rparr>" junk])
        (auto simp: GetBuff_def Let_def)
  next
    case False
    then obtain m where "fr_mem fr = Some m" "int (length m) = fr_alen fr"
      using assms(2) by (auto simp: holds_def)
    with False r(1) show ?thesis
      by (intro that [of "fr\<lparr>fr_len := int (length bs)\<rparr>" m]) (auto simp: GetBuff_def Let_def)
  qed
  have p: "content (ro_Put ops (frame_bytes bs) r) = concat (map frame_bytes q) @ frame_bytes bs"
    using assms(1,7) r(2) by (simp add: ring_fifo_def)
  have "send_frame ops fresh bs fr = Put ops (write_buff bs fr1)"
    by (simp add: send_frame_def g(1))
  moreover have "Put ops (write_buff bs fr1) =
      fr1\<lparr>fr_mem := Some (bs @ drop (length bs) m), fr_rb := Some (ro_Put ops (frame_bytes bs) r)\<rparr>"
    by (simp add: Put_def write_buff_def g frame_bytes_def)
  ultimately show ?thesis
    using p assms(2-4) g(5,6) by (auto simp: holds_def)
qed

lemma prefix_nth: "d = take (length d) xs \<Longrightarrow> i < length d \<Longrightarrow> d ! i = xs ! i"
  by (metis nth_take)

lemma frame_head:
  assumes "bs \<noteq> []" "length bs < 65536" "d = take (length d) (frame_bytes bs @ rest)" "length bs + 2 \<le> length d"
  shows "be16 (d ! 1) (d ! 0) = int (length bs)" "take (length bs) (drop 2 d) = bs" "2 < length d"
proof -
  have d: "d ! i = (frame_bytes bs @ rest) ! i" if "i < length d" for i
    using assms(3) that by (rule prefix_nth)
  have "0 < length bs" using assms(1) by simp
  then show "2 < length d" using assms(4) by linarith
  have "be16 (u8_of (int (length bs) div 256)) (u8_of (int (length bs))) = int (length bs)"
    using assms(2) by (intro be16_split) simp_all
  then show "be16 (d ! 1) (d ! 0) = int (length bs)"
    using d [of 0] d [of 1] \<open>2 < length d\<close> by (cases "d = []") (simp_all add: frame_bytes_def)
  have "drop 2 d = drop 2 (take (length d) (frame_bytes bs @ rest))"
    using arg_cong [OF assms(3), of "drop 2"] .
  also have "\<dots> = take (length d - 2) (bs @ rest)" by (simp add: drop_take frame_bytes_def)
  finally show "take (length bs) (drop 2 d) = bs" using assms(4) by (simp add: min_def)
qed

lemma Get_holds:
  assumes "ring_fifo ops content cap" "holds content fr (bs # q)" "fr_rb fr = Some r"
    and "ring_shows ops (length bs + 2) r"
  shows "Get ops fr = (fr\<lparr>fr_glen := int (length bs)\<rparr>, Some bs)"
proof -
  obtain d where d: "ro_Get ops r = Some d" "length bs + 2 \<le> length d"
    using assms(4) by (auto simp: ring_shows_def)
  have c: "content r = frame_bytes bs @ concat (map frame_bytes q)" and bs: "bs \<noteq> []" "length bs < 65536"
    using assms(2,3) by (auto simp: holds_def)
  have "d = take (length d) (frame_bytes bs @ concat (map frame_bytes q))"
    using assms(1) d(1) unfolding ring_fifo_def c [symmetric] by blast
  from frame_head [OF bs this d(2)] d show ?thesis
    by (simp add: Get_def assms(3))
qed

lemma Del_holds:
  assumes "ring_fifo ops content cap" "holds content fr (bs # q)"
  shows "holds content (Del ops (fr\<lparr>fr_glen := int (length bs)\<rparr>)) q"
  using assms by (auto simp: holds_def Del_def ring_fifo_def frame_bytes_def)

lemma Avail_holds:
  "ring_fifo ops content cap \<Longrightarrow> holds content fr q \<Longrightarrow> 0 < Avail ops fr \<longleftrightarrow> q \<noteq> []"
  by (cases q) (auto simp: holds_def Avail_def ring_fifo_def frame_bytes_def)

text \<open>A ring buffer that is a plain list, to show that the assumptions can hold.\<close>

definition list_ring :: "bytes ring_ops" where
  "list_ring = \<lparr>ro_Put = (\<lambda>d r. r @ d), ro_Get = (\<lambda>r. if r = [] then None else Some r), ro_Del = drop,
                ro_Clear = (\<lambda>r. []), ro_Available = length\<rparr>"

lemma list_ring_fifo: "ring_fifo list_ring (\<lambda>r. r) cap"
  by (simp add: ring_fifo_def list_ring_def)

subsection \<open>Properties\<close>

text \<open>C29: frames are a queue. On a FIFO ring buffer with room for it, a frame of 1 to 65535 bytes that
  is sent is queued behind the others, and the receiver gets the oldest frame, byte for byte and with
  its own length, and removes exactly that one.\<close>

theorem Frame_queue:
  assumes "ring_fifo ops content cap" "holds content fr q"
    and "bs \<noteq> []" "length bs < 65536" "length junk = length bs"
    and "length (concat (map frame_bytes (q @ [bs]))) \<le> cap"
    and "q @ [bs] = first # others"
    and "fr_rb (send_frame ops (Some junk) bs fr) = Some r" "ring_shows ops (length first + 2) r"
  shows "\<exists>fr'. Get ops (send_frame ops (Some junk) bs fr) = (fr', Some first) \<and>
    holds content (Del ops fr') others \<and> (0 < Avail ops (Del ops fr') \<longleftrightarrow> others \<noteq> [])"
proof -
  let ?fr = "send_frame ops (Some junk) bs fr"
  have h: "holds content ?fr (first # others)"
    using send_frame_holds [OF assms(1-4) refl assms(5,6)] assms(7) by simp
  have d: "holds content (Del ops (?fr\<lparr>fr_glen := int (length first)\<rparr>)) others"
    using assms(1) h by (rule Del_holds)
  show ?thesis
    using Get_holds [OF assms(1) h assms(8,9)] d Avail_holds [OF assms(1) d] by simp
qed

theorem Frame_queue_witness:
  "\<exists>fr'. Get list_ring (send_frame list_ring (Some [0, 0, 0]) [7, 8, 9] (SetRb [] new_frame)) = (fr', Some [7, 8, 9])"
proof -
  have "holds (\<lambda>r. r) (SetRb [] new_frame) []" by (simp add: holds_def SetRb_def new_frame_def)
  moreover have "fr_rb (send_frame list_ring (Some [0, 0, 0]) [7, 8, 9] (SetRb [] new_frame)) = Some [3, 0, 7, 8, 9]"
    by (simp add: send_frame_def GetBuff_def SetRb_def new_frame_def Put_def write_buff_def list_ring_def Let_def)
  moreover have "ring_shows list_ring (length [7, 8, 9 :: u8] + 2) [3, 0, 7, 8, 9]"
    by (simp add: ring_shows_def list_ring_def)
  ultimately show ?thesis
    using Frame_queue [OF list_ring_fifo [of 100], of "SetRb [] new_frame" "[]" "[7, 8, 9]" "[0, 0, 0]"
        "[7, 8, 9]" "[]" "[3, 0, 7, 8, 9]"]
    by (auto simp: frame_bytes_def)
qed

text \<open>A frame that the ring buffer does not show whole is not waited for: the buffer is cleared, and
  every queued frame is lost.\<close>

lemma Get_partial_clears:
  assumes "ring_fifo ops content cap" "holds content fr (bs # q)" "fr_rb fr = Some r"
    and "ro_Get ops r = Some d" "2 < length d" "length d < length bs + 2"
  shows "snd (Get ops fr) = None \<and> holds content (fst (Get ops fr)) []"
proof -
  have c: "content r = frame_bytes bs @ concat (map frame_bytes q)" and bs: "bs \<noteq> []" "length bs < 65536"
    using assms(2,3) by (auto simp: holds_def)
  have "d = take (length d) (frame_bytes bs @ concat (map frame_bytes q))"
    using assms(1,4) unfolding ring_fifo_def c [symmetric] by blast
  then have "d ! i = (frame_bytes bs @ concat (map frame_bytes q)) ! i" if "i < length d" for i
    using that by (rule prefix_nth)
  from this [of 0] this [of 1] assms(5)
  have "d ! 0 = u8_of (int (length bs))" "d ! 1 = u8_of (int (length bs) div 256)"
    by (cases "d = []"; simp add: frame_bytes_def)+
  moreover have "be16 (u8_of (int (length bs) div 256)) (u8_of (int (length bs))) = int (length bs)"
    using bs(2) by (intro be16_split) simp_all
  ultimately have "be16 (d ! 1) (d ! 0) = int (length bs)" by (simp add: frame_bytes_def)
  with assms show ?thesis by (auto simp: Get_def holds_def ring_fifo_def)
qed

end
