(* ===== verification/CiAdapter.thy ===== *)
theory CiAdapter
  imports CamSlot Frame
begin

text \<open>
  \<open>SCCIAdapter\<close> (SCCIAdapter.h, SCCIAdapter.cpp): the CI adapter VDR writes TPDUs to and reads answers
  from. Each slot has a frame queue of its own (its answers), and the adapter has one (what VDR
  reads). VDR's calls come one at a time under the adapter's mutex. \<open>fresh\<close> is \<open>MALLOC\<close> by size.
\<close>

record 'r adapter =
  ad_tcid :: u8
  ad_frame :: "'r frame"
  ad_slots :: "(slot_state \<times> 'r frame) option list"
  ad_stopped :: bool

abbreviation (input) T_RCV :: u8 where "T_RCV \<equiv> 0x81"
abbreviation (input) T_CREATE_TC :: u8 where "T_CREATE_TC \<equiv> 0x82"
abbreviation (input) T_DATA_LAST :: u8 where "T_DATA_LAST \<equiv> 0xA0"

text \<open>The status object at the end of every answer: whether the slot has more data.\<close>

definition SB_TAG :: "u8 \<Rightarrow> bool \<Rightarrow> bytes" where
  "SB_TAG tcid more_data = [0x80, 0x02, tcid, if more_data then 0x80 else 0x00]"

definition reqCAS :: "u8 \<Rightarrow> bytes" where
  "reqCAS tcid = [0xA0, 0x07, tcid, 0x91, 0x04, 0x00, 0x03, 0x00, 0x41]"

text \<open>The slot's handlers write to the slot's frame queue; everything else goes on.\<close>

fun run_slot_outs ::
  "'r ring_ops \<Rightarrow> (nat \<Rightarrow> bytes option) \<Rightarrow> slot_out list \<Rightarrow> 'r frame \<Rightarrow> 'r frame \<times> slot_out list" where
  "run_slot_outs ops fresh [] fr = (fr, [])"
| "run_slot_outs ops fresh (Out_frame bs # os) fr =
     run_slot_outs ops fresh os (send_frame ops (fresh (length bs)) bs fr)"
| "run_slot_outs ops fresh (Out_clear # os) fr =
     run_slot_outs ops fresh os (fr\<lparr>fr_rb := map_option (ro_Clear ops) (fr_rb fr)\<rparr>)"
| "run_slot_outs ops fresh (x # os) fr =
     (case run_slot_outs ops fresh os fr of (fr', xs) \<Rightarrow> (fr', x # xs))"

definition send_answer ::
  "'r ring_ops \<Rightarrow> (nat \<Rightarrow> bytes option) \<Rightarrow> bytes \<Rightarrow> 'r adapter \<Rightarrow> 'r adapter" where
  "send_answer ops fresh b ad = ad\<lparr>ad_frame := send_frame ops (fresh (length b)) b (ad_frame ad)\<rparr>"

definition set_slot :: "nat \<Rightarrow> slot_state \<Rightarrow> 'r frame \<Rightarrow> 'r adapter \<Rightarrow> 'r adapter" where
  "set_slot i st fr ad = ad\<lparr>ad_slots := (ad_slots ad)[i := Some (st, fr)]\<rparr>"

definition Adapter_Write ::
  "'r ring_ops \<Rightarrow> (nat \<Rightarrow> bytes option) \<Rightarrow> slot_input \<Rightarrow> 'r adapter \<Rightarrow> bytes \<Rightarrow> ('r adapter \<times> slot_out list) option" where
  "Adapter_Write ops fresh inp ad buff =
     (if length buff < 5 then Some (ad, [])
      else
        (let slot = buff ! 0; i = unat slot; tag = buff ! 2 in
         case (if i < length (ad_slots ad) then ad_slots ad ! i else None) of
           None \<Rightarrow> Some (ad, [])
         | Some (st, fr) \<Rightarrow>
             (if tag = T_RCV then
                (case Get ops fr of
                   (fr1, None) \<Rightarrow> Some (set_slot i st fr1 ad, [])
                 | (fr1, Some d) \<Rightarrow>
                     (let fr2 = Del ops fr1;
                          b = [slot, ad_tcid ad] @ d @ SB_TAG (ad_tcid ad) (Avail ops fr2 > 0)
                      in Some (send_answer ops fresh b (set_slot i st fr2 ad), [])))
              else if tag = T_CREATE_TC then
                (let tcid = buff ! 4;
                     ad1 = ad\<lparr>ad_tcid := tcid\<rparr>;
                     fr1 = send_frame ops (fresh 9) (reqCAS tcid) fr;
                     b = [slot, tcid, 0x83, 0x01, tcid] @ SB_TAG tcid (Avail ops fr1 > 0)
                 in Some (send_answer ops fresh b (set_slot i st fr1 ad1), []))
              else if tag = T_DATA_LAST then
                do { (st1, os) \<leftarrow> Process inp st buff;
                     let (fr1, os1) = run_slot_outs ops fresh os fr;
                     let b = [slot, ad_tcid ad] @ SB_TAG (ad_tcid ad) (Avail ops fr1 > 0);
                     Some (send_answer ops fresh b (set_slot i st1 fr1 ad), os1) }
              else Some (ad, []))))"

text \<open>\<open>Read\<close>: the frame VDR gets, if any; a frame larger than VDR's buffer is dropped.\<close>

definition Adapter_Read :: "'r ring_ops \<Rightarrow> int \<Rightarrow> 'r adapter \<Rightarrow> 'r adapter \<times> bytes option" where
  "Adapter_Read ops MaxLength ad =
     (if MaxLength > 0 then
        (case Get ops (ad_frame ad) of
           (fr, None) \<Rightarrow> (ad\<lparr>ad_frame := fr\<rparr>, None)
         | (fr, Some d) \<Rightarrow>
             (ad\<lparr>ad_frame := Del ops fr\<rparr>, if int (length d) > MaxLength then None else Some d))
      else (ad, None))"

definition ModuleStatus ::
  "slot_input \<Rightarrow> 'r ring_ops \<Rightarrow> 'r adapter \<Rightarrow> int \<Rightarrow> 'r adapter \<times> module_status" where
  "ModuleStatus inp ops ad Slot =
     (if 0 \<le> Slot \<and> Slot < int (length (ad_slots ad)) then
        (case ad_slots ad ! nat Slot of
           None \<Rightarrow> (ad, msNone)
         | Some (st, fr) \<Rightarrow>
             (case Status inp st of (st', os, res) \<Rightarrow>
                (set_slot (nat Slot) st' (fst (run_slot_outs ops (\<lambda>_. None) os fr)) ad, res)))
      else (ad, msNone))"

definition Adapter_Assign :: "'r adapter \<Rightarrow> bool \<Rightarrow> bool" where
  "Adapter_Assign ad has_device \<longleftrightarrow> \<not> has_device \<or> \<not> ad_stopped ad"

subsection \<open>Properties\<close>

text \<open>C30: polling a slot. When VDR polls (\<open>T_RCV\<close>) a slot with answers, the oldest answer of the slot
  goes, once, into the frame VDR reads next after those already waiting, framed by the slot, the
  connection id and a status that says exactly whether the slot has more.\<close>

theorem Adapter_poll:
  assumes ring: "ring_fifo ops content cap" "holds content (ad_frame ad) q" "holds content fr (d # ds)"
    and slot: "5 \<le> length buff" "unat (buff ! 0) < length (ad_slots ad)"
      "ad_slots ad ! unat (buff ! 0) = Some (st, fr)" "buff ! 2 = T_RCV"
    and room: "fr_rb fr = Some r" "ring_shows ops (length d + 2) r" "length d < 65530"
      "fresh (length d + 6) = Some junk" "length junk = length d + 6"
      "length (concat (map frame_bytes q)) + length d + 8 \<le> cap"
  shows "\<exists>ad' fr'. Adapter_Write ops fresh inp ad buff = Some (ad', []) \<and>
    ad_slots ad' ! unat (buff ! 0) = Some (st, fr') \<and> holds content fr' ds \<and>
    holds content (ad_frame ad')
      (q @ [[buff ! 0, ad_tcid ad] @ d @ [0x80, 0x02, ad_tcid ad, if ds = [] then 0 else 0x80]])"
proof -
  let ?fr1 = "fr\<lparr>fr_glen := int (length d)\<rparr>"
  let ?fr2 = "Del ops ?fr1"
  let ?b = "[buff ! 0, ad_tcid ad] @ d @ SB_TAG (ad_tcid ad) (ds \<noteq> [])"
  have g: "Get ops fr = (?fr1, Some d)" using ring(1,3) room(1,2) by (rule Get_holds)
  have h2: "holds content ?fr2 ds" using ring(1,3) by (rule Del_holds)
  then have av: "Avail ops ?fr2 > 0 \<longleftrightarrow> ds \<noteq> []" using ring(1) by (intro Avail_holds)
  have lb: "length ?b = length d + 6" by (simp add: SB_TAG_def)
  have "holds content (send_frame ops (fresh (length ?b)) ?b (ad_frame ad)) (q @ [?b])"
    using ring(1,2) room(3-6) lb
    by (intro send_frame_holds [where junk = junk]) (auto simp: frame_bytes_def add.commute [of 6])
  moreover have "Adapter_Write ops fresh inp ad buff =
      Some (send_answer ops fresh ?b (set_slot (unat (buff ! 0)) st ?fr2 ad), [])"
    using slot g by (simp add: Adapter_Write_def Let_def av)
  ultimately show ?thesis
    using h2 slot(2) by (auto simp: send_answer_def set_slot_def SB_TAG_def intro!: exI [of _ ?fr2])
qed

theorem Adapter_poll_witness:
  "\<exists>ad' fr'. Adapter_Write list_ring (\<lambda>n. Some (replicate n 0))
     \<lparr>si_decrypting = True, si_timedout = False, si_version = 1\<rparr>
     \<lparr>ad_tcid = 1, ad_frame = SetRb [] new_frame, ad_slots = [Some (\<lparr>sl_card = 2, sl_version = 1, sl_reset = False, sl_doReply = True, sl_lastStatus = msReady\<rparr>,
       SetRb [2, 0, 0xAA, 0xBB] new_frame)],
      ad_stopped = False\<rparr> [0, 1, 0x81, 1, 1] = Some (ad', []) \<and>
     holds (\<lambda>r. r) (ad_frame ad') [[0, 1, 0xAA, 0xBB, 0x80, 2, 1, 0]]"
proof -
  have q: "holds (\<lambda>r. r) (SetRb [] new_frame) []" by (simp add: holds_def SetRb_def new_frame_def)
  have d: "holds (\<lambda>r. r) (SetRb [2, 0, 0xAA, 0xBB] new_frame) [[0xAA, 0xBB]]"
    by (simp add: holds_def SetRb_def new_frame_def frame_bytes_def)
  show ?thesis
    using Adapter_poll [OF list_ring_fifo [of 100], of
        "\<lparr>ad_tcid = 1, ad_frame = SetRb [] new_frame,
          ad_slots = [Some (\<lparr>sl_card = 2, sl_version = 1, sl_reset = False, sl_doReply = True, sl_lastStatus = msReady\<rparr>,
       SetRb [2, 0, 0xAA, 0xBB] new_frame)], ad_stopped = False\<rparr>" "[]"
        "SetRb [2, 0, 0xAA, 0xBB] new_frame" "[0xAA, 0xBB]" "[]" "[0, 1, 0x81, 1, 1]"
        "\<lparr>sl_card = 2, sl_version = 1, sl_reset = False, sl_doReply = True, sl_lastStatus = msReady\<rparr>"
        "[2, 0, 0xAA, 0xBB]" "\<lambda>n. Some (replicate n 0)" "replicate 8 0"
        "\<lparr>si_decrypting = True, si_timedout = False, si_version = 1\<rparr>"] q d
    by (auto simp: SetRb_def new_frame_def ring_shows_def list_ring_def)
qed

end
