(* ===== verification/DecsaKey.thy ===== *)
theory DecsaKey
  imports Decrypt Des
begin

text \<open>
  One descrambling key (class \<open>DeCSAKey\<close> in DeCSA.h, DeCSA.cpp lines 79 to 514), in the build with FFdecsa and
  with OpenSSL: the CSA key structure, the AES contexts, the DES schedules and the mode. A null pointer is
  \<open>None\<close>. Every operation of the class runs under the key's mutex, so each is one step on the record.

  OpenSSL is a parameter: \<open>evp\<close> holds the results of its calls and the functions they compute on a cipher
  context of type \<open>'c\<close>.
\<close>

subsection \<open>OpenSSL\<close>

datatype cipher = AES_128_ECB | AES_192_ECB | AES_256_ECB

record 'c evp =
  evp_malloc :: bool
  evp_new :: "'c option \<times> 'c option"
  evp_init :: "cipher \<Rightarrow> bytes \<Rightarrow> 'c \<Rightarrow> bool \<times> 'c"
  evp_no_padding :: "'c \<Rightarrow> bool \<times> 'c"
  evp_update :: "bytes \<Rightarrow> 'c \<Rightarrow> bool \<times> 'c \<times> bytes"

text \<open>The one thing the code relies on for its memory: an update writes as many bytes as it is given.\<close>

definition evp_ok :: "'c evp \<Rightarrow> bool" where
  "evp_ok evp \<longleftrightarrow> (\<forall>ctx data. length (snd (snd (evp_update evp data ctx))) = length data)"

definition cipher_of :: "int \<Rightarrow> cipher" where
  "cipher_of bits = (if bits = 256 then AES_256_ECB else if bits = 192 then AES_192_ECB else AES_128_ECB)"

definition aes_set_key :: "'c evp \<Rightarrow> 'c \<Rightarrow> bytes \<Rightarrow> int \<Rightarrow> bool \<times> 'c" where
  "aes_set_key evp ctx key bits =
     (let (ok, ctx) = evp_init evp (cipher_of bits) key ctx
      in if ok then evp_no_padding evp ctx else (False, ctx))"

text \<open>The even and the odd context.\<close>

definition aes_get_key_struct :: "'c evp \<Rightarrow> ('c \<times> 'c) option" where
  "aes_get_key_struct evp =
     (if evp_malloc evp then
        (case evp_new evp of
           (Some even_ctx, Some odd_ctx) \<Rightarrow>
             (let (ok, even_ctx) = aes_set_key evp even_ctx (replicate 16 0) 128 in
              if \<not> ok then None
              else (let (ok, odd_ctx) = aes_set_key evp odd_ctx (replicate 16 0) 128 in
                    if \<not> ok then None else Some (even_ctx, odd_ctx)))
         | _ \<Rightarrow> None)
      else None)"

subsection \<open>The key\<close>

abbreviation (input) CA_ALGO_DVBCSA :: u32 where "CA_ALGO_DVBCSA \<equiv> 0"
abbreviation (input) CA_ALGO_DES :: u32 where "CA_ALGO_DES \<equiv> 1"
abbreviation (input) CA_ALGO_AES128 :: u32 where "CA_ALGO_AES128 \<equiv> 2"
abbreviation (input) CA_MODE_ECB :: u32 where "CA_MODE_ECB \<equiv> 0"
abbreviation (input) CA_MODE_CBC :: u32 where "CA_MODE_CBC \<equiv> 1"

record 'c decsa_key =
  dk_key :: "csa_keys_t option"
  dk_aes_key :: "('c \<times> 'c) option"
  dk_Aes :: bool
  dk_algo :: u32
  dk_cipherMode :: u32
  dk_aesIv :: bytes
  dk_des :: "u32 list list"

text \<open>The constructor; the DES schedules are not initialised.\<close>

definition new_decsa_key :: "u32 list list \<Rightarrow> 'c decsa_key" where
  "new_decsa_key junk = \<lparr>dk_key = None, dk_aes_key = None, dk_Aes = False, dk_algo = CA_ALGO_DVBCSA,
     dk_cipherMode = CA_MODE_ECB, dk_aesIv = replicate 16 0, dk_des = junk\<rparr>"

definition key_SetAes :: "bool \<Rightarrow> 'c decsa_key \<Rightarrow> 'c decsa_key" where
  "key_SetAes usedAes k = k\<lparr>dk_Aes := usedAes\<rparr>"

definition key_SetAlgo :: "u32 \<Rightarrow> 'c decsa_key \<Rightarrow> 'c decsa_key" where
  "key_SetAlgo usedAlgo k = k\<lparr>dk_algo := usedAlgo\<rparr>"

definition key_SetCipherMode :: "u32 \<Rightarrow> 'c decsa_key \<Rightarrow> 'c decsa_key" where
  "key_SetCipherMode usedCipherMode k = k\<lparr>dk_cipherMode := usedCipherMode\<rparr>"

definition GetorCreateAesKeyStruct :: "'c evp \<Rightarrow> 'c decsa_key \<Rightarrow> bool \<times> 'c decsa_key" where
  "GetorCreateAesKeyStruct evp k =
     (let k = (if dk_aes_key k = None then k\<lparr>dk_aes_key := aes_get_key_struct evp\<rparr> else k)
      in (dk_aes_key k \<noteq> None, k))"

text \<open>OpenSSL reads as many bytes of the key as the cipher has.\<close>

definition cipher_bytes :: "cipher \<Rightarrow> nat" where
  "cipher_bytes c = (case c of AES_128_ECB \<Rightarrow> 16 | AES_192_ECB \<Rightarrow> 24 | AES_256_ECB \<Rightarrow> 32)"

definition SetAesKey :: "'c evp \<Rightarrow> bool \<Rightarrow> bytes \<Rightarrow> int \<Rightarrow> 'c decsa_key \<Rightarrow> (bool \<times> 'c decsa_key) option" where
  "SetAesKey evp is_odd key bits k =
     (case dk_aes_key k of
        None \<Rightarrow> Some (False, k)
      | Some (even_ctx, odd_ctx) \<Rightarrow>
          do { key \<leftarrow> rdn key 0 (cipher_bytes (cipher_of bits));
               let (ok, ctx) = aes_set_key evp (if is_odd then odd_ctx else even_ctx) key bits;
               Some (ok, k\<lparr>dk_aes_key := Some (if is_odd then (even_ctx, ctx) else (ctx, odd_ctx))\<rparr>) })"

text \<open>\<open>data\<close> are the \<open>len\<close> bytes the call works on; the result has their new values.\<close>

definition AesDecrypt :: "'c evp \<Rightarrow> bool \<Rightarrow> bytes \<Rightarrow> 'c decsa_key \<Rightarrow> bool \<times> 'c decsa_key \<times> bytes" where
  "AesDecrypt evp is_odd data k =
     (case dk_aes_key k of
        None \<Rightarrow> (False, k, data)
      | Some (even_ctx, odd_ctx) \<Rightarrow>
          (let cbc = (dk_algo k = CA_ALGO_AES128 \<and> dk_cipherMode k = CA_MODE_CBC);
               (ok, ctx, out) = evp_update evp data (if is_odd then odd_ctx else even_ctx);
               k = k\<lparr>dk_aes_key := Some (if is_odd then (even_ctx, ctx) else (ctx, odd_ctx))\<rparr>
           in if \<not> ok then (False, k, out)
              else (True, k,
                    if cbc then map (\<lambda>i. out ! i XOR (if i < 16 then dk_aesIv k ! i else data ! (i - 16))) [0..<length data]
                    else out)))"

definition SetAesIv :: "bytes \<Rightarrow> 'c decsa_key \<Rightarrow> 'c decsa_key option" where
  "SetAesIv iv k = do { b \<leftarrow> rdn iv 0 16; Some (k\<lparr>dk_aesIv := b\<rparr>) }"

text \<open>\<open>junk\<close> is the fresh memory of the key structure.\<close>

definition GetorCreateKeyStruct :: "csa_keys_t \<Rightarrow> 'c decsa_key \<Rightarrow> bool \<times> 'c decsa_key" where
  "GetorCreateKeyStruct junk k =
     (let k = (if dk_key k = None then k\<lparr>dk_key := Some (get_key_struct junk)\<rparr> else k) in (dk_key k \<noteq> None, k))"

text \<open>The FastECM calls of the class: nothing happens without a key.\<close>

definition on_fastecm :: "(FAST_ECM \<Rightarrow> FAST_ECM) \<Rightarrow> 'c decsa_key \<Rightarrow> 'c decsa_key" where
  "on_fastecm f k =
     (case dk_key k of None \<Rightarrow> k | Some keys \<Rightarrow> k\<lparr>dk_key := Some (keys\<lparr>fastecm := f (fastecm keys)\<rparr>)\<rparr>)"

definition key_SetFastECMCaidSid :: "int \<Rightarrow> int \<Rightarrow> 'c decsa_key \<Rightarrow> bool \<times> 'c decsa_key" where
  "key_SetFastECMCaidSid caid sid k = (dk_key k \<noteq> None, on_fastecm (setFastECMCaidSid caid sid) k)"

definition key_Set_FastECM_CW_Parity :: "int \<Rightarrow> int \<Rightarrow> bool \<Rightarrow> 'c decsa_key \<Rightarrow> int \<times> 'c decsa_key" where
  "key_Set_FastECM_CW_Parity pid parity bforce k =
     (case dk_key k of
        None \<Rightarrow> (1, k)
      | Some keys \<Rightarrow> (pr_ok (snd (set_FastECM_CW_Parity (fastecm keys) pid parity bforce)),
                      on_fastecm (\<lambda>fe. fst (set_FastECM_CW_Parity fe pid parity bforce)) k))"

definition key_SetFastECMPid :: "int \<Rightarrow> 'c decsa_key \<Rightarrow> 'c decsa_key" where
  "key_SetFastECMPid pid k = on_fastecm (setFastECMPid pid) k"

definition Get_FastECM_CAID :: "'c decsa_key \<Rightarrow> int" where
  "Get_FastECM_CAID k = (case dk_key k of None \<Rightarrow> 0 | Some keys \<Rightarrow> csaCaid (fastecm keys))"

definition Get_FastECM_SID :: "'c decsa_key \<Rightarrow> int" where
  "Get_FastECM_SID k = (case dk_key k of None \<Rightarrow> 0 | Some keys \<Rightarrow> csaSid (fastecm keys))"

definition Get_FastECM_PID :: "'c decsa_key \<Rightarrow> int" where
  "Get_FastECM_PID k = (case dk_key k of None \<Rightarrow> 0 | Some keys \<Rightarrow> csaPid (fastecm keys))"

definition GetActiveParity :: "int \<Rightarrow> 'c decsa_key \<Rightarrow> (int \<times> int) option" where
  "GetActiveParity pid k = map_option (\<lambda>keys. getActiveParity (fastecm keys) pid) (dk_key k)"

definition key_InitFastEcmOnCaid :: "int \<Rightarrow> 'c decsa_key \<Rightarrow> 'c decsa_key" where
  "key_InitFastEcmOnCaid Caid k =
     on_fastecm (\<lambda>sf. if Caid = csaCaid sf
        then sf\<lparr>oddparityTime := 0, evenparityTime := 0, nextparity := 0, activparity := [], activparity2 := []\<rparr>
        else sf) k"

definition SetActiveParity2 :: "int \<Rightarrow> int \<Rightarrow> 'c decsa_key \<Rightarrow> 'c decsa_key" where
  "SetActiveParity2 pid parity2 k = on_fastecm (\<lambda>fe. fe\<lparr>activparity2 := sm_put pid parity2 (activparity2 fe)\<rparr>) k"

definition Init_Parity2 :: "bool \<Rightarrow> 'c decsa_key \<Rightarrow> 'c decsa_key" where
  "Init_Parity2 binitcsa k = on_fastecm (Init_FastECM binitcsa) k"

definition Decrypt_packets ::
  "junk \<Rightarrow> bytes \<Rightarrow> (nat \<times> nat) list \<Rightarrow> 'c decsa_key \<Rightarrow> bytes \<times> (nat \<times> nat) list \<times> nat" where
  "Decrypt_packets J data cluster k =
     (case dk_key k of None \<Rightarrow> (data, cluster, 0) | Some keys \<Rightarrow> decrypt_packets keys J data cluster)"

definition Get_control_words :: "'c decsa_key \<Rightarrow> (bytes \<times> bytes) option" where
  "Get_control_words k = map_option get_control_words (dk_key k)"

text \<open>DES on one block; \<open>parity\<close> is the value of one bit, 0 or 1.\<close>

definition key_Des :: "bytes \<Rightarrow> nat \<Rightarrow> 'c decsa_key \<Rightarrow> bytes" where
  "key_Des data parity k = des data (dk_des k ! parity) False"

text \<open>The key has two DES schedules.\<close>

definition Des_set_key :: "bytes \<Rightarrow> nat \<Rightarrow> 'c decsa_key \<Rightarrow> 'c decsa_key option" where
  "Des_set_key cw parity k =
     do { w \<leftarrow> rdn cw 0 8;
          if parity < 2 then Some (k\<lparr>dk_des := (dk_des k)[parity := des_set_key w]\<rparr>) else None }"

definition Set_even_control_word :: "u64 \<Rightarrow> bytes \<Rightarrow> u8 \<Rightarrow> 'c decsa_key \<Rightarrow> bool \<times> 'c decsa_key" where
  "Set_even_control_word now cw ecm k =
     (case dk_key k of None \<Rightarrow> (False, k)
      | Some keys \<Rightarrow> (True, k\<lparr>dk_key := Some (set_even_control_word now cw ecm keys)\<rparr>))"

definition Set_odd_control_word :: "u64 \<Rightarrow> bytes \<Rightarrow> u8 \<Rightarrow> 'c decsa_key \<Rightarrow> bool \<times> 'c decsa_key" where
  "Set_odd_control_word now cw ecm k =
     (case dk_key k of None \<Rightarrow> (False, k)
      | Some keys \<Rightarrow> (True, k\<lparr>dk_key := Some (set_odd_control_word now cw ecm keys)\<rparr>))"

subsection \<open>Invariant\<close>

definition wf_decsa_key :: "'c decsa_key \<Rightarrow> bool" where
  "wf_decsa_key k \<longleftrightarrow> pred_option wf_keys (dk_key k) \<and> length (dk_aesIv k) = 16 \<and> length (dk_des k) = 2"

lemma wf_on_fastecm:
  "wf_decsa_key k \<Longrightarrow> (\<And>fe. wf_fastecm fe \<Longrightarrow> wf_fastecm (f fe)) \<Longrightarrow> wf_decsa_key (on_fastecm f k)"
  by (auto simp: wf_decsa_key_def on_fastecm_def wf_keys_def split: option.split)

lemma wf_fastecm_ops [wf_intros]:
  "wf_fastecm fe \<Longrightarrow> wf_fastecm (setFastECMCaidSid c s fe)" "wf_fastecm fe \<Longrightarrow> wf_fastecm (setFastECMPid p fe)"
  by (simp_all add: wf_fastecm_def setFastECMCaidSid_def setFastECMPid_def)

lemma wf_SetActiveParity2 [wf_intros]:
  "wf_decsa_key k \<Longrightarrow> 0 \<le> pid \<Longrightarrow> parity2 \<in> {0, 1, 2} \<Longrightarrow> wf_decsa_key (SetActiveParity2 pid parity2 k)"
  unfolding SetActiveParity2_def
  by (rule wf_on_fastecm) (auto simp: wf_fastecm_def intro: wf_parities_put)

lemma wf_key_settings [wf_intros]:
  assumes "wf_decsa_key k"
  shows "wf_decsa_key (key_SetAes a k)" "wf_decsa_key (key_SetAlgo g k)" "wf_decsa_key (key_SetCipherMode m k)"
    "wf_decsa_key (snd (GetorCreateAesKeyStruct evp k))"
    "cipher_bytes (cipher_of bits) \<le> length key \<Longrightarrow> returns (\<lambda>(ok, k). wf_decsa_key k) (SetAesKey evp p key bits k)"
    "16 \<le> length iv \<Longrightarrow> returns wf_decsa_key (SetAesIv iv k)"
    "8 \<le> length cw \<Longrightarrow> parity < 2 \<Longrightarrow> returns wf_decsa_key (Des_set_key cw parity k)"
    "wf_decsa_key (fst (snd (AesDecrypt evp p data k)))"
  using assms
  by (simp_all add: wf_decsa_key_def key_SetAes_def key_SetAlgo_def key_SetCipherMode_def GetorCreateAesKeyStruct_def
      SetAesKey_def SetAesIv_def Des_set_key_def AesDecrypt_def Let_def split_def rd_simps split: option.split)

lemma wf_get_key_struct [wf_intros]: "wf_keys (get_key_struct junk)"
  by (simp add: get_key_struct_def set_control_words_def Let_def wf_keys_def wf_schedule_key wf_Init_FastECM)

lemma wf_keys_fastecm [simp]: "wf_keys keys \<Longrightarrow> wf_fastecm (fastecm keys)"
  by (simp add: wf_keys_def)

lemma wf_key_structure [wf_intros]:
  assumes "wf_decsa_key k"
  shows "wf_decsa_key (snd (GetorCreateKeyStruct junk k))" "fst (GetorCreateKeyStruct junk k)"
    "8 \<le> length cw \<Longrightarrow> wf_decsa_key (snd (Set_even_control_word now cw ecm k))"
    "8 \<le> length cw \<Longrightarrow> wf_decsa_key (snd (Set_odd_control_word now cw ecm k))"
  using assms
  by (auto simp: wf_decsa_key_def GetorCreateKeyStruct_def Let_def Set_even_control_word_def Set_odd_control_word_def
      set_even_control_word_def set_odd_control_word_def split: option.split intro!: wf_intros)

lemma wf_key_fastecm [wf_intros]:
  assumes "wf_decsa_key k"
  shows "wf_decsa_key (snd (key_SetFastECMCaidSid c s k))" "wf_decsa_key (key_SetFastECMPid pid k)"
    "wf_decsa_key (key_InitFastEcmOnCaid c k)" "wf_decsa_key (Init_Parity2 b k)"
    "parity \<in> {0, 1, 2} \<Longrightarrow> wf_decsa_key (snd (key_Set_FastECM_CW_Parity pid parity f k))"
  using assms
  by (auto simp: key_SetFastECMCaidSid_def key_SetFastECMPid_def key_InitFastEcmOnCaid_def Init_Parity2_def
      key_Set_FastECM_CW_Parity_def wf_fastecm_def Init_FastECM_def Let_def split: option.split
      intro!: wf_on_fastecm wf_intros)

end
