(* ===== verification/DecsaPids.thy ===== *)
theory DecsaPids
  imports DecsaKey DemuxFilter
begin

text \<open>
  The descrambler as a whole (classes \<open>DeCSA\<close> and \<open>DeCSAAdapter\<close>, without \<open>Decrypt\<close>): 64 adapters, each
  with the map from pids to key indices, and 32 keys shared by them. The operations are those the socket
  thread and the CAM slot call. Every access to an element of one of the two arrays goes through \<open>key_at\<close> and
  \<open>upd_key\<close>, \<open>adapter_at\<close> and \<open>upd_adapter\<close>, or the walk of \<open>Init_Parity\<close>, and is \<open>None\<close> when there is no such element;
  so the result of an operation whose guard does not cover an index is \<open>None\<close>.
\<close>

subsection \<open>State\<close>

abbreviation (input) MAXADAPTER :: int where "MAXADAPTER \<equiv> 64"
abbreviation (input) MAX_CSA_IDX :: int where "MAX_CSA_IDX \<equiv> 32"

record decsa_adapter =
  AdapterPidMap :: "(int, u8) std_map"
  bCW_Waiting :: bool
  bAbort :: bool

record 'c decsa =
  DeCSAArray :: "decsa_adapter list"
  DeCSAKeyArray :: "'c decsa_key list"

definition new_decsa :: "(nat \<Rightarrow> u32 list list) \<Rightarrow> 'c decsa" where
  "new_decsa junk = \<lparr>DeCSAArray = replicate 64 \<lparr>AdapterPidMap = [], bCW_Waiting = False, bAbort = False\<rparr>,
     DeCSAKeyArray = map (\<lambda>i. new_decsa_key (junk i)) [0..<32]\<rparr>"

text \<open>The change of an element that is there.\<close>

definition with_key :: "nat \<Rightarrow> ('c decsa_key \<Rightarrow> 'c decsa_key) \<Rightarrow> 'c decsa \<Rightarrow> 'c decsa" where
  "with_key idx f d = d\<lparr>DeCSAKeyArray := (DeCSAKeyArray d)[idx := f (DeCSAKeyArray d ! idx)]\<rparr>"

definition with_adapter :: "nat \<Rightarrow> (decsa_adapter \<Rightarrow> decsa_adapter) \<Rightarrow> 'c decsa \<Rightarrow> 'c decsa" where
  "with_adapter a f d = d\<lparr>DeCSAArray := (DeCSAArray d)[a := f (DeCSAArray d ! a)]\<rparr>"

definition key_at :: "int \<Rightarrow> 'c decsa \<Rightarrow> 'c decsa_key option" where
  "key_at idx d = (if idx < 0 then None else rd (DeCSAKeyArray d) (nat idx))"

definition upd_key :: "int \<Rightarrow> ('c decsa_key \<Rightarrow> 'c decsa_key option) \<Rightarrow> 'c decsa \<Rightarrow> 'c decsa option" where
  "upd_key idx f d = do { k \<leftarrow> key_at idx d; k \<leftarrow> f k; Some (with_key (nat idx) (\<lambda>_. k) d) }"

definition adapter_at :: "int \<Rightarrow> 'c decsa \<Rightarrow> decsa_adapter option" where
  "adapter_at a d = (if a < 0 then None else rd (DeCSAArray d) (nat a))"

definition upd_adapter :: "int \<Rightarrow> (decsa_adapter \<Rightarrow> decsa_adapter) \<Rightarrow> 'c decsa \<Rightarrow> 'c decsa option" where
  "upd_adapter a f d = do { ad \<leftarrow> adapter_at a d; Some (with_adapter (nat a) (\<lambda>_. f ad) d) }"

subsection \<open>One adapter\<close>

text \<open>\<open>Init_Parity\<close> walks over the map and starts again after each erase. One walk ends with the pid to
  erase, if any.\<close>

fun init_parity_walk ::
  "int \<Rightarrow> int \<Rightarrow> bool \<Rightarrow> (int \<times> u8) list \<Rightarrow> 'c decsa_key list \<Rightarrow> ('c decsa_key list \<times> int option) option" where
  "init_parity_walk sid slot bdelete [] keys = Some (keys, None)"
| "init_parity_walk sid slot bdelete ((ipid, iidx) # es) keys =
     do { k \<leftarrow> rd keys (unat iidx);
          let keys1 = keys[unat iidx := Init_Parity2 True k];
          if sid \<ge> 0 \<and> Get_FastECM_SID k = sid then
            (if bdelete then Some (keys1, Some ipid) else init_parity_walk sid slot bdelete es keys1)
          else if slot \<ge> 0 \<and> slot = uint iidx then Some (keys1, Some ipid)
          else init_parity_walk sid slot bdelete es keys }"

lemma init_parity_walk_pid:
  "init_parity_walk sid slot bdelete es keys = Some (keys', Some pid) \<Longrightarrow> pid \<in> fst ` set es"
  by (induction sid slot bdelete es keys rule: init_parity_walk.induct)
    (auto simp: Let_def split: if_splits Option.bind_splits)

lemma length_sm_erase: "k \<in> fst ` set m \<Longrightarrow> length (sm_erase k m) < length m"
  by (induction k m rule: sm_erase.induct) auto

lemma init_parity_walk_erase:
  "init_parity_walk sid slot bdelete es keys = Some (keys', Some pid) \<Longrightarrow> length (sm_erase pid es) < length es"
  by (metis init_parity_walk_pid length_sm_erase)

function init_parity_loop ::
  "int \<Rightarrow> int \<Rightarrow> bool \<Rightarrow> (int, u8) std_map \<Rightarrow> 'c decsa_key list \<Rightarrow> ((int, u8) std_map \<times> 'c decsa_key list) option" where
  "init_parity_loop sid slot bdelete m keys =
     (case init_parity_walk sid slot bdelete m keys of
        None \<Rightarrow> None
      | Some (keys, None) \<Rightarrow> Some (m, keys)
      | Some (keys, Some ipid) \<Rightarrow> init_parity_loop sid slot bdelete (sm_erase ipid m) keys)"
  by pat_completeness auto

termination
  by (relation "measure (\<lambda>(sid, slot, bdelete, m, keys). length m)") (auto dest: init_parity_walk_erase)

declare init_parity_loop.simps [simp del]

definition SearchPIDinMAP :: "int \<Rightarrow> decsa_adapter \<Rightarrow> int" where
  "SearchPIDinMAP pid a = (case sm_find (AdapterPidMap a) pid of Some idx \<Rightarrow> uint idx | None \<Rightarrow> -1)"

definition adapter_SetCaPid :: "int \<Rightarrow> int \<Rightarrow> decsa_adapter \<Rightarrow> decsa_adapter" where
  "adapter_SetCaPid pid index a =
     (if index < 0 then a\<lparr>AdapterPidMap := sm_erase pid (AdapterPidMap a)\<rparr>
      else a\<lparr>AdapterPidMap := sm_put pid (word_of_int index) (AdapterPidMap a)\<rparr>)"

subsection \<open>Keys by index\<close>

definition GetKeyStruct :: "csa_keys_t \<Rightarrow> int \<Rightarrow> 'c decsa \<Rightarrow> (bool \<times> 'c decsa) option" where
  "GetKeyStruct junk idx d =
     (if idx \<ge> 0 \<and> idx < MAX_CSA_IDX
      then do { k \<leftarrow> key_at idx d;
                let (ok, k) = GetorCreateKeyStruct junk k;
                Some (ok, with_key (nat idx) (\<lambda>_. k) d) }
      else Some (False, d))"

definition GetKeyStructAes :: "'c evp \<Rightarrow> int \<Rightarrow> 'c decsa \<Rightarrow> (bool \<times> 'c decsa) option" where
  "GetKeyStructAes evp idx d =
     (if idx \<ge> 0 \<and> idx < MAX_CSA_IDX
      then do { k \<leftarrow> key_at idx d;
                let (ok, k) = GetorCreateAesKeyStruct evp k;
                Some (ok, with_key (nat idx) (\<lambda>_. k) d) }
      else Some (False, d))"

definition SetDescr :: "csa_keys_t \<Rightarrow> u64 \<Rightarrow> pidmap \<Rightarrow> u32 \<Rightarrow> u32 \<Rightarrow> bytes \<Rightarrow> u8 \<Rightarrow> 'c decsa \<Rightarrow> 'c decsa option" where
  "SetDescr junk now filters index parity cw adapter_index d =
     (let idx = sint index in
      if parity > 1 then Some d
      else
        do { (ok, d) \<leftarrow> (if idx < MAX_CSA_IDX then GetKeyStruct junk idx d else Some (False, d));
             if ok then
               do { d \<leftarrow> upd_key idx (Des_set_key cw (unat parity)) d;
                    let ecm = GetECM filters adapter_index index parity;
                    if parity = 0 then upd_key idx (\<lambda>k. Some (snd (Set_even_control_word now cw ecm k))) d
                    else upd_key idx (\<lambda>k. Some (snd (Set_odd_control_word now cw ecm k))) d }
             else Some d })"

definition SetDescrAes :: "'c evp \<Rightarrow> u32 \<Rightarrow> u32 \<Rightarrow> bytes \<Rightarrow> 'c decsa \<Rightarrow> 'c decsa option" where
  "SetDescrAes evp index parity cw d =
     (let idx = sint index in
      do { (ok, d) \<leftarrow> (if idx < MAX_CSA_IDX then GetKeyStructAes evp idx d else Some (False, d));
           if ok then upd_key idx (\<lambda>k. map_option snd (SetAesKey evp (parity \<noteq> 0) cw 128 k)) d else Some d })"

abbreviation (input) CA_DATA_IV :: u32 where "CA_DATA_IV \<equiv> 0"
abbreviation (input) CA_DATA_KEY :: u32 where "CA_DATA_KEY \<equiv> 1"

text \<open>The branch of the IV checks the index only from above.\<close>

definition SetData :: "'c evp \<Rightarrow> u32 \<Rightarrow> u32 \<Rightarrow> u32 \<Rightarrow> u32 \<Rightarrow> bytes \<Rightarrow> 'c decsa \<Rightarrow> 'c decsa option" where
  "SetData evp index parity data_type len data d =
     (let idx = sint index in
      if data_type = CA_DATA_IV then
        (if idx < MAX_CSA_IDX \<and> len = 16 then upd_key idx (SetAesIv data) d else Some d)
      else if data_type = CA_DATA_KEY then
        do { (ok, d) \<leftarrow> (if idx < MAX_CSA_IDX \<and> (len = 16 \<or> len = 24 \<or> len = 32)
                        then GetKeyStructAes evp idx d else Some (False, d));
             if ok then upd_key idx (\<lambda>k. map_option snd (SetAesKey evp (parity \<noteq> 0) data (8 * uint len) k)) d
             else Some d }
      else Some d)"

definition SetCaPid :: "u8 \<Rightarrow> u32 \<Rightarrow> int \<Rightarrow> 'c decsa \<Rightarrow> 'c decsa option" where
  "SetCaPid adapter_index pid index d =
     (if index < MAX_CSA_IDX \<and> pid < 0x1FFF then
        (if uint adapter_index < MAXADAPTER
         then upd_adapter (uint adapter_index) (adapter_SetCaPid (uint pid) index) d else Some d)
      else Some d)"

definition SetAlgo :: "u32 \<Rightarrow> u32 \<Rightarrow> 'c decsa \<Rightarrow> 'c decsa option" where
  "SetAlgo index usedAlgo d =
     (if index < 32 then upd_key (uint index) (\<lambda>k. Some (key_SetAlgo usedAlgo k)) d else Some d)"

definition SetAes :: "u32 \<Rightarrow> bool \<Rightarrow> 'c decsa \<Rightarrow> 'c decsa option" where
  "SetAes index usedAes d =
     (if index < 32 then upd_key (uint index) (\<lambda>k. Some (key_SetAes usedAes k)) d else Some d)"

definition SetCipherMode :: "u32 \<Rightarrow> u32 \<Rightarrow> 'c decsa \<Rightarrow> 'c decsa option" where
  "SetCipherMode index mode d =
     (if index < 32 then upd_key (uint index) (\<lambda>k. Some (key_SetCipherMode mode k)) d else Some d)"

text \<open>\<open>-1\<close> as a \<open>uint32_t\<close> for an index out of range.\<close>

definition GetAlgo :: "int \<Rightarrow> 'c decsa \<Rightarrow> u32 option" where
  "GetAlgo idx d = (if idx < 0 \<or> idx \<ge> MAX_CSA_IDX then Some (-1) else map_option dk_algo (key_at idx d))"

definition GetAes :: "int \<Rightarrow> 'c decsa \<Rightarrow> u32 option" where
  "GetAes idx d =
     (if idx < 0 \<or> idx \<ge> MAX_CSA_IDX then Some (-1)
      else map_option (\<lambda>k. if dk_Aes k then 1 else 0) (key_at idx d))"

subsection \<open>FastECM and the pid maps\<close>

text \<open>The CAID of a pid; \<open>have_capmt\<close> says that the object \<open>capmt\<close> exists.\<close>

definition GetCaid :: "bool \<Rightarrow> u8 \<Rightarrow> int \<Rightarrow> 'c decsa \<Rightarrow> int option" where
  "GetCaid have_capmt adapter_index pid d =
     (if uint adapter_index \<ge> MAXADAPTER then Some 0
      else
        do { a \<leftarrow> adapter_at (uint adapter_index) d;
             if have_capmt then
               (let idx = SearchPIDinMAP pid a in
                if idx \<ge> 0 \<and> pid < 0x1FFF then map_option Get_FastECM_CAID (key_at idx d) else Some 0)
             else Some 0 })"

text \<open>The adapter is not checked against the size of the array.\<close>

definition Init_Parity :: "int \<Rightarrow> int \<Rightarrow> int \<Rightarrow> bool \<Rightarrow> 'c decsa \<Rightarrow> 'c decsa option" where
  "Init_Parity cardindex sid slot bdelete d =
     (if cardindex < 0 then Some d
      else if sid < 0 \<and> slot < 0 then Some d
      else
        do { a \<leftarrow> adapter_at cardindex d;
             (m, keys) \<leftarrow> init_parity_loop sid slot bdelete (AdapterPidMap a) (DeCSAKeyArray d);
             upd_adapter cardindex (\<lambda>a. a\<lparr>AdapterPidMap := m\<rparr>) (d\<lparr>DeCSAKeyArray := keys\<rparr>) })"

definition DeCSA_SetFastECMPid :: "csa_keys_t \<Rightarrow> int \<Rightarrow> int \<Rightarrow> 'c decsa \<Rightarrow> 'c decsa option" where
  "DeCSA_SetFastECMPid junk idx dvbapiPID d =
     do { (ok, d) \<leftarrow> (if idx \<ge> 0 then GetKeyStruct junk idx d else Some (False, d));
          if ok then upd_key idx (\<lambda>k. Some (key_SetFastECMPid dvbapiPID k)) d else Some d }"

text \<open>The adapter's part: the first entry of the map with index \<open>slot\<close> gives \<open>slot\<close>, and so does its
  absence.\<close>

definition adapter_SetDVBAPIPid :: "csa_keys_t \<Rightarrow> decsa_adapter \<Rightarrow> int \<Rightarrow> int \<Rightarrow> 'c decsa \<Rightarrow> 'c decsa option" where
  "adapter_SetDVBAPIPid junk a slot dvbapiPID d =
     (if dvbapiPID \<ge> 0 \<and> slot \<ge> 0 \<and> slot < MAX_CSA_IDX then
        (let idxOK = (case find (\<lambda>(ipid, iidx). uint iidx = slot) (AdapterPidMap a) of
                        Some (ipid, iidx) \<Rightarrow> uint iidx | None \<Rightarrow> -1);
             idxOK = (if idxOK < 0 then slot else idxOK)
         in DeCSA_SetFastECMPid junk idxOK dvbapiPID d)
      else Some d)"

text \<open>Again without a check of the adapter from above.\<close>

definition SetDVBAPIPid :: "csa_keys_t \<Rightarrow> int \<Rightarrow> int \<Rightarrow> int \<Rightarrow> 'c decsa \<Rightarrow> 'c decsa option" where
  "SetDVBAPIPid junk adapter slot dvbapiPID d =
     (if adapter \<ge> 0 \<and> dvbapiPID \<ge> 0 \<and> slot \<ge> 0 \<and> slot < MAX_CSA_IDX
      then do { a \<leftarrow> adapter_at adapter d; adapter_SetDVBAPIPid junk a slot dvbapiPID d }
      else Some d)"

definition InitFastEcmOnCaid :: "int \<Rightarrow> 'c decsa \<Rightarrow> 'c decsa" where
  "InitFastEcmOnCaid Caid d = d\<lparr>DeCSAKeyArray := map (key_InitFastEcmOnCaid Caid) (DeCSAKeyArray d)\<rparr>"

text \<open>\<open>CancelWait\<close> and \<open>StopDecrypt\<close> once the waiting thread has left; the handshake between the threads
  is in theory \<open>WaitProtocol\<close>.\<close>

definition adapter_CancelWait :: "decsa_adapter \<Rightarrow> decsa_adapter" where
  "adapter_CancelWait a = (if bCW_Waiting a then a\<lparr>bAbort := False\<rparr> else a)"

definition CancelWait :: "'c decsa \<Rightarrow> 'c decsa" where
  "CancelWait d = d\<lparr>DeCSAArray := map adapter_CancelWait (DeCSAArray d)\<rparr>"

fun ecm_pid_slot :: "int \<Rightarrow> (int \<times> u8) list \<Rightarrow> 'c decsa \<Rightarrow> int option" where
  "ecm_pid_slot pid [] d = Some (-1)"
| "ecm_pid_slot pid ((ipid, iidx) # es) d =
     do { k \<leftarrow> key_at (uint iidx) d;
          let caPid = Get_FastECM_PID k;
          if caPid \<ge> 0 \<and> caPid = pid then Some (uint iidx) else ecm_pid_slot pid es d }"

definition StopDecrypt :: "int \<Rightarrow> int \<Rightarrow> int \<Rightarrow> 'c decsa \<Rightarrow> 'c decsa option" where
  "StopDecrypt adapter_index fnum pid d =
     (if adapter_index < 0 \<or> adapter_index \<ge> MAXADAPTER then Some d
      else
        do { d \<leftarrow> upd_adapter adapter_index adapter_CancelWait d;
             if fnum = 1 then
               do { a \<leftarrow> adapter_at adapter_index d;
                    slot \<leftarrow> ecm_pid_slot pid (AdapterPidMap a) d;
                    Init_Parity adapter_index (-1) slot False d }
             else Some d })"

subsection \<open>Invariant\<close>

definition wf_pid_map :: "(int, u8) std_map \<Rightarrow> bool" where
  "wf_pid_map m \<longleftrightarrow> sm_ok m \<and> (\<forall>(pid, idx) \<in> set m. 0 \<le> pid \<and> pid < 0x1FFF \<and> unat idx < 32)"

definition wf_decsa :: "'c decsa \<Rightarrow> bool" where
  "wf_decsa d \<longleftrightarrow> length (DeCSAArray d) = 64 \<and> length (DeCSAKeyArray d) = 32 \<and>
     list_all (\<lambda>a. wf_pid_map (AdapterPidMap a)) (DeCSAArray d) \<and> list_all wf_decsa_key (DeCSAKeyArray d)"

lemma list_all_update_at:
  assumes "list_all P xs" "\<And>x. P x \<Longrightarrow> P (f x)"
  shows "list_all P (xs[i := f (xs ! i)])"
proof (cases "i < length xs")
  case True
  then have "P (xs ! i)" using assms(1) by (simp add: list_all_length)
  then show ?thesis using assms True by (auto simp: list_all_length nth_list_update)
qed (use assms(1) in \<open>simp add: list_update_beyond\<close>)

lemma with_key_keys [simp]:
  "length (DeCSAKeyArray (with_key i f d)) = length (DeCSAKeyArray d)" "DeCSAArray (with_key i f d) = DeCSAArray d"
  "j < length (DeCSAKeyArray d) \<Longrightarrow>
     DeCSAKeyArray (with_key i f d) ! j = (if j = i then f (DeCSAKeyArray d ! i) else DeCSAKeyArray d ! j)"
  by (simp_all add: with_key_def)

lemma with_adapter_arrays [simp]:
  "length (DeCSAArray (with_adapter i g d)) = length (DeCSAArray d)" "DeCSAKeyArray (with_adapter i g d) = DeCSAKeyArray d"
  "j < length (DeCSAArray d) \<Longrightarrow>
     DeCSAArray (with_adapter i g d) ! j = (if j = i then g (DeCSAArray d ! i) else DeCSAArray d ! j)"
  by (simp_all add: with_adapter_def)

lemma wf_with_key [wf_intros]:
  "wf_decsa d \<Longrightarrow> (\<And>k. wf_decsa_key k \<Longrightarrow> wf_decsa_key (f k)) \<Longrightarrow> wf_decsa (with_key i f d)"
  by (simp add: wf_decsa_def with_key_def list_all_update_at)

lemma wf_with_adapter [wf_intros]:
  "wf_decsa d \<Longrightarrow> (\<And>a. wf_pid_map (AdapterPidMap a) \<Longrightarrow> wf_pid_map (AdapterPidMap (f a))) \<Longrightarrow> wf_decsa (with_adapter i f d)"
  unfolding wf_decsa_def with_adapter_def by (simp add: list_all_update_at [where P = "\<lambda>a. wf_pid_map (AdapterPidMap a)"])

lemma wf_decsa_key_at: "wf_decsa d \<Longrightarrow> i < 32 \<Longrightarrow> wf_decsa_key (DeCSAKeyArray d ! i)"
  by (simp add: wf_decsa_def list_all_length)

lemma wf_decsa_map_at: "wf_decsa d \<Longrightarrow> i < 64 \<Longrightarrow> wf_pid_map (AdapterPidMap (DeCSAArray d ! i))"
  by (simp add: wf_decsa_def list_all_length)

lemma wf_pid_map_erase: "wf_pid_map m \<Longrightarrow> wf_pid_map (sm_erase pid m)"
  using set_sm_erase_subset [of pid m] by (fastforce simp: wf_pid_map_def intro: wf_intros)

lemma wf_pid_map_put: "wf_pid_map m \<Longrightarrow> 0 \<le> pid \<Longrightarrow> pid < 0x1FFF \<Longrightarrow> unat idx < 32 \<Longrightarrow> wf_pid_map (sm_put pid idx m)"
  using set_sm_put_subset [of pid idx m] by (fastforce simp: wf_pid_map_def intro: wf_intros)

lemma key_at_Some [simp]: "wf_decsa d \<Longrightarrow> 0 \<le> idx \<Longrightarrow> idx < 32 \<Longrightarrow> key_at idx d = Some (DeCSAKeyArray d ! nat idx)"
  by (simp add: key_at_def wf_decsa_def rd_def nat_less_iff)

lemma adapter_at_Some [simp]: "wf_decsa d \<Longrightarrow> 0 \<le> a \<Longrightarrow> a < 64 \<Longrightarrow> adapter_at a d = Some (DeCSAArray d ! nat a)"
  by (simp add: adapter_at_def wf_decsa_def rd_def nat_less_iff)

lemma adapter_at_None: "wf_decsa d \<Longrightarrow> adapter_at a d = None \<longleftrightarrow> a < 0 \<or> 64 \<le> a"
  by (auto simp: adapter_at_def wf_decsa_def rd_def)

lemma key_at_None: "wf_decsa d \<Longrightarrow> key_at idx d = None \<longleftrightarrow> idx < 0 \<or> 32 \<le> idx"
  by (auto simp: key_at_def wf_decsa_def rd_def)

lemma with_key_at: "with_key i (\<lambda>_. f (DeCSAKeyArray d ! i)) d = with_key i f d"
  by (simp add: with_key_def)

lemma with_adapter_at: "with_adapter i (\<lambda>_. f (DeCSAArray d ! i)) d = with_adapter i f d"
  by (simp add: with_adapter_def)

lemma upd_key_Some:
  "key_at idx d = Some (DeCSAKeyArray d ! nat idx) \<Longrightarrow> upd_key idx (\<lambda>k. Some (f k)) d = Some (with_key (nat idx) f d)"
  by (simp add: upd_key_def with_key_at)

lemma upd_adapter_Some: "wf_decsa d \<Longrightarrow> 0 \<le> a \<Longrightarrow> a < 64 \<Longrightarrow> upd_adapter a f d = Some (with_adapter (nat a) f d)"
  by (simp add: upd_adapter_def with_adapter_at)

lemma returns_upd_key [wf_intros]:
  assumes "wf_decsa d" "0 \<le> idx" "idx < 32" "\<And>k. wf_decsa_key k \<Longrightarrow> returns wf_decsa_key (f k)"
  shows "returns wf_decsa (upd_key idx f d)"
proof -
  have "wf_decsa_key (DeCSAKeyArray d ! nat idx)" using assms(1-3) by (simp add: wf_decsa_key_at nat_less_iff)
  from assms(4) [OF this] show ?thesis
    using assms(1-3) by (auto simp: upd_key_def elim!: returnsE intro: wf_with_key)
qed

lemma returns_upd_adapter [wf_intros]:
  "wf_decsa d \<Longrightarrow> 0 \<le> a \<Longrightarrow> a < 64 \<Longrightarrow> (\<And>ad. wf_pid_map (AdapterPidMap ad) \<Longrightarrow> wf_pid_map (AdapterPidMap (f ad))) \<Longrightarrow>
     returns wf_decsa (upd_adapter a f d)"
  by (simp add: upd_adapter_Some wf_with_adapter)

lemma returns_walk:
  "list_all wf_decsa_key keys \<Longrightarrow> \<forall>(pid, i) \<in> set es. unat i < length keys \<Longrightarrow>
     returns (\<lambda>(keys', p). list_all wf_decsa_key keys' \<and> length keys' = length keys) (init_parity_walk sid slot bdelete es keys)"
proof (induction sid slot bdelete es keys rule: init_parity_walk.induct)
  case (2 sid slot bdelete ipid iidx es keys)
  have i: "rd keys (unat iidx) = Some (keys ! unat iidx)" using 2(4) by (simp add: rd_simps)
  have k: "list_all wf_decsa_key (keys[unat iidx := Init_Parity2 True (keys ! unat iidx)])"
    using 2(3) by (rule list_all_update_at) (rule wf_intros)
  show ?case
    unfolding init_parity_walk.simps i bind.simps Let_def
    using k 2(3,4) 2(1) [OF i refl] 2(2) [OF i refl] by (intro returns_if) (simp_all add: split_def)
qed simp

lemma returns_loop:
  "list_all wf_decsa_key keys \<Longrightarrow> length keys = 32 \<Longrightarrow> wf_pid_map m \<Longrightarrow>
     returns (\<lambda>(m', keys'). list_all wf_decsa_key keys' \<and> length keys' = 32 \<and> wf_pid_map m')
       (init_parity_loop sid slot bdelete m keys)"
proof (induction sid slot bdelete m keys rule: init_parity_loop.induct)
  case (1 sid slot bdelete m keys)
  have "\<forall>(pid, i) \<in> set m. unat i < length keys" using 1(3,4) by (auto simp: wf_pid_map_def)
  from returns_walk [OF 1(2) this, of sid slot bdelete] obtain keys' p where
    w: "init_parity_walk sid slot bdelete m keys = Some (keys', p)" "list_all wf_decsa_key keys'" "length keys' = 32"
    using 1(3) by (auto elim!: returnsE)
  show ?case
  proof (cases p)
    case None
    then show ?thesis using w 1(4) by (subst init_parity_loop.simps) simp
  next
    case (Some ipid)
    then show ?thesis
      using "1.IH" [OF w(1) refl Some w(2,3) wf_pid_map_erase [OF 1(4)]] w by (subst init_parity_loop.simps) simp
  qed
qed

lemma returns_GetKeyStruct: "wf_decsa d \<Longrightarrow> returns (\<lambda>(ok, d). wf_decsa d) (GetKeyStruct junk idx d)"
  by (auto simp: GetKeyStruct_def split_def Let_def intro!: wf_with_key wf_intros wf_decsa_key_at)

lemma returns_GetKeyStructAes: "wf_decsa d \<Longrightarrow> returns (\<lambda>(ok, d). wf_decsa d) (GetKeyStructAes evp idx d)"
  by (auto simp: GetKeyStructAes_def split_def Let_def intro!: wf_with_key wf_intros wf_decsa_key_at)

lemma GetKeyStruct_ok: "GetKeyStruct junk idx d = Some (True, d') \<Longrightarrow> 0 \<le> idx \<and> idx < 32"
  by (auto simp: GetKeyStruct_def split: if_splits)

lemma GetKeyStructAes_ok: "GetKeyStructAes evp idx d = Some (True, d') \<Longrightarrow> 0 \<le> idx \<and> idx < 32"
  by (auto simp: GetKeyStructAes_def split: if_splits)

text \<open>A key structure is used only when it has been found, with an index in range.\<close>

lemma returns_with_struct:
  assumes "wf_decsa d" "\<And>d. wf_decsa d \<Longrightarrow> 0 \<le> idx \<Longrightarrow> idx < 32 \<Longrightarrow> returns wf_decsa (f d)"
  shows "returns wf_decsa (do { (ok, d) \<leftarrow> (if c then GetKeyStruct junk idx d else Some (False, d)); if ok then f d else Some d })"
    "returns wf_decsa (do { (ok, d) \<leftarrow> (if c then GetKeyStructAes evp idx d else Some (False, d)); if ok then f d else Some d })"
proof -
  obtain ok d1 where g: "GetKeyStruct junk idx d = Some (ok, d1)" "wf_decsa d1"
    using returns_GetKeyStruct [OF assms(1), of junk idx] by (auto elim!: returnsE)
  then have "ok \<Longrightarrow> returns wf_decsa (f d1)" using GetKeyStruct_ok [of junk idx d d1] assms(2) by auto
  then show "returns wf_decsa (do { (ok, d) \<leftarrow> (if c then GetKeyStruct junk idx d else Some (False, d)); if ok then f d else Some d })"
    using g assms(1) by simp
  obtain ok d2 where g: "GetKeyStructAes evp idx d = Some (ok, d2)" "wf_decsa d2"
    using returns_GetKeyStructAes [OF assms(1), of evp idx] by (auto elim!: returnsE)
  then have "ok \<Longrightarrow> returns wf_decsa (f d2)" using GetKeyStructAes_ok [of evp idx d d2] assms(2) by auto
  then show "returns wf_decsa (do { (ok, d) \<leftarrow> (if c then GetKeyStructAes evp idx d else Some (False, d)); if ok then f d else Some d })"
    using g assms(1) by simp
qed

lemma returns_SetDescr [wf_intros]:
  "wf_decsa d \<Longrightarrow> 8 \<le> length cw \<Longrightarrow> returns wf_decsa (SetDescr junk now fm index parity cw a d)"
proof -
  assume d: "wf_decsa d" and cw: "8 \<le> length cw"
  have p: "\<not> parity > 1 \<Longrightarrow> unat parity < 2" by (simp add: word_less_nat_alt)
  show ?thesis
    unfolding SetDescr_def Let_def
    by (intro returns_if returns_with_struct returns_bind [OF returns_upd_key] returns_upd_key wf_key_settings(7) cw p)
      (simp_all add: d cw wf_intros)
qed

lemma returns_SetAesKey: "wf_decsa_key k \<Longrightarrow> cipher_bytes (cipher_of bits) \<le> length key \<Longrightarrow>
    returns wf_decsa_key (map_option snd (SetAesKey evp p key bits k))"
  using wf_key_settings(5) [of k bits key evp p] by (auto elim!: returnsE)

lemma returns_SetDescrAes [wf_intros]:
  "wf_decsa d \<Longrightarrow> 16 \<le> length cw \<Longrightarrow> returns wf_decsa (SetDescrAes evp index parity cw d)"
  unfolding SetDescrAes_def Let_def
  by (intro returns_with_struct returns_upd_key returns_SetAesKey) (simp_all add: cipher_of_def cipher_bytes_def)

lemma returns_SetData:
  assumes d: "wf_decsa d" and l: "length data = unat len" and i: "\<not> (dt = CA_DATA_IV \<and> len = 16 \<and> sint index < 0)"
  shows "returns wf_decsa (SetData evp index parity dt len data d)"
proof -
  have k: "cipher_bytes (cipher_of (8 * uint len)) \<le> length data" if "len = 16 \<or> len = 24 \<or> len = 32"
    using that l by (auto simp: cipher_of_def cipher_bytes_def)
  have iv: "returns wf_decsa (upd_key (sint index) (SetAesIv data) d)"
    if "dt = CA_DATA_IV" "sint index < 32 \<and> len = 16"
    using that i l by (intro returns_upd_key d wf_key_settings(6)) auto
  have key: "returns wf_decsa (do { (ok, d) \<leftarrow> (if sint index < MAX_CSA_IDX \<and> (len = 16 \<or> len = 24 \<or> len = 32)
                        then GetKeyStructAes evp (sint index) d else Some (False, d));
             if ok then upd_key (sint index) (\<lambda>k. map_option snd (SetAesKey evp (parity \<noteq> 0) data (8 * uint len) k)) d
             else Some d })"
  proof (cases "len = 16 \<or> len = 24 \<or> len = 32")
    case True
    show ?thesis by (intro returns_with_struct d returns_upd_key returns_SetAesKey k [OF True])
  qed (use d in simp)
  show ?thesis
    unfolding SetData_def Let_def by (intro returns_if iv key) (simp_all add: d)
qed

lemma returns_SetCaPid [wf_intros]: "wf_decsa d \<Longrightarrow> returns wf_decsa (SetCaPid a pid index d)"
proof -
  assume d: "wf_decsa d"
  have "wf_pid_map (AdapterPidMap (adapter_SetCaPid (uint pid) index ad))"
    if "wf_pid_map (AdapterPidMap ad)" "index < 32" "pid < 0x1FFF" for ad
  proof (cases "index < 0")
    case True
    then show ?thesis using that(1) by (simp add: adapter_SetCaPid_def wf_pid_map_erase)
  next
    case False
    have "uint pid < 0x1FFF" using that(3) by (simp add: word_less_def)
    moreover have "unat (word_of_int index :: u8) < 32"
      using False that(2) uint_u8_of [of index] by (simp add: unat_eq_nat_uint)
    ultimately show ?thesis using that(1) False by (simp add: adapter_SetCaPid_def wf_pid_map_put)
  qed
  then show ?thesis
    unfolding SetCaPid_def using d by (intro returns_if returns_upd_adapter) simp_all
qed

lemma returns_set_mode [wf_intros]:
  assumes "wf_decsa d"
  shows "returns wf_decsa (SetAlgo index g d)" "returns wf_decsa (SetAes index u d)" "returns wf_decsa (SetCipherMode index m d)"
    "wf_decsa (CancelWait d)" "wf_decsa (InitFastEcmOnCaid c d)"
proof -
  have i: "index < 32 \<Longrightarrow> uint index < 32" by (simp add: word_less_def)
  show "returns wf_decsa (SetAlgo index g d)" "returns wf_decsa (SetAes index u d)" "returns wf_decsa (SetCipherMode index m d)"
    unfolding SetAlgo_def SetAes_def SetCipherMode_def using assms i
    by (intro returns_if returns_upd_key; simp add: wf_intros)+
  show "wf_decsa (CancelWait d)" "wf_decsa (InitFastEcmOnCaid c d)"
    using assms
     apply (auto simp: CancelWait_def adapter_CancelWait_def wf_decsa_def list_all_length)[1]
    using assms
    apply (auto simp: InitFastEcmOnCaid_def wf_decsa_def list_all_length intro: wf_key_fastecm)
    done
qed

lemma GetAlgo_eq: "wf_decsa d \<Longrightarrow> GetAlgo idx d = Some (if idx < 0 \<or> idx \<ge> 32 then -1 else dk_algo (DeCSAKeyArray d ! nat idx))"
  and GetAes_eq: "wf_decsa d \<Longrightarrow> GetAes idx d = Some (if idx < 0 \<or> idx \<ge> 32 then -1
     else if dk_Aes (DeCSAKeyArray d ! nat idx) then 1 else 0)"
  by (simp_all add: GetAlgo_def GetAes_def)

lemma returns_Init_Parity:
  assumes d: "wf_decsa d" and a: "\<not> (64 \<le> a \<and> (0 \<le> sid \<or> 0 \<le> slot))"
  shows "returns wf_decsa (Init_Parity a sid slot b d)"
proof (cases "a < 0 \<or> sid < 0 \<and> slot < 0")
  case True
  then show ?thesis using d by (auto simp: Init_Parity_def)
next
  case False
  then have r: "0 \<le> a" "a < 64" using a by auto
  then have na: "nat a < 64" by simp
  obtain m keys where l: "init_parity_loop sid slot b (AdapterPidMap (DeCSAArray d ! nat a)) (DeCSAKeyArray d) = Some (m, keys)"
    "list_all wf_decsa_key keys" "length keys = 32" "wf_pid_map m"
    using returns_loop [OF _ _ wf_decsa_map_at [OF d na], of "DeCSAKeyArray d" sid slot b] d
    by (auto simp: wf_decsa_def elim!: returnsE)
  have "wf_decsa (d\<lparr>DeCSAKeyArray := keys\<rparr>)" using d l by (simp add: wf_decsa_def)
  then have "returns wf_decsa (upd_adapter a (\<lambda>ad. ad\<lparr>AdapterPidMap := m\<rparr>) (d\<lparr>DeCSAKeyArray := keys\<rparr>))"
    using r l by (intro returns_upd_adapter) simp_all
  moreover have "\<not> a < 0" "\<not> (sid < 0 \<and> slot < 0)" using False by simp_all
  ultimately show ?thesis using d r unfolding Init_Parity_def by (simp only: if_False adapter_at_Some bind.simps l prod.case)
qed

lemma Init_Parity_None:
  "wf_decsa d \<Longrightarrow> Init_Parity a sid slot b d = None \<longleftrightarrow> 64 \<le> a \<and> (0 \<le> sid \<or> 0 \<le> slot)"
proof (cases "64 \<le> a \<and> (0 \<le> sid \<or> 0 \<le> slot)")
  case True
  moreover assume "wf_decsa d"
  then have "64 \<le> a \<Longrightarrow> adapter_at a d = None" by (simp add: adapter_at_None)
  ultimately show ?thesis by (auto simp: Init_Parity_def)
qed (use returns_Init_Parity [of d a sid slot b] in \<open>auto elim!: returnsE\<close>)

lemma SetData_None:
  "wf_decsa d \<Longrightarrow> length data = unat len \<Longrightarrow> SetData evp index parity ty len data d = None \<longleftrightarrow>
     ty = CA_DATA_IV \<and> len = 16 \<and> sint index < 0"
proof (cases "ty = CA_DATA_IV \<and> len = 16 \<and> sint index < 0")
  case True
  then show ?thesis by (simp add: SetData_def upd_key_def key_at_def)
qed (use returns_SetData [of d data len ty index evp parity] in \<open>auto elim!: returnsE\<close>)

lemma returns_SetDVBAPIPid:
  assumes d: "wf_decsa d" and a: "\<not> (64 \<le> adapter \<and> 0 \<le> pid \<and> 0 \<le> slot \<and> slot < 32)"
  shows "returns wf_decsa (SetDVBAPIPid junk adapter slot pid d)"
proof -
  have f: "returns wf_decsa (DeCSA_SetFastECMPid junk idx pid d)" for idx
    unfolding DeCSA_SetFastECMPid_def by (intro returns_with_struct d returns_upd_key) (simp_all add: wf_intros)
  show ?thesis
    using d a by (auto simp: SetDVBAPIPid_def adapter_SetDVBAPIPid_def Let_def f)
qed

lemma SetDVBAPIPid_None:
  "wf_decsa d \<Longrightarrow> SetDVBAPIPid junk adapter slot pid d = None \<longleftrightarrow> 64 \<le> adapter \<and> 0 \<le> pid \<and> 0 \<le> slot \<and> slot < 32"
proof (cases "64 \<le> adapter \<and> 0 \<le> pid \<and> 0 \<le> slot \<and> slot < 32")
  case True
  moreover assume "wf_decsa d"
  then have "64 \<le> adapter \<Longrightarrow> adapter_at adapter d = None" by (simp add: adapter_at_None)
  ultimately show ?thesis by (simp add: SetDVBAPIPid_def)
qed (use returns_SetDVBAPIPid [of d adapter pid slot junk] in \<open>auto elim!: returnsE\<close>)

lemma ecm_pid_slot_Some: "wf_decsa d \<Longrightarrow> \<forall>(pid, i) \<in> set es. unat i < 32 \<Longrightarrow> returns (\<lambda>_. True) (ecm_pid_slot pid es d)"
proof (induction pid es d rule: ecm_pid_slot.induct)
  case (2 pid ipid iidx es d)
  have "unat iidx < 32" using 2(3) by simp
  moreover have "uint iidx = int (unat iidx)" by simp
  ultimately have i: "uint iidx < 32" by linarith
  show ?case using 2 i by (auto simp: Let_def)
qed simp

lemma returns_StopDecrypt: "wf_decsa d \<Longrightarrow> returns wf_decsa (StopDecrypt a fnum pid d)"
proof (cases "a < 0 \<or> a \<ge> 64")
  case False
  assume d: "wf_decsa d"
  let ?d = "with_adapter (nat a) adapter_CancelWait d"
  have w: "wf_decsa ?d" using d by (rule wf_with_adapter) (simp add: adapter_CancelWait_def)
  have "wf_pid_map (AdapterPidMap (DeCSAArray ?d ! nat a))" using w False by (intro wf_decsa_map_at) auto
  then obtain slot where "ecm_pid_slot pid (AdapterPidMap (DeCSAArray ?d ! nat a)) ?d = Some slot"
    using ecm_pid_slot_Some [OF w, of "AdapterPidMap (DeCSAArray ?d ! nat a)" pid] by (auto simp: wf_pid_map_def elim!: returnsE)
  then show ?thesis
    using False d w returns_Init_Parity [OF w, of a "-1" slot False] by (simp add: StopDecrypt_def upd_adapter_Some)
qed (simp add: StopDecrypt_def)

end
