(* ===== verification/DecsaDecrypt.thy ===== *)
theory DecsaDecrypt
  imports DecsaPids Capmt
begin

text \<open>
  \<open>DeCSAAdapter::Decrypt\<close> (DeCSA.cpp): the search for packets of one key index in the buffer of the
  receiver, DES and AES packets on the spot, CSA packets as ranges for \<open>decrypt_packets\<close>; then the FastECM
  wait for a control word, and the call. The mutex of the adapter is held throughout, except while the
  thread sleeps in the wait loop: what the other threads do to the descrambler during the sleep of a round
  and whether the timer has run out by then are an argument, \<open>wait_env\<close>.

  \<open>None\<close> is a packet that does not lie in the buffer, or a key index outside the array of keys. From the check of the key index
  on (\<open>GetKeyStruct\<close> and the access to the key after it), the FastECM part works on that one element of the
  array and on the adapter it is a method of. The cluster size is that of the 32-bit mode of FFdecsa.
\<close>

subsection \<open>One packet\<close>

definition IsFastECMCAID :: "int \<Rightarrow> bool" where
  "IsFastECMCAID caCaid \<longleftrightarrow> caCaid = 0x09C4 \<or> caCaid = 0x098C \<or> caCaid = 0x098D \<or> caCaid = 0x09AF \<or>
     caCaid = 0x09CD \<or> caCaid = 0x0963"

definition ts_packet_get_payload_offset :: "bytes \<Rightarrow> u8" where
  "ts_packet_get_payload_offset p =
     (if p ! 0 \<noteq> TS_SYNC_BYTE then 0
      else
        (let adapt_field = drop_bit 5 (p ! 3 AND 0x20); payload_field = drop_bit 4 (p ! 3 AND 0x10) in
         if adapt_field = 0 \<and> payload_field = 0 then 0
         else if adapt_field \<noteq> 0 then
           (let adapt_len = p ! 4 in
            if payload_field \<noteq> 0 \<and> adapt_len > 182 then 0
            else if payload_field = 0 \<and> adapt_len > 183 then 0
            else if uint adapt_len + 4 > 188 then 0
            else 4 + 1 + adapt_len)
         else 4))"

definition packet_pid :: "bytes \<Rightarrow> int" where
  "packet_pid p = (push_bit 8 (uint (p ! 1)) + uint (p ! 2)) AND 0x1FFF"

record 'c dscan =
  ds_data :: bytes
  ds_decsa :: "'c decsa"
  ds_currIdx :: int
  ds_curPid :: int
  ds_wantsparity :: int
  ds_ranges :: "(nat \<times> nat) list"
  ds_newRange :: bool
  ds_ccs :: nat

text \<open>The DES loop on the payload of the packet at \<open>l\<close>.\<close>

definition des_payload :: "'c decsa_key \<Rightarrow> nat \<Rightarrow> nat \<Rightarrow> nat \<Rightarrow> bytes \<Rightarrow> bytes" where
  "des_payload k parity l offset data =
     fold (\<lambda>i data. put (l + offset + 8 * i) (key_Des (take 8 (drop (l + offset + 8 * i) data)) parity k) data)
       [0..<(TS_SIZE - offset) div 8] data"

definition clear_scrambling :: "nat \<Rightarrow> bytes \<Rightarrow> bytes" where
  "clear_scrambling l data = data[l + 3 := data ! (l + 3) AND 0x3f]"

text \<open>A CSA packet extends the last range or begins one.\<close>

definition add_range :: "nat \<Rightarrow> bool \<Rightarrow> (nat \<times> nat) list \<Rightarrow> (nat \<times> nat) list" where
  "add_range l newRange ranges =
     (if newRange then ranges @ [(l, l + TS_SIZE)] else butlast ranges @ [(fst (last ranges), l + TS_SIZE)])"

datatype 's flow = Return | Break 's | Continue 's

text \<open>The body of the loop for a packet of the key index in hand.\<close>

definition decrypt_mapped :: "'c evp \<Rightarrow> nat \<Rightarrow> nat \<Rightarrow> 'c dscan \<Rightarrow> 'c dscan flow option" where
  "decrypt_mapped evp l offset s =
     (let data = ds_data s; d = ds_decsa s; idx = ds_currIdx s; ev_od = data ! (l + 3) AND 0xC0;
          parity = unat (drop_bit 6 (ev_od AND 0x40))
      in
      do { algo \<leftarrow> GetAlgo idx d;
           aes \<leftarrow> GetAes idx d;
           if algo = CA_ALGO_DES then
             do { k \<leftarrow> key_at idx d;
                  Some (Continue (s\<lparr>ds_data := clear_scrambling l (des_payload k parity l offset data)\<rparr>)) }
           else if algo = CA_ALGO_AES128 \<or> aes \<noteq> 0 then
             do { k \<leftarrow> key_at idx d;
                  let n = (TS_SIZE - offset) div 16 * 16;
                  let (ok, k, out) = AesDecrypt evp (parity = 1) (take n (drop (l + offset) data)) k;
                  let s = s\<lparr>ds_decsa := with_key (nat idx) (\<lambda>_. k) d, ds_data := put (l + offset) out data\<rparr>;
                  Some (Continue (if ok then s\<lparr>ds_data := clear_scrambling l (ds_data s)\<rparr> else s)) }
           else
             (let s = s\<lparr>ds_ranges := add_range l (ds_newRange s) (ds_ranges s), ds_newRange := False, ds_ccs := ds_ccs s + 1\<rparr>
              in Some (if ds_ccs s \<ge> get_suggested_cluster_size then Break s else Continue s)) })"

text \<open>The loop body needs the whole packet at \<open>l\<close>.\<close>

definition decrypt_one :: "'c evp \<Rightarrow> decsa_adapter \<Rightarrow> nat \<Rightarrow> 'c dscan \<Rightarrow> 'c dscan flow option" where
  "decrypt_one evp a l s =
     (let data = ds_data s in
      if length data < l + TS_SIZE then None
      else if data ! l \<noteq> TS_SYNC_BYTE then Some (Break s)
      else
        (let ev_od = data ! (l + 3) AND 0xC0 in
         if ev_od AND 0x80 \<noteq> 0 then
           (let offset = unat (ts_packet_get_payload_offset (drop l data)) in
            if offset = 0 then Some (Continue (s\<lparr>ds_newRange := True\<rparr>))
            else
              (let pid = packet_pid (drop l data); idx = SearchPIDinMAP pid a in
               if l = 0 \<and> (idx < 0 \<or> pid = 0x1FFF) then Some Return
               else if idx \<ge> 0 \<and> pid < 0x1FFF \<and> (ds_currIdx s < 0 \<or> idx = ds_currIdx s) then
                 decrypt_mapped evp l offset
                   (s\<lparr>ds_currIdx := idx, ds_curPid := pid,
                      ds_wantsparity := (if ev_od = 0x80 then 1 else if ev_od = 0xC0 then 2 else ds_wantsparity s)\<rparr>)
               else Some (Continue (s\<lparr>ds_newRange := True\<rparr>))))
         else if l = 0 then Some Return else Some (Continue s)))"

text \<open>The loop; \<open>len\<close> is already smaller by \<open>TS_SIZE - 1\<close>. \<open>Some None\<close> is the early return.\<close>

function decrypt_scan :: "'c evp \<Rightarrow> decsa_adapter \<Rightarrow> int \<Rightarrow> nat \<Rightarrow> 'c dscan \<Rightarrow> 'c dscan option option" where
  "decrypt_scan evp a len l s =
     (if int l < len then
        (case decrypt_one evp a l s of
           None \<Rightarrow> None
         | Some Return \<Rightarrow> Some None
         | Some (Break s) \<Rightarrow> Some (Some s)
         | Some (Continue s) \<Rightarrow> decrypt_scan evp a len (l + TS_SIZE) s)
      else Some (Some s))"
  by pat_completeness auto

termination by (relation "measure (\<lambda>(evp, a, len, l, s). nat (len - int l))") auto

declare decrypt_scan.simps [simp del]

subsection \<open>The wait for a control word\<close>

record 'c wait_env =
  we_sleep :: "nat \<Rightarrow> 'c decsa \<Rightarrow> 'c decsa"
  we_timeout :: "nat \<Rightarrow> bool"

abbreviation (input) imaxSleep :: nat where "imaxSleep \<equiv> 50"

text \<open>The result: whether the call goes on, the descrambler, and the number of rounds.\<close>

function wait_loop :: "'c wait_env \<Rightarrow> nat \<Rightarrow> nat \<Rightarrow> int \<Rightarrow> int \<Rightarrow> nat \<Rightarrow> 'c decsa \<Rightarrow> bool \<times> 'c decsa \<times> nat" where
  "wait_loop env a idx pid parity isleepcount d =
     (let i = isleepcount + 1; d = we_sleep env i d in
      if bAbort (DeCSAArray d ! a)
      then (False, with_adapter a (\<lambda>ad. ad\<lparr>bCW_Waiting := False, bAbort := False\<rparr>) d, i)
      else
        (let iok = fst (key_Set_FastECM_CW_Parity pid parity False (DeCSAKeyArray d ! idx));
             d = with_key idx (\<lambda>k. snd (key_Set_FastECM_CW_Parity pid parity False k)) d;
             (iok, d) = (if iok = 1 then (iok, d)
                         else if we_timeout env i \<or> i > imaxSleep
                         then (1, with_key idx (\<lambda>k. Init_Parity2 False (snd (key_Set_FastECM_CW_Parity pid parity True k))) d)
                         else (iok, d))
         in if iok = 0 then wait_loop env a idx pid parity i d
            else (True, with_adapter a (\<lambda>ad. ad\<lparr>bCW_Waiting := False\<rparr>) d, i)))"
  by pat_completeness auto

termination
  by (relation "measure (\<lambda>(env, a, idx, pid, parity, i, d). Suc imaxSleep - i)") (auto split: if_splits)

declare wait_loop.simps [simp del]

text \<open>Whether the index uses FastECM: its CAID, looked up from the ECM pid when it is not known yet.\<close>

definition fast_ecm :: "bool \<Rightarrow> pmtobj list option \<Rightarrow> nat \<Rightarrow> nat \<Rightarrow> 'c decsa \<Rightarrow> bool \<times> 'c decsa" where
  "fast_ecm enabled capmt a idx d =
     (case (if enabled then capmt else None) of
        None \<Rightarrow> (False, d)
      | Some pmt \<Rightarrow>
          (let k = DeCSAKeyArray d ! idx; caCaid = Get_FastECM_CAID k; caPid = Get_FastECM_PID k;
               (caidneu, caSid) = (if caCaid \<le> 0 \<and> caPid \<ge> 0 then GetCAIDFromPid pmt (int a) caPid else (0, 0))
           in if caidneu > 0
              then (IsFastECMCAID (uint caidneu), with_key idx (\<lambda>k. snd (key_SetFastECMCaidSid (uint caidneu) caSid k)) d)
              else (IsFastECMCAID caCaid, d)))"

text \<open>Everything between the ranges and \<open>decrypt_packets\<close>.\<close>

definition parity_wait ::
  "'c wait_env \<Rightarrow> bool \<Rightarrow> pmtobj list option \<Rightarrow> nat \<Rightarrow> nat \<Rightarrow> int \<Rightarrow> int \<Rightarrow> 'c decsa \<Rightarrow> bool \<times> 'c decsa" where
  "parity_wait env enabled capmt a idx curPid wantsparity d =
     (let (bFastECM, d) = fast_ecm enabled capmt a idx d in
      if bFastECM then
        (let iok = fst (key_Set_FastECM_CW_Parity curPid wantsparity False (DeCSAKeyArray d ! idx));
             d = with_key idx (\<lambda>k. snd (key_Set_FastECM_CW_Parity curPid wantsparity False k)) d
         in if iok = 0
            then (case wait_loop env a idx curPid wantsparity 0 (with_adapter a (\<lambda>ad. ad\<lparr>bCW_Waiting := True\<rparr>) d) of
                    (ok, d, n) \<Rightarrow> (ok, d))
            else (True, d))
      else (True, with_key idx (SetActiveParity2 curPid wantsparity) d))"

subsection \<open>Decrypt\<close>

definition adapter_Decrypt ::
  "'c evp \<Rightarrow> 'c wait_env \<Rightarrow> csa_keys_t \<Rightarrow> junk \<Rightarrow> bool \<Rightarrow> pmtobj list option \<Rightarrow> nat \<Rightarrow> bytes \<Rightarrow> int \<Rightarrow> bool \<Rightarrow> 'c decsa
     \<Rightarrow> (bool \<times> bytes \<times> 'c decsa) option" where
  "adapter_Decrypt evp env junk J enabled capmt a data len force d =
     do { r \<leftarrow> decrypt_scan evp (DeCSAArray d ! a) (len - 187) 0
             \<lparr>ds_data = data, ds_decsa = d, ds_currIdx = -1, ds_curPid = 0, ds_wantsparity = 0, ds_ranges = [],
              ds_newRange = True, ds_ccs = 0\<rparr>;
          case r of
            None \<Rightarrow> Some (False, data, d)
          | Some s \<Rightarrow>
              (let data = ds_data s; d = ds_decsa s; idx = ds_currIdx s in
               do { algo \<leftarrow> GetAlgo idx d;
                    aes \<leftarrow> GetAes idx d;
                    if idx \<ge> 0 \<and> (algo = CA_ALGO_DES \<or> algo = CA_ALGO_AES128 \<or> aes \<noteq> 0) then Some (True, data, d)
                    else if ds_ranges s \<noteq> [] \<and> (ds_ccs s \<ge> get_suggested_cluster_size \<or> force) then
                      do { (ok, d) \<leftarrow> (if idx \<ge> 0 then GetKeyStruct junk idx d else Some (False, d));
                           if ok then
                             do { k \<leftarrow> key_at idx d;
                                  let (go, d) = (if ds_wantsparity s > 0
                                                 then parity_wait env enabled capmt a (nat idx) (ds_curPid s) (ds_wantsparity s) d
                                                 else (True, d));
                                  Some (if go then
                                          (case Decrypt_packets J data (ds_ranges s) (DeCSAKeyArray d ! nat idx) of
                                             (data, cluster, n) \<Rightarrow> (n > 0, data, d))
                                        else (False, data, d)) }
                           else Some (False, data, d) }
                    else Some (False, data, d) }) }"

text \<open>The adapter whose method is called has to be one of the array.\<close>

definition DeCSA_Decrypt ::
  "'c evp \<Rightarrow> 'c wait_env \<Rightarrow> csa_keys_t \<Rightarrow> junk \<Rightarrow> bool \<Rightarrow> pmtobj list option \<Rightarrow> u8 \<Rightarrow> bytes \<Rightarrow> int \<Rightarrow> bool \<Rightarrow> 'c decsa
     \<Rightarrow> (bool \<times> bytes \<times> 'c decsa) option" where
  "DeCSA_Decrypt evp env junk J enabled capmt adapter_index data len force d =
     (if uint adapter_index \<ge> MAXADAPTER then Some (False, data, d)
      else
        do { ad \<leftarrow> adapter_at (uint adapter_index) d;
             adapter_Decrypt evp env junk J enabled capmt (unat adapter_index) data len force d })"

end
