(* ===== verification/DecsaScan.thy ===== *)
theory DecsaScan
  imports DecsaDecrypt
begin

text \<open>
  What the search of \<open>Decrypt\<close> finds, for keys in CSA mode: ranges of whole packets, in order and apart, in
  which every scrambled packet has a pid of the key index in hand. With the specification of
  \<open>decrypt_packets\<close> this says which packets a call can change and how.
\<close>

subsection \<open>Ranges of packets\<close>

lemma mem_range_packets:
  assumes "TS_SIZE dvd st" "TS_SIZE dvd en"
  shows "x \<in> set (range_packets st en) \<longleftrightarrow> st \<le> x \<and> x < en \<and> TS_SIZE dvd x"
proof -
  obtain m n where m: "st = 188 * m" and n: "en = 188 * n" using assms by (elim dvdE)
  have d: "(en - st) div 188 = n - m" unfolding m n by (simp add: diff_mult_distrib2 [symmetric])
  show ?thesis
  proof
    assume "x \<in> set (range_packets st en)"
    then obtain i where "x = st + 188 * i" "i < n - m" by (auto simp: range_packets_def d)
    then show "st \<le> x \<and> x < en \<and> TS_SIZE dvd x" by (auto simp: m n)
  next
    assume x: "st \<le> x \<and> x < en \<and> TS_SIZE dvd x"
    then obtain j where j: "x = 188 * j" by (elim conjE dvdE)
    have "x = st + 188 * (j - m)" "j - m < n - m" using x by (auto simp: j m n)
    then show "x \<in> set (range_packets st en)" by (auto simp: range_packets_def d)
  qed
qed

lemma sorted_range_packets: "sorted_wrt (\<lambda>a b. a + TS_SIZE \<le> b) (range_packets st en)"
  by (simp add: range_packets_def sorted_wrt_map sorted_wrt_upt sorted_wrt_iff_nth_less)

definition in_order :: "(nat \<times> nat) list \<Rightarrow> bool" where
  "in_order rs \<longleftrightarrow> (\<forall>(st, en) \<in> set rs. st < en \<and> TS_SIZE dvd st \<and> TS_SIZE dvd en) \<and>
     sorted_wrt (\<lambda>r q. snd r \<le> fst q) rs"

lemma mem_cluster_packets:
  "in_order rs \<Longrightarrow> x \<in> set (cluster_packets rs) \<longleftrightarrow> TS_SIZE dvd x \<and> (\<exists>(st, en) \<in> set rs. st \<le> x \<and> x < en)"
  by (induction rs) (auto simp: in_order_def mem_range_packets)

lemma in_order_apart: "in_order rs \<Longrightarrow> sorted_wrt (\<lambda>a b. a + TS_SIZE \<le> b) (cluster_packets rs)"
proof (induction rs)
  case (Cons r rs)
  obtain st en where r: "r = (st, en)" by fastforce
  have o: "in_order rs" using Cons.prems by (simp add: in_order_def)
  have "a + TS_SIZE \<le> b" if a: "a \<in> set (range_packets st en)" and b: "b \<in> set (cluster_packets rs)" for a b
  proof -
    have d: "TS_SIZE dvd st" "TS_SIZE dvd en" using Cons.prems r by (auto simp: in_order_def)
    have a': "a < en" "TS_SIZE dvd a" using a mem_range_packets [OF d] by simp_all
    have "en \<le> b" using b Cons.prems r unfolding mem_cluster_packets [OF o] by (force simp: in_order_def)
    moreover have "a + TS_SIZE \<le> en"
    proof -
      obtain m n where "a = 188 * m" "en = 188 * n" using a'(2) d(2) by (elim dvdE)
      then show ?thesis using a'(1) by simp
    qed
    ultimately show ?thesis by simp
  qed
  then show ?case using Cons.IH [OF o] sorted_range_packets by (simp add: r sorted_wrt_append)
qed simp

lemma in_order_cluster_ok:
  assumes "in_order rs" "\<forall>(st, en) \<in> set rs. en \<le> length data"
  shows "cluster_ok data rs"
proof -
  have "sorted_wrt apart (cluster_packets rs)"
    by (rule sorted_wrt_mono_rel [OF _ in_order_apart [OF assms(1)]]) (simp add: apart_def)
  moreover have "st \<le> en \<and> TS_SIZE dvd (en - st) \<and> en \<le> length data" if "(st, en) \<in> set rs" for st en
    using that assms unfolding in_order_def by fastforce
  ultimately show ?thesis unfolding cluster_ok_def by blast
qed

lemma next_packet:
  assumes "TS_SIZE dvd x" "TS_SIZE dvd l" "l \<le> x" "x < l + TS_SIZE"
  shows "x = l"
proof -
  obtain m where m: "x = 188 * m" using assms(1) by (rule dvdE)
  obtain n where n: "l = 188 * n" using assms(2) by (rule dvdE)
  show ?thesis using assms(3,4) by (simp add: m n)
qed

lemma add_range_order:
  assumes "in_order rs" "\<forall>(st, en) \<in> set rs. en \<le> l" "TS_SIZE dvd l" "\<not> newRange \<Longrightarrow> rs \<noteq> []"
  shows "in_order (add_range l newRange rs)" "\<forall>(st, en) \<in> set (add_range l newRange rs). en \<le> l + TS_SIZE"
    "length (add_range l newRange rs) \<le> length rs + 1" "add_range l newRange rs \<noteq> []"
    "snd (last (add_range l newRange rs)) = l + TS_SIZE"
    "x \<in> set (cluster_packets (add_range l newRange rs)) \<longleftrightarrow>
       x \<in> set (cluster_packets rs) \<or> x = l \<or> \<not> newRange \<and> TS_SIZE dvd x \<and> snd (last rs) \<le> x \<and> x < l"
proof -
  have dl: "TS_SIZE dvd (l + TS_SIZE)" using assms(3) by simp
  note lx = next_packet [OF _ assms(3)]
  have "in_order (add_range l newRange rs) \<and> (\<forall>(st, en) \<in> set (add_range l newRange rs). en \<le> l + TS_SIZE) \<and>
    length (add_range l newRange rs) \<le> length rs + 1 \<and> add_range l newRange rs \<noteq> [] \<and>
    snd (last (add_range l newRange rs)) = l + TS_SIZE \<and>
    (x \<in> set (cluster_packets (add_range l newRange rs)) \<longleftrightarrow>
       x \<in> set (cluster_packets rs) \<or> x = l \<or> \<not> newRange \<and> TS_SIZE dvd x \<and> snd (last rs) \<le> x \<and> x < l)"
  proof (cases newRange)
    case True
    have o: "in_order (rs @ [(l, l + TS_SIZE)])"
      using assms(1-3) dl by (fastforce simp: in_order_def sorted_wrt_append)
    have "x \<in> set (range_packets l (l + TS_SIZE)) \<longleftrightarrow> x = l"
      using mem_range_packets [OF assms(3) dl, of x] lx [of x] assms(3) by auto
    moreover have "\<forall>(st, en) \<in> set (rs @ [(l, l + TS_SIZE)]). en \<le> l + TS_SIZE" using assms(2) by fastforce
    ultimately show ?thesis using o True by (simp add: add_range_def)
  next
    case False
    then obtain bs r where rs': "rs = bs @ [r]" using assms(4) by (metis rev_exhaust)
    obtain st en where rs: "rs = bs @ [(st, en)]" using rs' by (cases r) simp
    have e: "st < en" "TS_SIZE dvd st" "TS_SIZE dvd en" "en \<le> l" using assms(1,2) by (auto simp: rs in_order_def)
    have ar: "add_range l newRange rs = bs @ [(st, l + TS_SIZE)]" using False by (simp add: add_range_def rs)
    have o: "in_order (bs @ [(st, l + TS_SIZE)])"
      using assms(1) e dl by (fastforce simp: in_order_def sorted_wrt_append rs)
    have "x \<in> set (range_packets st (l + TS_SIZE)) \<longleftrightarrow>
        x \<in> set (range_packets st en) \<or> x = l \<or> TS_SIZE dvd x \<and> en \<le> x \<and> x < l"
      unfolding mem_range_packets [OF e(2) dl] mem_range_packets [OF e(2,3)] using lx [of x] e assms(3) by (cases "x < l") auto
    then have eq: "x \<in> set (cluster_packets (bs @ [(st, l + TS_SIZE)])) \<longleftrightarrow>
        x \<in> set (cluster_packets rs) \<or> x = l \<or> \<not> newRange \<and> TS_SIZE dvd x \<and> snd (last rs) \<le> x \<and> x < l"
      using False by (simp add: rs)
    have "\<forall>(st, en) \<in> set (bs @ [(st, l + TS_SIZE)]). en \<le> l + TS_SIZE"
      using assms(2) by (fastforce simp: rs)
    then show ?thesis unfolding ar using o eq by (simp add: rs del: cluster_packets_simps)
  qed
  then show "in_order (add_range l newRange rs)" "\<forall>(st, en) \<in> set (add_range l newRange rs). en \<le> l + TS_SIZE"
    "length (add_range l newRange rs) \<le> length rs + 1" "add_range l newRange rs \<noteq> []"
    "snd (last (add_range l newRange rs)) = l + TS_SIZE"
    "x \<in> set (cluster_packets (add_range l newRange rs)) \<longleftrightarrow>
       x \<in> set (cluster_packets rs) \<or> x = l \<or> \<not> newRange \<and> TS_SIZE dvd x \<and> snd (last rs) \<le> x \<and> x < l"
    by blast+
qed

subsection \<open>The search\<close>

definition csa_mode :: "'c decsa_key \<Rightarrow> bool" where
  "csa_mode k \<longleftrightarrow> dk_algo k \<noteq> CA_ALGO_DES \<and> dk_algo k \<noteq> CA_ALGO_AES128 \<and> \<not> dk_Aes k"

text \<open>An adapter whose pids all have keys in CSA mode.\<close>

definition csa_map :: "'c decsa \<Rightarrow> decsa_adapter \<Rightarrow> bool" where
  "csa_map d a \<longleftrightarrow> (\<forall>(pid, idx) \<in> set (AdapterPidMap a). csa_mode (DeCSAKeyArray d ! unat idx))"

lemma csa_map_idx:
  assumes "csa_map d a" "0 \<le> SearchPIDinMAP pid a"
  shows "csa_mode (DeCSAKeyArray d ! nat (SearchPIDinMAP pid a))"
proof (cases "sm_find (AdapterPidMap a) pid")
  case (Some idx)
  then have "csa_mode (DeCSAKeyArray d ! unat idx)" using assms(1) sm_find_in_set [OF Some] by (auto simp: csa_map_def)
  then show ?thesis by (simp add: SearchPIDinMAP_def Some)
qed (use assms(2) in \<open>simp add: SearchPIDinMAP_def\<close>)

text \<open>The key index of a packet.\<close>

definition packet_idx :: "decsa_adapter \<Rightarrow> bytes \<Rightarrow> int" where
  "packet_idx a p = SearchPIDinMAP (packet_pid p) a"

definition scan_inv :: "bytes \<Rightarrow> 'c decsa \<Rightarrow> decsa_adapter \<Rightarrow> nat \<Rightarrow> 'c dscan \<Rightarrow> bool" where
  "scan_inv data d a l s \<longleftrightarrow>
     ds_data s = data \<and> ds_decsa s = d \<and> in_order (ds_ranges s) \<and> (\<forall>(st, en) \<in> set (ds_ranges s). en \<le> l) \<and>
     (\<forall>x \<in> set (cluster_packets (ds_ranges s)). scrambled (pk x data) \<longrightarrow> packet_idx a (pk x data) = ds_currIdx s) \<and>
     ds_wantsparity s \<in> {0, 1, 2} \<and> length (ds_ranges s) \<le> ds_ccs s \<and>
     (if ds_currIdx s < 0 then ds_ranges s = [] \<and> ds_newRange s
      else ds_currIdx s < 32 \<and> ds_wantsparity s \<noteq> 0 \<and> 0 \<le> ds_curPid s \<and> ds_curPid s < 0x1FFF)"

text \<open>While a range is open, the packets since its end are in the clear.\<close>

definition open_range :: "bytes \<Rightarrow> nat \<Rightarrow> 'c dscan \<Rightarrow> bool" where
  "open_range data l s \<longleftrightarrow> ds_newRange s \<or> ds_ranges s \<noteq> [] \<and>
     (\<forall>x. TS_SIZE dvd x \<and> snd (last (ds_ranges s)) \<le> x \<and> x < l \<longrightarrow> \<not> scrambled (pk x data))"

lemma and_0x80: "(b AND 0xC0) AND 0x80 \<noteq> 0 \<longleftrightarrow> bit b 7" for b :: u8
proof -
  have "(0xC0 :: u8) AND 0x80 = 2 ^ 7" by simp
  then have "(b AND 0xC0) AND 0x80 = b AND 2 ^ 7" by (metis and.assoc)
  then show ?thesis by (metis and_exp_eq_0)
qed

lemma SearchPID_range: "wf_pid_map (AdapterPidMap a) \<Longrightarrow> SearchPIDinMAP pid a < 32"
proof (cases "sm_find (AdapterPidMap a) pid")
  case (Some idx)
  assume "wf_pid_map (AdapterPidMap a)"
  then have "unat idx < 32" using sm_find_in_set [OF Some] by (auto simp: wf_pid_map_def)
  then have "int (unat idx) < 32" by linarith
  then show ?thesis by (simp add: SearchPIDinMAP_def Some)
qed (simp add: SearchPIDinMAP_def)

lemma packet_pid_pk: "l + TS_SIZE \<le> length data \<Longrightarrow> packet_pid (drop l data) = packet_pid (pk l data)"
  by (simp add: packet_pid_def pk_def)

lemma packet_pid_nonneg: "0 \<le> packet_pid p"
  by (simp add: packet_pid_def)

lemma scan_inv_mono: "scan_inv data d a l s \<Longrightarrow> l \<le> l' \<Longrightarrow> scan_inv data d a l' s"
  by (force simp: scan_inv_def)

lemma decrypt_mapped_csa:
  assumes "scan_inv data d a l s0" "open_range data l s0" "TS_SIZE dvd l" "l + TS_SIZE \<le> length data"
    and m: "wf_decsa d" "csa_map d a"
    and idx: "0 \<le> idx" "idx < 32" "idx = packet_idx a (pk l data)" "ds_currIdx s0 < 0 \<or> idx = ds_currIdx s0"
    and pid: "0 \<le> pid" "pid < 0x1FFF" and w: "w \<in> {1, 2}"
    and s: "s = s0\<lparr>ds_currIdx := idx, ds_curPid := pid, ds_wantsparity := w\<rparr>"
  defines "s' \<equiv> s\<lparr>ds_ranges := add_range l (ds_newRange s) (ds_ranges s), ds_newRange := False, ds_ccs := ds_ccs s + 1\<rparr>"
  shows "decrypt_mapped evp l offset s = Some (if ds_ccs s' \<ge> get_suggested_cluster_size then Break s' else Continue s')"
    "scan_inv data d a (l + TS_SIZE) s'" "open_range data (l + TS_SIZE) s'"
proof -
  note I = assms(1) [unfolded scan_inv_def]
  have k: "csa_mode (DeCSAKeyArray d ! nat idx)"
    using csa_map_idx [OF m(2)] idx(1,3) by (simp add: packet_idx_def)
  obtain g where g: "GetAlgo idx d = Some g" "g \<noteq> 1" "g \<noteq> 2" "GetAes idx d = Some 0"
    using k idx(1,2) by (auto simp: GetAlgo_eq [OF m(1)] GetAes_eq [OF m(1)] csa_mode_def)
  have sd: "ds_decsa s = d" "ds_currIdx s = idx" using I by (simp_all add: s)
  show "decrypt_mapped evp l offset s = Some (if ds_ccs s' \<ge> get_suggested_cluster_size then Break s' else Continue s')"
    unfolding decrypt_mapped_def Let_def sd s'_def using g by simp
  have ne: "\<not> ds_newRange s0 \<Longrightarrow> ds_ranges s0 \<noteq> []" using assms(2) by (simp add: open_range_def)
  have ord: "in_order (ds_ranges s0)" "\<forall>(st, en) \<in> set (ds_ranges s0). en \<le> l" using I by blast+
  note ar = add_range_order [OF ord assms(3) ne]
  have cur: "packet_idx a (pk x data) = idx"
    if x: "x \<in> set (cluster_packets (add_range l (ds_newRange s0) (ds_ranges s0)))" "scrambled (pk x data)" for x
  proof -
    consider "x \<in> set (cluster_packets (ds_ranges s0))" | "x = l" |
      "\<not> ds_newRange s0" "TS_SIZE dvd x" "snd (last (ds_ranges s0)) \<le> x" "x < l"
      using x(1) ar(6) by blast
    then show ?thesis
    proof cases
      case 1
      then have "packet_idx a (pk x data) = ds_currIdx s0" using I x(2) by blast
      moreover have "ds_ranges s0 \<noteq> []" using 1 by auto
      then have "\<not> ds_currIdx s0 < 0" using I by auto
      ultimately show ?thesis using idx(4) by simp
    next
      case 2
      then show ?thesis using idx(3) by simp
    next
      case 3
      then show ?thesis using assms(2) x(2) by (simp add: open_range_def)
    qed
  qed
  show "scan_inv data d a (l + TS_SIZE) s'"
  proof -
    have f1: "ds_data s' = data" "ds_decsa s' = d" using I by (simp_all add: s'_def s)
    have f2: "length (ds_ranges s') \<le> ds_ccs s'" using I ar(3) [of "ds_newRange s0"] by (simp add: s'_def s)
    have f3: "in_order (ds_ranges s')" "\<forall>(st, en) \<in> set (ds_ranges s'). en \<le> l + TS_SIZE"
      using ar(1,2) by (simp_all add: s'_def s)
    have f4: "\<forall>x \<in> set (cluster_packets (ds_ranges s')). scrambled (pk x data) \<longrightarrow> packet_idx a (pk x data) = ds_currIdx s'"
      using cur by (simp add: s'_def s)
    have v: "ds_currIdx s' = idx" "ds_curPid s' = pid" "ds_wantsparity s' = w" by (simp_all add: s'_def s)
    have f5: "\<not> ds_currIdx s' < 0" "ds_currIdx s' < 32" "ds_wantsparity s' \<noteq> 0" "0 \<le> ds_curPid s'" "ds_curPid s' < 0x1FFF"
      "ds_wantsparity s' \<in> {0, 1, 2}"
      unfolding v using idx(1,2) pid w by auto
    show ?thesis unfolding scan_inv_def if_not_P [OF f5(1)] by (intro conjI f1 f2 f3 f4 f5)
  qed
  show "open_range data (l + TS_SIZE) s'"
  proof -
    have "ds_ranges s' \<noteq> []" "snd (last (ds_ranges s')) = l + TS_SIZE" using ar(4,5) by (simp_all add: s'_def s)
    then show ?thesis unfolding open_range_def by (simp only: not_le simp_thms) linarith
  qed
qed


lemma decrypt_one_inv:
  assumes I: "scan_inv data d a l s" and o: "open_range data l s" and l: "TS_SIZE dvd l" "l + TS_SIZE \<le> length data"
    and a: "wf_pid_map (AdapterPidMap a)" and m: "wf_decsa d" "csa_map d a"
  shows "decrypt_one evp a l s = Some (Break s') \<Longrightarrow> scan_inv data d a (l + TS_SIZE) s'"
    "decrypt_one evp a l s = Some (Continue s') \<Longrightarrow> scan_inv data d a (l + TS_SIZE) s' \<and> open_range data (l + TS_SIZE) s'"
proof -
  note I' = scan_inv_mono [OF I, of "l + TS_SIZE"]
  have sd: "ds_data s = data" "ds_decsa s = d" using I by (simp_all add: scan_inv_def)
  let ?p = "pk l data"
  have b: "data ! (l + 3) = ?p ! 3" using l(2) by (simp add: nth_pk)
  define e where "e = data ! (l + 3) AND 0xC0"
  have sc: "e AND 0x80 \<noteq> 0 \<longleftrightarrow> scrambled ?p" by (simp only: e_def and_0x80 scrambled_def b)
  have ee: "e = 0x80 \<or> e = 0xC0" if "scrambled ?p"
    using that xc0_cases(3,4) [of "?p ! 3"] by (auto simp: e_def b scrambled_def)
  define pid where "pid = packet_pid (drop l data)"
  define idx where "idx = SearchPIDinMAP pid a"
  have idx: "idx = packet_idx a ?p" "idx < 32"
    using SearchPID_range [OF a] by (simp_all add: idx_def pid_def packet_idx_def packet_pid_pk [OF l(2)])
  have new: "scan_inv data d a (l + TS_SIZE) (s\<lparr>ds_newRange := True\<rparr>) \<and> open_range data (l + TS_SIZE) (s\<lparr>ds_newRange := True\<rparr>)"
    using I' by (simp add: scan_inv_def open_range_def)
  have clear: "open_range data (l + TS_SIZE) s" if n: "\<not> scrambled ?p"
  proof -
    have "\<not> scrambled (pk x data)"
      if "TS_SIZE dvd x" "snd (last (ds_ranges s)) \<le> x" "x < l + TS_SIZE" "\<not> ds_newRange s" for x
    proof (cases "x < l")
      case True
      then show ?thesis using o that by (simp add: open_range_def)
    next
      case False
      then have "x = l" using next_packet [OF that(1) l(1)] that(3) by simp
      then show ?thesis using n by simp
    qed
    then show ?thesis using o by (auto simp: open_range_def)
  qed
  define off where "off = unat (ts_packet_get_payload_offset (drop l data))"
  define s1 where "s1 = s\<lparr>ds_currIdx := idx, ds_curPid := pid, ds_wantsparity := (if e = 0x80 then 1 else 2)\<rparr>"
  have code: "decrypt_one evp a l s =
     (if data ! l \<noteq> TS_SYNC_BYTE then Some (Break s)
      else if \<not> scrambled ?p then (if l = 0 then Some Return else Some (Continue s))
      else if off = 0 then Some (Continue (s\<lparr>ds_newRange := True\<rparr>))
      else if l = 0 \<and> (idx < 0 \<or> pid = 0x1FFF) then Some Return
      else if idx \<ge> 0 \<and> pid < 0x1FFF \<and> (ds_currIdx s < 0 \<or> idx = ds_currIdx s) then decrypt_mapped evp l off s1
      else Some (Continue (s\<lparr>ds_newRange := True\<rparr>)))"
  proof (cases "scrambled ?p")
    case True
    have w: "(if e = 0x80 then 1 else if e = 0xC0 then 2 else ds_wantsparity s) = (if e = 0x80 then 1 else 2 :: int)"
      using ee [OF True] by auto
    show ?thesis
      unfolding decrypt_one_def Let_def sd e_def [symmetric] sc w off_def [symmetric] pid_def [symmetric]
        idx_def [symmetric] s1_def [symmetric] using True l(2) by (simp add: not_less)
  next
    case False
    then show ?thesis unfolding decrypt_one_def Let_def sd e_def [symmetric] sc using l(2) by (simp add: not_less)
  qed
  have mapped: "\<exists>s'. decrypt_mapped evp l off s1 = Some (if ds_ccs s' \<ge> get_suggested_cluster_size then Break s' else Continue s') \<and>
      scan_inv data d a (l + TS_SIZE) s' \<and> open_range data (l + TS_SIZE) s'"
    if "idx \<ge> 0" "pid < 0x1FFF" "ds_currIdx s < 0 \<or> idx = ds_currIdx s"
  proof -
    have "(if e = 0x80 then 1 else 2 :: int) \<in> {1, 2}" by simp
    note dm = decrypt_mapped_csa [OF I o l m that(1) idx(2) idx(1) that(3) packet_pid_nonneg [of "drop l data", folded pid_def]
        that(2) this s1_def]
    show ?thesis by (intro exI conjI) (rule dm(1), rule dm(2), rule dm(3))
  qed
  show "scan_inv data d a (l + TS_SIZE) s' \<and> open_range data (l + TS_SIZE) s'" if "decrypt_one evp a l s = Some (Continue s')"
    using that mapped new clear I' unfolding code by (auto split: if_splits)
  show "scan_inv data d a (l + TS_SIZE) s'" if "decrypt_one evp a l s = Some (Break s')"
    using that mapped I' unfolding code by (auto split: if_splits)
qed

lemma decrypt_scan_inv:
  "scan_inv data d a l s \<Longrightarrow> open_range data l s \<Longrightarrow> TS_SIZE dvd l \<Longrightarrow> len + 187 \<le> int (length data) \<Longrightarrow>
   wf_pid_map (AdapterPidMap a) \<Longrightarrow> wf_decsa d \<Longrightarrow> csa_map d a \<Longrightarrow> l \<le> length data \<Longrightarrow>
   decrypt_scan evp a len l s = Some (Some s') \<Longrightarrow> scan_inv data d a (length data) s'"
proof (induction evp a len l s rule: decrypt_scan.induct)
  case (1 evp a len l s)
  show ?case
  proof (cases "int l < len")
    case True
    then have l: "l + TS_SIZE \<le> length data" using 1(5) by linarith
    note step = decrypt_one_inv [OF 1(2,3,4) l 1(6,7,8), of evp]
    obtain r where r: "decrypt_one evp a l s = Some r"
      using 1(10) True by (cases "decrypt_one evp a l s") (simp_all add: decrypt_scan.simps [of evp a len l s])
    show ?thesis
    proof (cases r)
      case Return
      then show ?thesis using 1(10) True r by (simp add: decrypt_scan.simps [of evp a len l s])
    next
      case (Break s1)
      then have "s1 = s'" using 1(10) True r by (simp add: decrypt_scan.simps [of evp a len l s])
      then show ?thesis using step(1) [OF r [unfolded Break]] scan_inv_mono l by blast
    next
      case (Continue s1)
      have "decrypt_scan evp a len (l + TS_SIZE) s1 = Some (Some s')"
        using Continue r 1(10) True by (simp add: decrypt_scan.simps [of evp a len l s])
      then show ?thesis
        using "1.IH" [OF True r Continue _ _ _ 1(5-8) l] step(2) [OF r [unfolded Continue]] 1(4) by simp
    qed
  next
    case False
    then show ?thesis using 1(2,9,10) scan_inv_mono by (auto simp: decrypt_scan.simps [of evp a len l s])
  qed
qed

end
