(* ===== verification/DecsaSpec.thy ===== *)
theory DecsaSpec
  imports DecsaScan
begin

text \<open>
  The properties of \<open>Decrypt\<close>: it keeps the invariant of the descrambler in every mode, the wait for a
  control word ends after at most 51 rounds, and in CSA mode every packet of the buffer is either as it was or
  a scrambled packet of the index in hand, descrambled with that index's key.
\<close>

subsection \<open>The wait\<close>

definition env_ok :: "'c wait_env \<Rightarrow> bool" where
  "env_ok env \<longleftrightarrow> (\<forall>i d. wf_decsa d \<longrightarrow> wf_decsa (we_sleep env i d))"

lemma key_parity_01: "fst (key_Set_FastECM_CW_Parity pid parity f k) \<in> {0, 1}"
proof (cases "dk_key k")
  case (Some keys)
  then show ?thesis using pr_ok_set [of "fastecm keys" pid parity f] by (simp add: key_Set_FastECM_CW_Parity_def)
qed (simp add: key_Set_FastECM_CW_Parity_def)

text \<open>What one round of the loop does, case by case.\<close>

definition wait_aborts :: "'c wait_env \<Rightarrow> nat \<Rightarrow> nat \<Rightarrow> 'c decsa \<Rightarrow> bool" where
  "wait_aborts env a i d \<longleftrightarrow> bAbort (DeCSAArray (we_sleep env i d) ! a)"

definition wait_next :: "'c wait_env \<Rightarrow> nat \<Rightarrow> int \<Rightarrow> int \<Rightarrow> nat \<Rightarrow> 'c decsa \<Rightarrow> 'c decsa" where
  "wait_next env idx pid parity i d =
     with_key idx (\<lambda>k. snd (key_Set_FastECM_CW_Parity pid parity False k)) (we_sleep env i d)"

definition word_is_there :: "'c wait_env \<Rightarrow> nat \<Rightarrow> int \<Rightarrow> int \<Rightarrow> nat \<Rightarrow> 'c decsa \<Rightarrow> bool" where
  "word_is_there env idx pid parity i d \<longleftrightarrow>
     fst (key_Set_FastECM_CW_Parity pid parity False (DeCSAKeyArray (we_sleep env i d) ! idx)) = 1"

lemma wait_loop_round:
  "wait_loop env a idx pid parity i d =
     (let j = i + 1 in
      if wait_aborts env a j d
      then (False, with_adapter a (\<lambda>ad. ad\<lparr>bCW_Waiting := False, bAbort := False\<rparr>) (we_sleep env j d), j)
      else if word_is_there env idx pid parity j d
      then (True, with_adapter a (\<lambda>ad. ad\<lparr>bCW_Waiting := False\<rparr>) (wait_next env idx pid parity j d), j)
      else if we_timeout env j \<or> j > imaxSleep
      then (True, with_adapter a (\<lambda>ad. ad\<lparr>bCW_Waiting := False\<rparr>)
              (with_key idx (\<lambda>k. Init_Parity2 False (snd (key_Set_FastECM_CW_Parity pid parity True k)))
                (wait_next env idx pid parity j d)), j)
      else wait_loop env a idx pid parity j (wait_next env idx pid parity j d))"
  using key_parity_01 [of pid parity False "DeCSAKeyArray (we_sleep env (i + 1) d) ! idx"]
  by (subst wait_loop.simps) (auto simp: Let_def wait_aborts_def wait_next_def word_is_there_def)

text \<open>The state before each round, as long as the loop goes on.\<close>

fun wait_state :: "'c wait_env \<Rightarrow> nat \<Rightarrow> int \<Rightarrow> int \<Rightarrow> nat \<Rightarrow> 'c decsa \<Rightarrow> 'c decsa" where
  "wait_state env idx pid parity 0 d = d"
| "wait_state env idx pid parity (Suc n) d = wait_next env idx pid parity (Suc n) (wait_state env idx pid parity n d)"

lemma wait_loop_from:
  "i \<le> imaxSleep \<Longrightarrow> \<exists>n. i < n \<and> n \<le> Suc imaxSleep \<and>
     snd (snd (wait_loop env a idx pid parity i (wait_state env idx pid parity i d))) = n \<and>
     (\<forall>j. i < j \<and> j < n \<longrightarrow> \<not> wait_aborts env a j (wait_state env idx pid parity (j - 1) d) \<and>
        \<not> word_is_there env idx pid parity j (wait_state env idx pid parity (j - 1) d) \<and> \<not> we_timeout env j) \<and>
     (fst (wait_loop env a idx pid parity i (wait_state env idx pid parity i d)) \<longleftrightarrow>
        \<not> wait_aborts env a n (wait_state env idx pid parity (n - 1) d)) \<and>
     (wait_aborts env a n (wait_state env idx pid parity (n - 1) d) \<or>
      word_is_there env idx pid parity n (wait_state env idx pid parity (n - 1) d) \<or> we_timeout env n \<or> n = Suc imaxSleep)"
proof (induction "Suc imaxSleep - i" arbitrary: i rule: less_induct)
  case less
  let ?d = "wait_state env idx pid parity i d"
  show ?case
  proof (cases "wait_aborts env a (i + 1) ?d \<or> word_is_there env idx pid parity (i + 1) ?d \<or> we_timeout env (i + 1) \<or>
      i + 1 > imaxSleep")
    case True
    then show ?thesis
      using less.prems by (intro exI [of _ "Suc i"]) (subst (1 2) wait_loop_round, auto simp: Let_def)
  next
    case False
    then have e: "wait_loop env a idx pid parity i ?d =
        wait_loop env a idx pid parity (Suc i) (wait_state env idx pid parity (Suc i) d)"
      by (subst wait_loop_round) (simp add: Let_def)
    have "i \<le> 49" using False by simp
    then have "Suc i \<le> imaxSleep" "Suc imaxSleep - Suc i < Suc imaxSleep - i" by linarith+
    from less.hyps [OF this(2,1)] obtain n where n: "Suc i < n" "n \<le> Suc imaxSleep"
      "snd (snd (wait_loop env a idx pid parity i ?d)) = n"
      "\<forall>j. Suc i < j \<and> j < n \<longrightarrow> \<not> wait_aborts env a j (wait_state env idx pid parity (j - 1) d) \<and>
        \<not> word_is_there env idx pid parity j (wait_state env idx pid parity (j - 1) d) \<and> \<not> we_timeout env j"
      "fst (wait_loop env a idx pid parity i ?d) \<longleftrightarrow> \<not> wait_aborts env a n (wait_state env idx pid parity (n - 1) d)"
      "wait_aborts env a n (wait_state env idx pid parity (n - 1) d) \<or>
       word_is_there env idx pid parity n (wait_state env idx pid parity (n - 1) d) \<or> we_timeout env n \<or> n = Suc imaxSleep"
      unfolding e by blast
    have "\<not> wait_aborts env a j (wait_state env idx pid parity (j - 1) d) \<and>
        \<not> word_is_there env idx pid parity j (wait_state env idx pid parity (j - 1) d) \<and> \<not> we_timeout env j"
      if "i < j" "j < n" for j
    proof (cases "j = Suc i")
      case True
      then show ?thesis using False by simp
    next
      case False
      then show ?thesis using n(4) that by simp
    qed
    then show ?thesis using n by (intro exI [of _ n]) auto
  qed
qed

lemma wf_wait_loop:
  "env_ok env \<Longrightarrow> parity \<in> {0, 1, 2} \<Longrightarrow> wf_decsa d \<Longrightarrow> wf_decsa (fst (snd (wait_loop env a idx pid parity i d)))"
proof (induction "Suc imaxSleep - i" arbitrary: i d rule: less_induct)
  case less
  have w: "wf_decsa (we_sleep env (i + 1) d)" using less.prems by (simp add: env_ok_def)
  have n: "wf_decsa (wait_next env idx pid parity (i + 1) d)"
    unfolding wait_next_def using w less.prems(2) by (intro wf_intros) auto
  show ?case
  proof (cases "wait_aborts env a (i + 1) d \<or> word_is_there env idx pid parity (i + 1) d \<or> we_timeout env (i + 1) \<or>
      i + 1 > imaxSleep")
    case True
    have "wf_decsa (with_key idx (\<lambda>k. Init_Parity2 False (snd (key_Set_FastECM_CW_Parity pid parity True k)))
        (wait_next env idx pid parity (i + 1) d))"
      using n less.prems(2) by (intro wf_intros) auto
    then show ?thesis
      using True w n by (subst wait_loop_round) (auto simp: Let_def intro!: wf_with_adapter)
  next
    case False
    then have "i \<le> 49" by simp
    then have "Suc imaxSleep - Suc i < Suc imaxSleep - i" by linarith
    from less.hyps [OF this less.prems(1,2), of "wait_next env idx pid parity (i + 1) d"] n False show ?thesis
      by (subst wait_loop_round) (simp add: Let_def)
  qed
qed

lemma wf_fast_ecm: "wf_decsa d \<Longrightarrow> wf_decsa (snd (fast_ecm enabled capmt a idx d))"
  by (auto simp: fast_ecm_def Let_def split_def split: option.split intro!: wf_intros)

lemma wf_parity_wait:
  assumes "wf_decsa d" "env_ok env" "0 \<le> pid" "parity \<in> {0, 1, 2}"
  shows "wf_decsa (snd (parity_wait env enabled capmt a idx pid parity d))"
proof -
  obtain fe d1 where f: "fast_ecm enabled capmt a idx d = (fe, d1)" by fastforce
  have d1: "wf_decsa d1" using wf_fast_ecm [OF assms(1), of enabled capmt a idx] by (simp add: f)
  have d2: "wf_decsa (with_key idx (\<lambda>k. snd (key_Set_FastECM_CW_Parity pid parity False k)) d1)"
    using d1 assms(4) by (intro wf_intros) auto
  have d3: "wf_decsa (with_key idx (SetActiveParity2 pid parity) d1)"
    using d1 assms(3,4) by (intro wf_intros) auto
  show ?thesis
    unfolding parity_wait_def f prod.case Let_def
    using d2 d3 wf_wait_loop [OF assms(2,4) wf_with_adapter [OF d2, where f = "\<lambda>ad. ad\<lparr>bCW_Waiting := True\<rparr>"]]
    by (simp add: split_def)
qed

subsection \<open>Decrypt in every mode\<close>

lemma payload_offset_le: "unat (ts_packet_get_payload_offset p) \<le> TS_SIZE"
proof -
  have "unat (4 + 1 + p ! 4) \<le> 188" if "\<not> 183 < p ! 4"
  proof -
    have "unat (p ! 4) \<le> 183" using that by (simp add: word_less_nat_alt)
    then show ?thesis by (simp add: unat_word_ariths)
  qed
  moreover have "\<not> 182 < p ! 4 \<Longrightarrow> \<not> 183 < p ! 4" by (simp add: word_less_nat_alt)
  ultimately show ?thesis by (auto simp: ts_packet_get_payload_offset_def Let_def)
qed

primrec flow_all :: "('s \<Rightarrow> bool) \<Rightarrow> 's flow \<Rightarrow> bool" where
  "flow_all Q Return = True"
| "flow_all Q (Break s) = Q s"
| "flow_all Q (Continue s) = Q s"

lemma flow_if: "flow_all Q (if c then Break s else Continue s) = Q s"
  by simp

definition safe_scan :: "nat \<Rightarrow> 'c dscan \<Rightarrow> bool" where
  "safe_scan L s \<longleftrightarrow> wf_decsa (ds_decsa s) \<and> length (ds_data s) = L \<and> ds_currIdx s < 32 \<and>
     ds_wantsparity s \<in> {0, 1, 2} \<and> 0 \<le> ds_curPid s"

lemma length_des_payload:
  "l + TS_SIZE \<le> length data \<Longrightarrow> length (des_payload k parity l offset data) = length data"
proof -
  assume l: "l + TS_SIZE \<le> length data"
  have "length (fold (\<lambda>i data. put (l + offset + 8 * i) (key_Des (take 8 (drop (l + offset + 8 * i) data)) parity k) data) xs data)
      = length data" if "\<forall>i \<in> set xs. i < (TS_SIZE - offset) div 8" for xs
    using that l
  proof (induction xs arbitrary: data)
    case (Cons i xs)
    have "i < (TS_SIZE - offset) div 8" using Cons.prems by simp
    then have "8 * i + 8 \<le> 8 * ((TS_SIZE - offset) div 8)" by simp
    also have "\<dots> \<le> TS_SIZE - offset" by (rule times_div_less_eq_dividend)
    finally have i: "l + offset + 8 * i + 8 \<le> length data" using Cons.prems(2) by linarith
    have "length (key_Des (take 8 (drop (l + offset + 8 * i) data)) parity k) = 8"
      by (simp add: key_Des_def length_des)
    then have "length (put (l + offset + 8 * i) (key_Des (take 8 (drop (l + offset + 8 * i) data)) parity k) data) = length data"
      using i by (simp add: length_put)
    then show ?case using Cons by simp
  qed simp
  then show "length (des_payload k parity l offset data) = length data"
    unfolding des_payload_def by simp
qed

lemma safe_mapped:
  assumes s: "safe_scan L s" and l: "l + TS_SIZE \<le> L" and off: "offset \<le> TS_SIZE" and evp: "evp_ok evp"
    and idx: "0 \<le> ds_currIdx s"
  shows "returns (flow_all (safe_scan L)) (decrypt_mapped evp l offset s)"
proof -
  let ?n = "(TS_SIZE - offset) div 16 * 16"
  let ?in = "take ?n (drop (l + offset) (ds_data s))"
  obtain ok k out where A: "AesDecrypt evp (unat (drop_bit 6 ((ds_data s ! (l + 3) AND 0xC0) AND 0x40)) = 1) ?in
      (DeCSAKeyArray (ds_decsa s) ! nat (ds_currIdx s)) = (ok, k, out)"
    by (metis prod_cases3)
  have n: "?n \<le> TS_SIZE - offset" by simp
  then have li: "length ?in = ?n" using l off s by (simp add: safe_scan_def)
  have "length out = length ?in"
    using A evp by (auto simp: AesDecrypt_def evp_ok_def Let_def split_def split: option.splits if_splits)
  then have lo: "length out = ?n" using li by simp
  have i: "nat (ds_currIdx s) < 32" "wf_decsa (ds_decsa s)" using s idx by (simp_all add: safe_scan_def nat_less_iff)
  have wk: "wf_decsa_key k"
    using wf_key_settings(8) [OF wf_decsa_key_at [OF i(2,1)]] unfolding A [THEN arg_cong [where f = "\<lambda>x. fst (snd x)"], simplified, symmetric] .
  have "l + offset + length out \<le> length (ds_data s)"
    using n l off s unfolding lo safe_scan_def by linarith
  then have lp: "length (put (l + offset) out (ds_data s)) = L" using s by (simp add: length_put safe_scan_def)
  have wd: "wf_decsa (with_key (nat (ds_currIdx s)) (\<lambda>_. k) (ds_decsa s))"
    using s wk by (auto simp: safe_scan_def intro: wf_with_key)
  have des: "length (des_payload kk parity l offset (ds_data s)) = L" for kk parity
    using length_des_payload [of l "ds_data s"] l s by (simp add: safe_scan_def)
  note f = safe_scan_def clear_scrambling_def
  have c1: "safe_scan L (s\<lparr>ds_data := clear_scrambling l (des_payload kk parity l offset (ds_data s))\<rparr>)" for kk parity
    using s des by (simp add: f)
  define s2 where "s2 = s\<lparr>ds_decsa := with_key (nat (ds_currIdx s)) (\<lambda>_. k) (ds_decsa s), ds_data := put (l + offset) out (ds_data s)\<rparr>"
  have c2: "safe_scan L s2" "safe_scan L (s2\<lparr>ds_data := clear_scrambling l (ds_data s2)\<rparr>)"
    using s lp wd by (simp_all add: f s2_def)
  have c2': "safe_scan L (if ok then s2\<lparr>ds_data := clear_scrambling l (ds_data s2)\<rparr> else s2)" using c2 by simp
  have c3: "safe_scan L (s\<lparr>ds_ranges := r, ds_newRange := b, ds_ccs := c\<rparr>)" for r b c using s by (simp add: f)
  have k: "key_at (ds_currIdx s) (ds_decsa s) = Some (DeCSAKeyArray (ds_decsa s) ! nat (ds_currIdx s))"
    using i idx s by (simp add: safe_scan_def)
  obtain algo aes where m: "GetAlgo (ds_currIdx s) (ds_decsa s) = Some algo" "GetAes (ds_currIdx s) (ds_decsa s) = Some aes"
    using GetAlgo_eq [OF i(2)] GetAes_eq [OF i(2)] by blast
  show ?thesis
    unfolding decrypt_mapped_def Let_def m k bind.simps A prod.case s2_def [symmetric]
    by (intro returns_if) (simp_all (no_asm) only: returns_Some flow_all.simps c1 c2' c3 flow_if)
qed

lemma safe_one:
  assumes s: "safe_scan L s" and l: "l + TS_SIZE \<le> L" and evp: "evp_ok evp" and a: "wf_pid_map (AdapterPidMap a)"
  shows "returns (flow_all (safe_scan L)) (decrypt_one evp a l s)"
proof -
  let ?d = "drop l (ds_data s)"
  let ?idx = "SearchPIDinMAP (packet_pid ?d) a"
  let ?e = "ds_data s ! (l + 3) AND 0xC0"
  let ?s = "s\<lparr>ds_currIdx := ?idx, ds_curPid := packet_pid ?d,
    ds_wantsparity := (if ?e = 0x80 then 1 else if ?e = 0xC0 then 2 else ds_wantsparity s)\<rparr>"
  have "safe_scan L ?s"
    using s SearchPID_range [OF a, of "packet_pid ?d"] packet_pid_nonneg [of ?d] by (auto simp: safe_scan_def)
  from safe_mapped [OF this l payload_offset_le evp]
  have m: "0 \<le> ?idx \<and> c \<Longrightarrow> returns (flow_all (safe_scan L)) (decrypt_mapped evp l (unat (ts_packet_get_payload_offset ?d)) ?s)" for c
    by simp
  have "safe_scan L (s\<lparr>ds_newRange := True\<rparr>)" using s by (simp add: safe_scan_def)
  moreover have "\<not> length (ds_data s) < l + TS_SIZE" using s l by (simp add: safe_scan_def)
  ultimately show ?thesis
    unfolding decrypt_one_def Let_def
    by (intro returns_if m) (simp_all only: returns_Some flow_all.simps s simp_thms)
qed

lemma safe_decrypt_scan:
  "safe_scan L s \<Longrightarrow> evp_ok evp \<Longrightarrow> wf_pid_map (AdapterPidMap a) \<Longrightarrow> len + 187 \<le> int L \<Longrightarrow>
     returns (pred_option (safe_scan L)) (decrypt_scan evp a len l s)"
proof (induction evp a len l s rule: decrypt_scan.induct)
  case (1 evp a len l s)
  show ?case
  proof (cases "int l < len")
    case True
    then have "l + TS_SIZE \<le> L" using 1(5) by linarith
    from safe_one [OF 1(2) this 1(3,4)] obtain r where r: "decrypt_one evp a l s = Some r" "flow_all (safe_scan L) r"
      by (auto elim!: returnsE)
    show ?thesis
      using 1(1) [OF True r(1) _ _ 1(3-5)] r True by (cases r) (simp_all add: decrypt_scan.simps [of evp a len l s])
  qed (use 1(2) in \<open>simp add: decrypt_scan.simps [of evp a len l s]\<close>)
qed

lemma Decrypt_wf:
  assumes d: "wf_decsa d" and env: "env_ok env" and evp: "evp_ok evp" and a: "a < 64" and len: "len \<le> int (length data)"
  shows "returns (\<lambda>(ok, data', d'). wf_decsa d') (adapter_Decrypt evp env junk J enabled capmt a data len force d)"
proof -
  let ?s0 = "\<lparr>ds_data = data, ds_decsa = d, ds_currIdx = -1, ds_curPid = 0, ds_wantsparity = 0, ds_ranges = [],
    ds_newRange = True, ds_ccs = 0\<rparr>"
  have s0: "safe_scan (length data) ?s0" using d by (simp add: safe_scan_def)
  have am: "wf_pid_map (AdapterPidMap (DeCSAArray d ! a))" using d a by (rule wf_decsa_map_at)
  have l: "len - 187 + 187 \<le> int (length data)" using len by simp
  from safe_decrypt_scan [OF s0 evp am l, of 0] obtain r where
    r: "decrypt_scan evp (DeCSAArray d ! a) (len - 187) 0 ?s0 = Some r" "pred_option (safe_scan (length data)) r"
    by (auto elim!: returnsE)
  show ?thesis
  proof (cases r)
    case None
    then show ?thesis using r d by (simp add: adapter_Decrypt_def)
  next
    case (Some s)
    define idx where "idx = ds_currIdx s"
    have s: "wf_decsa (ds_decsa s)" "ds_wantsparity s \<in> {0, 1, 2}" "0 \<le> ds_curPid s"
      using r(2) by (simp_all add: Some safe_scan_def)
    obtain ok d1 where g: "(if idx \<ge> 0 then GetKeyStruct junk idx (ds_decsa s) else Some (False, ds_decsa s)) = Some (ok, d1)"
      "wf_decsa d1" "ok \<Longrightarrow> 0 \<le> idx \<and> idx < 32"
      using returns_GetKeyStruct [OF s(1), of junk idx] GetKeyStruct_ok [of junk idx "ds_decsa s"] s(1)
      by (cases "idx \<ge> 0") (auto elim!: returnsE)
    obtain algo aes where m: "GetAlgo idx (ds_decsa s) = Some algo" "GetAes idx (ds_decsa s) = Some aes"
      using GetAlgo_eq [OF s(1)] GetAes_eq [OF s(1)] by blast
    note w = wf_parity_wait [OF g(2) env s(3,2)]
    show ?thesis
      unfolding adapter_Decrypt_def r(1) bind.simps Some option.case Let_def idx_def [symmetric] m g(1) prod.case
      using s(1) g(2,3) w by (auto simp: split_def intro!: returns_if)
  qed
qed

subsection \<open>The packets\<close>

lemma Decrypt_packets_at:
  assumes d: "wf_decsa d" and env: "env_ok env" and J: "junk_ok J" and a: "a < 64" and len: "len \<le> int (length data)"
    and m: "csa_map d (DeCSAArray d ! a)"
    and D: "adapter_Decrypt evp env junk J enabled capmt a data len force d = Some (ok, data', d')"
  shows "data' = data \<or>
    (\<exists>rs idx keys cluster' n. in_order rs \<and> (\<forall>(st, en) \<in> set rs. en \<le> length data) \<and> 0 \<le> idx \<and> idx < 32 \<and>
       (\<forall>x \<in> set (cluster_packets rs). scrambled (pk x data) \<longrightarrow> packet_idx (DeCSAArray d ! a) (pk x data) = idx) \<and>
       dk_key (DeCSAKeyArray d' ! nat idx) = Some keys \<and> wf_keys keys \<and>
       decrypt_packets keys J data rs = (data', cluster', n) \<and> ok = (n > 0))"
proof -
  let ?s0 = "\<lparr>ds_data = data, ds_decsa = d, ds_currIdx = -1, ds_curPid = 0, ds_wantsparity = 0, ds_ranges = [],
    ds_newRange = True, ds_ccs = 0\<rparr>"
  have s0: "scan_inv data d (DeCSAArray d ! a) 0 ?s0" "open_range data 0 ?s0"
    by (simp_all add: scan_inv_def open_range_def in_order_def)
  have am: "wf_pid_map (AdapterPidMap (DeCSAArray d ! a))" using d a by (rule wf_decsa_map_at)
  have l: "len - 187 + 187 \<le> int (length data)" using len by simp
  obtain r where r: "decrypt_scan evp (DeCSAArray d ! a) (len - 187) 0 ?s0 = Some r"
    using D by (cases "decrypt_scan evp (DeCSAArray d ! a) (len - 187) 0 ?s0") (simp_all add: adapter_Decrypt_def)
  show ?thesis
  proof (cases r)
    case None
    then show ?thesis using D r by (simp add: adapter_Decrypt_def)
  next
    case (Some s)
    have I: "scan_inv data d (DeCSAArray d ! a) (length data) s"
      by (rule decrypt_scan_inv [OF s0 _ l am d m _ r [unfolded Some]]) simp_all
    then have sd: "ds_data s = data" "ds_decsa s = d" by (simp_all add: scan_inv_def)
    define idx where "idx = ds_currIdx s"
    note D = D [unfolded adapter_Decrypt_def r Some bind.simps option.case Let_def sd idx_def [symmetric]]
    show ?thesis
    proof (cases "data' = data")
      case False
      define w where "w d1 = (if ds_wantsparity s > 0
          then parity_wait env enabled capmt a (nat idx) (ds_curPid s) (ds_wantsparity s) d1 else (True, d1))" for d1
      obtain d1 where g: "GetKeyStruct junk idx d = Some (True, d1)" and idx: "0 \<le> idx" and ne: "ds_ranges s \<noteq> []" and
        P: "(ok, data', d') = (case Decrypt_packets J data (ds_ranges s) (DeCSAKeyArray (snd (w d1)) ! nat idx) of
            (data, cluster, n) \<Rightarrow> (n > 0, data, snd (w d1)))"
        using D False unfolding w_def [symmetric] by (auto simp: split_def split: if_splits Option.bind_splits)
      have i: "idx < 32" using I idx by (simp add: scan_inv_def idx_def)
      have d': "d' = snd (w d1)" using P by (simp add: split_def)
      have wd: "wf_decsa d'"
      proof -
        have d1: "wf_decsa d1" using returnsD [OF returns_GetKeyStruct [OF d] g] by simp
        show ?thesis
        proof (cases "ds_wantsparity s > 0")
          case True
          then show ?thesis
            using wf_parity_wait [OF d1 env, of "ds_curPid s" "ds_wantsparity s" enabled capmt a "nat idx"] I idx
            by (auto simp: d' scan_inv_def idx_def w_def)
        qed (use d1 in \<open>simp add: d' w_def\<close>)
      qed
      have kw: "wf_decsa_key (DeCSAKeyArray d' ! nat idx)" using wf_decsa_key_at [OF wd] i idx by (simp add: nat_less_iff)
      obtain keys where k: "dk_key (DeCSAKeyArray d' ! nat idx) = Some keys"
        using P False by (cases "dk_key (DeCSAKeyArray d' ! nat idx)") (auto simp: Decrypt_packets_def d')
      have wk: "wf_keys keys" using kw k by (simp add: wf_decsa_key_def)
      obtain r c n where e: "decrypt_packets keys J data (ds_ranges s) = (r, c, n)" by (metis prod_cases3)
      then have "r = data'" "ok = (n > 0)" using P k by (auto simp: Decrypt_packets_def d')
      with e have "decrypt_packets keys J data (ds_ranges s) = (data', c, n)" "ok = (n > 0)" by simp_all
      then show ?thesis
        using I idx i k wk unfolding scan_inv_def idx_def [symmetric] by blast
    qed simp
  qed
qed

lemma Decrypt_each_packet:
  assumes d: "wf_decsa d" and env: "env_ok env" and J: "junk_ok J" and a: "a < 64" and len: "len \<le> int (length data)"
    and m: "csa_map d (DeCSAArray d ! a)"
    and D: "adapter_Decrypt evp env junk J enabled capmt a data len force d = Some (ok, data', d')"
  shows "length data' = length data"
    "TS_SIZE dvd x \<Longrightarrow> x + TS_SIZE \<le> length data \<Longrightarrow> pk x data' = pk x data \<or>
       scrambled (pk x data) \<and> 0 \<le> packet_idx (DeCSAArray d ! a) (pk x data) \<and>
       (\<exists>keys. dk_key (DeCSAKeyArray d' ! nat (packet_idx (DeCSAArray d ! a) (pk x data))) = Some keys \<and>
          pk x data' = descramble keys (pk x data))"
proof -
  consider "data' = data" | rs idx keys cluster' n where "in_order rs" "\<forall>(st, en) \<in> set rs. en \<le> length data" "0 \<le> idx"
    "\<forall>x \<in> set (cluster_packets rs). scrambled (pk x data) \<longrightarrow> packet_idx (DeCSAArray d ! a) (pk x data) = idx"
    "dk_key (DeCSAKeyArray d' ! nat idx) = Some keys" "wf_keys keys" "decrypt_packets keys J data rs = (data', cluster', n)"
    using Decrypt_packets_at [OF d env J a len m D] by blast
  then have "length data' = length data \<and> (TS_SIZE dvd x \<longrightarrow> x + TS_SIZE \<le> length data \<longrightarrow> pk x data' = pk x data \<or>
       scrambled (pk x data) \<and> 0 \<le> packet_idx (DeCSAArray d ! a) (pk x data) \<and>
       (\<exists>keys. dk_key (DeCSAKeyArray d' ! nat (packet_idx (DeCSAArray d ! a) (pk x data))) = Some keys \<and>
          pk x data' = descramble keys (pk x data)))"
  proof cases
    case 2
    note spec = decrypt_packets_spec [OF in_order_cluster_ok [OF 2(1,2)] 2(6) J 2(7) refl refl refl]
    have l: "length data' = length data" using spec by blast
    let ?as = "cluster_packets rs"
    let ?bs = "selected 0 False (map (\<lambda>a. pk a data) ?as)"
    have "pk x data' = pk x data \<or> scrambled (pk x data) \<and> packet_idx (DeCSAArray d ! a) (pk x data) = idx \<and>
        pk x data' = descramble keys (pk x data)"
      if x: "TS_SIZE dvd x" "x + TS_SIZE \<le> length data"
    proof (cases "x \<in> set ?as")
      case True
      then obtain i where i: "i < length ?as" "?as ! i = x" by (auto simp: in_set_conv_nth)
      have "map (\<lambda>a. pk a data') ?as ! i =
          map2 (\<lambda>b p. if b then descramble keys p else p) ?bs (map (\<lambda>a. pk a data) ?as) ! i"
        using spec by simp
      then have "pk x data' = (if ?bs ! i then descramble keys (pk x data) else pk x data)" using i by simp
      then show ?thesis using 2(4) True by (auto simp: descramble_def)
    next
      case False
      have "pk x data' = pk x data"
      proof (rule pk_cong [OF l])
        fix y assume y: "x \<le> y" "y < x + TS_SIZE"
        have "\<not> (b \<le> y \<and> y < b + TS_SIZE)" if b: "b \<in> set ?as" for b
        proof
          assume n: "b \<le> y \<and> y < b + TS_SIZE"
          have bd: "TS_SIZE dvd b" using b mem_cluster_packets [OF 2(1)] by simp
          have "b = x"
          proof (cases "b \<le> x")
            case True
            then show ?thesis using next_packet [OF x(1) bd True] n y by simp
          next
            case False
            then show ?thesis using next_packet [OF bd x(1)] n y by simp
          qed
          then show False using \<open>x \<notin> set ?as\<close> b by simp
        qed
        then show "data' ! y = data ! y" using spec by blast
      qed
      then show ?thesis by simp
    qed
    then show ?thesis using l 2(3,5) by blast
  qed simp
  then show "length data' = length data"
    "TS_SIZE dvd x \<Longrightarrow> x + TS_SIZE \<le> length data \<Longrightarrow> pk x data' = pk x data \<or>
       scrambled (pk x data) \<and> 0 \<le> packet_idx (DeCSAArray d ! a) (pk x data) \<and>
       (\<exists>keys. dk_key (DeCSAKeyArray d' ! nat (packet_idx (DeCSAArray d ! a) (pk x data))) = Some keys \<and>
          pk x data' = descramble keys (pk x data))"
    by blast+
qed

subsection \<open>A concrete descrambler\<close>

text \<open>Key 3 holds two control words, even and odd, that arrived seven seconds apart; pid 100 uses the even one.\<close>

definition fastecm0 :: FAST_ECM where
  "fastecm0 = \<lparr>nextparity = 1, evenparityTime = 9000, oddparityTime = 2000, csaSid = 0, csaCaid = 0x09C4, csaPid = 0,
     activparity = [(100, 1)], activparity2 = [(100, 1)]\<rparr>"

definition decsa0 :: "unit decsa" where
  "decsa0 = with_adapter 5 (adapter_SetCaPid 100 3)
     (with_key 3 (\<lambda>k. k\<lparr>dk_key := Some (keys0\<lparr>fastecm := fastecm0\<rparr>)\<rparr>) (new_decsa (\<lambda>i. [[], []])))"

definition evp0 :: "unit evp" where
  "evp0 = \<lparr>evp_malloc = True, evp_new = (Some (), Some ()), evp_init = (\<lambda>c k x. (True, x)), evp_no_padding = (\<lambda>x. (True, x)),
     evp_update = (\<lambda>data x. (True, x, data))\<rparr>"

lemma wf_new_decsa: "(\<And>i. length (junk i) = 2) \<Longrightarrow> wf_decsa (new_decsa junk)"
  by (simp add: wf_decsa_def new_decsa_def wf_pid_map_def list_all_length new_decsa_key_def wf_decsa_key_def)

lemma wf_fastecm0: "wf_fastecm fastecm0"
  by (simp add: fastecm0_def wf_fastecm_def wf_parities_def sm_ok_def)

lemma wf_decsa0: "wf_decsa decsa0"
proof -
  have "wf_keys (keys0\<lparr>fastecm := fastecm0\<rparr>)" using keys0_ok wf_fastecm0 by (simp add: wf_keys_def)
  moreover have "wf_decsa (new_decsa (\<lambda>i. [[], []]) :: unit decsa)" by (rule wf_new_decsa) simp
  moreover have "wf_pid_map (AdapterPidMap (adapter_SetCaPid 100 3 a))" if "wf_pid_map (AdapterPidMap a)" for a
    using that by (simp add: adapter_SetCaPid_def wf_pid_map_put)
  ultimately show ?thesis
    unfolding decsa0_def by (intro wf_with_adapter wf_with_key) (auto simp: wf_decsa_key_def)
qed

lemma decsa0_at: "DeCSAKeyArray decsa0 ! 3 = (new_decsa_key [[], []])\<lparr>dk_key := Some (keys0\<lparr>fastecm := fastecm0\<rparr>)\<rparr>"
  "DeCSAArray decsa0 ! 5 = \<lparr>AdapterPidMap = [(100, 3)], bCW_Waiting = False, bAbort = False\<rparr>"
  by (simp_all add: decsa0_def new_decsa_def adapter_SetCaPid_def with_key_def with_adapter_def)

subsection \<open>Properties\<close>

text \<open>C9: the wait for a control word ends after at least one and at most 51 sleeps. It ends in the first round in
  which another thread has asked to stop, or the word of the wanted parity is there, or the timer has run out, or
  else in round 51; the call goes on unless it was stopped.\<close>

theorem wait_loop_terminates:
  "\<exists>n. 0 < n \<and> n \<le> 51 \<and> snd (snd (wait_loop env a idx pid parity 0 d)) = n \<and>
     (\<forall>j. 0 < j \<and> j < n \<longrightarrow> \<not> wait_aborts env a j (wait_state env idx pid parity (j - 1) d) \<and>
        \<not> word_is_there env idx pid parity j (wait_state env idx pid parity (j - 1) d) \<and> \<not> we_timeout env j) \<and>
     (fst (wait_loop env a idx pid parity 0 d) \<longleftrightarrow> \<not> wait_aborts env a n (wait_state env idx pid parity (n - 1) d)) \<and>
     (wait_aborts env a n (wait_state env idx pid parity (n - 1) d) \<or>
      word_is_there env idx pid parity n (wait_state env idx pid parity (n - 1) d) \<or> we_timeout env n \<or> n = 51)"
  using wait_loop_from [of 0 env a idx pid parity d] by simp

theorem wait_loop_terminates_witness:
  "let env = \<lparr>we_sleep = (\<lambda>i d. d), we_timeout = (\<lambda>i. i = 2)\<rparr> in
   fst (wait_loop env 5 3 100 2 0 decsa0) \<and> snd (snd (wait_loop env 5 3 100 2 0 decsa0)) = 2"
proof -
  define env :: "unit wait_env" where "env = \<lparr>we_sleep = (\<lambda>i d. d), we_timeout = (\<lambda>i. i = 2)\<rparr>"
  obtain n where n: "0 < n" "snd (snd (wait_loop env 5 3 100 2 0 decsa0)) = n"
    "\<forall>j. 0 < j \<and> j < n \<longrightarrow> \<not> wait_aborts env 5 j (wait_state env 3 100 2 (j - 1) decsa0) \<and>
        \<not> word_is_there env 3 100 2 j (wait_state env 3 100 2 (j - 1) decsa0) \<and> \<not> we_timeout env j"
    "fst (wait_loop env 5 3 100 2 0 decsa0) \<longleftrightarrow> \<not> wait_aborts env 5 n (wait_state env 3 100 2 (n - 1) decsa0)"
    "wait_aborts env 5 n (wait_state env 3 100 2 (n - 1) decsa0) \<or>
      word_is_there env 3 100 2 n (wait_state env 3 100 2 (n - 1) decsa0) \<or> we_timeout env n \<or> n = 51"
    using wait_loop_terminates [of env 5 3 100 2 decsa0] by blast
  have t: "we_timeout env j \<longleftrightarrow> j = 2" for j by (simp add: env_def)
  have w1: "\<not> word_is_there env 3 100 2 1 decsa0"
    by (simp add: word_is_there_def env_def decsa0_at key_Set_FastECM_CW_Parity_def pr_ok_set must_wait_def fastecm0_def
        sm_get_def time_gap_def max_def min_def)
  have ab: "\<not> wait_aborts env 5 j (wait_state env 3 100 2 i decsa0)" for i j
  proof -
    have "DeCSAArray (wait_state env 3 100 2 i decsa0) = DeCSAArray decsa0"
      by (induction i) (simp_all add: wait_next_def env_def)
    then show ?thesis by (simp add: wait_aborts_def env_def decsa0_at)
  qed
  have "\<not> 2 < n" using n(3) t by (metis zero_less_numeral)
  moreover have "n \<noteq> 1" using n(5) w1 ab t by auto
  ultimately have "n = 2" using n(1) by simp
  moreover have "fst (wait_loop env 5 3 100 2 0 decsa0)" using n(4) ab by blast
  ultimately show ?thesis using n(2) unfolding env_def [symmetric] Let_def by simp
qed

text \<open>C8: a call of \<open>Decrypt\<close> on any buffer, in any mode of its keys and whatever other threads do while it waits, returns
  without leaving the buffer or the array of keys, and keeps the invariant of the descrambler. In CSA mode it keeps the length
  of the buffer and changes a packet only if it is scrambled and its pid is mapped, and then to what the reference makes of it
  with the key of its own pid's index.\<close>

theorem Decrypt_safe:
  assumes "wf_decsa d" "env_ok env" "evp_ok evp" "junk_ok J" "a < 64" "len \<le> int (length data)"
  shows "\<exists>ok data' d'. adapter_Decrypt evp env junk J enabled capmt a data len force d = Some (ok, data', d') \<and> wf_decsa d' \<and>
    (csa_map d (DeCSAArray d ! a) \<longrightarrow> length data' = length data \<and>
     (\<forall>x. TS_SIZE dvd x \<and> x + TS_SIZE \<le> length data \<longrightarrow> pk x data' = pk x data \<or>
        scrambled (pk x data) \<and> 0 \<le> packet_idx (DeCSAArray d ! a) (pk x data) \<and>
        (\<exists>keys. dk_key (DeCSAKeyArray d' ! nat (packet_idx (DeCSAArray d ! a) (pk x data))) = Some keys \<and>
           pk x data' = descramble keys (pk x data))))"
proof -
  obtain ok data' d' where D: "adapter_Decrypt evp env junk J enabled capmt a data len force d = Some (ok, data', d')" "wf_decsa d'"
    using Decrypt_wf [OF assms(1-3,5,6), of junk J enabled capmt force] by (auto elim!: returnsE)
  then show ?thesis using Decrypt_each_packet [OF assms(1,2,4,5,6) _ D(1)] by blast
qed

theorem Decrypt_safe_witness:
  "let data = [0x47, 0, 100, 0x90] @ replicate 184 7 in
   \<exists>ok data' d'. adapter_Decrypt evp0 \<lparr>we_sleep = (\<lambda>i d. d), we_timeout = (\<lambda>i. True)\<rparr> keys0 junk0 True None 5 data 188 True decsa0 =
       Some (ok, data', d') \<and> wf_decsa d' \<and> length data' = 188 \<and>
       (pk 0 data' = data \<or> (\<exists>keys. dk_key (DeCSAKeyArray d' ! 3) = Some keys \<and> pk 0 data' = descramble keys data))"
proof -
  let ?env = "\<lparr>we_sleep = (\<lambda>i d. d), we_timeout = (\<lambda>i. True)\<rparr> :: unit wait_env"
  define data :: bytes where "data = [0x47, 0, 100, 0x90] @ replicate 184 7"
  have e: "env_ok ?env" "evp_ok evp0" by (simp_all add: env_ok_def evp_ok_def evp0_def)
  have m: "csa_map decsa0 (DeCSAArray decsa0 ! 5)"
    by (simp add: csa_map_def decsa0_at csa_mode_def new_decsa_key_def)
  have l: "length data = 188" "pk 0 data = data" by (simp_all add: data_def pk_def)
  have i: "packet_idx (DeCSAArray decsa0 ! 5) data = 3"
    by (simp add: packet_idx_def packet_pid_def data_def SearchPIDinMAP_def decsa0_at)
  have c: "(5 :: nat) < 64" "188 \<le> int (length data)" using l by simp_all
  from Decrypt_safe [OF wf_decsa0 e junk0_ok c, of keys0 True None True] m obtain ok data' d' where
    D: "adapter_Decrypt evp0 ?env keys0 junk0 True None 5 data 188 True decsa0 = Some (ok, data', d')" "wf_decsa d'"
      "length data' = length data" and
    P: "\<forall>x. TS_SIZE dvd x \<and> x + TS_SIZE \<le> length data \<longrightarrow> pk x data' = pk x data \<or>
        scrambled (pk x data) \<and> 0 \<le> packet_idx (DeCSAArray decsa0 ! 5) (pk x data) \<and>
        (\<exists>keys. dk_key (DeCSAKeyArray d' ! nat (packet_idx (DeCSAArray decsa0 ! 5) (pk x data))) = Some keys \<and>
           pk x data' = descramble keys (pk x data))"
    by blast
  have "pk 0 data' = data \<or> (\<exists>keys. dk_key (DeCSAKeyArray d' ! 3) = Some keys \<and> pk 0 data' = descramble keys data)"
    using P [rule_format, of 0] l i by auto
  then show ?thesis unfolding data_def [symmetric] Let_def using D l by auto
qed

end
