(* ===== verification/DecsaLib.thy ===== *)
theory DecsaLib
  imports DecsaSpec
begin

text \<open>
  The build with libdvbcsa (\<open>LIBDVBCSA\<close>, without \<open>LIBDVBCSA_NEW\<close>): what DeCSA.cpp does differently. A key
  index has two keys of the library instead of the key structure of FFdecsa, and \<open>Decrypt\<close> collects the CSA packets of
  the buffer in two batches, by parity, and has each decrypted at once; there is no FastECM and no wait. Everything else
  is that of \<open>DecsaKey\<close> and \<open>DecsaPids\<close>, on the descrambler \<open>lb_decsa\<close>.

  The library is not part of the repository; its functions are the record \<open>dvbcsa\<close>, and \<open>dvbcsa_ok\<close> says what its
  documentation does: a batch is decrypted with the common scrambling algorithm and the control word of the key.
\<close>

subsection \<open>The library\<close>

text \<open>\<open>bs_decrypt k payloads maxlen\<close> is what the payloads of a batch are afterwards.\<close>

record 'k dvbcsa =
  bs_key_alloc :: "'k option"
  bs_key_set :: "bytes \<Rightarrow> 'k \<Rightarrow> 'k"
  bs_batch_size :: nat
  bs_decrypt :: "'k \<Rightarrow> bytes list \<Rightarrow> nat \<Rightarrow> bytes list"

definition dvbcsa_ok :: "'k dvbcsa \<Rightarrow> bool" where
  "dvbcsa_ok B \<longleftrightarrow> 0 < bs_batch_size B \<and>
     (\<forall>w k ps. length w = 8 \<and> length ps \<le> bs_batch_size B \<and> (\<forall>p \<in> set ps. length p \<le> 184) \<longrightarrow>
        bs_decrypt B (bs_key_set B w k) ps 184 = map (csa_decrypt w (key_schedule_block w 0)) ps)"

subsection \<open>Keys\<close>

record ('c, 'k) lib_decsa =
  lb_decsa :: "'c decsa"
  cs_key_even :: "'k option list"
  cs_key_odd :: "'k option list"

definition new_lib_decsa :: "(nat \<Rightarrow> u32 list list) \<Rightarrow> ('c, 'k) lib_decsa" where
  "new_lib_decsa junk = \<lparr>lb_decsa = new_decsa junk, cs_key_even = replicate 32 None, cs_key_odd = replicate 32 None\<rparr>"

definition lib_GetorCreateKeyStruct :: "'k dvbcsa \<Rightarrow> nat \<Rightarrow> ('c, 'k) lib_decsa \<Rightarrow> bool \<times> ('c, 'k) lib_decsa" where
  "lib_GetorCreateKeyStruct B i s =
     (let s = (if cs_key_even s ! i = None then s\<lparr>cs_key_even := (cs_key_even s)[i := bs_key_alloc B]\<rparr> else s);
          s = (if cs_key_odd s ! i = None then s\<lparr>cs_key_odd := (cs_key_odd s)[i := bs_key_alloc B]\<rparr> else s)
      in (cs_key_even s ! i \<noteq> None \<and> cs_key_odd s ! i \<noteq> None, s))"

text \<open>The two keys are fields of the element of the array of keys: once that is there, so are they.\<close>

definition lib_GetKeyStruct :: "'k dvbcsa \<Rightarrow> int \<Rightarrow> ('c, 'k) lib_decsa \<Rightarrow> (bool \<times> ('c, 'k) lib_decsa) option" where
  "lib_GetKeyStruct B idx s =
     (if idx \<ge> 0 \<and> idx < MAX_CSA_IDX
      then do { k \<leftarrow> key_at idx (lb_decsa s); Some (lib_GetorCreateKeyStruct B (nat idx) s) }
      else Some (False, s))"

definition lib_Set_even_control_word :: "'k dvbcsa \<Rightarrow> nat \<Rightarrow> bytes \<Rightarrow> ('c, 'k) lib_decsa \<Rightarrow> bool \<times> ('c, 'k) lib_decsa" where
  "lib_Set_even_control_word B i cw s =
     (case cs_key_even s ! i of
        Some k \<Rightarrow> (True, s\<lparr>cs_key_even := (cs_key_even s)[i := Some (bs_key_set B cw k)]\<rparr>)
      | None \<Rightarrow> (False, s))"

definition lib_Set_odd_control_word :: "'k dvbcsa \<Rightarrow> nat \<Rightarrow> bytes \<Rightarrow> ('c, 'k) lib_decsa \<Rightarrow> bool \<times> ('c, 'k) lib_decsa" where
  "lib_Set_odd_control_word B i cw s =
     (case cs_key_odd s ! i of
        Some k \<Rightarrow> (True, s\<lparr>cs_key_odd := (cs_key_odd s)[i := Some (bs_key_set B cw k)]\<rparr>)
      | None \<Rightarrow> (False, s))"

definition lib_SetDescr :: "'k dvbcsa \<Rightarrow> u32 \<Rightarrow> u32 \<Rightarrow> bytes \<Rightarrow> ('c, 'k) lib_decsa \<Rightarrow> ('c, 'k) lib_decsa option" where
  "lib_SetDescr B index parity cw s =
     (let idx = sint index in
      if parity > 1 then Some s
      else
        do { (ok, s) \<leftarrow> (if idx < MAX_CSA_IDX then lib_GetKeyStruct B idx s else Some (False, s));
             if ok then
               do { d \<leftarrow> upd_key idx (Des_set_key cw (unat parity)) (lb_decsa s);
                    let s = s\<lparr>lb_decsa := d\<rparr>;
                    Some (if parity = 0 then snd (lib_Set_even_control_word B (nat idx) cw s)
                          else snd (lib_Set_odd_control_word B (nat idx) cw s)) }
             else Some s })"

definition lib_StopDecrypt :: "int \<Rightarrow> ('c, 'k) lib_decsa \<Rightarrow> ('c, 'k) lib_decsa option" where
  "lib_StopDecrypt adapter_index s =
     (if adapter_index < 0 \<or> adapter_index \<ge> MAXADAPTER then Some s
      else do { d \<leftarrow> upd_adapter adapter_index adapter_CancelWait (lb_decsa s); Some (s\<lparr>lb_decsa := d\<rparr>) })"

subsection \<open>The batches\<close>

text \<open>An entry of a batch is the place and the length of a payload.\<close>

record 'c lscan =
  ls_data :: bytes
  ls_decsa :: "'c decsa"
  ls_currIdx :: int
  ls_wantsparity :: int
  ls_even :: "(nat \<times> nat) list"
  ls_odd :: "(nat \<times> nat) list"
  ls_ccs :: nat

definition lib_mapped :: "'k dvbcsa \<Rightarrow> 'c evp \<Rightarrow> nat \<Rightarrow> nat \<Rightarrow> 'c lscan \<Rightarrow> 'c lscan flow option" where
  "lib_mapped B evp l offset s =
     (let data = ls_data s; d = ls_decsa s; idx = ls_currIdx s; ev_od = data ! (l + 3) AND 0xC0;
          parity = unat (drop_bit 6 (ev_od AND 0x40))
      in
      do { algo \<leftarrow> GetAlgo idx d;
           aes \<leftarrow> GetAes idx d;
           if algo = CA_ALGO_DES then
             do { k \<leftarrow> key_at idx d;
                  Some (Continue (s\<lparr>ls_data := clear_scrambling l (des_payload k parity l offset data)\<rparr>)) }
           else if algo = CA_ALGO_AES128 \<or> aes \<noteq> 0 then
             do { k \<leftarrow> key_at idx d;
                  let n = (TS_SIZE - offset) div 16 * 16;
                  let (ok, k, out) = AesDecrypt evp (parity = 1) (take n (drop (l + offset) data)) k;
                  let s = s\<lparr>ls_decsa := with_key (nat idx) (\<lambda>_. k) d, ls_data := put (l + offset) out data\<rparr>;
                  Some (Continue (if ok then s\<lparr>ls_data := clear_scrambling l (ls_data s)\<rparr> else s)) }
           else
             (let s = s\<lparr>ls_data := clear_scrambling l data\<rparr>;
                  s = (if parity = 0 then s\<lparr>ls_even := ls_even s @ [(l + offset, TS_SIZE - offset)]\<rparr>
                       else s\<lparr>ls_odd := ls_odd s @ [(l + offset, TS_SIZE - offset)]\<rparr>);
                  s = s\<lparr>ls_ccs := ls_ccs s + 1\<rparr>
              in Some (if ls_ccs s \<ge> bs_batch_size B then Break s else Continue s)) })"

definition lib_one :: "'k dvbcsa \<Rightarrow> 'c evp \<Rightarrow> decsa_adapter \<Rightarrow> nat \<Rightarrow> 'c lscan \<Rightarrow> 'c lscan flow option" where
  "lib_one B evp a l s =
     (let data = ls_data s in
      if length data < l + TS_SIZE then None
      else if data ! l \<noteq> TS_SYNC_BYTE then Some (Break s)
      else
        (let ev_od = data ! (l + 3) AND 0xC0 in
         if ev_od AND 0x80 \<noteq> 0 then
           (let offset = unat (ts_packet_get_payload_offset (drop l data)) in
            if offset = 0 then Some (Continue s)
            else
              (let pid = packet_pid (drop l data); idx = SearchPIDinMAP pid a in
               if l = 0 \<and> (idx < 0 \<or> pid = 0x1FFF) then Some Return
               else if idx \<ge> 0 \<and> pid < 0x1FFF \<and> (ls_currIdx s < 0 \<or> idx = ls_currIdx s) then
                 lib_mapped B evp l offset
                   (s\<lparr>ls_currIdx := idx,
                      ls_wantsparity := (if ev_od = 0x80 then 1 else if ev_od = 0xC0 then 2 else ls_wantsparity s)\<rparr>)
               else Some (Continue s)))
         else if l = 0 then Some Return else Some (Continue s)))"

function lib_scan :: "'k dvbcsa \<Rightarrow> 'c evp \<Rightarrow> decsa_adapter \<Rightarrow> int \<Rightarrow> nat \<Rightarrow> 'c lscan \<Rightarrow> 'c lscan option option" where
  "lib_scan B evp a len l s =
     (if int l < len then
        (case lib_one B evp a l s of
           None \<Rightarrow> None
         | Some Return \<Rightarrow> Some None
         | Some (Break s) \<Rightarrow> Some (Some s)
         | Some (Continue s) \<Rightarrow> lib_scan B evp a len (l + TS_SIZE) s)
      else Some (Some s))"
  by pat_completeness auto

termination by (relation "measure (\<lambda>(B, evp, a, len, l, s). nat (len - int l))") auto

declare lib_scan.simps [simp del]

text \<open>Here \<open>None\<close> is a call of the library with a null pointer for the key.\<close>

definition Decrypt_batch :: "'k dvbcsa \<Rightarrow> 'k option \<Rightarrow> (nat \<times> nat) list \<Rightarrow> bytes \<Rightarrow> bytes option" where
  "Decrypt_batch B key batch data =
     map_option (\<lambda>k. fold (\<lambda>((off, len), out) data. put off out data)
       (zip batch (bs_decrypt B k (map (\<lambda>(off, len). take len (drop off data)) batch) 184)) data) key"

definition lib_Decrypt ::
  "'k dvbcsa \<Rightarrow> 'c evp \<Rightarrow> nat \<Rightarrow> bytes \<Rightarrow> int \<Rightarrow> ('c, 'k) lib_decsa \<Rightarrow> (bool \<times> bytes \<times> ('c, 'k) lib_decsa) option" where
  "lib_Decrypt B evp a data len s =
     do { r \<leftarrow> lib_scan B evp (DeCSAArray (lb_decsa s) ! a) (len - 187) 0
             \<lparr>ls_data = data, ls_decsa = lb_decsa s, ls_currIdx = -1, ls_wantsparity = 0, ls_even = [], ls_odd = [],
              ls_ccs = 0\<rparr>;
          case r of
            None \<Rightarrow> Some (False, data, s)
          | Some t \<Rightarrow>
              (let data = ls_data t; s = s\<lparr>lb_decsa := ls_decsa t\<rparr>; d = lb_decsa s; idx = ls_currIdx t in
               do { algo \<leftarrow> GetAlgo idx d;
                    aes \<leftarrow> GetAes idx d;
                    if idx \<ge> 0 \<and> (algo = CA_ALGO_DES \<or> algo = CA_ALGO_AES128 \<or> aes \<noteq> 0) then Some (True, data, s)
                    else
                      do { (ok, s) \<leftarrow> (if idx \<ge> 0 \<and> ls_wantsparity t > 0 then lib_GetKeyStruct B idx s else Some (False, s));
                           if ok then
                             do { data \<leftarrow> (if ls_even t \<noteq> []
                                           then Decrypt_batch B (cs_key_even s ! nat idx) (ls_even t) data else Some data);
                                  data \<leftarrow> (if ls_odd t \<noteq> []
                                           then Decrypt_batch B (cs_key_odd s ! nat idx) (ls_odd t) data else Some data);
                                  Some (True, data, s) }
                           else Some (False, data, s) } }) }"

subsection \<open>Packets of a batch\<close>

text \<open>The packets that go into a batch when \<open>idx\<close> is the key index in hand.\<close>

definition in_batch :: "decsa_adapter \<Rightarrow> int \<Rightarrow> bytes \<Rightarrow> bool" where
  "in_batch a idx p \<longleftrightarrow> scrambled p \<and> ts_packet_get_payload_offset p \<noteq> 0 \<and> packet_idx a p = idx \<and> packet_pid p < 0x1FFF"

lemma payload_offset_start:
  assumes "ts_packet_get_payload_offset p \<noteq> 0"
  shows "unat (ts_packet_get_payload_offset p) = payload_start p"
proof -
  have m: "x AND 0x20 = (if bit x 5 then 0x20 else 0)" for x :: u8
    by (simp add: word8_eq all_less_8 bit_and_iff)
  have "unat (4 + 1 + p ! 4) = min 188 (5 + unat (p ! 4))" if "\<not> 183 < p ! 4"
  proof -
    have "unat (p ! 4) \<le> 183" using that by (simp add: word_less_nat_alt)
    then show ?thesis by (simp add: unat_word_ariths)
  qed
  moreover have "\<not> 182 < p ! 4 \<Longrightarrow> \<not> 183 < p ! 4" by (simp add: word_less_nat_alt)
  ultimately show ?thesis
    using assms unfolding ts_packet_get_payload_offset_def payload_start_def m by (auto simp: Let_def split: if_splits)
qed

definition aligned :: "nat list \<Rightarrow> nat \<Rightarrow> bool" where
  "aligned P L \<longleftrightarrow> distinct P \<and> (\<forall>l \<in> set P. TS_SIZE dvd l \<and> l + TS_SIZE \<le> L)"

lemma dvd_apart: "TS_SIZE dvd x \<Longrightarrow> TS_SIZE dvd y \<Longrightarrow> x \<noteq> y \<Longrightarrow> apart x y"
  using next_packet [of x y] next_packet [of y x] by (fastforce simp: apart_def)

lemma aligned_filter: "aligned P L \<Longrightarrow> aligned (filter Q P) L"
  by (simp add: aligned_def)

lemma fold_aligned:
  assumes P: "aligned P L" and len: "length mem = L" and x: "TS_SIZE dvd x"
    and loc: "\<And>l m. l \<in> set P \<Longrightarrow> length m = L \<Longrightarrow> frame_at l m (F l m)"
    and eff: "\<And>l m. l \<in> set P \<Longrightarrow> length m = L \<Longrightarrow> pk l (F l m) = G l (pk l m)"
  shows "pk x (fold F P mem) = (if x \<in> set P then G x (pk x mem) else pk x mem)" "length (fold F P mem) = L"
proof -
  have ap: "apart g h" if "g \<in> set P" "h \<in> insert x (set P)" "g \<noteq> h" for g h
    using that P x by (auto simp: aligned_def intro: dvd_apart)
  have d: "distinct P" using P by (simp add: aligned_def)
  show "pk x (fold F P mem) = (if x \<in> set P then G x (pk x mem) else pk x mem)" "length (fold F P mem) = L"
    using fold_packets(1,2) [where ks = P and k = x and A = "\<lambda>l. l" and F = F and G = G, OF loc eff ap d len] by simp_all
qed

lemma pk_cleared:
  assumes P: "aligned P (length data)" and x: "TS_SIZE dvd x"
  shows "pk x (fold clear_scrambling P data) = (if x \<in> set P then clear_bits (pk x data) else pk x data)"
    "length (fold clear_scrambling P data) = length data"
proof -
  have loc: "frame_at l m (clear_scrambling l m)" if "l \<in> set P" for l m
    by (auto simp: frame_at_def clear_scrambling_def)
  have eff: "pk l (clear_scrambling l m) = clear_bits (pk l m)" if "l \<in> set P" "length m = length data" for l m
  proof -
    have "l + 188 \<le> length m" using P that by (simp add: aligned_def)
    then show ?thesis using pk_clear [of l m] by (simp add: clear_scrambling_def nth_pk)
  qed
  show "pk x (fold clear_scrambling P data) = (if x \<in> set P then clear_bits (pk x data) else pk x data)"
    "length (fold clear_scrambling P data) = length data"
    using fold_aligned [where F = clear_scrambling and G = "\<lambda>l. clear_bits", OF P refl x loc eff] by simp_all
qed

text \<open>What a batch does to the packets whose payloads it names.\<close>

definition entry :: "bytes \<Rightarrow> nat \<Rightarrow> nat \<times> nat" where
  "entry data l = (l + payload_start (pk l data), TS_SIZE - payload_start (pk l data))"

definition decrypt_payload :: "bytes \<Rightarrow> nat \<Rightarrow> bytes \<Rightarrow> bytes" where
  "decrypt_payload w n p = take n p @ csa_decrypt w (key_schedule_block w 0) (drop n p)"

lemma payload_start_range: "4 \<le> payload_start p" "payload_start p \<le> 188"
  by (simp_all add: payload_start_def)

lemma Decrypt_batch_at:
  assumes B: "dvbcsa_ok B" "length w = 8" and Q: "aligned Q (length data)" "length Q \<le> bs_batch_size B"
    and mem: "length mem = length data"
  shows "\<exists>mem'. Decrypt_batch B (Some (bs_key_set B w k)) (map (entry data) Q) mem = Some mem' \<and> length mem' = length data \<and>
    (\<forall>x. TS_SIZE dvd x \<longrightarrow>
       pk x mem' = (if x \<in> set Q then decrypt_payload w (payload_start (pk x data)) (pk x mem) else pk x mem))"
proof -
  define n where "n l = payload_start (pk l data)" for l
  define g where "g l = csa_decrypt w (key_schedule_block w 0) (drop (n l) (pk l mem))" for l
  have n: "4 \<le> n l" "n l \<le> 188" for l by (simp_all add: n_def payload_start_range)
  have lq: "l + 188 \<le> length data" if "l \<in> set Q" for l using Q(1) that by (simp add: aligned_def)
  have rd: "take (188 - n l) (drop (l + n l) mem) = drop (n l) (pk l mem)" for l
    by (simp add: pk_def drop_take add.commute)
  have lg: "length (g l) = 188 - n l" if "l \<in> set Q" for l
    using lq [OF that] mem by (simp add: g_def)
  have "bs_decrypt B (bs_key_set B w k) (map (\<lambda>l. drop (n l) (pk l mem)) Q) 184 = map g Q"
  proof -
    have "length (drop (n l) (pk l mem)) \<le> 184" for l using n(1) [of l] by simp
    then have "\<forall>p \<in> set (map (\<lambda>l. drop (n l) (pk l mem)) Q). length p \<le> 184" by auto
    moreover have "length (map (\<lambda>l. drop (n l) (pk l mem)) Q) \<le> bs_batch_size B" using Q(2) by simp
    ultimately have "bs_decrypt B (bs_key_set B w k) (map (\<lambda>l. drop (n l) (pk l mem)) Q) 184 =
        map (csa_decrypt w (key_schedule_block w 0)) (map (\<lambda>l. drop (n l) (pk l mem)) Q)"
      using B unfolding dvbcsa_ok_def by blast
    then show ?thesis by (simp add: g_def comp_def)
  qed
  then have out: "bs_decrypt B (bs_key_set B w k) (map (\<lambda>(off, len). take len (drop off mem)) (map (entry data) Q)) 184 = map g Q"
    by (simp add: entry_def comp_def rd [unfolded n_def] n_def)
  have z: "zip (map (entry data) Q) (map g Q) = map (\<lambda>l. (entry data l, g l)) Q" by (simp add: zip_map_map zip_same_conv_map)
  let ?F = "\<lambda>l m. put (l + n l) (g l) m"
  have f: "fold (\<lambda>((off, len), out) data. put off out data) (map (\<lambda>l. (entry data l, g l)) Q) mem = fold ?F Q mem"
    by (simp add: fold_map comp_def entry_def n_def)
  have loc: "frame_at l m (?F l m)" if "l \<in> set Q" "length m = length data" for l m
    using lq that lg n(2) [of l] by (intro frame_put) simp_all
  have eff: "pk l (?F l m) = take (n l) (pk l m) @ g l" if "l \<in> set Q" "length m = length data" for l m
    using lq that lg n(2) [of l] by (subst pk_put) (simp_all add: put_def)
  have "pk x (fold ?F Q mem) = (if x \<in> set Q then decrypt_payload w (payload_start (pk x data)) (pk x mem) else pk x mem)"
    if "TS_SIZE dvd x" for x
    using fold_aligned(1) [where F = ?F and G = "\<lambda>l p. take (n l) p @ g l", OF Q(1) mem that loc eff]
    by (simp add: decrypt_payload_def g_def n_def)
  moreover have "length (fold ?F Q mem) = length data"
    using fold_aligned(2) [where F = ?F and G = "\<lambda>l p. take (n l) p @ g l", OF Q(1) mem dvd_0_right loc eff] by simp
  ultimately show ?thesis unfolding Decrypt_batch_def option.map(2) out z f by simp
qed

subsection \<open>The search\<close>

definition collected :: "bytes \<Rightarrow> 'c decsa \<Rightarrow> int \<Rightarrow> nat list \<Rightarrow> 'c lscan" where
  "collected data d idx P =
     \<lparr>ls_data = fold clear_scrambling P data, ls_decsa = d, ls_currIdx = (if P = [] then -1 else idx),
      ls_wantsparity = (if P = [] then 0 else if odd_parity_bit (pk (last P) data) then 2 else 1),
      ls_even = map (entry data) (filter (\<lambda>l. \<not> odd_parity_bit (pk l data)) P),
      ls_odd = map (entry data) (filter (\<lambda>l. odd_parity_bit (pk l data)) P), ls_ccs = length P\<rparr>"

lemma parity_bits:
  fixes b :: u8
  shows "bit b 7 \<Longrightarrow> b AND 0xC0 = (if bit b 6 then 0xC0 else 0x80)"
    "unat (drop_bit 6 ((b AND 0xC0) AND 0x40)) = of_bool (bit b 6)"
proof -
  show "bit b 7 \<Longrightarrow> b AND 0xC0 = (if bit b 6 then 0xC0 else 0x80)"
    by (simp add: word8_eq all_less_8 bit_and_iff)
  have "(b AND 0xC0) AND 0x40 = (if bit b 6 then 0x40 else 0)" by (simp add: word8_eq all_less_8 bit_and_iff)
  then show "unat (drop_bit 6 ((b AND 0xC0) AND 0x40)) = of_bool (bit b 6)" by simp
qed

lemma lib_one_collected:
  assumes P: "aligned P (length data)" "l \<notin> set P" and l: "TS_SIZE dvd l" "l + TS_SIZE \<le> length data"
    and sync: "pk l data ! 0 = TS_SYNC_BYTE" and idx: "0 \<le> idx" "idx < 32"
    and mode: "csa_mode (DeCSAKeyArray d ! nat idx)" and ks: "length (DeCSAKeyArray d) = 32"
    and first: "l = 0 \<Longrightarrow> in_batch a idx (pk l data)" "l \<noteq> 0 \<Longrightarrow> P \<noteq> []"
  shows "lib_one B evp a l (collected data d idx P) =
    Some (if in_batch a idx (pk l data)
     then (let s = collected data d idx (P @ [l]) in if length P + 1 \<ge> bs_batch_size B then Break s else Continue s)
     else Continue (collected data d idx P))"
proof -
  let ?s = "collected data d idx P" and ?p = "pk l data"
  define mem where "mem = fold clear_scrambling P data"
  have mem: "length mem = length data" "pk l mem = ?p"
    using pk_cleared [OF P(1) l(1)] P(2) by (simp_all add: mem_def)
  have b: "mem ! l = ?p ! 0" "mem ! (l + 3) = ?p ! 3"
    using nth_pk [of 0 l mem] nth_pk [of 3 l mem] mem l(2) by simp_all
  have sd: "ls_data ?s = mem" "ls_decsa ?s = d" by (simp_all add: collected_def mem_def)
  have off: "ts_packet_get_payload_offset (drop l mem) = ts_packet_get_payload_offset ?p"
  proof -
    have "drop l mem ! i = ?p ! i" if "i < 188" for i
      unfolding mem(2) [symmetric] using that l(2) mem(1) by (simp add: pk_def)
    then have "drop l mem ! 0 = ?p ! 0" "drop l mem ! 3 = ?p ! 3" "drop l mem ! 4 = ?p ! 4" by simp_all
    then show ?thesis unfolding ts_packet_get_payload_offset_def by (simp only:)
  qed
  have pid: "packet_pid (drop l mem) = packet_pid ?p" using packet_pid_pk [of l mem] l(2) mem by simp
  have pix: "SearchPIDinMAP (packet_pid ?p) a = packet_idx a ?p" by (simp add: packet_idx_def)
  have sc: "((?p ! 3) AND 0xC0) AND 0x80 \<noteq> 0 \<longleftrightarrow> scrambled ?p" by (simp only: and_0x80 scrambled_def)
  have cur: "ls_currIdx ?s = (if P = [] then -1 else idx)" by (simp add: collected_def)
  have room: "\<not> length mem < l + TS_SIZE" using mem(1) l(2) by simp
  have key: "key_at idx d = Some (DeCSAKeyArray d ! nat idx)" using idx ks by (simp add: key_at_def rd_def nat_less_iff)
  show ?thesis
  proof (cases "in_batch a idx ?p")
    case True
    then have s: "scrambled ?p" "ts_packet_get_payload_offset ?p \<noteq> 0" "packet_idx a ?p = idx" "packet_pid ?p < 0x1FFF"
      by (simp_all add: in_batch_def)
    let ?w = "if odd_parity_bit ?p then 2 else 1 :: int"
    have e: "?p ! 3 AND 0xC0 = (if odd_parity_bit ?p then 0xC0 else 0x80)"
      using parity_bits(1) s(1) by (simp add: scrambled_def odd_parity_bit_def)
    have ps: "payload_start ?p \<noteq> 0" using payload_start_range(1) [of ?p] by simp
    have "lib_one B evp a l ?s = lib_mapped B evp l (payload_start ?p) (?s\<lparr>ls_currIdx := idx, ls_wantsparity := ?w\<rparr>)"
      unfolding lib_one_def Let_def sd b off pid pix payload_offset_start [OF s(2)] sc
      using s idx sync ps room by (simp add: cur e)
    also have "\<dots> = Some (let s = collected data d idx (P @ [l]) in if length P + 1 \<ge> bs_batch_size B then Break s else Continue s)"
    proof -
      let ?t = "?s\<lparr>ls_currIdx := idx, ls_wantsparity := ?w\<rparr>"
      have t: "ls_data ?t = mem" "ls_decsa ?t = d" "ls_currIdx ?t = idx" using sd by simp_all
      obtain g where g: "GetAlgo idx d = Some g" "g \<noteq> 1" "g \<noteq> 2" "GetAes idx d = Some 0"
        using mode idx by (auto simp: GetAlgo_def GetAes_def csa_mode_def key)
      have par: "unat (drop_bit 6 (((mem ! (l + 3)) AND 0xC0) AND 0x40)) = of_bool (odd_parity_bit ?p)"
        unfolding b odd_parity_bit_def by (rule parity_bits(2))
      show ?thesis
        unfolding lib_mapped_def Let_def t par using g
        by (simp add: collected_def mem_def entry_def)
    qed
    finally show ?thesis using True by simp
  next
    case False
    have l0: "l \<noteq> 0" using False first(1) by blast
    then have P0: "P \<noteq> []" by (rule first(2))
    have "lib_one B evp a l ?s = Some (Continue ?s)"
      unfolding lib_one_def Let_def sd b off pid pix sc using False l0 P0 sync idx room
      by (auto simp: cur in_batch_def)
    then show ?thesis using False by simp
  qed
qed

definition places :: "nat \<Rightarrow> nat list" where
  "places n = map (\<lambda>i. TS_SIZE * i) [0..<n]"

lemma places_Suc: "places (Suc n) = places n @ [188 * n]"
  by (simp add: places_def)

lemma places_split: "k < n \<Longrightarrow> places n = places k @ 188 * k # map (\<lambda>i. 188 * i) [Suc k..<n]"
  using upt_add_eq_append [OF le0, of k "n - k"] upt_conv_Cons [of k n] by (simp add: places_def)

lemma set_places: "x \<in> set (places n) \<longleftrightarrow> TS_SIZE dvd x \<and> x + TS_SIZE \<le> 188 * n"
  by (auto simp: places_def image_iff elim!: dvdE)

lemma aligned_places: "aligned (filter Q (places n)) (188 * n)"
  unfolding aligned_def by (auto simp: set_places places_def distinct_map inj_on_def intro: distinct_filter)

text \<open>The batches are filled with the first packets for the key index, as many as the library takes.\<close>

lemma lib_scan_collected:
  assumes data: "length data = 188 * n" "\<forall>i < n. data ! (188 * i) = TS_SYNC_BYTE"
    and idx: "0 \<le> idx" "idx < 32" and mode: "csa_mode (DeCSAKeyArray d ! nat idx)" and ks: "length (DeCSAKeyArray d) = 32"
    and first: "in_batch a idx (pk 0 data)" and k: "k \<le> n"
    and room: "length (filter (\<lambda>l. in_batch a idx (pk l data)) (places k)) < bs_batch_size B"
  shows "lib_scan B evp a (int (188 * n) - 187) (188 * k)
      (collected data d idx (filter (\<lambda>l. in_batch a idx (pk l data)) (places k))) =
    Some (Some (collected data d idx (take (bs_batch_size B) (filter (\<lambda>l. in_batch a idx (pk l data)) (places n)))))"
  using k room
proof (induction "n - k" arbitrary: k)
  case 0
  then show ?case by (subst lib_scan.simps) simp
next
  case (Suc m)
  let ?I = "\<lambda>l. in_batch a idx (pk l data)"
  let ?P = "filter ?I (places k)"
  have k: "k < n" using Suc.hyps(2) by simp
  have P: "aligned ?P (length data)" using aligned_places [of ?I k] k data(1) by (auto simp: aligned_def)
  have np: "188 * k \<notin> set ?P" by (simp add: set_places)
  have dv: "TS_SIZE dvd 188 * k" "188 * k + TS_SIZE \<le> length data" using k data(1) by simp_all
  have sync: "pk (188 * k) data ! 0 = TS_SYNC_BYTE" using data(2) k dv(2) by (simp add: nth_pk)
  have f1: "in_batch a idx (pk (188 * k) data)" if "188 * k = 0" using first that by simp
  have f2: "?P \<noteq> []" if "188 * k \<noteq> 0"
  proof -
    have "0 \<in> set (places k)" using that by (simp add: set_places)
    then show ?thesis using first by (auto simp: filter_empty_conv)
  qed
  note one = lib_one_collected [OF P np dv sync idx mode ks f1 f2, of B evp]
  have lt: "int (188 * k) < int (188 * n) - 187" using k by linarith
  show ?case
  proof (cases "?I (188 * k)")
    case False
    then have "filter ?I (places (Suc k)) = ?P" by (simp add: places_Suc)
    then show ?thesis using Suc.hyps(1) [of "Suc k"] Suc.hyps(2) Suc.prems k one False lt
      by (subst lib_scan.simps) (simp add: add.commute [of "188 * k"])
  next
    case True
    then have Q: "filter ?I (places (Suc k)) = ?P @ [188 * k]" by (simp add: places_Suc)
    show ?thesis
    proof (cases "length ?P + 1 \<ge> bs_batch_size B")
      case full: True
      then have "bs_batch_size B - length ?P = 1" using Suc.prems(2) by linarith
      then have "take (bs_batch_size B) (filter ?I (places n)) = ?P @ [188 * k]"
        using Suc.prems(2) True by (simp add: places_split [OF k])
      then show ?thesis using one True full lt by (subst lib_scan.simps) (simp add: Let_def)
    next
      case more: False
      then have r: "length (filter ?I (places (Suc k))) < bs_batch_size B" by (simp add: Q)
      show ?thesis using Suc.hyps(1) [of "Suc k"] Suc.hyps(2) k r more one True lt Q
        by (subst lib_scan.simps) (simp add: Let_def add.commute [of "188 * k"])
    qed
  qed
qed

subsection \<open>Decrypt\<close>

lemma GetKeyStruct_keys:
  assumes "bs_key_alloc B \<noteq> None" "length (cs_key_even s) = 32" "length (cs_key_odd s) = 32" "i < 32"
  shows "\<exists>s'. lib_GetorCreateKeyStruct B i s = (True, s') \<and> lb_decsa s' = lb_decsa s \<and> length (cs_key_even s') = 32 \<and>
    length (cs_key_odd s') = 32 \<and> cs_key_even s' ! i \<noteq> None \<and> cs_key_odd s' ! i \<noteq> None \<and>
    (cs_key_even s ! i \<noteq> None \<longrightarrow> cs_key_even s' ! i = cs_key_even s ! i) \<and>
    (cs_key_odd s ! i \<noteq> None \<longrightarrow> cs_key_odd s' ! i = cs_key_odd s ! i)"
  using assms by (auto simp: lib_GetorCreateKeyStruct_def Let_def)

lemma sint_index: "i < 32 \<Longrightarrow> sint (of_nat i :: u32) = int i"
  by (simp add: sint_uint uint_nat unat_of_nat signed_take_bit_int_eq_self take_bit_nat_eq_self)

text \<open>A control word that is set is in the key of its parity; the other key stays if there is one.\<close>

lemma lib_SetDescr_word:
  assumes B: "bs_key_alloc B \<noteq> None" and s: "length (cs_key_even s) = 32" "length (cs_key_odd s) = 32" and i: "i < 32"
    and ks: "length (DeCSAKeyArray (lb_decsa s)) = 32" and cw: "length cw = 8" and par: "parity = 0 \<or> parity = 1"
  shows "\<exists>s'. lib_SetDescr B (of_nat i) parity cw s = Some s' \<and> length (cs_key_even s') = 32 \<and> length (cs_key_odd s') = 32 \<and>
    DeCSAArray (lb_decsa s') = DeCSAArray (lb_decsa s) \<and> length (DeCSAKeyArray (lb_decsa s')) = 32 \<and>
    csa_mode (DeCSAKeyArray (lb_decsa s') ! i) = csa_mode (DeCSAKeyArray (lb_decsa s) ! i) \<and>
    (parity = 0 \<longrightarrow> (\<exists>k. cs_key_even s' ! i = Some (bs_key_set B cw k))) \<and>
    (parity = 1 \<longrightarrow> (\<exists>k. cs_key_odd s' ! i = Some (bs_key_set B cw k))) \<and>
    (parity = 1 \<longrightarrow> cs_key_even s ! i \<noteq> None \<longrightarrow> cs_key_even s' ! i = cs_key_even s ! i)"
proof -
  obtain t where t: "lib_GetorCreateKeyStruct B i s = (True, t)" "lb_decsa t = lb_decsa s" "length (cs_key_even t) = 32"
    "length (cs_key_odd t) = 32" "cs_key_even t ! i \<noteq> None" "cs_key_odd t ! i \<noteq> None"
    "cs_key_even s ! i \<noteq> None \<longrightarrow> cs_key_even t ! i = cs_key_even s ! i"
    using GetKeyStruct_keys [OF B s i] by blast
  have key: "key_at (int i) (lb_decsa s) = Some (DeCSAKeyArray (lb_decsa s) ! i)" using i ks by (simp add: key_at_def rd_simps)
  define k where "k = (DeCSAKeyArray (lb_decsa s) ! i)\<lparr>dk_des := (dk_des (DeCSAKeyArray (lb_decsa s) ! i))[unat parity := des_set_key cw]\<rparr>"
  define d where "d = with_key i (\<lambda>_. k) (lb_decsa s)"
  have "Des_set_key cw (unat parity) (DeCSAKeyArray (lb_decsa s) ! i) = Some k"
    using par cw by (auto simp: Des_set_key_def rdn_def k_def)
  then have u: "upd_key (int i) (Des_set_key cw (unat parity)) (lb_decsa t) = Some d"
    by (simp add: upd_key_def key t(2) d_def)
  have d: "DeCSAArray d = DeCSAArray (lb_decsa s)" "length (DeCSAKeyArray d) = 32"
    "csa_mode (DeCSAKeyArray d ! i) = csa_mode (DeCSAKeyArray (lb_decsa s) ! i)"
    using i ks by (simp_all add: d_def k_def csa_mode_def)
  let ?t = "t\<lparr>lb_decsa := d\<rparr>"
  have "lib_SetDescr B (of_nat i) parity cw s =
      Some (if parity = 0 then snd (lib_Set_even_control_word B i cw ?t) else snd (lib_Set_odd_control_word B i cw ?t))"
    using i par t(1) u key by (auto simp: lib_SetDescr_def sint_index lib_GetKeyStruct_def)
  then show ?thesis
    using i t par d by (auto simp: Let_def lib_Set_even_control_word_def lib_Set_odd_control_word_def split: option.splits)
qed

lemma batch_step:
  assumes "dvbcsa_ok B" "length w = 8" "aligned Q (length data)" "length Q \<le> bs_batch_size B" "length mem = length data"
  shows "\<exists>mem'. (if map (entry data) Q \<noteq> [] then Decrypt_batch B (Some (bs_key_set B w k)) (map (entry data) Q) mem else Some mem) = Some mem' \<and>
    length mem' = length data \<and>
    (\<forall>x. TS_SIZE dvd x \<longrightarrow>
       pk x mem' = (if x \<in> set Q then decrypt_payload w (payload_start (pk x data)) (pk x mem) else pk x mem))"
proof (cases "Q = []")
  case True
  then show ?thesis using assms(5) by simp
next
  case False
  then show ?thesis using Decrypt_batch_at [OF assms, of k] by simp
qed

lemma decrypt_payload_descramble:
  assumes "length we = 8" "length wo = 8" "scrambled p"
  shows "decrypt_payload (if odd_parity_bit p then wo else we) (payload_start p) (clear_bits p) =
    descramble (set_control_words we wo keys) p"
  using assms by (simp add: decrypt_payload_def descramble_def set_control_words_def schedule_key_def Let_def split_def)

lemma lib_scan_batch:
  assumes B: "dvbcsa_ok B" and i: "i < 32" and mode: "csa_mode (DeCSAKeyArray d ! i)" and ks: "length (DeCSAKeyArray d) = 32"
    and data: "length data = 188 * n" "\<forall>j < n. data ! (188 * j) = TS_SYNC_BYTE" "0 < n" "in_batch ad (int i) (pk 0 data)"
    and Q: "Q = take (bs_batch_size B) (filter (\<lambda>l. in_batch ad (int i) (pk l data)) (places n))"
  shows "lib_scan B evp ad (int (length data) - 187) 0
      \<lparr>ls_data = data, ls_decsa = d, ls_currIdx = -1, ls_wantsparity = 0, ls_even = [], ls_odd = [], ls_ccs = 0\<rparr> =
        Some (Some (collected data d (int i) Q))"
    "0 \<in> set Q" "aligned Q (length data)" "l \<in> set Q \<Longrightarrow> in_batch ad (int i) (pk l data)"
proof -
  have cs: "0 < bs_batch_size B" using B by (simp add: dvbcsa_ok_def)
  have "places 0 = []" by (simp add: places_def)
  then show "lib_scan B evp ad (int (length data) - 187) 0
      \<lparr>ls_data = data, ls_decsa = d, ls_currIdx = -1, ls_wantsparity = 0, ls_even = [], ls_odd = [], ls_ccs = 0\<rparr> =
        Some (Some (collected data d (int i) Q))"
    using lib_scan_collected [OF data(1,2) _ _ _ _ data(4), of d 0 B evp] mode cs i data(1) ks
    by (simp add: Q collected_def [of _ _ _ "[]"])
  have "places n = 0 # map (\<lambda>i. 188 * i) [Suc 0..<n]" using places_split [OF data(3)] by (simp add: places_def)
  then show "0 \<in> set Q" using cs data(4) by (cases "bs_batch_size B") (simp_all add: Q)
  show "aligned Q (length data)"
    using aligned_places [of "\<lambda>l. in_batch ad (int i) (pk l data)" n] data(1)
    by (auto simp: Q aligned_def dest: in_set_takeD)
  show "in_batch ad (int i) (pk l data)" if "l \<in> set Q"
    using that by (auto simp: Q dest: in_set_takeD)
qed

lemma lib_Decrypt_batches:
  fixes s :: "('c, 'k) lib_decsa"
  assumes B: "dvbcsa_ok B" and w: "length we = 8" "length wo = 8" and i: "i < 32"
    and k: "cs_key_even s ! i = Some (bs_key_set B we ke)" "cs_key_odd s ! i = Some (bs_key_set B wo ko)"
    and mode: "csa_mode (DeCSAKeyArray (lb_decsa s) ! i)" and ks: "length (DeCSAKeyArray (lb_decsa s)) = 32"
    and ad: "ad = DeCSAArray (lb_decsa s) ! a"
    and data: "length data = 188 * n" "\<forall>j < n. data ! (188 * j) = TS_SYNC_BYTE" "0 < n" "in_batch ad (int i) (pk 0 data)"
    and Q: "Q = take (bs_batch_size B) (filter (\<lambda>l. in_batch ad (int i) (pk l data)) (places n))"
  shows "\<exists>data'. lib_Decrypt B evp a data (int (length data)) s = Some (True, data', s) \<and> length data' = length data \<and>
    (\<forall>j < n. pk (188 * j) data' =
       (if 188 * j \<in> set Q then descramble (set_control_words we wo keys) (pk (188 * j) data) else pk (188 * j) data))"
proof -
  let ?d = "lb_decsa s" and ?od = "\<lambda>l. odd_parity_bit (pk l data)"
  let ?t = "collected data ?d (int i) Q"
  have i': "0 \<le> int i" "int i < 32" "nat (int i) = i" using i by simp_all
  note sb = lib_scan_batch [OF B i mode ks data Q]
  note scan = sb(1) [of evp] and al = sb(3) and inQ = sb(4)
  have Q0: "Q \<noteq> []" using sb(2) by auto
  have len: "length (filter P Q) \<le> bs_batch_size B" for P
    by (rule order.trans [OF length_filter_le]) (simp add: Q)
  let ?mem = "fold clear_scrambling Q data"
  note cl = pk_cleared [OF al]
  obtain m1 where m1: "(if map (entry data) (filter (\<lambda>l. \<not> ?od l) Q) \<noteq> []
      then Decrypt_batch B (Some (bs_key_set B we ke)) (map (entry data) (filter (\<lambda>l. \<not> ?od l) Q)) ?mem else Some ?mem) = Some m1"
    "length m1 = length data"
    "\<And>x. TS_SIZE dvd x \<Longrightarrow> pk x m1 = (if x \<in> set (filter (\<lambda>l. \<not> ?od l) Q)
       then decrypt_payload we (payload_start (pk x data)) (pk x ?mem) else pk x ?mem)"
    using batch_step [OF B w(1) aligned_filter [OF al] len cl(2) [OF dvd_0_right], of "\<lambda>l. \<not> ?od l" ke] by blast
  obtain m2 where m2: "(if map (entry data) (filter ?od Q) \<noteq> []
      then Decrypt_batch B (Some (bs_key_set B wo ko)) (map (entry data) (filter ?od Q)) m1 else Some m1) = Some m2"
    "length m2 = length data"
    "\<And>x. TS_SIZE dvd x \<Longrightarrow> pk x m2 = (if x \<in> set (filter ?od Q)
       then decrypt_payload wo (payload_start (pk x data)) (pk x m1) else pk x m1)"
    using batch_step [OF B w(2) aligned_filter [OF al] len m1(2), of ?od ko] by blast
  have ka: "key_at (int i) ?d = Some (DeCSAKeyArray ?d ! i)" using i ks by (simp add: key_at_def rd_simps)
  obtain g where g: "GetAlgo (int i) ?d = Some g" "g \<noteq> 1" "g \<noteq> 2" "GetAes (int i) ?d = Some 0"
    using mode i' by (auto simp: GetAlgo_def GetAes_def csa_mode_def ka)
  have key: "lib_GetKeyStruct B (int i) s = Some (True, s)"
    using i k ka by (simp add: lib_GetKeyStruct_def lib_GetorCreateKeyStruct_def)
  have t: "ls_data ?t = ?mem" "ls_decsa ?t = ?d" "ls_currIdx ?t = int i" "0 < ls_wantsparity ?t"
    "ls_even ?t = map (entry data) (filter (\<lambda>l. \<not> ?od l) Q)" "ls_odd ?t = map (entry data) (filter ?od Q)"
    using Q0 by (simp_all add: collected_def)
  have same: "s\<lparr>lb_decsa := ?d\<rparr> = s" by simp
  have "lib_Decrypt B evp a data (int (length data)) s = Some (True, m2, s)"
    unfolding lib_Decrypt_def ad [symmetric] scan bind.simps option.case Let_def t(1,2,3,5,6) same g(1,4)
    using g(2,3) t(4) m1(1) m2(1) k i'
    by (cases "filter (\<lambda>l. \<not> ?od l) Q = []"; cases "filter ?od Q = []") (simp_all add: key)
  moreover have "pk x m2 = (if x \<in> set Q then descramble (set_control_words we wo keys) (pk x data) else pk x data)"
    if x: "TS_SIZE dvd x" for x
    using m2(3) [OF x] m1(3) [OF x] cl(1) [OF x] inQ [of x] decrypt_payload_descramble [OF w, of "pk x data" keys]
    by (cases "?od x") (auto simp: in_batch_def)
  ultimately show ?thesis using m2(2) by simp
qed

text \<open>The packets are marked as clear before the keys are known to exist: when the library cannot allocate them, \<open>Decrypt\<close>
  fails and leaves scrambled packets without their scrambling bits.\<close>

lemma lib_Decrypt_no_memory:
  assumes B: "dvbcsa_ok B" "bs_key_alloc B = None" and i: "i < 32"
    and k: "cs_key_even s ! i = None" "cs_key_odd s ! i = None"
    and mode: "csa_mode (DeCSAKeyArray (lb_decsa s) ! i)" and ks: "length (DeCSAKeyArray (lb_decsa s)) = 32"
    and ad: "ad = DeCSAArray (lb_decsa s) ! a"
    and data: "length data = 188 * n" "\<forall>j < n. data ! (188 * j) = TS_SYNC_BYTE" "0 < n" "in_batch ad (int i) (pk 0 data)"
  shows "\<exists>data' s'. lib_Decrypt B evp a data (int (length data)) s = Some (False, data', s') \<and>
    pk 0 data' = clear_bits (pk 0 data)"
proof -
  define Q where "Q = take (bs_batch_size B) (filter (\<lambda>l. in_batch ad (int i) (pk l data)) (places n))"
  note sb = lib_scan_batch [OF B(1) i mode ks data Q_def]
  let ?t = "collected data (lb_decsa s) (int i) Q"
  have t: "ls_data ?t = fold clear_scrambling Q data" "ls_decsa ?t = lb_decsa s" "ls_currIdx ?t = int i" "0 < ls_wantsparity ?t"
    using sb(2) by (auto simp: collected_def)
  have ka: "key_at (int i) (lb_decsa s) = Some (DeCSAKeyArray (lb_decsa s) ! i)" using i ks by (simp add: key_at_def rd_simps)
  obtain g where g: "GetAlgo (int i) (lb_decsa s) = Some g" "g \<noteq> 1" "g \<noteq> 2" "GetAes (int i) (lb_decsa s) = Some 0"
    using mode i by (auto simp: GetAlgo_def GetAes_def csa_mode_def ka)
  have upd: "s\<lparr>lb_decsa := lb_decsa s\<rparr> = s" by simp
  obtain s' where key: "lib_GetKeyStruct B (int i) s = Some (False, s')"
    using i k ka B(2) nth_list_update_eq [of i "cs_key_even s" None]
    by (cases "i < length (cs_key_even s)") (auto simp: lib_GetKeyStruct_def lib_GetorCreateKeyStruct_def Let_def list_update_beyond)
  have "lib_Decrypt B evp a data (int (length data)) s = Some (False, fold clear_scrambling Q data, s')"
    unfolding lib_Decrypt_def ad [symmetric] sb(1) bind.simps option.case Let_def t(1,2,3) upd g(1,4) using g(2,3) t(4) key by simp
  moreover have "pk 0 (fold clear_scrambling Q data) = clear_bits (pk 0 data)"
    using pk_cleared(1) [OF sb(3) dvd_0_right] sb(2) by simp
  ultimately show ?thesis by blast
qed

text \<open>C11: the build with libdvbcsa descrambles like the reference, and so like the build with FFdecsa. Both control words of
  a key index can be set, with whatever keys the index had before, and after that \<open>Decrypt\<close> on a buffer of packets whose first one
  goes to the index returns true, and every packet of the index, up to the batch size of the library and of both parities in
  any order, becomes what the reference makes of it with these words; every other packet is unchanged.\<close>

theorem lib_Decrypt_reference:
  fixes s :: "('c, 'k) lib_decsa"
  assumes B: "dvbcsa_ok B" "bs_key_alloc B \<noteq> None" and w: "length we = 8" "length wo = 8" and i: "i < 32"
    and s: "length (cs_key_even s) = 32" "length (cs_key_odd s) = 32" "length (DeCSAKeyArray (lb_decsa s)) = 32"
    and mode: "csa_mode (DeCSAKeyArray (lb_decsa s) ! i)" and ad: "ad = DeCSAArray (lb_decsa s) ! a"
    and data: "length data = 188 * n" "\<forall>j < n. data ! (188 * j) = TS_SYNC_BYTE" "0 < n" "in_batch ad (int i) (pk 0 data)"
  shows "\<exists>s1 s2 data'. lib_SetDescr B (of_nat i) 0 we s = Some s1 \<and> lib_SetDescr B (of_nat i) 1 wo s1 = Some s2 \<and>
    lib_Decrypt B evp a data (int (length data)) s2 = Some (True, data', s2) \<and> length data' = length data \<and>
    (\<forall>j < n. pk (188 * j) data' =
       (if 188 * j \<in> set (take (bs_batch_size B) (filter (\<lambda>l. in_batch ad (int i) (pk l data)) (places n)))
        then descramble (set_control_words we wo keys) (pk (188 * j) data) else pk (188 * j) data))"
proof -
  obtain s1 ke where 1: "lib_SetDescr B (of_nat i) 0 we s = Some s1" "length (cs_key_even s1) = 32" "length (cs_key_odd s1) = 32"
    "DeCSAArray (lb_decsa s1) = DeCSAArray (lb_decsa s)" "length (DeCSAKeyArray (lb_decsa s1)) = 32"
    "csa_mode (DeCSAKeyArray (lb_decsa s1) ! i)" "cs_key_even s1 ! i = Some (bs_key_set B we ke)"
    using lib_SetDescr_word [OF B(2) s(1,2) i s(3) w(1) disjI1 [OF refl]] mode by auto
  obtain s2 ko where 2: "lib_SetDescr B (of_nat i) 1 wo s1 = Some s2"
    "DeCSAArray (lb_decsa s2) = DeCSAArray (lb_decsa s)" "length (DeCSAKeyArray (lb_decsa s2)) = 32"
    "csa_mode (DeCSAKeyArray (lb_decsa s2) ! i)" "cs_key_even s2 ! i = Some (bs_key_set B we ke)"
    "cs_key_odd s2 ! i = Some (bs_key_set B wo ko)"
    using lib_SetDescr_word [OF B(2) 1(2,3) i 1(5) w(2) disjI2 [OF refl]] 1 by auto
  show ?thesis
    using lib_Decrypt_batches [OF B(1) w i 2(5,6,4,3), where a = a and evp = evp and data = data and n = n and keys = keys] ad data
      1(1) 2(1,2) by simp
qed

text \<open>A library whose keys are control words, and two packets of both parities for key index 3.\<close>

definition dvbcsa0 :: "bytes dvbcsa" where
  "dvbcsa0 = \<lparr>bs_key_alloc = Some [], bs_key_set = (\<lambda>w k. w), bs_batch_size = 4,
     bs_decrypt = (\<lambda>k ps maxlen. map (csa_decrypt k (key_schedule_block k 0)) ps)\<rparr>"

definition lib0 :: "(unit, bytes) lib_decsa" where
  "lib0 = (new_lib_decsa (\<lambda>i. [[], []]))\<lparr>lb_decsa := with_adapter 5 (adapter_SetCaPid 100 3) (new_decsa (\<lambda>i. [[], []]))\<rparr>"

theorem lib_Decrypt_reference_witness:
  "let p = [0x47, 0, 100, 0x90] @ replicate 184 7; q = [0x47, 0, 100, 0xD0] @ replicate 184 9;
       we = [1, 2, 3, 6, 5, 6, 7, 18]; wo = [8, 7, 6, 21, 4, 3, 2, 9];
       s = lib_SetDescr dvbcsa0 (of_nat 3) 0 we lib0 \<bind> lib_SetDescr dvbcsa0 (of_nat 3) 1 wo
   in \<exists>s' data. s = Some s' \<and> lib_Decrypt dvbcsa0 evp0 5 (p @ q) 376 s' = Some (True, data, s') \<and>
        pk 0 data = descramble (set_control_words we wo keys0) p \<and> pk 188 data = descramble (set_control_words we wo keys0) q"
proof -
  define p where "p = ([0x47, 0, 100, 0x90] @ replicate 184 7 :: bytes)"
  define q where "q = ([0x47, 0, 100, 0xD0] @ replicate 184 9 :: bytes)"
  let ?we = "[1, 2, 3, 6, 5, 6, 7, 18] :: bytes" and ?wo = "[8, 7, 6, 21, 4, 3, 2, 9] :: bytes"
  let ?ad = "DeCSAArray (lb_decsa lib0) ! 5"
  have l: "length p = 188" "length q = 188" by (simp_all add: p_def q_def)
  have B: "dvbcsa_ok dvbcsa0" "bs_key_alloc dvbcsa0 \<noteq> None" by (simp_all add: dvbcsa_ok_def dvbcsa0_def)
  have s: "length (cs_key_even lib0) = 32" "length (cs_key_odd lib0) = 32" "length (DeCSAKeyArray (lb_decsa lib0)) = 32"
    "csa_mode (DeCSAKeyArray (lb_decsa lib0) ! 3)"
    by (simp_all add: lib0_def new_lib_decsa_def new_decsa_def with_adapter_def csa_mode_def new_decsa_key_def)
  have pid: "SearchPIDinMAP 100 ?ad = 3"
    by (simp add: lib0_def new_decsa_def with_adapter_def adapter_SetCaPid_def SearchPIDinMAP_def)
  have pk: "pk 0 (p @ q) = p" "pk 188 (p @ q) = q" using l by (simp_all add: pk_def)
  have inb: "in_batch ?ad (int 3) p" "in_batch ?ad (int 3) q"
    using pid by (simp_all add: in_batch_def scrambled_def packet_idx_def packet_pid_def ts_packet_get_payload_offset_def p_def q_def)
  have sync: "\<forall>j < 2. (p @ q) ! (188 * j) = TS_SYNC_BYTE"
    using l by (auto simp: less_2_cases_iff nth_append) (simp_all add: p_def q_def)
  have pl: "places 2 = [0, 188]" by (simp add: places_def upt_rec)
  have f: "take (bs_batch_size dvbcsa0) (filter (\<lambda>l. in_batch ?ad (int 3) (pk l (p @ q))) (places 2)) = [0, 188]"
    using inb by (simp add: pl pk dvbcsa0_def)
  have len: "length (p @ q) = 188 * 2" "length ?we = 8" "length ?wo = 8" "(3 :: nat) < 32" "(0 :: nat) < 2" using l by simp_all
  have first: "in_batch ?ad (int 3) (pk 0 (p @ q))" using inb(1) by (simp only: pk)
  obtain s1 s2 data where S: "lib_SetDescr dvbcsa0 (of_nat 3) 0 ?we lib0 = Some s1" "lib_SetDescr dvbcsa0 (of_nat 3) 1 ?wo s1 = Some s2"
    and D: "lib_Decrypt dvbcsa0 evp0 5 (p @ q) (int (length (p @ q))) s2 = Some (True, data, s2)"
    and P: "\<forall>j < 2. pk (188 * j) data = (if 188 * j \<in> set [0, 188] then descramble (set_control_words ?we ?wo keys0) (pk (188 * j) (p @ q))
      else pk (188 * j) (p @ q))"
    using lib_Decrypt_reference [OF B len(2,3,4) s(1,2,3,4) refl len(1) sync len(5) first, of evp0 keys0] unfolding f by blast
  have "pk 0 data = descramble (set_control_words ?we ?wo keys0) p" "pk 188 data = descramble (set_control_words ?we ?wo keys0) q"
    using P [rule_format, of 0] P [rule_format, of 1] pk by simp_all
  moreover have "int (length (p @ q)) = 376" using l by simp
  ultimately show ?thesis using D S unfolding p_def [symmetric] q_def [symmetric] Let_def by simp
qed

end
