(* ===== verification/TransposeWide.thy ===== *)
theory TransposeWide
  imports Transpose
begin

text \<open>
  The transpositions of the wide modes (stream.c): 64 rows of 64 bits (\<open>trasp64_64_88ccw\<close>, \<open>trasp64_64_88cw\<close>) and
  64 rows of 128 bits, each two halves of 64 bits (\<open>trasp64_128_88ccw\<close>, \<open>trasp64_128_88cw\<close>), on a little-endian
  machine. The eight bytes of packet \<open>g\<close> are the eight bytes of the table from \<open>8 * g\<close>: row \<open>g\<close> in the 64-bit modes,
  and half \<open>g mod 2\<close> of row \<open>g div 2\<close> in the 128-bit modes.
\<close>

subsection \<open>The code\<close>

definition wide32 :: "u64 \<Rightarrow> u64 \<Rightarrow> u64 \<times> u64" where
  "wide32 t b = ((t AND 0x00000000ffffffff) OR push_bit 32 b, drop_bit 32 t OR (b AND 0xffffffff00000000))"

definition wide16 :: "u64 \<Rightarrow> u64 \<Rightarrow> u64 \<times> u64" where
  "wide16 t b = ((t AND 0x0000ffff0000ffff) OR push_bit 16 (b AND 0x0000ffff0000ffff),
     drop_bit 16 (t AND 0xffff0000ffff0000) OR (b AND 0xffff0000ffff0000))"

definition wide8 :: "u64 \<Rightarrow> u64 \<Rightarrow> u64 \<times> u64" where
  "wide8 t b = ((t AND 0x00ff00ff00ff00ff) OR push_bit 8 (b AND 0x00ff00ff00ff00ff),
     drop_bit 8 (t AND 0xff00ff00ff00ff00) OR (b AND 0xff00ff00ff00ff00))"

definition wide_ccw4 :: "u64 \<Rightarrow> u64 \<Rightarrow> u64 \<times> u64" where
  "wide_ccw4 t b = (push_bit 4 (t AND 0x0f0f0f0f0f0f0f0f) OR (b AND 0x0f0f0f0f0f0f0f0f),
     (t AND 0xf0f0f0f0f0f0f0f0) OR drop_bit 4 (b AND 0xf0f0f0f0f0f0f0f0))"

definition wide_ccw2 :: "u64 \<Rightarrow> u64 \<Rightarrow> u64 \<times> u64" where
  "wide_ccw2 t b = (push_bit 2 (t AND 0x3333333333333333) OR (b AND 0x3333333333333333),
     (t AND 0xcccccccccccccccc) OR drop_bit 2 (b AND 0xcccccccccccccccc))"

definition wide_ccw1 :: "u64 \<Rightarrow> u64 \<Rightarrow> u64 \<times> u64" where
  "wide_ccw1 t b = (push_bit 1 (t AND 0x5555555555555555) OR (b AND 0x5555555555555555),
     (t AND 0xaaaaaaaaaaaaaaaa) OR drop_bit 1 (b AND 0xaaaaaaaaaaaaaaaa))"

definition wide_cw4 :: "u64 \<Rightarrow> u64 \<Rightarrow> u64 \<times> u64" where
  "wide_cw4 t b = (drop_bit 4 (t AND 0xf0f0f0f0f0f0f0f0) OR (b AND 0xf0f0f0f0f0f0f0f0),
     (t AND 0x0f0f0f0f0f0f0f0f) OR push_bit 4 (b AND 0x0f0f0f0f0f0f0f0f))"

definition wide_cw2 :: "u64 \<Rightarrow> u64 \<Rightarrow> u64 \<times> u64" where
  "wide_cw2 t b = (drop_bit 2 (t AND 0xcccccccccccccccc) OR (b AND 0xcccccccccccccccc),
     (t AND 0x3333333333333333) OR push_bit 2 (b AND 0x3333333333333333))"

definition wide_cw1 :: "u64 \<Rightarrow> u64 \<Rightarrow> u64 \<times> u64" where
  "wide_cw1 t b = (drop_bit 1 (t AND 0xaaaaaaaaaaaaaaaa) OR (b AND 0xaaaaaaaaaaaaaaaa),
     (t AND 0x5555555555555555) OR push_bit 1 (b AND 0x5555555555555555))"

definition trasp64_64_88ccw :: "u64 list \<Rightarrow> u64 list" where
  "trasp64_64_88ccw row =
     trasp_pass 1 wide_ccw1 (trasp_pass 2 wide_ccw2 (trasp_pass 4 wide_ccw4
       (trasp_pass 8 wide8 (trasp_pass 16 wide16 (trasp_pass 32 wide32 row)))))"

definition trasp64_64_88cw :: "u64 list \<Rightarrow> u64 list" where
  "trasp64_64_88cw row =
     trasp_pass 1 wide_cw1 (trasp_pass 2 wide_cw2 (trasp_pass 4 wide_cw4
       (trasp_pass 8 wide8 (trasp_pass 16 wide16 (trasp_pass 32 wide32 row)))))"

text \<open>In the 128-bit modes a pass takes the pairs of half rows \<open>2 * r + h\<close>, \<open>2 * (r + d) + h\<close> for both halves \<open>h\<close>.\<close>

definition half_pass :: "nat \<Rightarrow> (u64 \<Rightarrow> u64 \<Rightarrow> u64 \<times> u64) \<Rightarrow> u64 list \<Rightarrow> u64 list" where
  "half_pass d f halfrow =
     map (\<lambda>x. if x div 2 div d mod 2 = 0 then fst (f (halfrow ! x) (halfrow ! (x + 2 * d)))
              else snd (f (halfrow ! (x - 2 * d)) (halfrow ! x))) [0..<128]"

definition trasp64_128_88ccw :: "u64 list \<Rightarrow> u64 list" where
  "trasp64_128_88ccw halfrow =
     half_pass 1 wide_ccw1 (half_pass 2 wide_ccw2 (half_pass 4 wide_ccw4
       (half_pass 8 wide8 (half_pass 16 wide16 (half_pass 32 wide32 halfrow)))))"

definition trasp64_128_88cw :: "u64 list \<Rightarrow> u64 list" where
  "trasp64_128_88cw halfrow =
     half_pass 1 wide_cw1 (half_pass 2 wide_cw2 (half_pass 4 wide_cw4
       (half_pass 8 wide8 (half_pass 16 wide16 (half_pass 32 wide32 halfrow)))))"

text \<open>A row is copied as two ints.\<close>

definition le64 :: "bytes \<Rightarrow> u64" where
  "le64 d = ucast (le32 d) OR push_bit 32 (ucast (le32 (drop 4 d)))"

definition bytes64 :: "u64 \<Rightarrow> bytes" where
  "bytes64 w = bytes32 (ucast w) @ bytes32 (ucast (drop_bit 32 w))"

definition FFTABLEIN_wide :: "u64 list \<Rightarrow> nat \<Rightarrow> bytes \<Rightarrow> u64 list" where
  "FFTABLEIN_wide tab g data = tab[g := le64 data]"

definition FFTABLEOUT_wide :: "u64 list \<Rightarrow> nat \<Rightarrow> bytes" where
  "FFTABLEOUT_wide tab g = bytes64 (tab ! g)"

definition FFTABLEOUTXORNBY_wide :: "nat \<Rightarrow> bytes \<Rightarrow> u64 list \<Rightarrow> nat \<Rightarrow> bytes" where
  "FFTABLEOUTXORNBY_wide n data tab g =
     map (\<lambda>j. data ! j XOR bytes64 (tab ! ((8 * g + j) div 8)) ! ((8 * g + j) mod 8)) [0..<n] @ drop n data"

subsection \<open>What the passes do to the bits\<close>

lemma len64: "LENGTH(64) = 64"
  by simp

lemma len64_half: "LENGTH(64) = 2 * 2 ^ 5"
  by simp

lemma masks64:
  "low_mask 5 (0x00000000ffffffff :: u64)" "high_mask 5 (0xffffffff00000000 :: u64)"
  "low_mask 4 (0x0000ffff0000ffff :: u64)" "high_mask 4 (0xffff0000ffff0000 :: u64)"
  "low_mask 3 (0x00ff00ff00ff00ff :: u64)" "high_mask 3 (0xff00ff00ff00ff00 :: u64)"
  "low_mask 2 (0x0f0f0f0f0f0f0f0f :: u64)" "high_mask 2 (0xf0f0f0f0f0f0f0f0 :: u64)"
  "low_mask 1 (0x3333333333333333 :: u64)" "high_mask 1 (0xcccccccccccccccc :: u64)"
  "low_mask 0 (0x5555555555555555 :: u64)" "high_mask 0 (0xaaaaaaaaaaaaaaaa :: u64)"
proof -
  have "list_all (\<lambda>k. (bit m k \<longleftrightarrow> \<not> bit k n)) [0..<64] \<Longrightarrow> low_mask n m" for m :: u64 and n
    unfolding low_mask_def len64 by (simp add: list_all_iff)
  note low = this
  have "list_all (\<lambda>k. (bit m k \<longleftrightarrow> bit k n)) [0..<64] \<Longrightarrow> high_mask n m" for m :: u64 and n
    unfolding high_mask_def len64 by (simp add: list_all_iff)
  note high = this
  show "low_mask 5 (0x00000000ffffffff :: u64)" by (rule low) code_simp
  show "high_mask 5 (0xffffffff00000000 :: u64)" by (rule high) code_simp
  show "low_mask 4 (0x0000ffff0000ffff :: u64)" by (rule low) code_simp
  show "high_mask 4 (0xffff0000ffff0000 :: u64)" by (rule high) code_simp
  show "low_mask 3 (0x00ff00ff00ff00ff :: u64)" by (rule low) code_simp
  show "high_mask 3 (0xff00ff00ff00ff00 :: u64)" by (rule high) code_simp
  show "low_mask 2 (0x0f0f0f0f0f0f0f0f :: u64)" by (rule low) code_simp
  show "high_mask 2 (0xf0f0f0f0f0f0f0f0 :: u64)" by (rule high) code_simp
  show "low_mask 1 (0x3333333333333333 :: u64)" by (rule low) code_simp
  show "high_mask 1 (0xcccccccccccccccc :: u64)" by (rule high) code_simp
  show "low_mask 0 (0x5555555555555555 :: u64)" by (rule low) code_simp
  show "high_mask 0 (0xaaaaaaaaaaaaaaaa :: u64)" by (rule high) code_simp
qed

lemma exchanges_wide:
  "exchanges 5 False False wide32" "exchanges 4 False False wide16" "exchanges 3 False False wide8"
  "exchanges 2 True False wide_ccw4" "exchanges 1 True False wide_ccw2" "exchanges 0 True False wide_ccw1"
  "exchanges 2 False True wide_cw4" "exchanges 1 False True wide_cw2" "exchanges 0 False True wide_cw1"
proof -
  have p: "(2::nat) ^ 5 = 32" "(2::nat) ^ 4 = 16" "(2::nat) ^ 3 = 8" "(2::nat) ^ 2 = 4" "(2::nat) ^ 1 = 2" "(2::nat) ^ 0 = 1" by simp_all
  show "exchanges 5 False False wide32"
    using exchanges(1) [OF masks64(1,2), unfolded push_half [OF masks64(1) len64_half] drop_half [OF masks64(2) len64_half]]
    unfolding wide32_def p .
  show "exchanges 4 False False wide16" using exchanges(1) [OF masks64(3,4)] unfolding wide16_def p .
  show "exchanges 3 False False wide8" using exchanges(1) [OF masks64(5,6)] unfolding wide8_def p .
  show "exchanges 2 True False wide_ccw4" using exchanges(2) [OF masks64(7,8)] unfolding wide_ccw4_def p .
  show "exchanges 1 True False wide_ccw2" using exchanges(2) [OF masks64(9,10)] unfolding wide_ccw2_def p .
  show "exchanges 0 True False wide_ccw1" using exchanges(2) [OF masks64(11,12)] unfolding wide_ccw1_def p .
  show "exchanges 2 False True wide_cw4" using exchanges(3) [OF masks64(7,8)] unfolding wide_cw4_def p .
  show "exchanges 1 False True wide_cw2" using exchanges(3) [OF masks64(9,10)] unfolding wide_cw2_def p .
  show "exchanges 0 False True wide_cw1" using exchanges(3) [OF masks64(11,12)] unfolding wide_cw1_def p .
qed

lemmas bit_wide_passes = exchanges_wide [THEN bit_trasp_pass, unfolded len64]

lemma xor_7_less_64: "k < 64 \<Longrightarrow> k XOR 7 < (64::nat)"
proof -
  assume "k < 64"
  then have "take_bit 6 (k XOR 7) = k XOR 7"
    by (intro bit_eqI) (auto simp: bit_take_bit_iff xor_bits dest: bit_less_pow [of k 6, simplified] split: if_splits)
  then show ?thesis using take_bit_nat_eq_self_iff [of 6 "k XOR 7"] by simp
qed

lemma wide_position:
  assumes "r < 64" "k < 64"
  shows "bit (trasp64_64_88ccw row ! r) k \<longleftrightarrow> bit (row ! (k XOR 7)) r"
    and "bit (trasp64_64_88cw row ! r) k \<longleftrightarrow> bit (row ! k) (r XOR 7)"
proof -
  have p: "(2::nat) ^ 5 = 32" "(2::nat) ^ 4 = 16" "(2::nat) ^ 3 = 8" "(2::nat) ^ 2 = 4" "(2::nat) ^ 1 = 2" "(2::nat) ^ 0 = 1" by simp_all
  have i: "i = 0 \<or> i = 1 \<or> i = 2 \<or> i = 3 \<or> i = 4 \<or> i = 5 \<or> 5 < i" for i :: nat by linarith
  have kb: "\<not> bit k i" if "5 < i" for i using bit_less_pow [of k 6 i] assms(2) that by auto
  have rb: "\<not> bit r i" if "5 < i" for i using bit_less_pow [of r 6 i] assms(1) that by auto
  note ps = bit_wide_passes [unfolded p, unfolded One_nat_def]
  show "bit (trasp64_64_88ccw row ! r) k \<longleftrightarrow> bit (row ! (k XOR 7)) r"
    unfolding trasp64_64_88ccw_def
    apply (simp add: ps row_pos_less assms)
    apply (rule arg_cong2 [where f = "\<lambda>x y. bit (row ! x) y"])
     apply (rule bit_eqI)
    subgoal for i using i [of i] rb [of i] kb [of i] by (auto simp: xor_bits)
     apply (rule bit_eqI)
    subgoal for i using i [of i] rb [of i] kb [of i] by (auto simp: xor_bits)
    done
  show "bit (trasp64_64_88cw row ! r) k \<longleftrightarrow> bit (row ! k) (r XOR 7)"
    unfolding trasp64_64_88cw_def
    apply (simp add: ps row_pos_less assms)
    apply (rule arg_cong2 [where f = "\<lambda>x y. bit (row ! x) y"])
     apply (rule bit_eqI)
    subgoal for i using i [of i] rb [of i] kb [of i] by (auto simp: xor_bits)
     apply (rule bit_eqI)
    subgoal for i using i [of i] rb [of i] kb [of i] by (auto simp: xor_bits)
    done
qed

text \<open>The two halves of the rows are transposed separately.\<close>

definition half :: "nat \<Rightarrow> u64 list \<Rightarrow> u64 list" where
  "half h tab = map (\<lambda>r. tab ! (2 * r + h)) [0..<64]"

lemma length_half [simp]: "length (half h tab) = 64"
  by (simp add: half_def)

lemma half_nth: "r < 64 \<Longrightarrow> half h tab ! r = tab ! (2 * r + h)"
  by (simp add: half_def)

lemma length_half_pass [simp]: "length (half_pass d f tab) = 128"
  by (simp add: half_pass_def)

lemma half_half_pass:
  assumes "h < 2" "64 mod (2 * d) = 0" "0 < d"
  shows "half h (half_pass d f tab) = trasp_pass d f (half h tab)"
proof (rule nth_equalityI)
  fix r assume "r < length (half h (half_pass d f tab))"
  then have r: "r < 64" by simp
  have x: "2 * r + h < 128" "(2 * r + h) div 2 = r" using r assms(1) by auto
  show "half h (half_pass d f tab) ! r = trasp_pass d f (half h tab) ! r"
  proof (cases "r div d mod 2 = 0")
    case True
    then have "even (r div d)" by presburger
    then obtain q where q: "r div d = 2 * q" by (elim evenE)
    have "r + d < 64"
    proof -
      obtain e where e: "64 = 2 * d * e" using assms(2) by (elim dvdE [OF mod_0_imp_dvd])
      have "r < d + d * (2 * q)" using dividend_less_times_div [OF assms(3), of r] by (simp only: q)
      moreover have "q < e"
      proof (rule ccontr)
        assume "\<not> q < e"
        then have "d * (2 * e) \<le> d * (r div d)" using q by simp
        also have "\<dots> \<le> r" by simp
        finally show False using e r by simp
      qed
      then have "d * (2 * q + 2) \<le> d * (2 * e)" by (intro mult_le_mono2) simp
      ultimately show ?thesis using e by (simp add: algebra_simps)
    qed
    then show ?thesis using True r x by (simp add: half_nth half_pass_def trasp_pass_def ac_simps)
  next
    case False
    then have "d \<le> r" by (metis div_less linorder_not_le mod_0)
    then have "2 * r + h - 2 * d = 2 * (r - d) + h" by simp
    then show ?thesis using False r x \<open>d \<le> r\<close> by (simp add: half_nth half_pass_def trasp_pass_def)
  qed
qed simp

lemma half_trasp128:
  assumes "h < 2"
  shows "half h (trasp64_128_88ccw tab) = trasp64_64_88ccw (half h tab)"
    and "half h (trasp64_128_88cw tab) = trasp64_64_88cw (half h tab)"
  by (simp_all add: trasp64_128_88ccw_def trasp64_128_88cw_def trasp64_64_88ccw_def trasp64_64_88cw_def half_half_pass assms)

lemma wide128_position:
  assumes "h < 2" "r < 64" "k < 64"
  shows "bit (trasp64_128_88ccw tab ! (2 * r + h)) k \<longleftrightarrow> bit (tab ! (2 * (k XOR 7) + h)) r"
    and "bit (trasp64_128_88cw tab ! (2 * r + h)) k \<longleftrightarrow> bit (tab ! (2 * k + h)) (r XOR 7)"
proof -
  have "r XOR 7 < 64" "k XOR 7 < 64" using assms by (simp_all add: xor_7_less_64)
  then show "bit (trasp64_128_88ccw tab ! (2 * r + h)) k \<longleftrightarrow> bit (tab ! (2 * (k XOR 7) + h)) r"
    "bit (trasp64_128_88cw tab ! (2 * r + h)) k \<longleftrightarrow> bit (tab ! (2 * k + h)) (r XOR 7)"
    using wide_position(1) [OF assms(2,3), of "half h tab"] wide_position(2) [OF assms(2,3), of "half h tab"]
      half_nth [OF assms(2), of h "trasp64_128_88ccw tab"] half_nth [OF assms(2), of h "trasp64_128_88cw tab"] assms
    by (simp_all add: half_trasp128 half_nth)
qed

subsection \<open>Packets in the tables\<close>

lemma length_bytes64 [simp]: "length (bytes64 w) = 8"
  by (simp add: bytes64_def bytes32_def)

lemma bit_bytes64: "i < 8 \<Longrightarrow> b < 8 \<Longrightarrow> bit (bytes64 w ! i) b \<longleftrightarrow> bit w (8 * i + b)"
proof -
  assume i: "i < 8" and b: "b < 8"
  have l: "length (bytes32 v) = 4" for v by (simp add: bytes32_def)
  show ?thesis
  proof (cases "i < 4")
    case True
    then show ?thesis using b by (simp add: bytes64_def nth_append l bit_bytes32 bit_simps)
  next
    case False
    define m where "m = i - 4"
    then have m: "i = 4 + m" "m < 4" "8 * m + b < 32" using False i b by simp_all
    then show ?thesis using b
      by (simp add: bytes64_def nth_append l bit_bytes32 bit_ucast_iff bit_drop_bit_eq add.assoc)
  qed
qed

lemma bytes64_le64: "8 \<le> length d \<Longrightarrow> bytes64 (le64 d) = take 8 d"
proof -
  assume d: "8 \<le> length d"
  have lo: "(ucast (le64 d) :: u32) = le32 d"
    by (rule bit_word_eqI) (auto simp: le64_def bit_simps)
  have hi: "(ucast (drop_bit 32 (le64 d)) :: u32) = le32 (drop 4 d)"
  proof (rule bit_word_eqI)
    fix n assume "n < LENGTH(32)"
    then show "bit (ucast (drop_bit 32 (le64 d)) :: u32) n = bit (le32 (drop 4 d)) n"
      using bit_imp_le_length [of "le32 d" "32 + n"] by (auto simp: le64_def bit_simps)
  qed
  have "bytes32 (le32 (take 4 d)) @ bytes32 (le32 (take 4 (drop 4 d))) = take 8 d"
    using d by (simp add: le32_bytes take_add [of 4 4, simplified, symmetric])
  moreover have "le32 (take 4 d) = le32 d" "le32 (take 4 (drop 4 d)) = le32 (drop 4 d)"
    by (simp_all add: le32_def)
  ultimately show ?thesis by (simp add: bytes64_def lo hi)
qed

lemma length_FFTABLEOUT_wide [simp]: "length (FFTABLEOUT_wide tab g) = 8"
  by (simp add: FFTABLEOUT_wide_def)

lemma FFTABLEIN_OUT_wide:
  "g < length tab \<Longrightarrow> 8 \<le> length d \<Longrightarrow>
     FFTABLEOUT_wide (FFTABLEIN_wide tab g d) h = (if h = g then take 8 d else FFTABLEOUT_wide tab h)"
  by (simp add: FFTABLEIN_wide_def FFTABLEOUT_wide_def bytes64_le64)

lemma FFTABLEOUTXORNBY_wide_eq:
  assumes "n \<le> 8" "n \<le> length data"
  shows "FFTABLEOUTXORNBY_wide n data tab g = map2 (XOR) (take n data) (take n (FFTABLEOUT_wide tab g)) @ drop n data"
proof -
  have "(8 * g + j) div 8 = g" "(8 * g + j) mod 8 = j" if "j < n" for j using that assms(1) by auto
  then show ?thesis
    using assms by (auto simp: FFTABLEOUTXORNBY_wide_def FFTABLEOUT_wide_def intro!: nth_equalityI)
qed

text \<open>The 64-bit modes: packet \<open>p\<close> is in lane \<open>p XOR 7\<close> of the groups.\<close>

lemma wide_groups_of_packets:
  assumes "i < 8" "b < 8" "p < 64"
  shows "bit (trasp64_64_88ccw tab ! (8 * i + b)) (p XOR 7) \<longleftrightarrow> bit (FFTABLEOUT_wide tab p ! i) b"
    and "bit (FFTABLEOUT_wide (trasp64_64_88cw cb) p ! i) b \<longleftrightarrow> bit (cb ! (8 * i + b)) (p XOR 7)"
proof -
  have r: "8 * i + b < 64" using assms by linarith
  show "bit (trasp64_64_88ccw tab ! (8 * i + b)) (p XOR 7) \<longleftrightarrow> bit (FFTABLEOUT_wide tab p ! i) b"
    using r assms by (simp add: wide_position xor_7_less_64 FFTABLEOUT_wide_def bit_bytes64)
  show "bit (FFTABLEOUT_wide (trasp64_64_88cw cb) p ! i) b \<longleftrightarrow> bit (cb ! (8 * i + b)) (p XOR 7)"
    using r assms by (simp add: wide_position FFTABLEOUT_wide_def bit_bytes64)
qed

text \<open>The 128-bit modes: packet \<open>p\<close> is in lane \<open>(p div 2) XOR 7\<close> of half \<open>p mod 2\<close> of the groups.\<close>

lemma wide128_groups_of_packets:
  assumes "i < 8" "b < 8" "p < 128"
  shows "bit (trasp64_128_88ccw tab ! (2 * (8 * i + b) + p mod 2)) ((p div 2) XOR 7) \<longleftrightarrow> bit (FFTABLEOUT_wide tab p ! i) b"
    and "bit (FFTABLEOUT_wide (trasp64_128_88cw cb) p ! i) b \<longleftrightarrow> bit (cb ! (2 * (8 * i + b) + p mod 2)) ((p div 2) XOR 7)"
proof -
  have r: "8 * i + b < 64" "p div 2 < 64" "p mod 2 < 2" "2 * (p div 2) + p mod 2 = p" using assms by auto
  show "bit (trasp64_128_88ccw tab ! (2 * (8 * i + b) + p mod 2)) ((p div 2) XOR 7) \<longleftrightarrow> bit (FFTABLEOUT_wide tab p ! i) b"
    using r(4) wide128_position(1) [OF r(3,1) xor_7_less_64 [OF r(2)], of tab] assms
    by (simp add: FFTABLEOUT_wide_def bit_bytes64)
  show "bit (FFTABLEOUT_wide (trasp64_128_88cw cb) p ! i) b \<longleftrightarrow> bit (cb ! (2 * (8 * i + b) + p mod 2)) ((p div 2) XOR 7)"
    using wide128_position(2) [OF r(3,2) r(1), of cb] assms unfolding r(4)
    by (simp add: FFTABLEOUT_wide_def bit_bytes64)
qed

end
