(* ===== verification/SliceLayout.thy ===== *)
theory SliceLayout
  imports StreamRef TransposeWide
begin

text \<open>
  Groups that consist of several machine words. In every parallel mode of FFdecsa the group operations work on each
  of \<open>n\<close> words separately (\<open>slice_words\<close>), and a row of the table is the group whose words are the pieces of the row from
  the least significant end (little endian). The locales \<open>words32\<close>, \<open>words64\<close> and \<open>words128\<close> are these contracts for
  rows of 32, 64 and 128 bits; each of them gives the contract \<open>packed\<close> of a mode, and with it the correctness
  of the stream cypher.
\<close>

subsection \<open>Pieces of a word\<close>

definition chop :: "'r :: len word \<Rightarrow> nat \<Rightarrow> 'w :: len word" where
  "chop w j = (ucast (drop_bit (LENGTH('w) * j) w) :: 'w word)"

fun join :: "nat \<Rightarrow> (nat \<Rightarrow> 'w :: len word) \<Rightarrow> 'r :: len word" where
  "join 0 f = 0"
| "join (Suc n) f = join n f OR push_bit (LENGTH('w) * n) (ucast (f n))"

lemma bit_chop:
  assumes "i < LENGTH('r)"
  shows "bit (chop (w :: 'r :: len word) (i div LENGTH('w)) :: 'w :: len word) (i mod LENGTH('w)) \<longleftrightarrow> bit w i"
proof -
  have "LENGTH('w) * (i div LENGTH('w)) + i mod LENGTH('w) = i" by (rule mult_div_mod_eq)
  then show ?thesis by (simp add: chop_def bit_simps)
qed

lemma bit_join:
  "bit (join n f :: 'r :: len word) i \<longleftrightarrow>
     i < LENGTH('r) \<and> i div LENGTH('w) < n \<and> bit (f (i div LENGTH('w)) :: 'w :: len word) (i mod LENGTH('w))"
proof (induction n)
  case (Suc n)
  have "bit (push_bit (LENGTH('w) * n) (ucast (f n) :: 'r word)) i \<longleftrightarrow>
      i < LENGTH('r) \<and> i div LENGTH('w) = n \<and> bit (f n) (i mod LENGTH('w))"
  proof (cases "i div LENGTH('w) = n")
    case True
    then have "LENGTH('w) * n \<le> i" "i - LENGTH('w) * n = i mod LENGTH('w)"
      by (auto simp: minus_mult_div_eq_mod)
    then show ?thesis using True by (auto simp: bit_simps)
  next
    case False
    have "\<not> bit (f n) (i - LENGTH('w) * n)" if "LENGTH('w) * n \<le> i"
    proof
      assume "bit (f n) (i - LENGTH('w) * n)"
      then have "i - LENGTH('w) * n < LENGTH('w)" by (rule bit_imp_le_length)
      then have "i div LENGTH('w) = n" using that by (intro div_nat_eqI) (auto simp: algebra_simps)
      then show False using False by simp
    qed
    then show ?thesis using False by (auto simp: bit_simps)
  qed
  then show ?case using Suc by (auto simp: bit_or_iff less_Suc_eq)
qed simp

subsection \<open>Groups of words\<close>

locale slice_words =
  fixes g :: "'g group_ops" and el :: "nat \<Rightarrow> 'g \<Rightarrow> 'w :: len word" and n :: nat
  assumes el_xor: "j < n \<Longrightarrow> el j (FFXOR g a b) = el j a XOR el j b"
    and el_and: "j < n \<Longrightarrow> el j (FFAND g a b) = el j a AND el j b"
    and el_or: "j < n \<Longrightarrow> el j (FFOR g a b) = el j a OR el j b"
    and el_not: "j < n \<Longrightarrow> el j (FFNOT g a) = NOT (el j a)"
    and el_0: "j < n \<Longrightarrow> el j (FF0 g) = 0"
    and el_1: "j < n \<Longrightarrow> el j (FF1 g) = - 1"
begin

definition lane_at :: "nat \<Rightarrow> 'g \<Rightarrow> bool" where
  "lane_at i a \<longleftrightarrow> bit (el (i div LENGTH('w)) a) (i mod LENGTH('w))"

end

sublocale slice_words \<subseteq> bitslice g lane_at "n * LENGTH('w)"
proof unfold_locales
  fix i :: nat and a b :: 'g
  assume "i < n * LENGTH('w)"
  then have i: "i div LENGTH('w) < n" "i mod LENGTH('w) < LENGTH('w)" by (simp_all add: less_mult_imp_div_less)
  show "lane_at i (FFXOR g a b) \<longleftrightarrow> lane_at i a \<noteq> lane_at i b"
    using i by (simp add: lane_at_def el_xor bit_xor_iff)
  show "lane_at i (FFAND g a b) \<longleftrightarrow> lane_at i a \<and> lane_at i b"
    using i by (simp add: lane_at_def el_and bit_and_iff)
  show "lane_at i (FFOR g a b) \<longleftrightarrow> lane_at i a \<or> lane_at i b"
    using i by (simp add: lane_at_def el_or bit_or_iff)
  show "lane_at i (FFNOT g a) \<longleftrightarrow> \<not> lane_at i a"
    using i by (simp add: lane_at_def el_not bit_not_iff)
  show "\<not> lane_at i (FF0 g)" using i by (simp add: lane_at_def el_0)
  show "lane_at i (FF1 g)" using i by (simp add: lane_at_def el_1)
qed

lemma length_table_in [simp]: "length (FFTABLEIN tab g d) = length tab" "length (FFTABLEIN_wide tab2 g d) = length tab2"
  by (simp_all add: FFTABLEIN_def FFTABLEIN_wide_def)

lemma length_trasp_wide [simp]: "length (trasp64_64_88ccw row) = 64" "length (trasp64_64_88cw row) = 64"
  "length (trasp64_128_88ccw row) = 128" "length (trasp64_128_88cw row) = 128"
  by (simp_all add: trasp64_64_88ccw_def trasp64_64_88cw_def trasp64_128_88ccw_def trasp64_128_88cw_def)

subsection \<open>Rows of 32 bits\<close>

definition mode32 :: "'g group_ops \<Rightarrow> (u32 \<Rightarrow> 'g) \<Rightarrow> ('g \<Rightarrow> u32) \<Rightarrow> ('g, u32 list) slice_mode" where
  "mode32 g load store = \<lparr>m_ops = g, m_in = FFTABLEIN, m_out = FFTABLEOUT, m_rows = map load,
     m_ccw = (\<lambda>tab. map load (trasp64_32_88ccw tab)), m_cw = (\<lambda>gs. trasp64_32_88cw (map store gs))\<rparr>"

locale words32 = slice_words g el n for g :: "'g group_ops" and el :: "nat \<Rightarrow> 'g \<Rightarrow> 'w :: len word" and n :: nat +
  fixes load :: "u32 \<Rightarrow> 'g" and store :: "'g \<Rightarrow> u32"
  assumes width: "n * LENGTH('w) = 32"
    and el_load: "j < n \<Longrightarrow> el j (load w) = chop w j"
    and store_el: "store a = join n (\<lambda>j. el j a)"
begin

lemma lane_of_row: "i < 32 \<Longrightarrow> lane_at i (load w) \<longleftrightarrow> bit w i"
proof -
  assume i: "i < 32"
  then have "i div LENGTH('w) < n" using width by (simp add: less_mult_imp_div_less)
  then show ?thesis using bit_chop [of i w] i by (simp add: lane_at_def el_load)
qed

lemma bit_of_row: "i < 32 \<Longrightarrow> bit (store a) i \<longleftrightarrow> lane_at i a"
proof -
  assume i: "i < 32"
  then have "i div LENGTH('w) < n" using width by (simp add: less_mult_imp_div_less)
  then show ?thesis using i by (simp add: lane_at_def store_el bit_join)
qed

end

sublocale words32 \<subseteq> row: packed "mode32 g load store" lane_at 32 "\<lambda>p. p XOR 7" "\<lambda>tab. length tab = 64"
proof (rule packed.intro)
  show "bitslice (m_ops (mode32 g load store)) lane_at 32"
    using bitslice_axioms width by (simp add: mode32_def)
  show "packed_axioms (mode32 g load store) lane_at 32 (\<lambda>p. p XOR 7) (\<lambda>tab. length tab = 64)"
  proof unfold_locales
    fix i b p :: nat and tab :: "u32 list" and cb :: "'g list"
    assume i: "i < 8" "b < 8" and p: "p < 32"
    have r: "8 * i + b < 64" using i by linarith
    note q = xor_7_less [OF p]
    show "lane_at (p XOR 7) (m_ccw (mode32 g load store) tab ! (8 * i + b)) \<longleftrightarrow> bit (m_out (mode32 g load store) tab p ! i) b"
      using r groups_of_packets [OF i q, of tab] by (simp add: mode32_def lane_of_row q)
    assume "length cb = 64"
    then show "bit (m_out (mode32 g load store) (m_cw (mode32 g load store) cb) p ! i) b \<longleftrightarrow> lane_at (p XOR 7) (cb ! (8 * i + b))"
      using r packets_of_groups [OF i p, of "map store cb"] by (simp add: mode32_def bit_of_row q)
  qed (simp_all add: mode32_def xor_7_less FFTABLEIN_OUT)
qed

subsection \<open>Rows of 64 bits\<close>

definition mode64 :: "'g group_ops \<Rightarrow> (u64 \<Rightarrow> 'g) \<Rightarrow> ('g \<Rightarrow> u64) \<Rightarrow> ('g, u64 list) slice_mode" where
  "mode64 g load store = \<lparr>m_ops = g, m_in = FFTABLEIN_wide, m_out = FFTABLEOUT_wide, m_rows = map load,
     m_ccw = (\<lambda>tab. map load (trasp64_64_88ccw tab)), m_cw = (\<lambda>gs. trasp64_64_88cw (map store gs))\<rparr>"

locale words64 = slice_words g el n for g :: "'g group_ops" and el :: "nat \<Rightarrow> 'g \<Rightarrow> 'w :: len word" and n :: nat +
  fixes load :: "u64 \<Rightarrow> 'g" and store :: "'g \<Rightarrow> u64"
  assumes width: "n * LENGTH('w) = 64"
    and el_load: "j < n \<Longrightarrow> el j (load w) = chop w j"
    and store_el: "store a = join n (\<lambda>j. el j a)"
begin

lemma lane_of_row: "i < 64 \<Longrightarrow> lane_at i (load w) \<longleftrightarrow> bit w i"
proof -
  assume i: "i < 64"
  then have "i div LENGTH('w) < n" using width by (simp add: less_mult_imp_div_less)
  then show ?thesis using bit_chop [of i w] i by (simp add: lane_at_def el_load)
qed

lemma bit_of_row: "i < 64 \<Longrightarrow> bit (store a) i \<longleftrightarrow> lane_at i a"
proof -
  assume i: "i < 64"
  then have "i div LENGTH('w) < n" using width by (simp add: less_mult_imp_div_less)
  then show ?thesis using i by (simp add: lane_at_def store_el bit_join)
qed

end

sublocale words64 \<subseteq> row: packed "mode64 g load store" lane_at 64 "\<lambda>p. p XOR 7" "\<lambda>tab. length tab = 64"
proof (rule packed.intro)
  show "bitslice (m_ops (mode64 g load store)) lane_at 64"
    using bitslice_axioms width by (simp add: mode64_def)
  show "packed_axioms (mode64 g load store) lane_at 64 (\<lambda>p. p XOR 7) (\<lambda>tab. length tab = 64)"
  proof unfold_locales
    fix i b p :: nat and tab :: "u64 list" and cb :: "'g list"
    assume i: "i < 8" "b < 8" and p: "p < 64"
    have r: "8 * i + b < 64" using i by linarith
    note q = xor_7_less_64 [OF p]
    show "lane_at (p XOR 7) (m_ccw (mode64 g load store) tab ! (8 * i + b)) \<longleftrightarrow> bit (m_out (mode64 g load store) tab p ! i) b"
      using r wide_groups_of_packets(1) [OF i p, of tab] by (simp add: mode64_def lane_of_row q)
    assume "length cb = 64"
    then show "bit (m_out (mode64 g load store) (m_cw (mode64 g load store) cb) p ! i) b \<longleftrightarrow> lane_at (p XOR 7) (cb ! (8 * i + b))"
      using r wide_groups_of_packets(2) [OF i p, of "map store cb"] by (simp add: mode64_def bit_of_row q)
  qed (simp_all add: mode64_def xor_7_less_64 FFTABLEIN_OUT_wide)
qed

subsection \<open>Rows of 128 bits\<close>

text \<open>A row is two half rows.\<close>

definition load_rows :: "(u64 \<Rightarrow> u64 \<Rightarrow> 'g) \<Rightarrow> u64 list \<Rightarrow> 'g list" where
  "load_rows load tab = map (\<lambda>r. load (tab ! (2 * r)) (tab ! (2 * r + 1))) [0..<64]"

definition store_rows :: "('g \<Rightarrow> u64 \<times> u64) \<Rightarrow> 'g list \<Rightarrow> u64 list" where
  "store_rows store gs = map (\<lambda>x. (if even x then fst else snd) (store (gs ! (x div 2)))) [0..<128]"

definition mode128 :: "'g group_ops \<Rightarrow> (u64 \<Rightarrow> u64 \<Rightarrow> 'g) \<Rightarrow> ('g \<Rightarrow> u64 \<times> u64) \<Rightarrow> ('g, u64 list) slice_mode" where
  "mode128 g load store = \<lparr>m_ops = g, m_in = FFTABLEIN_wide, m_out = FFTABLEOUT_wide, m_rows = load_rows load,
     m_ccw = (\<lambda>tab. load_rows load (trasp64_128_88ccw tab)), m_cw = (\<lambda>gs. trasp64_128_88cw (store_rows store gs))\<rparr>"

text \<open>\<open>n\<close> is the number of words in a half row.\<close>

locale words128 = slice_words g el "n + n" for g :: "'g group_ops" and el :: "nat \<Rightarrow> 'g \<Rightarrow> 'w :: len word" and n :: nat +
  fixes load :: "u64 \<Rightarrow> u64 \<Rightarrow> 'g" and store :: "'g \<Rightarrow> u64 \<times> u64"
  assumes width: "n * LENGTH('w) = 64"
    and el_load: "j < n \<Longrightarrow> el j (load lo hi) = chop lo j" "j < n \<Longrightarrow> el (n + j) (load lo hi) = chop hi j"
    and store_el: "store a = (join n (\<lambda>j. el j a), join n (\<lambda>j. el (n + j) a))"
begin

lemma lane_half:
  assumes "h < 2" "i < 64"
  shows "lane_at (64 * h + i) a \<longleftrightarrow> bit (el (n * h + i div LENGTH('w)) a) (i mod LENGTH('w))"
proof -
  have e: "64 * h + i = i + n * h * LENGTH('w)" using width by (simp add: ac_simps)
  have "0 < LENGTH('w)" by simp
  then show ?thesis unfolding lane_at_def e by (simp only: div_mult_self1 mod_mult_self1 add.commute)
qed

lemma lane_of_row: "h < 2 \<Longrightarrow> i < 64 \<Longrightarrow> lane_at (64 * h + i) (load lo hi) \<longleftrightarrow> bit (if h = 0 then lo else hi) i"
proof -
  assume h: "h < 2" and i: "i < 64"
  then have j: "i div LENGTH('w) < n" using width by (simp add: less_mult_imp_div_less)
  have "h = 0 \<or> h = 1" using h by auto
  then show ?thesis
    using bit_chop [of i lo] bit_chop [of i hi] i by (auto simp: lane_half [OF h i] el_load [OF j])
qed

lemma bit_of_row: "h < 2 \<Longrightarrow> i < 64 \<Longrightarrow> bit ((if h = 0 then fst else snd) (store a)) i \<longleftrightarrow> lane_at (64 * h + i) a"
proof -
  assume h: "h < 2" and i: "i < 64"
  then have j: "i div LENGTH('w) < n" using width by (simp add: less_mult_imp_div_less)
  have "h = 0 \<or> h = 1" using h by auto
  then show ?thesis using i j by (auto simp: lane_half [OF h i] store_el bit_join)
qed

end

lemma lane128_less: "p < 128 \<Longrightarrow> 64 * (p mod 2) + (p div 2 XOR 7) < (128 :: nat)"
proof -
  assume "p < 128"
  then have "p div 2 XOR 7 < 64" by (intro xor_7_less_64) simp
  moreover have "p mod 2 \<le> 1" by simp
  ultimately show ?thesis by linarith
qed

sublocale words128 \<subseteq> row: packed "mode128 g load store" lane_at 128 "\<lambda>p. 64 * (p mod 2) + (p div 2 XOR 7)" "\<lambda>tab. length tab = 128"
proof (rule packed.intro)
  have "(n + n) * LENGTH('w) = 128" using width by (simp add: add_mult_distrib)
  then show "bitslice (m_ops (mode128 g load store)) lane_at 128"
    using bitslice_axioms by (simp add: mode128_def)
  show "packed_axioms (mode128 g load store) lane_at 128 (\<lambda>p. 64 * (p mod 2) + (p div 2 XOR 7)) (\<lambda>tab. length tab = 128)"
  proof unfold_locales
    fix i b p :: nat and tab :: "u64 list" and cb :: "'g list"
    assume i: "i < 8" "b < 8" and p: "p < 128"
    have r: "8 * i + b < 64" using i by linarith
    have q: "p div 2 XOR 7 < 64" using p by (intro xor_7_less_64) simp
    have h: "p mod 2 < 2" "p mod 2 = 0 \<or> p mod 2 = 1" by auto
    have "load_rows load (trasp64_128_88ccw tab) ! (8 * i + b) =
        load (trasp64_128_88ccw tab ! (2 * (8 * i + b))) (trasp64_128_88ccw tab ! (2 * (8 * i + b) + 1))"
      using r by (simp add: load_rows_def)
    then show "lane_at (64 * (p mod 2) + (p div 2 XOR 7)) (m_ccw (mode128 g load store) tab ! (8 * i + b)) \<longleftrightarrow>
        bit (m_out (mode128 g load store) tab p ! i) b"
      using wide128_groups_of_packets(1) [OF i p, of tab] lane_of_row [OF h(1) q] h(2) by (auto simp: mode128_def)
    assume "length cb = 64"
    have "2 * (8 * i + b) + p mod 2 < 128" "(2 * (8 * i + b) + p mod 2) div 2 = 8 * i + b"
      "even (2 * (8 * i + b) + p mod 2) \<longleftrightarrow> p mod 2 = 0" using r h by auto
    then have "store_rows store cb ! (2 * (8 * i + b) + p mod 2) = (if p mod 2 = 0 then fst else snd) (store (cb ! (8 * i + b)))"
      by (simp add: store_rows_def del: distrib_left_numeral)
    then show "bit (m_out (mode128 g load store) (m_cw (mode128 g load store) cb) p ! i) b \<longleftrightarrow>
        lane_at (64 * (p mod 2) + (p div 2 XOR 7)) (cb ! (8 * i + b))"
      using wide128_groups_of_packets(2) [OF i p, of "store_rows store cb"] bit_of_row [OF h(1) q]
      by (simp add: mode128_def)
  qed (simp_all add: mode128_def lane128_less FFTABLEIN_OUT_wide load_rows_def)
qed

end
