(* ===== verification/SliceModes.thy ===== *)
theory SliceModes
  imports SliceLayout Block
begin

text \<open>
  The portable parallel modes of FFdecsa (parallel_*.h without the MMX and SSE ones): what a group and a batch are,
  and the operations on them. The struct modes have \<open>n\<close> fields and do every operation on each field; the array modes
  (\<open>4charA\<close>, \<open>8charA\<close>, \<open>16charA\<close>) do it on each entry; \<open>32_int\<close> and \<open>64_long\<close> have a single word. Each of them is an
  interpretation of the contract of its row width, so the stream cypher of each computes the reference for every
  packet; and the bit permutation of the block cypher, on a batch of any mode, permutes the bits of each byte.
\<close>

subsection \<open>Structs\<close>

text \<open>A struct with more fields begins with those of a struct with fewer.\<close>

record 'a struct2 =
  s1 :: 'a
  s2 :: 'a

record 'a struct4 = "'a struct2" +
  s3 :: 'a
  s4 :: 'a

record 'a struct8 = "'a struct4" +
  s5 :: 'a
  s6 :: 'a
  s7 :: 'a
  s8 :: 'a

record 'a struct16 = "'a struct8" +
  s9 :: 'a
  s10 :: 'a
  s11 :: 'a
  s12 :: 'a
  s13 :: 'a
  s14 :: 'a
  s15 :: 'a
  s16 :: 'a

text \<open>Field by field: two arguments, one argument, and the same value in each field; the fields as a list and back.\<close>

definition zip2 :: "('a \<Rightarrow> 'a \<Rightarrow> 'a) \<Rightarrow> 'a struct2 \<Rightarrow> 'a struct2 \<Rightarrow> 'a struct2" where
  "zip2 f a b =
     \<lparr>s1 = f (s1 a) (s1 b), s2 = f (s2 a) (s2 b)\<rparr>"

definition each2 :: "('a \<Rightarrow> 'a) \<Rightarrow> 'a struct2 \<Rightarrow> 'a struct2" where
  "each2 f a =
     \<lparr>s1 = f (s1 a), s2 = f (s2 a)\<rparr>"

definition fill2 :: "'a \<Rightarrow> 'a struct2" where
  "fill2 c =
     \<lparr>s1 = c, s2 = c\<rparr>"

definition fields2 :: "'a struct2 \<Rightarrow> 'a list" where
  "fields2 a = [s1 a, s2 a]"

definition of_fields2 :: "'a list \<Rightarrow> 'a struct2" where
  "of_fields2 xs =
     \<lparr>s1 = xs ! 0, s2 = xs ! 1\<rparr>"

definition zip4 :: "('a \<Rightarrow> 'a \<Rightarrow> 'a) \<Rightarrow> 'a struct4 \<Rightarrow> 'a struct4 \<Rightarrow> 'a struct4" where
  "zip4 f a b =
     \<lparr>s1 = f (s1 a) (s1 b), s2 = f (s2 a) (s2 b), s3 = f (s3 a) (s3 b), s4 = f (s4 a) (s4 b)\<rparr>"

definition each4 :: "('a \<Rightarrow> 'a) \<Rightarrow> 'a struct4 \<Rightarrow> 'a struct4" where
  "each4 f a =
     \<lparr>s1 = f (s1 a), s2 = f (s2 a), s3 = f (s3 a), s4 = f (s4 a)\<rparr>"

definition fill4 :: "'a \<Rightarrow> 'a struct4" where
  "fill4 c =
     \<lparr>s1 = c, s2 = c, s3 = c, s4 = c\<rparr>"

definition fields4 :: "'a struct4 \<Rightarrow> 'a list" where
  "fields4 a = [s1 a, s2 a, s3 a, s4 a]"

definition of_fields4 :: "'a list \<Rightarrow> 'a struct4" where
  "of_fields4 xs =
     \<lparr>s1 = xs ! 0, s2 = xs ! 1, s3 = xs ! 2, s4 = xs ! 3\<rparr>"

definition zip8 :: "('a \<Rightarrow> 'a \<Rightarrow> 'a) \<Rightarrow> 'a struct8 \<Rightarrow> 'a struct8 \<Rightarrow> 'a struct8" where
  "zip8 f a b =
     \<lparr>s1 = f (s1 a) (s1 b), s2 = f (s2 a) (s2 b), s3 = f (s3 a) (s3 b), s4 = f (s4 a) (s4 b),
     s5 = f (s5 a) (s5 b), s6 = f (s6 a) (s6 b), s7 = f (s7 a) (s7 b), s8 = f (s8 a) (s8 b)\<rparr>"

definition each8 :: "('a \<Rightarrow> 'a) \<Rightarrow> 'a struct8 \<Rightarrow> 'a struct8" where
  "each8 f a =
     \<lparr>s1 = f (s1 a), s2 = f (s2 a), s3 = f (s3 a), s4 = f (s4 a),
     s5 = f (s5 a), s6 = f (s6 a), s7 = f (s7 a), s8 = f (s8 a)\<rparr>"

definition fill8 :: "'a \<Rightarrow> 'a struct8" where
  "fill8 c =
     \<lparr>s1 = c, s2 = c, s3 = c, s4 = c,
     s5 = c, s6 = c, s7 = c, s8 = c\<rparr>"

definition fields8 :: "'a struct8 \<Rightarrow> 'a list" where
  "fields8 a = [s1 a, s2 a, s3 a, s4 a, s5 a, s6 a, s7 a, s8 a]"

definition of_fields8 :: "'a list \<Rightarrow> 'a struct8" where
  "of_fields8 xs =
     \<lparr>s1 = xs ! 0, s2 = xs ! 1, s3 = xs ! 2, s4 = xs ! 3,
     s5 = xs ! 4, s6 = xs ! 5, s7 = xs ! 6, s8 = xs ! 7\<rparr>"

definition zip16 :: "('a \<Rightarrow> 'a \<Rightarrow> 'a) \<Rightarrow> 'a struct16 \<Rightarrow> 'a struct16 \<Rightarrow> 'a struct16" where
  "zip16 f a b =
     \<lparr>s1 = f (s1 a) (s1 b), s2 = f (s2 a) (s2 b), s3 = f (s3 a) (s3 b), s4 = f (s4 a) (s4 b),
     s5 = f (s5 a) (s5 b), s6 = f (s6 a) (s6 b), s7 = f (s7 a) (s7 b), s8 = f (s8 a) (s8 b),
     s9 = f (s9 a) (s9 b), s10 = f (s10 a) (s10 b), s11 = f (s11 a) (s11 b), s12 = f (s12 a) (s12 b),
     s13 = f (s13 a) (s13 b), s14 = f (s14 a) (s14 b), s15 = f (s15 a) (s15 b), s16 = f (s16 a) (s16 b)\<rparr>"

definition each16 :: "('a \<Rightarrow> 'a) \<Rightarrow> 'a struct16 \<Rightarrow> 'a struct16" where
  "each16 f a =
     \<lparr>s1 = f (s1 a), s2 = f (s2 a), s3 = f (s3 a), s4 = f (s4 a),
     s5 = f (s5 a), s6 = f (s6 a), s7 = f (s7 a), s8 = f (s8 a),
     s9 = f (s9 a), s10 = f (s10 a), s11 = f (s11 a), s12 = f (s12 a),
     s13 = f (s13 a), s14 = f (s14 a), s15 = f (s15 a), s16 = f (s16 a)\<rparr>"

definition fill16 :: "'a \<Rightarrow> 'a struct16" where
  "fill16 c =
     \<lparr>s1 = c, s2 = c, s3 = c, s4 = c,
     s5 = c, s6 = c, s7 = c, s8 = c,
     s9 = c, s10 = c, s11 = c, s12 = c,
     s13 = c, s14 = c, s15 = c, s16 = c\<rparr>"

definition fields16 :: "'a struct16 \<Rightarrow> 'a list" where
  "fields16 a = [s1 a, s2 a, s3 a, s4 a, s5 a, s6 a, s7 a, s8 a, s9 a, s10 a, s11 a, s12 a, s13 a, s14 a, s15 a, s16 a]"

definition of_fields16 :: "'a list \<Rightarrow> 'a struct16" where
  "of_fields16 xs =
     \<lparr>s1 = xs ! 0, s2 = xs ! 1, s3 = xs ! 2, s4 = xs ! 3,
     s5 = xs ! 4, s6 = xs ! 5, s7 = xs ! 6, s8 = xs ! 7,
     s9 = xs ! 8, s10 = xs ! 9, s11 = xs ! 10, s12 = xs ! 11,
     s13 = xs ! 12, s14 = xs ! 13, s15 = xs ! 14, s16 = xs ! 15\<rparr>"

lemma fields2:
  "fields2 (zip2 f a b) = map2 f (fields2 a) (fields2 b)" "fields2 (each2 h a) = map h (fields2 a)"
  "fields2 (fill2 c) = replicate 2 c" "length (fields2 a) = 2" "length xs = 2 \<Longrightarrow> fields2 (of_fields2 xs) = xs"
  by (simp_all add: fields2_def zip2_def each2_def fill2_def of_fields2_def list_eq_iff_nth_eq less_Suc_eq numeral_eq_Suc)

lemma fields4:
  "fields4 (zip4 f a b) = map2 f (fields4 a) (fields4 b)" "fields4 (each4 h a) = map h (fields4 a)"
  "fields4 (fill4 c) = replicate 4 c" "length (fields4 a) = 4" "length xs = 4 \<Longrightarrow> fields4 (of_fields4 xs) = xs"
  by (simp_all add: fields4_def zip4_def each4_def fill4_def of_fields4_def list_eq_iff_nth_eq less_Suc_eq numeral_eq_Suc)

lemma fields8:
  "fields8 (zip8 f a b) = map2 f (fields8 a) (fields8 b)" "fields8 (each8 h a) = map h (fields8 a)"
  "fields8 (fill8 c) = replicate 8 c" "length (fields8 a) = 8" "length xs = 8 \<Longrightarrow> fields8 (of_fields8 xs) = xs"
  by (simp_all add: fields8_def zip8_def each8_def fill8_def of_fields8_def list_eq_iff_nth_eq less_Suc_eq numeral_eq_Suc)

lemma fields16:
  "fields16 (zip16 f a b) = map2 f (fields16 a) (fields16 b)" "fields16 (each16 h a) = map h (fields16 a)"
  "fields16 (fill16 c) = replicate 16 c" "length (fields16 a) = 16" "length xs = 16 \<Longrightarrow> fields16 (of_fields16 xs) = xs"
  by (simp_all add: fields16_def zip16_def each16_def fill16_def of_fields16_def list_eq_iff_nth_eq less_Suc_eq numeral_eq_Suc)

lemmas fields = fields2 fields4 fields8 fields16

subsection \<open>Group operations of the modes\<close>

definition ops_032_4char :: "u8 struct4 group_ops" where
  "ops_032_4char = \<lparr>FFXOR = zip4 (XOR), FFAND = zip4 (AND), FFOR = zip4 (OR), FFNOT = each4 NOT, FF0 = fill4 0x0, FF1 = fill4 0xff\<rparr>"

definition ops_064_8char :: "u8 struct8 group_ops" where
  "ops_064_8char = \<lparr>FFXOR = zip8 (XOR), FFAND = zip8 (AND), FFOR = zip8 (OR), FFNOT = each8 NOT, FF0 = fill8 0x0, FF1 = fill8 0xff\<rparr>"

definition ops_064_2int :: "u32 struct2 group_ops" where
  "ops_064_2int = \<lparr>FFXOR = zip2 (XOR), FFAND = zip2 (AND), FFOR = zip2 (OR), FFNOT = each2 NOT, FF0 = fill2 0x0, FF1 = fill2 0xffffffff\<rparr>"

definition ops_128_16char :: "u8 struct16 group_ops" where
  "ops_128_16char = \<lparr>FFXOR = zip16 (XOR), FFAND = zip16 (AND), FFOR = zip16 (OR), FFNOT = each16 NOT, FF0 = fill16 0x0, FF1 = fill16 0xff\<rparr>"

definition ops_128_4int :: "u32 struct4 group_ops" where
  "ops_128_4int = \<lparr>FFXOR = zip4 (XOR), FFAND = zip4 (AND), FFOR = zip4 (OR), FFNOT = each4 NOT, FF0 = fill4 0x0, FF1 = fill4 0xffffffff\<rparr>"

definition ops_128_2long :: "u64 struct2 group_ops" where
  "ops_128_2long = \<lparr>FFXOR = zip2 (XOR), FFAND = zip2 (AND), FFOR = zip2 (OR), FFNOT = each2 NOT, FF0 = fill2 0x0, FF1 = fill2 0xffffffffffffffff\<rparr>"

text \<open>The array modes: an array of \<open>n\<close> bytes.\<close>

definition ops_charA :: "nat \<Rightarrow> bytes group_ops" where
  "ops_charA n = \<lparr>FFXOR = (\<lambda>a b. map (\<lambda>i. a ! i XOR b ! i) [0..<n]), FFAND = (\<lambda>a b. map (\<lambda>i. a ! i AND b ! i) [0..<n]),
     FFOR = (\<lambda>a b. map (\<lambda>i. a ! i OR b ! i) [0..<n]), FFNOT = (\<lambda>a. map (\<lambda>i. NOT (a ! i)) [0..<n]),
     FF0 = replicate n 0x0, FF1 = replicate n 0xff\<rparr>"

definition ops_032_4charA :: "bytes group_ops" where "ops_032_4charA = ops_charA 4"

definition ops_064_8charA :: "bytes group_ops" where "ops_064_8charA = ops_charA 8"

definition ops_128_16charA :: "bytes group_ops" where "ops_128_16charA = ops_charA 16"

definition ops_064_long :: "u64 group_ops" where
  "ops_064_long = \<lparr>FFXOR = (XOR), FFAND = (AND), FFOR = (OR), FFNOT = NOT, FF0 = 0x0, FF1 = 0xffffffffffffffff\<rparr>"

subsection \<open>Tables as groups\<close>

text \<open>The table and the groups are the same memory: a group of \<open>n\<close> words is the row with these words.\<close>

definition row_words :: "nat \<Rightarrow> 'r :: len word \<Rightarrow> 'w :: len word list" where
  "row_words n w = map (chop w) [0..<n]"

definition words_row :: "nat \<Rightarrow> 'w :: len word list \<Rightarrow> 'r :: len word" where
  "words_row n ws = join n (\<lambda>j. ws ! j)"

definition half_rows :: "nat \<Rightarrow> 'w :: len word list \<Rightarrow> u64 \<times> u64" where
  "half_rows n ws = (join n (\<lambda>j. ws ! j), join n (\<lambda>j. ws ! (n + j)))"

definition mode_032_4char :: "(u8 struct4, u32 list) slice_mode" where
  "mode_032_4char = mode32 ops_032_4char (of_fields4 \<circ> row_words 4) (words_row 4 \<circ> fields4)"

definition mode_032_4charA :: "(bytes, u32 list) slice_mode" where
  "mode_032_4charA = mode32 ops_032_4charA (row_words 4) (words_row 4)"

definition mode_064_8char :: "(u8 struct8, u64 list) slice_mode" where
  "mode_064_8char = mode64 ops_064_8char (of_fields8 \<circ> row_words 8) (words_row 8 \<circ> fields8)"

definition mode_064_8charA :: "(bytes, u64 list) slice_mode" where
  "mode_064_8charA = mode64 ops_064_8charA (row_words 8) (words_row 8)"

definition mode_064_2int :: "(u32 struct2, u64 list) slice_mode" where
  "mode_064_2int = mode64 ops_064_2int (of_fields2 \<circ> row_words 2) (words_row 2 \<circ> fields2)"

definition mode_064_long :: "(u64, u64 list) slice_mode" where
  "mode_064_long = mode64 ops_064_long id id"

definition mode_128_16char :: "(u8 struct16, u64 list) slice_mode" where
  "mode_128_16char = mode128 ops_128_16char (\<lambda>lo hi. of_fields16 (row_words 8 lo @ row_words 8 hi)) (half_rows 8 \<circ> fields16)"

definition mode_128_16charA :: "(bytes, u64 list) slice_mode" where
  "mode_128_16charA = mode128 ops_128_16charA (\<lambda>lo hi. row_words 8 lo @ row_words 8 hi) (half_rows 8)"

definition mode_128_4int :: "(u32 struct4, u64 list) slice_mode" where
  "mode_128_4int = mode128 ops_128_4int (\<lambda>lo hi. of_fields4 (row_words 2 lo @ row_words 2 hi)) (half_rows 2 \<circ> fields4)"

definition mode_128_2long :: "(u64 struct2, u64 list) slice_mode" where
  "mode_128_2long = mode128 ops_128_2long (\<lambda>lo hi. \<lparr>s1 = lo, s2 = hi\<rparr>) (\<lambda>a. (s1 a, s2 a))"

subsection \<open>The contracts\<close>

lemma all_ones [simp]: "(0xff :: u8) = - 1" "(0xffffffff :: u32) = - 1" "(0xffffffffffffffff :: u64) = - 1"
  by simp_all

lemma length_row_words [simp]: "length (row_words n w) = n"
  by (simp add: row_words_def)

lemma row_words_nth: "j < n \<Longrightarrow> row_words n w ! j = chop w j"
  by (simp add: row_words_def)

text \<open>A row of one word.\<close>

lemma chop_self: "chop w 0 = (w :: 'w :: len word)"
  by (simp add: chop_def)

lemma fields2_pair: "fields2 \<lparr>s1 = a, s2 = b\<rparr> = [a, b]" "fields2 c ! 0 = s1 c" "fields2 c ! Suc 0 = s2 c"
  by (simp_all add: fields2_def)

interpretation m32c: words32 ops_032_4char "\<lambda>j a. fields4 a ! j" 4 "of_fields4 \<circ> row_words 4" "words_row 4 \<circ> fields4"
  by unfold_locales (simp_all add: ops_032_4char_def fields row_words_nth words_row_def)

interpretation m32a: words32 ops_032_4charA "\<lambda>j a. a ! j" 4 "row_words 4" "words_row 4"
  by unfold_locales (simp_all add: ops_032_4charA_def ops_charA_def row_words_nth words_row_def)

interpretation m64c: words64 ops_064_8char "\<lambda>j a. fields8 a ! j" 8 "of_fields8 \<circ> row_words 8" "words_row 8 \<circ> fields8"
  by unfold_locales (simp_all add: ops_064_8char_def fields row_words_nth words_row_def)

interpretation m64a: words64 ops_064_8charA "\<lambda>j a. a ! j" 8 "row_words 8" "words_row 8"
  by unfold_locales (simp_all add: ops_064_8charA_def ops_charA_def row_words_nth words_row_def)

interpretation m64i: words64 ops_064_2int "\<lambda>j a. fields2 a ! j" 2 "of_fields2 \<circ> row_words 2" "words_row 2 \<circ> fields2"
  by unfold_locales (simp_all add: ops_064_2int_def fields row_words_nth words_row_def)

interpretation m64l: words64 ops_064_long "\<lambda>j a. a" 1 "id" "id"
  by unfold_locales (simp_all add: ops_064_long_def chop_self)

interpretation m128c: words128 ops_128_16char "\<lambda>j a. fields16 a ! j" 8 "\<lambda>lo hi. of_fields16 (row_words 8 lo @ row_words 8 hi)" "half_rows 8 \<circ> fields16"
  by unfold_locales (simp_all add: ops_128_16char_def fields row_words_nth nth_append half_rows_def)

interpretation m128a: words128 ops_128_16charA "\<lambda>j a. a ! j" 8 "\<lambda>lo hi. row_words 8 lo @ row_words 8 hi" "half_rows 8"
  by unfold_locales (simp_all add: ops_128_16charA_def ops_charA_def row_words_nth nth_append half_rows_def)

interpretation m128i: words128 ops_128_4int "\<lambda>j a. fields4 a ! j" 2 "\<lambda>lo hi. of_fields4 (row_words 2 lo @ row_words 2 hi)" "half_rows 2 \<circ> fields4"
  by unfold_locales (simp_all add: ops_128_4int_def fields row_words_nth nth_append half_rows_def)

interpretation m128l: words128 ops_128_2long "\<lambda>j a. fields2 a ! j" 1 "\<lambda>lo hi. \<lparr>s1 = lo, s2 = hi\<rparr>" "\<lambda>a. (s1 a, s2 a)"
  by unfold_locales (simp_all add: ops_128_2long_def fields fields2_pair chop_self)

subsection \<open>The stream cypher in every mode\<close>

datatype parallel_mode =
    PARALLEL_32_4CHAR
  | PARALLEL_32_4CHARA
  | PARALLEL_32_INT
  | PARALLEL_64_8CHAR
  | PARALLEL_64_8CHARA
  | PARALLEL_64_2INT
  | PARALLEL_64_LONG
  | PARALLEL_128_16CHAR
  | PARALLEL_128_16CHARA
  | PARALLEL_128_4INT
  | PARALLEL_128_2LONG

fun group_parallelism :: "parallel_mode \<Rightarrow> nat" where
  "group_parallelism PARALLEL_32_4CHAR = 32"
| "group_parallelism PARALLEL_32_4CHARA = 32"
| "group_parallelism PARALLEL_32_INT = 32"
| "group_parallelism PARALLEL_64_8CHAR = 64"
| "group_parallelism PARALLEL_64_8CHARA = 64"
| "group_parallelism PARALLEL_64_2INT = 64"
| "group_parallelism PARALLEL_64_LONG = 64"
| "group_parallelism PARALLEL_128_16CHAR = 128"
| "group_parallelism PARALLEL_128_16CHARA = 128"
| "group_parallelism PARALLEL_128_4INT = 128"
| "group_parallelism PARALLEL_128_2LONG = 128"

text \<open>The key stream of packet \<open>p\<close> in a mode: the first eight bytes of the packets go into the table, the cypher is set up
  with the control word and runs \<open>n\<close> times, and each time the bytes of the packet are read from the output table.\<close>

definition packet_table :: "('g, 't) slice_mode \<Rightarrow> bytes list \<Rightarrow> 't \<Rightarrow> 't" where
  "packet_table m pkts tab = fold (\<lambda>p tab. m_in m tab p (pkts ! p)) [0..<length pkts] tab"

definition zero_regs :: "'g group_ops \<Rightarrow> 'g stream_regs" where
  "zero_regs g =
     (let z = Nib (FF0 g) (FF0 g) (FF0 g) (FF0 g)
      in \<lparr>rA = replicate 42 z, rB = replicate 42 z, rX = z, rY = z, rZ = z, rD = z, rE = z, rF = z,
          rp = FF0 g, rq = FF0 g, rr = FF0 g\<rparr>)"

definition key_stream :: "('g, 't) slice_mode \<Rightarrow> 't \<Rightarrow> nat \<Rightarrow> bytes \<Rightarrow> bytes list \<Rightarrow> nat \<Rightarrow> bytes list" where
  "key_stream m tab n ck pkts p =
     (let (iA, iB) = key_schedule_stream ck;
          regs = group_init m (zero_regs (m_ops m)) (nibble_groups (m_ops m) iA) (nibble_groups (m_ops m) iB)
                   (packet_table m pkts tab)
      in map (\<lambda>out. m_out m out p) (mode_outputs m n regs tab))"

fun mode_key_stream :: "parallel_mode \<Rightarrow> nat \<Rightarrow> bytes \<Rightarrow> bytes list \<Rightarrow> nat \<Rightarrow> bytes list" where
  "mode_key_stream PARALLEL_32_4CHAR = key_stream mode_032_4char (replicate 64 0)"
| "mode_key_stream PARALLEL_32_4CHARA = key_stream mode_032_4charA (replicate 64 0)"
| "mode_key_stream PARALLEL_32_INT = key_stream mode_032_int (replicate 64 0)"
| "mode_key_stream PARALLEL_64_8CHAR = key_stream mode_064_8char (replicate 64 0)"
| "mode_key_stream PARALLEL_64_8CHARA = key_stream mode_064_8charA (replicate 64 0)"
| "mode_key_stream PARALLEL_64_2INT = key_stream mode_064_2int (replicate 64 0)"
| "mode_key_stream PARALLEL_64_LONG = key_stream mode_064_long (replicate 64 0)"
| "mode_key_stream PARALLEL_128_16CHAR = key_stream mode_128_16char (replicate 128 0)"
| "mode_key_stream PARALLEL_128_16CHARA = key_stream mode_128_16charA (replicate 128 0)"
| "mode_key_stream PARALLEL_128_4INT = key_stream mode_128_4int (replicate 128 0)"
| "mode_key_stream PARALLEL_128_2LONG = key_stream mode_128_2long (replicate 128 0)"

lemma wf_zero_regs: "wf_regs (zero_regs g)"
  by (simp add: zero_regs_def wf_regs_def Let_def)

context packed
begin

lemma packet_table_out:
  assumes "tab_ok tab" "length pkts \<le> par" "\<forall>d \<in> set pkts. 8 \<le> length d" "p < length pkts"
  shows "m_out m (packet_table m pkts tab) p = take 8 (pkts ! p)"
proof -
  have "tab_ok (fold (\<lambda>p tab. m_in m tab p (pkts ! p)) [0..<k] tab) \<and>
      (\<forall>q < k. m_out m (fold (\<lambda>p tab. m_in m tab p (pkts ! p)) [0..<k] tab) q = take 8 (pkts ! q))" if "k \<le> length pkts" for k
    using that
  proof (induction k)
    case (Suc k)
    have "8 \<le> length (pkts ! k)" using Suc.prems assms(3) by simp
    then show ?case using Suc assms(2) by (auto simp: in_out tab_ok_in less_Suc_eq)
  qed (simp add: assms(1))
  from this [of "length pkts"] show ?thesis using assms(4) by (simp add: packet_table_def)
qed

lemma key_stream_ref:
  assumes "tab_ok tab" "length ck = 8" "length pkts \<le> par" "\<forall>d \<in> set pkts. 8 \<le> length d" "p < length pkts"
  shows "key_stream m tab n ck pkts p = csa_outputs n (csa_init ck (take 8 (pkts ! p)))"
  using stream_refines [OF wf_zero_regs assms(1,2), where p = p and n = n and sb = "packet_table m pkts tab"] packet_table_out [OF assms(1,3,4,5)] assms(3,5)
  by (simp add: key_stream_def split_def)

end

text \<open>C36: all portable modes of FFdecsa compute the same: for any control word and up to as many packets as a group
  has lanes, the key stream that the bit-sliced cypher of the mode gives each packet, through the mode's own
  operations, memory layout and transpositions, is that of the reference cypher of the packet alone.\<close>

theorem modes_agree:
  assumes "length ck = 8" "length pkts \<le> group_parallelism M" "\<forall>d \<in> set pkts. 8 \<le> length d" "p < length pkts"
  shows "mode_key_stream M n ck pkts p = csa_outputs n (csa_init ck (take 8 (pkts ! p)))"
proof (cases M)
  case PARALLEL_32_4CHAR
  then show ?thesis using m32c.row.key_stream_ref [of "replicate 64 0" ck pkts p n] assms by (simp add: mode_032_4char_def)
next
  case PARALLEL_32_4CHARA
  then show ?thesis using m32a.row.key_stream_ref [of "replicate 64 0" ck pkts p n] assms by (simp add: mode_032_4charA_def)
next
  case PARALLEL_32_INT
  then show ?thesis using p32.key_stream_ref [of "replicate 64 0" ck pkts p n] assms by simp
next
  case PARALLEL_64_8CHAR
  then show ?thesis using m64c.row.key_stream_ref [of "replicate 64 0" ck pkts p n] assms by (simp add: mode_064_8char_def)
next
  case PARALLEL_64_8CHARA
  then show ?thesis using m64a.row.key_stream_ref [of "replicate 64 0" ck pkts p n] assms by (simp add: mode_064_8charA_def)
next
  case PARALLEL_64_2INT
  then show ?thesis using m64i.row.key_stream_ref [of "replicate 64 0" ck pkts p n] assms by (simp add: mode_064_2int_def)
next
  case PARALLEL_64_LONG
  then show ?thesis using m64l.row.key_stream_ref [of "replicate 64 0" ck pkts p n] assms by (simp add: mode_064_long_def)
next
  case PARALLEL_128_16CHAR
  then show ?thesis using m128c.row.key_stream_ref [of "replicate 128 0" ck pkts p n] assms by (simp add: mode_128_16char_def)
next
  case PARALLEL_128_16CHARA
  then show ?thesis using m128a.row.key_stream_ref [of "replicate 128 0" ck pkts p n] assms by (simp add: mode_128_16charA_def)
next
  case PARALLEL_128_4INT
  then show ?thesis using m128i.row.key_stream_ref [of "replicate 128 0" ck pkts p n] assms by (simp add: mode_128_4int_def)
next
  case PARALLEL_128_2LONG
  then show ?thesis using m128l.row.key_stream_ref [of "replicate 128 0" ck pkts p n] assms by (simp add: mode_128_2long_def)
qed

theorem modes_agree_witness:
  "mode_key_stream PARALLEL_128_16CHAR 2 [1, 2, 3, 6, 5, 6, 7, 18] [[1, 2, 3, 4, 5, 6, 7, 8], [9, 8, 7, 6, 5, 4, 3, 2]] 1 =
     mode_key_stream PARALLEL_64_2INT 2 [1, 2, 3, 6, 5, 6, 7, 18] [[9, 8, 7, 6, 5, 4, 3, 2]] 0"
  using modes_agree [of "[1, 2, 3, 6, 5, 6, 7, 18]" "[[1, 2, 3, 4, 5, 6, 7, 8], [9, 8, 7, 6, 5, 4, 3, 2]]" PARALLEL_128_16CHAR 1 2]
    modes_agree [of "[1, 2, 3, 6, 5, 6, 7, 18]" "[[9, 8, 7, 6, 5, 4, 3, 2]]" PARALLEL_64_2INT 0 2]
  by simp

end
