(* ===== verification/SliceBatch.thy ===== *)
theory SliceBatch
  imports SliceModes
begin

text \<open>
  Batches: the block decypher of FFdecsa permutes the bits of many bytes at once, with the operations \<open>B_...\<close> of the
  parallel mode on a batch. The locale \<open>batch_words\<close> is the contract of these operations, word by word; it gives that
  the permutation of \<open>block_decypher_group\<close>, on a batch of any portable mode, is the bit permutation of the reference
  on each of its bytes, although the shifts of the int modes cross the bytes.
\<close>

subsection \<open>Operations\<close>

record 'b batch_ops =
  B_FFAND :: "'b \<Rightarrow> 'b \<Rightarrow> 'b"
  B_FFOR :: "'b \<Rightarrow> 'b \<Rightarrow> 'b"
  B_FFXOR :: "'b \<Rightarrow> 'b \<Rightarrow> 'b"
  B_FFSH8L :: "'b \<Rightarrow> nat \<Rightarrow> 'b"
  B_FFSH8R :: "'b \<Rightarrow> nat \<Rightarrow> 'b"
  B_FFN_ALL_29 :: 'b
  B_FFN_ALL_02 :: 'b
  B_FFN_ALL_04 :: 'b
  B_FFN_ALL_10 :: 'b
  B_FFN_ALL_40 :: 'b
  B_FFN_ALL_80 :: 'b

text \<open>The permutation in \<open>block_decypher_group\<close>.\<close>

definition batch_perm :: "'b batch_ops \<Rightarrow> 'b \<Rightarrow> 'b" where
  "batch_perm B x =
     B_FFOR B (B_FFOR B (B_FFOR B (B_FFOR B (B_FFOR B
       (B_FFSH8L B (B_FFAND B x (B_FFN_ALL_29 B)) 1)
       (B_FFSH8L B (B_FFAND B x (B_FFN_ALL_02 B)) 6))
       (B_FFSH8L B (B_FFAND B x (B_FFN_ALL_04 B)) 3))
       (B_FFSH8R B (B_FFAND B x (B_FFN_ALL_10 B)) 2))
       (B_FFSH8R B (B_FFAND B x (B_FFN_ALL_40 B)) 6))
       (B_FFSH8R B (B_FFAND B x (B_FFN_ALL_80 B)) 4)"

definition batch_032_4char :: "u8 struct4 batch_ops" where
  "batch_032_4char = \<lparr>B_FFAND = zip4 (AND), B_FFOR = zip4 (OR), B_FFXOR = zip4 (XOR),
     B_FFSH8L = (\<lambda>a n. each4 (push_bit n) a), B_FFSH8R = (\<lambda>a n. each4 (drop_bit n) a),
     B_FFN_ALL_29 = fill4 0x29, B_FFN_ALL_02 = fill4 0x02,
     B_FFN_ALL_04 = fill4 0x04, B_FFN_ALL_10 = fill4 0x10,
     B_FFN_ALL_40 = fill4 0x40, B_FFN_ALL_80 = fill4 0x80\<rparr>"

definition batch_064_8char :: "u8 struct8 batch_ops" where
  "batch_064_8char = \<lparr>B_FFAND = zip8 (AND), B_FFOR = zip8 (OR), B_FFXOR = zip8 (XOR),
     B_FFSH8L = (\<lambda>a n. each8 (push_bit n) a), B_FFSH8R = (\<lambda>a n. each8 (drop_bit n) a),
     B_FFN_ALL_29 = fill8 0x29, B_FFN_ALL_02 = fill8 0x02,
     B_FFN_ALL_04 = fill8 0x04, B_FFN_ALL_10 = fill8 0x10,
     B_FFN_ALL_40 = fill8 0x40, B_FFN_ALL_80 = fill8 0x80\<rparr>"

definition batch_064_2int :: "u32 struct2 batch_ops" where
  "batch_064_2int = \<lparr>B_FFAND = zip2 (AND), B_FFOR = zip2 (OR), B_FFXOR = zip2 (XOR),
     B_FFSH8L = (\<lambda>a n. each2 (push_bit n) a), B_FFSH8R = (\<lambda>a n. each2 (drop_bit n) a),
     B_FFN_ALL_29 = fill2 0x29292929, B_FFN_ALL_02 = fill2 0x02020202,
     B_FFN_ALL_04 = fill2 0x04040404, B_FFN_ALL_10 = fill2 0x10101010,
     B_FFN_ALL_40 = fill2 0x40404040, B_FFN_ALL_80 = fill2 0x80808080\<rparr>"

definition batch_128_16char :: "u8 struct16 batch_ops" where
  "batch_128_16char = \<lparr>B_FFAND = zip16 (AND), B_FFOR = zip16 (OR), B_FFXOR = zip16 (XOR),
     B_FFSH8L = (\<lambda>a n. each16 (push_bit n) a), B_FFSH8R = (\<lambda>a n. each16 (drop_bit n) a),
     B_FFN_ALL_29 = fill16 0x29, B_FFN_ALL_02 = fill16 0x02,
     B_FFN_ALL_04 = fill16 0x04, B_FFN_ALL_10 = fill16 0x10,
     B_FFN_ALL_40 = fill16 0x40, B_FFN_ALL_80 = fill16 0x80\<rparr>"

definition batch_128_4int :: "u32 struct4 batch_ops" where
  "batch_128_4int = \<lparr>B_FFAND = zip4 (AND), B_FFOR = zip4 (OR), B_FFXOR = zip4 (XOR),
     B_FFSH8L = (\<lambda>a n. each4 (push_bit n) a), B_FFSH8R = (\<lambda>a n. each4 (drop_bit n) a),
     B_FFN_ALL_29 = fill4 0x29292929, B_FFN_ALL_02 = fill4 0x02020202,
     B_FFN_ALL_04 = fill4 0x04040404, B_FFN_ALL_10 = fill4 0x10101010,
     B_FFN_ALL_40 = fill4 0x40404040, B_FFN_ALL_80 = fill4 0x80808080\<rparr>"

definition batch_128_2long :: "u64 struct2 batch_ops" where
  "batch_128_2long = \<lparr>B_FFAND = zip2 (AND), B_FFOR = zip2 (OR), B_FFXOR = zip2 (XOR),
     B_FFSH8L = (\<lambda>a n. each2 (push_bit n) a), B_FFSH8R = (\<lambda>a n. each2 (drop_bit n) a),
     B_FFN_ALL_29 = fill2 0x2929292929292929, B_FFN_ALL_02 = fill2 0x0202020202020202,
     B_FFN_ALL_04 = fill2 0x0404040404040404, B_FFN_ALL_10 = fill2 0x1010101010101010,
     B_FFN_ALL_40 = fill2 0x4040404040404040, B_FFN_ALL_80 = fill2 0x8080808080808080\<rparr>"

definition batch_charA :: "nat \<Rightarrow> bytes batch_ops" where
  "batch_charA n = \<lparr>B_FFAND = (\<lambda>a b. map (\<lambda>i. a ! i AND b ! i) [0..<n]), B_FFOR = (\<lambda>a b. map (\<lambda>i. a ! i OR b ! i) [0..<n]),
     B_FFXOR = (\<lambda>a b. map (\<lambda>i. a ! i XOR b ! i) [0..<n]),
     B_FFSH8L = (\<lambda>a k. map (\<lambda>i. push_bit k (a ! i)) [0..<n]), B_FFSH8R = (\<lambda>a k. map (\<lambda>i. drop_bit k (a ! i)) [0..<n]),
     B_FFN_ALL_29 = replicate n 0x29, B_FFN_ALL_02 = replicate n 0x02, B_FFN_ALL_04 = replicate n 0x04,
     B_FFN_ALL_10 = replicate n 0x10, B_FFN_ALL_40 = replicate n 0x40, B_FFN_ALL_80 = replicate n 0x80\<rparr>"

definition batch_032_4charA :: "bytes batch_ops" where "batch_032_4charA = batch_charA 4"

definition batch_064_8charA :: "bytes batch_ops" where "batch_064_8charA = batch_charA 8"

definition batch_128_16charA :: "bytes batch_ops" where "batch_128_16charA = batch_charA 16"

definition batch_032_int :: "u32 batch_ops" where
  "batch_032_int = \<lparr>B_FFAND = (AND), B_FFOR = (OR), B_FFXOR = (XOR), B_FFSH8L = (\<lambda>a n. push_bit n a), B_FFSH8R = (\<lambda>a n. drop_bit n a),
     B_FFN_ALL_29 = 0x29292929, B_FFN_ALL_02 = 0x02020202,
     B_FFN_ALL_04 = 0x04040404, B_FFN_ALL_10 = 0x10101010,
     B_FFN_ALL_40 = 0x40404040, B_FFN_ALL_80 = 0x80808080\<rparr>"

definition batch_064_long :: "u64 batch_ops" where
  "batch_064_long = \<lparr>B_FFAND = (AND), B_FFOR = (OR), B_FFXOR = (XOR), B_FFSH8L = (\<lambda>a n. push_bit n a), B_FFSH8R = (\<lambda>a n. drop_bit n a),
     B_FFN_ALL_29 = 0x2929292929292929, B_FFN_ALL_02 = 0x0202020202020202,
     B_FFN_ALL_04 = 0x0404040404040404, B_FFN_ALL_10 = 0x1010101010101010,
     B_FFN_ALL_40 = 0x4040404040404040, B_FFN_ALL_80 = 0x8080808080808080\<rparr>"

subsection \<open>The contract\<close>

locale batch_words =
  fixes B :: "'b batch_ops" and el :: "nat \<Rightarrow> 'b \<Rightarrow> 'w :: len word" and n :: nat
  assumes el_and: "j < n \<Longrightarrow> el j (B_FFAND B a b) = el j a AND el j b"
    and el_or: "j < n \<Longrightarrow> el j (B_FFOR B a b) = el j a OR el j b"
    and el_xor: "j < n \<Longrightarrow> el j (B_FFXOR B a b) = el j a XOR el j b"
    and el_shl: "j < n \<Longrightarrow> el j (B_FFSH8L B a k) = push_bit k (el j a)"
    and el_shr: "j < n \<Longrightarrow> el j (B_FFSH8R B a k) = drop_bit k (el j a)"
    and el_masks: "j < n \<Longrightarrow> byte_mask (el j (B_FFN_ALL_29 B)) {0, 3, 5}" "j < n \<Longrightarrow> byte_mask (el j (B_FFN_ALL_02 B)) {1}"
      "j < n \<Longrightarrow> byte_mask (el j (B_FFN_ALL_04 B)) {2}" "j < n \<Longrightarrow> byte_mask (el j (B_FFN_ALL_10 B)) {4}"
      "j < n \<Longrightarrow> byte_mask (el j (B_FFN_ALL_40 B)) {6}" "j < n \<Longrightarrow> byte_mask (el j (B_FFN_ALL_80 B)) {7}"
begin

text \<open>Byte \<open>i\<close> of word \<open>j\<close>.\<close>

lemma byte_perm:
  assumes "j < n" "8 * i + 8 \<le> LENGTH('w)"
  shows "(chop (el j (batch_perm B x)) i :: u8) = block_perm_byte (chop (el j x) i)"
proof (rule bit_word_eqI)
  fix b assume "b < LENGTH(8)"
  then have b: "b < 8" by simp
  have p: "[6, 0, 4, 7, 3, 2, 5, 1] ! b < (8 :: nat)"
    using b by (elim less_8 [THEN iffD1, THEN disjE] disjE; simp)
  have e: "el j (batch_perm B x) = perm_word (el j (B_FFN_ALL_29 B)) (el j (B_FFN_ALL_02 B)) (el j (B_FFN_ALL_04 B))
      (el j (B_FFN_ALL_10 B)) (el j (B_FFN_ALL_40 B)) (el j (B_FFN_ALL_80 B)) (el j x)"
    using assms(1) by (simp add: batch_perm_def perm_word_def el_and el_or el_shl el_shr)
  have "bit (chop (el j (batch_perm B x)) i :: u8) b \<longleftrightarrow> bit (el j x) (8 * i + [6, 0, 4, 7, 3, 2, 5, 1] ! b)"
    using perm_word_bits [OF el_masks [OF assms(1)] assms(2) b] b by (simp add: e chop_def bit_ucast_iff bit_drop_bit_eq)
  also have "\<dots> \<longleftrightarrow> bit (chop (el j x) i :: u8) ([6, 0, 4, 7, 3, 2, 5, 1] ! b)"
    using p by (simp add: chop_def bit_ucast_iff bit_drop_bit_eq)
  finally show "bit (chop (el j (batch_perm B x)) i :: u8) b = bit (block_perm_byte (chop (el j x) i)) b"
    using b by (simp add: bit_block_perm_byte)
qed

end

lemma byte_maskI8: "\<forall>k < 8. bit c k \<longleftrightarrow> k \<in> S \<Longrightarrow> byte_mask (c :: u8) S"
  by (simp add: byte_mask_def)

lemma byte_masks8:
  "byte_mask (0x29 :: u8) {0, 3, 5}" "byte_mask (0x02 :: u8) {1}" "byte_mask (0x04 :: u8) {2}"
  "byte_mask (0x10 :: u8) {4}" "byte_mask (0x40 :: u8) {6}" "byte_mask (0x80 :: u8) {7}"
  by (rule byte_maskI8, simp add: all_less_8)+

lemma byte_masks64:
  "byte_mask (0x2929292929292929 :: u64) {0, 3, 5}"
  "byte_mask (0x0202020202020202 :: u64) {1}"
  "byte_mask (0x0404040404040404 :: u64) {2}"
  "byte_mask (0x1010101010101010 :: u64) {4}"
  "byte_mask (0x4040404040404040 :: u64) {6}"
  "byte_mask (0x8080808080808080 :: u64) {7}"
proof -
  have "list_all (\<lambda>k. bit m k \<longleftrightarrow> k mod 8 \<in> S) [0..<64] \<Longrightarrow> byte_mask m S" for m :: u64 and S
    unfolding byte_mask_def len64 by (simp add: list_all_iff)
  note I = this
  show "byte_mask (0x2929292929292929 :: u64) {0, 3, 5}" by (rule I) code_simp
  show "byte_mask (0x0202020202020202 :: u64) {1}" by (rule I) code_simp
  show "byte_mask (0x0404040404040404 :: u64) {2}" by (rule I) code_simp
  show "byte_mask (0x1010101010101010 :: u64) {4}" by (rule I) code_simp
  show "byte_mask (0x4040404040404040 :: u64) {6}" by (rule I) code_simp
  show "byte_mask (0x8080808080808080 :: u64) {7}" by (rule I) code_simp
qed

lemmas mode_masks = byte_masks [unfolded One_nat_def] byte_masks8 [unfolded One_nat_def] byte_masks64 [unfolded One_nat_def]

interpretation b32c: batch_words batch_032_4char "\<lambda>j a. fields4 a ! j" 4
  by unfold_locales (simp_all add: batch_032_4char_def fields mode_masks)

interpretation b64c: batch_words batch_064_8char "\<lambda>j a. fields8 a ! j" 8
  by unfold_locales (simp_all add: batch_064_8char_def fields mode_masks)

interpretation b64i: batch_words batch_064_2int "\<lambda>j a. fields2 a ! j" 2
  by unfold_locales (simp_all add: batch_064_2int_def fields mode_masks)

interpretation b128c: batch_words batch_128_16char "\<lambda>j a. fields16 a ! j" 16
  by unfold_locales (simp_all add: batch_128_16char_def fields mode_masks)

interpretation b128i: batch_words batch_128_4int "\<lambda>j a. fields4 a ! j" 4
  by unfold_locales (simp_all add: batch_128_4int_def fields mode_masks)

interpretation b128l: batch_words batch_128_2long "\<lambda>j a. fields2 a ! j" 2
  by unfold_locales (simp_all add: batch_128_2long_def fields mode_masks)

interpretation b32a: batch_words batch_032_4charA "\<lambda>j a. a ! j" 4
  by unfold_locales (simp_all add: batch_032_4charA_def batch_charA_def mode_masks)

interpretation b64a: batch_words batch_064_8charA "\<lambda>j a. a ! j" 8
  by unfold_locales (simp_all add: batch_064_8charA_def batch_charA_def mode_masks)

interpretation b128a: batch_words batch_128_16charA "\<lambda>j a. a ! j" 16
  by unfold_locales (simp_all add: batch_128_16charA_def batch_charA_def mode_masks)

interpretation b32w: batch_words batch_032_int "\<lambda>j a. a" 1
  by unfold_locales (simp_all add: batch_032_int_def mode_masks)

interpretation b64l: batch_words batch_064_long "\<lambda>j a. a" 1
  by unfold_locales (simp_all add: batch_064_long_def mode_masks)

subsection \<open>The permutation in every mode\<close>

text \<open>The batch is memory: \<open>n\<close> words of the bytes, least significant byte first, and back.\<close>

definition words_of :: "nat \<Rightarrow> bytes \<Rightarrow> 'w :: len word list" where
  "words_of n bs = map (\<lambda>j. join (LENGTH('w) div 8) (\<lambda>i. bs ! (LENGTH('w) div 8 * j + i)) :: 'w word) [0..<n]"

definition bytes_of :: "'w :: len word list \<Rightarrow> bytes" where
  "bytes_of (ws :: 'w word list) =
     map (\<lambda>k. chop (ws ! (k div (LENGTH('w) div 8))) (k mod (LENGTH('w) div 8))) [0..<LENGTH('w) div 8 * length ws]"

fun bytes_per_batch :: "parallel_mode \<Rightarrow> nat" where
  "bytes_per_batch PARALLEL_32_4CHAR = 4"
| "bytes_per_batch PARALLEL_32_4CHARA = 4"
| "bytes_per_batch PARALLEL_32_INT = 4"
| "bytes_per_batch PARALLEL_64_8CHAR = 8"
| "bytes_per_batch PARALLEL_64_8CHARA = 8"
| "bytes_per_batch PARALLEL_64_2INT = 8"
| "bytes_per_batch PARALLEL_64_LONG = 8"
| "bytes_per_batch PARALLEL_128_16CHAR = 16"
| "bytes_per_batch PARALLEL_128_16CHARA = 16"
| "bytes_per_batch PARALLEL_128_4INT = 16"
| "bytes_per_batch PARALLEL_128_2LONG = 16"

fun mode_perm :: "parallel_mode \<Rightarrow> bytes \<Rightarrow> bytes" where
  "mode_perm PARALLEL_32_4CHAR bs = bytes_of (fields4 (batch_perm batch_032_4char (of_fields4 (words_of 4 bs))))"
| "mode_perm PARALLEL_32_4CHARA bs = bytes_of (batch_perm batch_032_4charA (words_of 4 bs))"
| "mode_perm PARALLEL_32_INT bs = bytes_of [batch_perm batch_032_int (words_of 1 bs ! 0)]"
| "mode_perm PARALLEL_64_8CHAR bs = bytes_of (fields8 (batch_perm batch_064_8char (of_fields8 (words_of 8 bs))))"
| "mode_perm PARALLEL_64_8CHARA bs = bytes_of (batch_perm batch_064_8charA (words_of 8 bs))"
| "mode_perm PARALLEL_64_2INT bs = bytes_of (fields2 (batch_perm batch_064_2int (of_fields2 (words_of 2 bs))))"
| "mode_perm PARALLEL_64_LONG bs = bytes_of [batch_perm batch_064_long (words_of 1 bs ! 0)]"
| "mode_perm PARALLEL_128_16CHAR bs = bytes_of (fields16 (batch_perm batch_128_16char (of_fields16 (words_of 16 bs))))"
| "mode_perm PARALLEL_128_16CHARA bs = bytes_of (batch_perm batch_128_16charA (words_of 16 bs))"
| "mode_perm PARALLEL_128_4INT bs = bytes_of (fields4 (batch_perm batch_128_4int (of_fields4 (words_of 4 bs))))"
| "mode_perm PARALLEL_128_2LONG bs = bytes_of (fields2 (batch_perm batch_128_2long (of_fields2 (words_of 2 bs))))"

lemma chop_words_of:
  assumes "LENGTH('w) = 8 * c" "j < n" "i < c"
  shows "(chop (words_of n bs ! j :: 'w :: len word) i :: u8) = bs ! (c * j + i)"
proof (rule bit_word_eqI)
  fix b assume "b < LENGTH(8)"
  then have b: "b < 8" by simp
  have "8 * i + 8 \<le> LENGTH('w)" using assms by simp
  then have "8 * i + b < LENGTH('w)" "(8 * i + b) div 8 = i" "(8 * i + b) mod 8 = b" using b by auto
  then show "bit (chop (words_of n bs ! j :: 'w word) i :: u8) b = bit (bs ! (c * j + i)) b"
    using b assms by (simp add: words_of_def chop_def bit_ucast_iff bit_drop_bit_eq bit_join)
qed

text \<open>Words whose bytes are the permuted bytes of the argument.\<close>

lemma bytes_of_perm:
  assumes c: "LENGTH('w) = 8 * c" "0 < c" and l: "length ws = n" "length bs = c * n"
    and perm: "\<And>j i. j < n \<Longrightarrow> 8 * i + 8 \<le> LENGTH('w) \<Longrightarrow>
      (chop (ws ! j) i :: u8) = block_perm_byte (chop (words_of n bs ! j :: 'w :: len word) i)"
  shows "bytes_of (ws :: 'w word list) = map block_perm_byte bs"
proof (rule nth_equalityI)
  show "length (bytes_of ws) = length (map block_perm_byte bs)" by (simp add: bytes_of_def c l)
  fix k assume "k < length (bytes_of ws)"
  then have k: "k < c * n" by (simp add: bytes_of_def c l)
  then have j: "k div c < n" "k mod c < c" using c(2) by (simp_all add: less_mult_imp_div_less mult.commute)
  have "8 * (k mod c) + 8 \<le> LENGTH('w)" unfolding c(1) using j(2) by linarith
  then have "chop (ws ! (k div c)) (k mod c) = block_perm_byte (bs ! k)"
    using perm [OF j(1), of "k mod c"] chop_words_of [OF c(1) j, of bs] by simp
  then show "bytes_of ws ! k = map block_perm_byte bs ! k"
    using k by (simp add: bytes_of_def c l)
qed

lemma length_words_of [simp]: "length (words_of n bs) = n"
  by (simp add: words_of_def)

lemma length_charA: "length (batch_perm (batch_charA n) x) = n"
  by (simp add: batch_perm_def batch_charA_def)

text \<open>C39: in every portable mode the permutation of a batch permutes the bits of each of its bytes as the
  reference does, whatever the other bytes of the batch are.\<close>

theorem batch_perm_modes:
  assumes "length bs = bytes_per_batch M"
  shows "mode_perm M bs = map block_perm_byte bs"
proof (cases M)
  case PARALLEL_32_4CHAR
  then show ?thesis using b32c.byte_perm [of _ _ "of_fields4 (words_of 4 bs)"] assms
    by (simp, intro bytes_of_perm [where c = 1 and n = 4]) (simp_all add: fields)
next
  case PARALLEL_32_4CHARA
  then show ?thesis using b32a.byte_perm [of _ _ "words_of 4 bs"] assms
    by (simp, intro bytes_of_perm [where c = 1 and n = 4]) (simp_all add: batch_032_4charA_def length_charA)
next
  case PARALLEL_32_INT
  then show ?thesis using b32w.byte_perm [of _ _ "words_of 1 bs ! 0"] assms
    by (simp, intro bytes_of_perm [where c = 4 and n = 1]) simp_all
next
  case PARALLEL_64_8CHAR
  then show ?thesis using b64c.byte_perm [of _ _ "of_fields8 (words_of 8 bs)"] assms
    by (simp, intro bytes_of_perm [where c = 1 and n = 8]) (simp_all add: fields)
next
  case PARALLEL_64_8CHARA
  then show ?thesis using b64a.byte_perm [of _ _ "words_of 8 bs"] assms
    by (simp, intro bytes_of_perm [where c = 1 and n = 8]) (simp_all add: batch_064_8charA_def length_charA)
next
  case PARALLEL_64_2INT
  then show ?thesis using b64i.byte_perm [of _ _ "of_fields2 (words_of 2 bs)"] assms
    by (simp, intro bytes_of_perm [where c = 4 and n = 2]) (simp_all add: fields)
next
  case PARALLEL_64_LONG
  then show ?thesis using b64l.byte_perm [of _ _ "words_of 1 bs ! 0"] assms
    by (simp, intro bytes_of_perm [where c = 8 and n = 1]) simp_all
next
  case PARALLEL_128_16CHAR
  then show ?thesis using b128c.byte_perm [of _ _ "of_fields16 (words_of 16 bs)"] assms
    by (simp, intro bytes_of_perm [where c = 1 and n = 16]) (simp_all add: fields)
next
  case PARALLEL_128_16CHARA
  then show ?thesis using b128a.byte_perm [of _ _ "words_of 16 bs"] assms
    by (simp, intro bytes_of_perm [where c = 1 and n = 16]) (simp_all add: batch_128_16charA_def length_charA)
next
  case PARALLEL_128_4INT
  then show ?thesis using b128i.byte_perm [of _ _ "of_fields4 (words_of 4 bs)"] assms
    by (simp, intro bytes_of_perm [where c = 4 and n = 4]) (simp_all add: fields)
next
  case PARALLEL_128_2LONG
  then show ?thesis using b128l.byte_perm [of _ _ "of_fields2 (words_of 2 bs)"] assms
    by (simp, intro bytes_of_perm [where c = 8 and n = 2]) (simp_all add: fields)
qed

theorem batch_perm_modes_witness:
  "mode_perm PARALLEL_64_2INT [1, 2, 4, 8, 16, 32, 64, 128] = map block_perm_byte [1, 2, 4, 8, 16, 32, 64, 128]"
  using batch_perm_modes [of "[1, 2, 4, 8, 16, 32, 64, 128]" PARALLEL_64_2INT] by simp

end
