(* ===== verification/SimdModes.thy ===== *)
theory SimdModes
  imports SliceBatch
begin

text \<open>
  The MMX and SSE modes of FFdecsa (parallel_064_mmx.h, parallel_128_2mmx.h, parallel_128_sse.h,
  parallel_128_sse2.h). The vector types and the intrinsics on them belong to the compiler: they are the
  parameters \<open>V\<close> (\<open>__m64\<close>) and \<open>X\<close> (\<open>__m128\<close> and \<open>__m128i\<close>), and \<open>mmx_ok\<close> and \<open>sse_ok\<close> state what the
  instruction set documents of them: bitwise operations and shifts on the 64-bit quantities the vector
  holds. With that, each mode meets the contract of its row width, as the portable modes do.
\<close>

subsection \<open>The intrinsics\<close>

record 'v mmx =
  mm_and :: "'v \<Rightarrow> 'v \<Rightarrow> 'v"
  mm_or :: "'v \<Rightarrow> 'v \<Rightarrow> 'v"
  mm_xor :: "'v \<Rightarrow> 'v \<Rightarrow> 'v"
  mm_slli :: "'v \<Rightarrow> nat \<Rightarrow> 'v"
  mm_srli :: "'v \<Rightarrow> nat \<Rightarrow> 'v"
  mm_of :: "u64 \<Rightarrow> 'v"
  mm_to :: "'v \<Rightarrow> u64"

definition mmx_ok :: "'v mmx \<Rightarrow> bool" where
  "mmx_ok V \<longleftrightarrow> (\<forall>w. mm_to V (mm_of V w) = w) \<and>
     (\<forall>a b. mm_to V (mm_and V a b) = mm_to V a AND mm_to V b) \<and>
     (\<forall>a b. mm_to V (mm_or V a b) = mm_to V a OR mm_to V b) \<and>
     (\<forall>a b. mm_to V (mm_xor V a b) = mm_to V a XOR mm_to V b) \<and>
     (\<forall>a n. mm_to V (mm_slli V a n) = push_bit n (mm_to V a)) \<and>
     (\<forall>a n. mm_to V (mm_srli V a n) = drop_bit n (mm_to V a))"

text \<open>The low and the high 64 bits of a vector of 128; the shifts move each of the two.\<close>

record 'x sse =
  xm_and :: "'x \<Rightarrow> 'x \<Rightarrow> 'x"
  xm_or :: "'x \<Rightarrow> 'x \<Rightarrow> 'x"
  xm_xor :: "'x \<Rightarrow> 'x \<Rightarrow> 'x"
  xm_slli_epi64 :: "'x \<Rightarrow> nat \<Rightarrow> 'x"
  xm_srli_epi64 :: "'x \<Rightarrow> nat \<Rightarrow> 'x"
  xm_of :: "u64 \<Rightarrow> u64 \<Rightarrow> 'x"
  xm_to :: "'x \<Rightarrow> u64 \<times> u64"

definition both :: "(u64 \<Rightarrow> u64 \<Rightarrow> u64) \<Rightarrow> u64 \<times> u64 \<Rightarrow> u64 \<times> u64 \<Rightarrow> u64 \<times> u64" where
  "both f a b = (f (fst a) (fst b), f (snd a) (snd b))"

definition sse_ok :: "'x sse \<Rightarrow> bool" where
  "sse_ok X \<longleftrightarrow> (\<forall>lo hi. xm_to X (xm_of X lo hi) = (lo, hi)) \<and>
     (\<forall>a b. xm_to X (xm_and X a b) = both (AND) (xm_to X a) (xm_to X b)) \<and>
     (\<forall>a b. xm_to X (xm_or X a b) = both (OR) (xm_to X a) (xm_to X b)) \<and>
     (\<forall>a b. xm_to X (xm_xor X a b) = both (XOR) (xm_to X a) (xm_to X b)) \<and>
     (\<forall>a n. xm_to X (xm_slli_epi64 X a n) = map_prod (push_bit n) (push_bit n) (xm_to X a)) \<and>
     (\<forall>a n. xm_to X (xm_srli_epi64 X a n) = map_prod (drop_bit n) (drop_bit n) (xm_to X a))"

subsection \<open>Groups and tables\<close>

definition ops_064_mmx :: "'v mmx \<Rightarrow> 'v group_ops" where
  "ops_064_mmx V =
     (let ff0 = mm_of V 0x0000000000000000; ff1 = mm_of V 0xffffffffffffffff
      in \<lparr>FFXOR = mm_xor V, FFAND = mm_and V, FFOR = mm_or V, FFNOT = (\<lambda>a. mm_xor V a ff1), FF0 = ff0, FF1 = ff1\<rparr>)"

definition mode_064_mmx :: "'v mmx \<Rightarrow> ('v, u64 list) slice_mode" where
  "mode_064_mmx V = mode64 (ops_064_mmx V) (mm_of V) (mm_to V)"

definition ops_128_2mmx :: "'v mmx \<Rightarrow> 'v struct2 group_ops" where
  "ops_128_2mmx V =
     (let ff0 = fill2 (mm_of V 0x0); ff1 = fill2 (mm_of V 0xffffffffffffffff)
      in \<lparr>FFXOR = zip2 (mm_xor V), FFAND = zip2 (mm_and V), FFOR = zip2 (mm_or V),
          FFNOT = (\<lambda>a. \<lparr>s1 = mm_xor V (s1 a) (s1 ff1), s2 = mm_xor V (s2 a) (s2 ff1)\<rparr>), FF0 = ff0, FF1 = ff1\<rparr>)"

definition mode_128_2mmx :: "'v mmx \<Rightarrow> ('v struct2, u64 list) slice_mode" where
  "mode_128_2mmx V = mode128 (ops_128_2mmx V) (\<lambda>lo hi. \<lparr>s1 = mm_of V lo, s2 = mm_of V hi\<rparr>) (\<lambda>a. (mm_to V (s1 a), mm_to V (s2 a)))"

definition ops_128_sse :: "'x sse \<Rightarrow> 'x group_ops" where
  "ops_128_sse X =
     (let ff0 = xm_of X 0x0000000000000000 0x0000000000000000; ff1 = xm_of X 0xffffffffffffffff 0xffffffffffffffff
      in \<lparr>FFXOR = xm_xor X, FFAND = xm_and X, FFOR = xm_or X, FFNOT = (\<lambda>a. xm_xor X a ff1), FF0 = ff0, FF1 = ff1\<rparr>)"

definition mode_128_sse :: "'x sse \<Rightarrow> ('x, u64 list) slice_mode" where
  "mode_128_sse X = mode128 (ops_128_sse X) (xm_of X) (xm_to X)"

text \<open>The SSE2 header has the same definitions on integer vectors.\<close>

definition ops_128_sse2 :: "'x sse \<Rightarrow> 'x group_ops" where
  "ops_128_sse2 X =
     (let ff0 = xm_of X 0x0000000000000000 0x0000000000000000; ff1 = xm_of X 0xffffffffffffffff 0xffffffffffffffff
      in \<lparr>FFXOR = xm_xor X, FFAND = xm_and X, FFOR = xm_or X, FFNOT = (\<lambda>a. xm_xor X a ff1), FF0 = ff0, FF1 = ff1\<rparr>)"

definition mode_128_sse2 :: "'x sse \<Rightarrow> ('x, u64 list) slice_mode" where
  "mode_128_sse2 X = mode128 (ops_128_sse2 X) (xm_of X) (xm_to X)"

subsection \<open>Batches\<close>

definition batch_064_mmx :: "'v mmx \<Rightarrow> 'v batch_ops" where
  "batch_064_mmx V = \<lparr>B_FFAND = mm_and V, B_FFOR = mm_or V, B_FFXOR = mm_xor V, B_FFSH8L = mm_slli V, B_FFSH8R = mm_srli V,
     B_FFN_ALL_29 = mm_of V 0x2929292929292929, B_FFN_ALL_02 = mm_of V 0x0202020202020202,
     B_FFN_ALL_04 = mm_of V 0x0404040404040404, B_FFN_ALL_10 = mm_of V 0x1010101010101010,
     B_FFN_ALL_40 = mm_of V 0x4040404040404040, B_FFN_ALL_80 = mm_of V 0x8080808080808080\<rparr>"

definition batch_128_2mmx :: "'v mmx \<Rightarrow> 'v struct2 batch_ops" where
  "batch_128_2mmx V = \<lparr>B_FFAND = zip2 (mm_and V), B_FFOR = zip2 (mm_or V), B_FFXOR = zip2 (mm_xor V),
     B_FFSH8L = (\<lambda>a n. each2 (\<lambda>x. mm_slli V x n) a), B_FFSH8R = (\<lambda>a n. each2 (\<lambda>x. mm_srli V x n) a),
     B_FFN_ALL_29 = fill2 (mm_of V 0x2929292929292929), B_FFN_ALL_02 = fill2 (mm_of V 0x0202020202020202),
     B_FFN_ALL_04 = fill2 (mm_of V 0x0404040404040404), B_FFN_ALL_10 = fill2 (mm_of V 0x1010101010101010),
     B_FFN_ALL_40 = fill2 (mm_of V 0x4040404040404040), B_FFN_ALL_80 = fill2 (mm_of V 0x8080808080808080)\<rparr>"

text \<open>The SSE mode has batches of 64 bits.\<close>

definition batch_128_sse :: "'v mmx \<Rightarrow> 'v batch_ops" where
  "batch_128_sse V = \<lparr>B_FFAND = mm_and V, B_FFOR = mm_or V, B_FFXOR = mm_xor V, B_FFSH8L = mm_slli V, B_FFSH8R = mm_srli V,
     B_FFN_ALL_29 = mm_of V 0x2929292929292929, B_FFN_ALL_02 = mm_of V 0x0202020202020202,
     B_FFN_ALL_04 = mm_of V 0x0404040404040404, B_FFN_ALL_10 = mm_of V 0x1010101010101010,
     B_FFN_ALL_40 = mm_of V 0x4040404040404040, B_FFN_ALL_80 = mm_of V 0x8080808080808080\<rparr>"

definition batch_128_sse2 :: "'x sse \<Rightarrow> 'x batch_ops" where
  "batch_128_sse2 X = \<lparr>B_FFAND = xm_and X, B_FFOR = xm_or X, B_FFXOR = xm_xor X,
     B_FFSH8L = xm_slli_epi64 X, B_FFSH8R = xm_srli_epi64 X,
     B_FFN_ALL_29 = xm_of X 0x2929292929292929 0x2929292929292929, B_FFN_ALL_02 = xm_of X 0x0202020202020202 0x0202020202020202,
     B_FFN_ALL_04 = xm_of X 0x0404040404040404 0x0404040404040404, B_FFN_ALL_10 = xm_of X 0x1010101010101010 0x1010101010101010,
     B_FFN_ALL_40 = xm_of X 0x4040404040404040 0x4040404040404040, B_FFN_ALL_80 = xm_of X 0x8080808080808080 0x8080808080808080\<rparr>"

subsection \<open>The contracts\<close>

text \<open>The contracts' conclusion under their predicates, for modes that meet them under hypotheses.\<close>

context words64
begin

lemma width64_key_stream:
  "length ck = 8 \<Longrightarrow> length pkts \<le> 64 \<Longrightarrow> \<forall>d \<in> set pkts. 8 \<le> length d \<Longrightarrow> p < length pkts \<Longrightarrow>
     key_stream (mode64 g load store) (replicate 64 0) k ck pkts p = csa_outputs k (csa_init ck (take 8 (pkts ! p)))"
  by (rule row.key_stream_ref) simp_all

end

context words128
begin

lemma width128_key_stream:
  "length ck = 8 \<Longrightarrow> length pkts \<le> 128 \<Longrightarrow> \<forall>d \<in> set pkts. 8 \<le> length d \<Longrightarrow> p < length pkts \<Longrightarrow>
     key_stream (mode128 g load store) (replicate 128 0) k ck pkts p = csa_outputs k (csa_init ck (take 8 (pkts ! p)))"
  by (rule row.key_stream_ref) simp_all

end

text \<open>The 64-bit quantity \<open>j\<close> of a vector of 128.\<close>

definition half :: "'x sse \<Rightarrow> nat \<Rightarrow> 'x \<Rightarrow> u64" where
  "half X j a = (if j = 0 then fst else snd) (xm_to X a)"

lemma xor_minus_one: "w XOR - 1 = NOT w" for w :: u64
  by (rule bit_word_eqI) (simp add: bit_simps)

lemma mmx_words: "mmx_ok V \<Longrightarrow> words64 (ops_064_mmx V) (\<lambda>j. mm_to V) 1 (mm_of V) (mm_to V)"
  by unfold_locales (simp_all add: mmx_ok_def ops_064_mmx_def Let_def chop_self xor_minus_one)

lemma mmx2_words: "mmx_ok V \<Longrightarrow> words128 (ops_128_2mmx V) (\<lambda>j a. mm_to V (fields2 a ! j)) 1
    (\<lambda>lo hi. \<lparr>s1 = mm_of V lo, s2 = mm_of V hi\<rparr>) (\<lambda>a. (mm_to V (s1 a), mm_to V (s2 a)))"
  by unfold_locales
    (auto simp: mmx_ok_def ops_128_2mmx_def Let_def fields2_def zip2_def fill2_def chop_self xor_minus_one less_Suc_eq numeral_eq_Suc)

lemma sse_words: "sse_ok X \<Longrightarrow> words128 (ops_128_sse X) (half X) 1 (xm_of X) (xm_to X)"
  by unfold_locales (auto simp: sse_ok_def ops_128_sse_def Let_def half_def both_def chop_self xor_minus_one)

lemma ops_sse2: "ops_128_sse2 = ops_128_sse"
  by (simp add: fun_eq_iff ops_128_sse2_def ops_128_sse_def)

lemma mmx_batch: "mmx_ok V \<Longrightarrow> batch_words (batch_064_mmx V) (\<lambda>j. mm_to V) 1"
  by unfold_locales (simp_all add: mmx_ok_def batch_064_mmx_def mode_masks)

lemma mmx2_batch: "mmx_ok V \<Longrightarrow> batch_words (batch_128_2mmx V) (\<lambda>j a. mm_to V (fields2 a ! j)) 2"
  by unfold_locales
    (auto simp: mmx_ok_def batch_128_2mmx_def fields2_def zip2_def each2_def fill2_def mode_masks less_2_cases_iff)

lemma sse2_batch: "sse_ok X \<Longrightarrow> batch_words (batch_128_sse2 X) (half X) 2"
  by unfold_locales (auto simp: sse_ok_def batch_128_sse2_def half_def both_def mode_masks)

lemma batch_sse: "batch_128_sse = batch_064_mmx"
  by (simp add: fun_eq_iff batch_128_sse_def batch_064_mmx_def)

subsection \<open>The four modes\<close>

datatype simd_mode = PARALLEL_64_MMX | PARALLEL_128_2MMX | PARALLEL_128_SSE | PARALLEL_128_SSE2

fun simd_parallelism :: "simd_mode \<Rightarrow> nat" where
  "simd_parallelism PARALLEL_64_MMX = 64"
| "simd_parallelism PARALLEL_128_2MMX = 128"
| "simd_parallelism PARALLEL_128_SSE = 128"
| "simd_parallelism PARALLEL_128_SSE2 = 128"

fun simd_key_stream :: "'v mmx \<Rightarrow> 'x sse \<Rightarrow> simd_mode \<Rightarrow> nat \<Rightarrow> bytes \<Rightarrow> bytes list \<Rightarrow> nat \<Rightarrow> bytes list" where
  "simd_key_stream V X PARALLEL_64_MMX = key_stream (mode_064_mmx V) (replicate 64 0)"
| "simd_key_stream V X PARALLEL_128_2MMX = key_stream (mode_128_2mmx V) (replicate 128 0)"
| "simd_key_stream V X PARALLEL_128_SSE = key_stream (mode_128_sse X) (replicate 128 0)"
| "simd_key_stream V X PARALLEL_128_SSE2 = key_stream (mode_128_sse2 X) (replicate 128 0)"

fun simd_bytes_per_batch :: "simd_mode \<Rightarrow> nat" where
  "simd_bytes_per_batch PARALLEL_64_MMX = 8"
| "simd_bytes_per_batch PARALLEL_128_2MMX = 16"
| "simd_bytes_per_batch PARALLEL_128_SSE = 8"
| "simd_bytes_per_batch PARALLEL_128_SSE2 = 16"

text \<open>The permutation of the block cypher on a batch in memory.\<close>

fun simd_perm :: "'v mmx \<Rightarrow> 'x sse \<Rightarrow> simd_mode \<Rightarrow> bytes \<Rightarrow> bytes" where
  "simd_perm V X PARALLEL_64_MMX bs = bytes_of [mm_to V (batch_perm (batch_064_mmx V) (mm_of V (words_of 1 bs ! 0)))]"
| "simd_perm V X PARALLEL_128_2MMX bs =
     (let a = batch_perm (batch_128_2mmx V) \<lparr>s1 = mm_of V (words_of 2 bs ! 0), s2 = mm_of V (words_of 2 bs ! 1)\<rparr>
      in bytes_of [mm_to V (s1 a), mm_to V (s2 a)])"
| "simd_perm V X PARALLEL_128_SSE bs = bytes_of [mm_to V (batch_perm (batch_128_sse V) (mm_of V (words_of 1 bs ! 0)))]"
| "simd_perm V X PARALLEL_128_SSE2 bs =
     (let a = batch_perm (batch_128_sse2 X) (xm_of X (words_of 2 bs ! 0) (words_of 2 bs ! 1))
      in bytes_of [fst (xm_to X a), snd (xm_to X a)])"

lemma mmx_to_of: "mmx_ok V \<Longrightarrow> mm_to V (mm_of V w) = w"
  by (simp add: mmx_ok_def)

lemma sse_to_of: "sse_ok X \<Longrightarrow> xm_to X (xm_of X lo hi) = (lo, hi)"
  by (simp add: sse_ok_def)

lemma simd_perm_ref:
  assumes ok: "mmx_ok V" "sse_ok X" and len: "length bs = simd_bytes_per_batch M"
  shows "simd_perm V X M bs = map block_perm_byte bs"
proof -
  note mmx1 = batch_words.byte_perm [OF mmx_batch [OF ok(1)], where j = 0]
  note mmx2 = batch_words.byte_perm [OF mmx2_batch [OF ok(1)]]
  note sse2 = batch_words.byte_perm [OF sse2_batch [OF ok(2)]]
  have one: "simd_perm V X PARALLEL_64_MMX bs = map block_perm_byte bs" if "length bs = 8"
    using that mmx1 [of _ "mm_of V (words_of 1 bs ! 0)"]
    by (simp, intro bytes_of_perm [where c = 8 and n = 1]) (simp_all add: mmx_to_of [OF ok(1)])
  show ?thesis
  proof (cases M)
    case PARALLEL_64_MMX
    then show ?thesis using one len by simp
  next
    case PARALLEL_128_SSE
    then show ?thesis using one len by (simp add: batch_sse)
  next
    case PARALLEL_128_2MMX
    define x where "x = \<lparr>s1 = mm_of V (words_of 2 bs ! 0), s2 = mm_of V (words_of 2 bs ! 1)\<rparr>"
    have w: "[mm_to V (s1 a), mm_to V (s2 a)] ! j = mm_to V (fields2 a ! j)" if "j < 2" for a j
      using that by (auto simp: fields2_def less_Suc_eq numeral_eq_Suc)
    have v: "mm_to V (fields2 x ! j) = words_of 2 bs ! j" if "j < 2" for j
      using that by (auto simp: x_def fields2_def less_Suc_eq numeral_eq_Suc mmx_to_of [OF ok(1)])
    show ?thesis
      unfolding PARALLEL_128_2MMX simd_perm.simps x_def [symmetric] Let_def
      by (rule bytes_of_perm [where c = 8 and n = 2]) (use len mmx2 [of _ _ x] in \<open>simp_all add: PARALLEL_128_2MMX w v\<close>)
  next
    case PARALLEL_128_SSE2
    define x where "x = xm_of X (words_of 2 bs ! 0) (words_of 2 bs ! 1)"
    have w: "[fst (xm_to X a), snd (xm_to X a)] ! j = half X j a" if "j < 2" for a j
      using that by (auto simp: half_def less_Suc_eq numeral_eq_Suc)
    have v: "half X j x = words_of 2 bs ! j" if "j < 2" for j
      using that by (auto simp: x_def half_def less_Suc_eq numeral_eq_Suc sse_to_of [OF ok(2)])
    show ?thesis
      unfolding PARALLEL_128_SSE2 simd_perm.simps x_def [symmetric] Let_def
      by (rule bytes_of_perm [where c = 8 and n = 2]) (use len sse2 [of _ _ x] in \<open>simp_all add: PARALLEL_128_SSE2 w v\<close>)
  qed
qed

text \<open>C37: with intrinsics as documented, the four SIMD modes compute the same as the portable ones: every packet of a group gets
  the key stream of the reference cypher, and the permutation of a batch permutes the bits of each byte as the
  reference of the block cypher does.\<close>

theorem simd_modes_agree:
  assumes "mmx_ok V" "sse_ok X" "length ck = 8" "length pkts \<le> simd_parallelism M" "\<forall>d \<in> set pkts. 8 \<le> length d"
    "p < length pkts" "length bs = simd_bytes_per_batch M"
  shows "simd_key_stream V X M n ck pkts p = csa_outputs n (csa_init ck (take 8 (pkts ! p))) \<and>
    simd_perm V X M bs = map block_perm_byte bs"
proof
  show "simd_perm V X M bs = map block_perm_byte bs" by (rule simd_perm_ref [OF assms(1,2,7)])
  show "simd_key_stream V X M n ck pkts p = csa_outputs n (csa_init ck (take 8 (pkts ! p)))"
    using words64.width64_key_stream [OF mmx_words [OF assms(1)] assms(3) _ assms(5,6)]
      words128.width128_key_stream [OF mmx2_words [OF assms(1)] assms(3) _ assms(5,6)]
      words128.width128_key_stream [OF sse_words [OF assms(2)] assms(3) _ assms(5,6)] assms(4)
    by (cases M) (simp_all add: mode_064_mmx_def mode_128_2mmx_def mode_128_sse_def mode_128_sse2_def ops_sse2)
qed

definition mmx_u64 :: "u64 mmx" where
  "mmx_u64 = \<lparr>mm_and = (AND), mm_or = (OR), mm_xor = (XOR), mm_slli = (\<lambda>a n. push_bit n a), mm_srli = (\<lambda>a n. drop_bit n a),
     mm_of = (\<lambda>w. w), mm_to = (\<lambda>w. w)\<rparr>"

definition sse_u64 :: "(u64 \<times> u64) sse" where
  "sse_u64 = \<lparr>xm_and = both (AND), xm_or = both (OR), xm_xor = both (XOR),
     xm_slli_epi64 = (\<lambda>a n. map_prod (push_bit n) (push_bit n) a),
     xm_srli_epi64 = (\<lambda>a n. map_prod (drop_bit n) (drop_bit n) a), xm_of = Pair, xm_to = (\<lambda>w. w)\<rparr>"

lemma simd_instances: "mmx_ok mmx_u64" "sse_ok sse_u64"
  by (simp_all add: mmx_ok_def mmx_u64_def sse_ok_def sse_u64_def)

theorem simd_modes_agree_witness:
  "simd_key_stream mmx_u64 sse_u64 PARALLEL_128_SSE2 2 [1, 2, 3, 6, 5, 6, 7, 18] [[9, 8, 7, 6, 5, 4, 3, 2]] 0 =
     csa_outputs 2 (csa_init [1, 2, 3, 6, 5, 6, 7, 18] [9, 8, 7, 6, 5, 4, 3, 2]) \<and>
   simd_perm mmx_u64 sse_u64 PARALLEL_128_SSE2 (replicate 16 0x29) = replicate 16 (block_perm_byte 0x29)"
  using simd_modes_agree [OF simd_instances, of "[1, 2, 3, 6, 5, 6, 7, 18]" "[[9, 8, 7, 6, 5, 4, 3, 2]]" PARALLEL_128_SSE2 0
      "replicate 16 0x29" 2] by simp

end
