(* ===== verification/SelfTestEval.thy ===== *)
theory SelfTestEval
  imports Csa
begin

text \<open>
  A second form of the reference cypher that the simplifier evaluates fast: bytes and nibbles as
  constructors over booleans, the s-boxes and the key permutation as tables of equations. Every function
  is proved to compute the reference of theory \<open>Csa\<close>, so its values on concrete packets are values of
  the reference. Theory \<open>SelfTest\<close> uses it on the recorded packets of the test program.
\<close>

named_theorems evals

subsection \<open>Bytes of eight booleans\<close>

datatype byte8 = B8 bool bool bool bool bool bool bool bool

primrec w8 :: "byte8 \<Rightarrow> u8" where
  "w8 (B8 a b c d e f g h) = horner_sum of_bool 2 [a, b, c, d, e, f, g, h]"

definition b8 :: "u8 \<Rightarrow> byte8" where
  "b8 w = B8 (bit w 0) (bit w 1) (bit w 2) (bit w 3) (bit w 4) (bit w 5) (bit w 6) (bit w 7)"

lemma bit_w8:
  "bit (w8 (B8 a b c d e f g h)) n \<longleftrightarrow> n < 8 \<and> [a, b, c, d, e, f, g, h] ! n"
  unfolding w8.simps bit_horner_sum_bit_word_iff by (simp add: numeral_eq_Suc)

lemma bits_w8:
  "bit (w8 (B8 a b c d e f g h)) 0 = a" "bit (w8 (B8 a b c d e f g h)) (Suc 0) = b"
  "bit (w8 (B8 a b c d e f g h)) 2 = c" "bit (w8 (B8 a b c d e f g h)) 3 = d"
  "bit (w8 (B8 a b c d e f g h)) 4 = e" "bit (w8 (B8 a b c d e f g h)) 5 = f"
  "bit (w8 (B8 a b c d e f g h)) 6 = g" "bit (w8 (B8 a b c d e f g h)) 7 = h"
  unfolding bit_w8 by simp_all

lemma w8_eqI:
  assumes "bit w 0 = a" "bit w 1 = b" "bit w 2 = c" "bit w 3 = d" "bit w 4 = e" "bit w 5 = f" "bit w 6 = g" "bit w 7 = h"
  shows "w8 (B8 a b c d e f g h) = w"
proof (rule bit_word_eqI)
  fix n assume "n < LENGTH(8)"
  then have "n < 8" by simp
  then show "bit (w8 (B8 a b c d e f g h)) n = bit w n"
    unfolding less_8 using assms by (elim disjE) (simp_all only: bits_w8 One_nat_def)
qed

lemma w8_b8 [simp]: "w8 (b8 w) = w"
  unfolding b8_def by (rule w8_eqI) (rule refl)+

lemma b8_w8 [simp]: "b8 (w8 x) = x"
  by (cases x) (simp add: b8_def bits_w8 del: w8.simps)

lemma map_w8_b8 [simp]: "map w8 (map b8 ws) = ws"
  by (simp add: comp_def)

fun bx :: "bool \<Rightarrow> bool \<Rightarrow> bool" where
  "bx False b = b"
| "bx True False = True"
| "bx True True = False"

lemma bx_iff: "bx a b \<longleftrightarrow> a \<noteq> b"
  by (cases a; cases b) simp_all

declare bx.simps [evals]

fun xb :: "byte8 \<Rightarrow> byte8 \<Rightarrow> byte8" where
  "xb (B8 a b c d e f g h) (B8 a' b' c' d' e' f' g' h') =
     B8 (bx a a') (bx b b') (bx c c') (bx d d') (bx e e') (bx f f') (bx g g') (bx h h')"

lemma w8_xb: "w8 (xb x y) = w8 x XOR w8 y"
  by (cases x; cases y; hypsubst; unfold xb.simps; rule w8_eqI; simp add: bit_xor_iff bits_w8 bx_iff del: w8.simps)

fun xl :: "byte8 list \<Rightarrow> byte8 list \<Rightarrow> byte8 list" where
  "xl (x # xs) (y # ys) = xb x y # xl xs ys"
| "xl _ _ = []"

lemma xl_xorb: "map w8 (xl xs ys) = xorb (map w8 xs) (map w8 ys)"
  by (induction xs ys rule: xl.induct) (simp_all add: xorb_def w8_xb)

declare xb.simps [evals] xl.simps [evals]

subsection \<open>The block cypher\<close>

abbreviation (input) "Lo \<equiv> False"
abbreviation (input) "Hi \<equiv> True"

definition bsb :: "byte8 \<Rightarrow> byte8" where
  "bsb x = b8 (block_sbox ! unat (w8 x))"

lemma bsb_tab [evals]:
  "bsb (B8 Lo Lo Lo Lo Lo Lo Lo Lo) = B8 Lo Hi Lo Hi Hi Hi Lo Lo"
  "bsb (B8 Hi Lo Lo Lo Lo Lo Lo Lo) = B8 Lo Hi Lo Hi Lo Hi Hi Hi"
  "bsb (B8 Lo Hi Lo Lo Lo Lo Lo Lo) = B8 Lo Lo Lo Hi Lo Hi Hi Lo"
  "bsb (B8 Hi Hi Lo Lo Lo Lo Lo Lo) = B8 Lo Hi Hi Hi Hi Hi Hi Hi"
  "bsb (B8 Lo Lo Hi Lo Lo Lo Lo Lo) = B8 Hi Hi Lo Lo Hi Hi Lo Lo"
  "bsb (B8 Hi Lo Hi Lo Lo Lo Lo Lo) = B8 Hi Lo Lo Hi Lo Hi Hi Hi"
  "bsb (B8 Lo Hi Hi Lo Lo Lo Lo Lo) = B8 Lo Lo Lo Hi Lo Lo Lo Hi"
  "bsb (B8 Hi Hi Hi Lo Lo Lo Lo Lo) = B8 Lo Hi Lo Hi Hi Lo Lo Lo"
  "bsb (B8 Lo Lo Lo Hi Lo Lo Lo Lo) = B8 Hi Hi Lo Lo Lo Lo Lo Hi"
  "bsb (B8 Hi Lo Lo Hi Lo Lo Lo Lo) = B8 Hi Hi Hi Hi Lo Lo Hi Hi"
  "bsb (B8 Lo Hi Lo Hi Lo Lo Lo Lo) = B8 Hi Lo Lo Lo Lo Hi Hi Hi"
  "bsb (B8 Hi Hi Lo Hi Lo Lo Lo Lo) = B8 Hi Hi Hi Hi Hi Hi Hi Lo"
  "bsb (B8 Lo Lo Hi Hi Lo Lo Lo Lo) = B8 Lo Hi Lo Hi Hi Hi Lo Hi"
  "bsb (B8 Hi Lo Hi Hi Lo Lo Lo Lo) = B8 Lo Hi Lo Lo Lo Hi Hi Hi"
  "bsb (B8 Lo Hi Hi Hi Lo Lo Lo Lo) = B8 Lo Lo Lo Hi Hi Hi Lo Lo"
  "bsb (B8 Hi Hi Hi Hi Lo Lo Lo Lo) = B8 Lo Hi Lo Lo Hi Lo Lo Lo"
  "bsb (B8 Lo Lo Lo Lo Hi Lo Lo Lo) = B8 Lo Lo Lo Hi Lo Hi Hi Hi"
  "bsb (B8 Hi Lo Lo Lo Hi Lo Lo Lo) = B8 Hi Hi Hi Lo Lo Hi Lo Lo"
  "bsb (B8 Lo Hi Lo Lo Hi Lo Lo Lo) = B8 Hi Lo Lo Lo Lo Hi Hi Lo"
  "bsb (B8 Hi Hi Lo Lo Hi Lo Lo Lo) = B8 Hi Lo Hi Lo Hi Lo Lo Hi"
  "bsb (B8 Lo Lo Hi Lo Hi Lo Lo Lo) = B8 Lo Lo Hi Hi Lo Lo Lo Lo"
  "bsb (B8 Hi Lo Hi Lo Hi Lo Lo Lo) = B8 Lo Hi Hi Lo Hi Hi Lo Lo"
  "bsb (B8 Lo Hi Hi Lo Hi Lo Lo Lo) = B8 Hi Lo Hi Lo Lo Hi Hi Hi"
  "bsb (B8 Hi Hi Hi Lo Hi Lo Lo Lo) = B8 Lo Lo Lo Lo Hi Hi Hi Lo"
  "bsb (B8 Lo Lo Lo Hi Hi Lo Lo Lo) = B8 Lo Hi Lo Lo Lo Hi Lo Hi"
  "bsb (B8 Hi Lo Lo Hi Hi Lo Lo Lo) = B8 Lo Hi Hi Lo Lo Lo Lo Lo"
  "bsb (B8 Lo Hi Lo Hi Hi Lo Lo Lo) = B8 Lo Hi Lo Lo Lo Lo Lo Hi"
  "bsb (B8 Hi Hi Lo Hi Hi Lo Lo Lo) = B8 Lo Lo Hi Hi Hi Hi Hi Lo"
  "bsb (B8 Lo Lo Hi Hi Hi Lo Lo Lo) = B8 Hi Hi Hi Lo Hi Lo Lo Lo"
  "bsb (B8 Hi Lo Hi Hi Hi Lo Lo Lo) = B8 Hi Hi Lo Lo Lo Hi Lo Hi"
  "bsb (B8 Lo Hi Hi Hi Hi Lo Lo Lo) = B8 Lo Hi Hi Lo Lo Hi Lo Lo"
  "bsb (B8 Hi Hi Hi Hi Hi Lo Lo Lo) = B8 Hi Lo Lo Hi Lo Lo Hi Lo"
  "bsb (B8 Lo Lo Lo Lo Lo Hi Lo Lo) = B8 Lo Hi Hi Hi Hi Hi Lo Hi"
  "bsb (B8 Hi Lo Lo Lo Lo Hi Lo Lo) = B8 Lo Hi Lo Hi Hi Hi Hi Lo"
  "bsb (B8 Lo Hi Lo Lo Lo Hi Lo Lo) = B8 Hi Lo Hi Hi Lo Hi Hi Lo"
  "bsb (B8 Hi Hi Lo Lo Lo Hi Lo Lo) = B8 Hi Hi Hi Lo Lo Lo Hi Lo"
  "bsb (B8 Lo Lo Hi Lo Lo Hi Lo Lo) = B8 Hi Lo Lo Lo Lo Lo Hi Hi"
  "bsb (B8 Hi Lo Hi Lo Lo Hi Lo Lo) = B8 Hi Lo Lo Lo Hi Lo Hi Lo"
  "bsb (B8 Lo Hi Hi Lo Lo Hi Lo Lo) = B8 Hi Hi Hi Hi Lo Lo Lo Hi"
  "bsb (B8 Hi Hi Hi Lo Lo Hi Lo Lo) = B8 Hi Hi Lo Lo Hi Hi Hi Hi"
  "bsb (B8 Lo Lo Lo Hi Lo Hi Lo Lo) = B8 Lo Lo Hi Hi Lo Lo Hi Hi"
  "bsb (B8 Hi Lo Lo Hi Lo Hi Lo Lo) = B8 Hi Hi Lo Hi Hi Lo Hi Lo"
  "bsb (B8 Lo Hi Lo Hi Lo Hi Lo Lo) = B8 Hi Hi Hi Lo Lo Hi Hi Lo"
  "bsb (B8 Hi Hi Lo Hi Lo Hi Lo Lo) = B8 Hi Lo Hi Hi Hi Hi Lo Hi"
  "bsb (B8 Lo Lo Hi Hi Lo Hi Lo Lo) = B8 Hi Lo Hi Hi Lo Lo Hi Hi"
  "bsb (B8 Hi Lo Hi Hi Lo Hi Lo Lo) = B8 Lo Lo Lo Hi Hi Lo Lo Lo"
  "bsb (B8 Lo Hi Hi Hi Lo Hi Lo Lo) = B8 Lo Lo Lo Hi Lo Lo Lo Lo"
  "bsb (B8 Hi Hi Hi Hi Lo Hi Lo Lo) = B8 Hi Lo Lo Hi Lo Lo Hi Hi"
  "bsb (B8 Lo Lo Lo Lo Hi Hi Lo Lo) = B8 Hi Hi Hi Hi Hi Hi Hi Hi"
  "bsb (B8 Hi Lo Lo Lo Hi Hi Lo Lo) = B8 Hi Lo Lo Hi Lo Hi Hi Lo"
  "bsb (B8 Lo Hi Lo Lo Hi Hi Lo Lo) = B8 Hi Hi Hi Hi Lo Hi Hi Hi"
  "bsb (B8 Hi Hi Lo Lo Hi Hi Lo Lo) = B8 Hi Hi Lo Lo Lo Lo Lo Lo"
  "bsb (B8 Lo Lo Hi Lo Hi Hi Lo Lo) = B8 Lo Hi Hi Hi Lo Lo Hi Lo"
  "bsb (B8 Hi Lo Hi Lo Hi Hi Lo Lo) = B8 Lo Lo Lo Hi Lo Lo Hi Lo"
  "bsb (B8 Lo Hi Hi Lo Hi Hi Lo Lo) = B8 Lo Hi Lo Hi Lo Lo Hi Lo"
  "bsb (B8 Hi Hi Hi Lo Hi Hi Lo Lo) = B8 Lo Lo Hi Lo Lo Lo Lo Hi"
  "bsb (B8 Lo Lo Lo Hi Hi Hi Lo Lo) = B8 Hi Hi Hi Hi Hi Hi Lo Lo"
  "bsb (B8 Hi Lo Lo Hi Hi Hi Lo Lo) = B8 Lo Lo Hi Lo Hi Hi Lo Hi"
  "bsb (B8 Lo Hi Lo Hi Hi Hi Lo Lo) = B8 Lo Lo Lo Lo Hi Lo Lo Lo"
  "bsb (B8 Hi Hi Lo Hi Hi Hi Lo Lo) = B8 Lo Lo Hi Lo Lo Lo Lo Lo"
  "bsb (B8 Lo Lo Hi Hi Hi Hi Lo Lo) = B8 Lo Lo Hi Hi Hi Lo Hi Hi"
  "bsb (B8 Hi Lo Hi Hi Hi Hi Lo Lo) = B8 Hi Lo Hi Lo Hi Hi Hi Hi"
  "bsb (B8 Lo Hi Hi Hi Hi Hi Lo Lo) = B8 Lo Lo Hi Hi Hi Lo Hi Lo"
  "bsb (B8 Hi Hi Hi Hi Hi Hi Lo Lo) = B8 Lo Hi Hi Lo Lo Lo Hi Hi"
  "bsb (B8 Lo Lo Lo Lo Lo Lo Hi Lo) = B8 Lo Hi Hi Lo Hi Lo Lo Lo"
  "bsb (B8 Hi Lo Lo Lo Lo Lo Hi Lo) = B8 Hi Hi Lo Hi Lo Hi Lo Hi"
  "bsb (B8 Lo Hi Lo Lo Lo Lo Hi Lo) = B8 Lo Lo Hi Hi Lo Hi Lo Hi"
  "bsb (B8 Hi Hi Lo Lo Lo Lo Hi Lo) = B8 Lo Lo Hi Hi Lo Lo Hi Lo"
  "bsb (B8 Lo Lo Hi Lo Lo Lo Hi Lo) = B8 Hi Lo Lo Lo Hi Hi Hi Hi"
  "bsb (B8 Hi Lo Hi Lo Lo Lo Hi Lo) = B8 Lo Hi Lo Hi Lo Hi Hi Lo"
  "bsb (B8 Lo Hi Hi Lo Lo Lo Hi Lo) = B8 Hi Hi Hi Hi Lo Hi Lo Lo"
  "bsb (B8 Hi Hi Hi Lo Lo Lo Hi Lo) = B8 Lo Lo Hi Hi Hi Hi Lo Lo"
  "bsb (B8 Lo Lo Lo Hi Lo Lo Hi Lo) = B8 Hi Hi Lo Hi Hi Hi Lo Lo"
  "bsb (B8 Hi Lo Lo Hi Lo Lo Hi Lo) = B8 Lo Lo Hi Lo Hi Lo Hi Hi"
  "bsb (B8 Lo Hi Lo Hi Lo Lo Hi Lo) = B8 Hi Lo Hi Lo Hi Lo Hi Hi"
  "bsb (B8 Hi Hi Lo Hi Lo Lo Hi Lo) = B8 Lo Lo Hi Lo Hi Lo Lo Hi"
  "bsb (B8 Lo Lo Hi Hi Lo Lo Hi Lo) = B8 Lo Lo Lo Lo Hi Lo Hi Hi"
  "bsb (B8 Hi Lo Hi Hi Lo Lo Hi Lo) = B8 Lo Lo Hi Lo Lo Lo Hi Hi"
  "bsb (B8 Lo Hi Hi Hi Lo Lo Hi Lo) = B8 Hi Hi Lo Lo Lo Hi Hi Lo"
  "bsb (B8 Hi Hi Hi Hi Lo Lo Hi Lo) = B8 Lo Hi Lo Lo Lo Hi Hi Lo"
  "bsb (B8 Lo Lo Lo Lo Hi Lo Hi Lo) = B8 Hi Lo Lo Lo Hi Hi Hi Lo"
  "bsb (B8 Hi Lo Lo Lo Hi Lo Hi Lo) = B8 Hi Lo Lo Lo Lo Hi Lo Hi"
  "bsb (B8 Lo Hi Lo Lo Hi Lo Hi Lo) = B8 Hi Lo Lo Hi Hi Hi Hi Hi"
  "bsb (B8 Hi Hi Lo Lo Hi Lo Hi Lo) = B8 Hi Hi Hi Hi Lo Lo Hi Lo"
  "bsb (B8 Lo Lo Hi Lo Hi Lo Hi Lo) = B8 Lo Hi Hi Hi Lo Hi Lo Lo"
  "bsb (B8 Hi Lo Hi Lo Hi Lo Hi Lo) = B8 Lo Hi Lo Hi Lo Hi Lo Hi"
  "bsb (B8 Lo Hi Hi Lo Hi Lo Hi Lo) = B8 Hi Lo Hi Lo Lo Lo Hi Hi"
  "bsb (B8 Hi Hi Hi Lo Hi Lo Hi Lo) = B8 Lo Hi Hi Lo Hi Lo Hi Lo"
  "bsb (B8 Lo Lo Lo Hi Hi Lo Hi Lo) = B8 Hi Hi Lo Lo Lo Hi Hi Hi"
  "bsb (B8 Hi Lo Lo Hi Hi Lo Hi Lo) = B8 Hi Lo Lo Hi Hi Hi Lo Lo"
  "bsb (B8 Lo Hi Lo Hi Hi Lo Hi Lo) = B8 Hi Hi Lo Lo Hi Lo Lo Hi"
  "bsb (B8 Hi Hi Lo Hi Hi Lo Hi Lo) = B8 Lo Hi Hi Hi Lo Lo Hi Hi"
  "bsb (B8 Lo Lo Hi Hi Hi Lo Hi Lo) = B8 Hi Lo Hi Lo Lo Hi Hi Lo"
  "bsb (B8 Hi Lo Hi Hi Hi Lo Hi Lo) = B8 Lo Lo Hi Lo Lo Hi Hi Lo"
  "bsb (B8 Lo Hi Hi Hi Hi Lo Hi Lo) = B8 Lo Lo Hi Lo Lo Hi Hi Hi"
  "bsb (B8 Hi Hi Hi Hi Hi Lo Hi Lo) = B8 Lo Lo Lo Hi Hi Lo Hi Lo"
  "bsb (B8 Lo Lo Lo Lo Lo Hi Hi Lo) = B8 Lo Lo Hi Hi Lo Hi Hi Lo"
  "bsb (B8 Hi Lo Lo Lo Lo Hi Hi Lo) = B8 Hi Lo Lo Hi Hi Lo Lo Lo"
  "bsb (B8 Lo Hi Lo Lo Lo Hi Hi Lo) = B8 Lo Hi Lo Lo Lo Lo Hi Lo"
  "bsb (B8 Hi Hi Lo Lo Lo Hi Hi Lo) = B8 Hi Lo Lo Hi Hi Hi Hi Lo"
  "bsb (B8 Lo Lo Hi Lo Lo Hi Hi Lo) = B8 Hi Lo Hi Hi Hi Lo Hi Hi"
  "bsb (B8 Hi Lo Hi Lo Lo Hi Hi Lo) = B8 Lo Hi Hi Hi Lo Hi Hi Hi"
  "bsb (B8 Lo Hi Hi Lo Lo Hi Hi Lo) = B8 Lo Hi Hi Lo Hi Lo Lo Hi"
  "bsb (B8 Hi Hi Hi Lo Lo Hi Hi Lo) = B8 Lo Hi Hi Lo Hi Hi Hi Hi"
  "bsb (B8 Lo Lo Lo Hi Lo Hi Hi Lo) = B8 Lo Hi Lo Hi Lo Lo Lo Hi"
  "bsb (B8 Hi Lo Lo Hi Lo Hi Hi Lo) = B8 Lo Lo Hi Hi Lo Hi Hi Hi"
  "bsb (B8 Lo Hi Lo Hi Lo Hi Hi Lo) = B8 Lo Hi Hi Hi Hi Lo Lo Lo"
  "bsb (B8 Hi Hi Lo Hi Lo Hi Hi Lo) = B8 Hi Lo Hi Lo Lo Lo Lo Hi"
  "bsb (B8 Lo Lo Hi Hi Lo Hi Hi Lo) = B8 Hi Hi Lo Lo Hi Lo Hi Lo"
  "bsb (B8 Hi Lo Hi Hi Lo Hi Hi Lo) = B8 Hi Lo Hi Lo Lo Lo Hi Lo"
  "bsb (B8 Lo Hi Hi Hi Lo Hi Hi Lo) = B8 Lo Hi Hi Hi Hi Lo Hi Hi"
  "bsb (B8 Hi Hi Hi Hi Lo Hi Hi Lo) = B8 Hi Hi Lo Hi Hi Hi Lo Hi"
  "bsb (B8 Lo Lo Lo Lo Hi Hi Hi Lo) = B8 Lo Hi Hi Hi Hi Hi Hi Lo"
  "bsb (B8 Hi Lo Lo Lo Hi Hi Hi Lo) = B8 Lo Hi Lo Hi Lo Lo Lo Lo"
  "bsb (B8 Lo Hi Lo Lo Hi Hi Hi Lo) = B8 Lo Hi Lo Hi Hi Lo Lo Hi"
  "bsb (B8 Hi Hi Lo Lo Hi Hi Hi Lo) = B8 Hi Hi Lo Lo Hi Lo Lo Lo"
  "bsb (B8 Lo Lo Hi Lo Hi Hi Hi Lo) = B8 Lo Hi Lo Hi Lo Hi Lo Lo"
  "bsb (B8 Hi Lo Hi Lo Hi Hi Hi Lo) = B8 Hi Lo Hi Hi Hi Lo Lo Hi"
  "bsb (B8 Lo Hi Hi Lo Hi Hi Hi Lo) = B8 Lo Hi Lo Lo Lo Lo Hi Hi"
  "bsb (B8 Hi Hi Hi Lo Hi Hi Hi Lo) = B8 Lo Hi Hi Hi Hi Lo Hi Lo"
  "bsb (B8 Lo Lo Lo Hi Hi Hi Hi Lo) = B8 Lo Hi Lo Hi Hi Lo Hi Lo"
  "bsb (B8 Hi Lo Lo Hi Hi Hi Hi Lo) = B8 Hi Hi Hi Hi Hi Lo Lo Lo"
  "bsb (B8 Lo Hi Lo Hi Hi Hi Hi Lo) = B8 Lo Hi Lo Lo Hi Hi Lo Lo"
  "bsb (B8 Hi Hi Lo Hi Hi Hi Hi Lo) = B8 Hi Lo Hi Lo Hi Hi Lo Lo"
  "bsb (B8 Lo Lo Hi Hi Hi Hi Hi Lo) = B8 Lo Lo Hi Hi Hi Lo Lo Hi"
  "bsb (B8 Hi Lo Hi Hi Hi Hi Hi Lo) = B8 Lo Lo Lo Hi Lo Hi Lo Hi"
  "bsb (B8 Lo Hi Hi Hi Hi Hi Hi Lo) = B8 Hi Hi Lo Lo Hi Hi Hi Lo"
  "bsb (B8 Hi Hi Hi Hi Hi Hi Hi Lo) = B8 Lo Lo Lo Lo Hi Hi Lo Lo"
  "bsb (B8 Lo Lo Lo Lo Lo Lo Lo Hi) = B8 Hi Lo Lo Hi Lo Hi Lo Lo"
  "bsb (B8 Hi Lo Lo Lo Lo Lo Lo Hi) = B8 Hi Lo Hi Hi Hi Hi Lo Lo"
  "bsb (B8 Lo Hi Lo Lo Lo Lo Lo Hi) = B8 Hi Hi Hi Lo Lo Hi Hi Hi"
  "bsb (B8 Hi Hi Lo Lo Lo Lo Lo Hi) = B8 Lo Hi Lo Lo Hi Lo Lo Hi"
  "bsb (B8 Lo Lo Hi Lo Lo Lo Lo Hi) = B8 Hi Hi Hi Lo Lo Lo Lo Hi"
  "bsb (B8 Hi Lo Hi Lo Lo Lo Lo Hi) = B8 Hi Hi Lo Hi Hi Lo Lo Lo"
  "bsb (B8 Lo Hi Hi Lo Lo Lo Lo Hi) = B8 Hi Hi Lo Hi Lo Hi Lo Lo"
  "bsb (B8 Hi Hi Hi Lo Lo Lo Lo Hi) = B8 Hi Hi Lo Hi Lo Lo Hi Lo"
  "bsb (B8 Lo Lo Lo Hi Lo Lo Lo Hi) = B8 Hi Lo Hi Lo Lo Hi Lo Hi"
  "bsb (B8 Hi Lo Lo Hi Lo Lo Lo Hi) = B8 Hi Hi Hi Lo Hi Lo Hi Lo"
  "bsb (B8 Lo Hi Lo Hi Lo Lo Lo Hi) = B8 Hi Hi Hi Lo Hi Lo Lo Hi"
  "bsb (B8 Hi Hi Lo Hi Lo Lo Lo Hi) = B8 Lo Lo Lo Lo Lo Lo Hi Lo"
  "bsb (B8 Lo Lo Hi Hi Lo Lo Lo Hi) = B8 Hi Lo Hi Lo Hi Lo Lo Lo"
  "bsb (B8 Hi Lo Hi Hi Lo Lo Lo Hi) = B8 Lo Hi Hi Lo Lo Hi Hi Hi"
  "bsb (B8 Lo Hi Hi Hi Lo Lo Lo Hi) = B8 Lo Lo Hi Hi Hi Hi Lo Hi"
  "bsb (B8 Hi Hi Hi Hi Lo Lo Lo Hi) = B8 Lo Hi Hi Hi Lo Lo Lo Lo"
  "bsb (B8 Lo Lo Lo Lo Hi Lo Lo Hi) = B8 Hi Hi Lo Hi Lo Hi Hi Hi"
  "bsb (B8 Hi Lo Lo Lo Hi Lo Lo Hi) = B8 Hi Hi Lo Lo Lo Lo Hi Hi"
  "bsb (B8 Lo Hi Lo Lo Hi Lo Lo Hi) = B8 Lo Lo Hi Lo Hi Hi Lo Lo"
  "bsb (B8 Hi Hi Lo Lo Hi Lo Lo Hi) = B8 Hi Lo Hi Hi Lo Hi Lo Lo"
  "bsb (B8 Lo Lo Hi Lo Hi Lo Lo Hi) = B8 Lo Lo Lo Hi Hi Hi Lo Hi"
  "bsb (B8 Hi Lo Hi Lo Hi Lo Lo Hi) = B8 Lo Lo Hi Lo Lo Lo Hi Lo"
  "bsb (B8 Lo Hi Hi Lo Hi Lo Lo Hi) = B8 Hi Lo Hi Lo Lo Hi Lo Lo"
  "bsb (B8 Hi Hi Hi Lo Hi Lo Lo Hi) = B8 Lo Lo Hi Lo Lo Hi Lo Hi"
  "bsb (B8 Lo Lo Lo Hi Hi Lo Lo Hi) = B8 Lo Lo Hi Hi Hi Lo Lo Lo"
  "bsb (B8 Hi Lo Lo Hi Hi Lo Lo Hi) = B8 Hi Hi Hi Lo Lo Lo Hi Hi"
  "bsb (B8 Lo Hi Lo Hi Hi Lo Lo Hi) = B8 Hi Hi Lo Lo Lo Hi Lo Lo"
  "bsb (B8 Hi Hi Lo Hi Hi Lo Lo Hi) = B8 Hi Lo Hi Hi Lo Hi Hi Hi"
  "bsb (B8 Lo Lo Hi Hi Hi Lo Lo Hi) = B8 Lo Lo Lo Lo Hi Lo Lo Hi"
  "bsb (B8 Hi Lo Hi Hi Hi Lo Lo Hi) = B8 Lo Hi Hi Hi Lo Hi Hi Lo"
  "bsb (B8 Lo Hi Hi Hi Hi Lo Lo Hi) = B8 Lo Lo Lo Lo Hi Lo Hi Lo"
  "bsb (B8 Hi Hi Hi Hi Hi Lo Lo Hi) = B8 Lo Lo Lo Lo Lo Lo Lo Lo"
  "bsb (B8 Lo Lo Lo Lo Lo Hi Lo Hi) = B8 Hi Lo Lo Hi Hi Lo Lo Hi"
  "bsb (B8 Hi Lo Lo Lo Lo Hi Lo Hi) = B8 Lo Hi Hi Hi Hi Lo Lo Hi"
  "bsb (B8 Lo Hi Lo Lo Lo Hi Lo Hi) = B8 Hi Lo Hi Hi Lo Lo Hi Lo"
  "bsb (B8 Hi Hi Lo Lo Lo Hi Lo Hi) = B8 Hi Lo Lo Hi Hi Lo Hi Hi"
  "bsb (B8 Lo Lo Hi Lo Lo Hi Lo Hi) = B8 Lo Hi Lo Hi Hi Lo Hi Hi"
  "bsb (B8 Hi Lo Hi Lo Lo Hi Lo Hi) = B8 Hi Lo Hi Hi Lo Lo Lo Hi"
  "bsb (B8 Lo Hi Hi Lo Lo Hi Lo Hi) = B8 Hi Hi Hi Hi Lo Hi Hi Lo"
  "bsb (B8 Hi Hi Hi Lo Lo Hi Lo Hi) = B8 Hi Hi Hi Hi Hi Lo Hi Lo"
  "bsb (B8 Lo Lo Lo Hi Lo Hi Lo Hi) = B8 Lo Hi Hi Hi Hi Hi Lo Lo"
  "bsb (B8 Hi Lo Lo Hi Lo Hi Lo Hi) = B8 Hi Hi Hi Lo Hi Lo Hi Hi"
  "bsb (B8 Lo Hi Lo Hi Lo Hi Lo Hi) = B8 Hi Lo Lo Lo Lo Hi Lo Lo"
  "bsb (B8 Hi Hi Lo Hi Lo Hi Lo Hi) = B8 Lo Lo Hi Lo Hi Hi Hi Lo"
  "bsb (B8 Lo Lo Hi Hi Lo Hi Lo Hi) = B8 Lo Hi Hi Lo Lo Lo Lo Hi"
  "bsb (B8 Hi Lo Hi Hi Lo Hi Lo Hi) = B8 Hi Hi Hi Hi Hi Lo Hi Hi"
  "bsb (B8 Lo Hi Hi Hi Lo Hi Lo Hi) = B8 Hi Hi Lo Hi Lo Hi Hi Lo"
  "bsb (B8 Hi Hi Hi Hi Lo Hi Lo Hi) = B8 Hi Lo Hi Lo Lo Lo Lo Lo"
  "bsb (B8 Lo Lo Lo Lo Hi Hi Lo Hi) = B8 Lo Hi Hi Hi Lo Lo Lo Hi"
  "bsb (B8 Hi Lo Lo Lo Hi Hi Lo Hi) = B8 Hi Lo Hi Hi Hi Lo Hi Lo"
  "bsb (B8 Lo Hi Lo Lo Hi Hi Lo Hi) = B8 Hi Hi Hi Lo Hi Hi Lo Lo"
  "bsb (B8 Hi Hi Lo Lo Hi Hi Lo Hi) = B8 Hi Lo Lo Lo Hi Lo Lo Lo"
  "bsb (B8 Lo Lo Hi Lo Hi Hi Lo Hi) = B8 Lo Hi Lo Lo Hi Lo Hi Hi"
  "bsb (B8 Hi Lo Hi Lo Hi Hi Lo Hi) = B8 Lo Lo Lo Hi Lo Hi Lo Lo"
  "bsb (B8 Lo Hi Hi Lo Hi Hi Lo Hi) = B8 Hi Lo Hi Lo Hi Hi Hi Lo"
  "bsb (B8 Hi Hi Hi Lo Hi Hi Lo Hi) = B8 Lo Hi Hi Lo Hi Lo Hi Hi"
  "bsb (B8 Lo Lo Lo Hi Hi Hi Lo Hi) = B8 Hi Hi Hi Lo Lo Hi Lo Hi"
  "bsb (B8 Hi Lo Lo Hi Hi Hi Lo Hi) = B8 Hi Hi Hi Lo Hi Hi Hi Lo"
  "bsb (B8 Lo Hi Lo Hi Hi Hi Lo Hi) = B8 Lo Lo Hi Lo Lo Hi Lo Lo"
  "bsb (B8 Hi Hi Lo Hi Hi Hi Lo Hi) = B8 Hi Hi Hi Hi Hi Hi Lo Hi"
  "bsb (B8 Lo Lo Hi Hi Hi Hi Lo Hi) = B8 Lo Lo Lo Lo Hi Hi Hi Hi"
  "bsb (B8 Hi Lo Hi Hi Hi Hi Lo Hi) = B8 Lo Lo Lo Lo Hi Hi Lo Hi"
  "bsb (B8 Lo Hi Hi Hi Hi Hi Lo Hi) = B8 Lo Hi Lo Lo Lo Lo Lo Lo"
  "bsb (B8 Hi Hi Hi Hi Hi Hi Lo Hi) = B8 Hi Hi Hi Lo Hi Hi Lo Hi"
  "bsb (B8 Lo Lo Lo Lo Lo Lo Hi Hi) = B8 Lo Lo Lo Hi Hi Hi Hi Hi"
  "bsb (B8 Hi Lo Lo Lo Lo Lo Hi Hi) = B8 Lo Lo Hi Hi Hi Hi Hi Hi"
  "bsb (B8 Lo Hi Lo Lo Lo Lo Hi Hi) = B8 Hi Lo Lo Lo Lo Lo Lo Hi"
  "bsb (B8 Hi Hi Lo Lo Lo Lo Hi Hi) = B8 Hi Lo Lo Hi Lo Lo Lo Lo"
  "bsb (B8 Lo Lo Hi Lo Lo Lo Hi Hi) = B8 Hi Lo Lo Lo Hi Hi Lo Hi"
  "bsb (B8 Hi Lo Hi Lo Lo Lo Hi Hi) = B8 Hi Lo Lo Lo Lo Lo Lo Lo"
  "bsb (B8 Lo Hi Hi Lo Lo Lo Hi Hi) = B8 Lo Hi Hi Lo Hi Hi Hi Lo"
  "bsb (B8 Hi Hi Hi Lo Lo Lo Hi Hi) = B8 Hi Lo Lo Lo Hi Lo Lo Hi"
  "bsb (B8 Lo Lo Lo Hi Lo Lo Hi Hi) = B8 Hi Lo Hi Hi Hi Hi Hi Lo"
  "bsb (B8 Hi Lo Lo Hi Lo Lo Hi Hi) = B8 Hi Hi Hi Hi Lo Lo Lo Lo"
  "bsb (B8 Lo Hi Lo Hi Lo Lo Hi Hi) = B8 Lo Lo Lo Hi Lo Lo Hi Hi"
  "bsb (B8 Hi Hi Lo Hi Lo Lo Hi Hi) = B8 Lo Lo Lo Lo Lo Hi Lo Hi"
  "bsb (B8 Lo Lo Hi Hi Lo Lo Hi Hi) = B8 Lo Hi Lo Lo Hi Hi Hi Hi"
  "bsb (B8 Hi Lo Hi Hi Lo Lo Hi Hi) = B8 Hi Hi Lo Hi Lo Lo Hi Hi"
  "bsb (B8 Lo Hi Hi Hi Lo Lo Hi Hi) = B8 Lo Lo Lo Hi Hi Hi Hi Lo"
  "bsb (B8 Hi Hi Hi Hi Lo Lo Hi Hi) = B8 Lo Lo Lo Lo Lo Hi Hi Lo"
  "bsb (B8 Lo Lo Lo Lo Hi Lo Hi Hi) = B8 Hi Lo Lo Lo Hi Lo Hi Hi"
  "bsb (B8 Hi Lo Lo Lo Hi Lo Hi Hi) = B8 Hi Hi Hi Lo Hi Hi Hi Hi"
  "bsb (B8 Lo Hi Lo Lo Hi Lo Hi Hi) = B8 Lo Lo Lo Lo Lo Hi Hi Hi"
  "bsb (B8 Hi Hi Lo Lo Hi Lo Hi Hi) = B8 Hi Lo Hi Lo Hi Hi Lo Hi"
  "bsb (B8 Lo Lo Hi Lo Hi Lo Hi Hi) = B8 Lo Lo Lo Hi Hi Lo Lo Hi"
  "bsb (B8 Hi Lo Hi Lo Hi Lo Hi Hi) = B8 Lo Hi Lo Lo Lo Hi Lo Lo"
  "bsb (B8 Lo Hi Hi Lo Hi Lo Hi Hi) = B8 Hi Hi Lo Lo Hi Hi Lo Hi"
  "bsb (B8 Hi Hi Hi Lo Hi Lo Hi Hi) = B8 Lo Lo Lo Lo Lo Hi Lo Lo"
  "bsb (B8 Lo Lo Lo Hi Hi Lo Hi Hi) = B8 Hi Lo Hi Hi Hi Lo Lo Lo"
  "bsb (B8 Hi Lo Lo Hi Hi Lo Hi Hi) = B8 Lo Hi Hi Lo Lo Hi Lo Hi"
  "bsb (B8 Lo Hi Lo Hi Hi Lo Hi Hi) = B8 Hi Hi Lo Hi Hi Lo Hi Hi"
  "bsb (B8 Hi Hi Lo Hi Hi Lo Hi Hi) = B8 Hi Hi Lo Hi Hi Hi Hi Lo"
  "bsb (B8 Lo Lo Hi Hi Hi Lo Hi Hi) = B8 Hi Lo Lo Hi Hi Lo Hi Lo"
  "bsb (B8 Hi Lo Hi Hi Hi Lo Hi Hi) = B8 Hi Hi Hi Hi Hi Lo Lo Hi"
  "bsb (B8 Lo Hi Hi Hi Hi Lo Hi Hi) = B8 Lo Hi Hi Hi Lo Hi Lo Hi"
  "bsb (B8 Hi Hi Hi Hi Hi Lo Hi Hi) = B8 Hi Lo Lo Lo Hi Hi Lo Lo"
  "bsb (B8 Lo Lo Lo Lo Lo Hi Hi Hi) = B8 Hi Hi Lo Hi Hi Hi Hi Hi"
  "bsb (B8 Hi Lo Lo Lo Lo Hi Hi Hi) = B8 Hi Hi Lo Lo Hi Lo Hi Hi"
  "bsb (B8 Lo Hi Lo Lo Lo Hi Hi Hi) = B8 Lo Hi Hi Lo Hi Hi Lo Hi"
  "bsb (B8 Hi Hi Lo Lo Lo Hi Hi Hi) = B8 Lo Hi Lo Hi Lo Lo Hi Hi"
  "bsb (B8 Lo Lo Hi Lo Lo Hi Hi Hi) = B8 Hi Hi Lo Lo Lo Lo Hi Lo"
  "bsb (B8 Hi Lo Hi Lo Lo Hi Hi Hi) = B8 Lo Hi Lo Lo Hi Hi Hi Lo"
  "bsb (B8 Lo Hi Hi Lo Lo Hi Hi Hi) = B8 Hi Hi Hi Lo Lo Lo Lo Lo"
  "bsb (B8 Hi Hi Hi Lo Lo Hi Hi Hi) = B8 Lo Lo Hi Lo Hi Hi Hi Hi"
  "bsb (B8 Lo Lo Lo Hi Lo Hi Hi Hi) = B8 Lo Lo Lo Hi Hi Lo Hi Hi"
  "bsb (B8 Hi Lo Lo Hi Lo Hi Hi Hi) = B8 Hi Lo Lo Lo Lo Lo Hi Lo"
  "bsb (B8 Lo Hi Lo Hi Lo Hi Hi Hi) = B8 Lo Lo Hi Lo Hi Lo Lo Lo"
  "bsb (B8 Hi Hi Lo Hi Lo Hi Hi Hi) = B8 Hi Lo Hi Lo Hi Lo Hi Lo"
  "bsb (B8 Lo Lo Hi Hi Lo Hi Hi Hi) = B8 Hi Lo Hi Hi Lo Lo Lo Lo"
  "bsb (B8 Hi Lo Hi Hi Lo Hi Hi Hi) = B8 Lo Lo Hi Lo Hi Lo Hi Lo"
  "bsb (B8 Lo Hi Hi Hi Lo Hi Hi Hi) = B8 Hi Hi Lo Hi Lo Lo Lo Hi"
  "bsb (B8 Hi Hi Hi Hi Lo Hi Hi Hi) = B8 Hi Lo Lo Hi Hi Hi Lo Hi"
  "bsb (B8 Lo Lo Lo Lo Hi Hi Hi Hi) = B8 Hi Lo Hi Hi Lo Hi Lo Hi"
  "bsb (B8 Hi Lo Lo Lo Hi Hi Hi Hi) = B8 Lo Hi Hi Lo Lo Lo Hi Lo"
  "bsb (B8 Lo Hi Lo Lo Hi Hi Hi Hi) = B8 Hi Hi Lo Hi Lo Lo Lo Lo"
  "bsb (B8 Hi Hi Lo Lo Hi Hi Hi Hi) = B8 Hi Hi Hi Hi Lo Hi Lo Hi"
  "bsb (B8 Lo Lo Hi Lo Hi Hi Hi Hi) = B8 Lo Lo Lo Lo Lo Lo Lo Hi"
  "bsb (B8 Hi Lo Hi Lo Hi Hi Hi Hi) = B8 Lo Hi Lo Lo Hi Lo Hi Lo"
  "bsb (B8 Lo Hi Hi Lo Hi Hi Hi Hi) = B8 Lo Lo Hi Hi Lo Hi Lo Lo"
  "bsb (B8 Hi Hi Hi Lo Hi Hi Hi Hi) = B8 Lo Hi Lo Hi Hi Hi Hi Hi"
  "bsb (B8 Lo Lo Lo Hi Hi Hi Hi Hi) = B8 Lo Lo Hi Hi Lo Lo Lo Hi"
  "bsb (B8 Hi Lo Lo Hi Hi Hi Hi Hi) = B8 Hi Lo Lo Hi Lo Lo Lo Hi"
  "bsb (B8 Lo Hi Lo Hi Hi Hi Hi Hi) = B8 Lo Hi Hi Lo Lo Hi Hi Lo"
  "bsb (B8 Hi Hi Lo Hi Hi Hi Hi Hi) = B8 Hi Lo Hi Hi Hi Hi Hi Hi"
  "bsb (B8 Lo Lo Hi Hi Hi Hi Hi Hi) = B8 Lo Hi Lo Lo Hi Hi Lo Hi"
  "bsb (B8 Hi Lo Hi Hi Hi Hi Hi Hi) = B8 Hi Lo Lo Hi Lo Hi Lo Hi"
  "bsb (B8 Lo Hi Hi Hi Hi Hi Hi Hi) = B8 Hi Hi Lo Hi Hi Lo Lo Hi"
  "bsb (B8 Hi Hi Hi Hi Hi Hi Hi Hi) = B8 Lo Lo Lo Lo Lo Lo Hi Hi"
  by (simp_all add: bsb_def block_sbox_def b8_def)

fun bperm :: "byte8 \<Rightarrow> byte8" where
  "bperm (B8 a b c d e f g h) = B8 g a e h d c f b"

lemma w8_bperm: "w8 (bperm x) = block_perm_byte (w8 x)"
  by (cases x) (simp only: block_perm_byte_def bits_w8 bperm.simps One_nat_def, simp only: w8.simps)

fun nround2 :: "byte8 list \<Rightarrow> byte8 \<Rightarrow> byte8 \<Rightarrow> byte8 list" where
  "nround2 [r0, r1, r2, r3, r4, r5, r6, r7] w n = [n, r0, xb r1 n, xb r2 n, xb r3 n, r4, xb r5 (bperm w), r6]"
| "nround2 _ w n = []"

fun nround1 :: "byte8 list \<Rightarrow> byte8 \<Rightarrow> byte8 list" where
  "nround1 [r0, r1, r2, r3, r4, r5, r6, r7] w = nround2 [r0, r1, r2, r3, r4, r5, r6, r7] w (xb r7 w)"
| "nround1 _ w = []"

fun nround :: "byte8 \<Rightarrow> byte8 list \<Rightarrow> byte8 list" where
  "nround k [r0, r1, r2, r3, r4, r5, r6, r7] = nround1 [r0, r1, r2, r3, r4, r5, r6, r7] (bsb (xb k r6))"
| "nround k _ = []"

lemma nround_step: "length R = 8 \<Longrightarrow> map w8 (nround k R) = block_step (w8 k) (map w8 R) \<and> length (nround k R) = 8"
  by (elim list8E) (simp add: block_step_def Let_def bsb_def w8_xb w8_bperm del: w8.simps)

definition nblock :: "byte8 list \<Rightarrow> byte8 list \<Rightarrow> byte8 list" where
  "nblock kr B = fold nround kr B"

lemma nblock_decrypt:
  assumes "length B = 8"
  shows "map w8 (nblock (rev kk) B) = block_decrypt (map w8 kk) (map w8 B)"
proof -
  have "length B = 8 \<Longrightarrow> map w8 (fold nround kr B) = fold block_step (map w8 kr) (map w8 B)" for kr
    by (induction kr arbitrary: B) (simp_all add: nround_step)
  then show ?thesis using assms by (simp add: nblock_def block_decrypt_def rev_map)
qed

declare bperm.simps [evals] nround2.simps(1) [evals] nround1.simps(1) [evals] nround.simps(1) [evals]

subsection \<open>The block key schedule\<close>

lemma key_perm_surj:
  assumes "q < 64"
  shows "\<exists>p < 64. key_perm ! p - 1 = q"
proof -
  have "inj_on (\<lambda>p. key_perm ! p - 1) {..<64}" by (rule inj_onI) (simp add: key_perm_inj)
  moreover have "(\<lambda>p. key_perm ! p - 1) ` {..<64} \<subseteq> {..<64}" using key_perm_less by auto
  ultimately have "(\<lambda>p. key_perm ! p - 1) ` {..<64} = {..<64}" by (intro endo_inj_surj) simp_all
  then have "q \<in> (\<lambda>p. key_perm ! p - 1) ` {..<64}" using assms by simp
  then show ?thesis by blast
qed

lemma row_eqI:
  assumes "length R = 8" "length R' = 8" "\<forall>q < 64. row_bit R q \<longleftrightarrow> row_bit R' q"
  shows "R = R'"
proof (rule nth_equalityI)
  fix j assume "j < length R"
  then have j: "j < 8" using assms(1) by simp
  show "R ! j = R' ! j"
  proof (rule bit_word_eqI)
    fix b assume "b < LENGTH(8)"
    then have "b < 8" by simp
    then have "8 * j + (7 - b) < 64" "(8 * j + (7 - b)) div 8 = j" "(8 * j + (7 - b)) mod 8 = 7 - b" "7 - (7 - b) = b"
      using j by (simp_all only: mod_mult_self4) simp_all
    then show "bit (R ! j) b = bit (R' ! j) b" using assms(3) unfolding row_bit_def by metis
  qed
qed (simp add: assms)

lemma permute_rowI:
  assumes "length R' = 8" "\<forall>(p, k) \<in> set (zip [0..<64] key_perm). row_bit R' (k - 1) = row_bit R p"
  shows "permute_row R = R'"
proof (rule row_eqI)
  show "\<forall>q < 64. row_bit (permute_row R) q \<longleftrightarrow> row_bit R' q"
  proof (intro allI impI)
    fix q :: nat assume "q < 64"
    then obtain p where p: "p < 64" "key_perm ! p - 1 = q" using key_perm_surj by blast
    then have "(p, key_perm ! p) \<in> set (zip [0..<64] key_perm)"
      by (auto simp: set_zip key_perm_ok(1) intro!: exI [of _ p])
    then have "row_bit R' q = row_bit R p" using assms(2) p(2) by auto
    then show "row_bit (permute_row R) q = row_bit R' q" using row_bit_permute [OF p(1), of R] p(2) by simp
  qed
qed (simp_all add: assms(1))

definition nperm :: "byte8 list \<Rightarrow> byte8 list" where
  "nperm R = map b8 (permute_row (map w8 R))"

lemma nperm_bits [evals]:
  "nperm [B8 k0 k1 k2 k3 k4 k5 k6 k7, B8 l0 l1 l2 l3 l4 l5 l6 l7,
       B8 m0 m1 m2 m3 m4 m5 m6 m7, B8 n0 n1 n2 n3 n4 n5 n6 n7,
       B8 o0 o1 o2 o3 o4 o5 o6 o7, B8 p0 p1 p2 p3 p4 p5 p6 p7,
       B8 q0 q1 q2 q3 q4 q5 q6 q7, B8 u0 u1 u2 u3 u4 u5 u6 u7] =
     [B8 p5 k4 q2 q6 n6 u3 m3 m0, B8 u1 u4 n4 n5 o4 q3 q1 k5,
      B8 m7 p3 o3 k0 m6 l3 k7 p0, B8 u7 p6 o1 k1 l7 m1 n1 p4,
      B8 n2 m4 u2 m5 k6 o6 n7 l2, B8 o2 p2 u5 p7 q0 q4 k3 n0,
      B8 q5 u0 l6 m2 o5 o7 l4 k2, B8 l0 u6 l5 p1 q7 l1 o0 n3]"
proof -
  have "permute_row (map w8 [B8 k0 k1 k2 k3 k4 k5 k6 k7, B8 l0 l1 l2 l3 l4 l5 l6 l7,
       B8 m0 m1 m2 m3 m4 m5 m6 m7, B8 n0 n1 n2 n3 n4 n5 n6 n7,
       B8 o0 o1 o2 o3 o4 o5 o6 o7, B8 p0 p1 p2 p3 p4 p5 p6 p7,
       B8 q0 q1 q2 q3 q4 q5 q6 q7, B8 u0 u1 u2 u3 u4 u5 u6 u7]) = map w8
     [B8 p5 k4 q2 q6 n6 u3 m3 m0, B8 u1 u4 n4 n5 o4 q3 q1 k5,
      B8 m7 p3 o3 k0 m6 l3 k7 p0, B8 u7 p6 o1 k1 l7 m1 n1 p4,
      B8 n2 m4 u2 m5 k6 o6 n7 l2, B8 o2 p2 u5 p7 q0 q4 k3 n0,
      B8 q5 u0 l6 m2 o5 o7 l4 k2, B8 l0 u6 l5 p1 q7 l1 o0 n3]"
    by (rule permute_rowI) (simp_all add: key_perm_def upt_rec row_bit_def bits_w8 del: w8.simps)
  then show ?thesis unfolding nperm_def by (simp only: list.map b8_w8)
qed

subsection \<open>The stream cypher\<close>

datatype reg10 = R10 "bool nib" "bool nib" "bool nib" "bool nib" "bool nib" "bool nib" "bool nib" "bool nib" "bool nib" "bool nib"

datatype nregs = NR reg10 reg10 "bool nib" "bool nib" "bool nib" "bool nib" "bool nib" "bool nib" bool bool bool

primrec nibs :: "reg10 \<Rightarrow> nibble list" where
  "nibs (R10 x0 x1 x2 x3 x4 x5 x6 x7 x8 x9) = map nibw [x0, x1, x2, x3, x4, x5, x6, x7, x8, x9]"

primrec nregs_csa :: "nregs \<Rightarrow> csa_regs" where
  "nregs_csa (NR A B X Y Z D E F p q r) =
     \<lparr>cA = nibs A, cB = nibs B, cX = nibw X, cY = nibw Y, cZ = nibw Z, cD = nibw D, cE = nibw E, cF = nibw F,
      cp = p, cq = q, cr = r\<rparr>"

fun xn :: "bool nib \<Rightarrow> bool nib \<Rightarrow> bool nib" where
  "xn (Nib a b c d) (Nib a' b' c' d') = Nib (bx a a') (bx b b') (bx c c') (bx d d')"

lemma nibw_xn: "nibw (xn x y) = nibw x XOR nibw y"
proof -
  have "xn x y = xor4 bool_ops x y" by (cases x; cases y) (simp add: xor4_def bool_ops_def bx_iff)
  then show ?thesis by (simp only: nibw_xor)
qed

fun rotn :: "bool \<Rightarrow> bool nib \<Rightarrow> bool nib" where
  "rotn True (Nib a b c d) = Nib d a b c"
| "rotn False n = n"

lemma nibw_rotn: "nibw (rotn p n) = (if p then push_bit 1 (nibw n) OR drop_bit 3 (nibw n) else nibw n)"
proof -
  have "rotn p n = rotate_p bool_ops p n" by (cases n; cases p) (auto simp: rotate_p_def bool_ops_def)
  then show ?thesis by (simp only: nibw_rotate)
qed

text \<open>The adder: sum bit and carry of three bits, by table.\<close>

fun fa :: "bool \<Rightarrow> bool \<Rightarrow> bool \<Rightarrow> bool \<times> bool" where
  "fa False False c = (c, False)"
| "fa False True c = (\<not> c, c)"
| "fa True False c = (\<not> c, c)"
| "fa True True c = (c, True)"

fun nadd3 :: "bool \<Rightarrow> bool \<Rightarrow> bool \<Rightarrow> bool \<times> bool \<Rightarrow> bool nib \<times> bool" where
  "nadd3 f0 f1 f2 (f3, c) = (Nib f0 f1 f2 f3, c)"
fun nadd2 :: "bool \<Rightarrow> bool \<Rightarrow> bool \<times> bool \<Rightarrow> bool \<Rightarrow> bool \<Rightarrow> bool nib \<times> bool" where
  "nadd2 f0 f1 (f2, c) z3 e3 = nadd3 f0 f1 f2 (fa z3 e3 c)"
fun nadd1 :: "bool \<Rightarrow> bool \<times> bool \<Rightarrow> bool \<Rightarrow> bool \<Rightarrow> bool \<Rightarrow> bool \<Rightarrow> bool nib \<times> bool" where
  "nadd1 f0 (f1, c) z2 e2 z3 e3 = nadd2 f0 f1 (fa z2 e2 c) z3 e3"
fun nadd0 :: "bool \<times> bool \<Rightarrow> bool \<Rightarrow> bool \<Rightarrow> bool \<Rightarrow> bool \<Rightarrow> bool \<Rightarrow> bool \<Rightarrow> bool nib \<times> bool" where
  "nadd0 (f0, c) z1 e1 z2 e2 z3 e3 = nadd1 f0 (fa z1 e1 c) z2 e2 z3 e3"
fun nadd :: "bool \<Rightarrow> bool nib \<Rightarrow> bool nib \<Rightarrow> bool \<Rightarrow> bool nib \<times> bool" where
  "nadd False Z E r = (E, r)"
| "nadd True (Nib z0 z1 z2 z3) (Nib e0 e1 e2 e3) r = nadd0 (fa z0 e0 r) z1 e1 z2 e2 z3 e3"

lemma fa_eq: "fa a b c = (a \<noteq> (b \<noteq> c), (a \<and> b) \<or> ((a \<noteq> b) \<and> c))"
  by (cases a; cases b) simp_all

lemma nadd_add_q: "nadd q Z E r = add_q bool_ops q Z E r"
  by (cases q; cases Z; cases E) (auto simp: fa_eq add_q_def bool_ops_def Let_def)

fun nin :: "(bool nib \<times> bool nib) option \<Rightarrow> bool nib \<Rightarrow> bool nib \<Rightarrow> bool nib" where
  "nin None D x = x"
| "nin (Some (ia, ib)) D x = xn (xn x D) ia"

fun ninB :: "(bool nib \<times> bool nib) option \<Rightarrow> bool nib \<Rightarrow> bool nib" where
  "ninB None x = x"
| "ninB (Some (ia, ib)) x = xn x ib"

fun push10 :: "bool nib \<Rightarrow> reg10 \<Rightarrow> reg10" where
  "push10 x (R10 x0 x1 x2 x3 x4 x5 x6 x7 x8 x9) = R10 x x0 x1 x2 x3 x4 x5 x6 x7 x8"

fun ncomb :: "reg10 \<Rightarrow> reg10 \<Rightarrow> bool nib \<Rightarrow> bool nib \<Rightarrow> bool nib \<times> bool \<Rightarrow> bool \<times> bool \<Rightarrow> bool \<times> bool \<Rightarrow>
    bool \<times> bool \<Rightarrow> bool \<times> bool \<Rightarrow> bool \<times> bool \<Rightarrow> bool \<times> bool \<Rightarrow> bool \<times> bool \<Rightarrow> nregs" where
  "ncomb A B D E (F, r) (s1a, s1b) (s2a, s2b) (s3a, s3b) (s4a, s4b) (s5a, s5b) (s6a, s6b) (s7a, s7b) =
     NR A B (Nib s1a s2a s3b s4b) (Nib s3a s4a s5b s6b) (Nib s5a s6a s1b s2b) D E F s7a s7b r"

definition bx4 :: "bool \<Rightarrow> bool \<Rightarrow> bool \<Rightarrow> bool \<Rightarrow> bool" where
  "bx4 a b c d = bx (bx (bx a b) c) d"

fun nstep :: "(bool nib \<times> bool nib) option \<Rightarrow> nregs \<Rightarrow> nregs" where
  "nstep inp (NR (R10 x0 x1 x2 x3 x4 x5 x6 x7 x8 x9) (R10 y0 y1 y2 y3 y4 y5 y6 y7 y8 y9) X Y Z D E F p q r) =
     ncomb (push10 (nin inp D (xn x9 X)) (R10 x0 x1 x2 x3 x4 x5 x6 x7 x8 x9))
       (push10 (rotn p (ninB inp (xn (xn y6 y9) Y))) (R10 y0 y1 y2 y3 y4 y5 y6 y7 y8 y9))
       (xn (xn E Z) (Nib (bx4 (b2 y8) (b3 y5) (b1 y2) (b0 y7)) (bx4 (b3 y4) (b2 y7) (b0 y3) (b1 y4))
                         (bx4 (b0 y5) (b1 y7) (b3 y2) (b2 y3)) (bx4 (b0 y2) (b1 y5) (b2 y6) (b3 y8))))
       F (nadd q Z E r)
       (sbox_ref 1 (b0 x3) (b2 x0) (b1 x5) (b3 x6) (b0 x8)) (sbox_ref 2 (b1 x1) (b2 x2) (b3 x5) (b0 x6) (b1 x8))
       (sbox_ref 3 (b3 x0) (b0 x1) (b1 x4) (b3 x4) (b2 x5)) (sbox_ref 4 (b3 x2) (b1 x0) (b3 x1) (b2 x3) (b0 x7))
       (sbox_ref 5 (b2 x4) (b3 x3) (b0 x5) (b1 x7) (b2 x8)) (sbox_ref 6 (b1 x2) (b1 x3) (b0 x4) (b2 x6) (b3 x8))
       (sbox_ref 7 (b2 x1) (b0 x2) (b1 x6) (b2 x7) (b3 x7))"

lemma sbox_ref_tab [evals]:
  "sbox_ref 1 Lo Lo Lo Lo Lo = (Hi, Lo)" "sbox_ref 1 Lo Lo Lo Lo Hi = (Lo, Lo)"
  "sbox_ref 1 Lo Lo Lo Hi Lo = (Lo, Hi)" "sbox_ref 1 Lo Lo Lo Hi Hi = (Lo, Hi)"
  "sbox_ref 1 Lo Lo Hi Lo Lo = (Hi, Lo)" "sbox_ref 1 Lo Lo Hi Lo Hi = (Hi, Hi)"
  "sbox_ref 1 Lo Lo Hi Hi Lo = (Hi, Hi)" "sbox_ref 1 Lo Lo Hi Hi Hi = (Lo, Lo)"
  "sbox_ref 1 Lo Hi Lo Lo Lo = (Hi, Hi)" "sbox_ref 1 Lo Hi Lo Lo Hi = (Hi, Lo)"
  "sbox_ref 1 Lo Hi Lo Hi Lo = (Hi, Lo)" "sbox_ref 1 Lo Hi Lo Hi Hi = (Lo, Lo)"
  "sbox_ref 1 Lo Hi Hi Lo Lo = (Lo, Hi)" "sbox_ref 1 Lo Hi Hi Lo Hi = (Lo, Hi)"
  "sbox_ref 1 Lo Hi Hi Hi Lo = (Lo, Lo)" "sbox_ref 1 Lo Hi Hi Hi Hi = (Hi, Hi)"
  "sbox_ref 1 Hi Lo Lo Lo Lo = (Lo, Lo)" "sbox_ref 1 Hi Lo Lo Lo Hi = (Hi, Hi)"
  "sbox_ref 1 Hi Lo Lo Hi Lo = (Hi, Hi)" "sbox_ref 1 Hi Lo Lo Hi Hi = (Lo, Lo)"
  "sbox_ref 1 Hi Lo Hi Lo Lo = (Hi, Lo)" "sbox_ref 1 Hi Lo Hi Lo Hi = (Hi, Lo)"
  "sbox_ref 1 Hi Lo Hi Hi Lo = (Lo, Hi)" "sbox_ref 1 Hi Lo Hi Hi Hi = (Lo, Hi)"
  "sbox_ref 1 Hi Hi Lo Lo Lo = (Hi, Lo)" "sbox_ref 1 Hi Hi Lo Lo Hi = (Hi, Lo)"
  "sbox_ref 1 Hi Hi Lo Hi Lo = (Lo, Lo)" "sbox_ref 1 Hi Hi Lo Hi Hi = (Hi, Hi)"
  "sbox_ref 1 Hi Hi Hi Lo Lo = (Lo, Hi)" "sbox_ref 1 Hi Hi Hi Lo Hi = (Lo, Hi)"
  "sbox_ref 1 Hi Hi Hi Hi Lo = (Hi, Hi)" "sbox_ref 1 Hi Hi Hi Hi Hi = (Lo, Lo)"
  "sbox_ref 2 Lo Lo Lo Lo Lo = (Hi, Hi)" "sbox_ref 2 Lo Lo Lo Lo Hi = (Lo, Hi)"
  "sbox_ref 2 Lo Lo Lo Hi Lo = (Lo, Lo)" "sbox_ref 2 Lo Lo Lo Hi Hi = (Hi, Lo)"
  "sbox_ref 2 Lo Lo Hi Lo Lo = (Hi, Lo)" "sbox_ref 2 Lo Lo Hi Lo Hi = (Hi, Hi)"
  "sbox_ref 2 Lo Lo Hi Hi Lo = (Hi, Hi)" "sbox_ref 2 Lo Lo Hi Hi Hi = (Lo, Lo)"
  "sbox_ref 2 Lo Hi Lo Lo Lo = (Lo, Hi)" "sbox_ref 2 Lo Hi Lo Lo Hi = (Hi, Hi)"
  "sbox_ref 2 Lo Hi Lo Hi Lo = (Hi, Lo)" "sbox_ref 2 Lo Hi Lo Hi Hi = (Lo, Hi)"
  "sbox_ref 2 Lo Hi Hi Lo Lo = (Lo, Lo)" "sbox_ref 2 Lo Hi Hi Lo Hi = (Lo, Lo)"
  "sbox_ref 2 Lo Hi Hi Hi Lo = (Lo, Hi)" "sbox_ref 2 Lo Hi Hi Hi Hi = (Hi, Lo)"
  "sbox_ref 2 Hi Lo Lo Lo Lo = (Hi, Hi)" "sbox_ref 2 Hi Lo Lo Lo Hi = (Lo, Hi)"
  "sbox_ref 2 Hi Lo Lo Hi Lo = (Lo, Lo)" "sbox_ref 2 Hi Lo Lo Hi Hi = (Hi, Hi)"
  "sbox_ref 2 Hi Lo Hi Lo Lo = (Hi, Hi)" "sbox_ref 2 Hi Lo Hi Lo Hi = (Hi, Lo)"
  "sbox_ref 2 Hi Lo Hi Hi Lo = (Lo, Lo)" "sbox_ref 2 Hi Lo Hi Hi Hi = (Hi, Lo)"
  "sbox_ref 2 Hi Hi Lo Lo Lo = (Lo, Lo)" "sbox_ref 2 Hi Hi Lo Lo Hi = (Lo, Lo)"
  "sbox_ref 2 Hi Hi Lo Hi Lo = (Lo, Hi)" "sbox_ref 2 Hi Hi Lo Hi Hi = (Hi, Lo)"
  "sbox_ref 2 Hi Hi Hi Lo Lo = (Hi, Lo)" "sbox_ref 2 Hi Hi Hi Lo Hi = (Lo, Hi)"
  "sbox_ref 2 Hi Hi Hi Hi Lo = (Hi, Hi)" "sbox_ref 2 Hi Hi Hi Hi Hi = (Lo, Hi)"
  "sbox_ref 3 Lo Lo Lo Lo Lo = (Hi, Lo)" "sbox_ref 3 Lo Lo Lo Lo Hi = (Lo, Lo)"
  "sbox_ref 3 Lo Lo Lo Hi Lo = (Lo, Hi)" "sbox_ref 3 Lo Lo Lo Hi Hi = (Hi, Lo)"
  "sbox_ref 3 Lo Lo Hi Lo Lo = (Hi, Lo)" "sbox_ref 3 Lo Lo Hi Lo Hi = (Hi, Hi)"
  "sbox_ref 3 Lo Lo Hi Hi Lo = (Hi, Hi)" "sbox_ref 3 Lo Lo Hi Hi Hi = (Lo, Hi)"
  "sbox_ref 3 Lo Hi Lo Lo Lo = (Lo, Hi)" "sbox_ref 3 Lo Hi Lo Lo Hi = (Lo, Hi)"
  "sbox_ref 3 Lo Hi Lo Hi Lo = (Lo, Lo)" "sbox_ref 3 Lo Hi Lo Hi Hi = (Hi, Hi)"
  "sbox_ref 3 Lo Hi Hi Lo Lo = (Hi, Hi)" "sbox_ref 3 Lo Hi Hi Lo Hi = (Lo, Lo)"
  "sbox_ref 3 Lo Hi Hi Hi Lo = (Hi, Lo)" "sbox_ref 3 Lo Hi Hi Hi Hi = (Lo, Lo)"
  "sbox_ref 3 Hi Lo Lo Lo Lo = (Lo, Hi)" "sbox_ref 3 Hi Lo Lo Lo Hi = (Hi, Hi)"
  "sbox_ref 3 Hi Lo Lo Hi Lo = (Lo, Lo)" "sbox_ref 3 Hi Lo Lo Hi Hi = (Lo, Hi)"
  "sbox_ref 3 Hi Lo Hi Lo Lo = (Hi, Hi)" "sbox_ref 3 Hi Lo Hi Lo Hi = (Lo, Lo)"
  "sbox_ref 3 Hi Lo Hi Hi Lo = (Hi, Lo)" "sbox_ref 3 Hi Lo Hi Hi Hi = (Hi, Lo)"
  "sbox_ref 3 Hi Hi Lo Lo Lo = (Hi, Lo)" "sbox_ref 3 Hi Hi Lo Lo Hi = (Lo, Lo)"
  "sbox_ref 3 Hi Hi Lo Hi Lo = (Lo, Hi)" "sbox_ref 3 Hi Hi Lo Hi Hi = (Hi, Lo)"
  "sbox_ref 3 Hi Hi Hi Lo Lo = (Lo, Lo)" "sbox_ref 3 Hi Hi Hi Lo Hi = (Hi, Hi)"
  "sbox_ref 3 Hi Hi Hi Hi Lo = (Hi, Hi)" "sbox_ref 3 Hi Hi Hi Hi Hi = (Lo, Hi)"
  "sbox_ref 4 Lo Lo Lo Lo Lo = (Hi, Hi)" "sbox_ref 4 Lo Lo Lo Lo Hi = (Lo, Hi)"
  "sbox_ref 4 Lo Lo Lo Hi Lo = (Hi, Lo)" "sbox_ref 4 Lo Lo Lo Hi Hi = (Hi, Hi)"
  "sbox_ref 4 Lo Lo Hi Lo Lo = (Lo, Lo)" "sbox_ref 4 Lo Lo Hi Lo Hi = (Hi, Lo)"
  "sbox_ref 4 Lo Lo Hi Hi Lo = (Lo, Hi)" "sbox_ref 4 Lo Lo Hi Hi Hi = (Hi, Lo)"
  "sbox_ref 4 Lo Hi Lo Lo Lo = (Lo, Hi)" "sbox_ref 4 Lo Hi Lo Lo Hi = (Hi, Lo)"
  "sbox_ref 4 Lo Hi Lo Hi Lo = (Lo, Lo)" "sbox_ref 4 Lo Hi Lo Hi Hi = (Lo, Hi)"
  "sbox_ref 4 Lo Hi Hi Lo Lo = (Hi, Hi)" "sbox_ref 4 Lo Hi Hi Lo Hi = (Lo, Lo)"
  "sbox_ref 4 Lo Hi Hi Hi Lo = (Lo, Lo)" "sbox_ref 4 Lo Hi Hi Hi Hi = (Hi, Hi)"
  "sbox_ref 4 Hi Lo Lo Lo Lo = (Lo, Hi)" "sbox_ref 4 Hi Lo Lo Lo Hi = (Lo, Lo)"
  "sbox_ref 4 Hi Lo Lo Hi Lo = (Hi, Hi)" "sbox_ref 4 Hi Lo Lo Hi Hi = (Lo, Hi)"
  "sbox_ref 4 Hi Lo Hi Lo Lo = (Hi, Lo)" "sbox_ref 4 Hi Lo Hi Lo Hi = (Hi, Hi)"
  "sbox_ref 4 Hi Lo Hi Hi Lo = (Lo, Lo)" "sbox_ref 4 Hi Lo Hi Hi Hi = (Hi, Hi)"
  "sbox_ref 4 Hi Hi Lo Lo Lo = (Lo, Lo)" "sbox_ref 4 Hi Hi Lo Lo Hi = (Hi, Hi)"
  "sbox_ref 4 Hi Hi Lo Hi Lo = (Hi, Lo)" "sbox_ref 4 Hi Hi Lo Hi Hi = (Lo, Lo)"
  "sbox_ref 4 Hi Hi Hi Lo Lo = (Lo, Hi)" "sbox_ref 4 Hi Hi Hi Lo Hi = (Hi, Lo)"
  "sbox_ref 4 Hi Hi Hi Hi Lo = (Hi, Lo)" "sbox_ref 4 Hi Hi Hi Hi Hi = (Lo, Hi)"
  "sbox_ref 5 Lo Lo Lo Lo Lo = (Hi, Lo)" "sbox_ref 5 Lo Lo Lo Lo Hi = (Lo, Lo)"
  "sbox_ref 5 Lo Lo Lo Hi Lo = (Lo, Lo)" "sbox_ref 5 Lo Lo Lo Hi Hi = (Lo, Hi)"
  "sbox_ref 5 Lo Lo Hi Lo Lo = (Hi, Hi)" "sbox_ref 5 Lo Lo Hi Lo Hi = (Hi, Lo)"
  "sbox_ref 5 Lo Lo Hi Hi Lo = (Hi, Hi)" "sbox_ref 5 Lo Lo Hi Hi Hi = (Hi, Lo)"
  "sbox_ref 5 Lo Hi Lo Lo Lo = (Lo, Lo)" "sbox_ref 5 Lo Hi Lo Lo Hi = (Lo, Hi)"
  "sbox_ref 5 Lo Hi Lo Hi Lo = (Hi, Hi)" "sbox_ref 5 Lo Hi Lo Hi Hi = (Hi, Hi)"
  "sbox_ref 5 Lo Hi Hi Lo Lo = (Lo, Hi)" "sbox_ref 5 Lo Hi Hi Lo Hi = (Lo, Lo)"
  "sbox_ref 5 Lo Hi Hi Hi Lo = (Hi, Lo)" "sbox_ref 5 Lo Hi Hi Hi Hi = (Lo, Hi)"
  "sbox_ref 5 Hi Lo Lo Lo Lo = (Hi, Lo)" "sbox_ref 5 Hi Lo Lo Lo Hi = (Hi, Hi)"
  "sbox_ref 5 Hi Lo Lo Hi Lo = (Hi, Lo)" "sbox_ref 5 Hi Lo Lo Hi Hi = (Lo, Lo)"
  "sbox_ref 5 Hi Lo Hi Lo Lo = (Lo, Lo)" "sbox_ref 5 Hi Lo Hi Lo Hi = (Hi, Hi)"
  "sbox_ref 5 Hi Lo Hi Hi Lo = (Lo, Hi)" "sbox_ref 5 Hi Lo Hi Hi Hi = (Lo, Hi)"
  "sbox_ref 5 Hi Hi Lo Lo Lo = (Lo, Hi)" "sbox_ref 5 Hi Hi Lo Lo Hi = (Lo, Lo)"
  "sbox_ref 5 Hi Hi Lo Hi Lo = (Hi, Hi)" "sbox_ref 5 Hi Hi Lo Hi Hi = (Hi, Lo)"
  "sbox_ref 5 Hi Hi Hi Lo Lo = (Hi, Hi)" "sbox_ref 5 Hi Hi Hi Lo Hi = (Lo, Hi)"
  "sbox_ref 5 Hi Hi Hi Hi Lo = (Lo, Lo)" "sbox_ref 5 Hi Hi Hi Hi Hi = (Hi, Lo)"
  "sbox_ref 6 Lo Lo Lo Lo Lo = (Lo, Lo)" "sbox_ref 6 Lo Lo Lo Lo Hi = (Lo, Hi)"
  "sbox_ref 6 Lo Lo Lo Hi Lo = (Hi, Lo)" "sbox_ref 6 Lo Lo Lo Hi Hi = (Hi, Hi)"
  "sbox_ref 6 Lo Lo Hi Lo Lo = (Lo, Hi)" "sbox_ref 6 Lo Lo Hi Lo Hi = (Hi, Lo)"
  "sbox_ref 6 Lo Lo Hi Hi Lo = (Hi, Lo)" "sbox_ref 6 Lo Lo Hi Hi Hi = (Lo, Lo)"
  "sbox_ref 6 Lo Hi Lo Lo Lo = (Lo, Lo)" "sbox_ref 6 Lo Hi Lo Lo Hi = (Lo, Hi)"
  "sbox_ref 6 Lo Hi Lo Hi Lo = (Hi, Hi)" "sbox_ref 6 Lo Hi Lo Hi Hi = (Lo, Lo)"
  "sbox_ref 6 Lo Hi Hi Lo Lo = (Hi, Lo)" "sbox_ref 6 Lo Hi Hi Lo Hi = (Hi, Hi)"
  "sbox_ref 6 Lo Hi Hi Hi Lo = (Lo, Hi)" "sbox_ref 6 Lo Hi Hi Hi Hi = (Hi, Hi)"
  "sbox_ref 6 Hi Lo Lo Lo Lo = (Hi, Lo)" "sbox_ref 6 Hi Lo Lo Lo Hi = (Hi, Hi)"
  "sbox_ref 6 Hi Lo Lo Hi Lo = (Lo, Lo)" "sbox_ref 6 Hi Lo Lo Hi Hi = (Hi, Lo)"
  "sbox_ref 6 Hi Lo Hi Lo Lo = (Hi, Hi)" "sbox_ref 6 Hi Lo Hi Lo Hi = (Lo, Lo)"
  "sbox_ref 6 Hi Lo Hi Hi Lo = (Lo, Hi)" "sbox_ref 6 Hi Lo Hi Hi Hi = (Lo, Hi)"
  "sbox_ref 6 Hi Hi Lo Lo Lo = (Hi, Lo)" "sbox_ref 6 Hi Hi Lo Lo Hi = (Lo, Hi)"
  "sbox_ref 6 Hi Hi Lo Hi Lo = (Lo, Hi)" "sbox_ref 6 Hi Hi Lo Hi Hi = (Hi, Lo)"
  "sbox_ref 6 Hi Hi Hi Lo Lo = (Lo, Lo)" "sbox_ref 6 Hi Hi Hi Lo Hi = (Hi, Hi)"
  "sbox_ref 6 Hi Hi Hi Hi Lo = (Hi, Hi)" "sbox_ref 6 Hi Hi Hi Hi Hi = (Lo, Lo)"
  "sbox_ref 7 Lo Lo Lo Lo Lo = (Lo, Lo)" "sbox_ref 7 Lo Lo Lo Lo Hi = (Hi, Hi)"
  "sbox_ref 7 Lo Lo Lo Hi Lo = (Hi, Lo)" "sbox_ref 7 Lo Lo Lo Hi Hi = (Hi, Lo)"
  "sbox_ref 7 Lo Lo Hi Lo Lo = (Hi, Hi)" "sbox_ref 7 Lo Lo Hi Lo Hi = (Lo, Lo)"
  "sbox_ref 7 Lo Lo Hi Hi Lo = (Lo, Lo)" "sbox_ref 7 Lo Lo Hi Hi Hi = (Lo, Hi)"
  "sbox_ref 7 Lo Hi Lo Lo Lo = (Hi, Hi)" "sbox_ref 7 Lo Hi Lo Lo Hi = (Lo, Lo)"
  "sbox_ref 7 Lo Hi Lo Hi Lo = (Lo, Hi)" "sbox_ref 7 Lo Hi Lo Hi Hi = (Hi, Hi)"
  "sbox_ref 7 Lo Hi Hi Lo Lo = (Lo, Hi)" "sbox_ref 7 Lo Hi Hi Lo Hi = (Hi, Lo)"
  "sbox_ref 7 Lo Hi Hi Hi Lo = (Hi, Lo)" "sbox_ref 7 Lo Hi Hi Hi Hi = (Lo, Hi)"
  "sbox_ref 7 Hi Lo Lo Lo Lo = (Lo, Hi)" "sbox_ref 7 Hi Lo Lo Lo Hi = (Lo, Lo)"
  "sbox_ref 7 Hi Lo Lo Hi Lo = (Hi, Hi)" "sbox_ref 7 Hi Lo Lo Hi Hi = (Hi, Hi)"
  "sbox_ref 7 Hi Lo Hi Lo Lo = (Lo, Lo)" "sbox_ref 7 Hi Lo Hi Lo Hi = (Lo, Hi)"
  "sbox_ref 7 Hi Lo Hi Hi Lo = (Lo, Hi)" "sbox_ref 7 Hi Lo Hi Hi Hi = (Hi, Lo)"
  "sbox_ref 7 Hi Hi Lo Lo Lo = (Hi, Lo)" "sbox_ref 7 Hi Hi Lo Lo Hi = (Hi, Hi)"
  "sbox_ref 7 Hi Hi Lo Hi Lo = (Lo, Hi)" "sbox_ref 7 Hi Hi Lo Hi Hi = (Lo, Lo)"
  "sbox_ref 7 Hi Hi Hi Lo Lo = (Hi, Lo)" "sbox_ref 7 Hi Hi Hi Lo Hi = (Hi, Hi)"
  "sbox_ref 7 Hi Hi Hi Hi Lo = (Lo, Lo)" "sbox_ref 7 Hi Hi Hi Hi Hi = (Hi, Lo)"
  by (simp_all add: sbox_ref_def sbox_tab_def)

lemma nibs_push10: "nibs (push10 x R) = nibw x # take 9 (nibs R)"
  by (cases R) simp

lemma sbox_pair: "(\<And>a b. sbox_ref n e1 e2 e3 e4 e5 = (a, b) \<Longrightarrow> P (a, b)) \<Longrightarrow> P (sbox_ref n e1 e2 e3 e4 e5)"
  by (cases "sbox_ref n e1 e2 e3 e4 e5") simp

lemma ncomb_eq:
  "nregs_csa (ncomb A B D E Fr S1 S2 S3 S4 S5 S6 S7) =
     \<lparr>cA = nibs A, cB = nibs B,
      cX = nibble4 (fst S1) (fst S2) (snd S3) (snd S4), cY = nibble4 (fst S3) (fst S4) (snd S5) (snd S6),
      cZ = nibble4 (fst S5) (fst S6) (snd S1) (snd S2), cD = nibw D, cE = nibw E, cF = nibw (fst Fr),
      cp = fst S7, cq = snd S7, cr = snd Fr\<rparr>"
  by (cases Fr; cases S1; cases S2; cases S3; cases S4; cases S5; cases S6; cases S7) (simp add: nibw_Nib)

lemma nstep_ref: "nregs_csa (nstep inp R) = csa_step (map_option (map_prod nibw nibw) inp) (nregs_csa R)"
proof -
  obtain A B X Y Z D E F p q r where R: "R = NR A B X Y Z D E F p q r" by (cases R)
  obtain x0 x1 x2 x3 x4 x5 x6 x7 x8 x9 where A: "A = R10 x0 x1 x2 x3 x4 x5 x6 x7 x8 x9" by (cases A)
  obtain y0 y1 y2 y3 y4 y5 y6 y7 y8 y9 where B: "B = R10 y0 y1 y2 y3 y4 y5 y6 y7 y8 y9" by (cases B)
  obtain F' r' where q: "add_q bool_ops q Z E r = (F', r')" by fastforce
  have i: "nibw (nin inp D x) = (case inp of None \<Rightarrow> nibw x | Some (ia, ib) \<Rightarrow> (nibw x XOR nibw D) XOR nibw ia)" for x
    by (cases inp) (auto simp: nibw_xn)
  have j: "nibw (ninB inp x) = (case inp of None \<Rightarrow> nibw x | Some (ia, ib) \<Rightarrow> nibw x XOR nibw ib)" for x
    by (cases inp) (auto simp: nibw_xn)
  show ?thesis
    unfolding R A B nstep.simps ncomb_eq nadd_add_q q csa_step_def Let_def split_def nibs_push10
    by (cases inp) (auto simp: nibw_xn nibw_rotn i j add_q_ref [OF q] nibw_Nib bx4_def bx_iff simp del: push_bit_xor drop_bit_xor)
qed

declare xn.simps [evals] rotn.simps [evals] fa.simps [evals] nadd3.simps [evals] nadd2.simps [evals] nadd1.simps [evals]
  nadd0.simps [evals] nadd.simps [evals] nin.simps [evals] ninB.simps [evals] push10.simps [evals] ncomb.simps [evals]
  nstep.simps [evals] bx4_def [evals] nib.sel [evals]

text \<open>The output bits, two per step, latest first, and the bytes they make.\<close>

fun nout :: "nregs \<Rightarrow> bool list \<Rightarrow> bool list" where
  "nout (NR A B X Y Z D E F p q r) bs = bx (b0 D) (b1 D) # bx (b2 D) (b3 D) # bs"

fun nrun :: "unit list \<Rightarrow> nregs \<Rightarrow> bool list \<Rightarrow> nregs \<times> bool list" where
  "nrun [] R bs = (R, bs)"
| "nrun (u # us) R bs = nrun us (nstep None R) (nout R bs)"

fun bytes8 :: "bool list \<Rightarrow> byte8 list \<Rightarrow> byte8 list" where
  "bytes8 (a # b # c # d # e # f # g # h # bs) acc = bytes8 bs (B8 a b c d e f g h # acc)"
| "bytes8 bs acc = acc"

fun nfin :: "nregs \<times> bool list \<Rightarrow> byte8 list \<times> nregs" where
  "nfin (R, bs) = (bytes8 (nout R bs) [], R)"

definition nstream :: "nregs \<Rightarrow> byte8 list \<times> nregs" where
  "nstream R = nfin (nrun (replicate 31 ()) (nstep None R) [])"

lemma rev_nout: "rev (nout R bs) = rev bs @ csa_two_bits (nregs_csa R)"
  by (cases R) (simp add: csa_two_bits_def bx_iff)

lemma nrun_bits:
  "nrun us R bs = (R', bs') \<Longrightarrow>
     rev (nout R' bs') = rev bs @ csa_two_bits (nregs_csa R) @ fst (csa_bits (length us) (nregs_csa R)) \<and>
     nregs_csa R' = snd (csa_bits (length us) (nregs_csa R))"
proof (induction us arbitrary: R bs)
  case (Cons u us)
  have "nregs_csa (nstep None R) = csa_step None (nregs_csa R)" by (simp add: nstep_ref)
  then show ?case using Cons.IH [of "nstep None R" "nout R bs"] Cons.prems
    by (simp add: rev_nout [of R bs] Let_def split_def)
qed (auto simp: rev_nout)

lemma bytes8_append: "bytes8 bs (xs @ acc) = bytes8 bs xs @ acc"
  by (induction bs xs rule: bytes8.induct) simp_all

lemma bytes8_bits:
  "length bs = 8 * n \<Longrightarrow> map w8 (bytes8 bs []) = map (\<lambda>i. bits_byte (take 8 (drop (8 * i) (rev bs)))) [0..<n]"
proof (induction n arbitrary: bs)
  case (Suc n)
  define xs ys where "xs = take 8 bs" and "ys = drop 8 bs"
  have xy: "bs = xs @ ys" "length xs = 8" "length ys = 8 * n" using Suc.prems by (simp_all add: xs_def ys_def)
  obtain a b c d e f g h where xs: "xs = [a, b, c, d, e, f, g, h]" using xy(2) by (elim list8E)
  have "bytes8 bs [] = bytes8 ys [] @ [B8 a b c d e f g h]"
    unfolding xy(1) xs using bytes8_append [of ys "[]" "[B8 a b c d e f g h]"] by simp
  moreover have "map (\<lambda>i. bits_byte (take 8 (drop (8 * i) (rev bs)))) [0..<n] =
      map (\<lambda>i. bits_byte (take 8 (drop (8 * i) (rev ys)))) [0..<n]"
    using xy by (intro map_cong refl) simp
  moreover have "bits_byte (take 8 (drop (8 * n) (rev bs))) = w8 (B8 a b c d e f g h)"
    unfolding xy(1) using xy(2,3) by (simp add: bits_byte_def xs)
  ultimately show ?case using Suc.IH [OF xy(3)] by simp
qed simp

lemma nstream_ref: "csa_stream (nregs_csa R) = (map w8 (fst (nstream R)), nregs_csa (snd (nstream R)))"
proof -
  obtain R' bs where r: "nrun (replicate 31 ()) (nstep None R) [] = (R', bs)" by (rule prod.exhaust)
  define s where "s = nregs_csa R"
  have s1: "nregs_csa (nstep None R) = csa_step None s" by (simp add: nstep_ref s_def)
  have "csa_bits 32 s = csa_bits (Suc 31) s" by (rule arg_cong [where f = "\<lambda>n. csa_bits n s"]) simp
  also have "\<dots> = (rev (nout R' bs), nregs_csa R')"
    using nrun_bits [OF r] s1 unfolding csa_bits.simps(2) length_replicate
    by (simp only: Let_def split_def rev.simps append_Nil fst_conv snd_conv)
  finally have e: "csa_bits 32 s = (rev (nout R' bs), nregs_csa R')" .
  have "length (nout R' bs) = 8 * 8" using csa_bits_nth(2) [of 0 32 s] unfolding e by simp
  then show ?thesis
    using bytes8_bits [of "nout R' bs" 8] by (simp add: csa_stream_def s_def [symmetric] e nstream_def r)
qed

lemma length_nstream: "length (fst (nstream R)) = 8"
  using length_csa_stream [of "nregs_csa R"] by (simp add: nstream_ref)

text \<open>Loading the key and the first block.\<close>

fun nhi :: "byte8 \<Rightarrow> bool nib" where "nhi (B8 a b c d e f g h) = Nib e f g h"
fun nlo :: "byte8 \<Rightarrow> bool nib" where "nlo (B8 a b c d e f g h) = Nib a b c d"

lemma nibw_hi_lo: "nibw (nhi x) = hi_nibble (w8 x)" "nibw (nlo x) = lo_nibble (w8 x)"
  by (cases x; simp add: nibble_bits [symmetric] bits_w8 nibw_Nib del: w8.simps)+

abbreviation (input) "nz \<equiv> Nib False False False False"

fun nload :: "byte8 list \<Rightarrow> nregs" where
  "nload [k0, k1, k2, k3, k4, k5, k6, k7] =
     NR (R10 (nhi k0) (nlo k0) (nhi k1) (nlo k1) (nhi k2) (nlo k2) (nhi k3) (nlo k3) nz nz)
        (R10 (nhi k4) (nlo k4) (nhi k5) (nlo k5) (nhi k6) (nlo k6) (nhi k7) (nlo k7) nz nz)
        nz nz nz nz nz nz False False False"

fun ninputs :: "byte8 list \<Rightarrow> (bool nib \<times> bool nib) list" where
  "ninputs [] = []"
| "ninputs (b # bs) = (nhi b, nlo b) # (nlo b, nhi b) # (nhi b, nlo b) # (nlo b, nhi b) # ninputs bs"

fun nsteps :: "(bool nib \<times> bool nib) list \<Rightarrow> nregs \<Rightarrow> nregs" where
  "nsteps [] R = R"
| "nsteps (io # ios) R = nsteps ios (nstep (Some io) R)"

definition ninit :: "byte8 list \<Rightarrow> byte8 list \<Rightarrow> nregs" where
  "ninit w sb = nsteps (ninputs sb) (nload w)"

lemma nload_ref: "length w = 8 \<Longrightarrow> nregs_csa (nload w) = csa_load (map w8 w)"
  by (elim list8E) (simp add: csa_load_def nibw_hi_lo nibw_zero del: w8.simps)

lemma ninit_ref:
  assumes "length w = 8" "length sb = 8"
  shows "nregs_csa (ninit w sb) = csa_init (map w8 w) (map w8 sb)"
  using assms(2)
  by (elim list8E)
    (simp add: ninit_def csa_init_def loop_ij_def nstep_ref nibw_hi_lo nload_ref [OF assms(1)] del: w8.simps)

declare nout.simps [evals] nrun.simps [evals] bytes8.simps [evals] nfin.simps [evals] nhi.simps [evals] nlo.simps [evals]
  nload.simps [evals] ninputs.simps [evals] nsteps.simps [evals] ninit_def [evals]

subsection \<open>The chain\<close>

fun nch2 :: "byte8 list \<Rightarrow> byte8 list \<Rightarrow> byte8 list \<Rightarrow> nregs \<Rightarrow> byte8 list \<Rightarrow> nregs \<times> byte8 list \<times> byte8 list" where
  "nch2 kr ib out R' ib' = (R', ib', out @ xl ib' (nblock kr ib))"

fun nch1 :: "byte8 list \<Rightarrow> byte8 list \<Rightarrow> byte8 list \<Rightarrow> byte8 list \<Rightarrow> byte8 list \<times> nregs \<Rightarrow> nregs \<times> byte8 list \<times> byte8 list" where
  "nch1 kr c ib out (st, R') = nch2 kr ib out R' (xl st c)"

fun nch :: "byte8 list \<Rightarrow> byte8 list \<Rightarrow> nregs \<times> byte8 list \<times> byte8 list \<Rightarrow> nregs \<times> byte8 list \<times> byte8 list" where
  "nch kr c (R, ib, out) = nch1 kr c ib out (nstream R)"

fun nend1 :: "byte8 list \<Rightarrow> byte8 list \<Rightarrow> byte8 list \<Rightarrow> byte8 list \<Rightarrow> byte8 list \<times> nregs \<Rightarrow> byte8 list" where
  "nend1 kr res ib out (st, R') = out @ nblock kr ib @ xl res st"

fun nend :: "byte8 list \<Rightarrow> byte8 list \<Rightarrow> nregs \<times> byte8 list \<times> byte8 list \<Rightarrow> byte8 list" where
  "nend kr res (R, ib, out) = nend1 kr res ib out (nstream R)"

lemma length_xl: "length (xl xs ys) = min (length xs) (length ys)"
  by (induction xs ys rule: xl.induct) simp_all

lemma nchain_ref:
  "\<forall>c \<in> set cs. length c = 8 \<Longrightarrow> length ib = 8 \<Longrightarrow> length res < 8 \<Longrightarrow>
     map w8 (nend (rev kk) res (fold (nch (rev kk)) cs (R, ib, out))) =
     map w8 out @ csa_chain (map w8 kk) (nregs_csa R) (map w8 ib) (map w8 (concat cs @ res))"
proof (induction cs arbitrary: R ib out)
  case Nil
  obtain st R' where n: "nstream R = (st, R')" by fastforce
  then have st: "length st = 8" using length_nstream [of R] by simp
  have "xorb (map w8 res) (take (length res) (map w8 st)) = map w8 (xl res st)"
    unfolding xl_xorb using Nil.prems(3) st by (intro nth_equalityI) simp_all
  then show ?case using Nil.prems n
    by (subst csa_chain.simps) (simp add: nstream_ref nblock_decrypt)
next
  case (Cons c cs)
  obtain st R' where n: "nstream R = (st, R')" by fastforce
  then have st: "length st = 8" using length_nstream [of R] by simp
  have c: "length c = 8" using Cons.prems(1) by simp
  have l: "length (xl st c) = 8" using st c by (simp add: length_xl)
  have IH: "map w8 (nend (rev kk) res (fold (nch (rev kk)) cs (R', xl st c, out @ xl (xl st c) (nblock (rev kk) ib)))) =
     map w8 (out @ xl (xl st c) (nblock (rev kk) ib)) @
       csa_chain (map w8 kk) (nregs_csa R') (map w8 (xl st c)) (map w8 (concat cs @ res))"
    using Cons.prems l by (intro Cons.IH) simp_all
  show ?case
    using IH c n Cons.prems(2)
    by (subst csa_chain.simps) (simp add: nstream_ref nblock_decrypt xl_xorb Let_def)
qed

fun blocks8 :: "byte8 list \<Rightarrow> byte8 list list" where
  "blocks8 (a # b # c # d # e # f # g # h # bs) = [a, b, c, d, e, f, g, h] # blocks8 bs"
| "blocks8 bs = []"

fun rest8 :: "byte8 list \<Rightarrow> byte8 list" where
  "rest8 (a # b # c # d # e # f # g # h # bs) = rest8 bs"
| "rest8 bs = bs"

lemma blocks8_rest8: "concat (blocks8 bs) @ rest8 bs = bs" "\<forall>c \<in> set (blocks8 bs). length c = 8" "length (rest8 bs) < 8"
  by (induction bs rule: blocks8.induct) simp_all

text \<open>The key schedule, from the last row (number 6) to the first one.\<close>

fun nsched :: "byte8 list \<Rightarrow> byte8 list \<Rightarrow> byte8 list \<Rightarrow> byte8 list" where
  "nsched [] row acc = acc"
| "nsched (i # is) row acc = nsched is (nperm row) (map (xb i) row @ acc)"

fun ndec1 :: "byte8 list \<Rightarrow> byte8 list \<Rightarrow> byte8 list \<Rightarrow> byte8 list \<Rightarrow> byte8 list" where
  "ndec1 kr w b p = nend kr (rest8 p) (fold (nch kr) (blocks8 p) (ninit w b, b, []))"

fun ndecrypt :: "byte8 list \<Rightarrow> byte8 list \<Rightarrow> byte8 list \<Rightarrow> byte8 list" where
  "ndecrypt kr w (a # b # c # d # e # f # g # h # p) = ndec1 kr w [a, b, c, d, e, f, g, h] p"
| "ndecrypt kr w p = p"

definition row_numbers :: "byte8 list" where
  "row_numbers = map (\<lambda>i. b8 (word_of_nat i)) [6, 5, 4, 3, 2, 1, 0]"

definition nkeys :: "byte8 list \<Rightarrow> byte8 list" where
  "nkeys w = rev (nsched row_numbers w [])"

lemma map_w8_nperm: "map w8 (nperm R) = permute_row (map w8 R)"
  unfolding nperm_def by (rule map_w8_b8)

lemma length_nperm: "length (nperm R) = 8"
  by (simp add: nperm_def)

lemma row_xor: "length R = 8 \<Longrightarrow> map (\<lambda>j. map w8 R ! j XOR k) [0..<8] = map w8 (map (xb (b8 k)) R)"
  by (elim list8E) (simp add: upt_rec w8_xb xor.commute del: w8.simps)

lemma nsched_ref:
  assumes "length w = 8"
  shows "map w8 (nsched row_numbers w []) = key_schedule_block (map w8 w) 0"
proof -
  define R where "R n = (nperm ^^ n) w" for n
  have l: "length (R n) = 8" for n using assms by (cases n) (simp_all add: R_def length_nperm)
  have p: "map w8 (R n) = (permute_row ^^ n) (map w8 w)" for n
    by (induction n) (simp_all add: R_def map_w8_nperm)
  have k: "key_rows (map w8 w) 0 = map (\<lambda>i. map w8 (R (6 - i))) [0..<7]"
    by (simp only: key_rows_eq p) (simp add: key_row6_def)
  have r: "nsched row_numbers w [] = concat (map (\<lambda>i. map (xb (b8 (word_of_nat i))) (R (6 - i))) [0..<7])"
    by (simp add: row_numbers_def R_def upt_rec numeral_eq_Suc)
  have "map (\<lambda>j. key_rows (map w8 w) 0 ! i ! j XOR word_of_nat i) [0..<8] = map w8 (map (xb (b8 (word_of_nat i))) (R (6 - i)))"
    if "i < 7" for i
    using that by (simp add: k row_xor [OF l] del: map_map)
  then show ?thesis
    unfolding r key_schedule_block_def Let_def map_concat map_map comp_def
    by (intro arg_cong [where f = concat] map_cong refl) simp
qed

lemma nstream_steps [evals]:
  "nstream R = nfin (nrun
     [(), (), (), (), (), (), (), (), (), (), (), (), (), (), (), (), (), (), (), (), (), (), (), (), (), (), (), (), (), (), ()]
     (nstep None R) [])"
  by (simp add: nstream_def numeral_eq_Suc)

lemma ndecrypt_short: "length q < 8 \<Longrightarrow> ndecrypt kr w q = q"
  by (cases "(kr, w, q)" rule: ndecrypt.cases) simp_all

lemma ndecrypt_ref:
  assumes "length w = 8"
  shows "csa_decrypt w (key_schedule_block w 0) p = map w8 (ndecrypt (nkeys (map b8 w)) (map b8 w) (map b8 p))"
proof (cases "8 \<le> length p")
  case True
  define q where "q = map b8 p"
  define w' where "w' = map b8 w"
  have w: "w = map w8 w'" "length w' = 8" unfolding w'_def using assms by (simp_all add: comp_def)
  have p: "p = map w8 q" unfolding q_def by (simp add: comp_def)
  define b where "b = take 8 q"
  define r where "r = drop 8 q"
  have q: "q = b @ r" "length b = 8" using True by (simp_all add: b_def r_def q_def)
  define kk where "kk = nsched row_numbers w' []"
  have "ndecrypt (nkeys w') w' q = nend (rev kk) (rest8 r) (fold (nch (rev kk)) (blocks8 r) (ninit w' b, b, []))"
    using q(2) unfolding q(1) by (elim list8E) (simp add: nkeys_def kk_def)
  moreover have "map w8 (nend (rev kk) (rest8 r) (fold (nch (rev kk)) (blocks8 r) (ninit w' b, b, []))) =
    csa_chain (map w8 kk) (nregs_csa (ninit w' b)) (map w8 b) (map w8 r)"
    using nchain_ref [where kk = kk and R = "ninit w' b" and out = "[]", OF blocks8_rest8(2) q(2) blocks8_rest8(3), of r r] by (simp add: blocks8_rest8(1))
  moreover have "take 8 p = map w8 b" "drop 8 p = map w8 r" unfolding p q(1) using q(2) by simp_all
  moreover have "map w8 kk = key_schedule_block w 0" unfolding kk_def w(1) by (rule nsched_ref [OF w(2)])
  ultimately show ?thesis
    using True unfolding w'_def [symmetric] q_def [symmetric]
    by (simp add: csa_decrypt_def ninit_ref [OF w(2) q(2)] w(1) [symmetric])
next
  case False
  then have "ndecrypt kr w' (map b8 p) = map b8 p" for kr w' by (intro ndecrypt_short) simp
  then show ?thesis using False by (simp add: csa_decrypt_def comp_def)
qed

lemma row_numbers_eq [evals]:
  "row_numbers = [B8 Lo Hi Hi Lo Lo Lo Lo Lo, B8 Hi Lo Hi Lo Lo Lo Lo Lo, B8 Lo Lo Hi Lo Lo Lo Lo Lo,
     B8 Hi Hi Lo Lo Lo Lo Lo Lo, B8 Lo Hi Lo Lo Lo Lo Lo Lo, B8 Hi Lo Lo Lo Lo Lo Lo Lo, B8 Lo Lo Lo Lo Lo Lo Lo Lo]"
  by (simp add: row_numbers_def b8_def)

declare nch2.simps [evals] nch1.simps [evals] nch.simps [evals] nend1.simps [evals] nend.simps [evals]
  blocks8.simps [evals] rest8.simps [evals] nsched.simps [evals] ndec1.simps [evals] ndecrypt.simps [evals]
  nkeys_def [evals] nblock_def [evals] fold_simps [evals] list.map [evals] rev.simps [evals] append.simps [evals]
  not_True_eq_False [evals] not_False_eq_True [evals] b8_def [evals]
end
