(* ===== verification/SelfTest.thy ===== *)
theory SelfTest
  imports Decrypt SelfTestEval
begin

text \<open>
  The test program of FFdecsa (FFdecsa_test.c) and its recorded packets (FFdecsa_test_testcases.h): five
  packets with their keys and what they must decrypt to, then 30000 copies of one of them in one
  buffer, decrypted by repeated calls of \<open>decrypt_packets\<close>. The theorem says that the program ends and
  reports success, for the model of the code; so the reference cypher itself (against which the
  code is proved) is checked on the project's recorded traffic, by evaluation in the kernel.

  The arrays of the header have 256 bytes, of which 188 are written. The test program
  leaves \<open>test_1_expected_stream\<close> and \<open>test_1_expected_block\<close> unused.
\<close>

subsection \<open>The recorded packets\<close>

definition test_invalid_key :: bytes where
  "test_invalid_key = [
    0x0f, 0x1e, 0x2d, 0x3c, 0x4b, 0x5a, 0x69, 0x78]"

definition test_1_key :: bytes where
  "test_1_key = [
    0x07, 0xe0, 0x1b, 0x02, 0xc9, 0xe0, 0x45, 0xee]"

definition test_1_encrypted :: bytes where
  "test_1_encrypted = [
    0x47, 0x00, 0x00, 0xd0,
    0xde, 0xcf, 0x0a, 0x0d, 0xb2, 0xd7, 0xc4, 0x40, 0xde, 0x5d, 0x63, 0x18, 0x5a, 0x98, 0x17, 0xaa,
    0xc9, 0xbc, 0x27, 0xc6, 0xcb, 0x49, 0x40, 0x48, 0xfd, 0x20, 0xb7, 0x05, 0x5b, 0x27, 0xcb, 0xeb,
    0x9a, 0xf0, 0xac, 0x45, 0x6d, 0x56, 0xf4, 0x7b, 0x6f, 0xa0, 0x57, 0xf3, 0x9b, 0xf7, 0xa2, 0xc7,
    0xd4, 0x68, 0x24, 0x00, 0x2f, 0x28, 0x13, 0x96, 0x94, 0xa8, 0x7c, 0xf4, 0x6f, 0x07, 0x2a, 0x0e,
    0xe8, 0xa1, 0xeb, 0xc7, 0x80, 0xac, 0x1f, 0x79, 0xbf, 0x5d, 0xb6, 0x10, 0x7c, 0x2e, 0x52, 0xe9,
    0x34, 0x2c, 0xa8, 0x39, 0x01, 0x73, 0x04, 0x24, 0xa8, 0x1e, 0xdb, 0x5b, 0xcb, 0x24, 0xf6, 0x31,
    0xab, 0x02, 0x6b, 0xf9, 0xf6, 0xf7, 0xe9, 0x52, 0xad, 0xcf, 0x62, 0x0f, 0x42, 0xf6, 0x66, 0x5d,
    0xc0, 0x86, 0xf2, 0x7b, 0x40, 0x20, 0xa9, 0xbd, 0x1f, 0xfd, 0x16, 0xad, 0x2e, 0x75, 0xa6, 0xa0,
    0x85, 0xf3, 0x9c, 0x31, 0x20, 0x4e, 0xfb, 0x95, 0x61, 0x78, 0xce, 0x10, 0xc1, 0x48, 0x5f, 0xd3,
    0x61, 0x05, 0x12, 0xf4, 0xe2, 0x04, 0xae, 0xe0, 0x86, 0x01, 0x56, 0x55, 0xb1, 0x0f, 0xa6, 0x33,
    0x95, 0x20, 0x92, 0xf0, 0xbe, 0x39, 0x31, 0xe1, 0x2a, 0xf7, 0x93, 0xb4, 0xf7, 0xe4, 0xf1, 0x85,
    0xae, 0x50, 0xf1, 0x63, 0xd4, 0x5d, 0x9c, 0x6c] @ replicate 68 0"

definition test_1_expected :: bytes where
  "test_1_expected = [
    0x47, 0x00, 0x00, 0xd0,
    0xaf, 0xbe, 0xfb, 0xef, 0xbe, 0xfb, 0xef, 0xbe, 0xfb, 0xef, 0xbe, 0xfb, 0xe6, 0xb5, 0xad, 0x7c,
    0xf9, 0xf3, 0xe5, 0xb1, 0x6c, 0x7c, 0xf9, 0xf3, 0xe6, 0xb5, 0xad, 0x6b, 0x5f, 0x3e, 0x7c, 0xf9,
    0x6c, 0x5b, 0x1f, 0x3e, 0x7c, 0xf9, 0xad, 0x6b, 0x5a, 0xd7, 0xcf, 0x9f, 0x3e, 0x5b, 0x16, 0xc7,
    0xcf, 0x9f, 0x3e, 0x6b, 0x5a, 0xd6, 0xb5, 0xf3, 0xe7, 0xcf, 0x96, 0xc5, 0xb1, 0xf3, 0xe7, 0xcf,
    0x9a, 0xd6, 0xb5, 0xad, 0x7c, 0xf9, 0xf3, 0xe5, 0xb1, 0x6c, 0x7c, 0xf9, 0xf3, 0xe6, 0xb5, 0xad,
    0x6b, 0x5f, 0x3e, 0x7c, 0xf9, 0x6c, 0x5b, 0x1f, 0x3e, 0x7c, 0xf9, 0xad, 0x6b, 0x5a, 0xd7, 0xcf,
    0x9f, 0x3e, 0x5b, 0x16, 0xc7, 0xcf, 0x9f, 0x3e, 0x6b, 0x5a, 0xd6, 0xb5, 0xf3, 0xe7, 0xcf, 0x96,
    0xc5, 0xb1, 0xf3, 0xe7, 0xcf, 0x9a, 0xd6, 0xb5, 0xad, 0x7c, 0xf9, 0xf3, 0xe5, 0xb1, 0x6c, 0x7c,
    0xf9, 0xf3, 0xe6, 0xb5, 0xad, 0x6b, 0x5f, 0x3e, 0x7c, 0xf9, 0x6c, 0x5b, 0x1f, 0x3e, 0x7c, 0xf9,
    0xad, 0x6b, 0x5a, 0xd7, 0xcf, 0x9f, 0x3e, 0x5b, 0x16, 0xc7, 0xcf, 0x9f, 0x3e, 0x6b, 0x5a, 0xd6,
    0xb5, 0xf3, 0xe7, 0xcf, 0x96, 0xc5, 0xb1, 0xf3, 0xe7, 0xcf, 0x9a, 0xd0, 0x00, 0x00, 0x00, 0x00,
    0xff, 0xfc, 0x44, 0x00, 0x66, 0xb1, 0x11, 0x11] @ replicate 68 0"

definition test_2_key :: bytes where
  "test_2_key = [
    0x07, 0x06, 0x05, 0x04, 0x03, 0x02, 0x01, 0x00]"

definition test_2_encrypted :: bytes where
  "test_2_encrypted = [
    0x47, 0x00, 0x00, 0x90,
    0x00, 0x01, 0x02, 0x03, 0x04, 0x05, 0x06, 0x07, 0x08, 0x09, 0x0a, 0x0b, 0x0c, 0x0d, 0x0e, 0x0f,
    0x10, 0x11, 0x12, 0x13, 0x14, 0x15, 0x16, 0x17, 0x18, 0x19, 0x1a, 0x1b, 0x1c, 0x1d, 0x1e, 0x1f,
    0x20, 0x21, 0x22, 0x23, 0x24, 0x25, 0x26, 0x27, 0x28, 0x29, 0x2a, 0x2b, 0x2c, 0x2d, 0x2e, 0x2f,
    0x30, 0x31, 0x32, 0x33, 0x34, 0x35, 0x36, 0x37, 0x38, 0x39, 0x3a, 0x3b, 0x3c, 0x3d, 0x3e, 0x3f,
    0x40, 0x41, 0x42, 0x43, 0x44, 0x45, 0x46, 0x47, 0x48, 0x49, 0x4a, 0x4b, 0x4c, 0x4d, 0x4e, 0x4f,
    0x50, 0x51, 0x52, 0x53, 0x54, 0x55, 0x56, 0x57, 0x58, 0x59, 0x5a, 0x5b, 0x5c, 0x5d, 0x5e, 0x5f,
    0x60, 0x61, 0x62, 0x63, 0x64, 0x65, 0x66, 0x67, 0x68, 0x69, 0x6a, 0x6b, 0x6c, 0x6d, 0x6e, 0x6f,
    0x70, 0x71, 0x72, 0x73, 0x74, 0x75, 0x76, 0x77, 0x78, 0x79, 0x7a, 0x7b, 0x7c, 0x7d, 0x7e, 0x7f,
    0x80, 0x81, 0x82, 0x83, 0x84, 0x85, 0x86, 0x87, 0x88, 0x89, 0x8a, 0x8b, 0x8c, 0x8d, 0x8e, 0x8f,
    0x90, 0x91, 0x92, 0x93, 0x94, 0x95, 0x96, 0x97, 0x98, 0x99, 0x9a, 0x9b, 0x9c, 0x9d, 0x9e, 0x9f,
    0xa0, 0xa1, 0xa2, 0xa3, 0xa4, 0xa5, 0xa6, 0xa7, 0xa8, 0xa9, 0xaa, 0xab, 0xac, 0xad, 0xae, 0xaf,
    0xb0, 0xb1, 0xb2, 0xb3, 0xb4, 0xb5, 0xb6, 0xb7] @ replicate 68 0"

definition test_2_expected :: bytes where
  "test_2_expected = [
    0x47, 0x00, 0x00, 0x90,
    0x2d, 0x0a, 0x47, 0x20, 0x18, 0x11, 0x9c, 0x8a, 0xd1, 0x2a, 0x65, 0x6b, 0x89, 0xe4, 0x35, 0x2b,
    0xc2, 0xb5, 0x90, 0x61, 0xd1, 0x7e, 0x02, 0xe1, 0x3f, 0x46, 0x70, 0xcf, 0x77, 0x91, 0x2f, 0x22,
    0x93, 0xc1, 0x6c, 0xfe, 0x49, 0xad, 0x7c, 0xc2, 0xaf, 0x86, 0x1b, 0xa3, 0x29, 0xbe, 0xaa, 0x64,
    0xf0, 0x22, 0xb9, 0x5e, 0x98, 0xaa, 0x60, 0xef, 0xdf, 0xd6, 0x44, 0x77, 0xe6, 0xbf, 0xbb, 0x94,
    0xb2, 0x0a, 0x63, 0x0e, 0x5c, 0xf2, 0xac, 0xb4, 0x49, 0xcc, 0x9e, 0x4f, 0x94, 0x4c, 0x30, 0x12,
    0xe8, 0x55, 0xc2, 0x44, 0xa4, 0x52, 0xcb, 0x61, 0x81, 0xc9, 0xb6, 0xa6, 0x6b, 0xef, 0xaf, 0xa6,
    0x71, 0x1d, 0x7b, 0x58, 0x2f, 0xfa, 0xd1, 0x0c, 0x07, 0x9d, 0x1f, 0x35, 0x87, 0xbe, 0x02, 0x9f,
    0x20, 0xc6, 0x60, 0x8f, 0x1c, 0x30, 0x0f, 0x96, 0xd0, 0x71, 0xd6, 0x51, 0x10, 0xdf, 0x5b, 0xf6,
    0x44, 0x2f, 0x80, 0x28, 0xb7, 0xec, 0x23, 0x59, 0x4b, 0x94, 0x0b, 0x9a, 0x74, 0xa1, 0x1f, 0xf7,
    0x9e, 0x76, 0xb4, 0xdf, 0xbb, 0x3c, 0x8c, 0x88, 0x97, 0x22, 0x56, 0x73, 0x16, 0x05, 0xac, 0xf9,
    0x4f, 0x77, 0x9d, 0x38, 0xa0, 0x6b, 0x05, 0xd2, 0xe6, 0x15, 0x01, 0xb1, 0x5c, 0xc9, 0x62, 0xa9,
    0x9b, 0x1a, 0x6a, 0x1a, 0xcf, 0xe6, 0xa8, 0xba] @ replicate 68 0"

definition test_3_key :: bytes where
  "test_3_key = [
    0xff, 0xff, 0xff, 0xff, 0xff, 0xff, 0xff, 0xff]"

definition test_3_encrypted :: bytes where
  "test_3_encrypted = [
    0x47, 0x00, 0x00, 0x90,
    0xff, 0xff, 0xff, 0xff, 0xff, 0xff, 0xff, 0xff, 0xff, 0xff, 0xff, 0xff, 0xff, 0xff, 0xff, 0xff,
    0xff, 0xff, 0xff, 0xff, 0xff, 0xff, 0xff, 0xff, 0xff, 0xff, 0xff, 0xff, 0xff, 0xff, 0xff, 0xff,
    0xff, 0xff, 0xff, 0xff, 0xff, 0xff, 0xff, 0xff, 0xff, 0xff, 0xff, 0xff, 0xff, 0xff, 0xff, 0xff,
    0xff, 0xff, 0xff, 0xff, 0xff, 0xff, 0xff, 0xff, 0xff, 0xff, 0xff, 0xff, 0xff, 0xff, 0xff, 0xff,
    0xff, 0xff, 0xff, 0xff, 0xff, 0xff, 0xff, 0xff, 0xff, 0xff, 0xff, 0xff, 0xff, 0xff, 0xff, 0xff,
    0xff, 0xff, 0xff, 0xff, 0xff, 0xff, 0xff, 0xff, 0xff, 0xff, 0xff, 0xff, 0xff, 0xff, 0xff, 0xff,
    0xff, 0xff, 0xff, 0xff, 0xff, 0xff, 0xff, 0xff, 0xff, 0xff, 0xff, 0xff, 0xff, 0xff, 0xff, 0xff,
    0xff, 0xff, 0xff, 0xff, 0xff, 0xff, 0xff, 0xff, 0xff, 0xff, 0xff, 0xff, 0xff, 0xff, 0xff, 0xff,
    0xff, 0xff, 0xff, 0xff, 0xff, 0xff, 0xff, 0xff, 0xff, 0xff, 0xff, 0xff, 0xff, 0xff, 0xff, 0xff,
    0xff, 0xff, 0xff, 0xff, 0xff, 0xff, 0xff, 0xff, 0xff, 0xff, 0xff, 0xff, 0xff, 0xff, 0xff, 0xff,
    0xff, 0xff, 0xff, 0xff, 0xff, 0xff, 0xff, 0xff, 0xff, 0xff, 0xff, 0xff, 0xff, 0xff, 0xff, 0xff,
    0xff, 0xff, 0xff, 0xff, 0xff, 0xff, 0xff, 0xff] @ replicate 68 0"

definition test_3_expected :: bytes where
  "test_3_expected = [
    0x47, 0x00, 0x00, 0x90,
    0xfe, 0x91, 0xa7, 0x2f, 0xbf, 0xb0, 0x6a, 0x54, 0xc1, 0xe4, 0x33, 0x27, 0x18, 0xd5, 0x9c, 0x43,
    0xea, 0xaa, 0x6b, 0x38, 0x5c, 0xe7, 0xae, 0xc9, 0xac, 0xec, 0xef, 0xc3, 0x51, 0x7d, 0x53, 0x47,
    0xa0, 0xa7, 0x6d, 0x73, 0x8a, 0x9d, 0x16, 0x7d, 0x05, 0x2d, 0xd6, 0x6b, 0xf4, 0x8d, 0x4b, 0x81,
    0x98, 0x2f, 0x46, 0xa5, 0x34, 0x84, 0xf3, 0x70, 0xa4, 0xe9, 0x04, 0x84, 0x7b, 0x87, 0x79, 0x3c,
    0x01, 0x25, 0xb5, 0xfc, 0x3d, 0xd0, 0x25, 0xea, 0x2f, 0x91, 0xf0, 0x3f, 0x7f, 0xd4, 0x8e, 0x1e,
    0x36, 0x83, 0x22, 0x91, 0x57, 0x92, 0x36, 0x0b, 0x44, 0xa5, 0xcc, 0x5e, 0xef, 0x44, 0x3e, 0xf8,
    0xe9, 0x7b, 0x5e, 0x0c, 0xea, 0xb2, 0x50, 0x39, 0xb7, 0xea, 0xc4, 0xfb, 0xe4, 0x37, 0xf8, 0x85,
    0xc2, 0xdc, 0x01, 0x98, 0x01, 0x2a, 0x44, 0xd3, 0x75, 0x10, 0x38, 0xf4, 0x85, 0x3e, 0xc9, 0xf7,
    0xe7, 0xe4, 0xec, 0x40, 0x3d, 0x8f, 0xa5, 0xd2, 0x8a, 0xca, 0x62, 0x03, 0x3f, 0x65, 0x28, 0x8d,
    0xf5, 0x56, 0xa7, 0xea, 0xd1, 0x0d, 0x70, 0x82, 0xbc, 0x90, 0x59, 0xf8, 0x3e, 0x08, 0xc9, 0xe1,
    0x97, 0xef, 0x82, 0x43, 0x35, 0x41, 0x3e, 0x7f, 0x00, 0x96, 0x3f, 0x90, 0xe5, 0x1e, 0x96, 0xba,
    0xce, 0x6d, 0xd2, 0x54, 0xce, 0x84, 0x76, 0x3c] @ replicate 68 0"

definition test_p_10_0_key :: bytes where
  "test_p_10_0_key = [
    0x2d, 0x11, 0x5f, 0x9d, 0x29, 0xbf, 0x7f, 0x67]"

definition test_p_10_0_encrypted :: bytes where
  "test_p_10_0_encrypted = [
    0x47, 0x00, 0x7a, 0xbe,
    0x67, 0x00, 0xff, 0xff, 0xff, 0xff, 0xff, 0xff, 0xff, 0xff, 0xff, 0xff, 0xff, 0xff, 0xff, 0xff,
    0xff, 0xff, 0xff, 0xff, 0xff, 0xff, 0xff, 0xff, 0xff, 0xff, 0xff, 0xff, 0xff, 0xff, 0xff, 0xff,
    0xff, 0xff, 0xff, 0xff, 0xff, 0xff, 0xff, 0xff, 0xff, 0xff, 0xff, 0xff, 0xff, 0xff, 0xff, 0xff,
    0xff, 0xff, 0xff, 0xff, 0xff, 0xff, 0xff, 0xff, 0xff, 0xff, 0xff, 0xff, 0xff, 0xff, 0xff, 0xff,
    0xff, 0xff, 0xff, 0xff, 0xff, 0xff, 0xff, 0xff, 0xff, 0xff, 0xff, 0xff, 0xff, 0xff, 0xff, 0xff,
    0xff, 0xff, 0xff, 0xff, 0xff, 0xff, 0xff, 0xff, 0xff, 0xff, 0xff, 0xff, 0xff, 0xff, 0xff, 0xff,
    0xff, 0xff, 0xff, 0xff, 0xff, 0xff, 0xff, 0xff, 0x71, 0xa5, 0x7b, 0x8f, 0xf9, 0x87, 0xcb, 0xac,
    0xea, 0x08, 0x0c, 0x02, 0x87, 0x7b, 0xad, 0x10, 0x40, 0x28, 0x8e, 0xd4, 0x4e, 0x62, 0xc7, 0x74,
    0xd6, 0xbb, 0x3a, 0xaa, 0xb0, 0x7b, 0x70, 0xbe, 0x06, 0xc9, 0xdc, 0x07, 0xd2, 0x2d, 0xab, 0x2d,
    0xe2, 0xc6, 0x36, 0xa6, 0xda, 0x64, 0x61, 0x15, 0xd1, 0x6a, 0x40, 0xc0, 0xa9, 0xfb, 0x3f, 0xb2,
    0x6d, 0xa5, 0x59, 0xae, 0x57, 0x88, 0x6b, 0x0e, 0x00, 0xae, 0xce, 0x64, 0xee, 0xfd, 0xb1, 0x7f,
    0x78, 0x9c, 0x12, 0x42, 0xbe, 0x30, 0x8a, 0xa3] @ replicate 68 0"

definition test_p_10_0_expected :: bytes where
  "test_p_10_0_expected = [
    0x47, 0x00, 0x7a, 0xbe,
    0x67, 0x00, 0xff, 0xff, 0xff, 0xff, 0xff, 0xff, 0xff, 0xff, 0xff, 0xff, 0xff, 0xff, 0xff, 0xff,
    0xff, 0xff, 0xff, 0xff, 0xff, 0xff, 0xff, 0xff, 0xff, 0xff, 0xff, 0xff, 0xff, 0xff, 0xff, 0xff,
    0xff, 0xff, 0xff, 0xff, 0xff, 0xff, 0xff, 0xff, 0xff, 0xff, 0xff, 0xff, 0xff, 0xff, 0xff, 0xff,
    0xff, 0xff, 0xff, 0xff, 0xff, 0xff, 0xff, 0xff, 0xff, 0xff, 0xff, 0xff, 0xff, 0xff, 0xff, 0xff,
    0xff, 0xff, 0xff, 0xff, 0xff, 0xff, 0xff, 0xff, 0xff, 0xff, 0xff, 0xff, 0xff, 0xff, 0xff, 0xff,
    0xff, 0xff, 0xff, 0xff, 0xff, 0xff, 0xff, 0xff, 0xff, 0xff, 0xff, 0xff, 0xff, 0xff, 0xff, 0xff,
    0xff, 0xff, 0xff, 0xff, 0xff, 0xff, 0xff, 0xff, 0xa7, 0xca, 0x32, 0xaf, 0x2e, 0x6a, 0xea, 0x05,
    0x39, 0x33, 0x67, 0x5d, 0xa3, 0x61, 0x0f, 0x34, 0x40, 0x6c, 0x1a, 0xb3, 0xee, 0x54, 0x64, 0xd5,
    0xa3, 0x01, 0x95, 0x87, 0x9d, 0x3d, 0x38, 0xc5, 0x82, 0x8b, 0x8d, 0xab, 0xad, 0x93, 0x0f, 0xe8,
    0xf9, 0xbd, 0x52, 0x98, 0x59, 0xb2, 0x41, 0x95, 0xcd, 0xae, 0x9b, 0x3e, 0xdf, 0xdb, 0x14, 0x9b,
    0xa9, 0x22, 0x0d, 0x2d, 0x61, 0xf5, 0xf2, 0x52, 0x83, 0x20, 0xae, 0xb8, 0x83, 0x52, 0x02, 0xee,
    0xbd, 0xd2, 0x94, 0x6c, 0x27, 0x58, 0x55, 0xd0] @ replicate 68 0"

definition test_p_1_6_key :: bytes where
  "test_p_1_6_key = [
    0x2d, 0x11, 0x5f, 0x9d, 0x29, 0xbf, 0x7f, 0x67]"

definition test_p_1_6_encrypted :: bytes where
  "test_p_1_6_encrypted = [
    0x47, 0x00, 0x7a, 0xb7,
    0xa9, 0x00, 0xff, 0xff, 0xff, 0xff, 0xff, 0xff, 0xff, 0xff, 0xff, 0xff, 0xff, 0xff, 0xff, 0xff,
    0xff, 0xff, 0xff, 0xff, 0xff, 0xff, 0xff, 0xff, 0xff, 0xff, 0xff, 0xff, 0xff, 0xff, 0xff, 0xff,
    0xff, 0xff, 0xff, 0xff, 0xff, 0xff, 0xff, 0xff, 0xff, 0xff, 0xff, 0xff, 0xff, 0xff, 0xff, 0xff,
    0xff, 0xff, 0xff, 0xff, 0xff, 0xff, 0xff, 0xff, 0xff, 0xff, 0xff, 0xff, 0xff, 0xff, 0xff, 0xff,
    0xff, 0xff, 0xff, 0xff, 0xff, 0xff, 0xff, 0xff, 0xff, 0xff, 0xff, 0xff, 0xff, 0xff, 0xff, 0xff,
    0xff, 0xff, 0xff, 0xff, 0xff, 0xff, 0xff, 0xff, 0xff, 0xff, 0xff, 0xff, 0xff, 0xff, 0xff, 0xff,
    0xff, 0xff, 0xff, 0xff, 0xff, 0xff, 0xff, 0xff, 0xff, 0xff, 0xff, 0xff, 0xff, 0xff, 0xff, 0xff,
    0xff, 0xff, 0xff, 0xff, 0xff, 0xff, 0xff, 0xff, 0xff, 0xff, 0xff, 0xff, 0xff, 0xff, 0xff, 0xff,
    0xff, 0xff, 0xff, 0xff, 0xff, 0xff, 0xff, 0xff, 0xff, 0xff, 0xff, 0xff, 0xff, 0xff, 0xff, 0xff,
    0xff, 0xff, 0xff, 0xff, 0xff, 0xff, 0xff, 0xff, 0xff, 0xff, 0xff, 0xff, 0xff, 0xff, 0xff, 0xff,
    0xff, 0xff, 0xff, 0xff, 0xff, 0xff, 0xff, 0xff, 0xff, 0xff, 0xc0, 0x5e, 0xfb, 0xc8, 0x4a, 0x63,
    0xe3, 0x3c, 0x11, 0xd9, 0xe0, 0x75, 0x8e, 0xf2] @ replicate 68 0"

definition test_p_1_6_expected :: bytes where
  "test_p_1_6_expected = [
    0x47, 0x00, 0x7a, 0xb7,
    0xa9, 0x00, 0xff, 0xff, 0xff, 0xff, 0xff, 0xff, 0xff, 0xff, 0xff, 0xff, 0xff, 0xff, 0xff, 0xff,
    0xff, 0xff, 0xff, 0xff, 0xff, 0xff, 0xff, 0xff, 0xff, 0xff, 0xff, 0xff, 0xff, 0xff, 0xff, 0xff,
    0xff, 0xff, 0xff, 0xff, 0xff, 0xff, 0xff, 0xff, 0xff, 0xff, 0xff, 0xff, 0xff, 0xff, 0xff, 0xff,
    0xff, 0xff, 0xff, 0xff, 0xff, 0xff, 0xff, 0xff, 0xff, 0xff, 0xff, 0xff, 0xff, 0xff, 0xff, 0xff,
    0xff, 0xff, 0xff, 0xff, 0xff, 0xff, 0xff, 0xff, 0xff, 0xff, 0xff, 0xff, 0xff, 0xff, 0xff, 0xff,
    0xff, 0xff, 0xff, 0xff, 0xff, 0xff, 0xff, 0xff, 0xff, 0xff, 0xff, 0xff, 0xff, 0xff, 0xff, 0xff,
    0xff, 0xff, 0xff, 0xff, 0xff, 0xff, 0xff, 0xff, 0xff, 0xff, 0xff, 0xff, 0xff, 0xff, 0xff, 0xff,
    0xff, 0xff, 0xff, 0xff, 0xff, 0xff, 0xff, 0xff, 0xff, 0xff, 0xff, 0xff, 0xff, 0xff, 0xff, 0xff,
    0xff, 0xff, 0xff, 0xff, 0xff, 0xff, 0xff, 0xff, 0xff, 0xff, 0xff, 0xff, 0xff, 0xff, 0xff, 0xff,
    0xff, 0xff, 0xff, 0xff, 0xff, 0xff, 0xff, 0xff, 0xff, 0xff, 0xff, 0xff, 0xff, 0xff, 0xff, 0xff,
    0xff, 0xff, 0xff, 0xff, 0xff, 0xff, 0xff, 0xff, 0xff, 0xff, 0x5a, 0x2c, 0xee, 0xb3, 0xde, 0x92,
    0xe7, 0xa6, 0x6c, 0xaa, 0x99, 0x84, 0xe4, 0x00] @ replicate 68 0"

subsection \<open>The program\<close>

text \<open>\<open>compare\<close> without its messages: byte 3, with the scrambling bits, may differ.\<close>

definition compare :: "bytes \<Rightarrow> bytes \<Rightarrow> nat \<Rightarrow> int" where
  "compare p1 p2 n = fold (\<lambda>i ok. if i = 3 then ok else if p1 ! i \<noteq> p2 ! i then 0 else ok) [0..<n] 1"

definition TS_PKTS_FOR_TEST :: nat where
  "TS_PKTS_FOR_TEST = 30 * 1000"

text \<open>One packet: the control words are set, the packet is copied to \<open>onebuf\<close>, decrypted and compared. \<open>J\<close> stands
  for what the local arrays of \<open>decrypt_packets\<close> hold when it is entered.\<close>

definition packet_test ::
  "junk \<Rightarrow> bytes \<Rightarrow> bytes \<Rightarrow> bytes \<Rightarrow> bytes \<Rightarrow> csa_keys_t \<times> int \<Rightarrow> csa_keys_t \<times> int" where
  "packet_test J ev od encrypted expected = (\<lambda>(keys, ok).
     (let keys = set_control_words ev od keys;
          onebuf = take 188 encrypted;
          (onebuf, cluster, n) = decrypt_packets keys J onebuf [(0, 188)]
      in (keys, ok * compare onebuf expected 188)))"

text \<open>The loop of the speed test; \<open>c\<close> counts the calls, and a loop that does not end is \<open>None\<close>.\<close>

partial_function (option) speed_loop :: "(nat \<Rightarrow> junk) \<Rightarrow> csa_keys_t \<Rightarrow> nat \<Rightarrow> bytes \<Rightarrow> nat \<Rightarrow> bytes option" where
  "speed_loop J keys c megabuf done =
     (if done < TS_PKTS_FOR_TEST
      then (case decrypt_packets keys (J c) megabuf [(188 * done, 188 * TS_PKTS_FOR_TEST)] of
              (megabuf, cluster, n) \<Rightarrow> speed_loop J keys (c + 1) megabuf (done + n))
      else Some megabuf)"

definition FFdecsa_test_main :: "(nat \<Rightarrow> junk) \<Rightarrow> csa_keys_t \<Rightarrow> int option" where
  "FFdecsa_test_main J memory =
     (let (keys, ok) = (get_key_struct memory, 1);
          (keys, ok) = packet_test (J 0) test_invalid_key test_1_key test_1_encrypted test_1_expected (keys, ok);
          (keys, ok) = packet_test (J 1) test_2_key test_invalid_key test_2_encrypted test_2_expected (keys, ok);
          (keys, ok) = packet_test (J 2) test_3_key test_invalid_key test_3_encrypted test_3_expected (keys, ok);
          (keys, ok) = packet_test (J 3) test_p_10_0_key test_invalid_key test_p_10_0_encrypted test_p_10_0_expected (keys, ok);
          (keys, ok) = packet_test (J 4) test_p_1_6_key test_invalid_key test_p_1_6_encrypted test_p_1_6_expected (keys, ok);
          megabuf = concat (map (\<lambda>i. take 188 test_2_encrypted) [0..<TS_PKTS_FOR_TEST]);
          keys = set_control_words test_2_key test_invalid_key keys
      in case speed_loop J keys 5 megabuf 0 of
           None \<Rightarrow> None
         | Some megabuf \<Rightarrow>
             (let ok = fold (\<lambda>i ok. ok * compare (drop (188 * i) megabuf) test_2_expected 188)
                         [0, 511, 512, 319, TS_PKTS_FOR_TEST - 1] ok;
                  ok = fold (\<lambda>i ok. if compare (drop (188 * i) megabuf) test_2_expected 188 = 0 then 0 else ok)
                         [0..<TS_PKTS_FOR_TEST] ok
              in Some (if ok \<noteq> 0 then 0 else 10)))"

subsection \<open>The recorded packets by the reference\<close>

text \<open>\<open>n\<close> is the start of the payload.\<close>

definition matches :: "bytes \<Rightarrow> bytes \<Rightarrow> nat \<Rightarrow> bytes \<Rightarrow> bool" where
  "matches w encrypted n expected \<longleftrightarrow>
     csa_decrypt w (key_schedule_block w 0) (drop n (take 188 encrypted)) = drop n (take 188 expected) \<and>
     take n ((take 188 encrypted)[3 := 0]) = take n ((take 188 expected)[3 := 0]) \<and>
     length w = 8 \<and> length encrypted = 256 \<and> length expected = 256 \<and> 4 \<le> n"

lemma matchesI:
  assumes "length w = 8" "ndecrypt (nkeys (map b8 w)) (map b8 w) (map b8 (drop n (take 188 encrypted))) = map b8 (drop n (take 188 expected))"
    "take n ((take 188 encrypted)[3 := 0]) = take n ((take 188 expected)[3 := 0])"
    "length encrypted = 256" "length expected = 256" "4 \<le> n"
  shows "matches w encrypted n expected"
  using assms by (simp add: matches_def ndecrypt_ref comp_def)

lemma test_1_reference:
  "ndecrypt (nkeys (map b8 test_1_key)) (map b8 test_1_key) (map b8 (drop 4 (take 188 test_1_encrypted))) =
     map b8 (drop 4 (take 188 test_1_expected))"
  by (simp add: test_1_key_def test_1_encrypted_def test_1_expected_def b8_def) (simp only: evals)

lemma test_1_matches: "matches test_1_key test_1_encrypted 4 test_1_expected"
  by (rule matchesI [OF _ test_1_reference])
    (simp_all add: test_1_key_def test_1_encrypted_def test_1_expected_def)

lemma test_2_reference:
  "ndecrypt (nkeys (map b8 test_2_key)) (map b8 test_2_key) (map b8 (drop 4 (take 188 test_2_encrypted))) =
     map b8 (drop 4 (take 188 test_2_expected))"
  by (simp add: test_2_key_def test_2_encrypted_def test_2_expected_def b8_def) (simp only: evals)

lemma test_2_matches: "matches test_2_key test_2_encrypted 4 test_2_expected"
  by (rule matchesI [OF _ test_2_reference])
    (simp_all add: test_2_key_def test_2_encrypted_def test_2_expected_def)

lemma test_3_reference:
  "ndecrypt (nkeys (map b8 test_3_key)) (map b8 test_3_key) (map b8 (drop 4 (take 188 test_3_encrypted))) =
     map b8 (drop 4 (take 188 test_3_expected))"
  by (simp add: test_3_key_def test_3_encrypted_def test_3_expected_def b8_def) (simp only: evals)

lemma test_3_matches: "matches test_3_key test_3_encrypted 4 test_3_expected"
  by (rule matchesI [OF _ test_3_reference])
    (simp_all add: test_3_key_def test_3_encrypted_def test_3_expected_def)

lemma test_p_10_0_reference:
  "ndecrypt (nkeys (map b8 test_p_10_0_key)) (map b8 test_p_10_0_key) (map b8 (drop 108 (take 188 test_p_10_0_encrypted))) =
     map b8 (drop 108 (take 188 test_p_10_0_expected))"
  by (simp add: test_p_10_0_key_def test_p_10_0_encrypted_def test_p_10_0_expected_def b8_def) (simp only: evals)

lemma test_p_10_0_matches: "matches test_p_10_0_key test_p_10_0_encrypted 108 test_p_10_0_expected"
  by (rule matchesI [OF _ test_p_10_0_reference])
    (simp_all add: test_p_10_0_key_def test_p_10_0_encrypted_def test_p_10_0_expected_def)

lemma test_p_1_6_reference:
  "ndecrypt (nkeys (map b8 test_p_1_6_key)) (map b8 test_p_1_6_key) (map b8 (drop 174 (take 188 test_p_1_6_encrypted))) =
     map b8 (drop 174 (take 188 test_p_1_6_expected))"
  by (simp add: test_p_1_6_key_def test_p_1_6_encrypted_def test_p_1_6_expected_def b8_def) (simp only: evals)

lemma test_p_1_6_matches: "matches test_p_1_6_key test_p_1_6_encrypted 174 test_p_1_6_expected"
  by (rule matchesI [OF _ test_p_1_6_reference])
    (simp_all add: test_p_1_6_key_def test_p_1_6_encrypted_def test_p_1_6_expected_def)


subsection \<open>Decrypting the recorded packets\<close>

lemma compare_1: "(\<forall>i < n. i \<noteq> 3 \<longrightarrow> p1 ! i = p2 ! i) \<Longrightarrow> compare p1 p2 n = 1"
  by (induction n) (auto simp: compare_def)

lemma compare_take: "n \<le> m \<Longrightarrow> compare (take m p1) p2 n = compare p1 p2 n"
  unfolding compare_def by (intro fold_cong) auto

lemma take_length_eq:
  assumes "take n (xs[3 := 0]) = take n (ys[3 := 0])" "i < n" "i \<noteq> 3" "n \<le> length xs" "n \<le> length ys"
  shows "xs ! i = ys ! i"
proof -
  have "take n (xs[3 := 0]) ! i = xs ! i" "take n (ys[3 := 0]) ! i = ys ! i" using assms(2-5) by simp_all
  then show ?thesis using assms(1) by metis
qed

lemma length_take_enc: "length encrypted = 256 \<Longrightarrow> length (take 188 encrypted :: bytes) = TS_SIZE"
  by simp

text \<open>A packet that matches its record and starts its payload at \<open>n\<close> is decrypted as recorded.\<close>

lemma descramble_matches:
  assumes "matches w encrypted n expected" "scrambled (take 188 encrypted)" "payload_start (take 188 encrypted) = n" "n \<le> 188"
    "k = (if odd_parity_bit (take 188 encrypted) then odd_key keys else even_key keys)"
    "k_ck k = w" "k_kk k = key_schedule_block w 0"
  shows "compare (descramble keys (take 188 encrypted)) expected 188 = 1"
proof (rule compare_1, intro allI impI)
  fix i :: nat assume i: "i < 188" "i \<noteq> 3"
  define p where "p = take 188 encrypted"
  have l: "length p = 188" "length expected = 256" "4 \<le> n" using assms(1) by (simp_all add: p_def matches_def)
  have d: "descramble keys p = take n (clear_bits p) @ csa_decrypt w (key_schedule_block w 0) (drop n p)"
    using assms(2-4,6,7) l(3) unfolding p_def [symmetric] descramble_def
    by (simp add: Let_def assms(5)[unfolded p_def [symmetric], symmetric] clear_bits_def)
  also have "csa_decrypt w (key_schedule_block w 0) (drop n p) = drop n (take 188 expected)"
    using assms(1) by (simp add: matches_def p_def)
  finally have d: "descramble keys p = take n (clear_bits p) @ drop n (take 188 expected)" .
  have "(take n (clear_bits p) @ drop n (take 188 expected)) ! i = expected ! i"
  proof (cases "i < n")
    case True
    have "p ! i = take 188 expected ! i"
      by (rule take_length_eq [of n]) (use assms(1,4) True i l in \<open>simp_all add: matches_def p_def\<close>)
    then show ?thesis using True i l assms(4) by (simp add: nth_append clear_bits_def)
  qed (use i l assms(4) in \<open>simp add: nth_append clear_bits_def\<close>)
  then show "descramble keys (take 188 encrypted) ! i = expected ! i" using d by (simp add: p_def)
qed

lemma range_apart: "sorted_wrt apart (range_packets st en)"
  unfolding range_packets_def sorted_wrt_iff_nth_less by (auto simp: apart_def)

lemma one_range_ok: "st \<le> en \<Longrightarrow> 188 dvd en - st \<Longrightarrow> en \<le> length mem \<Longrightarrow> cluster_ok mem [(st, en)]"
  by (simp add: cluster_ok_def range_apart)

lemma decrypt_one:
  assumes "length p = 188" "wf_keys keys" "junk_ok J" "scrambled p" "decrypt_packets keys J p [(0, 188)] = (p', cluster', n)"
  shows "p' = descramble keys p"
proof -
  have c: "cluster_ok p [(0, 188)]" by (rule one_range_ok) (simp_all add: assms(1))
  have as: "cluster_packets [(0, 188)] = [0]" by (simp add: range_packets_def)
  have ps: "map (\<lambda>a. pk a p) [0] = [p]" using assms(1) by (simp add: pk_def)
  have bs: "selected 0 False [p] = [True]" using assms(4) by (simp only: selected.simps Let_def) simp
  have "length p' = 188 \<and> pk 0 p' = descramble keys p"
    using decrypt_packets_spec [OF c assms(2,3,5) as [symmetric] ps [symmetric] bs [symmetric]] by (simp add: assms(1))
  then show ?thesis by (elim conjE) (simp add: pk_def)
qed

lemma wf_set_control_words:
  "wf_keys keys \<Longrightarrow> 8 \<le> length ev \<Longrightarrow> 8 \<le> length od \<Longrightarrow> wf_keys (set_control_words ev od keys)"
  by (auto simp: set_control_words_def wf_keys_def intro!: wf_intros)

lemma schedule_key_sel: "length w = 8 \<Longrightarrow> k_ck (schedule_key w 0) = w \<and> k_kk (schedule_key w 0) = key_schedule_block w 0"
  by (simp add: schedule_key_def Let_def split_def)

lemma packet_test_ok:
  assumes "junk_ok J" "wf_keys keys" "length ev = 8" "length od = 8"
    "matches w encrypted n expected" "scrambled (take 188 encrypted)" "payload_start (take 188 encrypted) = n" "n \<le> 188"
    "w = (if odd_parity_bit (take 188 encrypted) then od else ev)"
  shows "packet_test J ev od encrypted expected (keys, 1) = (set_control_words ev od keys, 1)"
    "wf_keys (set_control_words ev od keys)"
    "compare (descramble (set_control_words ev od keys) (take 188 encrypted)) expected 188 = 1"
proof -
  define p where "p = take 188 encrypted"
  have l: "length p = 188" using assms(5) by (simp add: matches_def p_def)
  show wf: "wf_keys (set_control_words ev od keys)" by (rule wf_set_control_words) (use assms in simp_all)
  show c: "compare (descramble (set_control_words ev od keys) (take 188 encrypted)) expected 188 = 1"
    by (rule descramble_matches [OF assms(5-8) refl])
      (use assms(3,4,9) in \<open>simp_all add: set_control_words_def schedule_key_sel\<close>)
  obtain p' cl m where d: "decrypt_packets (set_control_words ev od keys) J p [(0, 188)] = (p', cl, m)"
    by (metis prod_cases3)
  have "p' = descramble (set_control_words ev od keys) p"
    by (rule decrypt_one [OF l wf assms(1) _ d]) (use assms(6) in \<open>simp add: p_def\<close>)
  then show "packet_test J ev od encrypted expected (keys, 1) = (set_control_words ev od keys, 1)"
    using c d by (simp add: packet_test_def Let_def p_def)
qed

subsection \<open>The buffer of the speed test\<close>

lemma selected_replicate:
  assumes "scrambled p" "full_blocks p \<noteq> 0" "n \<le> 32" "n = 0 \<or> par = odd_parity_bit p"
  shows "selected n par (replicate m p) = replicate (min m (32 - n)) True @ replicate (m - (32 - n)) False"
  using assms(3,4)
proof (induction m arbitrary: n par)
  case (Suc m)
  show ?case
  proof (cases "n = 32")
    case True
    then show ?thesis using Suc.IH [of 32 par] Suc.prems by simp
  next
    case False
    define par' where "par' = (if n = 0 then odd_parity_bit p else par)"
    have par': "par' = odd_parity_bit p" using Suc.prems by (auto simp: par'_def)
    have "selected n par (replicate (Suc m) p) = True # selected (n + 1) par' (replicate m p)"
      using False assms(1,2) Suc.prems par' by (simp add: Let_def par'_def [symmetric])
    also have "\<dots> = True # replicate (min m (32 - (n + 1))) True @ replicate (m - (32 - (n + 1))) False"
      using Suc.IH [of "n + 1" par'] False Suc.prems par' by simp
    also have "\<dots> = replicate (Suc (min m (32 - (n + 1)))) True @ replicate (m - (32 - (n + 1))) False" by simp
    also have "Suc (min m (32 - (n + 1))) = min (Suc m) (32 - n)" using False Suc.prems by linarith
    also have "m - (32 - (n + 1)) = Suc m - (32 - n)" using False Suc.prems by linarith
    finally show ?thesis .
  qed
qed simp

definition mega_inv :: "bytes \<Rightarrow> bytes \<Rightarrow> nat \<Rightarrow> bytes \<Rightarrow> bool" where
  "mega_inv p q done mem \<longleftrightarrow> length mem = 188 * TS_PKTS_FOR_TEST \<and> done \<le> TS_PKTS_FOR_TEST \<and>
     (\<forall>i < TS_PKTS_FOR_TEST. pk (188 * i) mem = (if i < done then q else p))"

lemma mega_step:
  assumes inv: "mega_inv p (descramble keys p) dn mem" and dn: "dn < TS_PKTS_FOR_TEST"
    and "wf_keys keys" "junk_ok J" and p: "scrambled p" "full_blocks p \<noteq> 0"
    and d: "decrypt_packets keys J mem [(188 * dn, 188 * TS_PKTS_FOR_TEST)] = (mem', cluster', n)"
  shows "mega_inv p (descramble keys p) (dn + n) mem' \<and> 0 < n"
proof -
  define N where "N = TS_PKTS_FOR_TEST"
  define m where "m = N - dn"
  have m: "0 < m" using dn by (simp add: m_def N_def)
  have len: "length mem = 188 * N" using inv by (simp add: mega_inv_def N_def)
  have c: "cluster_ok mem [(188 * dn, 188 * N)]"
    by (rule one_range_ok) (use dn len in \<open>simp_all add: N_def diff_mult_distrib2 [symmetric]\<close>)
  have as: "cluster_packets [(188 * dn, 188 * N)] = map (\<lambda>i. 188 * (dn + i)) [0..<m]"
    by (simp add: range_packets_def m_def diff_mult_distrib2 [symmetric] add_mult_distrib2)
  have ps: "map (\<lambda>a. pk a mem) (map (\<lambda>i. 188 * (dn + i)) [0..<m]) = replicate m p"
  proof (rule nth_equalityI)
    fix i assume "i < length (map (\<lambda>a. pk a mem) (map (\<lambda>i. 188 * (dn + i)) [0..<m]))"
    then have i: "i < m" "dn + i < N" by (simp_all add: m_def)
    then have "pk (188 * (dn + i)) mem = p" using inv unfolding mega_inv_def N_def [symmetric] by auto
    then show "map (\<lambda>a. pk a mem) (map (\<lambda>i. 188 * (dn + i)) [0..<m]) ! i = replicate m p ! i" using i by simp
  qed simp
  define bs where "bs = selected 0 False (replicate m p)"
  have bs: "bs = replicate (min m 32) True @ replicate (m - 32) False"
    using selected_replicate [OF p, of 0 False m] by (simp add: bs_def)
  note spec = decrypt_packets_spec [OF c assms(3,4) d [folded N_def] as [symmetric] ps [symmetric] bs_def]
  have n: "n = min m 32" using spec by (simp add: bs takeWhile_append takeWhile_replicate)
  have "pk (188 * i) mem' = (if i < dn + n then descramble keys p else p)" if i: "i < N" for i
  proof (cases "i < dn")
    case True
    have "pk (188 * i) mem' = pk (188 * i) mem"
    proof (rule nth_equalityI)
      show "length (pk (188 * i) mem') = length (pk (188 * i) mem)" using spec by simp
    next
      fix x assume x: "x < length (pk (188 * i) mem')"
      then have x: "x < 188" "188 * i + x < length mem'" unfolding length_pk by linarith+
      have "188 * i + 188 \<le> 188 * dn" using True by linarith
      then have "\<forall>a \<in> set (map (\<lambda>i. 188 * (dn + i)) [0..<m]). \<not> (a \<le> 188 * i + x \<and> 188 * i + x < a + TS_SIZE)"
        using x(1) by auto
      then have "mem' ! (188 * i + x) = mem ! (188 * i + x)" using spec by blast
      then show "pk (188 * i) mem' ! x = pk (188 * i) mem ! x" using x spec by (simp add: nth_pk)
    qed
    then show ?thesis using inv i True by (simp add: mega_inv_def N_def)
  next
    case False
    define j where "j = i - dn"
    have j: "i = dn + j" "j < m" using False i by (simp_all add: j_def m_def)
    have "map (\<lambda>a. pk a mem') (map (\<lambda>i. 188 * (dn + i)) [0..<m]) =
        map2 (\<lambda>b p. if b then descramble keys p else p) bs (replicate m p)" using spec by blast
    from arg_cong [OF this, of "\<lambda>l. l ! j"]
    have "pk (188 * (dn + j)) mem' = (if bs ! j then descramble keys p else p)"
      using j(2) by (simp add: bs)
    then show ?thesis using j by (simp add: bs n nth_append)
  qed
  moreover have "dn + n \<le> N" using dn by (simp add: n m_def N_def)
  moreover have "length mem' = 188 * N" using spec len by simp
  moreover have "0 < n" unfolding n using m by simp
  ultimately show ?thesis by (simp add: mega_inv_def N_def [symmetric])
qed

lemma speed_loop_ok:
  assumes "wf_keys keys" "\<And>c. junk_ok (J c)" "scrambled p" "full_blocks p \<noteq> 0"
  shows "mega_inv p (descramble keys p) dn mem \<Longrightarrow>
    \<exists>mem'. speed_loop J keys c mem dn = Some mem' \<and> mega_inv p (descramble keys p) TS_PKTS_FOR_TEST mem'"
proof (induction "TS_PKTS_FOR_TEST - dn" arbitrary: c mem dn rule: less_induct)
  case less
  show ?case
  proof (cases "dn < TS_PKTS_FOR_TEST")
    case True
    obtain mem' cl n where d: "decrypt_packets keys (J c) mem [(188 * dn, 188 * TS_PKTS_FOR_TEST)] = (mem', cl, n)"
      by (metis prod_cases3)
    have s: "mega_inv p (descramble keys p) (dn + n) mem' \<and> 0 < n"
      by (rule mega_step [OF less.prems True assms(1,2,3,4) d])
    then have "TS_PKTS_FOR_TEST - (dn + n) < TS_PKTS_FOR_TEST - dn" using True by linarith
    from less.hyps [OF this, of mem' "c + 1"] s show ?thesis
      by (subst speed_loop.simps) (simp add: True d)
  next
    case False
    then have "dn = TS_PKTS_FOR_TEST" using less.prems by (simp add: mega_inv_def)
    then show ?thesis using less.prems by (subst speed_loop.simps) simp
  qed
qed

lemma pk_copies: "length p = 188 \<Longrightarrow> i < n \<Longrightarrow> pk (188 * i) (concat (replicate n p)) = p"
proof (induction n arbitrary: i)
  case (Suc n)
  then show ?case by (cases i) (simp_all add: pk_def)
qed simp

lemma length_copies: "length (concat (replicate n p)) = n * length p"
  by (induction n) simp_all

lemma mega_start: "length p = 188 \<Longrightarrow> mega_inv p q 0 (concat (map (\<lambda>i. p) [0..<TS_PKTS_FOR_TEST]))"
  by (simp add: mega_inv_def map_replicate_const pk_copies length_copies)

lemma mega_compare:
  assumes "mega_inv p q TS_PKTS_FOR_TEST mem" "i < TS_PKTS_FOR_TEST"
  shows "compare (drop (188 * i) mem) e 188 = compare q e 188"
proof -
  have "take 188 (drop (188 * i) mem) = q" using assms by (simp add: mega_inv_def pk_def)
  then show ?thesis using compare_take [of 188 188 "drop (188 * i) mem" e] by simp
qed

lemma fold_compare:
  "\<forall>i \<in> set is. f i = (1 :: int) \<Longrightarrow> fold (\<lambda>i ok. ok * f i) is ok = ok"
  "\<forall>i \<in> set is. f i = (1 :: int) \<Longrightarrow> fold (\<lambda>i ok. if f i = 0 then 0 else ok) is ok = (ok :: int)"
  by (induction "is") simp_all

lemma record_headers:
  "scrambled (take 188 test_1_encrypted)" "odd_parity_bit (take 188 test_1_encrypted)" "payload_start (take 188 test_1_encrypted) = 4"
  "scrambled (take 188 test_2_encrypted)" "\<not> odd_parity_bit (take 188 test_2_encrypted)" "payload_start (take 188 test_2_encrypted) = 4"
  "scrambled (take 188 test_3_encrypted)" "\<not> odd_parity_bit (take 188 test_3_encrypted)" "payload_start (take 188 test_3_encrypted) = 4"
  "scrambled (take 188 test_p_10_0_encrypted)" "\<not> odd_parity_bit (take 188 test_p_10_0_encrypted)"
  "payload_start (take 188 test_p_10_0_encrypted) = 108"
  "scrambled (take 188 test_p_1_6_encrypted)" "\<not> odd_parity_bit (take 188 test_p_1_6_encrypted)"
  "payload_start (take 188 test_p_1_6_encrypted) = 174"
  by (simp_all add: scrambled_def odd_parity_bit_def payload_start_def test_1_encrypted_def test_2_encrypted_def
      test_3_encrypted_def test_p_10_0_encrypted_def test_p_1_6_encrypted_def)

lemma key_lengths:
  "length test_invalid_key = 8" "length test_1_key = 8" "length test_2_key = 8" "length test_3_key = 8"
  "length test_p_10_0_key = 8" "length test_p_1_6_key = 8"
  by (simp_all add: test_invalid_key_def test_1_key_def test_2_key_def test_3_key_def test_p_10_0_key_def test_p_1_6_key_def)

lemma record_keys:
  "test_1_key = (if odd_parity_bit (take 188 test_1_encrypted) then test_1_key else test_invalid_key)"
  "test_2_key = (if odd_parity_bit (take 188 test_2_encrypted) then test_invalid_key else test_2_key)"
  "test_3_key = (if odd_parity_bit (take 188 test_3_encrypted) then test_invalid_key else test_3_key)"
  "test_p_10_0_key = (if odd_parity_bit (take 188 test_p_10_0_encrypted) then test_invalid_key else test_p_10_0_key)"
  "test_p_1_6_key = (if odd_parity_bit (take 188 test_p_1_6_encrypted) then test_invalid_key else test_p_1_6_key)"
  by (simp_all only: record_headers if_True if_False)

text \<open>C5: the test program of FFdecsa ends and returns 0 whatever the memory of the key structure and of the
  local arrays holds: all five recorded packets and the 30000 packets of the speed test decrypt as recorded.\<close>

theorem FFdecsa_test_passes:
  assumes "\<And>c. junk_ok (J c)"
  shows "FFdecsa_test_main J memory = Some 0"
proof -
  define k0 where "k0 = get_key_struct memory"
  define k1 where "k1 = set_control_words test_invalid_key test_1_key k0"
  define k2 where "k2 = set_control_words test_2_key test_invalid_key k1"
  define k3 where "k3 = set_control_words test_3_key test_invalid_key k2"
  define k4 where "k4 = set_control_words test_p_10_0_key test_invalid_key k3"
  define k5 where "k5 = set_control_words test_p_1_6_key test_invalid_key k4"
  define k6 where "k6 = set_control_words test_2_key test_invalid_key k5"
  have k0: "wf_keys k0" by (simp add: k0_def get_key_struct_def Let_def wf_keys_def set_control_words_def
    wf_schedule_key wf_Init_FastECM)
  have num_le: "(4 :: nat) \<le> 188" "(108 :: nat) \<le> 188" "(174 :: nat) \<le> 188" by simp_all
  note t1 = packet_test_ok [OF assms k0 key_lengths(1,2) test_1_matches record_headers(1,3) num_le(1) record_keys(1), folded k1_def]
  note t2 = packet_test_ok [OF assms t1(2) key_lengths(3,1) test_2_matches record_headers(4,6) num_le(1) record_keys(2), folded k2_def]
  note t3 = packet_test_ok [OF assms t2(2) key_lengths(4,1) test_3_matches record_headers(7,9) num_le(1) record_keys(3), folded k3_def]
  note t4 = packet_test_ok [OF assms t3(2) key_lengths(5,1) test_p_10_0_matches record_headers(10,12) num_le(2) record_keys(4), folded k4_def]
  note t5 = packet_test_ok [OF assms t4(2) key_lengths(6,1) test_p_1_6_matches record_headers(13,15) num_le(3) record_keys(5), folded k5_def]
  note t6 = packet_test_ok [OF assms t5(2) key_lengths(3,1) test_2_matches record_headers(4,6) num_le(1) record_keys(2), folded k6_def]
  define p where "p = take 188 test_2_encrypted"
  have p: "length p = 188" "scrambled p" "full_blocks p \<noteq> 0"
    using test_2_matches record_headers(4,6) by (simp_all add: p_def matches_def full_blocks_def)
  obtain mem where m: "speed_loop J k6 5 (concat (map (\<lambda>i. p) [0..<TS_PKTS_FOR_TEST])) 0 = Some mem"
    "mega_inv p (descramble k6 p) TS_PKTS_FOR_TEST mem"
    using speed_loop_ok [where c = 5 and J = J, OF t6(2) _ p(2,3) mega_start [OF p(1)]] assms by auto
  have c: "compare (drop (188 * i) mem) test_2_expected 188 = 1" if "i < TS_PKTS_FOR_TEST" for i
    using mega_compare [OF m(2) that] t6(3) by (simp add: p_def)
  have f1: "fold (\<lambda>i ok. ok * compare (drop (188 * i) mem) test_2_expected 188) [0, 511, 512, 319, TS_PKTS_FOR_TEST - 1] 1 = 1"
    by (rule fold_compare(1), intro ballI c, auto simp: TS_PKTS_FOR_TEST_def)
  have f2: "fold (\<lambda>i ok. if compare (drop (188 * i) mem) test_2_expected 188 = 0 then 0 else ok) [0..<TS_PKTS_FOR_TEST] 1 = (1 :: int)"
    by (rule fold_compare(2), intro ballI c, simp)
  show ?thesis
    using t1(1) t2(1) t3(1) t4(1) t5(1) m(1) f1 f2
    unfolding FFdecsa_test_main_def k0_def [symmetric] p_def [symmetric]
    by (simp add: Let_def k6_def [symmetric])
qed

theorem FFdecsa_test_passes_witness: "FFdecsa_test_main (\<lambda>c. junk0) keys0 = Some 0"
  by (rule FFdecsa_test_passes) (rule junk0_ok)

end
