(* ===== verification/StdText.thy ===== *)
theory StdText
  imports Prelude
begin

text \<open>
  The string functions of the C library that the programs use: \<open>printf\<close> of an \<open>int\<close>, \<open>atoi\<close> and
  \<open>strcasecmp\<close>. A C string is a \<open>string\<close> without its final 0; \<open>atoi\<close> is \<open>None\<close> where C leaves its result
  undefined.
\<close>

subsection \<open>Numbers as text\<close>

fun print_nat :: "nat \<Rightarrow> string" where
  "print_nat n = (if n < 10 then [char_of (48 + n)] else print_nat (n div 10) @ [char_of (48 + n mod 10)])"

declare print_nat.simps [simp del]

definition print_int :: "int \<Rightarrow> string" where
  "print_int v = (if v < 0 then ''-'' @ print_nat (nat (- v)) else print_nat (nat v))"

definition char_code :: "char \<Rightarrow> nat" where
  "char_code c = of_char c"

definition isdigit :: "char \<Rightarrow> bool" where
  "isdigit c \<longleftrightarrow> 48 \<le> char_code c \<and> char_code c \<le> 57"

definition isspace :: "char \<Rightarrow> bool" where
  "isspace c \<longleftrightarrow> char_code c = 32 \<or> (9 \<le> char_code c \<and> char_code c \<le> 13)"

fun digits :: "int \<Rightarrow> string \<Rightarrow> int" where
  "digits n [] = n"
| "digits n (c # s) = (if isdigit c then digits (10 * n + int (char_code c - 48)) s else n)"

definition int32 :: "int \<Rightarrow> bool" where
  "int32 v \<longleftrightarrow> - (2 ^ 31) \<le> v \<and> v < 2 ^ 31"

definition atoi :: "string \<Rightarrow> int option" where
  "atoi s =
     (let s = dropWhile isspace s;
          sign = take 1 s;
          v = digits 0 (if sign = ''-'' \<or> sign = ''+'' then drop 1 s else s);
          v = (if sign = ''-'' then - v else v)
      in if int32 v then Some v else None)"

definition tolower :: "char \<Rightarrow> char" where
  "tolower c = (if 65 \<le> char_code c \<and> char_code c \<le> 90 then char_of (char_code c + 32) else c)"

definition strcaseeq :: "string \<Rightarrow> string \<Rightarrow> bool" where
  "strcaseeq s t \<longleftrightarrow> map tolower s = map tolower t"

subsection \<open>\<open>atoi\<close> reads what \<open>printf\<close> wrote\<close>

lemma char_code_digit [simp]: "n < 10 \<Longrightarrow> char_code (char_of (48 + n)) = 48 + n" for n :: nat
  by (simp add: char_code_def)

lemma isdigit_digit [simp]: "n < 10 \<Longrightarrow> isdigit (char_of (48 + n))" for n :: nat
  by (simp add: isdigit_def)

lemma print_nat_digits: "list_all isdigit (print_nat n)"
proof (induction n rule: print_nat.induct)
  case (1 n)
  then show ?case by (subst print_nat.simps) simp
qed

lemma print_nat_not_Nil [simp]: "print_nat n \<noteq> []"
  by (subst print_nat.simps) simp

lemma digits_append: "list_all isdigit s \<Longrightarrow> digits n (s @ t) = digits (digits n s) t"
  by (induction n s rule: digits.induct) simp_all

lemma digits_print_nat: "digits 0 (print_nat n) = int n"
proof (induction n rule: print_nat.induct)
  case (1 n)
  show ?case
  proof (cases "n < 10")
    case True
    then show ?thesis by (subst print_nat.simps) simp
  next
    case False
    then have "digits 0 (print_nat n) = 10 * int (n div 10) + int (n mod 10)"
      using 1 by (subst print_nat.simps) (simp add: digits_append print_nat_digits)
    then show ?thesis by (simp add: zdiv_int zmod_int)
  qed
qed

lemma print_nat_hd: "isdigit (hd (print_nat n))"
  using print_nat_digits [of n] by (cases "print_nat n") (simp_all add: hd_Cons_tl)

lemma isdigit_not_space: "isdigit c \<Longrightarrow> \<not> isspace c"
  by (auto simp: isdigit_def isspace_def)

lemma isdigit_not_sign: "isdigit c \<Longrightarrow> c \<noteq> CHR ''-'' \<and> c \<noteq> CHR ''+''"
  by (auto simp: isdigit_def char_code_def)

lemma atoi_print_int:
  assumes "int32 v"
  shows "atoi (print_int v) = Some v"
proof -
  have nn: "digits 0 (print_nat n) = int n" "dropWhile isspace (print_nat n) = print_nat n"
    "take 1 (print_nat n) \<noteq> ''-''" "take 1 (print_nat n) \<noteq> ''+''" for n
    using print_nat_hd [of n] isdigit_not_space isdigit_not_sign digits_print_nat [of n]
    by (cases "print_nat n"; fastforce)+
  have m: "\<not> isspace (CHR ''-'')" by (simp add: isspace_def char_code_def)
  show ?thesis
  proof (cases "v < 0")
    case True
    then show ?thesis using assms nn m by (simp add: atoi_def print_int_def)
  next
    case False
    then show ?thesis using assms nn by (simp add: atoi_def print_int_def)
  qed
qed

lemma strcaseeq_refl [simp]: "strcaseeq s s"
  by (simp add: strcaseeq_def)

end
