(* ===== verification/LogicSearch.thy ===== *)
theory LogicSearch
  imports StdText
begin

text \<open>
  The tool that found the circuits of the s-boxes (logic/logic.c): it computes, for every function of
  four inputs, a formula with the fewest binary operations, by filling a table of the 65536
  truth tables level by level, and prints the formulas. A truth table is a number of 16 bits and an index
  of the table \<open>db\<close>. The progress messages of the search are left out, and so is the branch \<open>NEGATEDTOO\<close>, which is not compiled.

  The theorem says that the search ends with every function found, that the level of an entry is the least
  number of operations of any formula for it, and that the printed text is such a formula.
\<close>

subsection \<open>The table\<close>

record fun_entry =
  level :: int
  op_type :: nat
  op1 :: nat
  op2 :: nat

definition LEVEL_ALOT :: int where "LEVEL_ALOT = 1000000"

abbreviation (input) "OP_FALSE \<equiv> 0 :: nat"
abbreviation (input) "OP_TRUE \<equiv> 1 :: nat"
abbreviation (input) "OP_SRC \<equiv> 2 :: nat"
abbreviation (input) "OP_AND \<equiv> 3 :: nat"
abbreviation (input) "OP_OR \<equiv> 4 :: nat"
abbreviation (input) "OP_XOR \<equiv> 5 :: nat"

abbreviation (input) "SRC_A \<equiv> 10 :: nat"
abbreviation (input) "SRC_B \<equiv> 20 :: nat"
abbreviation (input) "SRC_C \<equiv> 30 :: nat"
abbreviation (input) "SRC_D \<equiv> 40 :: nat"

definition DB_SIZE :: nat where "DB_SIZE = 65536"

record search_state =
  db :: "fun_entry list"
  n_fun :: int

text \<open>\<open>BINARY\<close>: the bits of a number, the highest first.\<close>

definition BINARY :: "nat list \<Rightarrow> nat" where
  "BINARY bs = fold (\<lambda>(i, b) n. n OR push_bit i b) (zip (rev [0..<16]) bs) 0"

definition set_source :: "nat \<Rightarrow> nat \<Rightarrow> nat \<Rightarrow> search_state \<Rightarrow> search_state" where
  "set_source i opt src s =
     s\<lparr>db := (db s)[i := (db s ! i)\<lparr>level := 0, op_type := opt, op1 := src\<rparr>], n_fun := n_fun s + 1\<rparr>"

text \<open>The start of \<open>main\<close>, on the zeroed static table; the operand of a constant stays 0.\<close>

definition start_state :: search_state where
  "start_state =
     (let s = \<lparr>db = map (\<lambda>i. \<lparr>level = LEVEL_ALOT, op_type = 0, op1 = 0, op2 = 0\<rparr>) [0..<DB_SIZE], n_fun = 0\<rparr>;
          s = set_source 0 OP_FALSE 0 s;
          s = set_source 65535 OP_TRUE 0 s;
          s = set_source (BINARY [0,0,0,0, 0,0,0,0, 1,1,1,1, 1,1,1,1]) OP_SRC SRC_A s;
          s = set_source (BINARY [0,0,0,0, 1,1,1,1, 0,0,0,0, 1,1,1,1]) OP_SRC SRC_B s;
          s = set_source (BINARY [0,0,1,1, 0,0,1,1, 0,0,1,1, 0,0,1,1]) OP_SRC SRC_C s;
          s = set_source (BINARY [0,1,0,1, 0,1,0,1, 0,1,0,1, 0,1,0,1]) OP_SRC SRC_D s
      in s)"

subsection \<open>The search\<close>

definition try_candidate :: "nat \<Rightarrow> nat \<Rightarrow> nat \<Rightarrow> nat \<Rightarrow> search_state \<Rightarrow> search_state" where
  "try_candidate opt p1 p2 candidate s =
     (if level (db s ! candidate) = LEVEL_ALOT
      then s\<lparr>db := (db s)[candidate := \<lparr>level = level (db s ! p1) + level (db s ! p2) + 1, op_type = opt,
                                     op1 = p1, op2 = p2\<rparr>],
             n_fun := n_fun s + 1\<rparr>
      else s)"

definition try_pair :: "nat \<Rightarrow> int \<Rightarrow> nat \<Rightarrow> search_state \<Rightarrow> search_state" where
  "try_pair p1 max_p2_lev p2 s =
     (if level (db s ! p2) > max_p2_lev then s
      else try_candidate OP_XOR p1 p2 (p1 XOR p2)
             (try_candidate OP_OR p1 p2 (p1 OR p2)
               (try_candidate OP_AND p1 p2 (p1 AND p2) s)))"

definition try_p1 :: "int \<Rightarrow> nat \<Rightarrow> search_state \<Rightarrow> search_state" where
  "try_p1 l p1 s =
     (if level (db s ! p1) = LEVEL_ALOT then s
      else fold (try_pair p1 (l - level (db s ! p1) - 1)) [p1 + 1..<DB_SIZE] s)"

definition search_level :: "int \<Rightarrow> search_state \<Rightarrow> search_state" where
  "search_level l s = fold (try_p1 l) [1..<DB_SIZE] s"

fun search_levels :: "int list \<Rightarrow> search_state \<Rightarrow> search_state" where
  "search_levels [] s = s"
| "search_levels (l # ls) s =
     (let s = search_level l s in if n_fun s \<ge> 65536 then s else search_levels ls s)"

definition search :: search_state where
  "search = search_levels [0..99] start_state"

subsection \<open>The output\<close>

text \<open>The recursions over the table end in \<open>None\<close> if they do not return.\<close>

definition src_name :: "nat \<Rightarrow> string" where
  "src_name src = (if src = SRC_A then ''a'' else if src = SRC_B then ''b'' else if src = SRC_C then ''c''
     else if src = SRC_D then ''d'' else if src = 11 then ''an'' else if src = 21 then ''bn''
     else if src = 31 then ''cn'' else if src = 41 then ''dn'' else '''')"

partial_function (option) dump_element_prefix :: "fun_entry list \<Rightarrow> nat \<Rightarrow> string option" where
  "dump_element_prefix tab e =
     (if level (tab ! e) = LEVEL_ALOT then Some (''PANIC!'' @ [CHR 0x0A])
      else if op_type (tab ! e) = OP_FALSE then Some ''0''
      else if op_type (tab ! e) = OP_TRUE then Some ''1''
      else if op_type (tab ! e) = OP_SRC then Some (src_name (op1 (tab ! e)))
      else if op_type (tab ! e) \<in> {OP_AND, OP_OR, OP_XOR} then
        Option.bind (dump_element_prefix tab (op1 (tab ! e))) (\<lambda>x.
        Option.bind (dump_element_prefix tab (op2 (tab ! e))) (\<lambda>y.
        Some ((if op_type (tab ! e) = OP_AND then ''FFAND('' else if op_type (tab ! e) = OP_OR then ''FFOR(''
               else ''FFXOR('') @ x @ '','' @ y @ '')'')))
      else Some '''')"

partial_function (option) dump_element_infix :: "fun_entry list \<Rightarrow> nat \<Rightarrow> string option" where
  "dump_element_infix tab e =
     (if level (tab ! e) = LEVEL_ALOT then Some (''PANIC!'' @ [CHR 0x0A])
      else if op_type (tab ! e) = OP_FALSE then Some ''0''
      else if op_type (tab ! e) = OP_TRUE then Some ''1''
      else if op_type (tab ! e) = OP_SRC then Some (src_name (op1 (tab ! e)))
      else if op_type (tab ! e) \<in> {OP_AND, OP_OR, OP_XOR} then
        Option.bind (dump_element_infix tab (op1 (tab ! e))) (\<lambda>x.
        Option.bind (dump_element_infix tab (op2 (tab ! e))) (\<lambda>y.
        Some (''( '' @ x @ (if op_type (tab ! e) = OP_AND then ''&'' else if op_type (tab ! e) = OP_OR then ''|''
                            else ''^'') @ y @ '' )'')))
      else Some '''')"

text \<open>The bits of the truth table in groups of four, and the level in at least two places.\<close>

definition print_bits :: "nat \<Rightarrow> string" where
  "print_bits i = concat (map (\<lambda>j. (if i AND push_bit j 1 \<noteq> 0 then ''1'' else ''0'') @
     (if j mod 4 = 0 then '' '' else '''') @ (if j mod 8 = 0 then '' '' else '''')) (rev [0..<16]))"

definition print_level :: "int \<Rightarrow> string" where
  "print_level v = (let s = print_int v in replicate (2 - length s) (CHR '' '') @ s)"

definition print_line :: "string \<Rightarrow> (fun_entry list \<Rightarrow> nat \<Rightarrow> string option) \<Rightarrow> fun_entry list \<Rightarrow> nat \<Rightarrow> string option" where
  "print_line head_text dump tab i =
     map_option (\<lambda>x. head_text @ print_bits i @ '' : lev '' @ print_level (level (tab ! i)) @ '': '' @ x @ [CHR 0x0A])
       (dump tab i)"

fun print_all :: "fun_entry list \<Rightarrow> nat list \<Rightarrow> string option" where
  "print_all tab [] = Some []"
| "print_all tab (i # is) =
     (if level (tab ! i) = LEVEL_ALOT then print_all tab is
      else Option.bind (print_line ''PREFIX '' dump_element_prefix tab i) (\<lambda>x.
           Option.bind (print_line ''INFIX  '' dump_element_infix tab i) (\<lambda>y.
           map_option (\<lambda>z. x @ y @ z) (print_all tab is))))"

definition logic_output :: "string option" where
  "logic_output = print_all (db search) [0..<DB_SIZE]"

subsection \<open>Formulas\<close>

datatype formula = FFalse | FTrue | FSrc nat | FAnd formula formula | FOr formula formula | FXor formula formula

text \<open>Input 3 is \<open>a\<close>, the constant whose bits are set where bit 3 of the position is clear, and so on.\<close>

definition source :: "nat \<Rightarrow> nat" where
  "source k = [0x5555, 0x3333, 0x0f0f, 0x00ff] ! k"

primrec truth :: "formula \<Rightarrow> nat" where
  "truth FFalse = 0"
| "truth FTrue = 65535"
| "truth (FSrc k) = source k"
| "truth (FAnd f g) = truth f AND truth g"
| "truth (FOr f g) = truth f OR truth g"
| "truth (FXor f g) = truth f XOR truth g"

primrec ops :: "formula \<Rightarrow> nat" where
  "ops FFalse = 0"
| "ops FTrue = 0"
| "ops (FSrc k) = 0"
| "ops (FAnd f g) = ops f + ops g + 1"
| "ops (FOr f g) = ops f + ops g + 1"
| "ops (FXor f g) = ops f + ops g + 1"

primrec wf_formula :: "formula \<Rightarrow> bool" where
  "wf_formula FFalse = True"
| "wf_formula FTrue = True"
| "wf_formula (FSrc k) = (k < 4)"
| "wf_formula (FAnd f g) = (wf_formula f \<and> wf_formula g)"
| "wf_formula (FOr f g) = (wf_formula f \<and> wf_formula g)"
| "wf_formula (FXor f g) = (wf_formula f \<and> wf_formula g)"

primrec prefix_text :: "formula \<Rightarrow> string" where
  "prefix_text FFalse = ''0''"
| "prefix_text FTrue = ''1''"
| "prefix_text (FSrc k) = [''d'', ''c'', ''b'', ''a''] ! k"
| "prefix_text (FAnd f g) = ''FFAND('' @ prefix_text f @ '','' @ prefix_text g @ '')''"
| "prefix_text (FOr f g) = ''FFOR('' @ prefix_text f @ '','' @ prefix_text g @ '')''"
| "prefix_text (FXor f g) = ''FFXOR('' @ prefix_text f @ '','' @ prefix_text g @ '')''"

primrec infix_text :: "formula \<Rightarrow> string" where
  "infix_text FFalse = ''0''"
| "infix_text FTrue = ''1''"
| "infix_text (FSrc k) = [''d'', ''c'', ''b'', ''a''] ! k"
| "infix_text (FAnd f g) = ''( '' @ infix_text f @ ''&'' @ infix_text g @ '' )''"
| "infix_text (FOr f g) = ''( '' @ infix_text f @ ''|'' @ infix_text g @ '' )''"
| "infix_text (FXor f g) = ''( '' @ infix_text f @ ''^'' @ infix_text g @ '' )''"

text \<open>The fewest operations a function can have.\<close>

definition fewest_ops :: "nat \<Rightarrow> nat \<Rightarrow> bool" where
  "fewest_ops i n \<longleftrightarrow> (\<exists>f. wf_formula f \<and> truth f = i \<and> ops f = n) \<and> (\<forall>f. wf_formula f \<and> truth f = i \<longrightarrow> n \<le> ops f)"

subsection \<open>Every function has a formula of at most 30 operations\<close>

text \<open>Shannon's expansion over the inputs: \<open>f = f0 xor (x and (f0 xor f1))\<close>. Position \<open>i\<close> of a truth table has the
  value for the inputs whose bits are clear in \<open>i\<close>.\<close>

primrec shannon :: "nat \<Rightarrow> (nat \<Rightarrow> bool) \<Rightarrow> formula" where
  "shannon 0 t = (if t 0 then FTrue else FFalse)"
| "shannon (Suc k) t = FXor (shannon k (\<lambda>i. t (i + 2 ^ k)))
     (FAnd (FSrc k) (shannon k (\<lambda>i. t i \<noteq> t (i + 2 ^ k))))"

lemma ops_shannon: "ops (shannon k t) + 2 = 2 ^ (k + 1)"
proof (induction k arbitrary: t)
  case (Suc k)
  show ?case using Suc [of "\<lambda>i. t (i + 2 ^ k)"] Suc [of "\<lambda>i. t i \<noteq> t (i + 2 ^ k)"] by simp
qed simp

lemma wf_shannon: "k \<le> 4 \<Longrightarrow> wf_formula (shannon k t)"
  by (induction k arbitrary: t) simp_all

lemma bit_65535: "bit (65535 :: nat) i \<longleftrightarrow> i < 16"
proof -
  have "(65535 :: nat) = mask 16" by (simp add: mask_eq_exp_minus_1)
  then show ?thesis by (simp only: bit_mask_iff) simp
qed

lemma less_4: "k < 4 \<longleftrightarrow> k = 0 \<or> k = 1 \<or> k = 2 \<or> k = 3" for k :: nat
  by presburger

lemma bit_source4:
  "h < 4 \<Longrightarrow> l < 4 \<Longrightarrow> bit (source 0) (4 * h + l) \<longleftrightarrow> \<not> bit (4 * h + l) 0"
  "h < 4 \<Longrightarrow> l < 4 \<Longrightarrow> bit (source 1) (4 * h + l) \<longleftrightarrow> \<not> bit (4 * h + l) 1"
  "h < 4 \<Longrightarrow> l < 4 \<Longrightarrow> bit (source 2) (4 * h + l) \<longleftrightarrow> \<not> bit (4 * h + l) 2"
  "h < 4 \<Longrightarrow> l < 4 \<Longrightarrow> bit (source 3) (4 * h + l) \<longleftrightarrow> \<not> bit (4 * h + l) 3"
  unfolding less_4 by (elim disjE; hypsubst; simp add: source_def bit_Suc_0_iff flip: numeral_2_eq_2)+

lemma bit_source:
  assumes "k < 4" "i < 16"
  shows "bit (source k) i \<longleftrightarrow> \<not> bit i k"
proof -
  have i: "i = 4 * (i div 4) + i mod 4" "i div 4 < 4" "i mod 4 < 4" using assms(2) by simp_all
  have "k = 0 \<or> k = 1 \<or> k = 2 \<or> k = 3" using assms(1) by (simp only: less_4)
  then show ?thesis using bit_source4 [OF i(2,3), folded i(1)] by blast
qed

lemma bit_shannon: "k \<le> 4 \<Longrightarrow> i < 16 \<Longrightarrow> bit (truth (shannon k t)) i \<longleftrightarrow> t (i mod 2 ^ k)"
proof (induction k arbitrary: t)
  case (Suc k)
  have m: "i mod 2 ^ Suc k = i mod 2 ^ k + of_bool (bit i k) * 2 ^ k"
    using take_bit_Suc_from_most [of k i] unfolding take_bit_eq_mod by simp
  show ?case using Suc m bit_source [of k i] by (cases "bit i k") (auto simp: bit_xor_iff bit_and_iff)
qed (simp add: bit_65535)

lemma below_16_bits: "n < 65536 \<longleftrightarrow> take_bit 16 n = n" for n :: nat
  by (simp add: take_bit_nat_eq_self_iff)

lemma source_less: "k < 4 \<Longrightarrow> source k < 65536"
proof -
  assume "k < 4"
  then have "k = 0 \<or> k = 1 \<or> k = 2 \<or> k = 3" by linarith
  then show ?thesis by (auto simp: source_def)
qed

lemma truth_less: "wf_formula f \<Longrightarrow> truth f < 65536"
  by (induction f) (simp_all add: source_less [unfolded below_16_bits] below_16_bits take_bit_and take_bit_or take_bit_xor)

text \<open>Formulas with one truth table per number.\<close>

lemma shannon_exists:
  assumes "i < 65536"
  shows "\<exists>f. wf_formula f \<and> truth f = i \<and> ops f \<le> 30"
proof (intro exI conjI)
  let ?f = "shannon 4 (bit i)"
  show w: "wf_formula ?f" by (rule wf_shannon) simp
  show "ops ?f \<le> 30" using ops_shannon [of 4 "bit i"] by simp
  have "bit (truth ?f) n \<longleftrightarrow> bit i n" for n
  proof (cases "n < 16")
    case True
    then show ?thesis using bit_shannon [of 4 n "bit i"] by simp
  next
    case False
    have "\<not> bit m n" if "m < 65536" for m :: nat
      using that False bit_take_bit_iff [of 16 m n] unfolding below_16_bits by simp
    then show ?thesis using truth_less [OF w] assms by blast
  qed
  then show "truth ?f = i" by (simp add: bit_eq_iff)
qed

subsection \<open>The invariant of the table\<close>

definition binop :: "nat \<Rightarrow> nat \<Rightarrow> nat \<Rightarrow> nat" where
  "binop opt p q = (if opt = OP_AND then p AND q else if opt = OP_OR then p OR q else p XOR q)"

definition found :: "fun_entry list \<Rightarrow> nat \<Rightarrow> bool" where
  "found tab i \<longleftrightarrow> level (tab ! i) \<noteq> LEVEL_ALOT"

definition leaf_entry :: "fun_entry \<Rightarrow> nat \<Rightarrow> bool" where
  "leaf_entry e i \<longleftrightarrow> level e = 0 \<and>
     (op_type e = OP_FALSE \<and> i = 0 \<or> op_type e = OP_TRUE \<and> i = 65535 \<or>
      op_type e = OP_SRC \<and> (\<exists>k < 4. i = source k \<and> op1 e = [SRC_D, SRC_C, SRC_B, SRC_A] ! k))"

definition op_entry :: "fun_entry list \<Rightarrow> nat \<Rightarrow> bool" where
  "op_entry tab i \<longleftrightarrow> (let e = tab ! i; p = op1 e; q = op2 e in
     p < DB_SIZE \<and> q < DB_SIZE \<and> found tab p \<and> found tab q \<and> level e = level (tab ! p) + level (tab ! q) + 1 \<and>
     op_type e \<in> {OP_AND, OP_OR, OP_XOR} \<and> i = binop (op_type e) p q)"

definition entry_ok :: "int \<Rightarrow> fun_entry list \<Rightarrow> nat \<Rightarrow> bool" where
  "entry_ok l tab i \<longleftrightarrow> 0 \<le> level (tab ! i) \<and> level (tab ! i) \<le> l \<and> (leaf_entry (tab ! i) i \<or> op_entry tab i)"

definition leaves_found :: "fun_entry list \<Rightarrow> bool" where
  "leaves_found tab \<longleftrightarrow> (\<forall>f. wf_formula f \<and> ops f = 0 \<longrightarrow> level (tab ! truth f) = 0)"

definition table_ok :: "int \<Rightarrow> search_state \<Rightarrow> bool" where
  "table_ok l s \<longleftrightarrow> length (db s) = DB_SIZE \<and> (\<forall>i < DB_SIZE. found (db s) i \<longrightarrow> entry_ok l (db s) i) \<and>
     n_fun s = int (card {i. i < DB_SIZE \<and> found (db s) i}) \<and> leaves_found (db s)"

text \<open>A step only adds entries.\<close>

definition extends :: "search_state \<Rightarrow> search_state \<Rightarrow> bool" where
  "extends s s' \<longleftrightarrow> (\<forall>i < DB_SIZE. found (db s) i \<longrightarrow> db s' ! i = db s ! i)"

lemma extends_refl [simp]: "extends s s"
  by (simp add: extends_def)

lemma extends_trans: "extends s s' \<Longrightarrow> extends s' s'' \<Longrightarrow> extends s s''"
  by (simp add: extends_def found_def)

lemma extends_found: "extends s s' \<Longrightarrow> i < DB_SIZE \<Longrightarrow> found (db s) i \<Longrightarrow> found (db s') i"
  by (simp add: extends_def found_def)

lemma extends_entry:
  assumes "extends s s'" "i < DB_SIZE" "found (db s) i" "entry_ok l (db s) i"
  shows "entry_ok l (db s') i"
proof -
  have e: "db s' ! i = db s ! i" using assms(1-3) by (simp add: extends_def)
  show ?thesis
    using assms(4) extends_found [OF assms(1)] assms(1)
    unfolding entry_ok_def op_entry_def Let_def e extends_def by metis
qed

lemma binop_less: "p < DB_SIZE \<Longrightarrow> q < DB_SIZE \<Longrightarrow> binop opt p q < DB_SIZE"
  by (simp add: DB_SIZE_def below_16_bits binop_def take_bit_and take_bit_or take_bit_xor)

lemma leaves_zero: "leaves_found tab \<Longrightarrow> level (tab ! 0) = 0"
  unfolding leaves_found_def by (drule spec [of _ FFalse]) simp

lemma table_okD:
  assumes "table_ok l s" "i < DB_SIZE" "found (db s) i"
  shows "0 \<le> level (db s ! i)" "level (db s ! i) \<le> l"
  using assms by (simp_all add: table_ok_def entry_ok_def)

lemma table_ok_mono: "table_ok l s \<Longrightarrow> l \<le> l' \<Longrightarrow> table_ok l' s"
  by (fastforce simp: table_ok_def entry_ok_def)

subsection \<open>One pair\<close>

lemma try_candidate_ok:
  assumes ok: "table_ok l s" and l: "l \<le> 99" and p: "p < DB_SIZE" "q < DB_SIZE" "found (db s) p" "found (db s) q"
    and lev: "level (db s ! p) + level (db s ! q) + 1 \<le> l" and opt: "opt \<in> {OP_AND, OP_OR, OP_XOR}"
  shows "table_ok l (try_candidate opt p q (binop opt p q) s) \<and> extends s (try_candidate opt p q (binop opt p q) s) \<and>
    found (db (try_candidate opt p q (binop opt p q) s)) (binop opt p q)"
proof (cases "found (db s) (binop opt p q)")
  case True
  then show ?thesis using ok by (simp add: try_candidate_def found_def)
next
  case False
  define c where "c = binop opt p q"
  define v where "v = level (db s ! p) + level (db s ! q) + 1"
  define e where "e = \<lparr>level = v, op_type = opt, op1 = p, op2 = q\<rparr>"
  define s' where "s' = s\<lparr>db := (db s)[c := e], n_fun := n_fun s + 1\<rparr>"
  have c: "c < DB_SIZE" unfolding c_def by (rule binop_less [OF p(1,2)])
  have s': "try_candidate opt p q (binop opt p q) s = s'"
    using False by (simp add: try_candidate_def found_def s'_def e_def v_def c_def)
  have len: "length (db s) = DB_SIZE" using ok by (simp add: table_ok_def)
  have db: "db s' ! i = (if i = c then e else db s ! i)" if "i < DB_SIZE" for i
    using that len by (simp add: s'_def nth_list_update)
  have v: "0 \<le> v" "v \<le> l" using table_okD [OF ok] p lev by (simp_all add: v_def)
  have ext: "extends s s'" using False db by (auto simp: extends_def c_def)
  have fc: "found (db s') c" using v l db [OF c] by (simp add: found_def e_def LEVEL_ALOT_def)
  have pq: "p \<noteq> c" "q \<noteq> c" using False p by (auto simp: c_def)
  have new: "op_entry (db s') c"
    unfolding op_entry_def Let_def db [OF c] using p pq opt db [OF p(1)] db [OF p(2)]
    by (simp add: e_def v_def found_def c_def)
  have "entry_ok l (db s') i" if i: "i < DB_SIZE" "found (db s') i" for i
  proof (cases "i = c")
    case True
    then show ?thesis using new v db [OF c] by (simp add: entry_ok_def e_def)
  next
    case False
    then have "found (db s) i" using i db [OF i(1)] by (simp add: found_def)
    moreover from this have "entry_ok l (db s) i" using ok i(1) by (simp add: table_ok_def)
    ultimately show ?thesis by (rule extends_entry [OF ext i(1)])
  qed
  moreover have "n_fun s' = int (card {i. i < DB_SIZE \<and> found (db s') i})"
  proof -
    have "{i. i < DB_SIZE \<and> found (db s') i} = insert c {i. i < DB_SIZE \<and> found (db s) i}"
      using c fc db by (auto simp: found_def split: if_splits)
    moreover have "c \<notin> {i. i < DB_SIZE \<and> found (db s) i}" using False by (simp add: c_def)
    ultimately show ?thesis using ok by (simp add: table_ok_def s'_def)
  qed
  moreover have "leaves_found (db s')"
    unfolding leaves_found_def
  proof (intro allI impI)
    fix f assume f: "wf_formula f \<and> ops f = 0"
    then have "truth f < DB_SIZE" "level (db s ! truth f) = 0"
      using ok truth_less [of f] by (simp_all add: table_ok_def leaves_found_def DB_SIZE_def)
    then show "level (db s' ! truth f) = 0" using ext by (simp add: extends_def found_def LEVEL_ALOT_def)
  qed
  ultimately show ?thesis
    unfolding s' using fc ext len by (simp add: table_ok_def c_def) (simp add: s'_def)
qed

text \<open>After a pair, all three combinations are found.\<close>

definition combined :: "search_state \<Rightarrow> nat \<Rightarrow> nat \<Rightarrow> bool" where
  "combined s p q \<longleftrightarrow> (\<forall>opt. found (db s) (binop opt p q))"

lemma combined_extends: "combined s p q \<Longrightarrow> extends s s' \<Longrightarrow> p < DB_SIZE \<Longrightarrow> q < DB_SIZE \<Longrightarrow> combined s' p q"
  unfolding combined_def by (blast intro: extends_found binop_less)

lemma try_pair_ok:
  assumes ok: "table_ok l s" and l: "l \<le> 99" and p: "p < DB_SIZE" "q < DB_SIZE" "found (db s) p"
  shows "table_ok l (try_pair p (l - level (db s ! p) - 1) q s) \<and> extends s (try_pair p (l - level (db s ! p) - 1) q s) \<and>
    (level (db s ! q) \<le> l - level (db s ! p) - 1 \<longrightarrow> combined (try_pair p (l - level (db s ! p) - 1) q s) p q)"
proof (cases "level (db s ! q) \<le> l - level (db s ! p) - 1")
  case True
  have q: "found (db s) q" using True l table_okD(1) [OF ok p(1,3)] by (auto simp: found_def LEVEL_ALOT_def)
  have lev: "level (db s ! p) + level (db s ! q) + 1 \<le> l" using True by simp
  define t where "t opt = try_candidate opt p q (binop opt p q)" for opt
  have step: "table_ok l (t opt s') \<and> extends s (t opt s') \<and> extends s' (t opt s') \<and> found (db (t opt s')) (binop opt p q)"
    if "table_ok l s'" "extends s s'" "opt \<in> {OP_AND, OP_OR, OP_XOR}" for s' opt
  proof -
    have e: "db s' ! p = db s ! p" "db s' ! q = db s ! q" using that(2) p q by (simp_all add: extends_def)
    show ?thesis
      using try_candidate_ok [OF that(1) l p(1,2), of opt] p(3) q lev that(2,3) extends_trans [OF that(2)]
      by (simp add: found_def e t_def)
  qed
  define s1 s2 s3 where "s1 = t OP_AND s" and "s2 = t OP_OR s1" and "s3 = t OP_XOR s2"
  note a1 = step [OF ok, of OP_AND, folded s1_def, simplified]
  note a2 = step [of s1 OP_OR, folded s2_def, simplified]
  note a3 = step [of s2 OP_XOR, folded s3_def, simplified]
  have s3: "try_pair p (l - level (db s ! p) - 1) q s = s3"
    using True by (simp add: try_pair_def s3_def s2_def s1_def t_def binop_def)
  have "found (db s3) (binop opt p q)" for opt
  proof -
    have "found (db s3) (binop OP_AND p q)" "found (db s3) (binop OP_OR p q)" "found (db s3) (binop OP_XOR p q)"
      using a1 a2 a3 binop_less [OF p(1,2)] extends_found extends_trans by blast+
    then show ?thesis by (simp add: binop_def)
  qed
  then show ?thesis unfolding s3 combined_def using a1 a2 a3 by blast
qed (use ok in \<open>simp add: try_pair_def\<close>)

subsection \<open>One level\<close>

text \<open>A loop whose body only adds entries keeps what each round achieved.\<close>

lemma fold_achieves_all:
  "\<forall>x \<in> set xs. \<forall>s. table_ok l s \<and> extends s0 s \<longrightarrow> table_ok l (b x s) \<and> extends s (b x s) \<and> P x (b x s) \<Longrightarrow>
   \<forall>x \<in> set xs. \<forall>s s'. P x s \<and> extends s s' \<longrightarrow> P x s' \<Longrightarrow> table_ok l s \<Longrightarrow> extends s0 s \<Longrightarrow>
     table_ok l (fold b xs s) \<and> extends s (fold b xs s) \<and> (\<forall>x \<in> set xs. P x (fold b xs s))"
proof (induction xs arbitrary: s)
  case (Cons x xs)
  have b: "table_ok l (b x s)" "extends s (b x s)" "P x (b x s)" using Cons.prems by auto
  have e: "extends s0 (b x s)" using Cons.prems(4) b(2) by (rule extends_trans)
  have i1: "\<forall>x \<in> set xs. \<forall>s. table_ok l s \<and> extends s0 s \<longrightarrow> table_ok l (b x s) \<and> extends s (b x s) \<and> P x (b x s)"
    using Cons.prems(1) by (simp only: list.set ball_simps insert_iff) blast
  have i2: "\<forall>x \<in> set xs. \<forall>s s'. P x s \<and> extends s s' \<longrightarrow> P x s'"
    using Cons.prems(2) by (simp only: list.set ball_simps insert_iff) blast
  have f: "table_ok l (fold b xs (b x s)) \<and> extends (b x s) (fold b xs (b x s)) \<and> (\<forall>y \<in> set xs. P y (fold b xs (b x s)))"
    by (rule Cons.IH [OF i1 i2 b(1) e])
  moreover have "P x (fold b xs (b x s))" using Cons.prems(2) b(3) f by (meson list.set_intros(1))
  moreover have "extends s (fold b xs (b x s))" using b(2) f extends_trans by blast
  ultimately show ?case by simp
qed simp

lemma fold_achieves:
  assumes "\<And>x s. x \<in> set xs \<Longrightarrow> table_ok l s \<Longrightarrow> extends s0 s \<Longrightarrow>
      table_ok l (b x s) \<and> extends s (b x s) \<and> P x (b x s)"
    and "\<And>x s s'. x \<in> set xs \<Longrightarrow> P x s \<Longrightarrow> extends s s' \<Longrightarrow> P x s'"
    and "table_ok l s" "extends s0 s"
  shows "table_ok l (fold b xs s) \<and> extends s (fold b xs s) \<and> (\<forall>x \<in> set xs. P x (fold b xs s))"
  by (rule fold_achieves_all [OF _ _ assms(3,4)]) (use assms(1,2) in blast)+

lemma try_p1_ok:
  assumes ok: "table_ok l s" and l: "l \<le> 99" and p: "p < DB_SIZE"
  shows "table_ok l (try_p1 l p s) \<and> extends s (try_p1 l p s) \<and>
    (found (db s) p \<longrightarrow> (\<forall>q. p < q \<and> q < DB_SIZE \<and> level (db s ! p) + level (db s ! q) + 1 \<le> l \<longrightarrow> combined (try_p1 l p s) p q))"
proof (cases "found (db s) p")
  case True
  define m where "m = l - level (db s ! p) - 1"
  define P where "P q s' \<longleftrightarrow> (level (db s ! q) \<le> m \<longrightarrow> combined s' p q)" for q s'
  have "table_ok l (fold (try_pair p m) [p + 1..<DB_SIZE] s) \<and> extends s (fold (try_pair p m) [p + 1..<DB_SIZE] s) \<and>
     (\<forall>q \<in> set [p + 1..<DB_SIZE]. P q (fold (try_pair p m) [p + 1..<DB_SIZE] s))"
  proof (rule fold_achieves [OF _ _ ok extends_refl])
    fix q s' assume q: "q \<in> set [p + 1..<DB_SIZE]" and s': "table_ok l s'" "extends s s'"
    have pq: "p < DB_SIZE" "q < DB_SIZE" "found (db s') p" "db s' ! p = db s ! p"
      using p q True s'(2) by (auto simp: extends_def found_def)
    have m': "l - level (db s' ! p) - 1 = m" by (simp add: m_def pq(4))
    have "level (db s' ! q) \<le> m" if "level (db s ! q) \<le> m"
    proof -
      have "found (db s) q" using that l table_okD(1) [OF ok p True] by (auto simp: found_def LEVEL_ALOT_def m_def)
      then show ?thesis using that s'(2) pq(2) by (simp add: extends_def)
    qed
    then show "table_ok l (try_pair p m q s') \<and> extends s' (try_pair p m q s') \<and> P q (try_pair p m q s')"
      using try_pair_ok [OF s'(1) l pq(1-3)] unfolding m' P_def by blast
  next
    fix q s' s'' assume "q \<in> set [p + 1..<DB_SIZE]" "P q s'" "extends s' s''"
    then show "P q s''" using combined_extends [of s' p q s''] p by (auto simp: P_def)
  qed
  then show ?thesis using True by (auto simp: try_p1_def found_def P_def m_def [symmetric]) (simp add: m_def)
qed (use ok in \<open>simp add: try_p1_def found_def\<close>)

lemma search_level_ok:
  assumes ok: "table_ok l s" and l: "l \<le> 99"
  shows "table_ok l (search_level l s) \<and> extends s (search_level l s) \<and>
    (\<forall>p q. 1 \<le> p \<and> p < q \<and> q < DB_SIZE \<and> found (db s) p \<and> level (db s ! p) + level (db s ! q) + 1 \<le> l \<longrightarrow>
       combined (search_level l s) p q)"
proof -
  define P where "P p s' \<longleftrightarrow> (found (db s) p \<longrightarrow>
    (\<forall>q. p < q \<and> q < DB_SIZE \<and> level (db s ! p) + level (db s ! q) + 1 \<le> l \<longrightarrow> combined s' p q))" for p s'
  have "table_ok l (fold (try_p1 l) [1..<DB_SIZE] s) \<and> extends s (fold (try_p1 l) [1..<DB_SIZE] s) \<and>
     (\<forall>p \<in> set [1..<DB_SIZE]. P p (fold (try_p1 l) [1..<DB_SIZE] s))"
  proof (rule fold_achieves [OF _ _ ok extends_refl])
    fix p s' assume p: "p \<in> set [1..<DB_SIZE]" and s': "table_ok l s'" "extends s s'"
    have "combined (try_p1 l p s') p q"
      if f: "found (db s) p" and q: "p < q" "q < DB_SIZE" "level (db s ! p) + level (db s ! q) + 1 \<le> l" for q
    proof -
      have p': "p < DB_SIZE" using p by simp
      have fq: "found (db s) q" using q(3) l table_okD(1) [OF ok p' f] by (auto simp: found_def LEVEL_ALOT_def)
      have "db s' ! p = db s ! p" "db s' ! q = db s ! q" using s'(2) p' q(2) f fq by (simp_all add: extends_def)
      then show ?thesis using try_p1_ok [OF s'(1) l p'] f q by (simp add: found_def)
    qed
    then show "table_ok l (try_p1 l p s') \<and> extends s' (try_p1 l p s') \<and> P p (try_p1 l p s')"
      using try_p1_ok [OF s'(1) l, of p] p by (simp add: P_def)
  next
    fix p s' s'' assume "p \<in> set [1..<DB_SIZE]" "P p s'" "extends s' s''"
    then show "P p s''" using combined_extends [of s' p _ s''] by (auto simp: P_def)
  qed
  then show ?thesis by (auto simp: search_level_def P_def)
qed

subsection \<open>All formulas up to a number of operations\<close>

definition complete :: "int \<Rightarrow> search_state \<Rightarrow> bool" where
  "complete l s \<longleftrightarrow> (\<forall>f. wf_formula f \<and> int (ops f) \<le> l \<longrightarrow>
     found (db s) (truth f) \<and> level (db s ! truth f) \<le> int (ops f))"

lemma truth_DB: "wf_formula f \<Longrightarrow> truth f < DB_SIZE"
  using truth_less [of f] by (simp add: DB_SIZE_def)

lemma complete_extends: "complete l s \<Longrightarrow> extends s s' \<Longrightarrow> complete l s'"
  unfolding complete_def using truth_DB by (simp add: extends_def found_def)

lemma binop_trivial: "binop opt 0 q \<in> {0, q}" "binop opt p 0 \<in> {0, p}" "binop opt p p \<in> {0, p}"
  by (simp_all add: binop_def)

lemma binop_commute: "binop opt p q = binop opt q p"
  by (simp add: binop_def ac_simps)

text \<open>The formulas of the next size combine two that are found.\<close>

lemma pair_found:
  assumes ok: "table_ok l s" and l: "l \<le> 99" and c: "complete (l - 1) s"
    and gh: "wf_formula g" "wf_formula h" "int (ops g + ops h + 1) = l"
  shows "found (db (search_level l s)) (binop opt (truth g) (truth h))"
proof -
  define p q where "p = truth g" and "q = truth h"
  note sl = search_level_ok [OF ok l]
  have d: "p < DB_SIZE" "q < DB_SIZE" using gh truth_DB by (simp_all add: p_def q_def)
  have g: "found (db s) p" "level (db s ! p) \<le> int (ops g)" using c gh unfolding complete_def p_def by auto
  have h: "found (db s) q" "level (db s ! q) \<le> int (ops h)" using c gh unfolding complete_def q_def by auto
  have lev: "level (db s ! p) + level (db s ! q) + 1 \<le> l" using g h gh(3) by simp
  have z: "found (db s) 0" using leaves_zero [of "db s"] ok by (simp add: table_ok_def found_def LEVEL_ALOT_def)
  have ext: "found (db (search_level l s)) i" if "i < DB_SIZE" "found (db s) i" for i
    using sl that extends_found by blast
  have "found (db (search_level l s)) (binop opt p q)"
  proof (cases "p = 0 \<or> q = 0 \<or> p = q")
    case True
    then have "binop opt p q \<in> {0, p, q}" using binop_trivial(1) [of opt q] binop_trivial(2) [of opt p] binop_trivial(3) [of opt p] by auto
    moreover have "found (db (search_level l s)) i" if "i \<in> {0, p, q}" for i
      using that ext [of i] d z g(1) h(1) by (auto simp: DB_SIZE_def)
    ultimately show ?thesis by blast
  next
    case False
    then consider "1 \<le> p" "p < q" | "1 \<le> q" "q < p" by linarith
    then show ?thesis
    proof cases
      case 1
      then show ?thesis using sl d g(1) lev by (simp add: combined_def)
    next
      case 2
      then show ?thesis using sl d h(1) lev by (simp add: combined_def binop_commute [of opt p q] add.commute)
    qed
  qed
  then show ?thesis by (simp add: p_def q_def)
qed

lemma search_level_complete:
  assumes ok: "table_ok l s" and l: "0 \<le> l" "l \<le> 99" and c: "complete (l - 1) s"
  shows "table_ok l (search_level l s)" "complete l (search_level l s)"
proof -
  note sl = search_level_ok [OF ok l(2)]
  show t: "table_ok l (search_level l s)" using sl by blast
  have c': "complete (l - 1) (search_level l s)" using complete_extends [OF c] sl by blast
  note pf = pair_found [OF ok l(2) c]
  show "complete l (search_level l s)"
    unfolding complete_def
  proof (intro allI impI)
    fix f assume f: "wf_formula f \<and> int (ops f) \<le> l"
    show "found (db (search_level l s)) (truth f) \<and> level (db (search_level l s) ! truth f) \<le> int (ops f)"
    proof (cases "int (ops f) \<le> l - 1")
      case True
      then show ?thesis using c' f by (simp add: complete_def)
    next
      case False
      then have e: "int (ops f) = l" using f by linarith
      have "found (db (search_level l s)) (truth f)"
      proof (cases "ops f = 0")
        case True
        then show ?thesis using t f by (simp add: table_ok_def leaves_found_def found_def LEVEL_ALOT_def)
      next
        case False
        then consider g h where "f = FAnd g h" | g h where "f = FOr g h" | g h where "f = FXor g h" by (cases f) auto
        then show ?thesis
        proof cases
          case 1 then show ?thesis using pf [of g h OP_AND] f e by (simp add: binop_def)
        next
          case 2 then show ?thesis using pf [of g h OP_OR] f e by (simp add: binop_def)
        next
          case 3 then show ?thesis using pf [of g h OP_XOR] f e by (simp add: binop_def)
        qed
      qed
      moreover from this have "level (db (search_level l s) ! truth f) \<le> l"
        using table_okD(2) [OF t] f truth_DB by blast
      ultimately show ?thesis by (simp add: e)
    qed
  qed
qed

subsection \<open>The whole search\<close>

lemma sources:
  "BINARY [0,0,0,0, 0,0,0,0, 1,1,1,1, 1,1,1,1] = 0x00ff" "BINARY [0,0,0,0, 1,1,1,1, 0,0,0,0, 1,1,1,1] = 0x0f0f"
  "BINARY [0,0,1,1, 0,0,1,1, 0,0,1,1, 0,0,1,1] = 0x3333" "BINARY [0,1,0,1, 0,1,0,1, 0,1,0,1, 0,1,0,1] = 0x5555"
  by (simp_all add: BINARY_def upt_rec)

lemma init_entries:
  "length (db start_state) = DB_SIZE" "n_fun start_state = 6"
  "i < DB_SIZE \<Longrightarrow> db start_state ! i =
     (if i = 0 then \<lparr>level = 0, op_type = OP_FALSE, op1 = 0, op2 = 0\<rparr>
      else if i = 65535 then \<lparr>level = 0, op_type = OP_TRUE, op1 = 0, op2 = 0\<rparr>
      else if i = 0x00ff then \<lparr>level = 0, op_type = OP_SRC, op1 = SRC_A, op2 = 0\<rparr>
      else if i = 0x0f0f then \<lparr>level = 0, op_type = OP_SRC, op1 = SRC_B, op2 = 0\<rparr>
      else if i = 0x3333 then \<lparr>level = 0, op_type = OP_SRC, op1 = SRC_C, op2 = 0\<rparr>
      else if i = 0x5555 then \<lparr>level = 0, op_type = OP_SRC, op1 = SRC_D, op2 = 0\<rparr>
      else \<lparr>level = LEVEL_ALOT, op_type = 0, op1 = 0, op2 = 0\<rparr>)"
  unfolding start_state_def sources Let_def set_source_def
  by (simp_all add: DB_SIZE_def nth_list_update del: upt_Suc)

lemma source_cases: "k < 4 \<Longrightarrow> source k \<in> {0x5555, 0x3333, 0x0f0f, 0x00ff}"
proof -
  assume "k < 4"
  then have "k = 0 \<or> k = 1 \<or> k = 2 \<or> k = 3" by linarith
  then show ?thesis by (auto simp: source_def)
qed

lemma found_init: "i < DB_SIZE \<Longrightarrow> found (db start_state) i \<longleftrightarrow> i \<in> {0, 65535, 0x00ff, 0x0f0f, 0x3333, 0x5555}"
  by (simp add: init_entries(3) found_def LEVEL_ALOT_def)

lemma leaf_formula: "ops f = 0 \<Longrightarrow> wf_formula f \<Longrightarrow> truth f \<in> {0, 65535, 0x00ff, 0x0f0f, 0x3333, 0x5555}"
  by (cases f) (use source_cases in auto)

lemma init_ok: "table_ok 0 start_state" "complete (- 1) start_state"
proof -
  show "complete (- 1) start_state" by (simp add: complete_def)
  have src: "\<exists>k < 4. (0x00ff :: nat) = source k \<and> SRC_A = [SRC_D, SRC_C, SRC_B, SRC_A] ! k"
    "\<exists>k < 4. (0x0f0f :: nat) = source k \<and> SRC_B = [SRC_D, SRC_C, SRC_B, SRC_A] ! k"
    "\<exists>k < 4. (0x3333 :: nat) = source k \<and> SRC_C = [SRC_D, SRC_C, SRC_B, SRC_A] ! k"
    "\<exists>k < 4. (0x5555 :: nat) = source k \<and> SRC_D = [SRC_D, SRC_C, SRC_B, SRC_A] ! k"
    by (rule exI [of _ 3], simp add: source_def) (rule exI [of _ 2], simp add: source_def,
      rule exI [of _ 1], simp add: source_def, rule exI [of _ 0], simp add: source_def)
  have "entry_ok 0 (db start_state) i" if "i < DB_SIZE" "found (db start_state) i" for i
    using that src unfolding found_init [OF that(1)] entry_ok_def leaf_entry_def init_entries(3) [OF that(1)]
    by (elim insertE) simp_all
  moreover have "{i. i < DB_SIZE \<and> found (db start_state) i} = {0, 65535, 0x00ff, 0x0f0f, 0x3333, 0x5555}"
    using found_init by (auto simp: DB_SIZE_def)
  moreover have "leaves_found (db start_state)"
    unfolding leaves_found_def
  proof (intro allI impI)
    fix f assume f: "wf_formula f \<and> ops f = 0"
    then have "truth f \<in> {0, 65535, 0x00ff, 0x0f0f, 0x3333, 0x5555}" "truth f < DB_SIZE" using leaf_formula truth_DB by auto
    then show "level (db start_state ! truth f) = 0" unfolding init_entries(3) [OF \<open>truth f < DB_SIZE\<close>]
      by (elim insertE) simp_all
  qed
  ultimately show "table_ok 0 start_state" by (simp add: table_ok_def init_entries(1,2))
qed

text \<open>All functions are found by level 30, so the loop leaves early, with all of them.\<close>

definition all_found :: "search_state \<Rightarrow> bool" where
  "all_found s \<longleftrightarrow> (\<forall>i < DB_SIZE. found (db s) i)"

lemma n_fun_all: "table_ok l s \<Longrightarrow> n_fun s \<ge> 65536 \<longleftrightarrow> all_found s"
proof -
  assume ok: "table_ok l s"
  define A where "A = {i. i < DB_SIZE \<and> found (db s) i}"
  have n: "n_fun s = int (card A)" using ok by (simp add: table_ok_def A_def)
  have sub: "A \<subseteq> {..<DB_SIZE}" by (auto simp: A_def)
  then have "card A \<le> 65536" using card_mono [of "{..<DB_SIZE}" A] by (simp add: DB_SIZE_def)
  moreover have "card A = 65536 \<longleftrightarrow> A = {..<DB_SIZE}"
    using card_subset_eq [OF _ sub] by (auto simp: DB_SIZE_def)
  moreover have "A = {..<DB_SIZE} \<longleftrightarrow> all_found s" by (auto simp: A_def all_found_def)
  ultimately show ?thesis unfolding n by linarith
qed

lemma complete_30: "complete 30 s \<Longrightarrow> all_found s"
  unfolding all_found_def complete_def DB_SIZE_def using shannon_exists by fastforce

lemma search_levels_ok:
  assumes "0 \<le> l" "l \<le> 30" "table_ok l s" "complete (l - 1) s"
  shows "\<exists>m \<le> 30. table_ok m (search_levels [l..99] s) \<and> complete m (search_levels [l..99] s) \<and> all_found (search_levels [l..99] s)"
  using assms
proof (induction "nat (30 - l)" arbitrary: l s rule: less_induct)
  case less
  define s' where "s' = search_level l s"
  have ok: "table_ok l s'" "complete l s'"
    using search_level_complete [OF less.prems(3,1) _ less.prems(4)] less.prems(2) by (simp_all add: s'_def)
  have e: "search_levels [l..99] s = (if n_fun s' \<ge> 65536 then s' else search_levels [l + 1..99] s')"
    using less.prems(2) by (simp add: upto_rec1 Let_def s'_def)
  show ?case
  proof (cases "n_fun s' \<ge> 65536")
    case True
    then show ?thesis unfolding e using ok n_fun_all [OF ok(1)] less.prems(2) by auto
  next
    case False
    then have "l \<noteq> 30" using n_fun_all [OF ok(1)] complete_30 [of s'] ok(2) by auto
    then have l: "l + 1 \<le> 30" using less.prems(2) by simp
    have "\<exists>m \<le> 30. table_ok m (search_levels [l + 1..99] s') \<and> complete m (search_levels [l + 1..99] s') \<and>
        all_found (search_levels [l + 1..99] s')"
      by (rule less.hyps) (use l less.prems(1) ok table_ok_mono [OF ok(1), of "l + 1"] in simp_all)
    then show ?thesis unfolding e using False by simp
  qed
qed

lemma search_done: "\<exists>m \<le> 30. table_ok m search \<and> complete m search \<and> all_found search"
  unfolding search_def by (rule search_levels_ok) (use init_ok in simp_all)

subsection \<open>The entries as formulas\<close>

text \<open>What the output calls return for an entry.\<close>

definition entry_formula :: "fun_entry list \<Rightarrow> nat \<Rightarrow> formula \<Rightarrow> bool" where
  "entry_formula tab i f \<longleftrightarrow> wf_formula f \<and> truth f = i \<and> int (ops f) = level (tab ! i) \<and>
     dump_element_prefix tab i = Some (prefix_text f) \<and> dump_element_infix tab i = Some (infix_text f)"

lemma leaf_entry_formula:
  assumes "found tab i" "leaf_entry (tab ! i) i"
  shows "\<exists>f. entry_formula tab i f"
proof -
  have l: "level (tab ! i) \<noteq> LEVEL_ALOT" "level (tab ! i) = 0" using assms by (simp_all add: found_def leaf_entry_def)
  note d = dump_element_prefix.simps [of tab i] dump_element_infix.simps [of tab i]
  from assms(2) consider "op_type (tab ! i) = OP_FALSE" "i = 0" | "op_type (tab ! i) = OP_TRUE" "i = 65535"
    | k where "op_type (tab ! i) = OP_SRC" "k < 4" "i = source k" "op1 (tab ! i) = [SRC_D, SRC_C, SRC_B, SRC_A] ! k"
    unfolding leaf_entry_def by auto
  then show ?thesis
  proof cases
    case 1
    then have "entry_formula tab i FFalse" using l d by (simp add: entry_formula_def)
    then show ?thesis ..
  next
    case 2
    then have "entry_formula tab i FTrue" using l d by (simp add: entry_formula_def)
    then show ?thesis ..
  next
    case (3 k)
    have "src_name ([SRC_D, SRC_C, SRC_B, SRC_A] ! k) = [''d'', ''c'', ''b'', ''a''] ! k"
    proof -
      have "k = 0 \<or> k = 1 \<or> k = 2 \<or> k = 3" using 3(2) by linarith
      then show ?thesis by (elim disjE) (simp_all add: src_name_def)
    qed
    then have "entry_formula tab i (FSrc k)" using 3 l d by (simp add: entry_formula_def)
    then show ?thesis ..
  qed
qed

lemma op_entry_formula:
  assumes "found tab i" "op_entry tab i" "entry_formula tab (op1 (tab ! i)) g" "entry_formula tab (op2 (tab ! i)) h"
  shows "\<exists>f. entry_formula tab i f"
proof -
  have l: "level (tab ! i) \<noteq> LEVEL_ALOT" using assms(1) by (simp add: found_def)
  have o: "level (tab ! i) = level (tab ! op1 (tab ! i)) + level (tab ! op2 (tab ! i)) + 1"
    "i = binop (op_type (tab ! i)) (op1 (tab ! i)) (op2 (tab ! i))" "op_type (tab ! i) \<in> {OP_AND, OP_OR, OP_XOR}"
    using assms(2) by (simp_all add: op_entry_def Let_def)
  note d = dump_element_prefix.simps [of tab i] dump_element_infix.simps [of tab i]
  from o(3) consider "op_type (tab ! i) = OP_AND" | "op_type (tab ! i) = OP_OR" | "op_type (tab ! i) = OP_XOR" by auto
  then show ?thesis
  proof cases
    case 1
    then have "entry_formula tab i (FAnd g h)"
      using o(1,2) l d assms(3,4) unfolding entry_formula_def by (simp add: binop_def)
    then show ?thesis ..
  next
    case 2
    then have "entry_formula tab i (FOr g h)"
      using o(1,2) l d assms(3,4) unfolding entry_formula_def by (simp add: binop_def)
    then show ?thesis ..
  next
    case 3
    then have "entry_formula tab i (FXor g h)"
      using o(1,2) l d assms(3,4) unfolding entry_formula_def by (simp add: binop_def)
    then show ?thesis ..
  qed
qed

lemma entry_has_formula:
  assumes ok: "table_ok l s"
  shows "i < DB_SIZE \<Longrightarrow> found (db s) i \<Longrightarrow> \<exists>f. entry_formula (db s) i f"
proof (induction "nat (level (db s ! i))" arbitrary: i rule: less_induct)
  case less
  have e: "entry_ok l (db s) i" using ok less.prems by (simp add: table_ok_def)
  show ?case
  proof (cases "leaf_entry (db s ! i) i")
    case False
    then have op: "op_entry (db s) i" using e by (simp add: entry_ok_def)
    define p q where "p = op1 (db s ! i)" and "q = op2 (db s ! i)"
    have pq: "p < DB_SIZE" "q < DB_SIZE" "found (db s) p" "found (db s) q"
      "level (db s ! i) = level (db s ! p) + level (db s ! q) + 1"
      using op by (simp_all add: op_entry_def Let_def p_def q_def)
    have "0 \<le> level (db s ! p)" "0 \<le> level (db s ! q)" using table_okD(1) [OF ok] pq by blast+
    then have "nat (level (db s ! p)) < nat (level (db s ! i))" "nat (level (db s ! q)) < nat (level (db s ! i))"
      using pq(5) by linarith+
    then obtain g h where "entry_formula (db s) p g" "entry_formula (db s) q h" using less.hyps pq by blast
    then show ?thesis using op_entry_formula [OF less.prems(2) op] by (simp add: p_def q_def)
  qed (use leaf_entry_formula less.prems(2) in blast)
qed

lemma print_all_Some:
  "\<forall>i \<in> set is. found tab i \<and> (\<exists>f. entry_formula tab i f) \<Longrightarrow> print_all tab is \<noteq> None"
  by (induction "is") (auto simp: found_def print_line_def entry_formula_def)

text \<open>C34: the search of the tool ends within 31 levels with all 65536 functions of four inputs found and counted; the level
  of each entry is the least number of operations of any formula of that function, the recursive printing calls return,
  and they print in both notations a formula with that truth table and that number of operations.\<close>

theorem logic_search_minimal:
  "n_fun search = 65536 \<and> logic_output \<noteq> None \<and>
   (\<forall>i < DB_SIZE. \<exists>f. wf_formula f \<and> truth f = i \<and> level (db search ! i) = int (ops f) \<and> ops f \<le> 30 \<and>
      dump_element_prefix (db search) i = Some (prefix_text f) \<and> dump_element_infix (db search) i = Some (infix_text f) \<and>
      fewest_ops i (ops f))"
proof -
  obtain m where m: "m \<le> 30" "table_ok m search" "complete m search" "all_found search" using search_done by blast
  have found: "found (db search) i" if "i < DB_SIZE" for i using m(4) that by (simp add: all_found_def)
  have f: "\<exists>f. entry_formula (db search) i f" if "i < DB_SIZE" for i using entry_has_formula [OF m(2) that found [OF that]] .
  have "card {i. i < DB_SIZE \<and> found (db search) i} = 65536"
  proof -
    have "{i. i < DB_SIZE \<and> found (db search) i} = {..<DB_SIZE}" using found by auto
    then show ?thesis by (simp add: DB_SIZE_def)
  qed
  then have n: "n_fun search = 65536" using m(2) by (simp add: table_ok_def)
  have out: "logic_output \<noteq> None" unfolding logic_output_def by (rule print_all_Some) (use f found in auto)
  have "\<exists>f. wf_formula f \<and> truth f = i \<and> level (db search ! i) = int (ops f) \<and> ops f \<le> 30 \<and>
      dump_element_prefix (db search) i = Some (prefix_text f) \<and> dump_element_infix (db search) i = Some (infix_text f) \<and>
      fewest_ops i (ops f)" if i: "i < DB_SIZE" for i
  proof -
    obtain f where f: "entry_formula (db search) i f" using f [OF i] by blast
    have le: "level (db search ! i) \<le> m" using table_okD(2) [OF m(2) i found [OF i]] .
    have "ops f \<le> ops g" if g: "wf_formula g" "truth g = i" for g
    proof (cases "int (ops g) \<le> m")
      case True
      then have "level (db search ! i) \<le> int (ops g)" using m(3) g by (auto simp: complete_def)
      then show ?thesis using f by (simp add: entry_formula_def)
    qed (use f le in \<open>simp add: entry_formula_def\<close>)
    then have "fewest_ops i (ops f)" using f unfolding fewest_ops_def entry_formula_def by blast
    then show ?thesis using f le m(1) unfolding entry_formula_def by (intro exI [of _ f]) simp
  qed
  then show ?thesis using n out by blast
qed

theorem logic_search_minimal_witness:
  "\<exists>f. truth f = 0x0ff0 \<and> dump_element_infix (db search) 0x0ff0 = Some (infix_text f) \<and> fewest_ops 0x0ff0 (ops f)"
proof -
  have "0x0ff0 < DB_SIZE" by (simp add: DB_SIZE_def)
  then show ?thesis using logic_search_minimal by blast
qed

end
