(* ===== verification/System.thy ===== *)
theory System
  imports DecsaSpec Socket CamSlot
begin

text \<open>
  The plugin as one machine: the objects \<open>decsa\<close>, \<open>filter\<close> and \<open>capmt\<close> and the fill controls of the CAM
  slots, and the steps the socket thread, VDR's CAM handling and the receivers make on them. Each step runs
  the handlers of the components in the order the code calls them. \<open>None\<close> is an access outside a buffer or
  an array, as checked by the handlers. FFdecsa is in its 32-bit mode. What the plugin is given (time, memory, OpenSSL, the other threads during a wait) is in \<open>host\<close>.
\<close>

subsection \<open>State\<close>

record 'c plugin =
  pl_decsa :: "'c decsa"
  pl_pidmap :: pidmap
  pl_pmt :: "pmtobj list"
  pl_slots :: "(int \<times> fill_control) list"

record 'c host =
  h_evp :: "'c evp"
  h_env :: "'c wait_env"
  h_keys :: csa_keys_t
  h_junk :: junk
  h_fastecm :: bool
  h_off :: int
  h_info :: bytes

datatype effect = To_oscam bytes | To_device "bytes option"

subsection \<open>The socket thread\<close>

text \<open>\<open>cDvbapiFilter::SetFilter\<close> with its call into \<open>DeCSA\<close>.\<close>

definition SetFilter ::
  "csa_keys_t \<Rightarrow> u8 \<Rightarrow> int \<Rightarrow> int \<Rightarrow> u8 \<Rightarrow> u8 \<Rightarrow> (bytes \<times> bytes) option \<Rightarrow> 'c plugin \<Rightarrow> 'c plugin option" where
  "SetFilter junk adapter_index pid start demux num fm s =
     (if 0 \<le> pid \<and> pid < MAX_CSA_PID then
        do { d \<leftarrow> (if num = 1 then SetDVBAPIPid junk (int_of adapter_index) (int_of demux) pid (pl_decsa s)
                   else Some (pl_decsa s));
             Some (s\<lparr>pl_decsa := d, pl_pidmap := SetFilter_pidmap (pl_pidmap s) adapter_index pid start demux num fm\<rparr>) }
      else Some s)"

definition on_decsa :: "('c decsa \<Rightarrow> 'c decsa) \<Rightarrow> 'c plugin \<Rightarrow> 'c plugin" where
  "on_decsa f s = s\<lparr>pl_decsa := f (pl_decsa s)\<rparr>"

definition call_decsa :: "('c decsa \<Rightarrow> 'c decsa option) \<Rightarrow> 'c plugin \<Rightarrow> ('c plugin \<times> effect list) option" where
  "call_decsa f s = do { d \<leftarrow> f (pl_decsa s); Some (s\<lparr>pl_decsa := d\<rparr>, []) }"

fun run_call :: "'c host \<Rightarrow> u64 \<Rightarrow> call \<Rightarrow> 'c plugin \<Rightarrow> ('c plugin \<times> effect list) option" where
  "run_call h now (Call_SetCaPid a pid index) s = call_decsa (SetCaPid a pid index) s"
| "run_call h now (Call_SetAes index used) s = call_decsa (SetAes index used) s"
| "run_call h now (Call_SetDescr index parity cw a) s =
     call_decsa (SetDescr (h_keys h) now (pl_pidmap s) index parity cw a) s"
| "run_call h now (Call_SetDescrAes index parity cw) s = call_decsa (SetDescrAes (h_evp h) index parity cw) s"
| "run_call h now (Call_SetAlgo index algo) s = call_decsa (SetAlgo index algo) s"
| "run_call h now (Call_SetCipherMode index mode) s = call_decsa (SetCipherMode index mode) s"
| "run_call h now (Call_SetData index parity ty data) s =
     call_decsa (SetData (h_evp h) index parity ty (of_nat (length data)) data) s"
| "run_call h now (Call_SetFilter a pid start demux num fm) s =
     do { s' \<leftarrow> SetFilter (h_keys h) a pid start demux num fm s; Some (s', []) }"
| "run_call h now (Call_SetVersion v) s = Some (s, [])"
| "run_call h now (Call_UpdateEcmInfo a sid caid pid prid t cs re fr pr hops) s =
     Some (s\<lparr>pl_pmt := UpdateEcmInfo (pl_pmt s) (int_of a) (uint sid) caid pid prid t cs re fr pr hops\<rparr>, [])"
| "run_call h now Call_SendClientInfo s = Some (s, [To_oscam (client_info_msg (h_info h))])"
| "run_call h now Call_SendAll s =
     do { ms \<leftarrow> SendAll (h_off h) (pl_pmt s); Some (s, map To_oscam ms) }"
| "run_call h now Call_StopAllFilters s = Some (s\<lparr>pl_pidmap := StopAllFilters (pl_pidmap s)\<rparr>, [])"

fun run_calls :: "'c host \<Rightarrow> u64 \<Rightarrow> call list \<Rightarrow> 'c plugin \<Rightarrow> ('c plugin \<times> effect list) option" where
  "run_calls h now [] s = Some (s, [])"
| "run_calls h now (c # cs) s =
     do { (s1, os1) \<leftarrow> run_call h now c s; (s2, os2) \<leftarrow> run_calls h now cs s1; Some (s2, os1 @ os2) }"

subsection \<open>The CAM slots\<close>

text \<open>What \<open>Process\<close> asks of \<open>CAPMT\<close> and \<open>DeCSA\<close>; its frames stay with the CI adapter.\<close>

fun run_slot_out :: "'c host \<Rightarrow> slot_out \<Rightarrow> 'c plugin \<Rightarrow> ('c plugin \<times> effect list) option" where
  "run_slot_out h (Out_SIDRequest cardidx sid ca_lm vdr) s =
     do { (pmt, ms) \<leftarrow> ProcessSIDRequest (h_off h) (pl_pmt s) cardidx sid ca_lm vdr;
          Some (s\<lparr>pl_pmt := pmt\<rparr>, map To_oscam ms) }"
| "run_slot_out h (Out_Init_Parity cardidx sid slot del) s =
     call_decsa (Init_Parity cardidx sid slot del) s"
| "run_slot_out h (Out_frame f) s = Some (s, [])"
| "run_slot_out h Out_clear s = Some (s, [])"

fun run_requests :: "'c host \<Rightarrow> slot_out list \<Rightarrow> 'c plugin \<Rightarrow> ('c plugin \<times> effect list) option" where
  "run_requests h [] s = Some (s, [])"
| "run_requests h (x # xs) s =
     do { (s1, os1) \<leftarrow> run_slot_out h x s; (s2, os2) \<leftarrow> run_requests h xs s1; Some (s2, os1 @ os2) }"

text \<open>\<open>SCCAMSlot::Decrypt\<close> on the \<open>Count\<close> bytes at the address \<open>addr\<close>. The first result is the buffer as the
  call leaves it when it returns \<open>Data\<close> with \<open>Count = TS_SIZE\<close>, and \<open>None\<close> when it returns \<open>NULL\<close> with
  \<open>Count = 0\<close>.\<close>

definition slot_Decrypt ::
  "'c host \<Rightarrow> int \<Rightarrow> int \<Rightarrow> bytes \<Rightarrow> fill_control \<Rightarrow> 'c plugin
     \<Rightarrow> (bytes option \<times> fill_control \<times> 'c plugin \<times> bytes list) option" where
  "slot_Decrypt h cardIndex addr data fc s =
     (let (fc, can) = CanProcess fc addr (int (length data)) in
      if \<not> can then Some (None, fc, s, [])
      else
        do { b \<leftarrow> rd data 3;
             if b AND 0xC0 \<noteq> 0 then
               do { (ok, data, d) \<leftarrow> DeCSA_Decrypt (h_evp h) (h_env h) (h_keys h) (h_junk h) (h_fastecm h) (Some (pl_pmt s))
                       (u8_of cardIndex) data (int (length data)) True (pl_decsa s);
                    Some (Some data, fc, s\<lparr>pl_decsa := d\<rparr>, []) }
             else
               do { (m, ms) \<leftarrow> Analyze (pl_pmt s) (pl_pidmap s) (u8_of cardIndex) data;
                    Some (Some data, fc, s\<lparr>pl_pidmap := m\<rparr>, ms) } })"

definition StartDecrypting :: "fill_control \<Rightarrow> fill_control" where
  "StartDecrypting fc = fill_Reset fc"

definition StopDecrypting :: "'c plugin \<Rightarrow> 'c plugin" where
  "StopDecrypting s = on_decsa CancelWait s"

subsection \<open>Steps\<close>

text \<open>\<open>Tpdu i inp st data\<close> is a TPDU of VDR for slot \<open>i\<close>, whose state \<open>st\<close> the CI adapter keeps (theory \<open>CiAdapter\<close>);
  \<open>From_slot\<close> is a single request of a slot.\<close>

datatype event =
    Message u64 oscam_msg
  | Connected u64
  | Closed_by_oscam u64
  | From_slot slot_out
  | Tpdu nat slot_input slot_state bytes
  | Decrypt_at nat int bytes
  | Start_slot nat
  | Stop_slot nat

fun step :: "'c host \<Rightarrow> event \<Rightarrow> 'c plugin \<Rightarrow> ('c plugin \<times> effect list) option" where
  "step h (Message now msg) s = run_calls h now (calls_of msg) s"
| "step h (Connected now) s = run_calls h now [Call_SendClientInfo, Call_SendAll] s"
| "step h (Closed_by_oscam now) s = run_calls h now [Call_StopAllFilters] s"
| "step h (From_slot out) s = run_slot_out h out s"
| "step h (Tpdu i inp st data) s = do { (st', outs) \<leftarrow> Process inp st data; run_requests h outs s }"
| "step h (Decrypt_at i addr data) s =
     (case pl_slots s ! i of
        (cardidx, fc) \<Rightarrow>
          do { (res, fc, s, ms) \<leftarrow> slot_Decrypt h cardidx addr data fc s;
               Some (s\<lparr>pl_slots := (pl_slots s)[i := (cardidx, fc)]\<rparr>, map To_oscam ms @ [To_device res]) })"
| "step h (Start_slot i) s =
     Some (s\<lparr>pl_slots := (pl_slots s)[i := (fst (pl_slots s ! i), StartDecrypting (snd (pl_slots s ! i)))]\<rparr>, [])"
| "step h (Stop_slot i) s = Some (StopDecrypting s, [])"

fun steps :: "'c host \<Rightarrow> event list \<Rightarrow> 'c plugin \<Rightarrow> ('c plugin \<times> effect list) option" where
  "steps h [] s = Some (s, [])"
| "steps h (e # es) s = do { (s1, os1) \<leftarrow> step h e s; (s2, os2) \<leftarrow> steps h es s1; Some (s2, os1 @ os2) }"

subsection \<open>Invariant\<close>

definition slot_ok :: "int \<times> fill_control \<Rightarrow> bool" where
  "slot_ok slot \<longleftrightarrow> 0 \<le> fst slot \<and> fst slot < 256 \<and> wf_fill (snd slot)"

definition wf_plugin :: "'c plugin \<Rightarrow> bool" where
  "wf_plugin s \<longleftrightarrow> wf_decsa (pl_decsa s) \<and> wf_pidmap (pl_pidmap s) \<and> wf_pmt (pl_pmt s) \<and>
     list_all slot_ok (pl_slots s)"

definition host_ok :: "'c host \<Rightarrow> bool" where
  "host_ok h \<longleftrightarrow> evp_ok (h_evp h) \<and> env_ok (h_env h) \<and> junk_ok (h_junk h)"

text \<open>What the network code (\<open>messages_understood\<close>), the slot (\<open>process_ca_pmt\<close>) and VDR guarantee for a step.\<close>

fun event_ok :: "'c plugin \<Rightarrow> event \<Rightarrow> bool" where
  "event_ok s (Message now msg) \<longleftrightarrow> msg_ok msg"
| "event_ok s (From_slot (Out_SIDRequest cardidx sid ca_lm vdr)) \<longleftrightarrow> vdr = [] \<or> 6 \<le> length vdr"
| "event_ok s (Tpdu i inp st data) \<longleftrightarrow> i < length (pl_slots s) \<and> sl_card st = fst (pl_slots s ! i)"
| "event_ok s (Decrypt_at i addr data) \<longleftrightarrow> i < length (pl_slots s) \<and> TS_SIZE \<le> length data"
| "event_ok s (Start_slot i) \<longleftrightarrow> i < length (pl_slots s)"
| "event_ok s _ \<longleftrightarrow> True"

text \<open>The steps that leave an array or a buffer: a filter 1 for an adapter that does not exist, an IV for a
  negative key index, a parity reset for a card that does not exist, asked for by itself or in the answer to a
  TPDU, and a TPDU that ends inside one of its two length fields.\<close>

definition is_reset :: "slot_out \<Rightarrow> bool" where
  "is_reset out \<longleftrightarrow> (case out of Out_Init_Parity cardidx sid slot del \<Rightarrow> True | _ \<Rightarrow> False)"

fun overruns :: "event \<Rightarrow> bool" where
  "overruns (Message now (M_SetFilter a demux num pid f m rest)) \<longleftrightarrow>
     uint pid < MAX_CSA_PID \<and> num = 1 \<and> 64 \<le> uint a \<and> uint demux < 32"
| "overruns (Message now (M_StopFilter a demux num pid)) \<longleftrightarrow>
     uint pid < MAX_CSA_PID \<and> num = 1 \<and> 64 \<le> uint a \<and> uint demux < 32"
| "overruns (Message now (M_SetData a index parity ty data)) \<longleftrightarrow> ty = CA_DATA_IV \<and> length data = 16 \<and> sint index < 0"
| "overruns (From_slot (Out_Init_Parity cardidx sid slot del)) \<longleftrightarrow> 64 \<le> cardidx \<and> (0 \<le> sid \<or> 0 \<le> slot)"
| "overruns (Tpdu i inp st data) \<longleftrightarrow> tpdu_cut data \<or>
     64 \<le> sl_card st \<and> (\<exists>st' outs. Process inp st data = Some (st', outs) \<and> list_ex is_reset outs)"
| "overruns _ \<longleftrightarrow> False"

end
