(* ===== verification/SystemInv.thy ===== *)
theory SystemInv
  imports System
begin

text \<open>
  Every step of the plugin keeps its invariant, and the steps that leave an array are exactly those of
  \<open>overruns\<close>; first the operations one by one, then the steps, then runs.
\<close>

subsection \<open>The operations keep the invariant\<close>

text \<open>When a service is stopped, only the first of its pids is taken out of the map: the reset of the key index has
  cleared the service id that the others are found by, and they stay mapped to the index.\<close>

lemma walk_finds_none:
  "slot < 0 \<Longrightarrow> \<forall>(pid, i) \<in> set es. unat i < length keys \<and> Get_FastECM_SID (keys ! unat i) \<noteq> sid \<Longrightarrow>
     init_parity_walk sid slot bdelete es keys = Some (keys, None)"
  by (induction es) (auto simp: Let_def rd_simps)

lemma Init_Parity_erases_one:
  assumes "0 < sid" "slot < 0" "\<forall>(pid, j) \<in> set es. j = i" "unat i < length keys" "Get_FastECM_SID (keys ! unat i) = sid"
  shows "map_option fst (init_parity_loop sid slot True ((pid, i) # es) keys) = Some es"
proof -
  define keys' where "keys' = keys[unat i := Init_Parity2 True (keys ! unat i)]"
  have "Get_FastECM_SID (keys' ! unat i) = 0" "length keys' = length keys"
    using assms(4) by (auto simp: keys'_def Get_FastECM_SID_def Init_Parity2_def on_fastecm_def Init_FastECM_def split: option.splits)
  then have n: "init_parity_walk sid slot True es keys' = Some (keys', None)"
    using assms(1-4) by (intro walk_finds_none) auto
  have "init_parity_walk sid slot True ((pid, i) # es) keys = Some (keys', Some pid)"
    using assms(1,4,5) by (simp add: Let_def keys'_def rd_simps)
  then have "init_parity_loop sid slot True ((pid, i) # es) keys = init_parity_loop sid slot True es keys'"
    by (subst init_parity_loop.simps) simp
  also have "\<dots> = Some (es, keys')" by (subst init_parity_loop.simps) (simp add: n)
  finally show ?thesis by simp
qed

lemma wf_erase_filter: "wf_filters fs \<Longrightarrow> erase_filter demux num fs = Some fs' \<Longrightarrow> wf_filters fs'"
  by (auto simp: erase_filter_eq wf_filters_def distinct_map_filter split: if_splits)

lemma wf_SetFilter_pidmap:
  assumes m: "wf_pidmap m" and fm: "\<And>f k. fm = Some (f, k) \<Longrightarrow> length f = 16 \<and> length k = 16"
    and pid: "0 \<le> pid" "pid < MAX_CSA_PID"
  shows "wf_pidmap (SetFilter_pidmap m a pid start demux num fm)"
proof -
  consider f k where "start = 1" "fm = Some (f, k)" | "start = 0" | "start \<noteq> 0 \<and> (start \<noteq> 1 \<or> fm = None)"
    by (cases fm) auto
  then show ?thesis
  proof cases
    case (1 f k)
    then show ?thesis
      using fm [OF 1(2)] m pid unfolding 1
      by (subst SetFilter_pidmap_start)
        (auto intro!: wf_pidmap_put wf_pf_with_filters wf_pf_found wf_set_filter wf_filters_found simp: set_filter_nonempty)
  next
    case 2
    show ?thesis
    proof (cases "sm_find m (int_of a, pid)")
      case (Some pf)
      note pf = wf_pidmap_find [OF m Some]
      then have "wf_filters (pf_filters pf)" by (simp add: wf_pf_def)
      then have "wf_filters fs" if "erase_filter demux num (pf_filters pf) = Some fs" for fs
        using that by (rule wf_erase_filter)
      then show ?thesis
        using m pf unfolding 2 SetFilter_pidmap_stop [OF pid] Some
        by (auto split: option.split list.split intro!: wf_pidmap_put wf_pidmap_erase wf_pf_with_filters)
    qed (use 2 pid m in \<open>simp add: SetFilter_pidmap_stop\<close>)
  next
    case 3
    then show ?thesis using m by (simp add: SetFilter_pidmap_ignored)
  qed
qed

lemma ProcessSIDRequest_ok:
  assumes "wf_pmt pmt" "vdr = [] \<or> 6 \<le> length vdr"
  obtains pmt' ms where "ProcessSIDRequest off pmt a sid ca_lm vdr = Some (pmt', ms)" "wf_pmt pmt'"
proof (cases "sid = 0")
  case True
  then show ?thesis using that assms(1) by (simp add: ProcessSIDRequest_sid0)
next
  case False
  consider "vdr = [] \<or> ca_lm \<noteq> 3 \<and> ca_lm \<noteq> 4" | "ca_lm = 3 \<or> ca_lm = 4" "6 \<le> length vdr" "6 + cmd_len vdr \<le> length vdr"
    | "ca_lm = 3 \<or> ca_lm = 4" "6 \<le> length vdr" "length vdr < 6 + cmd_len vdr"
    using assms(2) by force
  then show ?thesis
  proof cases
    case 1
    show ?thesis by (rule that [OF ProcessSIDRequest_stop [OF assms(1) False 1]]) (rule wf_others [OF assms(1)])
  next
    case 2
    show ?thesis by (rule that [OF ProcessSIDRequest_add [OF assms(1) False 2]]) (rule wf_insert [OF assms(1) 2(3)])
  next
    case 3
    show ?thesis by (rule that [OF ProcessSIDRequest_short [OF assms(1) False 3]]) (rule wf_others [OF assms(1)])
  qed
qed

subsection \<open>One step\<close>

lemma wf_pluginD: "wf_plugin s \<Longrightarrow> wf_decsa (pl_decsa s)" "wf_plugin s \<Longrightarrow> wf_pidmap (pl_pidmap s)"
  "wf_plugin s \<Longrightarrow> wf_pmt (pl_pmt s)"
  by (simp_all add: wf_plugin_def)

lemma slot_ok_at: "wf_plugin s \<Longrightarrow> i < length (pl_slots s) \<Longrightarrow> slot_ok (pl_slots s ! i)"
  by (simp add: wf_plugin_def list_all_length)

lemma list_all_update: "list_all P xs \<Longrightarrow> P x \<Longrightarrow> list_all P (xs[i := x])"
  using set_update_subset_insert [of xs i x] by (auto simp: list_all_iff)

lemma on_decsa_fields [simp]: "pl_decsa (on_decsa f s) = f (pl_decsa s)" "pl_pidmap (on_decsa f s) = pl_pidmap s"
  "pl_pmt (on_decsa f s) = pl_pmt s" "pl_slots (on_decsa f s) = pl_slots s"
  by (simp_all add: on_decsa_def)

lemma wf_on_decsa: "wf_plugin s \<Longrightarrow> (wf_decsa (pl_decsa s) \<Longrightarrow> wf_decsa (f (pl_decsa s))) \<Longrightarrow> wf_plugin (on_decsa f s)"
  by (simp add: wf_plugin_def on_decsa_def)

lemma SetFilter_step:
  assumes "wf_plugin s" "\<And>f k. fm = Some (f, k) \<Longrightarrow> length f = 16 \<and> length k = 16" "0 \<le> pid"
  shows "SetFilter junk a pid start demux num fm s = None \<longleftrightarrow>
      pid < MAX_CSA_PID \<and> num = 1 \<and> 64 \<le> uint a \<and> uint demux < 32"
    "SetFilter junk a pid start demux num fm s = Some s' \<Longrightarrow> wf_plugin s' \<and> pl_slots s' = pl_slots s"
proof -
  have d: "wf_decsa (pl_decsa s)" using assms(1) by (rule wf_pluginD)
  note n = SetDVBAPIPid_None [OF d, of junk "uint a" "uint demux" pid]
    and w = returns_SetDVBAPIPid [OF d, of "uint a" pid "uint demux" junk] and m = wf_SetFilter_pidmap [OF _ assms(2,3)]
  show "SetFilter junk a pid start demux num fm s = None \<longleftrightarrow> pid < MAX_CSA_PID \<and> num = 1 \<and> 64 \<le> uint a \<and> uint demux < 32"
    using assms(3) n by (cases "SetDVBAPIPid junk (uint a) (uint demux) pid (pl_decsa s)") (auto simp: SetFilter_def)
  show "SetFilter junk a pid start demux num fm s = Some s' \<Longrightarrow> wf_plugin s' \<and> pl_slots s' = pl_slots s"
    using assms(1) n w m by (auto simp: SetFilter_def wf_plugin_def split: if_splits Option.bind_splits elim!: returnsE)
qed

text \<open>What one call does: it fails exactly under a condition, and keeps the invariant and the slots.\<close>

definition step_good :: "bool \<Rightarrow> 'c plugin \<Rightarrow> ('c plugin \<times> effect list) option \<Rightarrow> bool" where
  "step_good bad s r \<longleftrightarrow> (r = None \<longleftrightarrow> bad) \<and>
     (\<forall>s' os. r = Some (s', os) \<longrightarrow> wf_plugin s' \<and> map fst (pl_slots s') = map fst (pl_slots s))"

lemma step_good_Some: "wf_plugin s' \<Longrightarrow> pl_slots s' = pl_slots s \<Longrightarrow> step_good False s (Some (s', os))"
  by (simp add: step_good_def)

lemma call_decsa_Some: "returns wf_decsa (f (pl_decsa s)) \<Longrightarrow> wf_plugin s \<Longrightarrow>
    \<exists>d. wf_decsa d \<and> f (pl_decsa s) = Some d \<and> call_decsa f s = Some (s\<lparr>pl_decsa := d\<rparr>, []) \<and> wf_plugin (s\<lparr>pl_decsa := d\<rparr>)"
  by (auto simp: call_decsa_def wf_plugin_def elim!: returnsE)

lemma call_decsa_good:
  assumes "wf_plugin s" "bad \<longleftrightarrow> f (pl_decsa s) = None" "\<not> bad \<Longrightarrow> returns wf_decsa (f (pl_decsa s))"
  shows "step_good bad s (call_decsa f s)"
proof (cases bad)
  case False
  from call_decsa_Some [of f s, OF assms(3) [OF this] assms(1)] show ?thesis using False by (auto simp: step_good_def)
qed (use assms(2) in \<open>simp add: step_good_def call_decsa_def\<close>)

lemma call_decsa_good': "wf_plugin s \<Longrightarrow> (\<And>d. wf_decsa d \<Longrightarrow> returns wf_decsa (f d)) \<Longrightarrow> step_good False s (call_decsa f s)"
  using wf_pluginD(1) [of s] by (intro call_decsa_good) (force elim!: returnsE)+

lemma run_calls_1 [simp]: "run_calls h now [c] s = run_call h now c s"
  by (cases "run_call h now c s") auto

lemma run_calls_2 [simp]: "run_call h now c s = Some (s1, []) \<Longrightarrow> run_calls h now [c, c'] s = run_call h now c' s1"
  by (cases "run_call h now c' s1") auto

text \<open>Two calls of which the first cannot fail.\<close>

lemma two_decsa_good:
  assumes s: "wf_plugin s" and c: "run_call h now c s = call_decsa f s" and f: "returns wf_decsa (f (pl_decsa s))"
    and g: "\<And>d. wf_decsa d \<Longrightarrow> step_good bad (s\<lparr>pl_decsa := d\<rparr>) (run_call h now c' (s\<lparr>pl_decsa := d\<rparr>))"
  shows "step_good bad s (run_calls h now [c, c'] s)"
proof -
  from call_decsa_Some [of f s, OF f s] obtain d where d: "wf_decsa d" "call_decsa f s = Some (s\<lparr>pl_decsa := d\<rparr>, [])" by blast
  then show ?thesis using g [OF d(1)] by (simp only: run_calls_2 [OF c [unfolded d(2)]]) (simp add: step_good_def)
qed

lemma run_requests_good:
  assumes "wf_plugin s" "0 \<le> c" "list_all (request_ok c) outs"
  shows "step_good (64 \<le> c \<and> list_ex is_reset outs) s (run_requests h outs s)"
  using assms(1,3)
proof (induction outs arbitrary: s)
  case (Cons x outs)
  have x: "step_good (64 \<le> c \<and> is_reset x) s (run_slot_out h x s)"
  proof (cases x)
    case (Out_SIDRequest card' sid ca_lm vdr)
    then have "vdr = [] \<or> 6 \<le> length vdr" using Cons.prems(2) by (simp add: request_ok_def)
    then obtain pmt ms where "ProcessSIDRequest (h_off h) (pl_pmt s) card' sid ca_lm vdr = Some (pmt, ms)" "wf_pmt pmt"
      by (rule ProcessSIDRequest_ok [OF wf_pluginD(3) [OF Cons.prems(1)]])
    then show ?thesis using Cons.prems(1) Out_SIDRequest by (simp add: step_good_def wf_plugin_def is_reset_def)
  next
    case (Out_Init_Parity card' sid slot del)
    have d: "wf_decsa (pl_decsa s)" using Cons.prems(1) by (rule wf_pluginD)
    have "card' = c" "0 \<le> sid" using Cons.prems(2) Out_Init_Parity by (simp_all add: request_ok_def)
    then show ?thesis
      using Init_Parity_None [OF d, of c sid slot del] returns_Init_Parity [OF d, of c sid slot del] Cons.prems(1)
      unfolding Out_Init_Parity run_slot_out.simps by (intro call_decsa_good) (auto simp: is_reset_def)
  qed (use Cons.prems(1) in \<open>simp_all add: step_good_def is_reset_def\<close>)
  show ?case
  proof (cases "run_slot_out h x s")
    case None
    then show ?thesis using x by (simp add: step_good_def)
  next
    case (Some r)
    obtain s1 os1 where r: "r = (s1, os1)" by fastforce
    have s1: "wf_plugin s1" "map fst (pl_slots s1) = map fst (pl_slots s)" "\<not> (64 \<le> c \<and> is_reset x)"
      using x Some r by (auto simp: step_good_def)
    from Cons.IH [OF s1(1)] Cons.prems(2) show ?thesis
      using s1 Some r by (auto simp: step_good_def split: Option.bind_splits)
  qed
qed (simp add: step_good_def)

lemma message_good:
  assumes s: "wf_plugin s" and h: "host_ok h" and msg: "msg_ok msg"
  shows "step_good (overruns (Message now msg)) s (run_calls h now (calls_of msg) s)"
proof (cases msg)
  case (M_SetPid a pid idx)
  then show ?thesis using call_decsa_good' [OF s, of "SetCaPid a pid idx"] by (simp add: wf_intros)
next
  case (M_SetDescr a idx par cw)
  have "step_good False (s\<lparr>pl_decsa := d\<rparr>) (call_decsa (SetDescr (h_keys h) now (pl_pidmap s) idx par cw a) (s\<lparr>pl_decsa := d\<rparr>))"
    if "wf_decsa d" for d
    using that s msg M_SetDescr by (intro call_decsa_good') (simp_all add: wf_plugin_def wf_intros)
  then show ?thesis unfolding M_SetDescr calls_of.simps overruns.simps
    by (intro two_decsa_good [OF s, where f = "SetAes idx False"]) (simp_all add: wf_intros wf_pluginD(1) [OF s])
next
  case (M_SetDescrAes a idx par cw)
  have "step_good False (s\<lparr>pl_decsa := d\<rparr>) (call_decsa (SetDescrAes (h_evp h) idx par cw) (s\<lparr>pl_decsa := d\<rparr>))"
    if "wf_decsa d" for d
    using that s msg M_SetDescrAes by (intro call_decsa_good') (simp_all add: wf_plugin_def wf_intros)
  then show ?thesis unfolding M_SetDescrAes calls_of.simps overruns.simps
    by (intro two_decsa_good [OF s, where f = "SetAes idx True"]) (simp_all add: wf_intros wf_pluginD(1) [OF s])
next
  case (M_SetMode a idx algo mode)
  have "step_good False (s\<lparr>pl_decsa := d\<rparr>) (call_decsa (SetCipherMode idx mode) (s\<lparr>pl_decsa := d\<rparr>))"
    if "wf_decsa d" for d
    using that s by (intro call_decsa_good') (simp_all add: wf_plugin_def wf_intros)
  then show ?thesis unfolding M_SetMode calls_of.simps overruns.simps
    by (intro two_decsa_good [OF s, where f = "SetAlgo idx algo"]) (simp_all add: wf_intros wf_pluginD(1) [OF s])
next
  case (M_SetData a idx par ty data)
  have l: "length data \<le> 262" using msg M_SetData by simp
  then have u: "length data = unat (word_of_nat (length data) :: u32)" by (simp add: unat_of_nat)
  then have u16: "(word_of_nat (length data) :: u32) = 16 \<longleftrightarrow> length data = 16"
    by (simp only: word_unat_eq_iff u [symmetric]) simp
  have "step_good (overruns (Message now msg)) (s\<lparr>pl_decsa := d\<rparr>)
      (call_decsa (SetData (h_evp h) idx par ty (word_of_nat (length data)) data) (s\<lparr>pl_decsa := d\<rparr>))" if "wf_decsa d" for d
    using that s SetData_None [OF that u, of "h_evp h" idx par ty] returns_SetData [OF that u, of ty idx "h_evp h" par] u16 M_SetData
    by (intro call_decsa_good) (auto simp: wf_plugin_def)
  then show ?thesis unfolding M_SetData calls_of.simps
    by (intro two_decsa_good [OF s, where f = "SetAes idx False"]) (simp_all add: wf_intros wf_pluginD(1) [OF s])
next
  case (M_SetFilter a demux num pid f m rest)
  then show ?thesis
    using SetFilter_step [OF s, of "Some (f, m)" "uint pid" "h_keys h" a 1 demux num] msg
    by (auto simp: step_good_def split: Option.bind_splits)
next
  case (M_StopFilter a demux num pid)
  then show ?thesis
    using SetFilter_step [OF s, of None "uint pid" "h_keys h" a 0 demux num]
    by (auto simp: step_good_def split: Option.bind_splits)
qed (use s in \<open>auto simp: step_good_def wf_plugin_def intro!: wf_intros\<close>)

lemma slot_Decrypt_good:
  assumes s: "wf_plugin s" and h: "host_ok h" and fc: "wf_fill fc" and l: "TS_SIZE \<le> length data"
  shows "\<exists>res fc' s' ms. slot_Decrypt h cardidx addr data fc s = Some (res, fc', s', ms) \<and> wf_plugin s' \<and> wf_fill fc' \<and>
    pl_slots s' = pl_slots s"
proof -
  obtain fc' can where c: "CanProcess fc addr (int (length data)) = (fc', can)" by fastforce
  have fc': "wf_fill fc'" using wf_CanProcess [OF fc, of addr "int (length data)"] by (simp add: c)
  obtain ok data' d' where D: "DeCSA_Decrypt (h_evp h) (h_env h) (h_keys h) (h_junk h) (h_fastecm h) (Some (pl_pmt s))
      (u8_of cardidx) data (int (length data)) True (pl_decsa s) = Some (ok, data', d')" and d': "wf_decsa d'"
  proof (cases "uint (u8_of cardidx) \<ge> MAXADAPTER")
    case True
    then have "DeCSA_Decrypt (h_evp h) (h_env h) (h_keys h) (h_junk h) (h_fastecm h) (Some (pl_pmt s))
        (u8_of cardidx) data (int (length data)) True (pl_decsa s) = Some (False, data, pl_decsa s)"
      by (simp only: DeCSA_Decrypt_def if_True)
    then show ?thesis using that wf_pluginD(1) [OF s] by blast
  next
    case False
    moreover have "uint (u8_of cardidx) = int (unat (u8_of cardidx))" by simp
    ultimately have a: "unat (u8_of cardidx) < 64" by linarith
    have ad: "adapter_at (uint (u8_of cardidx)) (pl_decsa s) = Some (DeCSAArray (pl_decsa s) ! nat (uint (u8_of cardidx)))"
      using False by (intro adapter_at_Some wf_pluginD(1) [OF s]) simp_all
    have "env_ok (h_env h)" "evp_ok (h_evp h)" using h by (simp_all add: host_ok_def)
    from Decrypt_wf [OF wf_pluginD(1) [OF s] this a order.refl [of "int (length data)"], of "h_keys h" "h_junk h" "h_fastecm h" "Some (pl_pmt s)" True]
    obtain ok data' d' where "adapter_Decrypt (h_evp h) (h_env h) (h_keys h) (h_junk h) (h_fastecm h) (Some (pl_pmt s))
        (unat (u8_of cardidx)) data (int (length data)) True (pl_decsa s) = Some (ok, data', d')" "wf_decsa d'"
      by (auto elim!: returnsE)
    then show ?thesis using False by (intro that [of ok data' d']) (simp_all add: DeCSA_Decrypt_def ad)
  qed
  obtain m ms where A: "Analyze (pl_pmt s) (pl_pidmap s) (u8_of cardidx) data = Some (m, ms)" "wf_pidmap m"
    using Analyze_good [OF wf_pluginD(2) [OF s] l] by blast
  have "rd data 3 = Some (data ! 3)" using l by (simp add: rd_simps)
  then show ?thesis
    unfolding slot_Decrypt_def c D prod.case Let_def using A d' s fc' by (auto simp: wf_plugin_def)
qed

lemma step_good_step:
  assumes s: "wf_plugin s" and h: "host_ok h" and e: "event_ok s e"
  shows "step_good (overruns e) s (step h e s)"
proof (cases e)
  case (Message now msg)
  then show ?thesis using message_good [OF s h] e by simp
next
  case (Connected now)
  then show ?thesis using s SendAll_announcement [OF wf_pluginD(3) [OF s]] by (simp add: step_good_def)
next
  case (Closed_by_oscam now)
  then show ?thesis using s by (simp add: step_good_def wf_plugin_def StopAllFilters_def wf_pidmap_def)
next
  case (From_slot out)
  show ?thesis
  proof (cases out)
    case (Out_SIDRequest cardidx sid ca_lm vdr)
    then have "vdr = [] \<or> 6 \<le> length vdr" using e From_slot by simp
    then obtain pmt ms where "ProcessSIDRequest (h_off h) (pl_pmt s) cardidx sid ca_lm vdr = Some (pmt, ms)" "wf_pmt pmt"
      by (rule ProcessSIDRequest_ok [OF wf_pluginD(3) [OF s]])
    then show ?thesis using s From_slot Out_SIDRequest by (simp add: step_good_def wf_plugin_def)
  next
    case (Out_Init_Parity cardidx sid slot del)
    then show ?thesis
      using s From_slot returns_Init_Parity [OF wf_pluginD(1) [OF s], of cardidx sid slot del]
        Init_Parity_None [OF wf_pluginD(1) [OF s], of cardidx sid slot del]
      by (auto intro!: call_decsa_good)
  qed (use s From_slot in \<open>simp_all add: step_good_def\<close>)
next
  case (Tpdu i inp st data)
  have "slot_ok (pl_slots s ! i)" using slot_ok_at [OF s] e Tpdu by simp
  then have c: "0 \<le> sl_card st" using e Tpdu by (simp add: slot_ok_def)
  show ?thesis
  proof (cases "Process inp st data")
    case None
    then show ?thesis using Process_None [of inp st data] by (simp add: Tpdu step_good_def)
  next
    case (Some r)
    obtain st' outs where r: "r = (st', outs)" by fastforce
    have "\<not> tpdu_cut data" using Process_None [of inp st data] Some by simp
    then show ?thesis
      using run_requests_good [OF s c Process_requests [OF Some [unfolded r]], of h] Some r Tpdu by simp
  qed
next
  case (Decrypt_at i addr data)
  obtain cardidx fc where i: "pl_slots s ! i = (cardidx, fc)" by fastforce
  have p: "i < length (pl_slots s)" "TS_SIZE \<le> length data" using e Decrypt_at by simp_all
  have fc: "slot_ok (cardidx, fc)" using slot_ok_at [OF s p(1)] by (simp add: i)
  have m: "map fst ((pl_slots s)[i := (cardidx, x)]) = map fst (pl_slots s)" for x
    using p(1) i by (simp add: map_update list_update_same_conv)
  from fc have "wf_fill fc" by (simp add: slot_ok_def)
  from slot_Decrypt_good [OF s h this p(2)] obtain res fc' s' ms where
    "slot_Decrypt h cardidx addr data fc s = Some (res, fc', s', ms)" "wf_plugin s'" "wf_fill fc'" "pl_slots s' = pl_slots s"
    by blast
  moreover from this have "slot_ok (cardidx, fc')" using fc by (simp add: slot_ok_def)
  ultimately show ?thesis
    by (simp add: step_good_def Decrypt_at i wf_plugin_def list_all_update m)
next
  case (Start_slot i)
  have p: "i < length (pl_slots s)" using e Start_slot by simp
  then have "slot_ok (fst (pl_slots s ! i), StartDecrypting (snd (pl_slots s ! i)))"
    using slot_ok_at [OF s] by (simp add: slot_ok_def StartDecrypting_def wf_fill_Reset)
  then show ?thesis using s p by (simp add: step_good_def Start_slot wf_plugin_def list_all_update map_update list_update_same_conv)
next
  case (Stop_slot i)
  then show ?thesis using s by (auto simp: step_good_def StopDecrypting_def intro!: wf_on_decsa wf_intros)
qed

lemma event_ok_slots:
  assumes "map fst (pl_slots s') = map fst (pl_slots s)"
  shows "event_ok s' e = event_ok s e"
proof -
  have l: "length (pl_slots s') = length (pl_slots s)" using assms by (metis length_map)
  have "fst (pl_slots s' ! i) = fst (pl_slots s ! i)" if "i < length (pl_slots s)" for i
    using that l assms by (metis nth_map)
  then show ?thesis using l by (cases "(s, e)" rule: event_ok.cases) auto
qed

lemma steps_good:
  "wf_plugin s \<Longrightarrow> host_ok h \<Longrightarrow> \<forall>e \<in> set es. event_ok s e \<Longrightarrow> step_good (\<exists>e \<in> set es. overruns e) s (steps h es s)"
proof (induction es arbitrary: s)
  case Nil
  then show ?case by (simp add: step_good_def)
next
  case (Cons e es)
  have g: "step_good (overruns e) s (step h e s)" using Cons.prems by (intro step_good_step) simp_all
  show ?case
  proof (cases "step h e s")
    case None
    then show ?thesis using g by (auto simp: step_good_def)
  next
    case (Some r)
    obtain s1 os1 where r: "r = (s1, os1)" by fastforce
    have s1: "wf_plugin s1" "map fst (pl_slots s1) = map fst (pl_slots s)" "\<not> overruns e"
      using g Some r by (auto simp: step_good_def)
    have "\<forall>e \<in> set es. event_ok s1 e" using Cons.prems(3) event_ok_slots [OF s1(2)] by simp
    from Cons.IH [OF s1(1) Cons.prems(2) this] show ?thesis
      using s1 Some r by (auto simp: step_good_def split: Option.bind_splits)
  qed
qed

subsection \<open>The property\<close>

definition slot0 :: fill_control where
  "slot0 = new_fill_control 200000 100 40 0 0 0"

definition plugin0 :: "unit plugin" where
  "plugin0 = \<lparr>pl_decsa = decsa0, pl_pidmap = [], pl_pmt = [], pl_slots = [(5, slot0)]\<rparr>"

definition host0 :: "unit host" where
  "host0 = \<lparr>h_evp = evp0, h_env = \<lparr>we_sleep = (\<lambda>i d. d), we_timeout = (\<lambda>i. True)\<rparr>, h_keys = keys0, h_junk = junk0,
     h_fastecm = False, h_off = 0, h_info = []\<rparr>"

definition st5 :: slot_state where
  "st5 = \<lparr>sl_card = 5, sl_version = 1, sl_reset = False, sl_doReply = True, sl_lastStatus = msReady\<rparr>"

definition inp5 :: slot_input where
  "inp5 = \<lparr>si_decrypting = True, si_timedout = False, si_version = 1\<rparr>"

lemma wf_plugin0: "wf_plugin plugin0"
  by (simp add: wf_plugin_def plugin0_def wf_decsa0 wf_pidmap_def slot_ok_def slot0_def wf_new_fill_control)

lemma host0_ok: "host_ok host0"
  by (simp add: host_ok_def host0_def evp_ok_def evp0_def env_ok_def junk0_ok)



end
