(* ===== verification/SystemRecover.thy ===== *)
theory SystemRecover
  imports SystemInv
begin

text \<open>
  From the messages of OSCam to the clear packets: once a pid has been given a key index and the index a
  control word, \<open>SCCAMSlot::Decrypt\<close> gives the receiver back the packets that were scrambled with that word.
\<close>

subsection \<open>Packets as a receiver gets them\<close>

definition receivable :: "int \<Rightarrow> bytes \<Rightarrow> bool" where
  "receivable pid q \<longleftrightarrow> clear_packet q \<and> q ! 0 = TS_SYNC_BYTE \<and> packet_pid q = pid \<and> ts_packet_get_payload_offset q \<noteq> 0"

text \<open>A packet of the buffer that the loop of \<open>Decrypt\<close> takes.\<close>

definition taken :: "int \<Rightarrow> bool \<Rightarrow> bytes \<Rightarrow> bool" where
  "taken pid od p \<longleftrightarrow> length p = TS_SIZE \<and> p ! 0 = TS_SYNC_BYTE \<and> p ! 3 AND 0xC0 = (if od then 0xC0 else 0x80) \<and>
     packet_pid p = pid \<and> ts_packet_get_payload_offset p \<noteq> 0"

lemma payload_offset_cong:
  assumes "p ! 0 = q ! 0" "bit (p ! 3) 5 \<longleftrightarrow> bit (q ! 3) 5" "bit (p ! 3) 4 \<longleftrightarrow> bit (q ! 3) 4"
    "bit (q ! 3) 5 \<Longrightarrow> p ! 4 = q ! 4"
  shows "ts_packet_get_payload_offset p = ts_packet_get_payload_offset q"
proof -
  have m: "x AND 0x20 = (if bit x 5 then 0x20 else 0)" "x AND 0x10 = (if bit x 4 then 0x10 else 0)" for x :: u8
    by (simp_all add: word8_eq all_less_8 bit_and_iff)
  show ?thesis
    using assms(4) unfolding ts_packet_get_payload_offset_def m assms(1-3) by (cases "bit (q ! 3) 5") simp_all
qed

lemma scramble_taken:
  assumes "receivable pid q"
  shows "taken pid od (scramble keys od q)"
proof -
  have q: "length q = 188" "q ! 3 AND 0xc0 = 0" using assms by (simp_all add: receivable_def clear_packet_def)
  define n where "n = payload_start q"
  define e where "e = csa_encrypt (k_ck (if od then odd_key keys else even_key keys))
    (k_kk (if od then odd_key keys else even_key keys)) (drop n q)"
  define s where "s = scramble keys od q"
  have n: "4 \<le> n" "n \<le> 188" "bit (q ! 3) 5 \<Longrightarrow> 5 \<le> n" by (simp_all add: n_def payload_start_def)
  have s: "s = (take n q @ e)[3 := q ! 3 OR (if od then 0xc0 else 0x80)]" "length e = 188 - n"
    by (simp_all add: s_def scramble_def Let_def n_def e_def q)
  have h: "s ! i = q ! i" if "i < 3" for i using that n q(1) by (simp add: s nth_append)
  have s3: "s ! 3 = q ! 3 OR (if od then 0xc0 else 0x80)" using n q by (simp add: s)
  have s4: "s ! 4 = q ! 4" if "bit (q ! 3) 5" using n(3) [OF that] q s(2) by (simp add: s(1) nth_append)
  have b: "\<not> bit (q ! 3) 7" "\<not> bit (q ! 3) 6" using q(2) xc0_cases(1) by simp_all
  have "(q ! 3 OR (if od then 0xc0 else 0x80)) AND 0xC0 = (if od then 0xC0 else 0x80)"
    unfolding word8_eq all_less_8 bit_and_iff using b by (simp add: bit_or_iff)
  moreover have "ts_packet_get_payload_offset s = ts_packet_get_payload_offset q"
    by (rule payload_offset_cong) (simp_all add: h s3 s4 bit_or_iff)
  moreover have "packet_pid s = packet_pid q" by (simp add: packet_pid_def h)
  moreover have "length s = 188" using n q s(2) by (simp add: s(1))
  ultimately show ?thesis using assms by (simp add: taken_def receivable_def s_def [symmetric] s3 h)
qed

subsection \<open>The scan over a buffer of such packets\<close>

definition scan_after :: "'c decsa \<Rightarrow> bytes \<Rightarrow> int \<Rightarrow> int \<Rightarrow> bool \<Rightarrow> nat \<Rightarrow> 'c dscan" where
  "scan_after d data idx pid od n =
     \<lparr>ds_data = data, ds_decsa = d, ds_currIdx = (if n = 0 then -1 else idx), ds_curPid = (if n = 0 then 0 else pid),
      ds_wantsparity = (if n = 0 then 0 else if od then 2 else 1), ds_ranges = (if n = 0 then [] else [(0, 188 * n)]),
      ds_newRange = (n = 0), ds_ccs = n\<rparr>"

lemma csa_mode_gets:
  assumes "wf_decsa d" "0 \<le> idx" "idx < 32" "csa_mode (DeCSAKeyArray d ! nat idx)"
  shows "\<exists>algo aes. GetAlgo idx d = Some algo \<and> GetAes idx d = Some aes \<and> algo \<noteq> CA_ALGO_DES \<and>
    \<not> (algo = CA_ALGO_AES128 \<or> aes \<noteq> 0)"
  using assms by (simp add: GetAlgo_eq GetAes_eq csa_mode_def)

lemma decrypt_one_taken:
  assumes t: "taken pid od (pk (188 * n) data)" and l: "188 * n + 188 \<le> length data"
    and a: "SearchPIDinMAP pid a = idx" "0 \<le> idx" "idx < 32" "pid < 0x1FFF"
    and k: "csa_mode (DeCSAKeyArray d ! nat idx)" and n: "n < 32" and d: "wf_decsa d"
  shows "decrypt_one evp a (188 * n) (scan_after d data idx pid od n) = Some (Continue (scan_after d data idx pid od (Suc n)))"
proof -
  let ?p = "pk (188 * n) data"
  have b: "data ! (188 * n) = 0x47" "data ! (188 * n + 3) AND 0xC0 = (if od then 0xC0 else 0x80)"
    using t l nth_pk [of 0 "188 * n" data] nth_pk [of 3 "188 * n" data] by (simp_all add: taken_def)
  have dr: "packet_pid (drop (188 * n) data) = pid"
    using t packet_pid_pk [of "188 * n" data] l by (simp add: taken_def)
  have off: "unat (ts_packet_get_payload_offset (drop (188 * n) data)) \<noteq> 0"
  proof -
    have "ts_packet_get_payload_offset (drop (188 * n) data) = ts_packet_get_payload_offset ?p"
      by (rule payload_offset_cong) (use l in \<open>simp_all add: nth_pk\<close>)
    then show ?thesis using t by (simp add: taken_def unat_eq_0)
  qed
  have sc: "(if od then 0xC0 else 0x80 :: u8) AND 0x80 \<noteq> 0" by simp
  obtain algo aes where m: "GetAlgo idx d = Some algo" "GetAes idx d = Some aes" "algo \<noteq> CA_ALGO_DES"
    "\<not> (algo = CA_ALGO_AES128 \<or> aes \<noteq> 0)"
    using csa_mode_gets [OF d a(2,3) k] by blast
  show ?thesis
    using off a n m l
    by (simp add: decrypt_one_def decrypt_mapped_def Let_def scan_after_def b dr sc add_range_def
        get_suggested_cluster_size_def)
qed

lemma decrypt_scan_taken:
  assumes t: "\<forall>i < N. taken pid od (pk (188 * i) data)" and l: "length data = 188 * N"
    and a: "SearchPIDinMAP pid a = idx" "0 \<le> idx" "idx < 32" "pid < 0x1FFF"
    and k: "csa_mode (DeCSAKeyArray d ! nat idx)" and d: "wf_decsa d" and N: "N \<le> 32" and n: "n \<le> N"
  shows "decrypt_scan evp a (int (length data) - 187) (188 * n) (scan_after d data idx pid od n) =
    Some (Some (scan_after d data idx pid od N))"
  using n
proof (induction "N - n" arbitrary: n)
  case 0
  then have "n = N" by simp
  then show ?case by (subst decrypt_scan.simps) (simp add: l)
next
  case (Suc m)
  then have n: "n < N" by simp
  have "decrypt_one evp a (188 * n) (scan_after d data idx pid od n) = Some (Continue (scan_after d data idx pid od (Suc n)))"
    by (rule decrypt_one_taken) (use t n N a k l d in simp_all)
  moreover have "decrypt_scan evp a (int (length data) - 187) (188 * Suc n) (scan_after d data idx pid od (Suc n)) =
      Some (Some (scan_after d data idx pid od N))"
    using Suc n by (intro Suc.hyps) simp_all
  moreover have "int (188 * n) < int (length data) - 187" using n by (simp add: l)
  moreover have "188 * n + 188 = 188 * Suc n" by simp
  ultimately show ?case by (subst decrypt_scan.simps) (simp only: if_True option.case flow.case)
qed

subsection \<open>The call of decrypt_packets\<close>

text \<open>Whether \<open>Decrypt\<close> has to wait for a control word before it descrambles.\<close>

definition must_sleep :: "bool \<Rightarrow> pmtobj list option \<Rightarrow> nat \<Rightarrow> nat \<Rightarrow> int \<Rightarrow> int \<Rightarrow> 'c decsa \<Rightarrow> bool" where
  "must_sleep enabled capmt a idx pid parity d \<longleftrightarrow>
     (let (uses, d) = fast_ecm enabled capmt a idx d
      in uses \<and> fst (key_Set_FastECM_CW_Parity pid parity False (DeCSAKeyArray d ! idx)) = 0)"

definition same_words :: "nat \<Rightarrow> csa_keys_t \<Rightarrow> 'c decsa \<Rightarrow> bool" where
  "same_words idx keys d \<longleftrightarrow> (\<exists>fe. dk_key (DeCSAKeyArray d ! idx) = Some (keys\<lparr>fastecm := fe\<rparr>))"

lemma same_words_self: "dk_key (DeCSAKeyArray d ! idx) = Some keys \<Longrightarrow> same_words idx keys d"
  unfolding same_words_def by (metis csa_keys_t.surjective csa_keys_t.update_convs(3))

lemma GetKeyStruct_there:
  assumes "wf_decsa d" "dk_key (DeCSAKeyArray d ! nat idx) = Some keys" "0 \<le> idx" "idx < 32"
  shows "GetKeyStruct junk idx d = Some (True, d)"
proof -
  have "(DeCSAKeyArray d)[nat idx := DeCSAKeyArray d ! nat idx] = DeCSAKeyArray d" by simp
  then show ?thesis using assms by (simp add: GetKeyStruct_def GetorCreateKeyStruct_def with_key_def)
qed

lemma same_words_fastecm:
  "same_words idx keys d \<Longrightarrow> idx < length (DeCSAKeyArray d) \<Longrightarrow> same_words idx keys (with_key idx (on_fastecm f) d)"
  by (auto simp: same_words_def on_fastecm_def)

lemma same_words_parity:
  "same_words idx keys d \<Longrightarrow> idx < length (DeCSAKeyArray d) \<Longrightarrow>
     same_words idx keys (with_key idx (\<lambda>k. snd (key_Set_FastECM_CW_Parity pid parity f k)) d)"
  by (auto simp: same_words_def on_fastecm_def key_Set_FastECM_CW_Parity_def)

lemma same_words_fast_ecm:
  assumes "same_words idx keys d" "idx < length (DeCSAKeyArray d)"
  shows "same_words idx keys (snd (fast_ecm enabled capmt a idx d))"
    "idx < length (DeCSAKeyArray (snd (fast_ecm enabled capmt a idx d)))"
  using assms
  by (auto simp: fast_ecm_def Let_def split_def key_SetFastECMCaidSid_def same_words_fastecm split: option.split)

lemma parity_wait_no_sleep:
  assumes k: "same_words idx keys d" "idx < length (DeCSAKeyArray d)"
    and w: "\<not> must_sleep enabled capmt a idx pid parity d"
  shows "fst (parity_wait env enabled capmt a idx pid parity d) \<and>
    same_words idx keys (snd (parity_wait env enabled capmt a idx pid parity d))"
proof -
  obtain uses d1 where f: "fast_ecm enabled capmt a idx d = (uses, d1)" by fastforce
  note d1 = same_words_fast_ecm [OF k, of enabled capmt a, unfolded f snd_conv]
  show ?thesis
    using w same_words_parity [OF d1] same_words_fastecm [OF d1]
    by (auto simp: parity_wait_def f must_sleep_def Let_def SetActiveParity2_def [abs_def])
qed

lemma scramble_fastecm [simp]: "scramble (keys\<lparr>fastecm := fe\<rparr>) od = scramble keys od"
  by (rule ext) (simp add: scramble_def)

text \<open>The packets of a buffer, one after the other.\<close>

lemma packets_of_concat:
  "\<forall>p \<in> set ps. length p = TS_SIZE \<Longrightarrow> i < length ps \<Longrightarrow> pk (188 * i) (concat ps) = ps ! i"
proof (induction ps arbitrary: i)
  case (Cons p ps)
  show ?case
  proof (cases i)
    case 0
    then show ?thesis using Cons.prems by (simp add: pk_def)
  next
    case (Suc j)
    have "188 * i = length p + 188 * j" using Cons.prems(1) Suc by simp
    then have "pk (188 * i) (concat (p # ps)) = pk (188 * j) (concat ps)" by (simp add: pk_def)
    then show ?thesis using Cons Suc by simp
  qed
qed simp

lemma length_concat_packets: "\<forall>p \<in> set ps. length p = TS_SIZE \<Longrightarrow> length (concat ps) = 188 * length ps"
  by (induction ps) simp_all

lemma cluster_of_buffer: "0 < N \<Longrightarrow> in_order [(0, 188 * N)]" "cluster_packets [(0, 188 * N)] = map (\<lambda>i. 188 * i) [0..<N]"
  by (simp_all add: in_order_def cluster_packets_def range_packets_def)

lemma concat_of_packets:
  assumes "length data = 188 * length qs" "map (\<lambda>i. pk (188 * i) data) [0..<length qs] = qs"
  shows "data = concat qs"
  using assms
proof (induction qs arbitrary: data)
  case (Cons q qs)
  have q: "q = take 188 data" using Cons.prems(2) by (simp add: upt_conv_Cons pk_def del: upt_Suc)
  have "map (\<lambda>i. pk (188 * i) (drop 188 data)) [0..<length qs] = qs"
  proof (rule nth_equalityI)
    fix i assume i: "i < length (map (\<lambda>i. pk (188 * i) (drop 188 data)) [0..<length qs])"
    have "map (\<lambda>i. pk (188 * i) data) [0..<length (q # qs)] ! Suc i = (q # qs) ! Suc i" by (simp only: Cons.prems(2))
    then have "pk (188 * Suc i) data = qs ! i" using i by (simp del: upt_Suc)
    then show "map (\<lambda>i. pk (188 * i) (drop 188 data)) [0..<length qs] ! i = qs ! i"
      using i by (simp add: pk_def add.commute)
  qed simp
  from Cons.IH [OF _ this] have "drop 188 data = concat qs" using Cons.prems(1) by simp
  then show ?case by (metis append_take_drop_id concat.simps(2) q)
qed simp

lemma adapter_Decrypt_recovers:
  assumes d: "wf_decsa d" and env: "env_ok env" and J: "junk_ok J" and a: "a < 64"
    and m: "SearchPIDinMAP pid (DeCSAArray d ! a) = idx" "0 \<le> idx" "idx < 32" "pid < 0x1FFF"
    and k: "csa_mode (DeCSAKeyArray d ! nat idx)" "dk_key (DeCSAKeyArray d ! nat idx) = Some keys"
    and K: "(if od then odd_key K else even_key K) = (if od then odd_key keys else even_key keys)"
    and qs: "\<forall>q \<in> set qs. receivable pid q" "qs \<noteq> []" "length qs \<le> 32"
    and w: "\<not> must_sleep enabled capmt a (nat idx) pid (if od then 2 else 1) d"
  defines "data \<equiv> concat (map (scramble K od) qs)"
  shows "\<exists>d'. adapter_Decrypt evp env junk J enabled capmt a data (int (length data)) True d = Some (True, concat qs, d')"
proof -
  have sK: "scramble K od = scramble keys od" by (rule ext) (simp only: scramble_def K)
  let ?N = "length qs"
  have t: "taken pid od (scramble keys od q)" if "q \<in> set qs" for q using that qs(1) scramble_taken by blast
  have lp: "\<forall>p \<in> set (map (scramble keys od) qs). length p = TS_SIZE" using t by (auto simp: taken_def)
  have l: "length data = 188 * ?N" using length_concat_packets [OF lp] by (simp add: data_def sK)
  have p: "pk (188 * i) data = scramble keys od (qs ! i)" if "i < ?N" for i
    using packets_of_concat [OF lp, of i] that by (simp add: data_def sK)
  let ?s = "scan_after d data idx pid od ?N"
  have "decrypt_scan evp (DeCSAArray d ! a) (int (length data) - 187) 0 (scan_after d data idx pid od 0) = Some (Some ?s)"
    using decrypt_scan_taken [OF _ l m k(1) d qs(3), of od 0] t p by simp
  then have scan: "decrypt_scan evp (DeCSAArray d ! a) (int (length data) - 187) 0
      \<lparr>ds_data = data, ds_decsa = d, ds_currIdx = -1, ds_curPid = 0, ds_wantsparity = 0, ds_ranges = [],
       ds_newRange = True, ds_ccs = 0\<rparr> = Some (Some ?s)" by (simp add: scan_after_def)
  have N: "?N \<noteq> 0" using qs(2) by simp
  have s: "ds_data ?s = data" "ds_decsa ?s = d" "ds_currIdx ?s = idx" "ds_curPid ?s = pid"
    "ds_wantsparity ?s = (if od then 2 else 1)" "ds_ranges ?s = [(0, 188 * ?N)]" "ds_wantsparity ?s > 0"
    using N by (simp_all add: scan_after_def)
  obtain algo aes where alg: "GetAlgo idx d = Some algo" "GetAes idx d = Some aes" "algo \<noteq> CA_ALGO_DES"
    "\<not> (algo = CA_ALGO_AES128 \<or> aes \<noteq> 0)" using csa_mode_gets [OF d m(2,3) k(1)] by blast
  have i: "nat idx < length (DeCSAKeyArray d)" using d m by (simp add: wf_decsa_def)
  note g = GetKeyStruct_there [OF d k(2) m(2,3), of junk]
  note sw = same_words_self [OF k(2)]
  obtain go d' where pw: "parity_wait env enabled capmt a (nat idx) pid (if od then 2 else 1) d = (go, d')" by fastforce
  from parity_wait_no_sleep [OF sw i w, of env] have go: "go" "same_words (nat idx) keys d'" by (simp_all add: pw)
  then obtain fe where key: "dk_key (DeCSAKeyArray d' ! nat idx) = Some (keys\<lparr>fastecm := fe\<rparr>)" by (auto simp: same_words_def)
  have pid: "0 \<le> pid"
  proof -
    obtain q where "q \<in> set qs" using qs(2) by (cases qs) auto
    then show ?thesis using qs(1) packet_pid_nonneg [of q] by (auto simp: receivable_def)
  qed
  have "wf_decsa d'"
    using wf_parity_wait [OF d env pid, of "if od then 2 else 1" enabled capmt a "nat idx"] by (simp add: pw)
  then have keys: "wf_keys (keys\<lparr>fastecm := fe\<rparr>)"
    using wf_decsa_key_at [of d' "nat idx"] key m by (simp add: wf_decsa_key_def)
  obtain data' c n where D: "decrypt_packets (keys\<lparr>fastecm := fe\<rparr>) J data [(0, 188 * ?N)] = (data', c, n)"
    by (metis prod_cases3)
  have cl: "in_order [(0, 188 * ?N)]" "cluster_packets [(0, 188 * ?N)] = map (\<lambda>i. 188 * i) [0..<?N]"
    using cluster_of_buffer [of ?N] N by simp_all
  have cok: "cluster_ok data [(0, 188 * ?N)]" by (rule in_order_cluster_ok [OF cl(1)]) (simp add: l)
  have mp: "map (\<lambda>a. pk a data) (cluster_packets [(0, 188 * ?N)]) = map (scramble (keys\<lparr>fastecm := fe\<rparr>) od) qs"
    unfolding cl(2) by (rule nth_equalityI) (simp_all add: p)
  have "list_all clear_packet qs" using qs(1) by (auto simp: list_all_iff receivable_def)
  note rec = decrypt_packets_recovery [OF cok keys J this _ mp D, unfolded cl(2)]
  have n: "n = ?N" and out: "map (\<lambda>i. pk (188 * i) data') [0..<?N] = qs"
    using rec qs(3) by (simp_all add: comp_def)
  have "length data' = length data" using decrypt_packets_spec [OF cok keys J D refl refl refl] by blast
  then have "data' = concat qs" using concat_of_packets [OF _ out] l by simp
  then have DP: "Decrypt_packets J data [(0, 188 * ?N)] (DeCSAKeyArray d' ! nat idx) = (concat qs, c, ?N)"
    using D n by (simp add: Decrypt_packets_def key)
  have "adapter_Decrypt evp env junk J enabled capmt a data (int (length data)) True d = Some (?N > 0, concat qs, d')"
    unfolding adapter_Decrypt_def scan bind.simps option.case Let_def s
    using alg m d by (simp add: g pw go(1) DP)
  then show ?thesis using N by auto
qed

subsection \<open>The packet at the front of any buffer\<close>

definition from_front :: "'c dscan \<Rightarrow> bool" where
  "from_front s \<longleftrightarrow> ds_ranges s \<noteq> [] \<and> fst (hd (ds_ranges s)) = 0"

lemma from_front_add_range: "rs \<noteq> [] \<Longrightarrow> add_range l n rs \<noteq> [] \<and> fst (hd (add_range l n rs)) = fst (hd rs)"
  by (cases rs rule: rev_cases) (auto simp: add_range_def hd_append)

lemma from_front_one:
  assumes s: "from_front s" and l: "l \<noteq> 0"
  shows "decrypt_one evp a l s \<noteq> Some Return" "pred_option (flow_all from_front) (decrypt_one evp a l s)"
proof -
  have r: "pred_option (\<lambda>f. flow_all from_front f \<and> f \<noteq> Return) (decrypt_mapped evp l offset s1)"
    if "ds_ranges s1 = ds_ranges s" for offset s1
    using s that from_front_add_range [of "ds_ranges s" l "ds_newRange s1"]
    by (auto simp: decrypt_mapped_def Let_def split_def from_front_def split: Option.bind_splits)
  have n: "from_front (s\<lparr>ds_newRange := True\<rparr>)" using s by (simp add: from_front_def)
  have "pred_option (\<lambda>f. flow_all from_front f \<and> f \<noteq> Return) (decrypt_one evp a l s)"
    unfolding decrypt_one_def Let_def using r n s l by (simp split: if_split)
  then show "decrypt_one evp a l s \<noteq> Some Return" "pred_option (flow_all from_front) (decrypt_one evp a l s)"
    by (auto simp: pred_option_def)
qed

lemma from_front_scan:
  "from_front s \<Longrightarrow> l \<noteq> 0 \<Longrightarrow> decrypt_scan evp a len l s = Some r \<Longrightarrow> \<exists>s'. r = Some s' \<and> from_front s'"
proof (induction evp a len l s rule: decrypt_scan.induct)
  case (1 evp a len l s)
  show ?case
  proof (cases "int l < len")
    case True
    note f = from_front_one [OF 1(2,3), of evp a] and e = decrypt_scan.simps [of evp a len l s]
    obtain x where x: "decrypt_one evp a l s = Some x" using 1(4) True by (cases "decrypt_one evp a l s") (simp_all add: e)
    show ?thesis
    proof (cases x)
      case (Continue s1)
      then show ?thesis
        using 1(1) [OF True x Continue] f True x 1(4) by (simp add: e)
    qed (use f True x 1(4) in \<open>auto simp: e\<close>)
  qed (use 1(2,4) in \<open>auto simp: decrypt_scan.simps [of evp a len l s]\<close>)
qed

lemma adapter_Decrypt_front:
  assumes d: "wf_decsa d" and env: "env_ok env" and J: "junk_ok J" and a: "a < 64" and cm: "csa_map d (DeCSAArray d ! a)"
    and len: "188 \<le> len" "len \<le> int (length data)"
    and m: "SearchPIDinMAP pid (DeCSAArray d ! a) = idx" "0 \<le> idx" "idx < 32" "pid < 0x1FFF"
    and k: "dk_key (DeCSAKeyArray d ! nat idx) = Some keys"
    and q: "receivable pid q" "pk 0 data = scramble keys od q"
    and w: "\<And>pid parity. \<not> must_sleep enabled capmt a (nat idx) pid parity d"
    and D: "adapter_Decrypt evp env junk J enabled capmt a data len True d = Some (ok, data', d')"
  shows "ok \<and> pk 0 data' = q"
proof -
  let ?A = "DeCSAArray d ! a"
  have L: "188 \<le> length data" using len by linarith
  have am: "wf_pid_map (AdapterPidMap ?A)" using d a by (rule wf_decsa_map_at)
  have csa: "csa_mode (DeCSAKeyArray d ! nat idx)" using csa_map_idx [OF cm, of pid] m by simp
  have t: "taken pid od (pk (188 * 0) data)" using scramble_taken [OF q(1)] q(2) by simp
  let ?s0 = "\<lparr>ds_data = data, ds_decsa = d, ds_currIdx = -1, ds_curPid = 0, ds_wantsparity = 0, ds_ranges = [],
    ds_newRange = True, ds_ccs = 0\<rparr>"
  have e0: "?s0 = scan_after d data idx pid od 0" by (simp add: scan_after_def)
  have one: "decrypt_one evp ?A 0 ?s0 = Some (Continue (scan_after d data idx pid od 1))"
    unfolding e0 using decrypt_one_taken [OF t _ m csa _ d, of evp] L by simp
  have "from_front (scan_after d data idx pid od 1)" by (simp add: from_front_def scan_after_def)
  note ff = from_front_scan [OF this, of 188 evp ?A "len - 187"]
  obtain r where r: "decrypt_scan evp ?A (len - 187) 0 ?s0 = Some r"
    using D by (cases "decrypt_scan evp ?A (len - 187) 0 ?s0") (simp_all add: adapter_Decrypt_def)
  have "decrypt_scan evp ?A (len - 187) 188 (scan_after d data idx pid od 1) = Some r"
    using len(1) r by (subst (asm) decrypt_scan.simps) (simp add: one)
  from ff [OF _ this] obtain s where s: "r = Some s" "from_front s" by auto
  have scan: "decrypt_scan evp ?A (len - 187) 0 ?s0 = Some (Some s)" using r s(1) by simp
  have "scan_inv data d ?A 0 ?s0" "open_range data 0 ?s0"
    by (simp_all add: scan_inv_def open_range_def in_order_def)
  then have I: "scan_inv data d ?A (length data) s"
    by (rule decrypt_scan_inv [OF _ _ _ _ am d cm _ scan]) (use len(2) in simp_all)
  define rs where "rs = ds_ranges s"
  have ord: "in_order rs" "\<forall>(st, en) \<in> set rs. en \<le> length data" using I by (simp_all add: scan_inv_def rs_def)
  obtain en rs' where rs: "rs = (0, en) # rs'" "0 < en" "TS_SIZE dvd en"
    using s(2) ord(1) by (cases rs) (auto simp: from_front_def rs_def in_order_def)
  have front: "cluster_packets rs = 0 # tl (cluster_packets rs)"
  proof -
    obtain n where n: "en = 188 * n" using rs(3) by (rule dvdE)
    then have "range_packets 0 en = 0 # tl (range_packets 0 en)"
      using rs(2) by (simp add: range_packets_def upt_conv_Cons del: upt_Suc)
    then show ?thesis
      unfolding rs(1) cluster_packets_def list.map concat.simps prod.case by (metis append_Cons list.sel(3))
  qed
  have sc: "scrambled (pk 0 data)" using q scramble_descramble(1) by (simp add: receivable_def)
  have pi: "packet_idx ?A (pk 0 data) = idx" using t m(1) by (simp add: packet_idx_def taken_def)
  have "0 \<in> set (cluster_packets rs)" by (subst front) simp
  then have ci: "ds_currIdx s = idx" using I sc pi unfolding scan_inv_def rs_def [symmetric] by auto
  have sd: "ds_data s = data" "ds_decsa s = d" using I by (simp_all add: scan_inv_def)
  have wp: "ds_wantsparity s > 0" "ds_wantsparity s \<in> {0, 1, 2}" "0 \<le> ds_curPid s"
    using I ci m(2) unfolding scan_inv_def by auto
  obtain algo aes where alg: "GetAlgo idx d = Some algo" "GetAes idx d = Some aes" "algo \<noteq> CA_ALGO_DES"
    "\<not> (algo = CA_ALGO_AES128 \<or> aes \<noteq> 0)" using csa_mode_gets [OF d m(2,3) csa] by blast
  have i: "nat idx < length (DeCSAKeyArray d)" using d m by (simp add: wf_decsa_def)
  note g = GetKeyStruct_there [OF d k m(2,3), of junk]
  note sw = same_words_self [OF k]
  obtain go d1 where pw: "parity_wait env enabled capmt a (nat idx) (ds_curPid s) (ds_wantsparity s) d = (go, d1)" by fastforce
  from parity_wait_no_sleep [OF sw i w, of env] have go: "go" "same_words (nat idx) keys d1"
    by (metis pw fst_conv, metis pw snd_conv)
  then obtain fe where key: "dk_key (DeCSAKeyArray d1 ! nat idx) = Some (keys\<lparr>fastecm := fe\<rparr>)" by (auto simp: same_words_def)
  have "wf_decsa d1"
    using wf_parity_wait [OF d env wp(3,2), of enabled capmt a "nat idx"] by (simp add: pw)
  then have wk: "wf_keys (keys\<lparr>fastecm := fe\<rparr>)"
    using wf_decsa_key_at [of d1 "nat idx"] key m by (simp add: wf_decsa_key_def)
  obtain out c n where P: "decrypt_packets (keys\<lparr>fastecm := fe\<rparr>) J data rs = (out, c, n)" by (metis prod_cases3)
  note spec = decrypt_packets_spec [OF in_order_cluster_ok [OF ord] wk J P refl refl refl]
  have "Decrypt_packets J data rs (DeCSAKeyArray d1 ! nat idx) = (out, c, n)" by (simp add: Decrypt_packets_def key P)
  then have R: "ok = (n > 0)" "data' = out"
    using D rs(1) alg m d wp(1) unfolding adapter_Decrypt_def scan bind.simps option.case Let_def sd ci rs_def [symmetric]
    by (simp_all add: g pw go(1))
  have sel: "selected 0 False (map (\<lambda>a. pk a data) (cluster_packets rs)) =
      True # tl (selected 0 False (map (\<lambda>a. pk a data) (cluster_packets rs)))"
    by (subst (1 2) front) (simp add: sc Let_def)
  have "pk 0 out = descramble (keys\<lparr>fastecm := fe\<rparr>) (pk 0 data)"
  proof -
    have "map (\<lambda>a. pk a out) (cluster_packets rs) ! 0 =
        map2 (\<lambda>b p. if b then descramble (keys\<lparr>fastecm := fe\<rparr>) p else p)
          (selected 0 False (map (\<lambda>a. pk a data) (cluster_packets rs))) (map (\<lambda>a. pk a data) (cluster_packets rs)) ! 0"
      using spec by simp
    then show ?thesis by (subst (asm) (1 2 3) front, subst (asm) sel) simp
  qed
  also have "\<dots> = q"
    using scramble_descramble(3) [of q "keys\<lparr>fastecm := fe\<rparr>" od] q by (simp add: receivable_def)
  finally have "pk 0 data' = q" by (simp add: R)
  moreover have "n > 0" using spec sel by (metis (no_types, lifting) id_apply length_greater_0_conv list.discI takeWhile.simps(2))
  ultimately show ?thesis using R by simp
qed

subsection \<open>What the messages leave\<close>

lemma SetCaPid_maps:
  assumes "wf_decsa d" "0 \<le> idx" "idx < 32" "uint a < 64" "pid < 0x1FFF" "SetCaPid a pid idx d = Some d'"
  shows "SearchPIDinMAP (uint pid) (DeCSAArray d' ! unat a) = idx" "DeCSAKeyArray d' = DeCSAKeyArray d"
proof -
  have a: "unat a < length (DeCSAArray d)"
  proof -
    have "uint a = int (unat a)" by simp
    then have "unat a < 64" using assms(4) by linarith
    then show ?thesis using assms(1) by (simp add: wf_decsa_def)
  qed
  have "d' = with_adapter (unat a) (adapter_SetCaPid (uint pid) idx) d"
    using assms upd_adapter_Some [OF assms(1) _ assms(4), of "adapter_SetCaPid (uint pid) idx"] by (simp add: SetCaPid_def)
  moreover have "uint (word_of_int idx :: u8) = idx" using assms(2,3) by (simp add: uint_u8_of)
  ultimately show "SearchPIDinMAP (uint pid) (DeCSAArray d' ! unat a) = idx" "DeCSAKeyArray d' = DeCSAKeyArray d"
    using assms(2) a by (simp_all add: adapter_SetCaPid_def SearchPIDinMAP_def sm_find_put)
qed

lemma Des_set_key_same: "Des_set_key cw p k = Some k' \<Longrightarrow> dk_key k' = dk_key k \<and> dk_Aes k' = dk_Aes k \<and> dk_algo k' = dk_algo k"
  by (auto simp: Des_set_key_def split: if_splits Option.bind_splits)

lemma SetDescr_word:
  fixes od :: bool and cw :: bytes and d :: "'c decsa" and junk now fm a
  assumes d: "wf_decsa d" and idx: "0 \<le> idx" "idx < 32"
    and alg: "dk_algo (DeCSAKeyArray d ! nat idx) \<noteq> CA_ALGO_DES" "dk_algo (DeCSAKeyArray d ! nat idx) \<noteq> CA_ALGO_AES128"
  defines "index \<equiv> word_of_int idx" and "parity \<equiv> (if od then 1 else 0) :: u32"
  assumes D: "do { d \<leftarrow> SetAes index False d; SetDescr junk now fm index parity cw a d } = Some d'"
  shows "DeCSAArray d' = DeCSAArray d" "csa_mode (DeCSAKeyArray d' ! nat idx)"
    "\<exists>keys. dk_key (DeCSAKeyArray d' ! nat idx) = Some keys \<and>
       (if od then odd_key keys else even_key keys) = schedule_key cw (GetECM fm a index parity)"
proof -
  let ?i = "nat idx"
  have i: "?i < length (DeCSAKeyArray d)" using assms(1-3) by (simp add: wf_decsa_def)
  have s: "sint index = idx" using assms(2,3) by (simp add: index_def signed_of_int signed_take_bit_int_eq_self)
  have ui: "uint index = idx" using assms(2,3) by (simp add: index_def uint_word_of_int)
  have il: "index < 32" using assms(3) ui by (simp add: word_less_def)
  define d1 where "d1 = with_key ?i (key_SetAes False) d"
  have aes: "SetAes index False d = Some d1"
    using upd_key_Some [OF key_at_Some [OF d idx], of "key_SetAes False"] by (simp add: SetAes_def il ui d1_def)
  have w1: "wf_decsa d1" unfolding d1_def by (rule wf_with_key [OF d]) (rule wf_intros)
  obtain k0 keys where k: "GetorCreateKeyStruct junk (DeCSAKeyArray d1 ! ?i) = (True, k0)"
    "dk_key k0 = Some keys" "dk_Aes k0 = False" "dk_algo k0 = dk_algo (DeCSAKeyArray d ! ?i)"
    using i by (cases "dk_key (DeCSAKeyArray d ! ?i)") (auto simp: GetorCreateKeyStruct_def key_SetAes_def d1_def)
  define d2 where "d2 = with_key ?i (\<lambda>_. k0) d1"
  have g: "GetKeyStruct junk idx d1 = Some (True, d2)" using idx by (simp add: GetKeyStruct_def key_at_Some [OF w1 idx] k(1) d2_def)
  have i2: "?i < length (DeCSAKeyArray d2)" "DeCSAArray d2 = DeCSAArray d" "DeCSAKeyArray d2 ! ?i = k0"
    using i by (simp_all add: d2_def d1_def)
  have par: "\<not> parity > 1" "parity = 0 \<longleftrightarrow> \<not> od" by (simp_all add: parity_def)
  have at: "key_at idx e = Some (DeCSAKeyArray e ! ?i)" if "?i < length (DeCSAKeyArray e)" for e :: "'c decsa"
    using that idx by (simp add: key_at_def rd_def)
  obtain k1 where k1: "Des_set_key cw (unat parity) k0 = Some k1"
    using D idx by (cases "Des_set_key cw (unat parity) k0")
      (simp_all add: aes SetDescr_def par(1) s g upd_key_def at i2 Let_def)
  note ks = Des_set_key_same [OF k1]
  define d3 where "d3 = with_key ?i (\<lambda>_. k1) d2"
  have u3: "upd_key idx (Des_set_key cw (unat parity)) d2 = Some d3" using i2 by (simp add: upd_key_def at k1 d3_def)
  have i3: "?i < length (DeCSAKeyArray d3)" "DeCSAArray d3 = DeCSAArray d" "DeCSAKeyArray d3 ! ?i = k1"
    using i2 by (simp_all add: d3_def)
  have d': "d' = with_key ?i (\<lambda>_. snd ((if od then Set_odd_control_word else Set_even_control_word) now cw (GetECM fm a index parity) k1)) d3"
  proof -
    have "upd_key idx (\<lambda>k. Some (snd ((if od then Set_odd_control_word else Set_even_control_word) now cw (GetECM fm a index parity) k))) d3 = Some d'"
      using D idx by (cases od) (simp_all add: aes SetDescr_def par s g u3 Let_def)
    then show ?thesis using i3 by (simp add: upd_key_def at)
  qed
  have "DeCSAArray d' = DeCSAArray d \<and> csa_mode (DeCSAKeyArray d' ! ?i) \<and>
    (\<exists>keys. dk_key (DeCSAKeyArray d' ! ?i) = Some keys \<and>
       (if od then odd_key keys else even_key keys) = schedule_key cw (GetECM fm a index parity))"
    using i3 k ks alg unfolding d'
    by (cases od) (simp_all add: csa_mode_def Set_even_control_word_def
        Set_odd_control_word_def set_even_control_word_def set_odd_control_word_def)
  then show "DeCSAArray d' = DeCSAArray d" "csa_mode (DeCSAKeyArray d' ! nat idx)"
    "\<exists>keys. dk_key (DeCSAKeyArray d' ! nat idx) = Some keys \<and>
       (if od then odd_key keys else even_key keys) = schedule_key cw (GetECM fm a index parity)" by blast+
qed

subsection \<open>The property\<close>

text \<open>C3: OSCam assigns a key index to a pid of an adapter and sends the index a control word of one parity. A
  buffer of 1 to 32 packets of the pid, scrambled with that word, then comes back from \<open>SCCAMSlot::Decrypt\<close>
  as the packets that were scrambled, provided that the slot's fill control lets the buffer pass, the key is in
  CSA mode, and FastECM does not have to wait.\<close>

theorem system_recovers:
  fixes pid :: u32 and a :: u8 and od :: bool
  defines "index idx \<equiv> word_of_int idx :: u32" and "parity \<equiv> (if od then 1 else 0) :: u32"
  assumes s: "wf_plugin s" "host_ok h" and i: "i < length (pl_slots s)" "pl_slots s ! i = (uint a, fc)"
    and ids: "0 \<le> idx" "idx < 32" "uint a < 64" "pid < 0x1FFF" "length cw = 8"
    and alg: "dk_algo (DeCSAKeyArray (pl_decsa s) ! nat idx) \<noteq> CA_ALGO_DES"
      "dk_algo (DeCSAKeyArray (pl_decsa s) ! nat idx) \<noteq> CA_ALGO_AES128"
    and msgs: "steps h [Message t1 (M_SetPid a pid idx), Message t2 (M_SetDescr a (index idx) parity cw)] s = Some (s1, os)"
    and qs: "qs \<noteq> []" "length qs \<le> 32" "\<forall>q \<in> set qs. receivable (uint pid) q"
    and K: "(if od then odd_key K else even_key K) = schedule_key cw (GetECM (pl_pidmap s) a (index idx) parity)"
    and fill: "snd (CanProcess fc addr (188 * int (length qs)))"
    and now: "\<not> must_sleep (h_fastecm h) (Some (pl_pmt s)) (unat a) (nat idx) (uint pid) (if od then 2 else 1) (pl_decsa s1)"
  shows "\<exists>s2. step h (Decrypt_at i addr (concat (map (scramble K od) qs))) s1 = Some (s2, [To_device (Some (concat qs))])"
proof -
  obtain d0 where d0: "SetCaPid a pid idx (pl_decsa s) = Some d0"
    using msgs by (cases "SetCaPid a pid idx (pl_decsa s)") (simp_all add: call_decsa_def)
  obtain d' where D': "do { d \<leftarrow> SetAes (index idx) False d0; SetDescr (h_keys h) t2 (pl_pidmap s) (index idx) parity cw a d } = Some d'"
    and s1: "pl_decsa s1 = d'" "pl_pidmap s1 = pl_pidmap s" "pl_pmt s1 = pl_pmt s" "pl_slots s1 = pl_slots s"
    using msgs d0 by (auto simp: call_decsa_def bind_eq_Some_conv)
  have s0: "wf_decsa (pl_decsa s)" using s(1) by (rule wf_pluginD)
  have d: "wf_decsa d0" using returns_SetCaPid [OF s0, of a pid idx] d0 by simp
  note m = SetCaPid_maps [OF s0 ids(1-4) d0]
  note w = SetDescr_word [OF d ids(1,2), unfolded m(2), OF alg, of "h_keys h" t2 "pl_pidmap s" od cw a d', folded index_def parity_def,
      OF D']
  obtain keys where keys: "dk_key (DeCSAKeyArray d' ! nat idx) = Some keys"
    "(if od then odd_key keys else even_key keys) = schedule_key cw (GetECM (pl_pidmap s) a (index idx) parity)"
    using w(3) by blast
  have d': "wf_decsa d'"
    using steps_good [OF s, of "[Message t1 (M_SetPid a pid idx), Message t2 (M_SetDescr a (index idx) parity cw)]"] msgs ids s1(1)
    by (auto simp: step_good_def simp del: steps.simps intro: wf_pluginD)
  have p: "uint pid < 0x1FFF" using ids(4) by (simp add: word_less_def)
  have ua: "unat a < 64" "u8_of (uint a) = a"
  proof -
    have "uint a = int (unat a)" by simp
    then show "unat a < 64" using ids(3) by linarith
  qed simp
  let ?data = "concat (map (scramble K od) qs)"
  have "SearchPIDinMAP (uint pid) (DeCSAArray d' ! unat a) = idx" using m(1) w(1) by simp
  from adapter_Decrypt_recovers [OF d' _ _ ua(1) this ids(1,2) p w(2) keys(1) _ qs(3,1,2) now [unfolded s1], of "h_env h" "h_junk h" K
      "h_evp h" "h_keys h"]
  obtain d2 where D: "adapter_Decrypt (h_evp h) (h_env h) (h_keys h) (h_junk h) (h_fastecm h) (Some (pl_pmt s)) (unat a) ?data
      (int (length ?data)) True d' = Some (True, concat qs, d2)"
    using K keys(2) s(2) by (auto simp: host_ok_def)
  have t: "taken (uint pid) od p" if "p \<in> set (map (scramble K od) qs)" for p
    using that qs(3) scramble_taken by auto
  then have lp: "\<forall>p \<in> set (map (scramble K od) qs). length p = TS_SIZE" by (auto simp: taken_def)
  have l: "length ?data = 188 * length qs" using length_concat_packets [OF lp] by simp
  obtain fc' can where c: "CanProcess fc addr (int (length ?data)) = (fc', can)" by fastforce
  have "int (length ?data) = 188 * int (length qs)" unfolding l by simp
  then have can: "CanProcess fc addr (int (length ?data)) = (fc', True)" using fill c by simp
  have "0 < length qs" using qs(1) by simp
  then have "pk 0 ?data = map (scramble K od) qs ! 0" using packets_of_concat [OF lp, of 0] by simp
  then have "taken (uint pid) od (pk 0 ?data)" using t \<open>0 < length qs\<close> by simp
  moreover have "3 < length ?data" using l \<open>0 < length qs\<close> by linarith
  ultimately have b: "rd ?data 3 = Some (?data ! 3)" "?data ! 3 AND 0xC0 \<noteq> 0"
    by (auto simp: rd_simps taken_def pk_def split: if_splits)
  have "slot_Decrypt h (uint a) addr ?data fc s1 = Some (Some (concat qs), fc', s1\<lparr>pl_decsa := d2\<rparr>, [])"
    unfolding slot_Decrypt_def can prod.case Let_def b(1) using b(2) ids(3)
    by (simp add: DeCSA_Decrypt_def ua(2) s1 D d')
  then show ?thesis using i(2) by (simp add: s1)
qed

text \<open>A receiver with a slot that lets two packets pass.\<close>

definition plugin1 :: "unit plugin" where
  "plugin1 = plugin0\<lparr>pl_slots := [(5, slot0\<lparr>fc_lowWaterMark := 376\<rparr>)]\<rparr>"

lemma wf_plugin1: "wf_plugin plugin1"
  using wf_plugin0 by (simp add: wf_plugin_def plugin1_def plugin0_def slot_ok_def wf_fill_def wf_tap_def slot0_def
      new_fill_control_def fill_Reset_def)

lemma plugin1_at: "pl_decsa plugin1 = decsa0" "pl_pidmap plugin1 = []" "pl_pmt plugin1 = []"
  "pl_slots plugin1 = [(5, slot0\<lparr>fc_lowWaterMark := 376\<rparr>)]"
  by (simp_all add: plugin1_def plugin0_def)

lemma can1: "CanProcess (slot0\<lparr>fc_lowWaterMark := 376\<rparr>) addr 376 = (slot0\<lparr>fc_lowWaterMark := 376\<rparr>, True)"
  by (simp add: CanProcess_def slot0_def new_fill_control_def fill_Reset_def)

definition packet1 :: "u8 \<Rightarrow> bytes" where
  "packet1 b = [0x47, 0, 100, 0x10] @ replicate 184 b"

lemma receivable1: "receivable 100 (packet1 b)"
  by (simp add: receivable_def packet1_def clear_packet_def packet_pid_def ts_packet_get_payload_offset_def)

lemma no_sleep0: "\<not> must_sleep (h_fastecm host0) capmt a idx pid parity d"
  by (simp add: must_sleep_def fast_ecm_def host0_def)

theorem system_recovers_witness:
  "\<exists>s1 s2 os. steps host0 [Message 7 (M_SetPid 5 100 3), Message 8 (M_SetDescr 5 3 1 [1, 2, 3, 6, 5, 6, 7, 18])] plugin1 = Some (s1, os) \<and>
     step host0 (Decrypt_at 0 4096 (scramble (keys0\<lparr>odd_key := schedule_key [1, 2, 3, 6, 5, 6, 7, 18] 0\<rparr>) True (packet1 7) @
        scramble (keys0\<lparr>odd_key := schedule_key [1, 2, 3, 6, 5, 6, 7, 18] 0\<rparr>) True (packet1 9))) s1 =
       Some (s2, [To_device (Some (packet1 7 @ packet1 9))])"
proof -
  let ?cw = "[1, 2, 3, 6, 5, 6, 7, 18] :: bytes"
  let ?K = "keys0\<lparr>odd_key := schedule_key ?cw 0\<rparr>"
  let ?es = "[Message 7 (M_SetPid 5 100 3), Message 8 (M_SetDescr 5 (word_of_int 3) (if True then 1 else 0) ?cw)]"
  have "step_good False plugin1 (steps host0 ?es plugin1)"
    using steps_good [OF wf_plugin1 host0_ok, of ?es] by simp
  then obtain s1 os where s1: "steps host0 ?es plugin1 = Some (s1, os)"
    by (cases "steps host0 ?es plugin1") (auto simp: step_good_def)
  have w: "(if True then odd_key ?K else even_key ?K) =
      schedule_key ?cw (GetECM (pl_pidmap plugin1) 5 (word_of_int 3) (if True then 1 else 0))"
    by (simp add: plugin1_at)
  have can: "snd (CanProcess (slot0\<lparr>fc_lowWaterMark := 376\<rparr>) 4096 (188 * int (length [packet1 7, packet1 9])))"
    by (simp add: can1)
  have alg: "dk_algo (DeCSAKeyArray (pl_decsa plugin1) ! nat 3) \<noteq> CA_ALGO_DES"
    "dk_algo (DeCSAKeyArray (pl_decsa plugin1) ! nat 3) \<noteq> CA_ALGO_AES128"
    by (simp_all add: plugin1_at decsa0_at new_decsa_key_def)
  have ids: "0 \<le> (3 :: int)" "(3 :: int) < 32" "uint (5 :: u8) < 64" "(100 :: u32) < 0x1FFF" "length ?cw = 8" by simp_all
  have sl: "0 < length (pl_slots plugin1)" "pl_slots plugin1 ! 0 = (uint (5 :: u8), slot0\<lparr>fc_lowWaterMark := 376\<rparr>)"
    by (simp_all add: plugin1_at)
  have qs: "[packet1 7, packet1 9] \<noteq> []" "length [packet1 7, packet1 9] \<le> 32"
    "\<forall>q \<in> set [packet1 7, packet1 9]. receivable (uint (100 :: u32)) q"
    by (simp_all add: receivable1)
  from system_recovers [OF wf_plugin1 host0_ok sl ids alg s1 qs w can no_sleep0] s1 show ?thesis by simp
qed

text \<open>C4: the contract of \<open>SCCAMSlot::Decrypt\<close> with the receiver, for any buffer of at least one packet with packets
  of any pids: when the first packet was scrambled with the word of its parity under the index of its pid, and the call
  does not return \<open>NULL\<close>, the first packet is descrambled, and every other packet of the buffer is as it was or
  descrambled with the key of its own pid's index.\<close>

theorem slot_delivers:
  fixes a :: u8
  assumes s: "wf_plugin s" "host_ok h" and data: "TS_SIZE \<le> length data" and a: "uint a < 64"
    and cm: "csa_map (pl_decsa s) (DeCSAArray (pl_decsa s) ! unat a)"
    and m: "SearchPIDinMAP pid (DeCSAArray (pl_decsa s) ! unat a) = idx" "0 \<le> idx" "pid < 0x1FFF"
    and k: "dk_key (DeCSAKeyArray (pl_decsa s) ! nat idx) = Some keys"
    and q: "receivable pid q" "take TS_SIZE data = scramble keys od q"
    and fill: "snd (CanProcess fc addr (int (length data)))"
    and w: "\<forall>pid parity. \<not> must_sleep (h_fastecm h) (Some (pl_pmt s)) (unat a) (nat idx) pid parity (pl_decsa s)"
  shows "\<exists>data' fc' s'. slot_Decrypt h (uint a) addr data fc s = Some (Some data', fc', s', []) \<and>
    take TS_SIZE data' = q \<and> length data' = length data \<and>
    (\<forall>x. TS_SIZE dvd x \<and> x + TS_SIZE \<le> length data \<longrightarrow> pk x data' = pk x data \<or>
       (\<exists>keys. dk_key (DeCSAKeyArray (pl_decsa s') ! nat (packet_idx (DeCSAArray (pl_decsa s) ! unat a) (pk x data))) = Some keys \<and>
          pk x data' = descramble keys (pk x data)))"
proof -
  let ?d = "pl_decsa s"
  have d: "wf_decsa ?d" using s(1) by (rule wf_pluginD)
  have ua: "unat a < 64" "u8_of (uint a) = a"
  proof -
    have "uint a = int (unat a)" by simp
    then show "unat a < 64" using a by linarith
  qed simp
  have hs: "env_ok (h_env h)" "junk_ok (h_junk h)" using s(2) by (simp_all add: host_ok_def)
  have i: "idx < 32" using SearchPID_range [OF wf_decsa_map_at [OF d ua(1)], of pid] m(1) by simp
  have p0: "pk 0 data = scramble keys od q" using q(2) by (simp add: pk_def)
  have "evp_ok (h_evp h)" using s(2) by (simp add: host_ok_def)
  from Decrypt_wf [OF d hs(1) this ua(1) order.refl [of "int (length data)"], of "h_keys h" "h_junk h" "h_fastecm h" "Some (pl_pmt s)" True]
  obtain ok data' d' where D: "adapter_Decrypt (h_evp h) (h_env h) (h_keys h) (h_junk h) (h_fastecm h) (Some (pl_pmt s)) (unat a)
      data (int (length data)) True ?d = Some (ok, data', d')" by (auto elim!: returnsE)
  have f: "ok \<and> pk 0 data' = q"
    by (rule adapter_Decrypt_front [OF d hs ua(1) cm _ _ m(1,2) i m(3) k q(1) p0 _ D]) (use data w in simp_all)
  note each = Decrypt_each_packet [OF d hs ua(1) order.refl cm D]
  obtain fc' where can: "CanProcess fc addr (int (length data)) = (fc', True)" using fill by (metis prod.collapse)
  have "taken pid od (pk 0 data)" using scramble_taken [OF q(1)] p0 by simp
  then have b: "rd data 3 = Some (data ! 3)" "data ! 3 AND 0xC0 \<noteq> 0"
    using data by (auto simp: rd_simps taken_def pk_def split: if_splits)
  have "slot_Decrypt h (uint a) addr data fc s = Some (Some data', fc', s\<lparr>pl_decsa := d'\<rparr>, [])"
    unfolding slot_Decrypt_def can prod.case Let_def b(1) using b(2) a
    by (simp add: DeCSA_Decrypt_def ua(2) D d)
  moreover have "take TS_SIZE data' = q" using f by (simp add: pk_def)
  ultimately show ?thesis using each by (intro exI [of _ data'] exI [of _ fc'] exI [of _ "s\<lparr>pl_decsa := d'\<rparr>"]) auto
qed

theorem slot_delivers_witness:
  "\<exists>data' fc' s'. slot_Decrypt host0 5 4096 (scramble (keys0\<lparr>fastecm := fastecm0\<rparr>) True (packet1 7) @ replicate 188 0x47)
      (slot0\<lparr>fc_lowWaterMark := 376\<rparr>) plugin1 = Some (Some data', fc', s', []) \<and> take 188 data' = packet1 7 \<and> length data' = 376"
proof -
  let ?keys = "keys0\<lparr>fastecm := fastecm0\<rparr>"
  let ?data = "scramble ?keys True (packet1 7) @ replicate 188 0x47"
  have "length (scramble ?keys True (packet1 7)) = 188"
    using scramble_taken [OF receivable1, of True ?keys 7] by (simp only: taken_def)
  then have l: "length ?data = 376" "take TS_SIZE ?data = scramble ?keys True (packet1 7)" by simp_all
  have cm: "csa_map (pl_decsa plugin1) (DeCSAArray (pl_decsa plugin1) ! unat (5 :: u8))"
    by (simp add: csa_map_def plugin1_at decsa0_at csa_mode_def new_decsa_key_def)
  have m: "SearchPIDinMAP 100 (DeCSAArray (pl_decsa plugin1) ! unat (5 :: u8)) = 3"
    by (simp add: plugin1_at decsa0_at SearchPIDinMAP_def)
  have k: "dk_key (DeCSAKeyArray (pl_decsa plugin1) ! nat 3) = Some ?keys" by (simp add: plugin1_at decsa0_at)
  have can: "snd (CanProcess (slot0\<lparr>fc_lowWaterMark := 376\<rparr>) 4096 (int (length ?data)))" unfolding l(1) by (simp add: can1)
  have n: "\<forall>pid parity. \<not> must_sleep (h_fastecm host0) (Some (pl_pmt plugin1)) (unat (5 :: u8)) (nat 3) pid parity (pl_decsa plugin1)"
    by (simp add: no_sleep0)
  have c: "TS_SIZE \<le> length ?data" "uint (5 :: u8) < 64" unfolding l(1) by simp_all
  have u: "uint (5 :: u8) = 5" "0 \<le> (3 :: int)" "(100 :: int) < 0x1FFF" by simp_all
  from slot_delivers [OF wf_plugin1 host0_ok c cm m u(2,3) k receivable1 l(2) can n] show ?thesis
    unfolding l(1) u(1) by blast
qed

end
