(* ===== verification/WaitProtocol.thy ===== *)
theory WaitProtocol
  imports DecsaDecrypt
begin

text \<open>
  The handshake between a receiver that waits for a control word in \<open>DeCSAAdapter::Decrypt\<close> and the threads
  that stop it with \<open>CancelWait\<close>: the flags \<open>bCW_Waiting\<close> and \<open>bAbort\<close> and the mutexes \<open>mutexStopDecrypt\<close> and
  \<open>mutexAdapter\<close> of one adapter. Every access to a flag and every lock and unlock is a step of its own, in any
  interleaving. One thread at a time is in \<open>Decrypt\<close> (\<open>mutexDecrypt\<close>), any number are in \<open>CancelWait\<close>, and any
  other operation takes the adapter's mutex for itself. The theories before have the handlers as single steps;
  this one shows what their threads can see of each other.
\<close>

subsection \<open>States\<close>

text \<open>Where the thread in \<open>Decrypt\<close> is: outside; between the lock of the adapter and the wait or the end; before
  the lock of \<open>mutexStopDecrypt\<close>; before a sleep (\<open>isleepcount\<close> so far); asleep; awake with the adapter locked
  again; and on the two ways out of the loop.\<close>

datatype dec_pc =
    D_out
  | D_run
  | D_want
  | D_round nat
  | D_sleep nat
  | D_check nat
  | D_aborting
  | D_abort_clear
  | D_done
  | D_unlock
  | D_after

datatype stop_pc = S_out | S_set | S_lock | S_in | S_unlock

datatype owner = Dec | Stop nat | Other

record wait_state =
  dec :: dec_pc
  stops :: "stop_pc list"
  waiting :: bool
  abort :: bool
  stop_owner :: "owner option"
  adapter_owner :: "owner option"

definition init_state :: "nat \<Rightarrow> wait_state" where
  "init_state n = \<lparr>dec = D_out, stops = replicate n S_out, waiting = False, abort = False, stop_owner = None, adapter_owner = None\<rparr>"

text \<open>\<open>moves\<close> says whether the step is one of a call that is under way, and not the begin of a new one.\<close>

inductive wait_step :: "bool \<Rightarrow> wait_state \<Rightarrow> wait_state \<Rightarrow> bool" where
  enter: "dec s = D_out \<Longrightarrow> adapter_owner s = None \<Longrightarrow>
    wait_step False s (s\<lparr>dec := D_run, adapter_owner := Some Dec\<rparr>)"
| no_wait: "dec s = D_run \<Longrightarrow> wait_step True s (s\<lparr>dec := D_out, adapter_owner := None\<rparr>)"
| announce: "dec s = D_run \<Longrightarrow> wait_step True s (s\<lparr>dec := D_want, waiting := True\<rparr>)"
| lock_stop: "dec s = D_want \<Longrightarrow> stop_owner s = None \<Longrightarrow> wait_step True s (s\<lparr>dec := D_round 0, stop_owner := Some Dec\<rparr>)"
| go_to_sleep: "dec s = D_round n \<Longrightarrow> wait_step True s (s\<lparr>dec := D_sleep (n + 1), adapter_owner := None\<rparr>)"
| wake: "dec s = D_sleep n \<Longrightarrow> adapter_owner s = None \<Longrightarrow>
    wait_step True s (s\<lparr>dec := D_check n, adapter_owner := Some Dec\<rparr>)"
| see_abort: "dec s = D_check n \<Longrightarrow> abort s \<Longrightarrow> wait_step True s (s\<lparr>dec := D_aborting, waiting := False\<rparr>)"
| clear_abort: "dec s = D_aborting \<Longrightarrow> wait_step True s (s\<lparr>dec := D_abort_clear, abort := False\<rparr>)"
| return_false: "dec s = D_abort_clear \<Longrightarrow> wait_step True s (s\<lparr>dec := D_after, stop_owner := None\<rparr>)"
| again: "dec s = D_check n \<Longrightarrow> \<not> abort s \<Longrightarrow> n \<le> imaxSleep \<Longrightarrow> wait_step True s (s\<lparr>dec := D_round n\<rparr>)"
| word_or_timeout: "dec s = D_check n \<Longrightarrow> \<not> abort s \<Longrightarrow> wait_step True s (s\<lparr>dec := D_done\<rparr>)"
| end_wait: "dec s = D_done \<Longrightarrow> wait_step True s (s\<lparr>dec := D_unlock, waiting := False\<rparr>)"
| unlock_stop: "dec s = D_unlock \<Longrightarrow> wait_step True s (s\<lparr>dec := D_after, stop_owner := None\<rparr>)"
| leave: "dec s = D_after \<Longrightarrow> wait_step True s (s\<lparr>dec := D_out, adapter_owner := None\<rparr>)"
| cancel_wait: "i < length (stops s) \<Longrightarrow> stops s ! i = S_out \<Longrightarrow> waiting s \<Longrightarrow> wait_step False s (s\<lparr>stops := (stops s)[i := S_set]\<rparr>)"
| set_abort: "i < length (stops s) \<Longrightarrow> stops s ! i = S_set \<Longrightarrow>
    wait_step True s (s\<lparr>stops := (stops s)[i := S_lock], abort := True\<rparr>)"
| stop_lock: "i < length (stops s) \<Longrightarrow> stops s ! i = S_lock \<Longrightarrow> stop_owner s = None \<Longrightarrow>
    wait_step True s (s\<lparr>stops := (stops s)[i := S_in], stop_owner := Some (Stop i)\<rparr>)"
| reset_abort: "i < length (stops s) \<Longrightarrow> stops s ! i = S_in \<Longrightarrow>
    wait_step True s (s\<lparr>stops := (stops s)[i := S_unlock], abort := False\<rparr>)"
| stop_return: "i < length (stops s) \<Longrightarrow> stops s ! i = S_unlock \<Longrightarrow>
    wait_step True s (s\<lparr>stops := (stops s)[i := S_out], stop_owner := None\<rparr>)"
| other_lock: "adapter_owner s = None \<Longrightarrow> wait_step False s (s\<lparr>adapter_owner := Some Other\<rparr>)"
| other_unlock: "adapter_owner s = Some Other \<Longrightarrow> wait_step True s (s\<lparr>adapter_owner := None\<rparr>)"

definition reaches :: "wait_state \<Rightarrow> wait_state \<Rightarrow> bool" where
  "reaches = (\<lambda>s t. \<exists>b. wait_step b s t)\<^sup>*\<^sup>*"

subsection \<open>Invariant\<close>

fun in_wait :: "dec_pc \<Rightarrow> bool" where
  "in_wait D_out = False" | "in_wait D_run = False" | "in_wait D_want = False" | "in_wait D_after = False"
| "in_wait p = True"

fun announced :: "dec_pc \<Rightarrow> bool" where
  "announced D_want = True" | "announced (D_round n) = True" | "announced (D_sleep n) = True"
| "announced (D_check n) = True" | "announced D_done = True" | "announced p = False"

fun holds_adapter :: "dec_pc \<Rightarrow> bool" where
  "holds_adapter D_out = False" | "holds_adapter (D_sleep n) = False" | "holds_adapter p = True"

fun rounds_ok :: "dec_pc \<Rightarrow> bool" where
  "rounds_ok (D_round n) \<longleftrightarrow> n \<le> imaxSleep"
| "rounds_ok (D_sleep n) \<longleftrightarrow> 0 < n \<and> n \<le> Suc imaxSleep"
| "rounds_ok (D_check n) \<longleftrightarrow> 0 < n \<and> n \<le> Suc imaxSleep"
| "rounds_ok p \<longleftrightarrow> True"

definition stopper_at :: "wait_state \<Rightarrow> stop_pc set \<Rightarrow> nat \<Rightarrow> bool" where
  "stopper_at s P i \<longleftrightarrow> i < length (stops s) \<and> stops s ! i \<in> P"

definition wait_inv :: "wait_state \<Rightarrow> bool" where
  "wait_inv s \<longleftrightarrow>
     (stop_owner s = Some Dec \<longleftrightarrow> in_wait (dec s)) \<and>
     (\<forall>i. stop_owner s = Some (Stop i) \<longleftrightarrow> stopper_at s {S_in, S_unlock} i) \<and>
     stop_owner s \<noteq> Some Other \<and>
     (adapter_owner s = Some Dec \<longleftrightarrow> holds_adapter (dec s)) \<and> (\<forall>i. adapter_owner s \<noteq> Some (Stop i)) \<and>
     (waiting s \<longleftrightarrow> announced (dec s)) \<and>
     (abort s \<longrightarrow> (\<exists>i. stopper_at s {S_lock, S_in} i)) \<and>
     rounds_ok (dec s)"

lemma init_inv: "wait_inv (init_state n)"
  by (auto simp: wait_inv_def init_state_def stopper_at_def)

lemma stopper_at_fields [simp]:
  "stopper_at (s\<lparr>dec := p\<rparr>) P i = stopper_at s P i" "stopper_at (s\<lparr>waiting := w\<rparr>) P i = stopper_at s P i"
  "stopper_at (s\<lparr>abort := w\<rparr>) P i = stopper_at s P i" "stopper_at (s\<lparr>stop_owner := ow\<rparr>) P i = stopper_at s P i"
  "stopper_at (s\<lparr>adapter_owner := ow\<rparr>) P i = stopper_at s P i"
  by (simp_all add: stopper_at_def)

lemma stopper_moves:
  assumes "i < length (stops s)" "stops s ! i = q" "stops t = (stops s)[i := p]"
  shows "stopper_at t P j \<longleftrightarrow> (if j = i then p \<in> P else stopper_at s P j)" "stopper_at s P i \<longleftrightarrow> q \<in> P"
  using assms by (auto simp: stopper_at_def)

lemma pending_moves:
  assumes "i < length (stops s)" "stops s ! i = q" "stops t = (stops s)[i := p]"
    "p \<in> {S_lock, S_in} \<or> q \<notin> {S_lock, S_in} \<and> (\<exists>j. stopper_at s {S_lock, S_in} j)"
  shows "\<exists>j. stopper_at t {S_lock, S_in} j"
proof -
  note m = stopper_moves [OF assms(1-3), of "{S_lock, S_in}"]
  show ?thesis
  proof (cases "p \<in> {S_lock, S_in}")
    case True
    then have "stopper_at t {S_lock, S_in} i" using m(1) by simp
    then show ?thesis ..
  next
    case False
    then obtain j where "stopper_at s {S_lock, S_in} j" "q \<notin> {S_lock, S_in}" using assms(4) by blast
    then have "stopper_at t {S_lock, S_in} j" using m by metis
    then show ?thesis ..
  qed
qed

lemma step_inv:
  assumes s: "wait_inv s" and step: "wait_step b s t"
  shows "wait_inv t"
  using step
proof cases
  case (cancel_wait i)
  then have f: "dec t = dec s" "waiting t = waiting s" "adapter_owner t = adapter_owner s" "abort t = abort s" "stop_owner t = stop_owner s"
    "stops t = (stops s)[i := S_set]" by simp_all
  show ?thesis
    using s stopper_moves [OF cancel_wait(3,4) f(6)] pending_moves [OF cancel_wait(3,4) f(6)] cancel_wait(5-) unfolding wait_inv_def f(1-5)
    by (auto split: if_splits)
next
  case (set_abort i)
  then have f: "dec t = dec s" "waiting t = waiting s" "adapter_owner t = adapter_owner s" "abort t = True" "stop_owner t = stop_owner s"
    "stops t = (stops s)[i := S_lock]" by simp_all
  show ?thesis
    using s stopper_moves [OF set_abort(3,4) f(6)] pending_moves [OF set_abort(3,4) f(6)] unfolding wait_inv_def f(1-5)
    by (auto split: if_splits)
next
  case (stop_lock i)
  then have f: "dec t = dec s" "waiting t = waiting s" "adapter_owner t = adapter_owner s" "abort t = abort s" "stop_owner t = Some (Stop i)"
    "stops t = (stops s)[i := S_in]" by simp_all
  show ?thesis
    using s stopper_moves [OF stop_lock(3,4) f(6)] pending_moves [OF stop_lock(3,4) f(6)] stop_lock(5-) unfolding wait_inv_def f(1-5)
    by (auto split: if_splits)
next
  case (reset_abort i)
  then have f: "dec t = dec s" "waiting t = waiting s" "adapter_owner t = adapter_owner s" "abort t = False" "stop_owner t = stop_owner s"
    "stops t = (stops s)[i := S_unlock]" by simp_all
  show ?thesis
    using s stopper_moves [OF reset_abort(3,4) f(6)] unfolding wait_inv_def f(1-5) by (auto split: if_splits)
next
  case (stop_return i)
  then have f: "dec t = dec s" "waiting t = waiting s" "adapter_owner t = adapter_owner s" "abort t = abort s" "stop_owner t = None"
    "stops t = (stops s)[i := S_out]" by simp_all
  note u = stopper_moves [OF stop_return(3,4) f(6)]
  have "stop_owner s = Some (Stop i)" using s u(2) by (simp add: wait_inv_def)
  then have "\<not> in_wait (dec s)" "\<forall>j. stopper_at s {S_in, S_unlock} j \<longleftrightarrow> j = i" using s by (auto simp: wait_inv_def)
  then show ?thesis
    using s u pending_moves [OF stop_return(3,4) f(6)] unfolding wait_inv_def f(1-5) by (auto split: if_splits)
qed (use s in \<open>auto simp: wait_inv_def\<close>)

lemma reaches_inv: "reaches s t \<Longrightarrow> wait_inv s \<Longrightarrow> wait_inv t"
  unfolding reaches_def by (induction rule: rtranclp_induct) (auto intro: step_inv)

lemma reaches_step: "reaches s t \<Longrightarrow> wait_step b t u \<Longrightarrow> reaches s u"
  unfolding reaches_def by (rule rtranclp.rtrancl_into_rtrancl) blast+

lemma reaches_refl: "reaches s s"
  by (simp add: reaches_def)

subsection \<open>Progress\<close>

definition at_rest :: "wait_state \<Rightarrow> bool" where
  "at_rest s \<longleftrightarrow> dec s = D_out \<and> (\<forall>i < length (stops s). stops s ! i = S_out) \<and> adapter_owner s \<noteq> Some Other"

lemma stopper_progress:
  assumes s: "wait_inv s" and i: "i < length (stops s)" "stops s ! i \<noteq> S_out" and n: "stop_owner s \<noteq> Some Dec"
  shows "\<exists>t. wait_step True s t"
proof (cases "stop_owner s")
  case None
  then show ?thesis using i by (cases "stops s ! i") (blast intro: wait_step.intros)+
next
  case (Some ow)
  then obtain j where "stopper_at s {S_in, S_unlock} j" using s n by (cases ow) (auto simp: wait_inv_def)
  then show ?thesis by (auto simp: stopper_at_def intro: wait_step.intros)
qed

lemma dec_progress:
  assumes s: "wait_inv s" and d: "dec s \<noteq> D_out"
  shows "\<exists>t. wait_step True s t"
proof (cases "dec s")
  case D_want
  show ?thesis
  proof (cases "stop_owner s")
    case None
    then show ?thesis using D_want by (blast intro: wait_step.intros)
  next
    case (Some ow)
    then obtain j where "stopper_at s {S_in, S_unlock} j" using s D_want by (cases ow) (auto simp: wait_inv_def)
    then show ?thesis by (auto simp: stopper_at_def intro: wait_step.intros)
  qed
next
  case (D_sleep n)
  show ?thesis
  proof (cases "adapter_owner s")
    case None
    then show ?thesis using D_sleep by (blast intro: wait_step.intros)
  next
    case (Some ow)
    then have "adapter_owner s = Some Other" using s D_sleep by (cases ow) (auto simp: wait_inv_def)
    then show ?thesis by (blast intro: wait_step.intros)
  qed
next
  case (D_check n)
  then show ?thesis by (cases "abort s") (blast intro: wait_step.intros)+
qed (use d in \<open>blast intro: wait_step.intros\<close>)+

lemma progress:
  assumes s: "wait_inv s" and r: "\<not> at_rest s"
  shows "\<exists>t. wait_step True s t"
proof (cases "dec s = D_out")
  case True
  then have "stop_owner s \<noteq> Some Dec" using s by (simp add: wait_inv_def)
  then show ?thesis using True r stopper_progress [OF s] by (auto simp: at_rest_def intro: wait_step.intros)
qed (rule dec_progress [OF s])

subsection \<open>A request to stop\<close>

text \<open>The part of the wait that heeds a request: the receiver has the lock of \<open>mutexStopDecrypt\<close> and the test of
  \<open>bAbort\<close> is still before it. Not in it are the moment after \<open>bCW_Waiting = true\<close> in which it has no lock yet, and
  everything after a test that let it go on to its end.\<close>

fun heeds :: "dec_pc \<Rightarrow> bool" where
  "heeds (D_round n) = True"
| "heeds (D_sleep n) = True"
| "heeds (D_check n) = True"
| "heeds p = False"

text \<open>How far the waiting thread is from leaving once \<open>bAbort\<close> is set there.\<close>

fun abort_distance :: "dec_pc \<Rightarrow> nat" where
  "abort_distance (D_round n) = 5"
| "abort_distance (D_sleep n) = 4"
| "abort_distance (D_check n) = 3"
| "abort_distance D_aborting = 2"
| "abort_distance D_abort_clear = 1"
| "abort_distance p = 0"

lemma abort_step:
  assumes s: "wait_inv s" and a: "abort s" "heeds (dec s)" and step: "wait_step b s t"
  shows "(dec t = dec s \<and> abort t) \<or> (abort_distance (dec t) + 1 = abort_distance (dec s) \<and>
      (heeds (dec t) \<and> abort t \<or> dec t = D_aborting))"
proof -
  have "in_wait (dec s)" using a(2) by (cases "dec s") auto
  then have n: "stop_owner s = Some Dec" "\<And>i. \<not> stopper_at s {S_in, S_unlock} i" using s by (auto simp: wait_inv_def)
  from step show ?thesis using a n by cases (auto simp: stopper_at_def)
qed

text \<open>The window between \<open>bCW_Waiting = true\<close> and the lock of \<open>mutexStopDecrypt\<close>: a thread in \<open>CancelWait\<close> can set
  \<open>bAbort\<close>, take the mutex and reset \<open>bAbort\<close> before the waiting thread has the mutex. It returns, and the wait goes on
  with no request left.\<close>

lemma request_lost:
  "\<exists>s t. reaches (init_state 1) s \<and> waiting s \<and> dec s = D_want \<and> stops s = [S_set] \<and> reaches s t \<and>
     stops t = [S_out] \<and> waiting t \<and> dec t = D_sleep 1 \<and> \<not> abort t"
proof -
  let ?s0 = "init_state 1"
  let ?s1 = "?s0\<lparr>dec := D_run, adapter_owner := Some Dec\<rparr>"
  let ?s2 = "?s1\<lparr>dec := D_want, waiting := True\<rparr>"
  let ?s3 = "?s2\<lparr>stops := [S_set]\<rparr>"
  let ?s4 = "?s3\<lparr>stops := [S_lock], abort := True\<rparr>"
  let ?s5 = "?s4\<lparr>stops := [S_in], stop_owner := Some (Stop 0)\<rparr>"
  let ?s6 = "?s5\<lparr>stops := [S_unlock], abort := False\<rparr>"
  let ?s7 = "?s6\<lparr>stops := [S_out], stop_owner := None\<rparr>"
  let ?s8 = "?s7\<lparr>dec := D_round 0, stop_owner := Some Dec\<rparr>"
  let ?s9 = "?s8\<lparr>dec := D_sleep (0 + 1), adapter_owner := None\<rparr>"
  have "wait_step False ?s0 ?s1" by (rule enter) (simp_all add: init_state_def)
  moreover have "wait_step True ?s1 ?s2" by (rule announce) simp
  moreover have "wait_step False ?s2 ?s3" using cancel_wait [of 0 ?s2] by (simp add: init_state_def)
  ultimately have "reaches ?s0 ?s3" by (blast intro: reaches_refl reaches_step)
  have "wait_step True ?s3 ?s4" using set_abort [of 0 ?s3] by simp
  moreover have "wait_step True ?s4 ?s5" using stop_lock [of 0 ?s4] by (simp add: init_state_def)
  moreover have "wait_step True ?s5 ?s6" using reset_abort [of 0 ?s5] by simp
  moreover have "wait_step True ?s6 ?s7" using stop_return [of 0 ?s6] by simp
  moreover have "wait_step True ?s7 ?s8" by (rule lock_stop) simp_all
  moreover have "wait_step True ?s8 ?s9" by (rule go_to_sleep) simp
  ultimately have "reaches ?s3 ?s9" by (meson reaches_refl reaches_step)
  with \<open>reaches ?s0 ?s3\<close> show ?thesis by (intro exI [of _ ?s3] exI [of _ ?s9]) simp
qed

text \<open>A thread in \<open>CancelWait\<close> that has seen one wait and sets \<open>bAbort\<close> only after that wait has ended stops the
  next one.\<close>

lemma next_wait_stopped:
  "\<exists>s t u. reaches (init_state 1) s \<and> dec s = D_sleep 1 \<and> stops s = [S_set] \<and>
     reaches s t \<and> dec t = D_out \<and> stops t = [S_set] \<and>
     reaches t u \<and> dec u = D_aborting \<and> stops u = [S_lock]"
proof -
  let ?s0 = "init_state 1"
  let ?s1 = "?s0\<lparr>dec := D_run, adapter_owner := Some Dec\<rparr>"
  let ?s2 = "?s1\<lparr>dec := D_want, waiting := True\<rparr>"
  let ?s3 = "?s2\<lparr>dec := D_round 0, stop_owner := Some Dec\<rparr>"
  let ?s4 = "?s3\<lparr>dec := D_sleep (0 + 1), adapter_owner := None\<rparr>"
  let ?s5 = "?s4\<lparr>stops := [S_set]\<rparr>"
  let ?s6 = "?s5\<lparr>dec := D_check (0 + 1), adapter_owner := Some Dec\<rparr>"
  let ?s7 = "?s6\<lparr>dec := D_done\<rparr>"
  let ?s8 = "?s7\<lparr>dec := D_unlock, waiting := False\<rparr>"
  let ?s9 = "?s8\<lparr>dec := D_after, stop_owner := None\<rparr>"
  let ?t0 = "?s9\<lparr>dec := D_out, adapter_owner := None\<rparr>"
  let ?t1 = "?t0\<lparr>dec := D_run, adapter_owner := Some Dec\<rparr>"
  let ?t2 = "?t1\<lparr>dec := D_want, waiting := True\<rparr>"
  let ?t3 = "?t2\<lparr>dec := D_round 0, stop_owner := Some Dec\<rparr>"
  let ?t4 = "?t3\<lparr>dec := D_sleep (0 + 1), adapter_owner := None\<rparr>"
  let ?t5 = "?t4\<lparr>stops := [S_lock], abort := True\<rparr>"
  let ?t6 = "?t5\<lparr>dec := D_check (0 + 1), adapter_owner := Some Dec\<rparr>"
  let ?t7 = "?t6\<lparr>dec := D_aborting, waiting := False\<rparr>"
  have "wait_step False ?s0 ?s1" by (rule enter) (simp_all add: init_state_def)
  moreover have "wait_step True ?s1 ?s2" by (rule announce) simp
  moreover have "wait_step True ?s2 ?s3" by (rule lock_stop) (simp_all add: init_state_def)
  moreover have "wait_step True ?s3 ?s4" by (rule go_to_sleep) simp
  moreover have "wait_step False ?s4 ?s5" using cancel_wait [of 0 ?s4] by (simp add: init_state_def)
  ultimately have s: "reaches ?s0 ?s5" by (meson reaches_refl reaches_step)
  have "wait_step True ?s5 ?s6" by (rule wake) simp_all
  moreover have "wait_step True ?s6 ?s7" by (rule word_or_timeout) (simp_all add: init_state_def)
  moreover have "wait_step True ?s7 ?s8" by (rule end_wait) simp
  moreover have "wait_step True ?s8 ?s9" by (rule unlock_stop) simp
  moreover have "wait_step True ?s9 ?t0" by (rule leave) simp
  ultimately have t: "reaches ?s5 ?t0" by (meson reaches_refl reaches_step)
  have "wait_step False ?t0 ?t1" by (rule enter) simp_all
  moreover have "wait_step True ?t1 ?t2" by (rule announce) simp
  moreover have "wait_step True ?t2 ?t3" by (rule lock_stop) simp_all
  moreover have "wait_step True ?t3 ?t4" by (rule go_to_sleep) simp
  moreover have "wait_step True ?t4 ?t5" using set_abort [of 0 ?t4] by simp
  moreover have "wait_step True ?t5 ?t6" by (rule wake) simp_all
  moreover have "wait_step True ?t6 ?t7" by (rule see_abort) simp_all
  ultimately have u: "reaches ?t0 ?t7" by (meson reaches_refl reaches_step)
  from s t u show ?thesis by (intro exI [of _ ?s5] exI [of _ ?t0] exI [of _ ?t7]) simp
qed

subsection \<open>The property\<close>

text \<open>C10: what the handshake guarantees in every interleaving of one receiver in \<open>Decrypt\<close>, any number of threads in
  \<open>CancelWait\<close> and the other users of the adapter, and what it does not. No thread in \<open>CancelWait\<close> has the stop mutex
  while the receiver is inside its wait; \<open>bAbort\<close> is set only while some thread is in \<open>CancelWait\<close> between setting and
  resetting it; the receiver sleeps at most 51 times; as long as a call is under way some call can go on. If \<open>bAbort\<close> is
  set while the receiver has the stop mutex and has not yet passed its last test of \<open>bAbort\<close> (\<open>heeds\<close>), then no step of
  another thread takes it back, and the receiver's next steps lead to the abort, without another round. Not guaranteed
  is that a request reaches the wait it is meant for: one that is set before the receiver has the stop mutex can be
  taken back before the receiver sees it, and the wait goes on; and one that is decided on during a wait but set after
  its end stops the next wait.\<close>

theorem wait_protocol:
  assumes "reaches (init_state n) s"
  shows "\<not> (in_wait (dec s) \<and> stopper_at s {S_in, S_unlock} i) \<and>
    (abort s \<longrightarrow> (\<exists>i. stopper_at s {S_lock, S_in} i)) \<and>
    (\<forall>k. dec s = D_sleep k \<longrightarrow> k \<le> 51) \<and>
    (\<not> at_rest s \<longrightarrow> (\<exists>t. wait_step True s t)) \<and>
    (abort s \<and> heeds (dec s) \<and> wait_step b s t \<longrightarrow>
       (dec t = dec s \<and> abort t) \<or>
       (abort_distance (dec t) + 1 = abort_distance (dec s) \<and> (heeds (dec t) \<and> abort t \<or> dec t = D_aborting))) \<and>
    (\<exists>s t. reaches (init_state 1) s \<and> waiting s \<and> dec s = D_want \<and> stops s = [S_set] \<and> reaches s t \<and>
       stops t = [S_out] \<and> waiting t \<and> dec t = D_sleep 1 \<and> \<not> abort t) \<and>
    (\<exists>s t u. reaches (init_state 1) s \<and> dec s = D_sleep 1 \<and> stops s = [S_set] \<and>
       reaches s t \<and> dec t = D_out \<and> stops t = [S_set] \<and>
       reaches t u \<and> dec u = D_aborting \<and> stops u = [S_lock])"
proof -
  have s: "wait_inv s" using reaches_inv [OF assms init_inv] .
  have "\<not> (in_wait (dec s) \<and> stopper_at s {S_in, S_unlock} i)" "abort s \<longrightarrow> (\<exists>i. stopper_at s {S_lock, S_in} i)"
    "\<forall>k. dec s = D_sleep k \<longrightarrow> k \<le> 51"
    using s by (auto simp: wait_inv_def)
  moreover have "\<not> at_rest s \<longrightarrow> (\<exists>t. wait_step True s t)" using progress [OF s] by blast
  moreover have "abort s \<and> heeds (dec s) \<and> wait_step b s t \<longrightarrow>
       (dec t = dec s \<and> abort t) \<or>
       (abort_distance (dec t) + 1 = abort_distance (dec s) \<and> (heeds (dec t) \<and> abort t \<or> dec t = D_aborting))"
    using abort_step [OF s] by blast
  ultimately show ?thesis using request_lost next_wait_stopped by (intro conjI) assumption+
qed

text \<open>A receiver that sleeps, with a request set: no thread but it can move it, and it goes on to the test.\<close>

theorem wait_protocol_witness:
  "(\<exists>t. wait_step True (init_state 2\<lparr>dec := D_run, adapter_owner := Some Dec\<rparr>) t) \<and>
   (\<exists>s. reaches (init_state 1) s \<and> dec s = D_sleep 1 \<and> abort s \<and>
      (\<forall>b t. wait_step b s t \<longrightarrow> dec t = D_sleep 1 \<and> abort t \<or> abort_distance (dec t) = 3 \<and> abort t))"
proof -
  let ?r = "init_state 2\<lparr>dec := D_run, adapter_owner := Some Dec\<rparr>"
  have "wait_step False (init_state 2) ?r" by (rule enter) (simp_all add: init_state_def)
  then have r: "reaches (init_state 2) ?r" using reaches_refl reaches_step by blast
  have "\<not> at_rest ?r" by (simp add: at_rest_def)
  then have 1: "\<exists>t. wait_step True ?r t" using wait_protocol [OF r] by blast
  let ?s0 = "init_state 1"
  let ?s1 = "?s0\<lparr>dec := D_run, adapter_owner := Some Dec\<rparr>"
  let ?s2 = "?s1\<lparr>dec := D_want, waiting := True\<rparr>"
  let ?s3 = "?s2\<lparr>dec := D_round 0, stop_owner := Some Dec\<rparr>"
  let ?s4 = "?s3\<lparr>dec := D_sleep (0 + 1), adapter_owner := None\<rparr>"
  let ?s5 = "?s4\<lparr>stops := [S_set]\<rparr>"
  let ?s6 = "?s5\<lparr>stops := [S_lock], abort := True\<rparr>"
  have "wait_step False ?s0 ?s1" by (rule enter) (simp_all add: init_state_def)
  moreover have "wait_step True ?s1 ?s2" by (rule announce) simp
  moreover have "wait_step True ?s2 ?s3" by (rule lock_stop) (simp_all add: init_state_def)
  moreover have "wait_step True ?s3 ?s4" by (rule go_to_sleep) simp
  moreover have "wait_step False ?s4 ?s5" using cancel_wait [of 0 ?s4] by (simp add: init_state_def)
  moreover have "wait_step True ?s5 ?s6" using set_abort [of 0 ?s5] by simp
  ultimately have r6: "reaches ?s0 ?s6" by (meson reaches_refl reaches_step)
  have a: "abort ?s6 \<and> heeds (dec ?s6)" "dec ?s6 = D_sleep 1" "abort_distance (dec ?s6) = 4" by simp_all
  have "dec t = D_sleep 1 \<and> abort t \<or> abort_distance (dec t) = 3 \<and> abort t" if "wait_step b ?s6 t" for b t
  proof -
    have "(dec t = dec ?s6 \<and> abort t) \<or>
       (abort_distance (dec t) + 1 = abort_distance (dec ?s6) \<and> (heeds (dec t) \<and> abort t \<or> dec t = D_aborting))"
      using wait_protocol [OF r6, of _ b t] a(1) that by blast
    then show ?thesis using a(2,3) by auto
  qed
  with r6 a(1,2) have "\<exists>s. reaches (init_state 1) s \<and> dec s = D_sleep 1 \<and> abort s \<and>
      (\<forall>b t. wait_step b s t \<longrightarrow> dec t = D_sleep 1 \<and> abort t \<or> abort_distance (dec t) = 3 \<and> abort t)" by blast
  with 1 show ?thesis by blast
qed

end
