(* ===== verification/Plugin.thy ===== *)
theory Plugin
  imports SystemInv CiAdapter StdText
begin

text \<open>
  The plugin as VDR loads it (DVBAPI.cpp, DVBAPI.h), its settings (DVBAPISetup.cpp), the log levels (Log.h)
  and the start and stop of the CI adapter (SCCIAdapter.cpp). \<open>Start\<close> creates the objects; the plugin it leaves is
  the start state of theory \<open>System\<close>.

  VDR is not part of the repository; what the code uses of it is the record \<open>vdr\<close> with the
  documented behaviour \<open>vdr_ok\<close>. The results of \<open>getopt_long\<close> are an argument of \<open>ProcessArgs\<close>. \<open>None\<close> is a call
  through a null pointer, an access outside an array, or an undefined \<open>atoi\<close>.
\<close>

subsection \<open>VDR\<close>

text \<open>\<open>v_strn0cpy src n\<close> is the string that \<open>strn0cpy\<close> leaves in a buffer of \<open>n\<close> bytes, \<open>v_int_text\<close> what \<open>SetupStore\<close>
  writes for an \<open>int\<close>. A device is its card index and its number of provided systems.\<close>

record 'r vdr =
  v_version :: string
  v_strn0cpy :: "string \<Rightarrow> nat \<Rightarrow> string"
  v_int_text :: "int \<Rightarrow> string"
  v_MAXDEVICES :: nat
  v_devices :: "(int \<times> int) option list"
  v_ring :: "'r ring_ops"
  v_new_ring :: "nat \<Rightarrow> nat \<Rightarrow> 'r"

definition vdr_ok :: "'r vdr \<Rightarrow> bool" where
  "vdr_ok V \<longleftrightarrow> (\<forall>s n. 0 < n \<longrightarrow> v_strn0cpy V s n = take (n - 1) s) \<and> (\<forall>v. v_int_text V v = print_int v) \<and>
     length (v_devices V) \<le> v_MAXDEVICES V \<and>
     (\<forall>(cardIdx, systems) \<in> set (concat (map (\<lambda>d. case d of None \<Rightarrow> [] | Some x \<Rightarrow> [x]) (v_devices V))). 0 \<le> cardIdx \<and> cardIdx < 256)"

subsection \<open>Settings and log\<close>

text \<open>The limit of Linux.\<close>

definition HOST_NAME_MAX :: nat where "HOST_NAME_MAX = 64"

record settings =
  LogLevel :: int
  OSCamHost :: string
  OSCamPort :: int
  ENABLEFASTECM :: int
  AdapterIndexOffset :: u32

definition default_settings :: settings where
  "default_settings = \<lparr>LogLevel = 2, OSCamHost = ''localhost'', OSCamPort = 2000, ENABLEFASTECM = 1, AdapterIndexOffset = 0\<rparr>"

datatype priority = LOG_ERR | LOG_INFO | LOG_DEBUG

type_synonym log = "(priority \<times> string) list"

definition ERRORLOG :: "settings \<Rightarrow> string \<Rightarrow> log" where
  "ERRORLOG s a = (if LogLevel s \<ge> 1 then [(LOG_ERR, ''DVBAPI-Error: '' @ a)] else [])"

definition INFOLOG :: "settings \<Rightarrow> string \<Rightarrow> log" where
  "INFOLOG s a = (if LogLevel s \<ge> 2 then [(LOG_INFO, ''DVBAPI: '' @ a)] else [])"

definition DEBUGLOG :: "settings \<Rightarrow> string \<Rightarrow> log" where
  "DEBUGLOG s a = (if LogLevel s \<ge> 3 then [(LOG_DEBUG, ''DVBAPI: '' @ a)] else [])"

definition CONFNAME_LOGLEVEL :: string where "CONFNAME_LOGLEVEL = ''LogLevel''"
definition CONFNAME_OSCAMHOST :: string where "CONFNAME_OSCAMHOST = ''OSCamHost''"
definition CONFNAME_OSCAMPORT :: string where "CONFNAME_OSCAMPORT = ''OSCamPort''"
definition CONFNAME_ADAPTERINDEXOFFSET :: string where "CONFNAME_ADAPTERINDEXOFFSET = ''AdapterIndexOffset''"
definition CONFNAME_OSCAMFASTECM :: string where "CONFNAME_OSCAMFASTECM = ''OSCamFastECM''"

text \<open>The loop of \<open>ProcessArgs\<close> over the results of \<open>getopt_long\<close>: the option character and \<open>optarg\<close>.\<close>

fun ProcessArgs :: "(char \<times> string) list \<Rightarrow> settings \<Rightarrow> (settings \<times> bool) option" where
  "ProcessArgs [] s = Some (s, True)"
| "ProcessArgs ((c, optarg) # cs) s =
     (if c = CHR ''o'' then do { v \<leftarrow> atoi optarg; ProcessArgs cs (s\<lparr>AdapterIndexOffset := word_of_int v\<rparr>) }
      else if c = CHR ''d'' then ProcessArgs cs s
      else Some (s, False))"

definition SetupParse :: "'r vdr \<Rightarrow> string \<Rightarrow> string \<Rightarrow> settings \<Rightarrow> (settings \<times> log \<times> bool) option" where
  "SetupParse V Name Value s =
     (if strcaseeq Name CONFNAME_LOGLEVEL then do { v \<leftarrow> atoi Value; Some (s\<lparr>LogLevel := v\<rparr>, [], True) }
      else if strcaseeq Name CONFNAME_OSCAMHOST then Some (s\<lparr>OSCamHost := v_strn0cpy V Value HOST_NAME_MAX\<rparr>, [], True)
      else if strcaseeq Name CONFNAME_OSCAMPORT then do { v \<leftarrow> atoi Value; Some (s\<lparr>OSCamPort := v\<rparr>, [], True) }
      else if strcaseeq Name CONFNAME_OSCAMFASTECM then do { v \<leftarrow> atoi Value; Some (s\<lparr>ENABLEFASTECM := v\<rparr>, [], True) }
      else if strcaseeq Name CONFNAME_ADAPTERINDEXOFFSET then
        (if AdapterIndexOffset s \<noteq> 0
         then Some (s, INFOLOG s (''ignoring config parameter: dvbapi.'' @ CONFNAME_ADAPTERINDEXOFFSET @
                ('' (offset is forced in plugin command line)'')), True)
         else do { v \<leftarrow> atoi Value; Some (s\<lparr>AdapterIndexOffset := word_of_int v\<rparr>, [], True) })
      else Some (s, [], False))"

text \<open>VDR passes every line of its setup file that names the plugin; \<open>True\<close> if all were accepted.\<close>

fun parse_setup :: "'r vdr \<Rightarrow> (string \<times> string) list \<Rightarrow> settings \<Rightarrow> (settings \<times> bool) option" where
  "parse_setup V [] s = Some (s, True)"
| "parse_setup V ((n, v) # ls) s =
     do { (s, l, ok) \<leftarrow> SetupParse V n v s; (s, oks) \<leftarrow> parse_setup V ls s; Some (s, ok \<and> oks) }"

subsection \<open>The setup menu\<close>

datatype menu_item = StrItem nat | IntItem int int

record setup_menu =
  newLogLevel :: int
  newOSCamHost :: string
  newOSCamPort :: int
  newENABLEFASTECM :: int
  menu_items :: "menu_item list"

definition cMenuSetupDVBAPI :: "'r vdr \<Rightarrow> settings \<Rightarrow> setup_menu" where
  "cMenuSetupDVBAPI V s = \<lparr>newLogLevel = LogLevel s, newOSCamHost = v_strn0cpy V (OSCamHost s) HOST_NAME_MAX,
     newOSCamPort = OSCamPort s, newENABLEFASTECM = ENABLEFASTECM s,
     menu_items = [StrItem HOST_NAME_MAX, IntItem 1 0xffff, IntItem 0 3, IntItem 0 1]\<rparr>"

text \<open>\<open>Store\<close>: the new settings and the lines that \<open>SetupStore\<close> is given.\<close>

definition Store :: "'r vdr \<Rightarrow> setup_menu \<Rightarrow> settings \<Rightarrow> setup_menu \<times> settings \<times> (string \<times> string) list" where
  "Store V m s =
     (let m = (if newLogLevel m > 3 then m\<lparr>newLogLevel := 3\<rparr> else m);
          s = s\<lparr>LogLevel := newLogLevel m\<rparr>; l1 = (CONFNAME_LOGLEVEL, v_int_text V (LogLevel s));
          s = s\<lparr>OSCamHost := v_strn0cpy V (newOSCamHost m) HOST_NAME_MAX\<rparr>; l2 = (CONFNAME_OSCAMHOST, OSCamHost s);
          s = s\<lparr>OSCamPort := newOSCamPort m\<rparr>; l3 = (CONFNAME_OSCAMPORT, v_int_text V (OSCamPort s));
          s = s\<lparr>ENABLEFASTECM := newENABLEFASTECM m\<rparr>; l4 = (CONFNAME_OSCAMFASTECM, v_int_text V (ENABLEFASTECM s))
      in (m, s, [l1, l2, l3, l4]))"

subsection \<open>The CI adapter\<close>

text \<open>The constructor of a slot, with the frame queue it creates.\<close>

definition new_cam_slot :: "'r vdr \<Rightarrow> int \<Rightarrow> slot_state \<times> 'r frame" where
  "new_cam_slot V cardIndex =
     (case new_slot cardIndex of
        (st, outs) \<Rightarrow> (st, fst (run_slot_outs (v_ring V) (\<lambda>_. None) outs (SetRb (v_new_ring V 4096 (5 + LEN_OFF)) new_frame))))"

fun create_slots ::
  "'r vdr \<Rightarrow> settings \<Rightarrow> (int \<times> int) option list \<Rightarrow> nat \<Rightarrow> (slot_state \<times> 'r frame) option list
     \<Rightarrow> ((slot_state \<times> 'r frame) option list \<times> log) option" where
  "create_slots V s [] SlotIndex slots = Some (slots, [])"
| "create_slots V s (None # ds) SlotIndex slots = create_slots V s ds SlotIndex slots"
| "create_slots V s (Some (cardIdx, systems) # ds) SlotIndex slots =
     (if systems \<noteq> 0 then
        (let l = INFOLOG s (''Creating SCCAMSlot for device '' @ print_int (cardIdx + 1)) in
         if SlotIndex < length slots
         then do { (slots, ls) \<leftarrow> create_slots V s ds (SlotIndex + 1) (slots[SlotIndex := Some (new_cam_slot V cardIdx)]);
                   Some (slots, l @ ls) }
         else None)
      else create_slots V s ds SlotIndex slots)"

definition new_adapter :: "'r vdr \<Rightarrow> settings \<Rightarrow> ('r adapter \<times> log) option" where
  "new_adapter V s =
     do { (slots, ls) \<leftarrow> create_slots V s (v_devices V) 0 (replicate (v_MAXDEVICES V) None);
          Some (\<lparr>ad_tcid = 0, ad_frame = SetRb (v_new_ring V 8192 (6 + LEN_OFF)) new_frame, ad_slots = slots,
                 ad_stopped = False\<rparr>, ls) }"

text \<open>\<open>SCCAMSlot::Assign\<close>: the devices it hands on to VDR.\<close>

definition slot_Assign :: "slot_state \<Rightarrow> int option \<Rightarrow> bool" where
  "slot_Assign st Device \<longleftrightarrow> (case Device of None \<Rightarrow> True | Some cardIdx \<Rightarrow> cardIdx = sl_card st)"

text \<open>\<open>SCCIAdapter::Stop\<close>, with the slots that are taken off their device.\<close>

definition Adapter_Stop :: "'r adapter \<Rightarrow> 'r adapter \<times> nat list" where
  "Adapter_Stop ad = (ad\<lparr>ad_stopped := True\<rparr>,
     filter (\<lambda>i. case ad_slots ad ! i of None \<Rightarrow> False | Some (st, fr) \<Rightarrow> slot_Assign st None) [0..<length (ad_slots ad)])"

subsection \<open>The plugin object\<close>

text \<open>The objects behind the pointers \<open>capmt\<close>, \<open>decsa\<close> and \<open>filter\<close> are the plugin of theory \<open>System\<close>.\<close>

record ('c, 'r) dvbapi =
  dv_plugin :: "'c plugin option"
  dv_sock :: "sock_state option"
  dv_sCCIAdapter :: "'r adapter option"

definition new_dvbapi :: "('c, 'r) dvbapi" where
  "new_dvbapi = \<lparr>dv_plugin = None, dv_sock = None, dv_sCCIAdapter = None\<rparr>"

definition delete_dvbapi :: "('c, 'r) dvbapi \<Rightarrow> ('c, 'r) dvbapi" where
  "delete_dvbapi D = D\<lparr>dv_sCCIAdapter := None, dv_sock := None, dv_plugin := None\<rparr>"

text \<open>What \<open>new\<close> leaves uninitialised: the DES schedules of the keys and three fields of each fill control.\<close>

record memory =
  mem_des :: "nat \<Rightarrow> u32 list list"
  mem_fill :: "nat \<Rightarrow> int \<times> int \<times> int"

definition slot_controls :: "memory \<Rightarrow> 'r adapter \<Rightarrow> (int \<times> fill_control) list" where
  "slot_controls M ad =
     concat (map (\<lambda>i. case ad_slots ad ! i of None \<Rightarrow> []
                      | Some (st, fr) \<Rightarrow> (case mem_fill M i of (c0, t0, d0) \<Rightarrow>
                          [(sl_card st, new_fill_control 200000 100 40 c0 t0 d0)])) [0..<length (ad_slots ad)])"

definition Start :: "'r vdr \<Rightarrow> memory \<Rightarrow> settings \<Rightarrow> ('c, 'r) dvbapi \<Rightarrow> (('c, 'r) dvbapi \<times> log \<times> bool) option" where
  "Start V M s D =
     (let l1 = INFOLOG s (''plugin version 2.2.8 initializing (VDR '' @ v_version V @ '')'') @
            INFOLOG s ''decryption library: FFdecsa'' @
            (if AdapterIndexOffset s \<noteq> 0
             then INFOLOG s (''Using value '' @ print_int (sint (AdapterIndexOffset s)) @ '' as the adapter index offset'') else []);
          pmt = []; decsa = new_decsa (mem_des M); pidmap = [];
          sock = \<lparr>sk_sock = -1, sk_faults = 0, sk_version = 0\<rparr>;
          l2 = INFOLOG s ''Creating sCCIAdapter''
      in do { (ad, l3) \<leftarrow> new_adapter V s;
              Some (D\<lparr>dv_plugin := Some \<lparr>pl_decsa = decsa, pl_pidmap = pidmap, pl_pmt = pmt, pl_slots = slot_controls M ad\<rparr>,
                      dv_sock := Some sock, dv_sCCIAdapter := Some ad\<rparr>,
                    l1 @ l2 @ l3 @ INFOLOG s ''plugin started'', True) })"

text \<open>What \<open>CloseConnection\<close> calls, on the object \<open>filter\<close>.\<close>

fun run_closing :: "call list \<Rightarrow> 'c plugin option \<Rightarrow> 'c plugin option option" where
  "run_closing [] p = Some p"
| "run_closing (Call_StopAllFilters # cs) p =
     do { p \<leftarrow> p; run_closing cs (Some (p\<lparr>pl_pidmap := StopAllFilters (pl_pidmap p)\<rparr>)) }"
| "run_closing (_ # cs) p = run_closing cs p"

text \<open>\<open>SocketHandler::Stop\<close>, once its thread has ended.\<close>

definition SocketHandler_Stop :: "sock_state \<Rightarrow> 'c plugin option \<Rightarrow> (sock_state \<times> 'c plugin option) option" where
  "SocketHandler_Stop sock p =
     (let (sock, cs) = CloseConnection sock in do { p \<leftarrow> run_closing cs p; Some (sock, p) })"

text \<open>\<open>Stop\<close>, with the slots that are taken off their devices.\<close>

definition Stop :: "settings \<Rightarrow> ('c, 'r) dvbapi \<Rightarrow> (('c, 'r) dvbapi \<times> nat list \<times> log) option" where
  "Stop s D =
     do { ad \<leftarrow> dv_sCCIAdapter D;
          let (ad, is) = Adapter_Stop ad;
          sock \<leftarrow> dv_sock D;
          (sock, p) \<leftarrow> SocketHandler_Stop sock (dv_plugin D);
          Some (D\<lparr>dv_plugin := p, dv_sCCIAdapter := Some ad, dv_sock := Some sock\<rparr>, is, INFOLOG s ''plugin stopped'') }"

definition Service :: "string \<Rightarrow> ecm_info option \<Rightarrow> ('c, 'r) dvbapi \<Rightarrow> (ecm_info option \<times> bool) option" where
  "Service Ident Data D =
     (case Data of
        None \<Rightarrow> Some (None, False)
      | Some ecminfo \<Rightarrow>
          (if Ident = ''GetEcmInfo''
           then do { p \<leftarrow> dv_plugin D;
                     let (ecminfo, ok) = FillEcmInfo (pl_pmt p) ecminfo;
                     Some (Some ecminfo, ok) }
           else Some (Data, False)))"

subsection \<open>Properties\<close>

lemma conf_names [simp]:
  "\<not> strcaseeq CONFNAME_OSCAMHOST CONFNAME_LOGLEVEL" "\<not> strcaseeq CONFNAME_OSCAMPORT CONFNAME_LOGLEVEL"
  "\<not> strcaseeq CONFNAME_OSCAMFASTECM CONFNAME_LOGLEVEL" "\<not> strcaseeq CONFNAME_OSCAMPORT CONFNAME_OSCAMHOST"
  "\<not> strcaseeq CONFNAME_OSCAMFASTECM CONFNAME_OSCAMHOST" "\<not> strcaseeq CONFNAME_OSCAMFASTECM CONFNAME_OSCAMPORT"
  by (simp_all add: strcaseeq_def tolower_def char_code_def CONFNAME_LOGLEVEL_def CONFNAME_OSCAMHOST_def
      CONFNAME_OSCAMPORT_def CONFNAME_OSCAMFASTECM_def)

lemma vdr_okD:
  "vdr_ok V \<Longrightarrow> 0 < n \<Longrightarrow> v_strn0cpy V t n = take (n - 1) t" "vdr_ok V \<Longrightarrow> v_int_text V v = print_int v"
  by (simp_all add: vdr_ok_def)

text \<open>Only the command line and the first setup line with an offset other than 0 set it.\<close>

lemma SetupParse_offset:
  "SetupParse V n v s = Some (s', l, ok) \<Longrightarrow> AdapterIndexOffset s \<noteq> 0 \<Longrightarrow> AdapterIndexOffset s' = AdapterIndexOffset s"
  by (auto simp: SetupParse_def split: if_splits bind_splits)

lemma parse_setup_offset:
  "parse_setup V ls s = Some (s', ok) \<Longrightarrow> AdapterIndexOffset s \<noteq> 0 \<Longrightarrow> AdapterIndexOffset s' = AdapterIndexOffset s"
proof (induction ls arbitrary: s s' ok)
  case (Cons x ls)
  obtain n v s1 l o1 o2 where "SetupParse V n v s = Some (s1, l, o1)" "parse_setup V ls s1 = Some (s', o2)"
    using Cons.prems(1) by (cases x) (fastforce simp: bind_eq_Some_conv)
  then show ?case using Cons.IH [of s1] Cons.prems(2) SetupParse_offset by metis
qed simp

lemma conf_offset [simp]:
  "\<not> strcaseeq CONFNAME_ADAPTERINDEXOFFSET CONFNAME_LOGLEVEL" "\<not> strcaseeq CONFNAME_ADAPTERINDEXOFFSET CONFNAME_OSCAMHOST"
  "\<not> strcaseeq CONFNAME_ADAPTERINDEXOFFSET CONFNAME_OSCAMPORT" "\<not> strcaseeq CONFNAME_ADAPTERINDEXOFFSET CONFNAME_OSCAMFASTECM"
  "strcaseeq CONFNAME_ADAPTERINDEXOFFSET CONFNAME_ADAPTERINDEXOFFSET"
  by (simp_all add: strcaseeq_def tolower_def char_code_def CONFNAME_LOGLEVEL_def CONFNAME_OSCAMHOST_def
      CONFNAME_OSCAMPORT_def CONFNAME_OSCAMFASTECM_def CONFNAME_ADAPTERINDEXOFFSET_def)

lemma word_of_int32_nonzero: "int32 v \<Longrightarrow> v \<noteq> 0 \<Longrightarrow> (word_of_int v :: u32) \<noteq> 0"
proof
  assume v: "int32 v" "v \<noteq> 0" and "(word_of_int v :: u32) = 0"
  moreover have "sint (word_of_int v :: u32) = v"
    using v(1) by (simp add: int32_def signed_of_int signed_take_bit_int_eq_self)
  ultimately show False by simp
qed

text \<open>C31: what the setup menu stores is what the plugin reads at its next start. The lines \<open>Store\<close> gives to VDR's setup
  file are all accepted by \<open>SetupParse\<close>, whatever the settings are before, and set exactly the four stored settings to
  what \<open>Store\<close> made of them: the log level cut to 3, the host cut to its buffer. An offset other than 0 given on the
  command line survives every setup file; the offset 0 (\<open>-o 0\<close>) does not: it cannot be told from none, and an offset
  of the setup file replaces it.\<close>

theorem setup_roundtrip:
  assumes V: "vdr_ok V" and m: "int32 (newLogLevel m)" "int32 (newOSCamPort m)" "int32 (newENABLEFASTECM m)"
  shows "\<exists>m' s' ls. Store V m s = (m', s', ls) \<and>
    LogLevel s' = min (newLogLevel m) 3 \<and> OSCamHost s' = take 63 (newOSCamHost m) \<and>
    parse_setup V ls s0 = Some (s'\<lparr>AdapterIndexOffset := AdapterIndexOffset s0\<rparr>, True) \<and>
    (\<forall>v. int32 v \<and> v \<noteq> 0 \<longrightarrow>
       (\<exists>s1. ProcessArgs [(CHR ''o'', print_int v)] s0 = Some (s1, True) \<and> AdapterIndexOffset s1 = word_of_int v \<and>
          (\<forall>rest s2 ok. parse_setup V rest s1 = Some (s2, ok) \<longrightarrow> AdapterIndexOffset s2 = word_of_int v))) \<and>
    (\<forall>v. int32 v \<longrightarrow>
       (\<exists>s1. ProcessArgs [(CHR ''o'', print_int 0)] s0 = Some (s1, True) \<and> AdapterIndexOffset s1 = 0 \<and>
          parse_setup V [(CONFNAME_ADAPTERINDEXOFFSET, print_int v)] s1 =
            Some (s1\<lparr>AdapterIndexOffset := word_of_int v\<rparr>, True)))"
proof -
  let ?l = "min (newLogLevel m) 3"
  have l: "int32 ?l" using m(1) by (auto simp: int32_def)
  obtain m' s' ls where st: "Store V m s = (m', s', ls)" by (cases "Store V m s")
  then have s': "LogLevel s' = ?l" "OSCamHost s' = take 63 (newOSCamHost m)" "OSCamPort s' = newOSCamPort m"
      "ENABLEFASTECM s' = newENABLEFASTECM m"
    and ls: "ls = [(CONFNAME_LOGLEVEL, print_int ?l), (CONFNAME_OSCAMHOST, take 63 (newOSCamHost m)),
      (CONFNAME_OSCAMPORT, print_int (newOSCamPort m)), (CONFNAME_OSCAMFASTECM, print_int (newENABLEFASTECM m))]"
    using V by (auto simp: Store_def Let_def vdr_okD HOST_NAME_MAX_def split: if_splits)
  have "parse_setup V ls s0 = Some (s'\<lparr>AdapterIndexOffset := AdapterIndexOffset s0\<rparr>, True)"
    using V m l s' by (simp add: ls SetupParse_def atoi_print_int vdr_okD HOST_NAME_MAX_def)
  moreover have "\<exists>s1. ProcessArgs [(CHR ''o'', print_int v)] s0 = Some (s1, True) \<and> AdapterIndexOffset s1 = word_of_int v \<and>
          (\<forall>rest s2 ok. parse_setup V rest s1 = Some (s2, ok) \<longrightarrow> AdapterIndexOffset s2 = word_of_int v)"
    if "int32 v \<and> v \<noteq> 0" for v
    using that parse_setup_offset [of V _ "s0\<lparr>AdapterIndexOffset := word_of_int v\<rparr>"] word_of_int32_nonzero [of v]
    by (auto simp: atoi_print_int)
  moreover have "int32 0" by (simp add: int32_def)
  then have "\<exists>s1. ProcessArgs [(CHR ''o'', print_int 0)] s0 = Some (s1, True) \<and> AdapterIndexOffset s1 = 0 \<and>
          parse_setup V [(CONFNAME_ADAPTERINDEXOFFSET, print_int v)] s1 = Some (s1\<lparr>AdapterIndexOffset := word_of_int v\<rparr>, True)"
    if "int32 v" for v
    using that by (simp add: atoi_print_int SetupParse_def)
  ultimately show ?thesis using st s' by blast
qed

text \<open>Two devices, one of them with provided systems, and a buffer that is a list of bytes.\<close>

definition vdr0 :: "bytes vdr" where
  "vdr0 = \<lparr>v_version = ''2.6'', v_strn0cpy = (\<lambda>s n. take (n - 1) s), v_int_text = print_int, v_MAXDEVICES = 3,
     v_devices = [Some (0, 0), None, Some (2, 1)], v_ring = list_ring, v_new_ring = (\<lambda>n k. [])\<rparr>"

lemma vdr0_ok: "vdr_ok vdr0"
  by (simp add: vdr_ok_def vdr0_def)

theorem setup_roundtrip_witness:
  "\<exists>m' s' ls. Store vdr0 ((cMenuSetupDVBAPI vdr0 default_settings)\<lparr>newLogLevel := 7\<rparr>) default_settings = (m', s', ls) \<and>
     LogLevel s' = 3 \<and> parse_setup vdr0 ls (default_settings\<lparr>LogLevel := 0\<rparr>) = Some (s', True)"
proof -
  have m: "int32 (newLogLevel ((cMenuSetupDVBAPI vdr0 default_settings)\<lparr>newLogLevel := 7\<rparr>))"
    "int32 (newOSCamPort ((cMenuSetupDVBAPI vdr0 default_settings)\<lparr>newLogLevel := 7\<rparr>))"
    "int32 (newENABLEFASTECM ((cMenuSetupDVBAPI vdr0 default_settings)\<lparr>newLogLevel := 7\<rparr>))"
    by (simp_all add: int32_def cMenuSetupDVBAPI_def default_settings_def)
  show ?thesis
    using setup_roundtrip [OF vdr0_ok m, of default_settings "default_settings\<lparr>LogLevel := 0\<rparr>"]
    by (auto simp: Store_def default_settings_def cMenuSetupDVBAPI_def)
qed

subsection \<open>From start to stop\<close>

text \<open>The card indices of the devices that get a slot.\<close>

definition provided :: "(int \<times> int) option list \<Rightarrow> int list" where
  "provided ds = concat (map (\<lambda>d. case d of None \<Rightarrow> [] | Some (cardIdx, systems) \<Rightarrow> if systems \<noteq> 0 then [cardIdx] else []) ds)"

lemma provided_simps [simp]:
  "provided [] = []" "provided (None # ds) = provided ds"
  "provided (Some (cardIdx, systems) # ds) = (if systems \<noteq> 0 then cardIdx # provided ds else provided ds)"
  by (simp_all add: provided_def)

lemma length_provided: "length (provided ds) \<le> length ds"
proof (induction ds)
  case (Cons d ds)
  then show ?case by (cases d) (auto simp: le_SucI)
qed simp

lemma create_slots_ok:
  "\<exists>l. create_slots V s ds (length xs) (xs @ replicate (length (provided ds) + n) None) =
     Some (xs @ map (\<lambda>c. Some (new_cam_slot V c)) (provided ds) @ replicate n None, l)"
proof (induction ds arbitrary: xs)
  case (Cons d ds)
  show ?case
  proof (cases "\<exists>c y. d = Some (c, y) \<and> y \<noteq> 0")
    case True
    then obtain c y where d: "d = Some (c, y)" "y \<noteq> 0" by blast
    show ?thesis using Cons.IH [of "xs @ [Some (new_cam_slot V c)]"] d
      by (auto simp: Let_def list_update_append)
  next
    case False
    then show ?thesis using Cons.IH [of xs] by (cases d) auto
  qed
qed simp

lemma new_adapter_ok:
  assumes "vdr_ok V"
  shows "\<exists>ad l. new_adapter V s = Some (ad, l) \<and> \<not> ad_stopped ad \<and>
    ad_slots ad = map (\<lambda>c. Some (new_cam_slot V c)) (provided (v_devices V)) @
      replicate (v_MAXDEVICES V - length (provided (v_devices V))) None"
proof -
  have "length (provided (v_devices V)) \<le> v_MAXDEVICES V"
    using assms length_provided [of "v_devices V"] by (simp add: vdr_ok_def)
  then show ?thesis
    using create_slots_ok [of V s "v_devices V" "[]" "v_MAXDEVICES V - length (provided (v_devices V))"]
    by (auto simp: new_adapter_def)
qed

lemma new_cam_slot_card: "sl_card (fst (new_cam_slot V c)) = c" "sl_reset (fst (new_cam_slot V c))"
  by (simp_all add: new_cam_slot_def new_slot_def ResetSlot_def)

lemma provided_cards:
  assumes "vdr_ok V" "c \<in> set (provided (v_devices V))"
  shows "0 \<le> c \<and> c < 256"
  using assms by (fastforce simp: vdr_ok_def provided_def split: option.splits if_splits)

lemma slot_controls_ok:
  assumes "ad_slots ad = map (\<lambda>c. Some (new_cam_slot V c)) cs @ replicate n None"
  shows "map fst (slot_controls M ad) = cs \<and> list_all (\<lambda>s. wf_fill (snd s)) (slot_controls M ad)"
proof -
  let ?f = "\<lambda>i. case ad_slots ad ! i of None \<Rightarrow> []
      | Some (st, fr) \<Rightarrow> (case mem_fill M i of (c0, t0, d0) \<Rightarrow> [(sl_card st, new_fill_control 200000 100 40 c0 t0 d0)])"
  have f1: "map fst (?f i) = [cs ! i] \<and> list_all (\<lambda>s. wf_fill (snd s)) (?f i)" if "i < length cs" for i
    using that assms new_cam_slot_card [of V "cs ! i"]
    by (auto simp: nth_append wf_new_fill_control split: prod.splits)
  have f2: "?f i = []" if "length cs \<le> i" "i < length cs + n" for i
    using that assms by (simp add: nth_append)
  have "concat (map ?f [0..<length cs + n]) = concat (map ?f [0..<length cs]) @ concat (map ?f [length cs..<length cs + n])"
    by (simp only: upt_add_eq_append [OF le0] map_append concat_append)
  moreover have "concat (map ?f [length cs..<length cs + n]) = []" using f2 by (simp add: concat_eq_Nil_conv)
  ultimately have e: "slot_controls M ad = concat (map ?f [0..<length cs])"
    using assms by (simp add: slot_controls_def)
  have "map fst (concat (map ?f [0..<length cs])) = concat (map (\<lambda>i. map fst (?f i)) [0..<length cs])"
    by (simp add: map_concat comp_def)
  also have "\<dots> = concat (map (\<lambda>i. [cs ! i]) [0..<length cs])"
    by (rule arg_cong [where f = concat], rule map_cong [OF refl]) (use f1 in simp)
  also have "\<dots> = cs" by (simp add: map_nth)
  finally have "map fst (slot_controls M ad) = cs" by (simp add: e)
  moreover have "list_all (\<lambda>s. wf_fill (snd s)) (slot_controls M ad)"
    unfolding e list_all_iff set_concat set_map using f1 unfolding list_all_iff by (simp del: split_paired_All)
  ultimately show ?thesis by simp
qed

lemma Start_ok:
  assumes V: "vdr_ok V" and M: "\<And>i. length (mem_des M i) = 2"
  shows "\<exists>D pl ad l. Start V M s (new_dvbapi :: ('c, 'r) dvbapi) = Some (D, l, True) \<and>
    dv_plugin D = Some pl \<and> dv_sCCIAdapter D = Some ad \<and> dv_sock D = Some \<lparr>sk_sock = -1, sk_faults = 0, sk_version = 0\<rparr> \<and>
    ad_slots ad = map (\<lambda>c. Some (new_cam_slot V c)) (provided (v_devices V)) @
      replicate (v_MAXDEVICES V - length (provided (v_devices V))) None \<and>
    pl_pmt pl = [] \<and> pl_slots pl = slot_controls M ad \<and> wf_plugin pl"
proof -
  obtain ad l where ad: "new_adapter V s = Some (ad, l)"
    "ad_slots ad = map (\<lambda>c. Some (new_cam_slot V c)) (provided (v_devices V)) @
      replicate (v_MAXDEVICES V - length (provided (v_devices V))) None"
    using new_adapter_ok [OF V] by blast
  let ?pl = "\<lparr>pl_decsa = new_decsa (mem_des M), pl_pidmap = [], pl_pmt = [], pl_slots = slot_controls M ad\<rparr> :: 'c plugin"
  note sc = slot_controls_ok [OF ad(2), of M]
  have "fst ` set (slot_controls M ad) = set (provided (v_devices V))" using sc by (metis list.set_map)
  then have "list_all slot_ok (slot_controls M ad)"
    using sc provided_cards [OF V] by (fastforce simp: list_all_iff slot_ok_def)
  then have "wf_plugin ?pl"
    using M by (simp add: wf_plugin_def wf_new_decsa wf_pidmap_def wf_pmt_def)
  then show ?thesis using ad by (simp add: Start_def new_dvbapi_def Let_def)
qed

lemma Stop_ok:
  assumes "dv_plugin D = Some pl" "dv_sCCIAdapter D = Some ad" "dv_sock D = Some sock"
    "ad_slots ad = map (\<lambda>c. Some (new_cam_slot V c)) cs @ replicate n None"
  shows "\<exists>l. Stop s D = Some (D\<lparr>dv_plugin := Some (if 0 \<le> sk_sock sock then pl\<lparr>pl_pidmap := []\<rparr> else pl),
        dv_sCCIAdapter := Some (ad\<lparr>ad_stopped := True\<rparr>), dv_sock := Some (sock\<lparr>sk_sock := -1\<rparr>)\<rparr>, [0..<length cs], l)"
proof -
  have 1: "filter (\<lambda>i. case ad_slots ad ! i of None \<Rightarrow> False | Some (st, fr) \<Rightarrow> slot_Assign st None) [0..<length cs] = [0..<length cs]"
    using assms(4) by (intro filter_True) (auto simp: nth_append slot_Assign_def split: prod.splits)
  have 2: "filter (\<lambda>i. case ad_slots ad ! i of None \<Rightarrow> False | Some (st, fr) \<Rightarrow> slot_Assign st None)
      [length cs..<length cs + n] = []"
    using assms(4) by (intro filter_False) (auto simp: nth_append)
  have l: "length (ad_slots ad) = length cs + n" using assms(4) by simp
  have "snd (Adapter_Stop ad) = [0..<length cs]"
    unfolding Adapter_Stop_def snd_conv l upt_add_eq_append [OF le0] filter_append 1 2 by simp
  then show ?thesis using assms(1-3)
    by (simp add: Stop_def SocketHandler_Stop_def Adapter_Stop_def CloseConnection_def StopAllFilters_def Let_def)
qed



end
